(* ===== verification/Prelude.thy ===== *)
theory Prelude
  imports Main "HOL-Library.Word"
begin

text \<open>
  Shared vocabulary of the development: the machine integer types of the C++ sources and the
  exceptions its functions raise, with the sequencing of computations that may raise.
\<close>

unbundle bit_operations_syntax

named_theorems limb_simps \<open>values of the limb operations\<close>
named_theorems sn_simps \<open>results of the decimal number operations\<close>
named_theorems store_simps \<open>reads after writes of a contract store\<close>
named_theorems api_defs \<open>unfolding of contract entry points\<close>

section \<open>Machine integers\<close>

type_synonym u8 = "8 word"
type_synonym u16 = "16 word"
type_synonym u32 = "32 word"
type_synonym u64 = "64 word"

section \<open>Exceptions\<close>

text \<open>
  \<open>Uvm_exception\<close> is \<^verbatim>\<open>throw_error\<close> of the native contracts, \<open>Fc_assert\<close> a failing
  \<^verbatim>\<open>FC_ASSERT\<close>, the others are exceptions of the C++ standard library or of
  \<^verbatim>\<open>fc\<close> that the sources let escape. \<open>Process_exit\<close> is a call of \<^verbatim>\<open>exit\<close>, \<open>Terminate_called\<close> a \<^verbatim>\<open>throw;\<close>
  without an exception, and \<open>Undefined_behaviour\<close> an operation the language leaves undefined.
\<close>

datatype cpp_error =
    Uvm_exception string
  | Fc_assert string
  | Fc_parse_error string
  | Domain_error
  | Invalid_argument
  | Out_of_range
  | Cbor_exception string
  | Cbor_encode_exception string
  | Cbor_decode_exception string
  | Length_error
  | Unlinkable_block_exception
  | Deserialize_fork_database_failed
  | Ios_base_failure
  | Key_not_found_exception string
  | Pop_empty_chain string
  | Process_exit
  | Terminate_called
  | Undefined_behaviour string

type_synonym 'a result = "cpp_error + 'a"

definition ebind :: "'a result \<Rightarrow> ('a \<Rightarrow> 'b result) \<Rightarrow> 'b result" where
  "ebind m f = (case m of Inl e \<Rightarrow> Inl e | Inr x \<Rightarrow> f x)"

lemma ebind_simps [simp]:
  "ebind (Inl e) f = Inl e"
  "ebind (Inr x) f = f x"
  by (simp_all add: ebind_def)

lemma ebind_assoc: "ebind (ebind m f) g = ebind m (\<lambda>x. ebind (f x) g)"
  by (cases m) simp_all

lemma ebind_eq_Inr: "ebind m f = Inr y \<longleftrightarrow> (\<exists>x. m = Inr x \<and> f x = Inr y)"
  by (cases m) simp_all

lemma ebind_cong [fundef_cong]:
  "m = m' \<Longrightarrow> (\<And>x. m' = Inr x \<Longrightarrow> f x = f' x) \<Longrightarrow> ebind m f = ebind m' f'"
  by (cases m') simp_all

end
