(* ===== verification/Digits.thy ===== *)
theory Digits
  imports Prelude
begin

text \<open>
  Numerals in a base: the reference for the printers of the sources
  (\<^verbatim>\<open>simple_uint128_to_string\<close>, \<^verbatim>\<open>std::to_string\<close>) and the value of a string of digits,
  with the round trip between them.
\<close>

definition digit_char :: "nat \<Rightarrow> char" where
  "digit_char d = ''0123456789abcdef'' ! d"

definition digit_val :: "char \<Rightarrow> nat" where
  "digit_val c = (let n = of_char c in if n < 58 then n - 48 else n - 87)"

function nat_to_string :: "nat \<Rightarrow> nat \<Rightarrow> string" where
  "nat_to_string b n = (if b < 2 \<or> n < b then [digit_char n]
     else nat_to_string b (n div b) @ [digit_char (n mod b)])"
  by pat_completeness auto
termination
  by (relation "measure snd") simp_all

declare nat_to_string.simps [simp del]

definition of_digits :: "nat \<Rightarrow> string \<Rightarrow> nat" where
  "of_digits b s = foldl (\<lambda>n c. n * b + digit_val c) 0 s"

definition is_dec_digit :: "char \<Rightarrow> bool" where
  "is_dec_digit c \<longleftrightarrow> c \<in> set ''0123456789''"

definition pad_left :: "nat \<Rightarrow> string \<Rightarrow> string" where
  "pad_left len s = (if length s < len then replicate (len - length s) CHR ''0'' @ s else s)"

lemma less_16_cases:
  fixes d :: nat
  assumes "d < 16"
  shows "d = 0 \<or> d = 1 \<or> d = 2 \<or> d = 3 \<or> d = 4 \<or> d = 5 \<or> d = 6 \<or> d = 7 \<or> d = 8 \<or> d = 9
    \<or> d = 10 \<or> d = 11 \<or> d = 12 \<or> d = 13 \<or> d = 14 \<or> d = 15"
  using assms by presburger

lemma digit_val_char [simp]: "d < 16 \<Longrightarrow> digit_val (digit_char d) = d"
  by (drule less_16_cases) (auto simp: digit_val_def digit_char_def)

lemma is_dec_digit_char [simp]: "d < 10 \<Longrightarrow> is_dec_digit (digit_char d)"
  using less_16_cases [of d] by (auto simp: is_dec_digit_def digit_char_def)

lemma of_digits_append [simp]: "of_digits b (s @ [c]) = of_digits b s * b + digit_val c"
  by (simp add: of_digits_def)

lemma of_digits_Nil [simp]: "of_digits b [] = 0"
  by (simp add: of_digits_def)

lemma of_digits_single [simp]: "of_digits b [c] = digit_val c"
  by (simp add: of_digits_def)

lemma of_digits_nat_to_string:
  "2 \<le> b \<Longrightarrow> b \<le> 16 \<Longrightarrow> of_digits b (nat_to_string b n) = n"
proof (induction b n rule: nat_to_string.induct)
  case (1 b n)
  show ?case
  proof (cases "n < b")
    case False
    have "n mod b < 16"
      using 1(2,3) mod_less_divisor [of b n] by linarith
    then show ?thesis
      using 1 False by (simp add: nat_to_string.simps [of b n] div_mult_mod_eq)
  qed (use 1 in \<open>simp add: nat_to_string.simps [of b n]\<close>)
qed

lemma nat_to_string_digits: "\<forall>c \<in> set (nat_to_string 10 n). is_dec_digit c"
proof (induction "10 :: nat" n rule: nat_to_string.induct)
  case (1 n)
  then show ?case by (simp add: nat_to_string.simps [of 10 n])
qed

lemma nat_to_string_not_Nil [simp]: "nat_to_string b n \<noteq> []"
  by (subst nat_to_string.simps) simp

lemma of_digits_zeros: "of_digits b (replicate n CHR ''0'' @ s) = of_digits b s"
proof -
  have "foldl (\<lambda>n c. n * b + digit_val c) 0 (replicate n CHR ''0'') = 0"
    by (induction n) (simp_all add: digit_val_def)
  then show ?thesis by (simp add: of_digits_def)
qed

lemma of_digits_pad_left [simp]: "of_digits b (pad_left len s) = of_digits b s"
  by (simp add: pad_left_def of_digits_zeros)

lemma of_digits_append_gen: "of_digits b (s @ t) = of_digits b s * b ^ length t + of_digits b t"
proof (induction t rule: rev_induct)
  case (snoc c t)
  have "of_digits b (s @ t @ [c]) = of_digits b (s @ t) * b + digit_val c"
    by (metis append_assoc of_digits_append)
  then show ?case using snoc by (simp add: algebra_simps)
qed simp

lemma length_nat_to_string: "n < 10 ^ k \<Longrightarrow> 0 < k \<Longrightarrow> length (nat_to_string 10 n) \<le> k"
proof (induction k arbitrary: n)
  case (Suc k)
  show ?case
  proof (cases "n < 10")
    case False
    then have "0 < k" using Suc.prems(1) by (cases k) auto
    moreover have "n div 10 < 10 ^ k" using Suc.prems(1) by (simp add: less_mult_imp_div_less mult.commute)
    ultimately have "length (nat_to_string 10 (n div 10)) \<le> k" by (intro Suc.IH)
    then show ?thesis using False by (simp add: nat_to_string.simps [of 10 n])
  qed (simp add: nat_to_string.simps [of 10 n])
qed simp

lemma length_pad_left: "length s \<le> len \<Longrightarrow> length (pad_left len s) = len"
  by (simp add: pad_left_def)

lemma set_pad_left: "set (pad_left len s) \<subseteq> insert CHR ''0'' (set s)"
  by (auto simp: pad_left_def)

end
