(* ===== verification/Cpp_Std.thy ===== *)
theory Cpp_Std
  imports Digits "HOL-Library.Char_ord" "HOL-Library.List_Lexorder"
begin

text \<open>
  What the contracts use of the C++ standard library and of Boost: splitting and trimming
  of argument strings, the number syntax of \<^verbatim>\<open>strtod\<close> behind \<^verbatim>\<open>is_numeric\<close> and
  \<^verbatim>\<open>is_integral\<close>, \<^verbatim>\<open>std::stoll\<close>, \<^verbatim>\<open>std::to_string\<close> and the ordered \<^verbatim>\<open>std::map\<close> with string
  keys. Strings are lists of bytes, compared byte-wise as unsigned numbers.
\<close>

section \<open>Strings\<close>

definition is_space :: "char \<Rightarrow> bool" where
  "is_space c \<longleftrightarrow> of_char c \<in> {9, 10, 11, 12, 13, 32 :: nat}"

definition trim :: "string \<Rightarrow> string" where
  "trim s = rev (dropWhile is_space (rev (dropWhile is_space s)))"

text \<open>\<^verbatim>\<open>boost::split\<close> at every comma; a string without a comma is one part.\<close>

fun split_comma :: "string \<Rightarrow> string list" where
  "split_comma [] = [[]]"
| "split_comma (c # cs) =
    (if c = CHR '','' then [] # split_comma cs
     else case split_comma cs of [] \<Rightarrow> [[c]] | p # ps \<Rightarrow> (c # p) # ps)"

text \<open>\<^verbatim>\<open>c_str()\<close> read up to the terminating zero byte.\<close>

definition c_str :: "string \<Rightarrow> string" where
  "c_str s = takeWhile (\<lambda>c. of_char c \<noteq> (0 :: nat)) s"

section \<open>Number syntax\<close>

definition lower :: "char \<Rightarrow> char" where
  "lower c = (let n = of_char c :: nat in if 65 \<le> n \<and> n \<le> 90 then char_of (n + 32) else c)"

definition is_hex_digit :: "char \<Rightarrow> bool" where
  "is_hex_digit c \<longleftrightarrow> lower c \<in> set ''0123456789abcdef''"

definition skip_sign :: "string \<Rightarrow> string" where
  "skip_sign s = (case s of [] \<Rightarrow> [] | c # cs \<Rightarrow> if c = CHR ''+'' \<or> c = CHR ''-'' then cs else s)"

definition skip_prefix :: "string \<Rightarrow> string \<Rightarrow> string option" where
  "skip_prefix p s = (if map lower (take (length p) s) = p then Some (drop (length p) s) else None)"

text \<open>Digits, at most one point, at least one digit; what follows them.\<close>

definition skip_mantissa :: "(char \<Rightarrow> bool) \<Rightarrow> string \<Rightarrow> string option" where
  "skip_mantissa dig s =
    (let a = takeWhile dig s; r = dropWhile dig s
     in case r of
          c # cs \<Rightarrow> if c = CHR ''.'' \<and> (a \<noteq> [] \<or> takeWhile dig cs \<noteq> []) then Some (dropWhile dig cs)
                    else if a \<noteq> [] then Some r else None
        | [] \<Rightarrow> if a \<noteq> [] then Some r else None)"

definition skip_exponent :: "char \<Rightarrow> string \<Rightarrow> string" where
  "skip_exponent x s =
    (case s of
       c # cs \<Rightarrow> if lower c = x \<and> takeWhile is_dec_digit (skip_sign cs) \<noteq> []
                 then dropWhile is_dec_digit (skip_sign cs) else s
     | [] \<Rightarrow> [])"

definition skip_nan_suffix :: "string \<Rightarrow> string" where
  "skip_nan_suffix s =
    (case s of
       c # cs \<Rightarrow>
         if c = CHR ''('' then
           (case dropWhile (\<lambda>d. is_dec_digit d \<or> lower d \<in> set ''abcdefghijklmnopqrstuvwxyz_'') cs of
              d # ds \<Rightarrow> if d = CHR '')'' then ds else s
            | [] \<Rightarrow> s)
         else s
     | [] \<Rightarrow> [])"

text \<open>The part of the string after the longest number \<^verbatim>\<open>strtod\<close> accepts, the whole string if there is none.\<close>

definition strtod_number :: "string \<Rightarrow> string option" where
  "strtod_number u =
    (case skip_prefix ''infinity'' u of Some r \<Rightarrow> Some r | None \<Rightarrow>
     case skip_prefix ''inf'' u of Some r \<Rightarrow> Some r | None \<Rightarrow>
     case skip_prefix ''nan'' u of Some r \<Rightarrow> Some (skip_nan_suffix r) | None \<Rightarrow>
     case (case skip_prefix ''0x'' u of Some r \<Rightarrow> skip_mantissa is_hex_digit r | None \<Rightarrow> None) of
       Some r \<Rightarrow> Some (skip_exponent CHR ''p'' r)
     | None \<Rightarrow> map_option (skip_exponent CHR ''e'') (skip_mantissa is_dec_digit u))"

definition strtod_end :: "string \<Rightarrow> string" where
  "strtod_end s = (case strtod_number (skip_sign (dropWhile is_space s)) of Some r \<Rightarrow> r | None \<Rightarrow> s)"

definition is_numeric :: "string \<Rightarrow> bool" where
  "is_numeric number \<longleftrightarrow> strtod_end (c_str number) = []"

definition is_integral :: "string \<Rightarrow> bool" where
  "is_integral number \<longleftrightarrow> is_numeric (c_str number) \<and> CHR ''.'' \<notin> set (c_str number)"

text \<open>\<^verbatim>\<open>std::stoll\<close> reads the longest decimal prefix and ignores the rest.\<close>

definition stoll :: "string \<Rightarrow> int result" where
  "stoll s =
    (let u = dropWhile is_space (c_str s);
         ds = takeWhile is_dec_digit (skip_sign u);
         v = (if u \<noteq> [] \<and> hd u = CHR ''-'' then - int (of_digits 10 ds) else int (of_digits 10 ds))
     in if ds = [] then Inl Invalid_argument
        else if v < - (2 ^ 63) \<or> v \<ge> 2 ^ 63 then Inl Out_of_range
        else Inr v)"

text \<open>
  \<^verbatim>\<open>fc::to_int64\<close> and \<^verbatim>\<open>fc::to_uint64\<close>, a \<^verbatim>\<open>boost::lexical_cast\<close> of the C string: the whole string is one
  number. A minus sign in front of an unsigned number negates it modulo \<open>2 ^ 64\<close>.
\<close>

definition to_uint64 :: "string \<Rightarrow> int result" where
  "to_uint64 i =
    (let s = c_str i; ds = skip_sign s; v = int (of_digits 10 ds)
     in if ds = [] \<or> \<not> list_all is_dec_digit ds \<or> v \<ge> 2 ^ 64
        then Inl (Fc_parse_error ''Couldn't parse uint64_t'')
        else Inr (if hd s = CHR ''-'' then (- v) mod 2 ^ 64 else v))"

definition to_int64 :: "string \<Rightarrow> int result" where
  "to_int64 i =
    (let s = c_str i; ds = skip_sign s;
         v = (if s \<noteq> [] \<and> hd s = CHR ''-'' then - int (of_digits 10 ds) else int (of_digits 10 ds))
     in if ds = [] \<or> \<not> list_all is_dec_digit ds \<or> v < - (2 ^ 63) \<or> v \<ge> 2 ^ 63
        then Inl (Fc_parse_error ''Couldn't parse int64_t'') else Inr v)"

definition int_to_string :: "int \<Rightarrow> string" where
  "int_to_string v = (if v < 0 then ''-'' @ nat_to_string 10 (nat (- v)) else nat_to_string 10 (nat v))"

section \<open>Ordered maps\<close>

text \<open>
  \<^verbatim>\<open>std::map\<close> as a list sorted by key, which fixes the order of iteration, and \<^verbatim>\<open>std::set\<close> as a
  sorted list.
\<close>

type_synonym 'v std_map = "(string \<times> 'v) list"

definition std_map_find :: "('k :: linorder \<times> 'v) list \<Rightarrow> 'k \<Rightarrow> 'v option" where
  "std_map_find m k = map_of m k"

fun std_map_set :: "'k :: linorder \<Rightarrow> 'v \<Rightarrow> ('k \<times> 'v) list \<Rightarrow> ('k \<times> 'v) list" where
  "std_map_set k v [] = [(k, v)]"
| "std_map_set k v ((k', v') # m) =
    (if k < k' then (k, v) # (k', v') # m
     else if k = k' then (k, v) # m
     else (k', v') # std_map_set k v m)"

definition std_map_erase :: "'k :: linorder \<Rightarrow> ('k \<times> 'v) list \<Rightarrow> ('k \<times> 'v) list" where
  "std_map_erase k m = filter (\<lambda>p. fst p \<noteq> k) m"

definition std_map_wf :: "('k :: linorder \<times> 'v) list \<Rightarrow> bool" where
  "std_map_wf m \<longleftrightarrow> sorted_wrt (<) (map fst m)"

text \<open>The laws a finite map keeps, whatever represents it.\<close>

locale finite_map_ops =
  fixes find :: "'m \<Rightarrow> 'k \<Rightarrow> 'v option"
    and put :: "'k \<Rightarrow> 'v \<Rightarrow> 'm \<Rightarrow> 'm"
    and erase :: "'k \<Rightarrow> 'm \<Rightarrow> 'm"
    and wf :: "'m \<Rightarrow> bool"
  assumes find_put: "find (put k v m) k' = (if k' = k then Some v else find m k')"
    and find_erase: "find (erase k m) k' = (if k' = k then None else find m k')"
    and wf_put: "wf m \<Longrightarrow> wf (put k v m)"
    and wf_erase: "wf m \<Longrightarrow> wf (erase k m)"
begin

lemma put_put_find: "find (put k v (put k v' m)) k' = find (put k v m) k'"
  by (simp add: find_put)

lemma put_erase_find: "find (erase k (put k v m)) k' = find (erase k m) k'"
  by (simp add: find_put find_erase)

end

lemma fst_std_map_set: "fst ` set (std_map_set k v m) = insert k (fst ` set m)"
  by (induction k v m rule: std_map_set.induct) (auto split: if_splits)

interpretation std_map: finite_map_ops std_map_find std_map_set std_map_erase std_map_wf
proof unfold_locales
  fix k k' :: "'k :: linorder" and v :: 'v and m :: "('k \<times> 'v) list"
  show "std_map_find (std_map_set k v m) k' = (if k' = k then Some v else std_map_find m k')"
    by (induction k v m rule: std_map_set.induct) (auto simp: std_map_find_def)
  show "std_map_find (std_map_erase k m) k' = (if k' = k then None else std_map_find m k')"
    by (induction m) (auto simp: std_map_find_def std_map_erase_def)
  show "std_map_wf (std_map_set k v m)" if "std_map_wf m"
    using that fst_std_map_set [of k v]
    by (induction k v m rule: std_map_set.induct) (fastforce simp: std_map_wf_def)+
  show "std_map_wf (std_map_erase k m)" if "std_map_wf m"
    using that by (induction m) (auto simp: std_map_wf_def std_map_erase_def)
qed

lemma std_map_set_append: "std_map_wf (m @ [(k, x)]) \<Longrightarrow> std_map_set k x m = m @ [(k, x)]"
proof (induction m)
  case (Cons a m)
  obtain k' x' where a: "a = (k', x')" by (cases a)
  have "k' < k" "std_map_wf (m @ [(k, x)])" using Cons.prems a by (simp_all add: std_map_wf_def)
  then show ?case using Cons.IH a by auto
qed simp

lemma std_map_wf_take: "std_map_wf (m @ n) \<Longrightarrow> std_map_wf m"
  by (simp add: std_map_wf_def sorted_wrt_append)

section \<open>Printed numbers are read back\<close>

lemma dec_digit_facts:
  assumes "is_dec_digit c"
  shows "\<not> is_space c" "of_char c \<noteq> (0 :: nat)" "c \<noteq> CHR ''+''" "c \<noteq> CHR ''-''" "c \<noteq> CHR ''.''"
    "c \<noteq> CHR '',''" "lower c = c"
  using assms by (auto simp: is_dec_digit_def is_space_def lower_def)

lemma takeWhile_all: "\<forall>c \<in> set s. P c \<Longrightarrow> takeWhile P s = s" "\<forall>c \<in> set s. P c \<Longrightarrow> dropWhile P s = []"
  by (simp_all add: takeWhile_eq_all_conv)

lemma nat_string_shape:
  obtains d ds where "nat_to_string 10 n = d # ds" "is_dec_digit d" "\<forall>c \<in> set ds. is_dec_digit c"
  using nat_to_string_digits [of n] by (cases "nat_to_string 10 n") auto

lemma c_str_int_to_string: "c_str (int_to_string v) = int_to_string v"
proof -
  have "\<forall>c \<in> set (nat_to_string 10 n). of_char c \<noteq> (0 :: nat)" for n
    using nat_to_string_digits [of n] dec_digit_facts(2) by blast
  then show ?thesis
    unfolding c_str_def by (intro takeWhile_all) (auto simp: int_to_string_def)
qed

lemma int_to_string_shape:
  "dropWhile is_space (int_to_string v) = int_to_string v"
  "skip_sign (int_to_string v) = nat_to_string 10 (nat \<bar>v\<bar>)"
  "int_to_string v \<noteq> []" "hd (int_to_string v) = CHR ''-'' \<longleftrightarrow> v < 0"
proof -
  obtain d ds where d: "nat_to_string 10 (nat \<bar>v\<bar>) = d # ds" "is_dec_digit d"
    using nat_string_shape [of "nat \<bar>v\<bar>"] by metis
  then have s: "int_to_string v = (if v < 0 then CHR ''-'' # d # ds else d # ds)"
    by (auto simp: int_to_string_def)
  show "dropWhile is_space (int_to_string v) = int_to_string v"
    "skip_sign (int_to_string v) = nat_to_string 10 (nat \<bar>v\<bar>)"
    "int_to_string v \<noteq> []" "hd (int_to_string v) = CHR ''-'' \<longleftrightarrow> v < 0"
    using s d dec_digit_facts [OF d(2)] by (simp_all add: skip_sign_def is_space_def)
qed

lemma stoll_int_to_string:
  assumes "- (2 ^ 63) \<le> v" "v < 2 ^ 63"
  shows "stoll (int_to_string v) = Inr v"
proof -
  let ?n = "nat \<bar>v\<bar>"
  have digits: "takeWhile is_dec_digit (nat_to_string 10 ?n) = nat_to_string 10 ?n"
    using nat_to_string_digits by (rule takeWhile_all)
  have "of_digits 10 (nat_to_string 10 ?n) = ?n"
    by (simp add: of_digits_nat_to_string)
  then have "(if int_to_string v \<noteq> [] \<and> hd (int_to_string v) = CHR ''-''
      then - int (of_digits 10 (nat_to_string 10 ?n)) else int (of_digits 10 (nat_to_string 10 ?n))) = v"
    using int_to_string_shape(3,4) by auto
  then show ?thesis
    unfolding stoll_def Let_def c_str_int_to_string int_to_string_shape(1,2) digits
    using assms by simp
qed

lemma strtod_digits:
  assumes "s = d # ds" "\<forall>c \<in> set s. is_dec_digit c"
  shows "strtod_number s = Some []"
proof -
  have d: "is_dec_digit d" using assms by simp
  have hd: "lower d = d" "d \<in> set ''0123456789''"
    using dec_digit_facts(7) [OF d] d by (auto simp: is_dec_digit_def)
  have no_prefix: "skip_prefix (p # ps) s = None" if "p \<notin> set ''0123456789''" for p ps
    using that hd assms(1) by (auto simp: skip_prefix_def)
  have no_hex: "skip_prefix ''0x'' s = None"
  proof (cases ds)
    case (Cons d' ds')
    then have "is_dec_digit d'" using assms by simp
    then have "lower d' = d'" "d' \<noteq> CHR ''x''"
      using dec_digit_facts(7) by (auto simp: is_dec_digit_def)
    then show ?thesis using Cons assms(1) by (simp add: skip_prefix_def)
  qed (simp add: skip_prefix_def assms(1))
  have "skip_mantissa is_dec_digit s = Some []"
    unfolding skip_mantissa_def takeWhile_all [OF assms(2)] using assms(1) by simp
  then show ?thesis
    by (simp add: strtod_number_def no_prefix no_hex skip_exponent_def)
qed

lemma is_integral_int_to_string: "is_integral (int_to_string v)"
proof -
  obtain d ds where d: "nat_to_string 10 (nat \<bar>v\<bar>) = d # ds" "is_dec_digit d" "\<forall>c \<in> set ds. is_dec_digit c"
    using nat_string_shape by blast
  then have n: "strtod_number (nat_to_string 10 (nat \<bar>v\<bar>)) = Some []"
    by (intro strtod_digits [of _ d ds]) auto
  have "CHR ''.'' \<notin> set (nat_to_string 10 m)" for m
    using nat_to_string_digits [of m] dec_digit_facts(5) by fastforce
  then have "CHR ''.'' \<notin> set (int_to_string v)" by (simp add: int_to_string_def)
  then show ?thesis
    unfolding is_integral_def is_numeric_def strtod_end_def c_str_int_to_string int_to_string_shape n
    by simp
qed

lemma stoll_range: "stoll s = Inr v \<Longrightarrow> - (2 ^ 63) \<le> v \<and> v < 2 ^ 63"
  unfolding stoll_def Let_def by (auto split: if_splits)

lemma split_comma_single: "CHR '','' \<notin> set b \<Longrightarrow> split_comma b = [b]"
  by (induction b) auto

lemma split_comma_append: "CHR '','' \<notin> set a \<Longrightarrow> split_comma (a @ CHR '','' # b) = a # split_comma b"
  by (induction a) auto

lemma dropWhile_none: "\<forall>c \<in> set s. \<not> P c \<Longrightarrow> dropWhile P s = s"
  by (cases s) auto

lemma trim_spaceless: "\<forall>c \<in> set s. \<not> is_space c \<Longrightarrow> trim s = s"
  by (simp add: trim_def dropWhile_none)

lemma int_to_string_chars:
  "\<forall>c \<in> set (int_to_string v). \<not> is_space c" "CHR '','' \<notin> set (int_to_string v)"
proof -
  have "\<forall>c \<in> set (nat_to_string 10 n). \<not> is_space c \<and> c \<noteq> CHR '',''" for n
    using nat_to_string_digits [of n] dec_digit_facts(1,6) by metis
  then show "\<forall>c \<in> set (int_to_string v). \<not> is_space c" "CHR '','' \<notin> set (int_to_string v)"
    by (auto simp: int_to_string_def is_space_def)
qed

lemma printed_args: "CHR '','' \<notin> set a \<Longrightarrow> split_comma (a @ CHR '','' # int_to_string v) = [a, int_to_string v]"
  using int_to_string_chars [of v] by (simp add: split_comma_append split_comma_single)

lemma trim_int_to_string: "trim (int_to_string v) = int_to_string v"
  using int_to_string_chars [of v] by (simp add: trim_spaceless)

end
