(* ===== verification/Cbor_Object.thy ===== *)
theory Cbor_Object
  imports Cpp_Std
begin

text \<open>
  The values of \<^verbatim>\<open>cbor_object.h\<close>: one constructor per \<^verbatim>\<open>CborObjectType\<close>. A \<^verbatim>\<open>double\<close> is kept as
  the fixed-point text the encoder prints for it; a map is the ordered association list a
  \<^verbatim>\<open>std::map\<close> iterates over. \<open>cbor_reload\<close> is what a value becomes after it has been encoded
  into contract storage and decoded again.
\<close>

datatype cbor =
    COT_NULL
  | COT_UNDEFINED
  | COT_BOOL bool
  | COT_INT int
  | COT_EXTRA_INT u64 bool
  | COT_FLOAT string
  | COT_TAG u32
  | COT_EXTRA_TAG u64
  | COT_STRING string
  | COT_BYTES string
  | COT_ARRAY "cbor list"
  | COT_MAP "(string \<times> cbor) list"
  | COT_ERROR string

definition is_null :: "cbor \<Rightarrow> bool" where
  "is_null v \<longleftrightarrow> v = COT_NULL"

fun is_int :: "cbor \<Rightarrow> bool" where
  "is_int (COT_INT v) = True"
| "is_int _ = False"

fun is_extra_int :: "cbor \<Rightarrow> bool" where
  "is_extra_int (COT_EXTRA_INT v s) = True"
| "is_extra_int _ = False"

definition is_integer :: "cbor \<Rightarrow> bool" where
  "is_integer v \<longleftrightarrow> is_int v \<or> is_extra_int v"

fun is_string :: "cbor \<Rightarrow> bool" where
  "is_string (COT_STRING s) = True"
| "is_string _ = False"

fun is_map :: "cbor \<Rightarrow> bool" where
  "is_map (COT_MAP m) = True"
| "is_map _ = False"

text \<open>
  \<^verbatim>\<open>as_string\<close> and \<^verbatim>\<open>as_map\<close> read the corresponding member of the value, which is empty when the
  value is of another type.
\<close>

fun as_string :: "cbor \<Rightarrow> string" where
  "as_string (COT_STRING s) = s"
| "as_string (COT_ERROR s) = s"
| "as_string _ = []"

fun as_map :: "cbor \<Rightarrow> (string \<times> cbor) list" where
  "as_map (COT_MAP m) = m"
| "as_map _ = []"

fun force_as_int :: "cbor \<Rightarrow> int result" where
  "force_as_int (COT_INT v) = Inr v"
| "force_as_int (COT_EXTRA_INT u is_pos) =
    (let extra_int_val = sint u
     in Inr (if is_pos then extra_int_val
             else if extra_int_val \<ge> 0 then - extra_int_val else extra_int_val))"
| "force_as_int _ = Inl (Fc_assert ''this cbor_object with can't be passed as int'')"

section \<open>JSON view\<close>

datatype json =
    Json_null
  | Json_bool bool
  | Json_int int
  | Json_double string
  | Json_string string
  | Json_array "json list"
  | Json_object "(string \<times> json) list"

definition hex_byte :: "char \<Rightarrow> string" where
  "hex_byte c = [digit_char (of_char c div 16), digit_char (of_char c mod 16)]"

text \<open>
  \<^verbatim>\<open>to_json\<close>: an unsigned 64 bit value of a positive extra integer stays unsigned; a
  negative one is the negated signed reading. Tags of more than 32 bits and errors have no
  JSON form.
\<close>

fun to_json :: "cbor \<Rightarrow> json result"
  and to_json_items :: "cbor list \<Rightarrow> json list result"
  and to_json_members :: "(string \<times> cbor) list \<Rightarrow> (string \<times> json) list result" where
  "to_json COT_NULL = Inr Json_null"
| "to_json COT_UNDEFINED = Inr Json_null"
| "to_json (COT_BOOL b) = Inr (Json_bool b)"
| "to_json (COT_INT v) = Inr (Json_int v)"
| "to_json (COT_EXTRA_INT u is_pos) =
    Inr (Json_int (if is_pos then uint u else sint (- u)))"
| "to_json (COT_FLOAT t) = Inr (Json_double t)"
| "to_json (COT_TAG t) = Inr (Json_int (uint t))"
| "to_json (COT_EXTRA_TAG t) = Inl (Cbor_exception ''not supported cbor object type'')"
| "to_json (COT_STRING s) = Inr (Json_string s)"
| "to_json (COT_BYTES s) = Inr (Json_string (concat (map hex_byte s)))"
| "to_json (COT_ARRAY vs) = ebind (to_json_items vs) (\<lambda>js. Inr (Json_array js))"
| "to_json (COT_MAP m) = ebind (to_json_members m) (\<lambda>js. Inr (Json_object js))"
| "to_json (COT_ERROR e) = Inl (Cbor_exception ''not supported cbor object type'')"
| "to_json_items [] = Inr []"
| "to_json_items (v # vs) = ebind (to_json v) (\<lambda>j. ebind (to_json_items vs) (\<lambda>js. Inr (j # js)))"
| "to_json_members [] = Inr []"
| "to_json_members ((k, v) # m) =
    ebind (to_json v) (\<lambda>j. ebind (to_json_members m) (\<lambda>js. Inr ((k, j) # js)))"

section \<open>Values read back from storage\<close>

definition int_max :: int where
  "int_max = 2 ^ 31 - 1"

text \<open>
  The decoder returns integers that need eight bytes, or more than 31 bits, as extra integers.
  A negative number of more than 31 bits is the absolute value with a false sign flag, taken
  modulo \<open>2 ^ 32\<close> when four bytes are enough for it.
\<close>

definition reload_nat :: "int \<Rightarrow> cbor" where
  "reload_nat n = (if n \<le> int_max then COT_INT n else COT_EXTRA_INT (word_of_int n) True)"

definition reload_neg :: "int \<Rightarrow> cbor" where
  "reload_neg n =
    (if n \<le> int_max then COT_INT (- n - 1)
     else if n < 2 ^ 32 then COT_EXTRA_INT (word_of_int ((n + 1) mod 2 ^ 32)) False
     else COT_EXTRA_INT (word_of_int (n + 1)) False)"

fun cbor_reload :: "cbor \<Rightarrow> cbor"
  and cbor_reload_list :: "cbor list \<Rightarrow> cbor list"
  and cbor_reload_members :: "(string \<times> cbor) list \<Rightarrow> (string \<times> cbor) list" where
  "cbor_reload (COT_INT v) = (if v < 0 then reload_neg (- (v + 1)) else reload_nat v)"
| "cbor_reload (COT_EXTRA_INT u is_pos) = (if is_pos then reload_nat (uint u) else reload_neg (uint u))"
| "cbor_reload (COT_EXTRA_TAG t) = COT_TAG (ucast t)"
| "cbor_reload (COT_ARRAY vs) = COT_ARRAY (cbor_reload_list vs)"
| "cbor_reload (COT_MAP m) = COT_MAP (cbor_reload_members m)"
| "cbor_reload v = v"
| "cbor_reload_list [] = []"
| "cbor_reload_list (v # vs) = cbor_reload v # cbor_reload_list vs"
| "cbor_reload_members [] = []"
| "cbor_reload_members ((k, v) # m) = (k, cbor_reload v) # cbor_reload_members m"

text \<open>Integers keep their value, all but \<open>- 2 ^ 32\<close>.\<close>

lemma reload_nat_int:
  assumes "0 \<le> n" "n < 2 ^ 63"
  shows "force_as_int (reload_nat n) = Inr n" "is_integer (reload_nat n)"
  using assms
  by (simp_all add: reload_nat_def is_integer_def int_max_def Let_def sint_sbintrunc' signed_take_bit_int_eq_self)

lemma cbor_reload_int:
  assumes "- (2 ^ 63) \<le> v" "v < 2 ^ 63" "v \<noteq> - (2 ^ 32)"
  shows "force_as_int (cbor_reload (COT_INT v)) = Inr v" "is_integer (cbor_reload (COT_INT v))"
proof -
  have "force_as_int (reload_neg (- (v + 1))) = Inr v \<and> is_integer (reload_neg (- (v + 1)))" if neg: "v < 0"
  proof -
    consider "- (v + 1) \<le> int_max" | "\<not> - (v + 1) \<le> int_max" "- (v + 1) < 2 ^ 32" | "\<not> - (v + 1) < 2 ^ 32"
      by blast
    then show ?thesis
    proof cases
      case 1
      then show ?thesis by (simp add: reload_neg_def is_integer_def)
    next
      case 2
      have e: "- (v + 1) + 1 = - v" by simp
      have "(- (v + 1) + 1) mod 2 ^ 32 = - v"
        unfolding e using 2(2) assms(3) neg by (intro mod_pos_pos_trivial) auto
      then have r: "reload_neg (- (v + 1)) = COT_EXTRA_INT (word_of_int (- v)) False"
        using 2 by (simp add: reload_neg_def)
      have "sint (word_of_int (- v) :: u64) = - v"
        using 2 neg unfolding sint_sbintrunc' by (intro signed_take_bit_int_eq_self) auto
      then show ?thesis unfolding r using neg by (simp add: is_integer_def Let_def)
    next
      case 3
      then have "\<not> - (v + 1) \<le> int_max" by (simp add: int_max_def)
      then have r: "reload_neg (- (v + 1)) = COT_EXTRA_INT (word_of_int (- v)) False"
        using 3 by (simp add: reload_neg_def)
      show ?thesis
      proof (cases "v = - (2 ^ 63)")
        case True
        then have "sint (word_of_int (- v) :: u64) = v" by simp
        then show ?thesis unfolding r using neg by (simp add: is_integer_def Let_def)
      next
        case False
        then have "sint (word_of_int (- v) :: u64) = - v"
          using assms(1) neg unfolding sint_sbintrunc' by (intro signed_take_bit_int_eq_self) auto
        then show ?thesis unfolding r using neg by (simp add: is_integer_def Let_def)
      qed
    qed
  qed
  then show "force_as_int (cbor_reload (COT_INT v)) = Inr v" "is_integer (cbor_reload (COT_INT v))"
    using reload_nat_int [of v] assms(2) by (cases "v < 0"; simp)+
qed

lemma cbor_reload_minus_2_32: "force_as_int (cbor_reload (COT_INT (- (2 ^ 32)))) = Inr 0"
  by (simp add: reload_neg_def int_max_def)

lemma cbor_reload_string [simp]: "cbor_reload (COT_STRING s) = COT_STRING s"
  by simp

lemma map_cbor_reload_members: "map_of (cbor_reload_members m) k = map_option cbor_reload (map_of m k)"
  by (induction m) auto

end
