(* ===== verification/Safe_Int.thy ===== *)
theory Safe_Int
  imports Prelude "HOL-Library.Signed_Division"
begin

text \<open>
  \<^verbatim>\<open>fc::safe<int64_t>\<close>, the type of every share amount: signed 64 bit integers whose
  operations test for overflow before they compute. A value is an \<open>int\<close> in the range of
  \<^verbatim>\<open>int64_t\<close>; \<open>sdiv\<close> and \<open>smod\<close> are the truncating operators of C++.
\<close>

definition int64_min :: int where
  "int64_min = - (2 ^ 63)"

definition int64_max :: int where
  "int64_max = 2 ^ 63 - 1"

definition is_int64 :: "int \<Rightarrow> bool" where
  "is_int64 v \<longleftrightarrow> int64_min \<le> v \<and> v \<le> int64_max"

text \<open>What an \<^verbatim>\<open>int64_t\<close> holds after plain arithmetic: two's complement.\<close>

definition wrap_int64 :: "int \<Rightarrow> int" where
  "wrap_int64 v = sint (word_of_int v :: u64)"

lemma wrap_int64_id: "- (2 ^ 63) \<le> v \<Longrightarrow> v < 2 ^ 63 \<Longrightarrow> wrap_int64 v = v"
  by (simp add: wrap_int64_def sint_sbintrunc' signed_take_bit_int_eq_self)

lemma wrap_int64_range: "- (2 ^ 63) \<le> wrap_int64 v" "wrap_int64 v < 2 ^ 63"
  using sint_range_size [of "word_of_int v :: u64"] by (simp_all add: wrap_int64_def word_size)

definition overflow_exception :: cpp_error where
  "overflow_exception = Fc_assert ''overflow''"

definition underflow_exception :: cpp_error where
  "underflow_exception = Fc_assert ''underflow''"

definition divide_by_zero_exception :: cpp_error where
  "divide_by_zero_exception = Fc_assert ''divide by zero''"

definition safe_add :: "int \<Rightarrow> int \<Rightarrow> int result" where
  "safe_add a b =
    (if b > 0 \<and> a > int64_max - b then Inl overflow_exception
     else if b < 0 \<and> a < int64_min - b then Inl underflow_exception
     else Inr (a + b))"

definition safe_sub :: "int \<Rightarrow> int \<Rightarrow> int result" where
  "safe_sub a b =
    (if b > 0 \<and> a < int64_min + b then Inl underflow_exception
     else if b < 0 \<and> a > int64_max + b then Inl overflow_exception
     else Inr (a - b))"

definition safe_mul :: "int \<Rightarrow> int \<Rightarrow> int result" where
  "safe_mul a b =
    (if a > 0
     then if b > 0
          then if a > int64_max sdiv b then Inl overflow_exception else Inr (a * b)
          else if b < int64_min sdiv a then Inl underflow_exception else Inr (a * b)
     else if b > 0
          then if a < int64_min sdiv b then Inl underflow_exception else Inr (a * b)
          else if a \<noteq> 0 \<and> b < int64_max sdiv a then Inl overflow_exception else Inr (a * b))"

definition safe_div :: "int \<Rightarrow> int \<Rightarrow> int result" where
  "safe_div a b =
    (if b = 0 then Inl divide_by_zero_exception
     else if a = int64_min \<and> b = - 1 then Inl overflow_exception
     else Inr (a sdiv b))"

definition safe_mod :: "int \<Rightarrow> int \<Rightarrow> int result" where
  "safe_mod a b =
    (if b = 0 then Inl divide_by_zero_exception
     else if a = int64_min \<and> b = - 1 then Inl overflow_exception
     else Inr (a smod b))"

definition safe_neg :: "int \<Rightarrow> int result" where
  "safe_neg a = (if a = int64_min then Inl overflow_exception else Inr (- a))"

section \<open>The tests are exact\<close>

lemma safe_add_exact:
  assumes "is_int64 a" "is_int64 b"
  shows "safe_add a b = Inr (a + b) \<longleftrightarrow> is_int64 (a + b)" "safe_add a b = Inr c \<Longrightarrow> c = a + b \<and> is_int64 c"
  using assms by (auto simp: safe_add_def is_int64_def split: if_splits)

lemma safe_sub_exact:
  assumes "is_int64 a" "is_int64 b"
  shows "safe_sub a b = Inr (a - b) \<longleftrightarrow> is_int64 (a - b)" "safe_sub a b = Inr c \<Longrightarrow> c = a - b \<and> is_int64 c"
  using assms by (auto simp: safe_sub_def is_int64_def split: if_splits)

lemma sdiv_pos: "0 \<le> a \<Longrightarrow> 0 < b \<Longrightarrow> a sdiv b = a div (b :: int)"
  by (auto simp: signed_divide_int_def sgn_if)

lemma sdiv_neg: "a \<le> 0 \<Longrightarrow> 0 < b \<Longrightarrow> a sdiv b = - ((- a) div (b :: int))"
  by (auto simp: signed_divide_int_def sgn_if)

lemma sdiv_neg2: "0 \<le> a \<Longrightarrow> b < 0 \<Longrightarrow> a sdiv b = - (a div (- b :: int))"
  by (auto simp: signed_divide_int_def sgn_if)

lemma safe_mul_exact:
  assumes "is_int64 a" "is_int64 b"
  shows "safe_mul a b = (if is_int64 (a * b) then Inr (a * b)
    else Inl (if (a > 0) = (b > 0) then overflow_exception else underflow_exception))"
proof -
  have div: "m div k < x \<longleftrightarrow> m < x * k" if "0 < k" for m k x :: int
  proof -
    have m: "m = m div k * k + m mod k" "0 \<le> m mod k" "m mod k < k"
      using that by simp_all
    show ?thesis
    proof
      assume "m div k < x"
      then have "(m div k + 1) * k \<le> x * k" using that by (intro mult_right_mono) simp_all
      then show "m < x * k" using m unfolding distrib_right by linarith
    next
      assume less: "m < x * k"
      show "m div k < x"
      proof (rule ccontr)
        assume "\<not> m div k < x"
        then have "x * k \<le> m div k * k" using that by (intro mult_right_mono) simp_all
        then show False using m(1,2) less by linarith
      qed
    qed
  qed
  have M: "0 \<le> int64_max" "int64_min \<le> 0" by (simp_all add: int64_max_def int64_min_def)
  consider "a > 0" "b > 0" | "a > 0" "b \<le> 0" | "a \<le> 0" "b > 0" | "a = 0" "b \<le> 0" | "a < 0" "b \<le> 0"
    by linarith
  then show ?thesis
  proof cases
    case 1
    then have "0 < a * b" by simp
    then have "int64_min \<le> a * b" using M(2) by linarith
    then show ?thesis
      using 1 M by (simp add: safe_mul_def sdiv_pos div is_int64_def not_less)
  next
    case 2
    have "a * b \<le> 0" using 2 by (simp add: mult_nonneg_nonpos)
    then have "a * b \<le> int64_max" using M(1) by linarith
    moreover have "b < int64_min sdiv a \<longleftrightarrow> a * b < int64_min"
      using div [of a "- int64_min" "- b"] 2(1) M
      by (simp add: sdiv_neg algebra_simps) linarith
    ultimately show ?thesis
      using 2 M by (simp add: safe_mul_def is_int64_def not_less)
  next
    case 3
    have "a * b \<le> 0" using 3 by (simp add: mult_nonpos_nonneg)
    then have "a * b \<le> int64_max" using M(1) by linarith
    moreover have "a < int64_min sdiv b \<longleftrightarrow> a * b < int64_min"
      using div [of b "- int64_min" "- a"] 3(2) M
      by (simp add: sdiv_neg algebra_simps) linarith
    ultimately show ?thesis
      using 3 M by (simp add: safe_mul_def is_int64_def not_less)
  next
    case 4
    then show ?thesis using M by (simp add: safe_mul_def is_int64_def)
  next
    case 5
    have "0 \<le> a * b" using 5 by (simp add: mult_nonpos_nonpos)
    then have "int64_min \<le> a * b" using M(2) by linarith
    moreover have "b < int64_max sdiv a \<longleftrightarrow> int64_max < a * b"
      using div [of "- a" int64_max "- b"] 5(1) M
      by (simp add: sdiv_neg2 algebra_simps) linarith
    ultimately show ?thesis
      using 5 M by (simp add: safe_mul_def is_int64_def not_less)
  qed
qed

text \<open>Sequencing of additions that stay in range.\<close>

lemma safe_add_ok: "is_int64 (a + b) \<Longrightarrow> safe_add a b = Inr (a + b)"
  by (auto simp: safe_add_def is_int64_def)

lemma safe_sub_ok: "is_int64 (a - b) \<Longrightarrow> safe_sub a b = Inr (a - b)"
  by (auto simp: safe_sub_def is_int64_def)

end
