(* ===== verification/Native_Store.thy ===== *)
theory Native_Store
  imports Cbor_Object Safe_Int
begin

text \<open>
  The store the native contracts run on: \<^verbatim>\<open>abstract_native_contract\<close> of
  \<^verbatim>\<open>native_contract.cpp\<close> with the contract storage of the database below it. One invocation
  collects its storage changes, events, asset movements and result in an invoke result;
  reads see the pending changes first and the database otherwise. Storage holds encoded
  bytes, which the model keeps in decoded form (\<open>cbor_reload\<close>); texts made by
  \<^verbatim>\<open>json_ordered_dumps\<close> are kept as the JSON object they print. The storage diff each change
  carries along is not modelled.
\<close>

section \<open>State\<close>

type_synonym storage_map = "string \<times> string \<Rightarrow> cbor option"

record StorageDataChangeType =
  before :: cbor
  after :: cbor

datatype text_value = Plain string | Dumped json

record contract_event_notify_info =
  event_contract :: string
  event_name :: string
  event_arg :: text_value
  event_block_num :: int
  event_op_num :: int

record contract_invoke_result =
  storage_changes :: "string \<Rightarrow> (string \<Rightarrow> StorageDataChangeType option) option"
  contract_withdraw :: "string \<times> string \<Rightarrow> int option"
  contract_balances :: "string \<times> string \<Rightarrow> int option"
  deposit_to_address :: "string \<times> string \<Rightarrow> int option"
  deposit_contract :: "string \<times> string \<Rightarrow> int option"
  events :: "contract_event_notify_info list"
  api_result :: text_value
  invoker :: "string option"

definition empty_invoke_result :: contract_invoke_result where
  "empty_invoke_result = \<lparr>storage_changes = \<lambda>_. None, contract_withdraw = \<lambda>_. None,
     contract_balances = \<lambda>_. None, deposit_to_address = \<lambda>_. None, deposit_contract = \<lambda>_. None,
     events = [], api_result = Plain '''', invoker = None\<rparr>"

text \<open>
  What an invocation reads of its surroundings: the contract and caller addresses, the
  head block, the database's contract storage and balances. Address syntax, the table of
  assets, the JSON parser, the conversions of floating point numbers, the hash function and the
  recovery of keys from signatures, which other parts of the node decide, are functions of the
  environment.
\<close>

record contract_env =
  env_contract :: string
  env_caller :: string
  env_head_block_num :: int
  env_op_num :: int
  env_chain_now :: int
  env_storage :: storage_map
  env_balance :: "string \<times> string \<Rightarrow> int"
  env_is_valid_address :: "string \<Rightarrow> bool"
  env_asset_exists :: "string \<Rightarrow> bool"
  env_json_from_string :: "string \<Rightarrow> json result"
  env_double_to_int64 :: "string \<Rightarrow> int"
  env_double_to_uint64 :: "string \<Rightarrow> int"
  env_double_to_string :: "string \<Rightarrow> string"
  env_sha256 :: "string \<Rightarrow> string"
  env_recover_public_key :: "string \<Rightarrow> string \<Rightarrow> string option result"
  env_parse_public_key :: "string \<Rightarrow> string option result"
  env_pubkey_to_address_string :: "(string \<Rightarrow> string) option"

section \<open>Database storage\<close>

definition db_get_contract_storage :: "storage_map \<Rightarrow> string \<Rightarrow> string \<Rightarrow> cbor" where
  "db_get_contract_storage db contract_id name =
    (case db (contract_id, name) of None \<Rightarrow> COT_NULL | Some v \<Rightarrow> v)"

definition db_set_contract_storage :: "string \<Rightarrow> string \<Rightarrow> cbor \<Rightarrow> storage_map \<Rightarrow> storage_map" where
  "db_set_contract_storage contract_id name value db = db((contract_id, name) \<mapsto> value)"

definition get_storage :: "contract_env \<Rightarrow> string \<Rightarrow> string \<Rightarrow> cbor" where
  "get_storage en contract_id name = db_get_contract_storage (env_storage en) contract_id name"

section \<open>Contract storage\<close>

definition set_contract_storage ::
    "contract_env \<Rightarrow> string \<Rightarrow> string \<Rightarrow> cbor \<Rightarrow> contract_invoke_result \<Rightarrow> contract_invoke_result" where
  "set_contract_storage en contract_address storage_name value st =
    (let changes = (case storage_changes st contract_address of None \<Rightarrow> (\<lambda>_. None) | Some m \<Rightarrow> m);
         change = (case changes storage_name of
             None \<Rightarrow> \<lparr>before = get_storage en contract_address storage_name, after = value\<rparr>
           | Some c \<Rightarrow> c\<lparr>after := value\<rparr>)
     in st\<lparr>storage_changes := (storage_changes st)(contract_address \<mapsto> changes(storage_name \<mapsto> change))\<rparr>)"

definition set_contract_storage_cbor ::
    "contract_env \<Rightarrow> string \<Rightarrow> string \<Rightarrow> cbor \<Rightarrow> contract_invoke_result \<Rightarrow> contract_invoke_result" where
  "set_contract_storage_cbor en contract_address storage_name cbor_value st =
     set_contract_storage en contract_address storage_name (cbor_reload cbor_value) st"

definition get_contract_storage ::
    "contract_env \<Rightarrow> contract_invoke_result \<Rightarrow> string \<Rightarrow> string \<Rightarrow> cbor" where
  "get_contract_storage en st contract_address storage_name =
    (case storage_changes st contract_address of
       None \<Rightarrow> get_storage en contract_address storage_name
     | Some changes \<Rightarrow>
         (case changes storage_name of
            None \<Rightarrow> get_storage en contract_address storage_name
          | Some change \<Rightarrow> after change))"

definition fast_map_set ::
    "contract_env \<Rightarrow> string \<Rightarrow> string \<Rightarrow> string \<Rightarrow> cbor \<Rightarrow> contract_invoke_result \<Rightarrow> contract_invoke_result" where
  "fast_map_set en contract_address storage_name key cbor_value st =
    (let full_key = storage_name @ ''.'' @ key
     in set_contract_storage_cbor en contract_address full_key cbor_value st)"

definition fast_map_get ::
    "contract_env \<Rightarrow> contract_invoke_result \<Rightarrow> string \<Rightarrow> string \<Rightarrow> string \<Rightarrow> cbor" where
  "fast_map_get en st contract_address storage_name key =
    (let full_key = storage_name @ ''.'' @ key in get_contract_storage en st contract_address full_key)"

definition throw_error :: "string \<Rightarrow> 'a result" where
  "throw_error err = Inl (Uvm_exception err)"

definition get_string_contract_storage ::
    "contract_env \<Rightarrow> contract_invoke_result \<Rightarrow> string \<Rightarrow> string \<Rightarrow> string result" where
  "get_string_contract_storage en st contract_address storage_name =
    (let cbor_data = get_contract_storage en st contract_address storage_name
     in if \<not> is_string cbor_data
        then throw_error (''invalid string contract storage '' @ contract_address @ ''.'' @ storage_name)
        else Inr (as_string cbor_data))"

definition get_int_contract_storage ::
    "contract_env \<Rightarrow> contract_invoke_result \<Rightarrow> string \<Rightarrow> string \<Rightarrow> int result" where
  "get_int_contract_storage en st contract_address storage_name =
    (let cbor_data = get_contract_storage en st contract_address storage_name
     in if \<not> is_integer cbor_data
        then throw_error (''invalid int contract storage '' @ contract_address @ ''.'' @ storage_name)
        else force_as_int cbor_data)"

text \<open>The same on the running contract, as the contracts call them.\<close>

definition set_current_contract_storage ::
    "contract_env \<Rightarrow> string \<Rightarrow> cbor \<Rightarrow> contract_invoke_result \<Rightarrow> contract_invoke_result" where
  "set_current_contract_storage en storage_name value st =
     set_contract_storage_cbor en (env_contract en) storage_name value st"

definition get_current_contract_storage_cbor ::
    "contract_env \<Rightarrow> contract_invoke_result \<Rightarrow> string \<Rightarrow> cbor" where
  "get_current_contract_storage_cbor en st storage_name =
     get_contract_storage en st (env_contract en) storage_name"

definition get_string_current_contract_storage ::
    "contract_env \<Rightarrow> contract_invoke_result \<Rightarrow> string \<Rightarrow> string result" where
  "get_string_current_contract_storage en st storage_name =
     get_string_contract_storage en st (env_contract en) storage_name"

definition get_int_current_contract_storage ::
    "contract_env \<Rightarrow> contract_invoke_result \<Rightarrow> string \<Rightarrow> int result" where
  "get_int_current_contract_storage en st storage_name =
     get_int_contract_storage en st (env_contract en) storage_name"

definition current_fast_map_set ::
    "contract_env \<Rightarrow> string \<Rightarrow> string \<Rightarrow> cbor \<Rightarrow> contract_invoke_result \<Rightarrow> contract_invoke_result" where
  "current_fast_map_set en storage_name key value st =
     fast_map_set en (env_contract en) storage_name key value st"

definition current_fast_map_get ::
    "contract_env \<Rightarrow> contract_invoke_result \<Rightarrow> string \<Rightarrow> string \<Rightarrow> cbor" where
  "current_fast_map_get en st storage_name key =
     fast_map_get en st (env_contract en) storage_name key"

section \<open>Events, results and asset movements\<close>

definition caller_address_string :: "contract_env \<Rightarrow> string" where
  "caller_address_string en = env_caller en"

definition set_invoke_result_caller ::
    "contract_env \<Rightarrow> contract_invoke_result \<Rightarrow> contract_invoke_result" where
  "set_invoke_result_caller en st = st\<lparr>invoker := Some (env_caller en)\<rparr>"

definition set_api_result :: "text_value \<Rightarrow> contract_invoke_result \<Rightarrow> contract_invoke_result" where
  "set_api_result r st = st\<lparr>api_result := r\<rparr>"

definition emit_event ::
    "contract_env \<Rightarrow> string \<Rightarrow> text_value \<Rightarrow> contract_invoke_result \<Rightarrow> contract_invoke_result result" where
  "emit_event en name arg st =
    (if name = [] then Inl (Fc_assert ''!event_name.empty()'')
     else Inr (st\<lparr>events := events st @ [\<lparr>event_contract = env_contract en, event_name = name,
       event_arg = arg, event_block_num = 1 + env_head_block_num en, event_op_num = env_op_num en\<rparr>]\<rparr>))"

text \<open>
  \<^verbatim>\<open>transfer_to_address_only_update_invoke_result\<close>: the amount is taken from what the contract
  was given in this invocation first, then recorded as a withdrawal, and recorded as a
  deposit for the receiver. An asset is named by its symbol.
\<close>

definition transfer_to_address_only_update_invoke_result ::
    "contract_env \<Rightarrow> string \<Rightarrow> string \<Rightarrow> int \<Rightarrow> string \<Rightarrow> contract_invoke_result \<Rightarrow>
     contract_invoke_result result" where
  "transfer_to_address_only_update_invoke_result en contract symbol amount to st =
    (let index = (contract, symbol);
         balance = (case contract_balances st index of Some b \<Rightarrow> b | None \<Rightarrow> env_balance en index);
         st = st\<lparr>contract_balances := (contract_balances st)(index \<mapsto> balance)\<rparr>
     in ebind (case deposit_contract st index of Some d \<Rightarrow> safe_add balance d | None \<Rightarrow> Inr balance) (\<lambda>all_balance.
        ebind (case contract_withdraw st index of Some w \<Rightarrow> safe_sub all_balance w | None \<Rightarrow> Inr all_balance) (\<lambda>all_balance.
        if all_balance < amount then Inl (Fc_assert ''insufficient contract balance'')
        else
          ebind (case deposit_contract st index of
              None \<Rightarrow> Inr (amount, st)
            | Some d \<Rightarrow>
                if d \<ge> amount
                then ebind (safe_sub d amount) (\<lambda>d'.
                       Inr (0, st\<lparr>deposit_contract := (deposit_contract st)(index \<mapsto> d')\<rparr>))
                else ebind (safe_sub amount d) (\<lambda>w.
                       Inr (w, st\<lparr>deposit_contract := (deposit_contract st)(index \<mapsto> 0)\<rparr>))) (\<lambda>(to_withdraw, st).
          ebind (case contract_withdraw st index of Some w \<Rightarrow> safe_add w to_withdraw | None \<Rightarrow> Inr to_withdraw) (\<lambda>w.
          let st = st\<lparr>contract_withdraw := (contract_withdraw st)(index \<mapsto> w)\<rparr>;
              deposit_index = (to, symbol)
          in ebind (case deposit_to_address st deposit_index of
                 Some d \<Rightarrow> safe_add d amount | None \<Rightarrow> Inr amount) (\<lambda>d.
             Inr (st\<lparr>deposit_to_address := (deposit_to_address st)(deposit_index \<mapsto> d)\<rparr>)))))))"

text \<open>\<^verbatim>\<open>uint64_t\<close> amounts are stored into the signed amount of an asset unchanged below \<open>2 ^ 63\<close>.\<close>

definition transfer_to_address ::
    "contract_env \<Rightarrow> string \<Rightarrow> string \<Rightarrow> string \<Rightarrow> int \<Rightarrow> contract_invoke_result \<Rightarrow>
     contract_invoke_result result" where
  "transfer_to_address en from_contract_address to_address asset_symbol amount st =
    (if \<not> env_asset_exists en asset_symbol then Inl (Fc_assert ''invalid_asset_symbol'')
     else transfer_to_address_only_update_invoke_result en from_contract_address asset_symbol
            (sint (word_of_int amount :: u64)) to_address st)"

definition current_transfer_to_address ::
    "contract_env \<Rightarrow> string \<Rightarrow> string \<Rightarrow> int \<Rightarrow> contract_invoke_result \<Rightarrow> contract_invoke_result result" where
  "current_transfer_to_address en to_address asset_symbol amount st =
    (if \<not> env_is_valid_address en to_address then Inl (Fc_assert ''is_valid( base58str, prefix )'')
     else transfer_to_address en (env_contract en) to_address asset_symbol amount st)"

definition current_set_on_deposit_asset ::
    "contract_env \<Rightarrow> string \<Rightarrow> int \<Rightarrow> contract_invoke_result \<Rightarrow> contract_invoke_result result" where
  "current_set_on_deposit_asset en asset_symbol amount st =
     transfer_to_address en (env_caller en) (env_contract en) asset_symbol amount st"

text \<open>The handlers of an api: environment, argument and invoke result so far.\<close>

type_synonym handler = "contract_env \<Rightarrow> string \<Rightarrow> contract_invoke_result \<Rightarrow> contract_invoke_result result"

text \<open>
  When an invocation succeeds its changes are written to the database; when it raises,
  nothing is.
\<close>

definition apply_storage_change :: "contract_invoke_result \<Rightarrow> storage_map \<Rightarrow> storage_map" where
  "apply_storage_change st db = (\<lambda>(a, n).
     case storage_changes st a of
       None \<Rightarrow> db (a, n)
     | Some changes \<Rightarrow> (case changes n of None \<Rightarrow> db (a, n) | Some c \<Rightarrow> Some (after c)))"

section \<open>JSON arguments and results\<close>

text \<open>
  Members of a \<^verbatim>\<open>mutable_variant_object\<close>: assigning to a key replaces its value or adds it at the
  end; reading an absent key yields null. The conversions \<^verbatim>\<open>as_int64\<close> and \<^verbatim>\<open>as_string\<close> of
  \<^verbatim>\<open>fc::variant\<close>.
\<close>

fun json_put :: "string \<Rightarrow> json \<Rightarrow> (string \<times> json) list \<Rightarrow> (string \<times> json) list" where
  "json_put k v [] = [(k, v)]"
| "json_put k v ((k', v') # obj) = (if k = k' then (k, v) # obj else (k', v') # json_put k v obj)"

definition json_get :: "(string \<times> json) list \<Rightarrow> string \<Rightarrow> json" where
  "json_get obj k = (case map_of obj k of Some v \<Rightarrow> v | None \<Rightarrow> Json_null)"

definition bad_cast :: "string \<Rightarrow> cpp_error" where
  "bad_cast target = Fc_assert (''Invalid cast to '' @ target)"

fun variant_as_int64 :: "contract_env \<Rightarrow> json \<Rightarrow> int result" where
  "variant_as_int64 en (Json_string s) = to_int64 s"
| "variant_as_int64 en (Json_double t) = Inr (env_double_to_int64 en t)"
| "variant_as_int64 en (Json_int v) = Inr (wrap_int64 v)"
| "variant_as_int64 en (Json_bool b) = Inr (if b then 1 else 0)"
| "variant_as_int64 en Json_null = Inr 0"
| "variant_as_int64 en _ = Inl (bad_cast ''int64'')"

fun variant_as_uint64 :: "contract_env \<Rightarrow> json \<Rightarrow> int result" where
  "variant_as_uint64 en (Json_string s) = to_uint64 s"
| "variant_as_uint64 en (Json_double t) = Inr (env_double_to_uint64 en t)"
| "variant_as_uint64 en (Json_int v) = Inr (v mod 2 ^ 64)"
| "variant_as_uint64 en (Json_bool b) = Inr (if b then 1 else 0)"
| "variant_as_uint64 en Json_null = Inr 0"
| "variant_as_uint64 en _ = Inl (bad_cast ''uint64'')"

fun variant_as_string :: "contract_env \<Rightarrow> json \<Rightarrow> string result" where
  "variant_as_string en (Json_string s) = Inr s"
| "variant_as_string en (Json_double t) = Inr (env_double_to_string en t)"
| "variant_as_string en (Json_int v) = Inr (int_to_string v)"
| "variant_as_string en (Json_bool b) = Inr (if b then ''true'' else ''false'')"
| "variant_as_string en Json_null = Inr []"
| "variant_as_string en _ = Inl (bad_cast ''string'')"

text \<open>
  The members of a constant object, where an absent key is an exception, and the bytes of a
  hexadecimal string, at most as many as there is room for.
\<close>

fun get_object :: "json \<Rightarrow> (string \<times> json) list result" where
  "get_object (Json_object obj) = Inr obj"
| "get_object _ = Inl (bad_cast ''Object'')"

fun get_array :: "json \<Rightarrow> json list result" where
  "get_array (Json_array vs) = Inr vs"
| "get_array _ = Inl (bad_cast ''Array'')"

definition json_at :: "(string \<times> json) list \<Rightarrow> string \<Rightarrow> json result" where
  "json_at obj k = (case map_of obj k of Some v \<Rightarrow> Inr v | None \<Rightarrow> Inl (Fc_assert (''Key '' @ k)))"

definition from_hex_char :: "char \<Rightarrow> nat result" where
  "from_hex_char c =
    (let n = of_char c :: nat
     in if 48 \<le> n \<and> n \<le> 57 then Inr (n - 48)
        else if 97 \<le> n \<and> n \<le> 102 then Inr (n - 97 + 10)
        else if 65 \<le> n \<and> n \<le> 70 then Inr (n - 65 + 10)
        else Inl (Fc_assert ''Invalid hex character''))"

fun from_hex :: "string \<Rightarrow> nat \<Rightarrow> string result" where
  "from_hex [] n = Inr []"
| "from_hex (c # cs) 0 = Inr []"
| "from_hex [c] (Suc n) = ebind (from_hex_char c) (\<lambda>h. Inr [char_of (16 * h)])"
| "from_hex (c # d # cs) (Suc n) =
    ebind (from_hex_char c) (\<lambda>h. ebind (from_hex_char d) (\<lambda>l.
    ebind (from_hex cs n) (\<lambda>bs. Inr (char_of (16 * h + l) # bs))))"

text \<open>The names an invoke operation must not call directly.\<close>

definition contract_special_api_names :: "string list" where
  "contract_special_api_names =
    [''init'', ''on_deposit'', ''on_deposit_asset'', ''on_destroy'', ''on_upgrade'', ''on_missing'']"

definition contract_int_argument_special_api_names :: "string list" where
  "contract_int_argument_special_api_names = [''on_deposit'']"

definition contract_string_argument_special_api_names :: "string list" where
  "contract_string_argument_special_api_names = [''on_deposit_asset'']"

definition contract_api_check :: "string \<Rightarrow> bool" where
  "contract_api_check api_name \<longleftrightarrow>
     api_name \<notin> set contract_special_api_names \<and>
     api_name \<notin> set contract_int_argument_special_api_names \<and>
     api_name \<notin> set contract_string_argument_special_api_names"

section \<open>Laws of the store\<close>

text \<open>Reading after writing, for any store addressed by keys that may change values it takes in.\<close>

locale keyed_store =
  fixes get :: "'s \<Rightarrow> 'k \<Rightarrow> 'v"
    and put :: "'k \<Rightarrow> 'v \<Rightarrow> 's \<Rightarrow> 's"
    and stored :: "'v \<Rightarrow> 'v"
  assumes get_put: "get (put k v s) k' = (if k' = k then stored v else get s k')"
begin

lemma get_put_same: "get (put k v s) k = stored v"
  by (simp add: get_put)

lemma get_put_other: "k' \<noteq> k \<Longrightarrow> get (put k v s) k' = get s k'"
  by (simp add: get_put)

lemma put_put: "get (put k v (put k w s)) k' = get (put k v s) k'"
  by (simp add: get_put)

lemma put_commute: "k \<noteq> k' \<Longrightarrow> get (put k v (put k' w s)) j = get (put k' w (put k v s)) j"
  by (simp add: get_put)

end

interpretation store: keyed_store
  "\<lambda>st k. get_contract_storage en st (fst k) (snd k)"
  "\<lambda>k v st. set_contract_storage_cbor en (fst k) (snd k) v st" cbor_reload
  for en
  by unfold_locales
    (auto simp: get_contract_storage_def set_contract_storage_cbor_def set_contract_storage_def Let_def
      prod_eq_iff split: option.splits)

lemma get_contract_storage_set [store_simps]:
  "get_contract_storage en (set_contract_storage_cbor en a n v st) a' n'
    = (if a' = a \<and> n' = n then cbor_reload v else get_contract_storage en st a' n')"
  using store.get_put [of en "(a, n)" v st "(a', n')"] by simp

lemma get_contract_storage_irrelevant [store_simps]:
  "get_contract_storage en (set_api_result r st) a n = get_contract_storage en st a n"
  "get_contract_storage en (set_invoke_result_caller en' st) a n = get_contract_storage en st a n"
  "emit_event en' nm arg st = Inr st' \<Longrightarrow> get_contract_storage en st' a n = get_contract_storage en st a n"
  by (auto simp: get_contract_storage_def set_api_result_def set_invoke_result_caller_def emit_event_def
      split: if_splits)

lemma current_get_set [store_simps]:
  "get_current_contract_storage_cbor en (set_current_contract_storage en n v st) n'
    = (if n' = n then cbor_reload v else get_current_contract_storage_cbor en st n')"
  by (simp add: get_current_contract_storage_cbor_def set_current_contract_storage_def store_simps)

lemma current_fast_map_get_set [store_simps]:
  "current_fast_map_get en (current_fast_map_set en m k v st) m' k'
    = (if m' @ ''.'' @ k' = m @ ''.'' @ k then cbor_reload v else current_fast_map_get en st m' k')"
  by (simp add: current_fast_map_get_def fast_map_get_def current_fast_map_set_def fast_map_set_def
      store_simps)

lemma current_get_fast_map_set [store_simps]:
  "get_current_contract_storage_cbor en (current_fast_map_set en m k v st) n
    = (if n = m @ ''.'' @ k then cbor_reload v else get_current_contract_storage_cbor en st n)"
  by (simp add: get_current_contract_storage_cbor_def current_fast_map_set_def fast_map_set_def store_simps)

lemma current_fast_map_get_set_plain [store_simps]:
  "current_fast_map_get en (set_current_contract_storage en n v st) m k
    = (if m @ ''.'' @ k = n then cbor_reload v else current_fast_map_get en st m k)"
  by (simp add: current_fast_map_get_def fast_map_get_def set_current_contract_storage_def store_simps)

lemma reads_irrelevant [store_simps]:
  "get_current_contract_storage_cbor en (set_api_result r st) n = get_current_contract_storage_cbor en st n"
  "current_fast_map_get en (set_api_result r st) m k = current_fast_map_get en st m k"
  "get_current_contract_storage_cbor en (set_invoke_result_caller en' st) n = get_current_contract_storage_cbor en st n"
  "current_fast_map_get en (set_invoke_result_caller en' st) m k = current_fast_map_get en st m k"
  by (simp_all add: get_current_contract_storage_cbor_def current_fast_map_get_def fast_map_get_def store_simps)

lemma reads_after_event:
  assumes "emit_event en' nm arg st = Inr st'"
  shows "get_current_contract_storage_cbor en st' n = get_current_contract_storage_cbor en st n"
    "current_fast_map_get en st' m k = current_fast_map_get en st m k"
  using get_contract_storage_irrelevant(3) [OF assms]
  by (simp_all add: get_current_contract_storage_cbor_def current_fast_map_get_def fast_map_get_def)

lemma emit_event_total: "nm \<noteq> [] \<Longrightarrow> \<exists>st'. emit_event en nm arg st = Inr st'"
  by (simp add: emit_event_def)

text \<open>A committed invocation is what the next one reads.\<close>

lemma read_after_commit:
  "get_contract_storage (en\<lparr>env_storage := apply_storage_change st (env_storage en)\<rparr>) empty_invoke_result a n
    = get_contract_storage en st a n"
  by (auto simp: get_contract_storage_def empty_invoke_result_def get_storage_def db_get_contract_storage_def
      apply_storage_change_def split: option.splits)

definition storable :: "int \<Rightarrow> bool" where
  "storable v \<longleftrightarrow> 0 \<le> v \<and> v < 2 ^ 63"

lemma storable_reload:
  "storable v \<Longrightarrow> is_integer (cbor_reload (COT_INT v)) \<and> force_as_int (cbor_reload (COT_INT v)) = Inr v"
  using reload_nat_int [of v] by (simp add: storable_def)

lemma is_integer_force: "is_integer v \<Longrightarrow> force_as_int v = Inr (projr (force_as_int v))"
  by (cases v) (auto simp: is_integer_def Let_def)

lemma string_storage_cbor:
  "get_string_current_contract_storage en st n =
     (let c = get_current_contract_storage_cbor en st n
      in if is_string c then Inr (as_string c)
         else throw_error (''invalid string contract storage '' @ env_contract en @ ''.'' @ n))"
  "get_int_current_contract_storage en st n =
     (let c = get_current_contract_storage_cbor en st n
      in if is_integer c then force_as_int c
         else throw_error (''invalid int contract storage '' @ env_contract en @ ''.'' @ n))"
  by (simp_all add: get_string_current_contract_storage_def get_string_contract_storage_def
      get_int_current_contract_storage_def get_int_contract_storage_def
      get_current_contract_storage_cbor_def Let_def)

lemma get_contract_storage_empty:
  "get_contract_storage en empty_invoke_result a n = db_get_contract_storage (env_storage en) a n"
  by (simp add: get_contract_storage_def empty_invoke_result_def get_storage_def)

lemma env_caller_reads [simp]:
  "get_current_contract_storage_cbor (en\<lparr>env_caller := x\<rparr>) st n = get_current_contract_storage_cbor en st n"
  "current_fast_map_get (en\<lparr>env_caller := x\<rparr>) st m k = current_fast_map_get en st m k"
  by (simp_all add: get_current_contract_storage_cbor_def current_fast_map_get_def fast_map_get_def
      get_contract_storage_def get_storage_def Let_def cong: option.case_cong)

lemma transfer_keeps_storage:
  assumes "transfer_to_address_only_update_invoke_result en c symb amt to st = Inr st'"
  shows "storage_changes st' = storage_changes st"
  using assms unfolding transfer_to_address_only_update_invoke_result_def Let_def
  apply (clarsimp simp: ebind_eq_Inr simp del: fun_upd_apply split: if_splits)
  subgoal for bal1 bal2 w st1 w1 d
    by (cases "deposit_contract st (c, symb)") (auto simp: ebind_eq_Inr split: if_splits)
  done

lemma reads_after_transfer:
  assumes "current_transfer_to_address en to symb amt st = Inr st'"
  shows "get_current_contract_storage_cbor en' st' n = get_current_contract_storage_cbor en' st n"
    "current_fast_map_get en' st' m k = current_fast_map_get en' st m k"
proof -
  have "storage_changes st' = storage_changes st"
    using assms transfer_keeps_storage
    by (auto simp: current_transfer_to_address_def transfer_to_address_def split: if_splits)
  then show "get_current_contract_storage_cbor en' st' n = get_current_contract_storage_cbor en' st n"
    "current_fast_map_get en' st' m k = current_fast_map_get en' st m k"
    by (simp_all add: get_current_contract_storage_cbor_def current_fast_map_get_def fast_map_get_def
        get_contract_storage_def)
qed

lemma int_storage_Inr:
  "get_int_current_contract_storage en st n = Inr v \<longleftrightarrow>
     is_integer (get_current_contract_storage_cbor en st n) \<and>
     force_as_int (get_current_contract_storage_cbor en st n) = Inr v"
  by (auto simp: string_storage_cbor throw_error_def Let_def split: if_splits)

text \<open>Keys: a plain name has no point; the fast maps of two different maps do not meet.\<close>

lemma plain_key: "CHR ''.'' \<notin> set n \<Longrightarrow> n \<noteq> m @ ''.'' @ k" "CHR ''.'' \<notin> set n \<Longrightarrow> n \<noteq> m @ CHR ''.'' # k"
  by auto

lemma fast_key_eq:
  "CHR ''.'' \<notin> set m \<Longrightarrow> CHR ''.'' \<notin> set m' \<Longrightarrow> m @ ''.'' @ k = m' @ ''.'' @ k' \<longleftrightarrow> m = m' \<and> k = k'"
proof (induction m arbitrary: m')
  case Nil
  then show ?case by (cases m') auto
next
  case (Cons c m)
  then show ?case by (cases m') auto
qed

lemma emit_event_api_result: "emit_event en nm arg st = Inr st' \<Longrightarrow> api_result st' = api_result st"
  by (auto simp: emit_event_def split: if_splits)

lemma api_result_set: "api_result (set_api_result r st) = r"
  by (simp add: set_api_result_def)

lemma if_throw_Inr: "(if c then throw_error e else r) = Inr y \<longleftrightarrow> \<not> c \<and> r = Inr y"
  by (simp add: throw_error_def)

lemmas run_simps = ebind_eq_Inr if_throw_Inr not_le not_less de_Morgan_disj not_not

text \<open>
  Ledgers: a balance per account and an operation that sets one. What a sequence of moves keeps
  is proved once here.
\<close>

locale ledger =
  fixes bal :: "'s \<Rightarrow> 'a \<Rightarrow> int"
    and put :: "'a \<Rightarrow> int \<Rightarrow> 's \<Rightarrow> 's"
    and ok :: "int \<Rightarrow> bool"
  assumes bal_put: "ok v \<Longrightarrow> bal (put a v s) b = (if b = a then v else bal s b)"
begin

definition supported :: "'s \<Rightarrow> 'a set \<Rightarrow> int \<Rightarrow> bool" where
  "supported s A t \<longleftrightarrow> finite A \<and> (\<forall>a. a \<notin> A \<longrightarrow> bal s a = 0) \<and> (\<Sum>a \<in> A. bal s a) = t"

lemma supported_insert: "supported s A t \<Longrightarrow> supported s (insert a A) t"
  by (cases "a \<in> A") (simp_all add: supported_def insert_absorb)

lemma supported_put:
  assumes "supported s A t" "ok v"
  shows "supported (put a v s) (insert a A) (t + v - bal s a)"
proof -
  have s: "supported s (insert a A) t" using assms(1) by (rule supported_insert)
  then have fin: "finite (insert a A)" and t: "(\<Sum>b \<in> insert a A. bal s b) = t"
    by (simp_all only: supported_def)
  have rest: "(\<Sum>b \<in> insert a A - {a}. bal (put a v s) b) = (\<Sum>b \<in> insert a A - {a}. bal s b)"
    using assms(2) by (intro sum.cong) (simp_all add: bal_put)
  have "(\<Sum>b \<in> insert a A. bal (put a v s) b) = v + (\<Sum>b \<in> insert a A - {a}. bal s b)"
    using sum.remove [OF fin, of a "bal (put a v s)"] rest assms(2) by (simp add: bal_put)
  moreover have "t = bal s a + (\<Sum>b \<in> insert a A - {a}. bal s b)"
    using sum.remove [OF fin, of a "bal s"] t by simp
  ultimately show ?thesis
    using s assms(2) by (auto simp: supported_def bal_put)
qed

lemma supported_move:
  assumes "supported s A t" "ok (bal s from - x)"
    and "ok (bal (put from (bal s from - x) s) to + x)"
  shows "\<exists>B. supported (put to (bal (put from (bal s from - x) s) to + x) (put from (bal s from - x) s)) B t"
proof -
  let ?s1 = "put from (bal s from - x) s"
  have "supported ?s1 (insert from A) (t - x)"
    using supported_put [OF assms(1,2), of "from"] by (simp add: algebra_simps)
  from supported_put [OF this assms(3), of to] show ?thesis
    by (auto simp: algebra_simps)
qed

lemma supported_bound:
  assumes "supported s A t" "\<And>a. 0 \<le> bal s a"
  shows "bal s a \<le> t"
proof (cases "a \<in> A")
  case True
  then show ?thesis
    using assms member_le_sum [of a A "bal s"] by (simp add: supported_def)
next
  case False
  then show ?thesis
    using assms sum_nonneg [of A "bal s"] by (simp add: supported_def)
qed

end

end
