(* ===== verification/Token_Contract.thy ===== *)
theory Token_Contract
  imports Native_Store
begin

text \<open>
  The token contract, \<^verbatim>\<open>native_token_contract.cpp\<close>: one definition per handler, over the
  store of \<open>Native_Store\<close>. A handler takes the environment, the argument string and the
  invoke result so far, and returns the new invoke result or the exception. Balances are
  entries of the fast map \<open>users\<close>, allowances one map per authorizer in \<open>allowed\<close>.
\<close>

section \<open>Definitions\<close>

definition token_contract_key :: string where
  "token_contract_key = ''token''"

definition token_apis :: "string set" where
  "token_apis = {''init'', ''init_token'', ''transfer'', ''transferFrom'', ''balanceOf'', ''approve'',
     ''approvedBalanceFrom'', ''allApprovedFromUser'', ''state'', ''supply'', ''precision'', ''tokenName'',
     ''tokenSymbol''}"

definition token_offline_apis :: "string set" where
  "token_offline_apis = {''balanceOf'', ''approvedBalanceFrom'', ''allApprovedFromUser'', ''state'',
     ''supply'', ''precision'', ''tokenName'', ''tokenSymbol''}"

definition token_events :: "string set" where
  "token_events = {''Inited'', ''Transfer'', ''Approved''}"

definition not_inited_state_of_token_contract :: string where
  "not_inited_state_of_token_contract = ''NOT_INITED''"

definition common_state_of_token_contract :: string where
  "common_state_of_token_contract = ''COMMON''"

definition token_init_api :: handler where
  "token_init_api en api_arg st =
    (let st = set_current_contract_storage en ''name'' (COT_STRING '''') st;
         st = set_current_contract_storage en ''symbol'' (COT_STRING '''') st;
         st = set_current_contract_storage en ''supply'' (COT_INT 0) st;
         st = set_current_contract_storage en ''precision'' (COT_INT 0) st;
         st = set_current_contract_storage en ''state'' (COT_STRING not_inited_state_of_token_contract) st;
         caller_addr = caller_address_string en
     in if caller_addr = [] then throw_error ''caller_address can't be empty''
        else Inr (set_current_contract_storage en ''admin'' (COT_STRING caller_addr) st))"

definition check_admin :: "contract_env \<Rightarrow> contract_invoke_result \<Rightarrow> string result" where
  "check_admin en st =
    ebind (get_string_current_contract_storage en st ''admin'') (\<lambda>admin.
      if admin = caller_address_string en then Inr admin
      else throw_error ''only admin can call this api'')"

definition get_storage_state :: "contract_env \<Rightarrow> contract_invoke_result \<Rightarrow> string result" where
  "get_storage_state en st = get_string_current_contract_storage en st ''state''"

definition get_storage_token_name :: "contract_env \<Rightarrow> contract_invoke_result \<Rightarrow> string result" where
  "get_storage_token_name en st = get_string_current_contract_storage en st ''name''"

definition get_storage_token_symbol :: "contract_env \<Rightarrow> contract_invoke_result \<Rightarrow> string result" where
  "get_storage_token_symbol en st = get_string_current_contract_storage en st ''symbol''"

definition get_storage_supply :: "contract_env \<Rightarrow> contract_invoke_result \<Rightarrow> int result" where
  "get_storage_supply en st = get_int_current_contract_storage en st ''supply''"

definition get_storage_precision :: "contract_env \<Rightarrow> contract_invoke_result \<Rightarrow> int result" where
  "get_storage_precision en st = get_int_current_contract_storage en st ''precision''"

definition get_balance_of_user :: "contract_env \<Rightarrow> contract_invoke_result \<Rightarrow> string \<Rightarrow> int result" where
  "get_balance_of_user en st owner_addr =
    (let user_balance_cbor = current_fast_map_get en st ''users'' owner_addr
     in if \<not> is_integer user_balance_cbor then Inr 0 else force_as_int user_balance_cbor)"

definition get_allowed_of_user ::
    "contract_env \<Rightarrow> contract_invoke_result \<Rightarrow> string \<Rightarrow> cbor std_map" where
  "get_allowed_of_user en st from_addr =
    (let user_allowed = current_fast_map_get en st ''allowed'' from_addr
     in if \<not> is_map user_allowed then [] else as_map user_allowed)"

definition get_from_address :: "contract_env \<Rightarrow> string" where
  "get_from_address en = caller_address_string en"

definition allowed_precisions :: "int list" where
  "allowed_precisions = [1, 10, 100, 1000, 10000, 100000, 1000000, 10000000, 100000000]"

definition init_token_api :: handler where
  "init_token_api en api_arg st =
    ebind (check_admin en st) (\<lambda>_.
    ebind (get_storage_state en st) (\<lambda>state.
    if state \<noteq> not_inited_state_of_token_contract then throw_error ''this token contract inited before''
    else let parsed_args = split_comma api_arg
    in if length parsed_args < 4
    then throw_error ''argument format error, need format: name,symbol,supply,precision''
    else let name = trim (parsed_args ! 0); symbol = trim (parsed_args ! 1)
    in if name = [] \<or> symbol = []
    then throw_error ''argument format error, need format: name,symbol,supply,precision''
    else let supply_str = parsed_args ! 2
    in if \<not> is_integral supply_str
    then throw_error ''argument format error, need format: name,symbol,supply,precision''
    else ebind (stoll supply_str) (\<lambda>supply.
    if supply \<le> 0 then throw_error ''argument format error, supply must be positive integer''
    else let precision_str = parsed_args ! 3
    in if \<not> is_integral precision_str
    then throw_error ''argument format error, need format: name,symbol,supply,precision''
    else ebind (stoll precision_str) (\<lambda>precision.
    if precision \<le> 0 then throw_error ''argument format error, precision must be positive integer''
    else if precision \<notin> set allowed_precisions
    then throw_error ''argument format error, precision must be any one of [1,10,100,1000,10000,100000,1000000,10000000,100000000]''
    else
      let st = set_current_contract_storage en ''state'' (COT_STRING common_state_of_token_contract) st;
          st = set_current_contract_storage en ''precision'' (COT_INT precision) st;
          st = set_current_contract_storage en ''supply'' (COT_INT supply) st;
          st = set_current_contract_storage en ''name'' (COT_STRING name) st;
          st = set_current_contract_storage en ''symbol'' (COT_STRING symbol) st;
          caller_addr = caller_address_string en;
          st = current_fast_map_set en ''users'' caller_addr (COT_INT supply) st
      in emit_event en ''Inited'' (Plain supply_str) st))))"

definition balance_of_api :: handler where
  "balance_of_api en api_arg st =
    ebind (get_storage_state en st) (\<lambda>state.
    if state \<noteq> common_state_of_token_contract
    then throw_error ''this token contract state doesn't allow transfer''
    else ebind (get_balance_of_user en st api_arg) (\<lambda>amount.
      Inr (set_api_result (Plain (int_to_string amount)) st)))"

definition state_api :: handler where
  "state_api en api_arg st =
    ebind (get_storage_state en st) (\<lambda>state. Inr (set_api_result (Plain state) st))"

definition token_name_api :: handler where
  "token_name_api en api_arg st =
    ebind (get_storage_token_name en st) (\<lambda>token_name. Inr (set_api_result (Plain token_name) st))"

definition token_symbol_api :: handler where
  "token_symbol_api en api_arg st =
    ebind (get_storage_token_symbol en st) (\<lambda>token_symbol. Inr (set_api_result (Plain token_symbol) st))"

definition supply_api :: handler where
  "supply_api en api_arg st =
    ebind (get_storage_supply en st) (\<lambda>supply. Inr (set_api_result (Plain (int_to_string supply)) st))"

definition totalSupply_api :: handler where
  "totalSupply_api en api_arg st = supply_api en api_arg st"

definition precision_api :: handler where
  "precision_api en api_arg st =
    ebind (get_storage_precision en st) (\<lambda>precision.
      Inr (set_api_result (Plain (int_to_string precision)) st))"

definition approved_balance_from_api :: handler where
  "approved_balance_from_api en api_arg st =
    ebind (get_storage_state en st) (\<lambda>state.
    if state \<noteq> common_state_of_token_contract
    then throw_error ''this token contract state doesn't allow this api''
    else let parsed_args = split_comma api_arg
    in if length parsed_args < 2
    then throw_error ''argument format error, need format: spenderAddress, authorizerAddress''
    else let spender_address = trim (parsed_args ! 0);
             authorizer_address = trim (parsed_args ! 1);
             allowed_data = get_allowed_of_user en st authorizer_address
    in ebind (case std_map_find allowed_data spender_address of
                Some v \<Rightarrow> force_as_int v | None \<Rightarrow> Inr 0) (\<lambda>approved_amount.
       Inr (set_api_result (Plain (int_to_string approved_amount)) st)))"

definition all_approved_from_user_api :: handler where
  "all_approved_from_user_api en api_arg st =
    ebind (get_storage_state en st) (\<lambda>state.
    if state \<noteq> common_state_of_token_contract
    then throw_error ''this token contract state doesn't allow this api''
    else let from_address = trim api_arg;
             allowed_data = get_allowed_of_user en st from_address
    in ebind (to_json (COT_MAP allowed_data)) (\<lambda>allowed_data_json.
       Inr (set_api_result (Dumped allowed_data_json) st)))"

text \<open>The balance that is left is stored, or removed by storing null when nothing is left.\<close>

definition store_remaining_balance ::
    "contract_env \<Rightarrow> string \<Rightarrow> int \<Rightarrow> contract_invoke_result \<Rightarrow> contract_invoke_result" where
  "store_remaining_balance en addr remain st =
    (if remain > 0 then current_fast_map_set en ''users'' addr (COT_INT remain) st
     else current_fast_map_set en ''users'' addr COT_NULL st)"

definition transfer_api :: handler where
  "transfer_api en api_arg st =
    ebind (get_storage_state en st) (\<lambda>state.
    if state \<noteq> common_state_of_token_contract
    then throw_error ''this token contract state doesn't allow transfer''
    else let parsed_args = split_comma api_arg
    in if length parsed_args < 2
    then throw_error ''argument format error, need format: toAddress,amount(with precision, integer)''
    else let to_address = trim (parsed_args ! 0); amount_str = trim (parsed_args ! 1)
    in if \<not> is_integral amount_str
    then throw_error ''argument format error, amount must be positive integer''
    else ebind (stoll amount_str) (\<lambda>amount.
    if amount \<le> 0 then throw_error ''argument format error, amount must be positive integer''
    else let from_addr = get_from_address en
    in ebind (get_balance_of_user en st from_addr) (\<lambda>from_user_balance.
    if from_user_balance < amount then throw_error ''you have not enoungh amount to transfer out''
    else let from_addr_remain = from_user_balance - amount;
             st = store_remaining_balance en from_addr from_addr_remain st
    in ebind (get_balance_of_user en st to_address) (\<lambda>to_amount.
    let st = current_fast_map_set en ''users'' to_address (COT_INT (wrap_int64 (to_amount + amount))) st
    in emit_event en ''Transfer'' (Dumped (Json_object [(''from'', Json_string from_addr),
         (''to'', Json_string to_address), (''amount'', Json_int amount)])) st))))"

definition approve_api :: handler where
  "approve_api en api_arg st =
    ebind (get_storage_state en st) (\<lambda>state.
    if state \<noteq> common_state_of_token_contract
    then throw_error ''this token contract state doesn't allow approve''
    else let parsed_args = split_comma api_arg
    in if length parsed_args < 2
    then throw_error ''argument format error, need format: spenderAddress, amount(with precision, integer)''
    else let spender_address = trim (parsed_args ! 0); amount_str = trim (parsed_args ! 1)
    in if \<not> is_integral amount_str
    then throw_error ''argument format error, amount must be positive integer''
    else ebind (stoll amount_str) (\<lambda>amount.
    if amount \<le> 0 then throw_error ''argument format error, amount must be positive integer''
    else let contract_caller = get_from_address en;
             allowed_data = get_allowed_of_user en st contract_caller;
             allowed_data = std_map_set spender_address (COT_INT amount) allowed_data
    in if length allowed_data > 1000 then throw_error ''you approved to too many users''
    else let st = current_fast_map_set en ''allowed'' contract_caller (COT_MAP allowed_data) st
    in emit_event en ''Approved'' (Dumped (Json_object [(''from'', Json_string contract_caller),
         (''spender'', Json_string spender_address), (''amount'', Json_int amount)])) st))"

definition transfer_from_api :: handler where
  "transfer_from_api en api_arg st =
    ebind (get_storage_state en st) (\<lambda>state.
    if state \<noteq> common_state_of_token_contract
    then throw_error ''this token contract state doesn't allow transferFrom''
    else let parsed_args = split_comma api_arg
    in if length parsed_args < 3
    then throw_error ''argument format error, need format:fromAddress, toAddress, amount(with precision, integer)''
    else let from_address = trim (parsed_args ! 0); to_address = trim (parsed_args ! 1);
             amount_str = trim (parsed_args ! 2)
    in if \<not> is_integral amount_str
    then throw_error ''argument format error, amount must be positive integer''
    else ebind (stoll amount_str) (\<lambda>amount.
    if amount \<le> 0 then throw_error ''argument format error, amount must be positive integer''
    else ebind (get_balance_of_user en st from_address) (\<lambda>from_balance.
    if from_balance < amount then throw_error ''fromAddress not have enough token to withdraw''
    else let allowed_data = get_allowed_of_user en st from_address;
             contract_caller = get_from_address en
    in case std_map_find allowed_data contract_caller of
      None \<Rightarrow> throw_error ''not enough approved amount to withdraw''
    | Some approved \<Rightarrow>
    ebind (force_as_int approved) (\<lambda>approved_amount.
    if approved_amount < amount then throw_error ''not enough approved amount to withdraw''
    else let from_addr_remain = from_balance - amount;
             st = store_remaining_balance en from_address from_addr_remain st
    in ebind (get_balance_of_user en st to_address) (\<lambda>to_amount.
    let st = current_fast_map_set en ''users'' to_address (COT_INT (wrap_int64 (to_amount + amount))) st;
        allowed_data = std_map_set contract_caller (COT_INT (approved_amount - amount)) allowed_data;
        allowed_data = (if approved_amount - amount = 0 then std_map_erase contract_caller allowed_data
                        else allowed_data);
        st = current_fast_map_set en ''allowed'' from_address (COT_MAP allowed_data) st
    in emit_event en ''Transfer'' (Dumped (Json_object [(''from'', Json_string from_address),
         (''to'', Json_string to_address), (''amount'', Json_int amount)])) st)))))"

text \<open>\<^verbatim>\<open>invoke\<close>: the table of handlers; \<^verbatim>\<open>add_gas\<close> does nothing.\<close>

definition token_api_table :: "(string \<times> handler) list" where
  "token_api_table =
    [(''init'', token_init_api), (''init_token'', init_token_api), (''transfer'', transfer_api),
     (''transferFrom'', transfer_from_api), (''balanceOf'', balance_of_api), (''approve'', approve_api),
     (''approvedBalanceFrom'', approved_balance_from_api),
     (''allApprovedFromUser'', all_approved_from_user_api), (''state'', state_api),
     (''supply'', supply_api), (''precision'', precision_api), (''tokenName'', token_name_api),
     (''tokenSymbol'', token_symbol_api)]"

definition token_invoke ::
    "contract_env \<Rightarrow> string \<Rightarrow> string \<Rightarrow> contract_invoke_result \<Rightarrow> contract_invoke_result result" where
  "token_invoke en api_name api_arg st =
    (case map_of token_api_table api_name of
       Some h \<Rightarrow> ebind (h en api_arg st) (\<lambda>st. Inr (set_invoke_result_caller en st))
     | None \<Rightarrow> throw_error ''token api not found'')"

section \<open>Balances\<close>

definition token_balance :: "contract_env \<Rightarrow> contract_invoke_result \<Rightarrow> string \<Rightarrow> int" where
  "token_balance en st a =
    (let v = current_fast_map_get en st ''users'' a
     in if is_integer v then projr (force_as_int v) else 0)"

lemma get_balance_of_user_eq: "get_balance_of_user en st a = Inr (token_balance en st a)"
  using is_integer_force [of "current_fast_map_get en st ''users'' a"]
  by (simp add: get_balance_of_user_def token_balance_def Let_def)

lemma token_balance_store:
  assumes "storable v"
  shows "token_balance en (store_remaining_balance en a v st) b = (if b = a then v else token_balance en st b)"
  using assms storable_reload [OF assms]
  by (auto simp: token_balance_def store_remaining_balance_def store_simps Let_def is_integer_def storable_def)

interpretation users: ledger "token_balance en" "store_remaining_balance en" storable
  for en
  by unfold_locales (rule token_balance_store)

lemma store_positive:
  "0 < v \<Longrightarrow> current_fast_map_set en ''users'' a (COT_INT v) st = store_remaining_balance en a v st"
  by (simp add: store_remaining_balance_def)

text \<open>Writes outside the \<open>users\<close> map leave all balances alone, and the other way round.\<close>

lemma users_key_distinct:
  "''users.'' @ k \<noteq> ''name''" "''users.'' @ k \<noteq> ''symbol''" "''users.'' @ k \<noteq> ''supply''"
  "''users.'' @ k \<noteq> ''precision''" "''users.'' @ k \<noteq> ''state''" "''users.'' @ k \<noteq> ''admin''"
  "''users.'' @ k \<noteq> ''allowed.'' @ k'"
  by simp_all

lemma token_balance_other:
  "n \<in> {''name'', ''symbol'', ''supply'', ''precision'', ''state'', ''admin''} \<Longrightarrow>
    token_balance en (set_current_contract_storage en n v st) a = token_balance en st a"
  "token_balance en (current_fast_map_set en ''allowed'' k v st) a = token_balance en st a"
  "token_balance en (set_api_result r st) a = token_balance en st a"
  "token_balance en (set_invoke_result_caller en' st) a = token_balance en st a"
  by (auto simp: token_balance_def store_simps)

lemma token_balance_event: "emit_event en' nm arg st = Inr st' \<Longrightarrow> token_balance en st' a = token_balance en st a"
  by (simp add: token_balance_def reads_after_event)

lemma reads_after_balance:
  "n \<in> {''name'', ''symbol'', ''supply'', ''precision'', ''state'', ''admin''} \<Longrightarrow>
    get_current_contract_storage_cbor en (store_remaining_balance en a v st) n
      = get_current_contract_storage_cbor en st n"
  "n \<in> {''name'', ''symbol'', ''supply'', ''precision'', ''state'', ''admin''} \<Longrightarrow>
    get_current_contract_storage_cbor en (current_fast_map_set en ''allowed'' k w st) n
      = get_current_contract_storage_cbor en st n"
  "current_fast_map_get en (store_remaining_balance en a v st) ''allowed'' k
      = current_fast_map_get en st ''allowed'' k"
  by (auto simp: store_remaining_balance_def store_simps)

section \<open>What a successful handler has done\<close>

text \<open>Moving an amount between two accounts, as both transfer handlers do it.\<close>

definition moved :: "contract_env \<Rightarrow> string \<Rightarrow> string \<Rightarrow> int \<Rightarrow> contract_invoke_result \<Rightarrow> contract_invoke_result" where
  "moved en from_addr to_addr amount st =
    (let st1 = store_remaining_balance en from_addr (token_balance en st from_addr - amount) st
     in current_fast_map_set en ''users'' to_addr (COT_INT (wrap_int64 (token_balance en st1 to_addr + amount))) st1)"

lemma transfer_api_Inr:
  assumes "transfer_api en arg st = Inr st'"
  obtains to_addr amount ev where "get_storage_state en st = Inr common_state_of_token_contract"
    "to_addr = trim (split_comma arg ! 0)" "stoll (trim (split_comma arg ! 1)) = Inr amount"
    "0 < amount" "amount \<le> token_balance en st (env_caller en)"
    "emit_event en ''Transfer'' ev (moved en (env_caller en) to_addr amount st) = Inr st'"
proof -
  obtain to_addr amount where h: "get_storage_state en st = Inr common_state_of_token_contract"
    "to_addr = trim (split_comma arg ! 0)" "stoll (trim (split_comma arg ! 1)) = Inr amount"
    "0 < amount" "amount \<le> token_balance en st (env_caller en)"
    and e: "emit_event en ''Transfer'' (Dumped (Json_object [(''from'', Json_string (env_caller en)),
         (''to'', Json_string to_addr), (''amount'', Json_int amount)]))
        (current_fast_map_set en ''users'' to_addr (COT_INT (wrap_int64 (token_balance en
          (store_remaining_balance en (env_caller en) (token_balance en st (env_caller en) - amount) st)
          to_addr + amount)))
        (store_remaining_balance en (env_caller en) (token_balance en st (env_caller en) - amount) st)) = Inr st'"
    using assms(1)
    by (auto simp: transfer_api_def throw_error_def ebind_eq_Inr get_balance_of_user_eq Let_def
        get_from_address_def caller_address_string_def not_less not_le split: if_splits)
  then show thesis
    using that [OF h] by (simp only: moved_def Let_def)
qed

lemma transfer_from_api_Inr:
  assumes "transfer_from_api en arg st = Inr st'"
  obtains from_addr to_addr amount approved al ev
  where "get_storage_state en st = Inr common_state_of_token_contract"
    "from_addr = trim (split_comma arg ! 0)" "to_addr = trim (split_comma arg ! 1)"
    "stoll (trim (split_comma arg ! 2)) = Inr amount"
    "0 < amount" "amount \<le> token_balance en st from_addr"
    "std_map_find (get_allowed_of_user en st from_addr) (env_caller en) = Some al"
    "force_as_int al = Inr approved" "amount \<le> approved"
    "emit_event en ''Transfer'' ev (current_fast_map_set en ''allowed'' from_addr
       (COT_MAP (if approved = amount
          then std_map_erase (env_caller en)
                 (std_map_set (env_caller en) (COT_INT (approved - amount)) (get_allowed_of_user en st from_addr))
          else std_map_set (env_caller en) (COT_INT (approved - amount)) (get_allowed_of_user en st from_addr)))
       (moved en from_addr to_addr amount st)) = Inr st'"
proof -
  obtain from_addr to_addr amount al approved ev where
    h: "get_storage_state en st = Inr common_state_of_token_contract"
    "from_addr = trim (split_comma arg ! 0)" "to_addr = trim (split_comma arg ! 1)"
    "stoll (trim (split_comma arg ! 2)) = Inr amount"
    "0 < amount" "amount \<le> token_balance en st from_addr"
    "std_map_find (get_allowed_of_user en st from_addr) (env_caller en) = Some al"
    "force_as_int al = Inr approved" "amount \<le> approved"
    and e: "emit_event en ''Transfer'' ev (current_fast_map_set en ''allowed'' from_addr
       (COT_MAP (if approved = amount
          then std_map_erase (env_caller en)
                 (std_map_set (env_caller en) (COT_INT (approved - amount)) (get_allowed_of_user en st from_addr))
          else std_map_set (env_caller en) (COT_INT (approved - amount)) (get_allowed_of_user en st from_addr)))
        (current_fast_map_set en ''users'' to_addr (COT_INT (wrap_int64 (token_balance en
          (store_remaining_balance en from_addr (token_balance en st from_addr - amount) st)
          to_addr + amount)))
        (store_remaining_balance en from_addr (token_balance en st from_addr - amount) st))) = Inr st'"
    using assms(1) unfolding transfer_from_api_def
    by (auto simp: throw_error_def ebind_eq_Inr get_balance_of_user_eq Let_def
        get_from_address_def caller_address_string_def not_less not_le split: if_splits option.splits)
  then show thesis
    using that [OF h] by (simp only: moved_def Let_def)
qed

lemma moved_balance:
  assumes "0 < amount" "amount \<le> token_balance en st from_addr"
    "\<forall>a. 0 \<le> token_balance en st a" "(\<Sum>a \<in> A. token_balance en st a) < 2 ^ 63"
    "users.supported en st A t"
  shows "token_balance en (moved en from_addr to_addr amount st) b =
      token_balance en st b - (if b = from_addr then amount else 0) + (if b = to_addr then amount else 0)"
    and "\<exists>B. users.supported en (moved en from_addr to_addr amount st) B t"
proof -
  have bound: "token_balance en st a \<le> t" for a
    using users.supported_bound [OF assms(5)] assms(3) by simp
  have t: "t < 2 ^ 63" using assms(4,5) by (simp add: users.supported_def)
  let ?s1 = "store_remaining_balance en from_addr (token_balance en st from_addr - amount) st"
  have ok1: "storable (token_balance en st from_addr - amount)"
    using assms(1,2) bound [of from_addr] t by (simp add: storable_def)
  then have s1: "token_balance en ?s1 b = token_balance en st b - (if b = from_addr then amount else 0)" for b
    by (simp add: token_balance_store)
  have "users.supported en ?s1 (insert from_addr A) (t - amount)"
    using users.supported_put [OF assms(5) ok1, of from_addr] by (simp add: algebra_simps)
  moreover have "0 \<le> token_balance en ?s1 a" for a using s1 [of a] assms(2,3) by simp
  ultimately have "token_balance en ?s1 to_addr \<le> t - amount"
    by (rule users.supported_bound)
  then have ok2: "storable (token_balance en ?s1 to_addr + amount)"
    using \<open>0 \<le> token_balance en ?s1 to_addr\<close> assms(1) t by (simp add: storable_def)
  have "wrap_int64 (token_balance en ?s1 to_addr + amount) = token_balance en ?s1 to_addr + amount"
    using ok2 by (intro wrap_int64_id) (simp_all add: storable_def)
  then have moved: "moved en from_addr to_addr amount st
      = store_remaining_balance en to_addr (token_balance en ?s1 to_addr + amount) ?s1"
    using \<open>0 \<le> token_balance en ?s1 to_addr\<close> assms(1) by (simp add: moved_def Let_def store_positive)
  show "token_balance en (moved en from_addr to_addr amount st) b =
      token_balance en st b - (if b = from_addr then amount else 0) + (if b = to_addr then amount else 0)"
    unfolding moved using ok2 s1 by (simp add: token_balance_store)
  show "\<exists>B. users.supported en (moved en from_addr to_addr amount st) B t"
    unfolding moved using users.supported_move [OF assms(5) ok1 ok2] .
qed

section \<open>The invariant\<close>

text \<open>
  Before \<open>init_token\<close> nobody owns anything; afterwards the balances are never negative and
  add up to the stored supply, which is a positive 64 bit integer.
\<close>

definition token_funded :: "contract_env \<Rightarrow> contract_invoke_result \<Rightarrow> int \<Rightarrow> bool" where
  "token_funded en st t \<longleftrightarrow> 0 < t \<and> t < 2 ^ 63 \<and> (\<forall>a. 0 \<le> token_balance en st a) \<and>
     (\<exists>A. users.supported en st A t)"

definition token_inv :: "contract_env \<Rightarrow> contract_invoke_result \<Rightarrow> bool" where
  "token_inv en st \<longleftrightarrow>
     get_storage_state en st = Inr not_inited_state_of_token_contract \<and> (\<forall>a. token_balance en st a = 0) \<or>
     get_storage_state en st = Inr common_state_of_token_contract \<and>
       (\<exists>t. get_storage_supply en st = Inr t \<and> token_funded en st t)"

definition same_token :: "contract_env \<Rightarrow> contract_invoke_result \<Rightarrow> contract_invoke_result \<Rightarrow> bool" where
  "same_token en st st' \<longleftrightarrow>
     (\<forall>n \<in> {''name'', ''symbol'', ''supply'', ''precision'', ''state'', ''admin''}.
        get_current_contract_storage_cbor en st' n = get_current_contract_storage_cbor en st n)"

lemmas token_getters = get_storage_state_def get_storage_supply_def get_storage_precision_def
  get_storage_token_name_def get_storage_token_symbol_def string_storage_cbor

lemma same_token_getters:
  assumes "same_token en st st'"
  shows "get_storage_state en st' = get_storage_state en st" "get_storage_supply en st' = get_storage_supply en st"
  using assms by (simp_all add: same_token_def token_getters)

lemma funded_supported:
  assumes "token_funded en st t"
  obtains A where "users.supported en st A t" "(\<Sum>a \<in> A. token_balance en st a) < 2 ^ 63"
  using assms by (auto simp: token_funded_def users.supported_def)

lemma funded_less: "token_funded en st t \<Longrightarrow> token_balance en st a < 2 ^ 63"
  using users.supported_bound [of en st _ t a] by (force simp: token_funded_def)

lemma funded_moved:
  assumes "token_funded en st t" "0 < amount" "amount \<le> token_balance en st from_addr"
  shows "token_funded en (moved en from_addr to_addr amount st) t"
    and "token_balance en (moved en from_addr to_addr amount st) b =
      token_balance en st b - (if b = from_addr then amount else 0) + (if b = to_addr then amount else 0)"
proof -
  obtain A where A: "users.supported en st A t" "(\<Sum>a \<in> A. token_balance en st a) < 2 ^ 63"
    using assms(1) by (rule funded_supported)
  have nn: "\<forall>a. 0 \<le> token_balance en st a" using assms(1) by (simp add: token_funded_def)
  note m = moved_balance [OF assms(2,3) nn A(2,1), of to_addr]
  show bal: "token_balance en (moved en from_addr to_addr amount st) b =
      token_balance en st b - (if b = from_addr then amount else 0) + (if b = to_addr then amount else 0)" for b
    by (rule m(1))
  have "0 \<le> token_balance en (moved en from_addr to_addr amount st) b" for b
    using bal [of b] nn assms(2,3) by simp
  then show "token_funded en (moved en from_addr to_addr amount st) t"
    using m(2) assms(1) by (simp add: token_funded_def)
qed

lemma same_token_moved: "same_token en st (moved en from_addr to_addr amount st)"
  by (simp add: same_token_def moved_def reads_after_balance store_simps Let_def)

lemma token_funded_cong:
  "(\<And>a. token_balance en' st' a = token_balance en st a) \<Longrightarrow> token_funded en' st' t = token_funded en st t"
  by (simp add: token_funded_def users.supported_def)

lemma token_inv_cong:
  assumes "same_token en st st'" "\<And>a. token_balance en st' a = token_balance en st a" "token_inv en st"
  shows "token_inv en st'"
  using assms(3) token_funded_cong [of en st' en st, OF assms(2)] assms(2)
  by (simp add: token_inv_def same_token_getters [OF assms(1)])

section \<open>Every call keeps the invariant\<close>

lemma token_inv_common:
  assumes "token_inv en st" "get_storage_state en st = Inr common_state_of_token_contract"
  obtains t where "get_storage_supply en st = Inr t" "token_funded en st t"
  using assms by (auto simp: token_inv_def not_inited_state_of_token_contract_def common_state_of_token_contract_def)

lemma token_inv_bounds:
  assumes "token_inv en st"
  shows "\<forall>a. 0 \<le> token_balance en st a" "\<forall>a. token_balance en st a < 2 ^ 63"
proof -
  show "\<forall>a. 0 \<le> token_balance en st a" using assms by (auto simp: token_inv_def token_funded_def)
  show "\<forall>a. token_balance en st a < 2 ^ 63" using assms funded_less [of en st] by (auto simp: token_inv_def)
qed

lemma token_inv_funded:
  assumes "same_token en st st'" "get_storage_state en st = Inr common_state_of_token_contract"
    "get_storage_supply en st = Inr t" "token_funded en st' t"
  shows "token_inv en st'"
  using assms by (simp add: token_inv_def same_token_getters)

lemma same_token_event: "same_token en st0 st \<Longrightarrow> emit_event en nm arg st = Inr st' \<Longrightarrow> same_token en st0 st'"
  by (simp add: same_token_def reads_after_event)

lemma same_token_allowed:
  "same_token en st0 st \<Longrightarrow> same_token en st0 (current_fast_map_set en ''allowed'' k w st)"
  by (simp add: same_token_def reads_after_balance)

lemma transfer_api_effect:
  assumes "transfer_api en arg st = Inr st'" "token_inv en st"
  obtains to_addr amount where "to_addr = trim (split_comma arg ! 0)"
    "stoll (trim (split_comma arg ! 1)) = Inr amount" "0 < amount" "amount \<le> token_balance en st (env_caller en)"
    "\<forall>b. token_balance en st' b = token_balance en st b
       - (if b = env_caller en then amount else 0) + (if b = to_addr then amount else 0)"
    "token_inv en st'" "same_token en st st'"
proof -
  from transfer_api_Inr [OF assms(1)] obtain to_addr amount ev where
    h: "get_storage_state en st = Inr common_state_of_token_contract"
    "to_addr = trim (split_comma arg ! 0)" "stoll (trim (split_comma arg ! 1)) = Inr amount"
    "0 < amount" "amount \<le> token_balance en st (env_caller en)"
    "emit_event en ''Transfer'' ev (moved en (env_caller en) to_addr amount st) = Inr st'"
    by blast
  obtain t where t: "get_storage_supply en st = Inr t" "token_funded en st t"
    using token_inv_common [OF assms(2) h(1)] by blast
  note m = funded_moved [OF t(2) h(4,5), of to_addr]
  have bal: "token_balance en st' b = token_balance en (moved en (env_caller en) to_addr amount st) b" for b
    using token_balance_event [OF h(6)] by simp
  have same: "same_token en st st'"
    using same_token_event [OF same_token_moved h(6)] .
  have "token_inv en st'"
    using token_inv_funded [OF same h(1) t(1)] m(1) token_funded_cong [of en st' _ _ t, OF bal] by blast
  then show thesis
    using that [OF h(2,3,4,5)] m(2) bal same by simp
qed

lemma transfer_from_api_effect:
  assumes "transfer_from_api en arg st = Inr st'" "token_inv en st"
  obtains from_addr to_addr amount approved al where
    "from_addr = trim (split_comma arg ! 0)" "to_addr = trim (split_comma arg ! 1)"
    "stoll (trim (split_comma arg ! 2)) = Inr amount"
    "0 < amount" "amount \<le> token_balance en st from_addr"
    "std_map_find (get_allowed_of_user en st from_addr) (env_caller en) = Some al"
    "force_as_int al = Inr approved" "amount \<le> approved"
    "\<forall>b. token_balance en st' b = token_balance en st b
       - (if b = from_addr then amount else 0) + (if b = to_addr then amount else 0)"
    "get_allowed_of_user en st' from_addr = cbor_reload_members (if approved = amount
          then std_map_erase (env_caller en)
                 (std_map_set (env_caller en) (COT_INT (approved - amount)) (get_allowed_of_user en st from_addr))
          else std_map_set (env_caller en) (COT_INT (approved - amount)) (get_allowed_of_user en st from_addr))"
    "token_inv en st'" "same_token en st st'"
proof -
  obtain from_addr to_addr amount approved al ev where
    h: "get_storage_state en st = Inr common_state_of_token_contract"
    "from_addr = trim (split_comma arg ! 0)" "to_addr = trim (split_comma arg ! 1)"
    "stoll (trim (split_comma arg ! 2)) = Inr amount"
    "0 < amount" "amount \<le> token_balance en st from_addr"
    "std_map_find (get_allowed_of_user en st from_addr) (env_caller en) = Some al"
    "force_as_int al = Inr approved" "amount \<le> approved"
    and e: "emit_event en ''Transfer'' ev (current_fast_map_set en ''allowed'' from_addr
       (COT_MAP (if approved = amount
          then std_map_erase (env_caller en)
                 (std_map_set (env_caller en) (COT_INT (approved - amount)) (get_allowed_of_user en st from_addr))
          else std_map_set (env_caller en) (COT_INT (approved - amount)) (get_allowed_of_user en st from_addr)))
       (moved en from_addr to_addr amount st)) = Inr st'"
    by (rule transfer_from_api_Inr [OF assms(1)])
  obtain t where t: "get_storage_supply en st = Inr t" "token_funded en st t"
    using token_inv_common [OF assms(2) h(1)] by blast
  note m = funded_moved [OF t(2) h(5,6), of to_addr]
  have bal: "token_balance en st' b = token_balance en (moved en from_addr to_addr amount st) b" for b
    using token_balance_event [OF e] by (simp add: token_balance_other)
  have same: "same_token en st st'"
    using same_token_event [OF same_token_allowed [OF same_token_moved] e] .
  have "token_inv en st'"
    using token_inv_funded [OF same h(1) t(1)] m(1) token_funded_cong [of en st' _ _ t, OF bal] by blast
  moreover have "get_allowed_of_user en st' from_addr = cbor_reload_members (if approved = amount
          then std_map_erase (env_caller en)
                 (std_map_set (env_caller en) (COT_INT (approved - amount)) (get_allowed_of_user en st from_addr))
          else std_map_set (env_caller en) (COT_INT (approved - amount)) (get_allowed_of_user en st from_addr))"
    using reads_after_event(2) [OF e] by (simp add: get_allowed_of_user_def store_simps)
  ultimately show thesis
    using that [OF h(2-9)] m(2) bal same by simp
qed

lemma init_token_api_effect:
  assumes "init_token_api en arg st = Inr st'" "token_inv en st"
  obtains total where "get_storage_state en st = Inr not_inited_state_of_token_contract"
    "stoll (split_comma arg ! 2) = Inr total" "0 < total"
    "get_storage_supply en st' = Inr total" "get_storage_state en st' = Inr common_state_of_token_contract"
    "\<forall>a. token_balance en st' a = (if a = env_caller en then total else 0)" "token_inv en st'"
proof -
  obtain total precision ev where h: "get_storage_state en st = Inr not_inited_state_of_token_contract"
    "stoll (split_comma arg ! 2) = Inr total" "0 < total" and
    e: "emit_event en ''Inited'' ev (current_fast_map_set en ''users'' (env_caller en) (COT_INT total)
      (set_current_contract_storage en ''symbol'' (COT_STRING (trim (split_comma arg ! 1)))
      (set_current_contract_storage en ''name'' (COT_STRING (trim (split_comma arg ! 0)))
      (set_current_contract_storage en ''supply'' (COT_INT total)
      (set_current_contract_storage en ''precision'' (COT_INT precision)
      (set_current_contract_storage en ''state'' (COT_STRING common_state_of_token_contract) st)))))) = Inr st'"
    (is "emit_event en _ _ (current_fast_map_set en _ _ _ ?s) = _")
    using assms(1) unfolding init_token_api_def
    by (auto simp: throw_error_def ebind_eq_Inr Let_def caller_address_string_def not_less not_le split: if_splits)
  have sup: "total < 2 ^ 63" using stoll_range [OF h(2)] by blast
  then have ok: "storable total" using h(3) by (simp add: storable_def)
  have zero: "\<forall>a. token_balance en st a = 0"
    using assms(2) h(1) by (auto simp: token_inv_def not_inited_state_of_token_contract_def
        common_state_of_token_contract_def)
  have bal: "token_balance en st' a = (if a = env_caller en then total else 0)" for a
    using token_balance_event [OF e, of en a] token_balance_store [OF ok, of en "env_caller en" ?s a] zero h(3)
    by (simp add: store_positive token_balance_other)
  have state: "get_storage_state en st' = Inr common_state_of_token_contract"
    and total: "get_storage_supply en st' = Inr total"
    using reads_after_event(1) [OF e] storable_reload [OF ok] by (simp_all add: token_getters store_simps)
  have "users.supported en st' {env_caller en} total"
    using bal by (simp add: users.supported_def)
  then have "token_funded en st' total"
    using bal sup h(3) by (auto simp: token_funded_def)
  then show thesis
    using that [OF h total state] bal state total by (simp add: token_inv_def)
qed

lemma approve_api_effect:
  assumes "approve_api en arg st = Inr st'"
  obtains spender amount where "spender = trim (split_comma arg ! 0)"
    "stoll (trim (split_comma arg ! 1)) = Inr amount" "0 < amount"
    "get_allowed_of_user en st' (env_caller en) =
       cbor_reload_members (std_map_set spender (COT_INT amount) (get_allowed_of_user en st (env_caller en)))"
    "length (get_allowed_of_user en st' (env_caller en)) \<le> 1000"
    "\<forall>a. token_balance en st' a = token_balance en st a" "same_token en st st'"
proof -
  obtain spender amount ev where h: "spender = trim (split_comma arg ! 0)"
    "stoll (trim (split_comma arg ! 1)) = Inr amount" "0 < amount"
    and len: "length (std_map_set spender (COT_INT amount) (get_allowed_of_user en st (env_caller en))) \<le> 1000"
    and e: "emit_event en ''Approved'' ev (current_fast_map_set en ''allowed'' (env_caller en)
      (COT_MAP (std_map_set spender (COT_INT amount) (get_allowed_of_user en st (env_caller en)))) st) = Inr st'"
    using assms unfolding approve_api_def
    by (auto simp: throw_error_def ebind_eq_Inr Let_def get_from_address_def caller_address_string_def
        not_less not_le split: if_splits)
  have al: "get_allowed_of_user en st' (env_caller en) =
       cbor_reload_members (std_map_set spender (COT_INT amount) (get_allowed_of_user en st (env_caller en)))"
    using reads_after_event(2) [OF e] by (simp add: get_allowed_of_user_def store_simps)
  have "length (cbor_reload_members m) = length m" for m
    by (induction m) auto
  then have "length (get_allowed_of_user en st' (env_caller en)) \<le> 1000"
    using al len by simp
  moreover have "same_token en st st'"
    using same_token_event [OF same_token_allowed [of en st st] e] by (simp add: same_token_def)
  ultimately show thesis
    using that [OF h al] token_balance_event [OF e] by (simp add: token_balance_other)
qed

lemma query_effect:
  assumes "h en arg st = Inr st'"
    "h \<in> {balance_of_api, state_api, token_name_api, token_symbol_api, supply_api, totalSupply_api, precision_api,
      approved_balance_from_api, all_approved_from_user_api}"
  shows "\<exists>r. st' = set_api_result r st"
  using assms
  by (auto simp: balance_of_api_def state_api_def token_name_api_def token_symbol_api_def supply_api_def
      totalSupply_api_def precision_api_def approved_balance_from_api_def all_approved_from_user_api_def
      ebind_eq_Inr throw_error_def Let_def split: if_splits)

lemma same_token_irrelevant: "same_token en st (set_api_result r st)" "same_token en st (set_invoke_result_caller en st)"
  by (simp_all add: same_token_def store_simps)

lemma token_init_api_effect:
  assumes "token_init_api en arg st = Inr st'" "\<forall>a. token_balance en st a = 0"
  shows "token_inv en st'" "get_storage_state en st' = Inr not_inited_state_of_token_contract"
proof -
  have e: "st' = set_current_contract_storage en ''admin'' (COT_STRING (env_caller en))
      (set_current_contract_storage en ''state'' (COT_STRING not_inited_state_of_token_contract)
      (set_current_contract_storage en ''precision'' (COT_INT 0)
      (set_current_contract_storage en ''supply'' (COT_INT 0)
      (set_current_contract_storage en ''symbol'' (COT_STRING [])
      (set_current_contract_storage en ''name'' (COT_STRING []) st)))))"
    using assms(1) by (auto simp: token_init_api_def throw_error_def Let_def caller_address_string_def split: if_splits)
  have "token_balance en st' a = 0" for a
    unfolding e using assms(2) by (simp add: token_balance_other)
  moreover show "get_storage_state en st' = Inr not_inited_state_of_token_contract"
    unfolding e by (simp add: token_getters store_simps)
  ultimately show "token_inv en st'" by (simp add: token_inv_def)
qed

lemma token_invoke_inv:
  assumes "token_invoke en api arg st = Inr st'" "token_inv en st" "api \<noteq> ''init''"
  shows "token_inv en st'"
proof -
  obtain h s where h: "map_of token_api_table api = Some h" "h en arg st = Inr s"
    and st': "st' = set_invoke_result_caller en s"
    using assms(1) by (auto simp: token_invoke_def throw_error_def ebind_eq_Inr split: option.splits)
  have "token_inv en s"
  proof -
    consider "h = init_token_api" | "h = transfer_api" | "h = transfer_from_api" | "h = approve_api"
      | "h \<in> {balance_of_api, state_api, token_name_api, token_symbol_api, supply_api, totalSupply_api, precision_api,
          approved_balance_from_api, all_approved_from_user_api}"
      using h(1) assms(3) by (simp add: token_api_table_def split: if_splits)
    then show ?thesis
    proof cases
      case 1 then show ?thesis using h(2) init_token_api_effect assms(2) by metis
    next
      case 2 then show ?thesis using h(2) transfer_api_effect assms(2) by metis
    next
      case 3 then show ?thesis using h(2) transfer_from_api_effect assms(2) by metis
    next
      case 4 then show ?thesis using h(2) approve_api_effect token_inv_cong assms(2) by metis
    next
      case 5
      then obtain r where "s = set_api_result r st" using query_effect [of h en arg st s] h(2) by blast
      then show ?thesis using token_inv_cong [OF same_token_irrelevant(1)] token_balance_other(3) assms(2) by metis
    qed
  qed
  then show ?thesis
    unfolding st' using token_inv_cong [OF same_token_irrelevant(2)] token_balance_other(4) by metis
qed

section \<open>Histories\<close>

text \<open>
  The storages a token contract can have: it is registered on storage without an entry of
  its own by invoking \<open>init\<close>, then invoked through operations that pass \<open>contract_api_check\<close>,
  each of which commits its changes when it succeeds; the rest of the node changes the storage
  of other contracts only.
\<close>

inductive token_history :: "string \<Rightarrow> storage_map \<Rightarrow> bool" for c :: string where
  registered: "(\<And>n. env_storage en (c, n) = None) \<Longrightarrow> env_contract en = c \<Longrightarrow>
    token_invoke en ''init'' arg empty_invoke_result = Inr st \<Longrightarrow>
    token_history c (apply_storage_change st (env_storage en))"
| invoked: "token_history c (env_storage en) \<Longrightarrow> env_contract en = c \<Longrightarrow> contract_api_check api \<Longrightarrow>
    token_invoke en api arg empty_invoke_result = Inr st \<Longrightarrow>
    token_history c (apply_storage_change st (env_storage en))"
| elsewhere: "token_history c db \<Longrightarrow> (\<And>n. db' (c, n) = db (c, n)) \<Longrightarrow> token_history c db'"

text \<open>The invariant only reads the contract's own storage.\<close>

lemma current_reads_cong:
  assumes "env_contract en' = env_contract en"
    "\<And>n. get_contract_storage en' st' (env_contract en) n = get_contract_storage en st (env_contract en) n"
  shows "get_current_contract_storage_cbor en' st' n = get_current_contract_storage_cbor en st n"
    "token_balance en' st' a = token_balance en st a"
  using assms by (simp_all add: get_current_contract_storage_cbor_def token_balance_def current_fast_map_get_def
      fast_map_get_def)

lemma token_inv_env_cong:
  assumes "env_contract en' = env_contract en"
    "\<And>n. get_contract_storage en' st' (env_contract en) n = get_contract_storage en st (env_contract en) n"
  shows "token_inv en' st' = token_inv en st"
proof -
  note r = current_reads_cong [OF assms]
  have "get_storage_state en' st' = get_storage_state en st" "get_storage_supply en' st' = get_storage_supply en st"
    using r(1) assms(1) by (simp_all add: token_getters Let_def)
  then show ?thesis
    using r(2) token_funded_cong [of en' st' en st] by (simp add: token_inv_def)
qed

lemma token_inv_committed:
  assumes "token_inv en st" "env_contract en' = env_contract en"
    "env_storage en' = apply_storage_change st (env_storage en)"
  shows "token_inv en' empty_invoke_result"
proof -
  have "get_contract_storage en' empty_invoke_result a n = get_contract_storage en st a n" for a n
    using read_after_commit [of st en a n] assms(3) by (simp add: get_contract_storage_empty)
  then show ?thesis using token_inv_env_cong [of en' en empty_invoke_result st] assms(1,2) by simp
qed

lemma token_history_inv:
  assumes "token_history c db"
  shows "env_contract en = c \<Longrightarrow> env_storage en = db \<Longrightarrow> token_inv en empty_invoke_result"
  using assms
proof (induction arbitrary: en rule: token_history.induct)
  case (registered en0 arg st)
  have "token_balance en0 empty_invoke_result a = 0" for a
    using registered(1,2) by (simp add: token_balance_def current_fast_map_get_def fast_map_get_def
        get_contract_storage_empty db_get_contract_storage_def is_integer_def)
  moreover obtain s where "token_init_api en0 arg empty_invoke_result = Inr s" "st = set_invoke_result_caller en0 s"
    using registered(3) by (auto simp: token_invoke_def token_api_table_def ebind_eq_Inr)
  ultimately have "token_inv en0 st"
    using token_init_api_effect(1) token_inv_cong [OF same_token_irrelevant(2)] token_balance_other(4) by metis
  then show ?case using token_inv_committed registered by metis
next
  case (invoked en0 api arg st)
  have "api \<noteq> ''init''" using invoked(3) by (auto simp: contract_api_check_def contract_special_api_names_def)
  then have "token_inv en0 st"
    using token_invoke_inv [OF invoked(4)] invoked by blast
  then show ?case using token_inv_committed invoked by metis
next
  case (elsewhere db db')
  have "token_inv (en\<lparr>env_storage := db\<rparr>) empty_invoke_result" using elsewhere by simp
  moreover have "get_contract_storage en empty_invoke_result (env_contract en) n
      = get_contract_storage (en\<lparr>env_storage := db\<rparr>) empty_invoke_result (env_contract en) n" for n
    using elsewhere by (simp add: get_contract_storage_empty db_get_contract_storage_def)
  ultimately show ?case
    using token_inv_env_cong [of en "en\<lparr>env_storage := db\<rparr>" empty_invoke_result empty_invoke_result] by simp
qed

section \<open>Printed arguments\<close>

lemma transfer_api_printed:
  assumes "get_storage_state en st = Inr common_state_of_token_contract" "CHR '','' \<notin> set to_addr"
    "0 < amount" "amount < 2 ^ 63"
  shows "(\<exists>st'. transfer_api en (to_addr @ '','' @ int_to_string amount) st = Inr st') \<longleftrightarrow>
    amount \<le> token_balance en st (env_caller en)"
  using assms stoll_int_to_string [of amount] printed_args [OF assms(2), of amount]
  unfolding transfer_api_def Let_def
  by (simp add: is_integral_int_to_string get_balance_of_user_eq get_from_address_def caller_address_string_def
      trim_int_to_string emit_event_def throw_error_def not_less)

lemma approve_then_query:
  assumes "approve_api en (spender @ '','' @ int_to_string amount) st = Inr st'"
    "CHR '','' \<notin> set spender" "CHR '','' \<notin> set (env_caller en)" "\<forall>c \<in> set (env_caller en). \<not> is_space c"
    "0 < amount" "amount < 2 ^ 63"
  shows "approved_balance_from_api (en\<lparr>env_caller := x\<rparr>) (spender @ '','' @ env_caller en) st' =
    Inr (set_api_result (Plain (int_to_string amount)) st')"
proof -
  have amount: "stoll (int_to_string amount) = Inr amount" using assms(5,6) by (intro stoll_int_to_string) auto
  have state: "get_storage_state en st = Inr common_state_of_token_contract"
    using assms(1) by (auto simp: approve_api_def throw_error_def ebind_eq_Inr split: if_splits)
  obtain h: "get_allowed_of_user en st' (env_caller en) =
       cbor_reload_members (std_map_set (trim spender) (COT_INT amount) (get_allowed_of_user en st (env_caller en)))"
    and same: "same_token en st st'"
    by (rule approve_api_effect [OF assms(1)]) (simp_all add: printed_args [OF assms(2)] trim_int_to_string amount)
  have "std_map_find (get_allowed_of_user en st' (env_caller en)) (trim spender) = Some (cbor_reload (COT_INT amount))"
    unfolding h std_map_find_def map_cbor_reload_members
    using std_map.find_put [of "trim spender" "COT_INT amount" _ "trim spender"] by (simp add: std_map_find_def)
  moreover have "force_as_int (cbor_reload (COT_INT amount)) = Inr amount"
    using storable_reload [of amount] assms(5,6) by (simp add: storable_def)
  moreover have "get_storage_state (en\<lparr>env_caller := x\<rparr>) st' = Inr common_state_of_token_contract"
    using state same_token_getters(1) [OF same] by (simp add: token_getters Let_def throw_error_def split: if_splits)
  ultimately show ?thesis
    using assms(2-4)
    by (simp add: approved_balance_from_api_def split_comma_append split_comma_single trim_spaceless
        get_allowed_of_user_def Let_def)
qed

lemma std_map_find_members: "std_map_find (cbor_reload_members m) k = map_option cbor_reload (std_map_find m k)"
  by (simp add: std_map_find_def map_cbor_reload_members)

end
