(* ===== verification/Limbs.thy ===== *)
theory Limbs
  imports Prelude
begin

text \<open>
  Arithmetic of numbers written in limbs, over \<open>int\<close>: carries of an addition, borrows of
  a subtraction, shifts across the limb boundary and the four by four schoolbook
  product. The 128 bit and the 256 bit integers of \<^verbatim>\<open>safenumber.cpp\<close> are both
  instances. The locale at the end is the contract of the shift-and-subtract division
  that both widths use.
\<close>

section \<open>Two limbs\<close>

lemma glue_mod:
  fixes lo :: int
  assumes "0 \<le> lo" "lo < M" "0 \<le> N"
  shows "(A * M + lo) mod (N * M) = (A mod N) * M + lo"
proof -
  have "(A * M + lo) mod (M * N) = M * ((A * M + lo) div M mod N) + (A * M + lo) mod M"
    by (rule zmod_zmult2_eq) (use assms in auto)
  moreover have "(A * M + lo) div M = A" and "(A * M + lo) mod M = lo"
    using assms by simp_all
  ultimately show ?thesis by (simp add: mult.commute)
qed

lemma limb_add:
  fixes ah al bh bl :: int
  assumes "0 \<le> al" "al < B" "0 \<le> bl" "bl < B"
  shows "((ah + bh + (if (al + bl) mod B < al then 1 else 0)) mod B) * B + (al + bl) mod B
    = ((ah * B + al) + (bh * B + bl)) mod (B * B)"
proof -
  let ?lo = "(al + bl) mod B" and ?c = "(al + bl) div B"
  have "?c = (if ?lo < al then 1 else 0)"
  proof (cases "al + bl < B")
    case True
    then show ?thesis using assms by simp
  next
    case False
    then have eq: "al + bl = B * 1 + (al + bl - B)" "0 \<le> al + bl - B" "al + bl - B < B"
      using assms by simp_all
    have "?c = 1" and "?lo = al + bl - B"
      using int_div_pos_eq [OF eq] int_mod_pos_eq [OF eq] .
    then show ?thesis using assms by simp
  qed
  moreover have "(ah * B + al) + (bh * B + bl) = (ah + bh + ?c) * B + ?lo"
    using div_mult_mod_eq [of "al + bl" B] by (simp add: algebra_simps)
  moreover have "0 \<le> ?lo" "?lo < B"
    using assms by simp_all
  ultimately show ?thesis
    using assms by (simp only: glue_mod)
qed

lemma limb_sub:
  fixes ah al bh bl :: int
  assumes "0 \<le> al" "al < B" "0 \<le> bl" "bl < B"
  shows "((ah - bh - (if (al - bl) mod B > al then 1 else 0)) mod B) * B + (al - bl) mod B
    = ((ah * B + al) - (bh * B + bl)) mod (B * B)"
proof -
  let ?lo = "(al - bl) mod B" and ?c = "(if (al - bl) mod B > al then 1 else 0) :: int"
  have "al - bl = ?lo - ?c * B"
  proof (cases "bl \<le> al")
    case True
    then show ?thesis using assms by simp
  next
    case False
    then have eq: "al - bl = B * (-1) + (al - bl + B)" "0 \<le> al - bl + B" "al - bl + B < B"
      using assms by simp_all
    have "?lo = al - bl + B"
      using int_mod_pos_eq [OF eq] .
    then show ?thesis using assms False by simp
  qed
  then have "(ah * B + al) - (bh * B + bl) = (ah - bh - ?c) * B + ?lo"
    by (simp add: algebra_simps)
  moreover have "0 \<le> ?lo" "?lo < B"
    using assms by simp_all
  ultimately show ?thesis
    using assms by (simp only: glue_mod)
qed

lemma limb_less:
  fixes ah al bh bl :: int
  assumes "0 \<le> al" "al < B" "0 \<le> bl" "bl < B"
  shows "ah * B + al < bh * B + bl \<longleftrightarrow> ah < bh \<or> ah = bh \<and> al < bl"
proof (cases "ah = bh")
  case False
  have lt: "x * B + y < x' * B + y'"
    if "x < x'" "0 \<le> y'" "y < B" for x x' y y' :: int
  proof -
    have "(x + 1) * B \<le> x' * B"
      using that assms by (intro mult_right_mono) auto
    then show ?thesis using that by (simp add: algebra_simps)
  qed
  show ?thesis
    using False lt [of ah bh bl al] lt [of bh ah al bl] assms by fastforce
qed simp

lemma limb_eq:
  fixes ah al bh bl :: int
  assumes "0 \<le> al" "al < B" "0 \<le> bl" "bl < B"
  shows "ah * B + al = bh * B + bl \<longleftrightarrow> ah = bh \<and> al = bl"
  using limb_less [OF assms, of ah bh] limb_less [OF assms(3,4,1,2), of bh ah] by fastforce

lemma limb_shl:
  fixes ah al :: int
  assumes "s < w"
  shows "(((ah * 2 ^ s) mod 2 ^ w + al div 2 ^ (w - s)) mod 2 ^ w) * 2 ^ w + (al * 2 ^ s) mod 2 ^ w
    = ((ah * 2 ^ w + al) * 2 ^ s) mod (2 ^ w * 2 ^ w)"
proof -
  have w: "(2 :: int) ^ w = 2 ^ (w - s) * 2 ^ s"
    using assms by (simp flip: power_add)
  have "(al * 2 ^ s) div 2 ^ w = al div 2 ^ (w - s)"
    unfolding w by (rule div_mult_mult2) simp
  then have "al * 2 ^ s = (al div 2 ^ (w - s)) * 2 ^ w + (al * 2 ^ s) mod 2 ^ w"
    using div_mult_mod_eq [of "al * 2 ^ s" "2 ^ w"] by simp
  then have "(ah * 2 ^ w + al) * 2 ^ s
      = (ah * 2 ^ s + al div 2 ^ (w - s)) * 2 ^ w + (al * 2 ^ s) mod 2 ^ w"
    by (simp add: algebra_simps)
  then show ?thesis
    by (simp add: glue_mod mod_add_left_eq)
qed

lemma limb_shr:
  fixes ah al :: int
  assumes "s < w" "0 \<le> al" "al < 2 ^ w"
  shows "(ah div 2 ^ s) * 2 ^ w + ((ah * 2 ^ (w - s)) mod 2 ^ w + al div 2 ^ s) mod 2 ^ w
    = (ah * 2 ^ w + al) div 2 ^ s"
proof -
  have w: "(2 :: int) ^ w = 2 ^ s * 2 ^ (w - s)"
    using assms by (simp flip: power_add)
  have m: "(ah * 2 ^ (w - s)) mod 2 ^ w = (ah mod 2 ^ s) * 2 ^ (w - s)"
    unfolding w by (rule mod_mult_mult2)
  have "2 ^ s * (al div 2 ^ s) < 2 ^ s * 2 ^ (w - s)"
    using assms(3) mult_div_mod_eq [of "2 ^ s" al] pos_mod_sign [of "2 ^ s" al, OF zero_less_power]
    unfolding w by linarith
  then have "al div 2 ^ s < 2 ^ (w - s)" by simp
  moreover have "(ah mod 2 ^ s + 1) * 2 ^ (w - s) \<le> 2 ^ s * 2 ^ (w - s)"
    by (intro mult_right_mono) (simp_all add: add1_zle_eq)
  ultimately have "(ah mod 2 ^ s) * 2 ^ (w - s) + al div 2 ^ s < 2 ^ w"
    unfolding w by (simp add: algebra_simps)
  moreover have "0 \<le> (ah mod 2 ^ s) * 2 ^ (w - s) + al div 2 ^ s"
    using assms by (simp add: pos_imp_zdiv_nonneg_iff)
  ultimately have lo: "((ah * 2 ^ (w - s)) mod 2 ^ w + al div 2 ^ s) mod 2 ^ w
      = (ah mod 2 ^ s) * 2 ^ (w - s) + al div 2 ^ s"
    unfolding m by simp
  have "(ah * 2 ^ w + al) div 2 ^ s = ah * 2 ^ (w - s) + al div 2 ^ s"
    unfolding w using div_mult_self2 [of "2 ^ s" al "ah * 2 ^ (w - s)"]
    by (simp add: algebra_simps)
  also have "\<dots> = (ah div 2 ^ s * 2 ^ s + ah mod 2 ^ s) * 2 ^ (w - s) + al div 2 ^ s"
    by (simp only: div_mult_mod_eq)
  also have "\<dots> = (ah div 2 ^ s) * 2 ^ w + ((ah mod 2 ^ s) * 2 ^ (w - s) + al div 2 ^ s)"
    unfolding w by (simp only: algebra_simps)
  finally show ?thesis using lo by simp
qed

section \<open>The schoolbook product of four limbs\<close>

lemma carry4:
  fixes f s t u :: int
  assumes "0 < H" "0 \<le> u" "u < H"
  shows "((((f + (s + t div H) div H) mod H) * H + (s + t div H) mod H) * H + t mod H) * H + u
    = (((f * H + s) * H + t) * H + u) mod (H * H * H * H)"
proof -
  have e1: "((f * H + s) * H + t) * H + u = ((f * H + (s + t div H)) * H + t mod H) * H + u"
    using div_mult_mod_eq [of t H] by (simp add: algebra_simps)
  have e2: "f * H + (s + t div H) = (f + (s + t div H) div H) * H + (s + t div H) mod H"
    using div_mult_mod_eq [of "s + t div H" H] by (simp add: algebra_simps)
  show ?thesis
    unfolding e1 unfolding e2 using assms by (simp add: glue_mod)
qed

lemma schoolbook4:
  fixes a0 a1 a2 a3 b0 b1 b2 b3 :: int
  assumes H: "0 < H"
  defines "u \<equiv> (a0 * b0) mod H"
    and "t \<equiv> (a0 * b1) mod H + (a0 * b0) div H + (a1 * b0) mod H"
    and "s \<equiv> (a0 * b2) mod H + (a0 * b1) div H + ((a1 * b1) mod H + (a1 * b0) div H)
        + (a2 * b0) mod H"
    and "f \<equiv> (a0 * b3) mod H + (a0 * b2) div H + ((a1 * b2) mod H + (a1 * b1) div H)
        + ((a2 * b1) mod H + (a2 * b0) div H) + (a3 * b0) mod H"
  shows "((((f + (s + t div H) div H) mod H) * H + (s + t div H) mod H) * H + t mod H) * H + u
    = (((((a3 * H + a2) * H + a1) * H + a0) * (((b3 * H + b2) * H + b1) * H + b0))
       mod (H * H * H * H))"
proof -
  let ?K = "(a0 * b3) div H + (a1 * b2) div H + (a2 * b1) div H + (a3 * b0) div H
    + (a1 * b3 + a2 * b2 + a3 * b1) + (a2 * b3 + a3 * b2) * H + (a3 * b3) * H * H"
  have split: "a0 * b0 = (a0 * b0) div H * H + (a0 * b0) mod H"
    "a0 * b1 = (a0 * b1) div H * H + (a0 * b1) mod H"
    "a0 * b2 = (a0 * b2) div H * H + (a0 * b2) mod H"
    "a0 * b3 = (a0 * b3) div H * H + (a0 * b3) mod H"
    "a1 * b0 = (a1 * b0) div H * H + (a1 * b0) mod H"
    "a1 * b1 = (a1 * b1) div H * H + (a1 * b1) mod H"
    "a1 * b2 = (a1 * b2) div H * H + (a1 * b2) mod H"
    "a2 * b0 = (a2 * b0) div H * H + (a2 * b0) mod H"
    "a2 * b1 = (a2 * b1) div H * H + (a2 * b1) mod H"
    "a3 * b0 = (a3 * b0) div H * H + (a3 * b0) mod H"
    by simp_all
  have "(((a3 * H + a2) * H + a1) * H + a0) * (((b3 * H + b2) * H + b1) * H + b0)
      = (((f * H + s) * H + t) * H + u) + ?K * (H * H * H * H)"
    unfolding f_def s_def t_def u_def using split by algebra
  then show ?thesis
    using H by (simp add: carry4 u_def)
qed

section \<open>Schoolbook multiplication\<close>

text \<open>
  Both widths multiply two numbers of four half-word digits with the same straight-line
  code over a double-digit word type: 32 bit digits in 64 bit words, 64 bit digits in
  128 bit words. \<open>lo\<close> and \<open>hi\<close> are the digits of a word; \<open>digits m x v\<close> says that
  the word \<open>x\<close> has the value \<open>v\<close>, a sum of at most \<open>m\<close> digits.
\<close>

locale schoolbook_multiplier =
  fixes val :: "'w \<Rightarrow> int"
    and H :: int
    and lo hi :: "'w \<Rightarrow> 'w"
    and add mul :: "'w \<Rightarrow> 'w \<Rightarrow> 'w"
  assumes H: "8 \<le> H"
    and val_range: "0 \<le> val w" "val w < H * H"
    and val_lo: "val (lo w) = val w mod H"
    and val_hi: "val (hi w) = val w div H"
    and val_plus: "val x + val y < H * H \<Longrightarrow> val (add x y) = val x + val y"
    and val_times: "val x < H \<Longrightarrow> val y < H \<Longrightarrow> val (mul x y) = val x * val y"
begin

lemma digit_less: "val (lo w) < H" "val (hi w) < H"
proof -
  show "val (lo w) < H" using H by (simp add: val_lo)
  have "val w div H * H \<le> val w"
    using div_mult_mod_eq [of "val w" H] pos_mod_sign [of H "val w"] H by linarith
  then have "val w div H * H < H * H"
    using val_range(2) [of w] by linarith
  then show "val (hi w) < H" using H by (simp add: val_hi)
qed

lemma split_halves: "val (hi w) * H + val (lo w) = val w"
  by (simp add: val_lo val_hi)

text \<open>Adding up to eight digits does not leave the word.\<close>

definition digits :: "int \<Rightarrow> 'w \<Rightarrow> int \<Rightarrow> bool" where
  "digits m x v \<longleftrightarrow> val x = v \<and> v \<le> m * (H - 1)"

lemma digits_1: "digits 1 (lo w) (val w mod H)" "digits 1 (hi w) (val w div H)"
  using digit_less [of w] by (simp_all add: digits_def val_lo val_hi)

lemma digits_add:
  assumes "digits m x v" "digits n y w" "m + n \<le> 8"
  shows "digits (m + n) (add x y) (v + w)"
proof -
  have sum: "v + w \<le> (m + n) * (H - 1)"
    using assms(1,2) unfolding digits_def by (simp only: distrib_right) linarith
  also have "\<dots> \<le> 8 * (H - 1)"
    using assms(3) H by (intro mult_right_mono) simp_all
  also have "8 * (H - 1) < 8 * H" by simp
  also have "\<dots> \<le> H * H"
    using H by (intro mult_right_mono) simp_all
  finally have "val (add x y) = val x + val y"
    using assms(1,2) by (intro val_plus) (simp add: digits_def)
  then show ?thesis
    using sum assms(1,2) by (simp add: digits_def)
qed

lemma four_digits:
  "((val (hi v) * H + val (lo v)) * H + val (hi w)) * H + val (lo w) = val v * (H * H) + val w"
proof -
  have "((val (hi v) * H + val (lo v)) * H + val (hi w)) * H + val (lo w)
      = (val (hi v) * H + val (lo v)) * (H * H) + (val (hi w) * H + val (lo w))"
    by (simp add: algebra_simps)
  then show ?thesis by (simp only: split_halves)
qed

lemma digits_val: "digits m x v \<Longrightarrow> val x = v"
  by (simp add: digits_def)

lemma product:
  fixes ah al bh bl :: 'w
  defines "a3 \<equiv> hi ah" and "a2 \<equiv> lo ah" and "a1 \<equiv> hi al" and "a0 \<equiv> lo al"
    and "b3 \<equiv> hi bh" and "b2 \<equiv> lo bh" and "b1 \<equiv> hi bl" and "b0 \<equiv> lo bl"
  defines "u \<equiv> lo (mul a0 b0)"
  defines "t \<equiv> add (add (add (lo (mul a0 b1)) (hi (mul a0 b0))) (lo (mul a1 b0))) (hi u)"
  defines "s \<equiv> add (add (add (add (lo (mul a0 b2)) (hi (mul a0 b1)))
      (add (lo (mul a1 b1)) (hi (mul a1 b0)))) (lo (mul a2 b0))) (hi t)"
  defines "f \<equiv> add (add (add (add (add (lo (mul a0 b3)) (hi (mul a0 b2)))
      (add (lo (mul a1 b2)) (hi (mul a1 b1)))) (add (lo (mul a2 b1)) (hi (mul a2 b0))))
      (lo (mul a3 b0))) (hi s)"
  shows "(val (lo f) * H + val (lo s)) * (H * H) + (val (lo t) * H + val (lo u))
    = ((val ah * (H * H) + val al) * (val bh * (H * H) + val bl)) mod (H * H * H * H)"
proof -
  note add = digits_add [OF digits_add] digits_add
  have less: "val x < H" if "x \<in> {a0, a1, a2, a3, b0, b1, b2, b3}" for x
    using that digit_less unfolding a0_def a1_def a2_def a3_def b0_def b1_def b2_def b3_def by auto
  have m: "val (mul x y) = val x * val y"
    if "x \<in> {a0, a1, a2, a3}" "y \<in> {b0, b1, b2, b3}" for x y
    using that less by (intro val_times) blast+
  have vu: "val u = (val a0 * val b0) mod H" "val u div H = 0"
    using H by (simp_all add: u_def val_lo m)
  have "digits (1 + 1 + 1 + 1) t (val (mul a0 b1) mod H + val (mul a0 b0) div H
      + val (mul a1 b0) mod H + val u div H)"
    unfolding t_def by (intro digits_add digits_1) simp_all
  note vt = digits_val [OF this]
  have "digits (1 + 1 + (1 + 1) + 1 + 1) s (val (mul a0 b2) mod H + val (mul a0 b1) div H
      + (val (mul a1 b1) mod H + val (mul a1 b0) div H) + val (mul a2 b0) mod H + val t div H)"
    unfolding s_def by (intro digits_add digits_1) simp_all
  note vs = digits_val [OF this]
  have "digits (1 + 1 + (1 + 1) + (1 + 1) + 1 + 1) f (val (mul a0 b3) mod H + val (mul a0 b2) div H
      + (val (mul a1 b2) mod H + val (mul a1 b1) div H)
      + (val (mul a2 b1) mod H + val (mul a2 b0) div H) + val (mul a3 b0) mod H + val s div H)"
    unfolding f_def by (intro digits_add digits_1) simp_all
  note vf = digits_val [OF this]
  have "val (lo u) = val u" using H by (simp add: u_def val_lo)
  then have "(val (lo f) * H + val (lo s)) * (H * H) + (val (lo t) * H + val (lo u))
      = ((val f mod H * H + val s mod H) * H + val t mod H) * H + val u"
    by (simp only: val_lo) (simp add: algebra_simps)
  also have "\<dots> = (((((val a3 * H + val a2) * H + val a1) * H + val a0)
      * (((val b3 * H + val b2) * H + val b1) * H + val b0)) mod (H * H * H * H))"
    unfolding schoolbook4 [OF less_le_trans [OF _ H], simplified, symmetric]
    by (simp add: vf vs vt vu m)
  finally show ?thesis
    by (simp only: a0_def a1_def a2_def a3_def b0_def b1_def b2_def b3_def four_digits)
qed

end

section \<open>Bit length\<close>

fun bit_length :: "nat \<Rightarrow> nat" where
  "bit_length n = (if n = 0 then 0 else Suc (bit_length (n div 2)))"

declare bit_length.simps [simp del]

lemma bit_length_0 [simp]: "bit_length 0 = 0"
  by (simp add: bit_length.simps)

lemma bit_length_less: "n < 2 ^ bit_length n"
proof (induction n rule: bit_length.induct)
  case (1 n)
  then show ?case by (cases "n = 0") (simp_all add: bit_length.simps [of n])
qed

lemma bit_length_le: "n < 2 ^ k \<Longrightarrow> bit_length n \<le> k"
proof (induction k arbitrary: n)
  case 0
  then show ?case by simp
next
  case (Suc k)
  then have "bit_length (n div 2) \<le> k" by (intro Suc.IH) simp
  then show ?case by (subst bit_length.simps) simp
qed

lemma bit_length_exact:
  assumes "n \<noteq> 0"
  shows "2 ^ (bit_length n - 1) \<le> n"
  using assms
proof (induction n rule: bit_length.induct)
  case (1 n)
  show ?case
  proof (cases "n div 2 = 0")
    case True
    then show ?thesis using 1(2) by (simp add: bit_length.simps [of n])
  next
    case False
    then have "2 ^ (bit_length (n div 2) - 1) \<le> n div 2"
      using 1 by simp
    moreover have "bit_length (n div 2) = Suc (bit_length (n div 2) - 1)"
      using False by (simp add: bit_length.simps [of "n div 2"])
    ultimately have "2 ^ bit_length (n div 2) \<le> 2 * (n div 2)"
      by (metis mult_le_mono2 power_Suc)
    then show ?thesis using 1(2) by (simp add: bit_length.simps [of n])
  qed
qed


lemma bit_length_shift:
  assumes "n \<noteq> 0" "m < 2 ^ k"
  shows "bit_length (n * 2 ^ k + m) = bit_length n + k"
  using assms(2)
proof (induction k arbitrary: m)
  case 0
  then show ?case by simp
next
  case (Suc k)
  have "(n * 2 ^ Suc k + m) div 2 = n * 2 ^ k + m div 2"
    by simp
  moreover have "m div 2 < 2 ^ k" using Suc.prems by simp
  ultimately show ?case
    using Suc.IH [of "m div 2"] assms(1) by (subst bit_length.simps) simp
qed
section \<open>Shift-and-subtract division\<close>

text \<open>
  The division loop of \<^verbatim>\<open>simple_uint128_divmod\<close> and \<^verbatim>\<open>simple_uint256_divmod\<close> walks
  over the bits of the dividend from the most significant one, keeping quotient and
  remainder of the prefix read so far. What it needs of the number type is stated here;
  \<open>divisor_ok\<close> names the divisors for which the subtraction of the type is exact.
\<close>

locale shift_subtract_divider =
  fixes val :: "'n \<Rightarrow> int"
    and top :: int
    and shl1 inc :: "'n \<Rightarrow> 'n"
    and bit_at :: "'n \<Rightarrow> nat \<Rightarrow> bool"
    and ge :: "'n \<Rightarrow> 'n \<Rightarrow> bool"
    and sub :: "'n \<Rightarrow> 'n \<Rightarrow> 'n"
    and divisor_ok :: "'n \<Rightarrow> bool"
    and loop :: "'n \<Rightarrow> 'n \<Rightarrow> nat \<Rightarrow> 'n \<Rightarrow> 'n \<Rightarrow> 'n \<times> 'n"
  assumes val_bounds: "0 \<le> val a" "val a < top"
    and val_shl1: "2 * val a < top \<Longrightarrow> val (shl1 a) = 2 * val a"
    and val_inc: "val a + 1 < top \<Longrightarrow> val (inc a) = val a + 1"
    and bit_at_iff: "bit_at a x \<longleftrightarrow> odd (val a div 2 ^ x)"
    and ge_iff: "ge a b \<longleftrightarrow> val b \<le> val a"
    and val_sub: "divisor_ok b \<Longrightarrow> val b \<le> val m \<Longrightarrow> val m < 2 * val b \<Longrightarrow>
        val (sub m b) = val m - val b"
    and loop_0: "loop a b 0 d m = (d, m)"
    and loop_Suc: "loop a b (Suc x) d m =
        (let m1 = (if bit_at a x then inc (shl1 m) else shl1 m)
         in if ge m1 b then loop a b x (inc (shl1 d)) (sub m1 b) else loop a b x (shl1 d) m1)"
begin

lemma loop_correct:
  assumes b: "divisor_ok b" "0 < val b"
    and "val d = (val a div 2 ^ x) div val b" "val m = (val a div 2 ^ x) mod val b"
  shows "val (fst (loop a b x d m)) = val a div val b
    \<and> val (snd (loop a b x d m)) = val a mod val b"
  using assms(3,4)
proof (induction x arbitrary: d m)
  case 0
  then show ?case by (simp add: loop_0)
next
  case (Suc x)
  define p where "p = val a div 2 ^ Suc x"
  define p' where "p' = val a div 2 ^ x"
  define c :: int where "c = (if bit_at a x then 1 else 0)"
  define m1 where "m1 = (if bit_at a x then inc (shl1 m) else shl1 m)"
  have p: "p' = 2 * p + c"
  proof -
    have "p = p' div 2"
      unfolding p_def p'_def by (simp add: zdiv_zmult2_eq [symmetric] mult.commute)
    moreover have "c = p' mod 2"
      by (simp add: c_def p'_def bit_at_iff mod_2_eq_odd)
    ultimately show ?thesis by simp
  qed
  have pp: "0 \<le> p" "p' \<le> val a" "p' < top" "0 \<le> c" "c \<le> 1"
  proof -
    show "0 \<le> p" "p' \<le> val a"
      using val_bounds(1) [of a] zdiv_mono2 [of "val a" 1 "2 ^ x"]
      by (simp_all add: p_def p'_def pos_imp_zdiv_nonneg_iff)
    then show "p' < top" using val_bounds(2) [of a] by linarith
  qed (simp_all add: c_def)
  have dm: "p = val d * val b + val m" "0 \<le> val m" "val m < val b"
  proof -
    have "val d = p div val b" "val m = p mod val b"
      using Suc.prems unfolding p_def .
    then show "p = val d * val b + val m" "0 \<le> val m" "val m < val b"
      using b(2) by simp_all
  qed
  have mp: "val m \<le> p" "val d \<le> p"
  proof -
    have "val d * 1 \<le> val d * val b"
      using b val_bounds(1) [of d] by (intro mult_left_mono) auto
    then show "val d \<le> p" using dm by linarith
    show "val m \<le> p" using dm b val_bounds(1) [of d] by simp
  qed
  have m1: "val m1 = 2 * val m + c"
  proof -
    have "val (shl1 m) = 2 * val m"
      using mp p pp by (intro val_shl1) linarith
    then show ?thesis
      using mp p pp by (auto simp: m1_def c_def intro!: trans [OF val_inc])
  qed
  have sd: "val (shl1 d) = 2 * val d"
    using mp p pp by (intro val_shl1) linarith
  have p'_eq: "p' = (2 * val d) * val b + val m1"
    using p dm(1) m1 by (simp add: algebra_simps)
  show ?case
  proof (cases "ge m1 b")
    case True
    then have le: "val b \<le> val m1" by (simp add: ge_iff)
    have lt: "val m1 < 2 * val b" using m1 dm pp by linarith
    have r: "val (sub m1 b) = val m1 - val b"
      using b(1) le lt by (rule val_sub)
    have "(2 * val d + 1) * 1 \<le> (2 * val d + 1) * val b"
      using b val_bounds(1) [of d] by (intro mult_left_mono) auto
    then have "2 * val d + 1 \<le> p'"
      using p'_eq le by (simp add: algebra_simps)
    then have q: "val (inc (shl1 d)) = 2 * val d + 1"
      using sd pp by (subst val_inc) auto
    have eq: "p' = val b * (2 * val d + 1) + (val m1 - val b)"
      using p'_eq by (simp add: algebra_simps)
    have "val (inc (shl1 d)) = p' div val b" "val (sub m1 b) = p' mod val b"
      using int_div_pos_eq [OF eq] int_mod_pos_eq [OF eq] le lt q r by simp_all
    then show ?thesis
      using True Suc.IH [of "inc (shl1 d)" "sub m1 b"]
      by (simp add: loop_Suc Let_def p'_def flip: m1_def)
  next
    case False
    then have lt: "val m1 < val b" by (simp add: ge_iff)
    have "p' = val b * (2 * val d) + val m1"
      using p'_eq by (simp add: algebra_simps)
    then have "val (shl1 d) = p' div val b" "val m1 = p' mod val b"
      using lt sd val_bounds(1) [of m1] int_div_pos_eq int_mod_pos_eq by metis+
    then show ?thesis
      using False Suc.IH [of "shl1 d" m1]
      by (simp add: loop_Suc Let_def p'_def flip: m1_def)
  qed
qed

lemma division:
  assumes "divisor_ok b" "0 < val b" "val a < 2 ^ n" "val z = 0"
  shows "val (fst (loop a b n z z)) = val a div val b"
    and "val (snd (loop a b n z z)) = val a mod val b"
  using loop_correct [OF assms(1,2), of z a n z] assms(3,4) val_bounds(1) [of a] by simp_all

end

end
