(* ===== verification/Uint128.thy ===== *)
theory Uint128
  imports Limbs Digits
begin

text \<open>
  The 128 bit unsigned integers of \<^verbatim>\<open>safenumber.cpp\<close>: a pair of 64 bit words, with
  addition, subtraction, negation, multiplication, shifts, comparison, the
  shift-and-subtract division and printing in a base. \<open>val128\<close> is the number a pair
  stands for; every operation is shown to be the arithmetic one modulo \<open>2 ^ 128\<close>, and the
  division to be exact. Shift amounts, which the code declares as \<^verbatim>\<open>uint32_t\<close> and only
  compares and subtracts within \<open>0..128\<close>, are natural numbers.
\<close>

section \<open>Definitions\<close>

record SimpleUint128 =
  big :: u64
  low :: u64

definition simple_uint128_create :: "u64 \<Rightarrow> u64 \<Rightarrow> SimpleUint128" where
  "simple_uint128_create b l = \<lparr>big = b, low = l\<rparr>"

definition simple_uint128_is_zero :: "SimpleUint128 \<Rightarrow> bool" where
  "simple_uint128_is_zero a \<longleftrightarrow> big a = 0 \<and> low a = 0"

definition uint128_0 :: SimpleUint128 where
  "uint128_0 = simple_uint128_create 0 0"

definition uint128_1 :: SimpleUint128 where
  "uint128_1 = simple_uint128_create 0 1"

definition uint128_10 :: SimpleUint128 where
  "uint128_10 = simple_uint128_create 0 10"

definition uint64_bigest :: u64 where
  "uint64_bigest = 0xffffffffffffffff"

definition simple_uint128_gt :: "SimpleUint128 \<Rightarrow> SimpleUint128 \<Rightarrow> bool" where
  "simple_uint128_gt a b = (if big a = big b then low a > low b else big a > big b)"

definition simple_uint128_lt :: "SimpleUint128 \<Rightarrow> SimpleUint128 \<Rightarrow> bool" where
  "simple_uint128_lt a b = simple_uint128_gt b a"

definition simple_uint128_eq :: "SimpleUint128 \<Rightarrow> SimpleUint128 \<Rightarrow> bool" where
  "simple_uint128_eq a b \<longleftrightarrow> big a = big b \<and> low a = low b"

definition simple_uint128_ge :: "SimpleUint128 \<Rightarrow> SimpleUint128 \<Rightarrow> bool" where
  "simple_uint128_ge a b \<longleftrightarrow> simple_uint128_gt a b \<or> simple_uint128_eq a b"

definition simple_uint128_add :: "SimpleUint128 \<Rightarrow> SimpleUint128 \<Rightarrow> SimpleUint128" where
  "simple_uint128_add a b = simple_uint128_create
     (big a + big b + (if low a + low b < low a then 1 else 0)) (low a + low b)"

definition simple_uint128_add_u64 :: "SimpleUint128 \<Rightarrow> u64 \<Rightarrow> SimpleUint128" where
  "simple_uint128_add_u64 a b = simple_uint128_add a (simple_uint128_create 0 b)"

definition simple_uint128_minus :: "SimpleUint128 \<Rightarrow> SimpleUint128 \<Rightarrow> SimpleUint128" where
  "simple_uint128_minus a b = simple_uint128_create
     (big a - big b - (if low a - low b > low a then 1 else 0)) (low a - low b)"

definition simple_uint128_bit_and :: "SimpleUint128 \<Rightarrow> SimpleUint128 \<Rightarrow> SimpleUint128" where
  "simple_uint128_bit_and a b = simple_uint128_create (big a AND big b) (low a AND low b)"

definition simple_uint128_bit_or :: "SimpleUint128 \<Rightarrow> SimpleUint128 \<Rightarrow> SimpleUint128" where
  "simple_uint128_bit_or a b = simple_uint128_create (big a OR big b) (low a OR low b)"

definition simple_uint128_bit_reverse :: "SimpleUint128 \<Rightarrow> SimpleUint128" where
  "simple_uint128_bit_reverse a = \<lparr>big = NOT (big a), low = NOT (low a)\<rparr>"

definition simple_uint128_neg :: "SimpleUint128 \<Rightarrow> SimpleUint128" where
  "simple_uint128_neg a =
     simple_uint128_add \<lparr>big = NOT (big a), low = NOT (low a)\<rparr> uint128_1"

text \<open>
  The product: \<open>a0\<close>, \<open>b0\<close> are \<^verbatim>\<open>top[3]\<close>, \<^verbatim>\<open>bottom[3]\<close> of the source, so that
  \<^verbatim>\<open>products[i][3 - j]\<close> is \<open>ai * bj\<close>. \<open>lo\<close> and \<open>hi\<close> are its \<^verbatim>\<open>& 0xffffffff\<close> and
  \<^verbatim>\<open>>> 32\<close>.
\<close>

definition simple_uint128_multi :: "SimpleUint128 \<Rightarrow> SimpleUint128 \<Rightarrow> SimpleUint128" where
  "simple_uint128_multi a b =
    (let lo = (\<lambda>w :: u64. w AND 0xffffffff); hi = (\<lambda>w :: u64. drop_bit 32 w);
         a3 = hi (big a); a2 = lo (big a); a1 = hi (low a); a0 = lo (low a);
         b3 = hi (big b); b2 = lo (big b); b1 = hi (low b); b0 = lo (low b);
         fourth32 = lo (a0 * b0);
         third32 = lo (a0 * b1) + hi (a0 * b0);
         second32 = lo (a0 * b2) + hi (a0 * b1);
         first32 = lo (a0 * b3) + hi (a0 * b2);
         third32 = third32 + lo (a1 * b0);
         second32 = second32 + (lo (a1 * b1) + hi (a1 * b0));
         first32 = first32 + (lo (a1 * b2) + hi (a1 * b1));
         second32 = second32 + lo (a2 * b0);
         first32 = first32 + (lo (a2 * b1) + hi (a2 * b0));
         first32 = first32 + lo (a3 * b0);
         third32 = third32 + hi fourth32;
         second32 = second32 + hi third32;
         first32 = first32 + hi second32;
         fourth32 = lo fourth32; third32 = lo third32;
         second32 = lo second32; first32 = lo first32
     in simple_uint128_create (push_bit 32 first32 OR second32) (push_bit 32 third32 OR fourth32))"

definition simple_uint128_multi_u64 :: "SimpleUint128 \<Rightarrow> u64 \<Rightarrow> SimpleUint128" where
  "simple_uint128_multi_u64 a b = simple_uint128_multi a (simple_uint128_create 0 b)"

fun pow_loop :: "SimpleUint128 \<Rightarrow> nat \<Rightarrow> SimpleUint128 \<Rightarrow> SimpleUint128" where
  "pow_loop a 0 result = result"
| "pow_loop a (Suc n) result = pow_loop a n (simple_uint128_multi result a)"

definition simple_uint128_pow :: "SimpleUint128 \<Rightarrow> u8 \<Rightarrow> SimpleUint128" where
  "simple_uint128_pow a p = pow_loop a (unat p) uint128_1"

definition simple_uint128_shift_left :: "SimpleUint128 \<Rightarrow> nat \<Rightarrow> SimpleUint128" where
  "simple_uint128_shift_left a shift =
    (if shift \<ge> 128 then uint128_0
     else if shift = 64 then simple_uint128_create (low a) 0
     else if shift = 0 then a
     else if shift < 64 then simple_uint128_create
       (push_bit shift (big a) + drop_bit (64 - shift) (low a)) (push_bit shift (low a))
     else simple_uint128_create (push_bit (shift - 64) (low a)) 0)"

definition simple_uint128_shift_right :: "SimpleUint128 \<Rightarrow> nat \<Rightarrow> SimpleUint128" where
  "simple_uint128_shift_right a shift =
    (if shift \<ge> 128 then uint128_0
     else if shift = 64 then simple_uint128_create 0 (big a)
     else if shift = 0 then a
     else if shift < 64 then simple_uint128_create
       (drop_bit shift (big a)) (push_bit (64 - shift) (big a) + drop_bit shift (low a))
     else simple_uint128_create 0 (drop_bit (shift - 64) (big a)))"

text \<open>The loop \<^verbatim>\<open>while (up) { up >>= 1; out++; }\<close> of \<^verbatim>\<open>simple_uint128_bits\<close>.\<close>

function bits_loop :: "u64 \<Rightarrow> u8 \<Rightarrow> u8" where
  "bits_loop up out = (if up \<noteq> 0 then bits_loop (drop_bit 1 up) (out + 1) else out)"
  by pat_completeness auto

lemma unat_drop_bit_1_less: "w \<noteq> 0 \<Longrightarrow> unat (drop_bit (Suc 0) w) < unat (w :: 'a :: len word)"
  using unat_drop_bit_eq [of "Suc 0" w] unat_eq_0 [of w] by (simp add: drop_bit_eq_div)

termination bits_loop
  by (relation "measure (\<lambda>(up, out). unat up)") (simp_all add: unat_drop_bit_1_less)

declare bits_loop.simps [simp del]

definition simple_uint128_bits :: "SimpleUint128 \<Rightarrow> u8" where
  "simple_uint128_bits a =
     (if big a \<noteq> 0 then bits_loop (big a) 64 else bits_loop (low a) 0)"

record Uint128DivResult =
  div_result :: SimpleUint128
  mod_result :: SimpleUint128

definition make_uint128_div_result :: "SimpleUint128 \<Rightarrow> SimpleUint128 \<Rightarrow> Uint128DivResult" where
  "make_uint128_div_result d m = \<lparr>div_result = d, mod_result = m\<rparr>"

text \<open>One round per value \<open>x + 1\<close> of the loop variable of \<^verbatim>\<open>simple_uint128_divmod\<close>.\<close>

fun divmod_loop :: "SimpleUint128 \<Rightarrow> SimpleUint128 \<Rightarrow> nat \<Rightarrow> SimpleUint128 \<Rightarrow> SimpleUint128 \<Rightarrow>
    SimpleUint128 \<times> SimpleUint128" where
  "divmod_loop a b 0 d m = (d, m)"
| "divmod_loop a b (Suc x) d m =
    (let d = simple_uint128_shift_left d 1;
         m = simple_uint128_shift_left m 1;
         tmp1 = simple_uint128_shift_right a x;
         tmp2 = simple_uint128_bit_and tmp1 uint128_1;
         m = (if big tmp2 \<noteq> 0 \<or> low tmp2 \<noteq> 0 then simple_uint128_add m uint128_1 else m)
     in if simple_uint128_ge m b
        then divmod_loop a b x (simple_uint128_add d uint128_1) (simple_uint128_minus m b)
        else divmod_loop a b x d m)"

definition simple_uint128_divmod ::
    "SimpleUint128 \<Rightarrow> SimpleUint128 \<Rightarrow> Uint128DivResult result" where
  "simple_uint128_divmod a b =
    (if big b = 0 \<and> low b = 0 then Inl Domain_error
     else if big b = 0 \<and> low b = 1 then Inr (make_uint128_div_result a uint128_0)
     else if big a = big b \<and> low a = low b then Inr (make_uint128_div_result uint128_1 uint128_0)
     else if (big a = 0 \<and> low a = 0) \<or> (big a < big b \<or> (big a = big b \<and> low a < low b))
       then Inr (make_uint128_div_result uint128_0 a)
     else let (d, m) = divmod_loop a b (unat (simple_uint128_bits a))
                (simple_uint128_create 0 0) (simple_uint128_create 0 0)
          in Inr (make_uint128_div_result d m))"

text \<open>
  The \<^verbatim>\<open>do ... while\<close> of \<^verbatim>\<open>simple_uint128_to_string\<close>. The range check on the base, which
  the source makes once before the loop, is repeated in every round: the loop ends
  because of it.
\<close>

function to_string_loop :: "SimpleUint128 \<Rightarrow> u8 \<Rightarrow> string \<Rightarrow> string result" where
  "to_string_loop q base out =
    (if base < 2 \<or> base > 16 then Inl Invalid_argument
     else ebind (simple_uint128_divmod q (simple_uint128_create 0 (ucast base))) (\<lambda>qr.
       let out = ''0123456789abcdef'' ! unat (ucast (low (mod_result qr)) :: u8) # out
       in if \<not> simple_uint128_is_zero (div_result qr)
          then to_string_loop (div_result qr) base out else Inr out))"
  by pat_completeness auto

section \<open>Values\<close>

definition val128 :: "SimpleUint128 \<Rightarrow> int" where
  "val128 a = uint (big a) * 2 ^ 64 + uint (low a)"

lemma uint_u64_less: "uint (w :: u64) < 2 ^ 64"
  using uint_bounded [of w] by simp

lemma uint_u64_mod [simp]: "uint (w :: u64) mod 18446744073709551616 = uint w"
  using uint_u64_less [of w] by simp

lemma val128_bounds: "0 \<le> val128 a" "val128 a < 2 ^ 128"
  using uint_u64_less [of "big a"] uint_u64_less [of "low a"]
  by (simp_all add: val128_def)

lemma val128_mod: "val128 a mod 2 ^ 128 = val128 a"
  using val128_bounds [of a] by simp

lemmas val128_mod_numeral [simp] = val128_mod [simplified]

lemma val128_inj: "val128 a = val128 b \<longleftrightarrow> a = b"
  using limb_eq [of "uint (low a)" "2 ^ 64" "uint (low b)" "uint (big a)" "uint (big b)"]
    uint_u64_less [of "low a"] uint_u64_less [of "low b"]
  by (cases a; cases b) (simp add: val128_def word_uint_eq_iff)

lemma val128_low_small: "val128 a < 2 ^ 64 \<Longrightarrow> uint (low a) = val128 a"
  unfolding val128_def using uint_ge_0 [of "big a"] uint_ge_0 [of "low a"]
  by (cases "uint (big a) = 0") auto

lemma val128_create [limb_simps]: "val128 (simple_uint128_create b l) = uint b * 2 ^ 64 + uint l"
  by (simp add: val128_def simple_uint128_create_def)

lemma val128_consts [limb_simps]:
  "val128 uint128_0 = 0" "val128 uint128_1 = 1" "val128 uint128_10 = 10"
  by (simp_all add: uint128_0_def uint128_1_def uint128_10_def val128_create)

lemma simple_uint128_is_zero_iff [limb_simps]: "simple_uint128_is_zero a \<longleftrightarrow> val128 a = 0"
  using val128_inj [of a uint128_0] by (cases a)
    (simp add: simple_uint128_is_zero_def val128_consts, simp add: uint128_0_def simple_uint128_create_def)

lemma simple_uint128_gt_iff [limb_simps]: "simple_uint128_gt a b \<longleftrightarrow> val128 b < val128 a"
  using limb_less [of "uint (low b)" "2 ^ 64" "uint (low a)" "uint (big b)" "uint (big a)"]
    uint_u64_less [of "low a"] uint_u64_less [of "low b"]
  by (auto simp: simple_uint128_gt_def val128_def word_less_def word_uint_eq_iff)

lemma simple_uint128_lt_iff [limb_simps]: "simple_uint128_lt a b \<longleftrightarrow> val128 a < val128 b"
  by (simp add: simple_uint128_lt_def limb_simps)

lemma simple_uint128_eq_iff [limb_simps]: "simple_uint128_eq a b \<longleftrightarrow> val128 a = val128 b"
  by (cases a; cases b) (simp add: simple_uint128_eq_def val128_inj)

lemma simple_uint128_ge_iff [limb_simps]: "simple_uint128_ge a b \<longleftrightarrow> val128 b \<le> val128 a"
  by (auto simp: simple_uint128_ge_def limb_simps)

section \<open>Addition and subtraction\<close>

lemma val128_add [limb_simps]:
  "val128 (simple_uint128_add a b) = (val128 a + val128 b) mod 2 ^ 128"
proof -
  have "uint (low a + low b) = (uint (low a) + uint (low b)) mod 2 ^ 64"
    by (simp add: uint_word_ariths)
  moreover have "uint (big a + big b + (if low a + low b < low a then 1 else 0)) =
      (uint (big a) + uint (big b) + (if uint (low a + low b) < uint (low a) then 1 else 0)) mod 2 ^ 64"
    by (simp add: uint_word_ariths word_less_def mod_simps)
  ultimately show ?thesis
    using limb_add [of "uint (low a)" "2 ^ 64" "uint (low b)" "uint (big a)" "uint (big b)"]
      uint_u64_less [of "low a"] uint_u64_less [of "low b"]
    by (simp add: val128_def simple_uint128_add_def simple_uint128_create_def)
qed

lemma val128_add_u64 [limb_simps]:
  "val128 (simple_uint128_add_u64 a w) = (val128 a + uint w) mod 2 ^ 128"
  by (simp add: simple_uint128_add_u64_def limb_simps)

lemma val128_minus [limb_simps]:
  "val128 (simple_uint128_minus a b) = (val128 a - val128 b) mod 2 ^ 128"
proof -
  have "uint (low a - low b) = (uint (low a) - uint (low b)) mod 2 ^ 64"
    by (simp add: uint_word_ariths)
  moreover have "uint (big a - big b - (if low a - low b > low a then 1 else 0)) =
      (uint (big a) - uint (big b) - (if uint (low a - low b) > uint (low a) then 1 else 0)) mod 2 ^ 64"
    by (simp add: uint_word_ariths word_less_def mod_simps)
  ultimately show ?thesis
    using limb_sub [of "uint (low a)" "2 ^ 64" "uint (low b)" "uint (big a)" "uint (big b)"]
      uint_u64_less [of "low a"] uint_u64_less [of "low b"]
    by (simp add: val128_def simple_uint128_minus_def simple_uint128_create_def)
qed

lemma uint_NOT_u64: "uint (NOT w) = 2 ^ 64 - 1 - uint (w :: u64)"
proof -
  have "NOT w = - 1 - w"
    by (simp add: not_eq_complement)
  then have "uint (NOT w) = (2 ^ 64 - 1 - uint w) mod 2 ^ 64"
    by (simp add: uint_word_ariths mod_simps)
  moreover have "0 \<le> 2 ^ 64 - 1 - uint w" "2 ^ 64 - 1 - uint w < 2 ^ 64"
    using uint_u64_less [of w] uint_ge_0 [of w] by linarith+
  ultimately show ?thesis by simp
qed

lemma val128_bit_reverse [limb_simps]:
  "val128 (simple_uint128_bit_reverse a) = 2 ^ 128 - 1 - val128 a"
  by (simp add: simple_uint128_bit_reverse_def val128_def uint_NOT_u64 algebra_simps)

lemma val128_neg [limb_simps]: "val128 (simple_uint128_neg a) = (- val128 a) mod 2 ^ 128"
proof -
  have "val128 (simple_uint128_neg a) = (2 ^ 128 - 1 - val128 a + 1) mod 2 ^ 128"
    using val128_bit_reverse [of a]
    by (simp add: simple_uint128_neg_def limb_simps simple_uint128_bit_reverse_def)
  then show ?thesis by (simp add: mod_simps)
qed

section \<open>Shifts and masks\<close>

lemma uint_drop_bit_div: "uint (drop_bit n w) = uint w div 2 ^ n"
  unfolding unsigned_drop_bit_eq by (simp add: drop_bit_eq_div take_bit_eq_mod)

lemma uint_push_bit_u64: "uint (push_bit n (w :: u64)) = (uint w * 2 ^ n) mod 2 ^ 64"
  by (simp add: unsigned_push_bit_eq take_bit_eq_mod del: push_bit_eq_mult) (simp add: push_bit_eq_mult)

lemma two_limbs: "(2 :: int) ^ 64 * 2 ^ 64 = 2 ^ 128"
  by simp

lemma val128_shift_left [limb_simps]:
  "val128 (simple_uint128_shift_left a n) = (val128 a * 2 ^ n) mod 2 ^ 128"
proof -
  consider "n \<ge> 128" | "n = 0" | "n \<noteq> 0" "n < 64" | "n \<ge> 64" "n < 128" by linarith
  then show ?thesis
  proof cases
    case 1
    then have "(2 :: int) ^ n = 2 ^ 128 * 2 ^ (n - 128)" by (subst power_add [symmetric]) simp
    then show ?thesis
      using 1 by (simp add: simple_uint128_shift_left_def limb_simps mult.left_commute)
  next
    case 3
    then have "val128 (simple_uint128_shift_left a n)
        = (((uint (big a) * 2 ^ n) mod 2 ^ 64 + uint (low a) div 2 ^ (64 - n)) mod 2 ^ 64) * 2 ^ 64
          + (uint (low a) * 2 ^ n) mod 2 ^ 64"
      by (simp add: simple_uint128_shift_left_def val128_create uint_word_ariths uint_push_bit_u64
          uint_drop_bit_div)
    also have "\<dots> = ((uint (big a) * 2 ^ 64 + uint (low a)) * 2 ^ n) mod (2 ^ 64 * 2 ^ 64)"
      by (rule limb_shl) (use 3 in simp)
    finally show ?thesis
      by (simp only: two_limbs val128_def [of a])
  next
    case 4
    then have n: "(2 :: int) ^ n = 2 ^ (n - 64) * 2 ^ 64" by (subst power_add [symmetric]) simp
    have "uint (low a) * 2 ^ (n - 64) + (uint (big a) * 2 ^ (n - 64)) * 2 ^ 64
        = val128 a * 2 ^ (n - 64)"
      by (simp only: val128_def algebra_simps)
    then have "(val128 a * 2 ^ (n - 64)) mod 2 ^ 64 = (uint (low a) * 2 ^ (n - 64)) mod 2 ^ 64"
      by (metis mod_mult_self1)
    moreover have "(val128 a * 2 ^ n) mod 2 ^ 128
        = ((val128 a * 2 ^ (n - 64)) mod 2 ^ 64) * 2 ^ 64"
      unfolding n two_limbs [symmetric] mult.assoc [symmetric] by (rule mod_mult_mult2)
    ultimately show ?thesis
      using 4 by (simp add: simple_uint128_shift_left_def val128_create uint_push_bit_u64)
  qed (simp_all add: simple_uint128_shift_left_def)
qed

lemma val128_shift_right [limb_simps]:
  "val128 (simple_uint128_shift_right a n) = val128 a div 2 ^ n"
proof -
  consider "n \<ge> 128" | "n = 0" | "n \<noteq> 0" "n < 64" | "n = 64" | "n > 64" "n < 128" by linarith
  then show ?thesis
  proof cases
    case 1
    then have "(2 :: int) ^ 128 \<le> 2 ^ n" by (intro power_increasing) simp_all
    then have "val128 a div 2 ^ n = 0"
      using val128_bounds [of a] by (intro div_pos_pos_trivial) linarith+
    then show ?thesis using 1 by (simp add: simple_uint128_shift_right_def limb_simps)
  next
    case 3
    then have "val128 (simple_uint128_shift_right a n)
        = (uint (big a) div 2 ^ n) * 2 ^ 64
          + ((uint (big a) * 2 ^ (64 - n)) mod 2 ^ 64 + uint (low a) div 2 ^ n) mod 2 ^ 64"
      by (simp add: simple_uint128_shift_right_def val128_create uint_word_ariths uint_push_bit_u64
          uint_drop_bit_div)
    also have "\<dots> = (uint (big a) * 2 ^ 64 + uint (low a)) div 2 ^ n"
      by (rule limb_shr) (use 3 uint_u64_less [of "low a"] in simp_all)
    finally show ?thesis
      by (simp only: val128_def [of a])
  next
    case 4
    have "val128 a div 2 ^ 64 = uint (big a)"
      using uint_u64_less [of "low a"] by (simp add: val128_def)
    then show ?thesis using 4 by (simp add: simple_uint128_shift_right_def val128_create)
  next
    case 5
    then have n: "(2 :: int) ^ n = 2 ^ 64 * 2 ^ (n - 64)" by (subst power_add [symmetric]) simp
    have "val128 a div 2 ^ n = (val128 a div 2 ^ 64) div 2 ^ (n - 64)"
      unfolding n by (rule zdiv_zmult2_eq) simp
    also have "val128 a div 2 ^ 64 = uint (big a)"
      using uint_u64_less [of "low a"] by (simp add: val128_def)
    finally show ?thesis
      using 5 by (simp add: simple_uint128_shift_right_def val128_create uint_drop_bit_div)
  qed (simp_all add: simple_uint128_shift_right_def)
qed

lemma uint_and_mask: "uint (w AND mask n) = uint w mod 2 ^ n"
  unfolding take_bit_eq_mask [symmetric] unsigned_take_bit_eq by (simp add: take_bit_eq_mod)

lemma val128_bit_and_1 [limb_simps]:
  "val128 (simple_uint128_bit_and a uint128_1) = val128 a mod 2"
proof -
  have "uint (low a AND 1) = uint (low a) mod 2"
    using uint_and_mask [of "low a" 1] by simp
  moreover have "val128 a mod 2 = uint (low a) mod 2"
    unfolding val128_def by (simp, presburger)
  ultimately show ?thesis
    by (simp add: simple_uint128_bit_and_def uint128_1_def val128_create)
      (simp add: simple_uint128_create_def)
qed

lemma val128_bit_and_mask64 [limb_simps]:
  "val128 (simple_uint128_bit_and a (simple_uint128_create 0 uint64_bigest)) = val128 a mod 2 ^ 64"
proof -
  have "low a AND uint64_bigest = low a"
  proof -
    have e: "uint64_bigest = - 1"
      by (simp add: uint64_bigest_def word_uint_eq_iff unsigned_minus_1_eq_mask mask_eq_exp_minus_1)
    show ?thesis unfolding e by simp
  qed
  then show ?thesis
    using uint_u64_less [of "low a"]
    by (simp add: simple_uint128_bit_and_def val128_create simple_uint128_create_def)
      (simp add: val128_def)
qed

section \<open>Multiplication\<close>

lemma uint_lo32: "uint (w AND 0xffffffff :: u64) = uint w mod 2 ^ 32"
proof -
  have "(0xffffffff :: u64) = mask 32" by (simp add: mask_eq_exp_minus_1)
  then show ?thesis by (simp only: uint_and_mask)
qed

lemma uint_add_small: "uint x + uint y < 2 ^ 64 \<Longrightarrow> uint (x + y) = uint x + uint (y :: u64)"
  by (simp add: uint_word_ariths)

lemma uint_half_product:
  assumes "uint (x :: u64) < 2 ^ 32" "uint (y :: u64) < 2 ^ 32"
  shows "uint (x * y) = uint x * uint y" "uint x * uint y < 2 ^ 64"
proof -
  have "uint x * uint y \<le> (2 ^ 32 - 1) * (2 ^ 32 - 1)"
    using assms by (intro mult_mono) simp_all
  then show "uint x * uint y < 2 ^ 64" by simp
  then show "uint (x * y) = uint x * uint y"
    by (simp add: uint_word_ariths)
qed

lemma uint_glue32:
  assumes "uint (x :: u64) < 2 ^ 32" "uint (y :: u64) < 2 ^ 32"
  shows "uint (push_bit 32 x OR y) = uint x * 2 ^ 32 + uint y"
proof -
  have y: "take_bit 32 y = y"
    using assms(2) by (simp add: word_uint_eq_iff unsigned_take_bit_eq take_bit_int_eq_self)
  have "push_bit 32 x AND take_bit 32 y = 0"
    by (rule bit_word_eqI) (auto simp: bit_and_iff bit_push_bit_iff bit_take_bit_iff)
  then have "push_bit 32 x AND y = 0"
    unfolding y .
  then have "push_bit 32 x OR y = push_bit 32 x + y"
    by (rule disjunctive_add_eq_or [symmetric])
  moreover have "uint (push_bit 32 x) = uint x * 2 ^ 32"
    using assms by (simp add: uint_push_bit_u64)
  moreover have "uint x * 2 ^ 32 + uint y < 2 ^ 64"
    using assms by simp
  ultimately show ?thesis by (simp add: uint_word_ariths)
qed

interpretation mul128: schoolbook_multiplier "uint :: u64 \<Rightarrow> int" "2 ^ 32"
  "\<lambda>w. w AND 0xffffffff" "drop_bit 32" "(+)" "(*)"
proof unfold_locales
  fix x y w :: u64
  show "(8 :: int) \<le> 2 ^ 32" by simp
  show "uint w < 2 ^ 32 * 2 ^ 32" using uint_u64_less [of w] by simp
  show "uint (w AND 0xffffffff) = uint w mod 2 ^ 32" by (rule uint_lo32)
  show "uint (drop_bit 32 w) = uint w div 2 ^ 32" by (rule uint_drop_bit_div)
  show "uint (x + y) = uint x + uint y" if "uint x + uint y < 2 ^ 32 * 2 ^ 32"
    using that by (intro uint_add_small) simp
  show "uint (x * y) = uint x * uint y" if "uint x < 2 ^ 32" "uint y < 2 ^ 32"
    using that by (rule uint_half_product)
qed simp

lemma four_digits_128: "(2 :: int) ^ 32 * 2 ^ 32 = 2 ^ 64" "(2 :: int) ^ 64 * 2 ^ 32 * 2 ^ 32 = 2 ^ 128"
  by simp_all

lemma val128_multi [limb_simps]:
  "val128 (simple_uint128_multi a b) = (val128 a * val128 b) mod 2 ^ 128"
  using mul128.product [where ah = "big a" and al = "low a" and bh = "big b" and bl = "low b",
    unfolded four_digits_128]
  unfolding simple_uint128_multi_def Let_def val128_create val128_def [of a] val128_def [of b]
    uint_glue32 [OF mul128.digit_less(1) mul128.digit_less(1)] .

section \<open>Bit length and division\<close>

lemma bits_loop_0 [simp]: "bits_loop 0 out = out"
  by (simp add: bits_loop.simps)

lemma bits_loop_eq: "bits_loop w out = out + of_nat (bit_length (unat w))"
proof (induction w out rule: bits_loop.induct)
  case (1 w out)
  have "unat (drop_bit (Suc 0) w) = unat w div 2"
    using unat_drop_bit_eq [of "Suc 0" w] by (simp add: drop_bit_eq_div)
  then show ?case
    using 1 by (cases "w = 0")
      (simp_all add: bits_loop.simps [of w] bit_length.simps [of "unat w"] unat_eq_0)
qed

lemma nat_val128: "nat (val128 a) = unat (big a) * 2 ^ 64 + unat (low a)"
  by (simp add: val128_def nat_add_distrib nat_mult_distrib)

text \<open>\<^verbatim>\<open>simple_uint128_bits\<close> is the exact bit length; it never wraps its 8 bit counter.\<close>

lemma simple_uint128_bits_eq: "unat (simple_uint128_bits a) = bit_length (nat (val128 a))"
proof -
  have le: "bit_length (unat w) \<le> 64" for w :: u64
    using unsigned_less [of w] by (intro bit_length_le) simp
  show ?thesis
  proof (cases "big a = 0")
    case True
    then show ?thesis
      using le [of "low a"]
      by (simp add: simple_uint128_bits_def bits_loop_eq nat_val128 unat_of_nat)
  next
    case False
    have "bit_length (nat (val128 a)) = bit_length (unat (big a)) + 64"
      unfolding nat_val128 using False unsigned_less [of "low a"]
      by (intro bit_length_shift) (simp_all add: unat_eq_0)
    moreover have "unat (64 + of_nat (bit_length (unat (big a))) :: u8)
        = 64 + bit_length (unat (big a))"
      using le [of "big a"] by (simp add: unat_word_ariths unat_of_nat)
    ultimately show ?thesis
      using False by (simp add: simple_uint128_bits_def bits_loop_eq)
  qed
qed

interpretation div128: shift_subtract_divider val128 "2 ^ 128"
  "\<lambda>a. simple_uint128_shift_left a 1" "\<lambda>a. simple_uint128_add a uint128_1"
  "\<lambda>a x. let t = simple_uint128_bit_and (simple_uint128_shift_right a x) uint128_1
         in big t \<noteq> 0 \<or> low t \<noteq> 0"
  simple_uint128_ge simple_uint128_minus "\<lambda>b. True" divmod_loop
proof unfold_locales
  fix a b m :: SimpleUint128 and x :: nat
  show "0 \<le> val128 a" "val128 a < 2 ^ 128" by (rule val128_bounds)+
  show "val128 (simple_uint128_shift_left a 1) = 2 * val128 a" if "2 * val128 a < 2 ^ 128"
    using that val128_bounds [of a] by (simp add: limb_simps)
  show "val128 (simple_uint128_add a uint128_1) = val128 a + 1" if "val128 a + 1 < 2 ^ 128"
    using that val128_bounds [of a] by (simp add: limb_simps)
  show "(let t = simple_uint128_bit_and (simple_uint128_shift_right a x) uint128_1
         in big t \<noteq> 0 \<or> low t \<noteq> 0) \<longleftrightarrow> odd (val128 a div 2 ^ x)"
    using simple_uint128_is_zero_iff
      [of "simple_uint128_bit_and (simple_uint128_shift_right a x) uint128_1"]
    by (auto simp: Let_def simple_uint128_is_zero_def limb_simps even_iff_mod_2_eq_zero)
  show "simple_uint128_ge a b \<longleftrightarrow> val128 b \<le> val128 a"
    by (rule simple_uint128_ge_iff)
  show "val128 (simple_uint128_minus m b) = val128 m - val128 b"
    if "val128 b \<le> val128 m"
    using that val128_bounds [of m] val128_bounds [of b] by (simp add: limb_simps)
qed (simp_all add: Let_def)

lemma big_low_less_iff:
  "big a < big b \<or> (big a = big b \<and> low a < low b) \<longleftrightarrow> val128 a < val128 b"
  using simple_uint128_gt_iff [of b a] by (auto simp: simple_uint128_gt_def split: if_splits)

lemma big_low_eq_iff: "big a = big b \<and> low a = low b \<longleftrightarrow> val128 a = val128 b"
  using simple_uint128_eq_iff [of a b] by (simp add: simple_uint128_eq_def)

lemma big_low_const:
  "big b = 0 \<and> low b = 0 \<longleftrightarrow> val128 b = 0"
  "big b = 0 \<and> low b = 1 \<longleftrightarrow> val128 b = 1"
  using big_low_eq_iff [of b uint128_0] big_low_eq_iff [of b uint128_1]
  by (simp_all add: limb_simps, simp_all add: uint128_0_def uint128_1_def simple_uint128_create_def)

text \<open>Division is exact for every dividend and every divisor but zero, where it throws.\<close>

lemma divmod128:
  assumes "val128 b \<noteq> 0"
  shows "\<exists>r. simple_uint128_divmod a b = Inr r \<and> val128 (div_result r) = val128 a div val128 b
    \<and> val128 (mod_result r) = val128 a mod val128 b"
proof -
  have b: "0 < val128 b" using assms val128_bounds [of b] by simp
  note bounds = val128_bounds(1) [of a]
  let ?n = "unat (simple_uint128_bits a)"
  have "nat (val128 a) < 2 ^ ?n"
    unfolding simple_uint128_bits_eq by (rule bit_length_less)
  then have n: "val128 a < 2 ^ ?n"
    by (simp add: nat_less_iff bounds)
  obtain d m where loop: "divmod_loop a b ?n uint128_0 uint128_0 = (d, m)" by fastforce
  have "val128 d = val128 a div val128 b" "val128 m = val128 a mod val128 b"
    using div128.division [of b a ?n uint128_0] b n loop by (simp_all add: limb_simps)
  then show ?thesis
    using assms b loop bounds
    by (auto simp: simple_uint128_divmod_def big_low_const big_low_eq_iff big_low_less_iff
        make_uint128_div_result_def limb_simps Let_def simp flip: uint128_0_def)
qed

lemma divmod128_zero: "val128 b = 0 \<Longrightarrow> simple_uint128_divmod a b = Inl Domain_error"
  by (simp add: simple_uint128_divmod_def big_low_const)

section \<open>Printing\<close>

lemma val128_base [limb_simps]:
  "val128 (simple_uint128_create 0 (ucast (base :: u8))) = uint base"
  using uint_bounded [of base] by (simp add: limb_simps unsigned_ucast_eq take_bit_eq_mod)

lemma base_bounds:
  assumes "\<not> (base < 2 \<or> base > (16 :: u8))"
  shows "2 \<le> uint base" "uint base \<le> 16"
  using assms by (simp_all add: word_less_def not_less)

termination to_string_loop
proof (relation "measure (\<lambda>(q, base, out). nat (val128 q))")
  fix q and base :: u8 and out :: string and qr out'
  assume base: "\<not> (base < 2 \<or> base > 16)"
    and qr: "simple_uint128_divmod q (simple_uint128_create 0 (ucast base)) = Inr qr"
    and nz: "\<not> simple_uint128_is_zero (div_result qr)"
  have "val128 (div_result qr) = val128 q div uint base"
    using divmod128 [of "simple_uint128_create 0 (ucast base)" q] qr base_bounds [OF base]
    by (simp add: val128_base)
  moreover have "val128 (div_result qr) \<noteq> 0"
    using nz by (simp add: limb_simps)
  ultimately have "val128 (div_result qr) < val128 q"
    using base_bounds [OF base] val128_bounds [of q] int_div_less_self [of "val128 q" "uint base"]
    by (cases "val128 q = 0") auto
  then show "((div_result qr, base, out'), q, base, out)
      \<in> measure (\<lambda>(q, base, out). nat (val128 q))"
    using val128_bounds [of "div_result qr"] by simp
qed simp

declare to_string_loop.simps [simp del]

definition simple_uint128_to_string :: "SimpleUint128 \<Rightarrow> u8 \<Rightarrow> nat \<Rightarrow> string result" where
  "simple_uint128_to_string a base len =
    (if base < 2 \<or> base > 16 then Inl Invalid_argument
     else ebind (if simple_uint128_is_zero a then Inr ''0'' else to_string_loop a base []) (\<lambda>out.
       Inr (if length out < len then replicate (len - length out) CHR ''0'' @ out else out)))"

text \<open>
  The printer is the reference numeral of the value, padded; \<open>of_digits_nat_to_string\<close>
  reads it back.
\<close>

lemma to_string_loop_eq:
  assumes "\<not> (base < 2 \<or> base > 16)"
  shows "to_string_loop q base out
    = Inr (nat_to_string (unat base) (nat (val128 q)) @ out)"
  using assms
proof (induction q base out rule: to_string_loop.induct)
  case (1 q base out)
  note b = base_bounds [OF 1(2)]
  obtain qr where qr: "simple_uint128_divmod q (simple_uint128_create 0 (ucast base)) = Inr qr"
      "val128 (div_result qr) = val128 q div uint base"
      "val128 (mod_result qr) = val128 q mod uint base"
    using divmod128 [of "simple_uint128_create 0 (ucast base)" q] b by (auto simp: val128_base)
  have m: "0 \<le> val128 q mod uint base" "val128 q mod uint base < 16"
    using b pos_mod_bound [of "uint base" "val128 q"] by (simp, linarith)
  then have "uint (low (mod_result qr)) = val128 q mod uint base"
    using qr(3) val128_low_small [of "mod_result qr"] by simp
  then have dig: "unat (ucast (low (mod_result qr)) :: u8) = nat (val128 q) mod unat base"
    using m b val128_bounds [of q]
    by (simp add: unat_eq_nat_uint unsigned_ucast_eq take_bit_eq_mod nat_mod_distrib del: nat_uint_eq)
  have dv: "nat (val128 (div_result qr)) = nat (val128 q) div unat base"
    using qr(2) val128_bounds [of q] by (simp add: unat_eq_nat_uint nat_div_distrib del: nat_uint_eq)
  have z: "simple_uint128_is_zero (div_result qr) \<longleftrightarrow> nat (val128 q) < unat base"
    using dv val128_bounds [of "div_result qr"] b
    by (auto simp: simple_uint128_is_zero_iff unat_eq_nat_uint div_eq_0_iff nat_eq_iff simp del: nat_uint_eq)
  show ?case
  proof (cases "nat (val128 q) < unat base")
    case True
    then show ?thesis
      using 1(2) qr(1) dig z
      by (simp add: to_string_loop.simps [of q] nat_to_string.simps [of "unat base" "nat (val128 q)"]
          digit_char_def del: not_less)
  next
    case False
    have "to_string_loop (div_result qr) base (''0123456789abcdef'' !
        unat (ucast (low (mod_result qr)) :: u8) # out) = Inr (nat_to_string (unat base)
        (nat (val128 (div_result qr))) @ (''0123456789abcdef'' !
        unat (ucast (low (mod_result qr)) :: u8) # out))"
      using 1(2) False z by (intro 1(1) [OF _ qr(1)] refl) simp_all
    then have "to_string_loop q base out = Inr (nat_to_string (unat base)
        (nat (val128 q) div unat base) @ digit_char (nat (val128 q) mod unat base) # out)"
      using 1(2) False qr(1) dig z dv by (simp add: to_string_loop.simps [of q] digit_char_def)
    moreover have "\<not> unat base < 2"
      using b by (simp add: unat_eq_nat_uint del: nat_uint_eq)
    ultimately show ?thesis
      using False by (simp add: nat_to_string.simps [of "unat base" "nat (val128 q)"])
  qed
qed

lemma simple_uint128_to_string_eq:
  "simple_uint128_to_string a base len =
    (if base < 2 \<or> base > 16 then Inl Invalid_argument
     else Inr (pad_left len (nat_to_string (unat base) (nat (val128 a)))))"
proof -
  have "nat_to_string (unat base) 0 = ''0''" if "\<not> (base < 2 \<or> base > 16)"
    using base_bounds [OF that] by (subst nat_to_string.simps) (auto simp: digit_char_def unat_eq_nat_uint simp del: nat_uint_eq)
  then show ?thesis
    by (cases "base < 2 \<or> base > 16")
      (auto simp: simple_uint128_to_string_def to_string_loop_eq pad_left_def limb_simps)
qed

section \<open>Powers\<close>

lemma pow_loop_val: "val128 (pow_loop a n r) = (val128 r * val128 a ^ n) mod 2 ^ 128"
proof (induction n arbitrary: r)
  case (Suc n)
  have "val128 (pow_loop a (Suc n) r) = (((val128 r * val128 a) mod 2 ^ 128) * val128 a ^ n) mod 2 ^ 128"
    by (simp only: pow_loop.simps Suc.IH val128_multi)
  also have "\<dots> = (val128 r * val128 a ^ Suc n) mod 2 ^ 128"
    by (simp only: mod_mult_left_eq power_Suc mult.assoc)
  finally show ?case .
qed simp

lemma val128_pow [limb_simps]:
  "val128 (simple_uint128_pow a p) = (val128 a ^ unat p) mod 2 ^ 128"
  by (simp only: simple_uint128_pow_def pow_loop_val val128_consts mult_1)

end
