(* ===== verification/Uint256.thy ===== *)
theory Uint256
  imports Uint128
begin

text \<open>
  The 256 bit unsigned integers of \<^verbatim>\<open>safenumber.cpp\<close>: pairs of 128 bit integers. Addition,
  negation, multiplication and the shifts are shown to be the arithmetic ones modulo
  \<open>2 ^ 256\<close>. Subtraction and the bit count are translated as they are written and are exact
  only on part of their domain; the division is exact where both are.
\<close>

section \<open>Definitions\<close>

record SimpleUint256 =
  hi256 :: SimpleUint128
  lo256 :: SimpleUint128

definition simple_uint256_create :: "SimpleUint128 \<Rightarrow> SimpleUint128 \<Rightarrow> SimpleUint256" where
  "simple_uint256_create b l = \<lparr>hi256 = b, lo256 = l\<rparr>"

definition simple_uint256_is_zero :: "SimpleUint256 \<Rightarrow> bool" where
  "simple_uint256_is_zero a \<longleftrightarrow>
     simple_uint128_is_zero (hi256 a) \<and> simple_uint128_is_zero (lo256 a)"

definition uint256_0 :: SimpleUint256 where
  "uint256_0 = simple_uint256_create uint128_0 uint128_0"

definition uint256_1 :: SimpleUint256 where
  "uint256_1 = simple_uint256_create uint128_0 uint128_1"

definition uint256_10 :: SimpleUint256 where
  "uint256_10 = simple_uint256_create uint128_0 uint128_10"

definition simple_uint256_gt :: "SimpleUint256 \<Rightarrow> SimpleUint256 \<Rightarrow> bool" where
  "simple_uint256_gt a b =
     (if simple_uint128_eq (hi256 a) (hi256 b) then simple_uint128_gt (lo256 a) (lo256 b)
      else simple_uint128_gt (hi256 a) (hi256 b))"

definition simple_uint256_eq :: "SimpleUint256 \<Rightarrow> SimpleUint256 \<Rightarrow> bool" where
  "simple_uint256_eq a b \<longleftrightarrow>
     simple_uint128_eq (hi256 a) (hi256 b) \<and> simple_uint128_eq (lo256 a) (lo256 b)"

definition simple_uint256_ge :: "SimpleUint256 \<Rightarrow> SimpleUint256 \<Rightarrow> bool" where
  "simple_uint256_ge a b \<longleftrightarrow> simple_uint256_gt a b \<or> simple_uint256_eq a b"

definition simple_uint256_add :: "SimpleUint256 \<Rightarrow> SimpleUint256 \<Rightarrow> SimpleUint256" where
  "simple_uint256_add a b =
    (let abig_plus_bbig = simple_uint128_add (hi256 a) (hi256 b);
         alow_plus_blow = simple_uint128_add (lo256 a) (lo256 b)
     in simple_uint256_create
          (simple_uint128_add_u64 abig_plus_bbig
             (if simple_uint128_lt alow_plus_blow (lo256 a) then 1 else 0))
          alow_plus_blow)"

text \<open>
  The borrow of the subtraction is the \<^verbatim>\<open>int\<close> value \<^verbatim>\<open>-1\<close>, handed to the overload of
  \<^verbatim>\<open>simple_uint128_add\<close> whose second argument is a \<^verbatim>\<open>uint64_t\<close>: the conversion makes it
  \<open>2 ^ 64 - 1\<close>, the 64 bit word \<open>- 1\<close>.
\<close>

definition simple_uint256_minus :: "SimpleUint256 \<Rightarrow> SimpleUint256 \<Rightarrow> SimpleUint256" where
  "simple_uint256_minus a b =
    (let abig_minus_bbig = simple_uint128_minus (hi256 a) (hi256 b);
         alow_minus_blow = simple_uint128_minus (lo256 a) (lo256 b)
     in simple_uint256_create
          (simple_uint128_add_u64 abig_minus_bbig
             (if simple_uint128_gt alow_minus_blow (lo256 a) then - 1 else 0))
          alow_minus_blow)"

definition simple_uint256_bit_reverse :: "SimpleUint256 \<Rightarrow> SimpleUint256" where
  "simple_uint256_bit_reverse a = \<lparr>hi256 = simple_uint128_bit_reverse (hi256 a),
     lo256 = simple_uint128_bit_reverse (lo256 a)\<rparr>"

definition simple_uint256_neg :: "SimpleUint256 \<Rightarrow> SimpleUint256" where
  "simple_uint256_neg a = simple_uint256_add
     \<lparr>hi256 = simple_uint128_bit_reverse (hi256 a),
      lo256 = simple_uint128_bit_reverse (lo256 a)\<rparr> uint256_1"

definition simple_uint256_multi :: "SimpleUint256 \<Rightarrow> SimpleUint256 \<Rightarrow> SimpleUint256" where
  "simple_uint256_multi a b =
    (let mask = simple_uint128_create 0 uint64_bigest;
         lo = (\<lambda>p. simple_uint128_bit_and p mask);
         hi = (\<lambda>p. simple_uint128_shift_right p 64);
         add = simple_uint128_add; mul = simple_uint128_multi;
         a3 = hi (hi256 a); a2 = lo (hi256 a); a1 = hi (lo256 a); a0 = lo (lo256 a);
         b3 = hi (hi256 b); b2 = lo (hi256 b); b1 = hi (lo256 b); b0 = lo (lo256 b);
         fourth32 = lo (mul a0 b0);
         third32 = add (lo (mul a0 b1)) (hi (mul a0 b0));
         second32 = add (lo (mul a0 b2)) (hi (mul a0 b1));
         first32 = add (lo (mul a0 b3)) (hi (mul a0 b2));
         third32 = add third32 (lo (mul a1 b0));
         second32 = add second32 (add (lo (mul a1 b1)) (hi (mul a1 b0)));
         first32 = add first32 (add (lo (mul a1 b2)) (hi (mul a1 b1)));
         second32 = add second32 (lo (mul a2 b0));
         first32 = add first32 (add (lo (mul a2 b1)) (hi (mul a2 b0)));
         first32 = add first32 (lo (mul a3 b0));
         third32 = add third32 (hi fourth32);
         second32 = add second32 (hi third32);
         first32 = add first32 (hi second32);
         fourth32 = lo fourth32; third32 = lo third32;
         second32 = lo second32; first32 = lo first32
     in simple_uint256_create
          (simple_uint128_bit_or (simple_uint128_shift_left first32 64) second32)
          (simple_uint128_bit_or (simple_uint128_shift_left third32 64) fourth32))"

definition simple_uint256_shift_left :: "SimpleUint256 \<Rightarrow> nat \<Rightarrow> SimpleUint256" where
  "simple_uint256_shift_left a shift =
    (if shift \<ge> 256 then uint256_0
     else if shift = 128 then simple_uint256_create (lo256 a) uint128_0
     else if shift = 0 then a
     else if shift < 128 then simple_uint256_create
       (simple_uint128_add (simple_uint128_shift_left (hi256 a) shift)
          (simple_uint128_shift_right (lo256 a) (128 - shift)))
       (simple_uint128_shift_left (lo256 a) shift)
     else simple_uint256_create (simple_uint128_shift_left (lo256 a) (shift - 128)) uint128_0)"

definition simple_uint256_shift_right :: "SimpleUint256 \<Rightarrow> nat \<Rightarrow> SimpleUint256" where
  "simple_uint256_shift_right a shift =
    (if shift \<ge> 256 then uint256_0
     else if shift = 128 then simple_uint256_create uint128_0 (hi256 a)
     else if shift = 0 then a
     else if shift < 128 then simple_uint256_create
       (simple_uint128_shift_right (hi256 a) shift)
       (simple_uint128_add (simple_uint128_shift_left (hi256 a) (128 - shift))
          (simple_uint128_shift_right (lo256 a) shift))
     else simple_uint256_create uint128_0 (simple_uint128_shift_right (hi256 a) (shift - 128)))"

definition simple_uint256_bit_and :: "SimpleUint256 \<Rightarrow> SimpleUint256 \<Rightarrow> SimpleUint256" where
  "simple_uint256_bit_and a b = simple_uint256_create
     (simple_uint128_bit_and (hi256 a) (hi256 b)) (simple_uint128_bit_and (lo256 a) (lo256 b))"

text \<open>The loop of \<^verbatim>\<open>simple_uint256_bits\<close>; its counter is 8 bits wide.\<close>

function bits256_loop :: "SimpleUint128 \<Rightarrow> u8 \<Rightarrow> u8" where
  "bits256_loop up out =
     (if \<not> simple_uint128_is_zero up then bits256_loop (simple_uint128_shift_right up 1) (out + 1)
      else out)"
  by pat_completeness auto

lemma shift_right_1_less:
  "\<not> simple_uint128_is_zero up \<Longrightarrow>
    0 < val128 up \<and> val128 (simple_uint128_shift_right up (Suc 0)) < val128 up"
  using val128_bounds [of up] by (simp add: limb_simps)

termination bits256_loop
  by (relation "measure (\<lambda>(up, out). nat (val128 up))") (simp_all add: shift_right_1_less)

declare bits256_loop.simps [simp del]

definition simple_uint256_bits :: "SimpleUint256 \<Rightarrow> u8" where
  "simple_uint256_bits a =
     (if \<not> simple_uint128_is_zero (hi256 a) then bits256_loop (hi256 a) 128
      else bits256_loop (lo256 a) 0)"

record Uint256DivResult =
  div_result256 :: SimpleUint256
  mod_result256 :: SimpleUint256

definition make_uint256_div_result :: "SimpleUint256 \<Rightarrow> SimpleUint256 \<Rightarrow> Uint256DivResult" where
  "make_uint256_div_result d m = \<lparr>div_result256 = d, mod_result256 = m\<rparr>"

fun divmod256_loop :: "SimpleUint256 \<Rightarrow> SimpleUint256 \<Rightarrow> nat \<Rightarrow> SimpleUint256 \<Rightarrow> SimpleUint256 \<Rightarrow>
    SimpleUint256 \<times> SimpleUint256" where
  "divmod256_loop a b 0 d m = (d, m)"
| "divmod256_loop a b (Suc x) d m =
    (let d = simple_uint256_shift_left d 1;
         m = simple_uint256_shift_left m 1;
         tmp1 = simple_uint256_shift_right a x;
         tmp2 = simple_uint256_bit_and tmp1 uint256_1;
         m = (if \<not> simple_uint256_is_zero tmp2 then simple_uint256_add m uint256_1 else m)
     in if simple_uint256_ge m b
        then divmod256_loop a b x (simple_uint256_add d uint256_1) (simple_uint256_minus m b)
        else divmod256_loop a b x d m)"

definition simple_uint256_divmod ::
    "SimpleUint256 \<Rightarrow> SimpleUint256 \<Rightarrow> Uint256DivResult result" where
  "simple_uint256_divmod a b =
    (if simple_uint256_is_zero b then Inl Domain_error
     else if simple_uint128_is_zero (hi256 b) \<and> simple_uint128_eq (lo256 b) uint128_1
       then Inr (make_uint256_div_result a uint256_0)
     else if simple_uint128_eq (hi256 a) (hi256 b) \<and> simple_uint128_eq (lo256 a) (lo256 b)
       then Inr (make_uint256_div_result uint256_1 uint256_0)
     else if (simple_uint128_is_zero (hi256 a) \<and> simple_uint128_is_zero (lo256 a)) \<or>
         (simple_uint128_lt (hi256 a) (hi256 b) \<or>
          (simple_uint128_eq (hi256 a) (hi256 b) \<and> simple_uint128_lt (lo256 a) (lo256 b)))
       then Inr (make_uint256_div_result uint256_0 a)
     else let (d, m) = divmod256_loop a b (unat (simple_uint256_bits a)) uint256_0 uint256_0
          in Inr (make_uint256_div_result d m))"

section \<open>Values\<close>

definition val256 :: "SimpleUint256 \<Rightarrow> int" where
  "val256 a = val128 (hi256 a) * 2 ^ 128 + val128 (lo256 a)"

lemma val256_bounds: "0 \<le> val256 a" "val256 a < 2 ^ 256"
  using val128_bounds [of "hi256 a"] val128_bounds [of "lo256 a"]
  by (simp_all add: val256_def)

lemma val256_mod: "val256 a mod 2 ^ 256 = val256 a"
  using val256_bounds [of a] by simp

lemmas val256_mod_numeral [simp] = val256_mod [simplified]

lemma val256_inj: "val256 a = val256 b \<longleftrightarrow> a = b"
  using limb_eq [of "val128 (lo256 a)" "2 ^ 128" "val128 (lo256 b)" "val128 (hi256 a)" "val128 (hi256 b)"]
    val128_bounds [of "lo256 a"] val128_bounds [of "lo256 b"]
  by (cases a; cases b) (simp add: val256_def val128_inj)

lemma val256_create [limb_simps]:
  "val256 (simple_uint256_create b l) = val128 b * 2 ^ 128 + val128 l"
  by (simp add: val256_def simple_uint256_create_def)

lemma val256_consts [limb_simps]:
  "val256 uint256_0 = 0" "val256 uint256_1 = 1" "val256 uint256_10 = 10"
  by (simp_all add: uint256_0_def uint256_1_def uint256_10_def limb_simps)

lemma simple_uint256_is_zero_iff [limb_simps]: "simple_uint256_is_zero a \<longleftrightarrow> val256 a = 0"
  using limb_eq [of "val128 (lo256 a)" "2 ^ 128" 0 "val128 (hi256 a)" 0] val128_bounds [of "lo256 a"]
  by (simp add: simple_uint256_is_zero_def val256_def limb_simps)

lemma simple_uint256_gt_iff [limb_simps]: "simple_uint256_gt a b \<longleftrightarrow> val256 b < val256 a"
  using limb_less [of "val128 (lo256 b)" "2 ^ 128" "val128 (lo256 a)" "val128 (hi256 b)" "val128 (hi256 a)"]
    val128_bounds [of "lo256 a"] val128_bounds [of "lo256 b"]
  by (auto simp: simple_uint256_gt_def val256_def limb_simps)

lemma simple_uint256_eq_iff [limb_simps]: "simple_uint256_eq a b \<longleftrightarrow> val256 a = val256 b"
  by (cases a; cases b) (simp add: simple_uint256_eq_def limb_simps val256_inj val128_inj)

lemma simple_uint256_ge_iff [limb_simps]: "simple_uint256_ge a b \<longleftrightarrow> val256 b \<le> val256 a"
  by (auto simp: simple_uint256_ge_def limb_simps)

lemma two_limbs256: "(2 :: int) ^ 128 * 2 ^ 128 = 2 ^ 256"
  by simp

section \<open>Addition, subtraction and negation\<close>

lemma val256_add [limb_simps]:
  "val256 (simple_uint256_add a b) = (val256 a + val256 b) mod 2 ^ 256"
proof -
  define c where "c \<longleftrightarrow> (val128 (lo256 a) + val128 (lo256 b)) mod 2 ^ 128 < val128 (lo256 a)"
  have "simple_uint128_lt (simple_uint128_add (lo256 a) (lo256 b)) (lo256 a) \<longleftrightarrow> c"
    by (simp only: c_def simple_uint128_lt_iff val128_add)
  moreover have "uint (if c then 1 else 0 :: u64) = (if c then 1 else 0)" by simp
  ultimately have "val256 (simple_uint256_add a b) =
      ((val128 (hi256 a) + val128 (hi256 b) + (if c then 1 else 0)) mod 2 ^ 128) * 2 ^ 128
      + (val128 (lo256 a) + val128 (lo256 b)) mod 2 ^ 128"
    by (simp only: simple_uint256_add_def Let_def val256_create val128_add_u64 val128_add
        mod_add_left_eq)
  also have "\<dots> = (val256 a + val256 b) mod (2 ^ 128 * 2 ^ 128)"
    unfolding c_def val256_def by (rule limb_add) (rule val128_bounds)+
  finally show ?thesis by (simp only: two_limbs256)
qed

text \<open>The subtraction is exact when the low halves need no borrow.\<close>

lemma val256_minus_no_borrow:
  assumes "val128 (lo256 b) \<le> val128 (lo256 a)"
  shows "val256 (simple_uint256_minus a b) = (val256 a - val256 b) mod 2 ^ 256"
proof -
  have lo: "val128 (simple_uint128_minus (lo256 a) (lo256 b)) = val128 (lo256 a) - val128 (lo256 b)"
    using assms val128_bounds [of "lo256 a"] val128_bounds [of "lo256 b"] by (simp add: val128_minus)
  then have "\<not> simple_uint128_gt (simple_uint128_minus (lo256 a) (lo256 b)) (lo256 a)"
    using val128_bounds [of "lo256 b"] by (simp add: limb_simps)
  moreover have "\<not> (val128 (lo256 a) - val128 (lo256 b)) mod 2 ^ 128 > val128 (lo256 a)"
    using lo val128_bounds [of "lo256 b"] by (simp add: val128_minus)
  ultimately show ?thesis
    using limb_sub [of "val128 (lo256 a)" "2 ^ 128" "val128 (lo256 b)" "val128 (hi256 a)" "val128 (hi256 b)"]
      val128_bounds [of "lo256 a"] val128_bounds [of "lo256 b"]
    by (simp add: val256_def simple_uint256_minus_def simple_uint256_create_def Let_def
        val128_add_u64 val128_minus)
qed

text \<open>With a borrow the high half is \<open>2 ^ 64\<close> too large: \<open>2 ^ 64 - 1\<close> is added in place of \<open>- 1\<close>.\<close>

lemma val256_minus:
  "val256 (simple_uint256_minus a b) =
     (val256 a - val256 b + (if val128 (lo256 a) < val128 (lo256 b) then 2 ^ 192 else 0)) mod 2 ^ 256"
proof (cases "val128 (lo256 a) < val128 (lo256 b)")
  case False
  then show ?thesis using val256_minus_no_borrow [of b a] by simp
next
  case True
  let ?lo = "val128 (lo256 a) - val128 (lo256 b) + 2 ^ 128" and ?hi = "val128 (hi256 a) - val128 (hi256 b) - 1 + 2 ^ 64"
  note bounds = val128_bounds [of "lo256 a"] val128_bounds [of "lo256 b"]
  have r: "0 \<le> ?lo" "?lo < 2 ^ 128" using True bounds by linarith+
  have lo: "val128 (simple_uint128_minus (lo256 a) (lo256 b)) = ?lo"
    using int_mod_pos_eq [of "val128 (lo256 a) - val128 (lo256 b)" "2 ^ 128" "- 1" ?lo] r
    unfolding val128_minus by simp
  then have "simple_uint128_gt (simple_uint128_minus (lo256 a) (lo256 b)) (lo256 a)"
    using bounds by (simp add: simple_uint128_gt_iff)
  moreover have "uint (- 1 :: u64) = 2 ^ 64 - 1" by (simp add: unsigned_minus_1_eq_mask mask_eq_exp_minus_1)
  ultimately have "val256 (simple_uint256_minus a b) =
      ((val128 (hi256 a) - val128 (hi256 b) + (2 ^ 64 - 1)) mod 2 ^ 128) * 2 ^ 128 + ?lo"
    by (simp only: simple_uint256_minus_def Let_def val256_create val128_add_u64 lo val128_minus lo [unfolded val128_minus]
        if_True mod_add_left_eq)
  also have "val128 (hi256 a) - val128 (hi256 b) + (2 ^ 64 - 1) = ?hi" by simp
  also have "(?hi mod 2 ^ 128) * 2 ^ 128 + ?lo = (?hi * 2 ^ 128 + ?lo) mod (2 ^ 128 * 2 ^ 128)"
    by (rule glue_mod [symmetric]) (use r in simp_all)
  also have "?hi * 2 ^ 128 + ?lo = val256 a - val256 b + 2 ^ 192"
    by (simp add: val256_def algebra_simps)
  finally show ?thesis using True by (simp only: two_limbs256 if_True)
qed

lemma val256_bit_reverse [limb_simps]:
  "val256 (simple_uint256_bit_reverse a) = 2 ^ 256 - 1 - val256 a"
  by (simp add: simple_uint256_bit_reverse_def val256_def val128_bit_reverse algebra_simps)

lemma val256_neg [limb_simps]: "val256 (simple_uint256_neg a) = (- val256 a) mod 2 ^ 256"
proof -
  have "val256 (simple_uint256_neg a) = (2 ^ 256 - 1 - val256 a + 1) mod 2 ^ 256"
    using val256_bit_reverse [of a]
    by (simp add: simple_uint256_neg_def limb_simps simple_uint256_bit_reverse_def)
  then show ?thesis by (simp add: mod_simps)
qed

section \<open>Shifts and masks\<close>

lemma val256_shift_left [limb_simps]:
  "val256 (simple_uint256_shift_left a n) = (val256 a * 2 ^ n) mod 2 ^ 256"
proof -
  consider "n \<ge> 256" | "n = 0" | "n \<noteq> 0" "n < 128" | "n \<ge> 128" "n < 256" by linarith
  then show ?thesis
  proof cases
    case 1
    then have "(2 :: int) ^ n = 2 ^ 256 * 2 ^ (n - 256)" by (subst power_add [symmetric]) simp
    then show ?thesis
      using 1 by (simp add: simple_uint256_shift_left_def limb_simps mult.left_commute)
  next
    case 3
    then have "val256 (simple_uint256_shift_left a n)
        = (((val128 (hi256 a) * 2 ^ n) mod 2 ^ 128 + val128 (lo256 a) div 2 ^ (128 - n)) mod 2 ^ 128)
            * 2 ^ 128 + (val128 (lo256 a) * 2 ^ n) mod 2 ^ 128"
      by (simp add: simple_uint256_shift_left_def val256_create val128_shift_left
          val128_shift_right val128_add)
    also have "\<dots> = ((val128 (hi256 a) * 2 ^ 128 + val128 (lo256 a)) * 2 ^ n) mod (2 ^ 128 * 2 ^ 128)"
      by (rule limb_shl) (use 3 in simp)
    finally show ?thesis
      by (simp only: two_limbs256 val256_def [of a])
  next
    case 4
    then have n: "(2 :: int) ^ n = 2 ^ (n - 128) * 2 ^ 128" by (subst power_add [symmetric]) simp
    have "val128 (lo256 a) * 2 ^ (n - 128) + (val128 (hi256 a) * 2 ^ (n - 128)) * 2 ^ 128
        = val256 a * 2 ^ (n - 128)"
      by (simp only: val256_def algebra_simps)
    then have "(val256 a * 2 ^ (n - 128)) mod 2 ^ 128 = (val128 (lo256 a) * 2 ^ (n - 128)) mod 2 ^ 128"
      by (metis mod_mult_self1)
    moreover have "(val256 a * 2 ^ n) mod 2 ^ 256
        = ((val256 a * 2 ^ (n - 128)) mod 2 ^ 128) * 2 ^ 128"
      unfolding n two_limbs256 [symmetric] mult.assoc [symmetric] by (rule mod_mult_mult2)
    ultimately show ?thesis
      using 4 by (simp add: simple_uint256_shift_left_def val256_create val128_shift_left val128_consts)
  qed (simp_all add: simple_uint256_shift_left_def)
qed

lemma val256_shift_right [limb_simps]:
  "val256 (simple_uint256_shift_right a n) = val256 a div 2 ^ n"
proof -
  have hi: "val256 a div 2 ^ 128 = val128 (hi256 a)"
    using val128_bounds [of "lo256 a"] by (simp add: val256_def)
  consider "n \<ge> 256" | "n = 0" | "n \<noteq> 0" "n < 128" | "n = 128" | "n > 128" "n < 256" by linarith
  then show ?thesis
  proof cases
    case 1
    then have "(2 :: int) ^ 256 \<le> 2 ^ n" by (intro power_increasing) simp_all
    then have "val256 a div 2 ^ n = 0"
      using val256_bounds [of a] by (intro div_pos_pos_trivial) linarith+
    then show ?thesis using 1 by (simp add: simple_uint256_shift_right_def limb_simps)
  next
    case 3
    then have "val256 (simple_uint256_shift_right a n)
        = (val128 (hi256 a) div 2 ^ n) * 2 ^ 128
          + ((val128 (hi256 a) * 2 ^ (128 - n)) mod 2 ^ 128 + val128 (lo256 a) div 2 ^ n) mod 2 ^ 128"
      by (simp add: simple_uint256_shift_right_def val256_create val128_shift_left
          val128_shift_right val128_add)
    also have "\<dots> = (val128 (hi256 a) * 2 ^ 128 + val128 (lo256 a)) div 2 ^ n"
      by (rule limb_shr) (use 3 val128_bounds [of "lo256 a"] in simp_all)
    finally show ?thesis
      by (simp only: val256_def [of a])
  next
    case 4
    then show ?thesis using hi by (simp add: simple_uint256_shift_right_def val256_create val128_consts)
  next
    case 5
    then have n: "(2 :: int) ^ n = 2 ^ 128 * 2 ^ (n - 128)" by (subst power_add [symmetric]) simp
    have "val256 a div 2 ^ n = (val256 a div 2 ^ 128) div 2 ^ (n - 128)"
      unfolding n by (rule zdiv_zmult2_eq) simp
    then show ?thesis
      using 5 hi by (simp add: simple_uint256_shift_right_def val256_create val128_shift_right val128_consts)
  qed (simp_all add: simple_uint256_shift_right_def)
qed

lemma val128_bit_and_0: "val128 (simple_uint128_bit_and a uint128_0) = 0"
  by (simp add: simple_uint128_bit_and_def uint128_0_def val128_create)
    (simp add: simple_uint128_create_def)

lemma val256_bit_and_1 [limb_simps]:
  "val256 (simple_uint256_bit_and a uint256_1) = val256 a mod 2"
proof -
  have "val256 a mod 2 = val128 (lo256 a) mod 2"
    unfolding val256_def by (simp, presburger)
  moreover have "hi256 uint256_1 = uint128_0" "lo256 uint256_1 = uint128_1"
    by (simp_all add: uint256_1_def simple_uint256_create_def)
  ultimately show ?thesis
    by (simp add: simple_uint256_bit_and_def val256_create val128_bit_and_0 val128_bit_and_1)
qed

section \<open>Multiplication\<close>

lemma val128_glue64:
  assumes "val128 x < 2 ^ 64" "val128 y < 2 ^ 64"
  shows "val128 (simple_uint128_bit_or (simple_uint128_shift_left x 64) y) = val128 x * 2 ^ 64 + val128 y"
proof -
  have "big y = 0"
    using assms(2) val128_low_small [of y] by (simp add: val128_def word_uint_eq_iff)
  then show ?thesis
    using val128_low_small [OF assms(1)] val128_low_small [OF assms(2)]
    by (simp add: simple_uint128_bit_or_def simple_uint128_shift_left_def val128_create)
      (simp add: simple_uint128_create_def)
qed

interpretation mul256: schoolbook_multiplier val128 "2 ^ 64"
  "\<lambda>p. simple_uint128_bit_and p (simple_uint128_create 0 uint64_bigest)"
  "\<lambda>p. simple_uint128_shift_right p 64" simple_uint128_add simple_uint128_multi
proof unfold_locales
  fix x y w :: SimpleUint128
  show "(8 :: int) \<le> 2 ^ 64" by simp
  show "0 \<le> val128 w" by (rule val128_bounds)
  show "val128 w < 2 ^ 64 * 2 ^ 64" using val128_bounds(2) [of w] by simp
  show "val128 (simple_uint128_bit_and w (simple_uint128_create 0 uint64_bigest)) = val128 w mod 2 ^ 64"
    by (rule val128_bit_and_mask64)
  show "val128 (simple_uint128_shift_right w 64) = val128 w div 2 ^ 64"
    by (rule val128_shift_right)
  show "val128 (simple_uint128_add x y) = val128 x + val128 y"
    if "val128 x + val128 y < 2 ^ 64 * 2 ^ 64"
    using that val128_bounds [of x] val128_bounds [of y] by (simp add: val128_add)
  show "val128 (simple_uint128_multi x y) = val128 x * val128 y"
    if "val128 x < 2 ^ 64" "val128 y < 2 ^ 64"
  proof -
    have "val128 x * val128 y \<le> (2 ^ 64 - 1) * (2 ^ 64 - 1)"
      using that val128_bounds [of x] val128_bounds [of y] by (intro mult_mono) simp_all
    then show ?thesis
      using val128_bounds [of x] val128_bounds [of y] by (simp add: val128_multi)
  qed
qed

lemma four_digits_256:
  "(2 :: int) ^ 64 * 2 ^ 64 = 2 ^ 128" "(2 :: int) ^ 128 * 2 ^ 64 * 2 ^ 64 = 2 ^ 256"
  by simp_all

lemma val256_multi [limb_simps]:
  "val256 (simple_uint256_multi a b) = (val256 a * val256 b) mod 2 ^ 256"
  using mul256.product [where ah = "hi256 a" and al = "lo256 a" and bh = "hi256 b" and bl = "lo256 b",
    unfolded four_digits_256]
  unfolding simple_uint256_multi_def Let_def val256_create val256_def [of a] val256_def [of b]
    val128_glue64 [OF mul256.digit_less(1) mul256.digit_less(1)] .

section \<open>Bit length and division\<close>

lemma bits256_loop_eq:
  "bits256_loop up out = out + of_nat (bit_length (nat (val128 up)))"
proof (induction up out rule: bits256_loop.induct)
  case (1 up out)
  have "nat (val128 (simple_uint128_shift_right up 1)) = nat (val128 up) div 2"
    using val128_bounds [of up] by (simp add: val128_shift_right nat_div_distrib)
  then show ?case
    using 1 val128_bounds [of up] by (cases "val128 up = 0")
      (simp_all add: bits256_loop.simps [of up] bit_length.simps [of "nat (val128 up)"]
        simple_uint128_is_zero_iff)
qed

lemma nat_val256: "nat (val256 a) = nat (val128 (hi256 a)) * 2 ^ 128 + nat (val128 (lo256 a))"
  using val128_bounds [of "hi256 a"] val128_bounds [of "lo256 a"]
  by (simp add: val256_def nat_add_distrib nat_mult_distrib)

text \<open>The 8 bit counter holds the bit length of every number below \<open>2 ^ 255\<close> and wraps above.\<close>

lemma simple_uint256_bits_eq:
  "unat (simple_uint256_bits a) = bit_length (nat (val256 a)) mod 256"
proof (cases "val128 (hi256 a) = 0")
  case True
  then show ?thesis
    by (simp add: simple_uint256_bits_def bits256_loop_eq nat_val256 unat_of_nat
        simple_uint128_is_zero_iff)
next
  case False
  have "bit_length (nat (val256 a)) = bit_length (nat (val128 (hi256 a))) + 128"
    unfolding nat_val256 using False val128_bounds [of "hi256 a"] val128_bounds [of "lo256 a"]
    by (intro bit_length_shift) (simp_all add: nat_less_iff)
  then show ?thesis
    using False by (simp add: simple_uint256_bits_def bits256_loop_eq simple_uint128_is_zero_iff
        unat_word_ariths unat_of_nat mod_simps add.commute take_bit_eq_mod)
qed

lemma simple_uint256_bits_small:
  assumes "val256 a < 2 ^ 255"
  shows "unat (simple_uint256_bits a) = bit_length (nat (val256 a))"
proof -
  have "nat (val256 a) < 2 ^ 255"
    using assms val256_bounds [of a] by (simp add: nat_less_iff)
  then have "bit_length (nat (val256 a)) \<le> 255" by (rule bit_length_le)
  then show ?thesis by (simp add: simple_uint256_bits_eq)
qed

lemma val128_lo_small: "val256 a < 2 ^ 128 \<Longrightarrow> val128 (lo256 a) = val256 a"
  unfolding val256_def using val128_bounds [of "hi256 a"] val128_bounds [of "lo256 a"]
  by (cases "val128 (hi256 a) = 0") auto

lemma val256_minus_small:
  assumes "val256 b \<le> val256 a" "val256 a < 2 ^ 128"
  shows "val256 (simple_uint256_minus a b) = val256 a - val256 b"
  using assms val128_lo_small [of a] val128_lo_small [of b] val256_bounds [of b]
  by (subst val256_minus_no_borrow) simp_all

interpretation div256: shift_subtract_divider val256 "2 ^ 256"
  "\<lambda>a. simple_uint256_shift_left a 1" "\<lambda>a. simple_uint256_add a uint256_1"
  "\<lambda>a x. \<not> simple_uint256_is_zero
     (simple_uint256_bit_and (simple_uint256_shift_right a x) uint256_1)"
  simple_uint256_ge simple_uint256_minus "\<lambda>b. val256 b \<le> 2 ^ 127" divmod256_loop
proof unfold_locales
  fix a b m :: SimpleUint256 and x :: nat
  show "0 \<le> val256 a" "val256 a < 2 ^ 256" by (rule val256_bounds)+
  show "val256 (simple_uint256_shift_left a 1) = 2 * val256 a" if "2 * val256 a < 2 ^ 256"
    using that val256_bounds [of a] by (simp add: limb_simps)
  show "val256 (simple_uint256_add a uint256_1) = val256 a + 1" if "val256 a + 1 < 2 ^ 256"
    using that val256_bounds [of a] by (simp add: limb_simps)
  show "\<not> simple_uint256_is_zero
      (simple_uint256_bit_and (simple_uint256_shift_right a x) uint256_1)
      \<longleftrightarrow> odd (val256 a div 2 ^ x)"
    by (auto simp: limb_simps even_iff_mod_2_eq_zero)
  show "simple_uint256_ge a b \<longleftrightarrow> val256 b \<le> val256 a"
    by (rule simple_uint256_ge_iff)
  show "val256 (simple_uint256_minus m b) = val256 m - val256 b"
    if "val256 b \<le> 2 ^ 127" "val256 b \<le> val256 m" "val256 m < 2 * val256 b"
    using that by (intro val256_minus_small) simp_all
qed (simp_all add: Let_def)

lemma halves_iff:
  "simple_uint128_eq (hi256 a) (hi256 b) \<and> simple_uint128_eq (lo256 a) (lo256 b)
    \<longleftrightarrow> val256 a = val256 b"
  "simple_uint128_is_zero (hi256 a) \<and> simple_uint128_is_zero (lo256 a) \<longleftrightarrow> val256 a = 0"
  "simple_uint128_lt (hi256 a) (hi256 b) \<or>
    simple_uint128_eq (hi256 a) (hi256 b) \<and> simple_uint128_lt (lo256 a) (lo256 b)
    \<longleftrightarrow> val256 a < val256 b"
proof -
  show "simple_uint128_eq (hi256 a) (hi256 b) \<and> simple_uint128_eq (lo256 a) (lo256 b)
      \<longleftrightarrow> val256 a = val256 b"
    using simple_uint256_eq_iff [of a b] by (simp add: simple_uint256_eq_def)
  show "simple_uint128_is_zero (hi256 a) \<and> simple_uint128_is_zero (lo256 a) \<longleftrightarrow> val256 a = 0"
    using simple_uint256_is_zero_iff [of a] by (simp add: simple_uint256_is_zero_def)
  show "simple_uint128_lt (hi256 a) (hi256 b) \<or>
      simple_uint128_eq (hi256 a) (hi256 b) \<and> simple_uint128_lt (lo256 a) (lo256 b)
      \<longleftrightarrow> val256 a < val256 b"
    using simple_uint256_gt_iff [of b a]
    by (auto simp: simple_uint256_gt_def limb_simps split: if_splits)
qed

lemma is_one_iff:
  "simple_uint128_is_zero (hi256 b) \<and> simple_uint128_eq (lo256 b) uint128_1 \<longleftrightarrow> val256 b = 1"
  using halves_iff(1) [of b uint256_1]
  by (simp add: limb_simps, simp add: uint256_1_def simple_uint256_create_def limb_simps)

text \<open>The division as its early returns and its loop see it.\<close>

lemma simple_uint256_divmod_eq:
  "simple_uint256_divmod a b =
    (if val256 b = 0 then Inl Domain_error
     else if val256 b = 1 then Inr (make_uint256_div_result a uint256_0)
     else if val256 a = val256 b then Inr (make_uint256_div_result uint256_1 uint256_0)
     else if val256 a < val256 b then Inr (make_uint256_div_result uint256_0 a)
     else let (d, m) = divmod256_loop a b (unat (simple_uint256_bits a)) uint256_0 uint256_0
          in Inr (make_uint256_div_result d m))"
proof -
  have "val256 a = 0 \<or> val256 a < val256 b \<longleftrightarrow> val256 a < val256 b" if "val256 b \<noteq> 0"
    using that val256_bounds [of b] by auto
  then show ?thesis
    unfolding simple_uint256_divmod_def halves_iff is_one_iff simple_uint256_is_zero_iff
    by simp
qed

lemma divmod256:
  assumes "0 < val256 b" "val256 b \<le> 2 ^ 127" "val256 a < 2 ^ 255"
  shows "\<exists>r. simple_uint256_divmod a b = Inr r
    \<and> val256 (div_result256 r) = val256 a div val256 b
    \<and> val256 (mod_result256 r) = val256 a mod val256 b"
proof -
  note bounds = val256_bounds(1) [of a]
  let ?n = "unat (simple_uint256_bits a)"
  have "nat (val256 a) < 2 ^ ?n"
    unfolding simple_uint256_bits_small [OF assms(3)] by (rule bit_length_less)
  then have n: "val256 a < 2 ^ ?n"
    by (simp add: nat_less_iff bounds)
  obtain d m where loop: "divmod256_loop a b ?n uint256_0 uint256_0 = (d, m)" by fastforce
  have "val256 d = val256 a div val256 b" "val256 m = val256 a mod val256 b"
    using div256.division [of b a ?n uint256_0] assms n loop by (simp_all add: limb_simps)
  then show ?thesis
    using assms loop bounds
    by (auto simp: simple_uint256_divmod_eq make_uint256_div_result_def limb_simps)
qed

text \<open>
  Above \<open>2 ^ 255\<close> the wrapped bit count makes the loop run zero times.
\<close>

lemma divmod256_wrapped:
  assumes "2 ^ 255 \<le> val256 a" "1 < val256 b" "val256 b < val256 a"
  shows "simple_uint256_divmod a b = Inr (make_uint256_div_result uint256_0 uint256_0)"
proof -
  have nz: "nat (val256 a) \<noteq> 0" "2 ^ 255 \<le> nat (val256 a)" "nat (val256 a) < 2 ^ 256"
    using assms(1) val256_bounds [of a] by (simp_all add: le_nat_iff nat_less_iff)
  have "bit_length (nat (val256 a)) \<le> 256"
    using nz(3) by (rule bit_length_le)
  moreover have "\<not> bit_length (nat (val256 a)) \<le> 255"
  proof
    assume "bit_length (nat (val256 a)) \<le> 255"
    then have "(2 :: nat) ^ bit_length (nat (val256 a)) \<le> 2 ^ 255" by (rule power_increasing) simp
    then show False using bit_length_less [of "nat (val256 a)"] nz(2) by linarith
  qed
  ultimately have "bit_length (nat (val256 a)) = 256" by linarith
  then have "unat (simple_uint256_bits a) = 0" by (simp add: simple_uint256_bits_eq)
  then show ?thesis
    using assms(2,3) by (simp add: simple_uint256_divmod_eq)
qed

section \<open>Printing\<close>

function to_string256_loop :: "SimpleUint256 \<Rightarrow> u8 \<Rightarrow> string \<Rightarrow> string result" where
  "to_string256_loop q base out =
    (if base < 2 \<or> base > 16 then Inl Invalid_argument
     else ebind (simple_uint256_divmod q
         (simple_uint256_create uint128_0 (simple_uint128_create 0 (ucast base)))) (\<lambda>qr.
       let out = ''0123456789abcdef'' ! unat (ucast (low (lo256 (mod_result256 qr))) :: u8) # out
       in if \<not> simple_uint256_is_zero (div_result256 qr)
          then to_string256_loop (div_result256 qr) base out else Inr out))"
  by pat_completeness auto

lemma val256_base:
  "val256 (simple_uint256_create uint128_0 (simple_uint128_create 0 (ucast (base :: u8)))) = uint base"
  by (simp add: val256_create val128_base val128_consts)

lemma divmod256_quotient:
  assumes "1 < val256 b" "val256 b \<le> 2 ^ 127" "simple_uint256_divmod a b = Inr qr"
  shows "val256 (div_result256 qr) = val256 a div val256 b \<or> val256 (div_result256 qr) = 0"
proof (cases "val256 a < 2 ^ 255")
  case True
  then show ?thesis using divmod256 [of b a] assms by auto
next
  case False
  then have "simple_uint256_divmod a b = Inr (make_uint256_div_result uint256_0 uint256_0)"
    using assms(1,2) by (intro divmod256_wrapped) simp_all
  then show ?thesis
    using assms(3) by (auto simp: make_uint256_div_result_def limb_simps)
qed

termination to_string256_loop
proof (relation "measure (\<lambda>(q, base, out). nat (val256 q))")
  fix q and base :: u8 and out :: string and qr out'
  assume base: "\<not> (base < 2 \<or> base > 16)"
    and qr: "simple_uint256_divmod q
      (simple_uint256_create uint128_0 (simple_uint128_create 0 (ucast base))) = Inr qr"
    and nz: "\<not> simple_uint256_is_zero (div_result256 qr)"
  have "val256 (div_result256 qr) = val256 q div uint base"
    using divmod256_quotient [OF _ _ qr] base_bounds [OF base] nz
    by (simp add: val256_base simple_uint256_is_zero_iff)
  moreover have "val256 (div_result256 qr) \<noteq> 0"
    using nz by (simp add: limb_simps)
  ultimately have "val256 (div_result256 qr) < val256 q"
    using base_bounds [OF base] val256_bounds [of q] int_div_less_self [of "val256 q" "uint base"]
    by (cases "val256 q = 0") auto
  then show "((div_result256 qr, base, out'), q, base, out)
      \<in> measure (\<lambda>(q, base, out). nat (val256 q))"
    using val256_bounds [of "div_result256 qr"] by simp
qed simp

declare to_string256_loop.simps [simp del]

definition simple_uint256_to_string :: "SimpleUint256 \<Rightarrow> u8 \<Rightarrow> nat \<Rightarrow> string result" where
  "simple_uint256_to_string a base len =
    (if base < 2 \<or> base > 16 then Inl Invalid_argument
     else ebind (if simple_uint256_is_zero a then Inr ''0'' else to_string256_loop a base []) (\<lambda>out.
       Inr (if length out < len then replicate (len - length out) CHR ''0'' @ out else out)))"

text \<open>Below \<open>2 ^ 255\<close> one round of the printer peels off the last digit.\<close>

lemma divmod256_digit:
  assumes "\<not> (base < 2 \<or> base > (16 :: u8))" "val256 q < 2 ^ 255"
  shows "\<exists>qr. simple_uint256_divmod q
      (simple_uint256_create uint128_0 (simple_uint128_create 0 (ucast base))) = Inr qr
    \<and> unat (ucast (low (lo256 (mod_result256 qr))) :: u8) = nat (val256 q) mod unat base
    \<and> nat (val256 (div_result256 qr)) = nat (val256 q) div unat base
    \<and> val256 (div_result256 qr) < 2 ^ 255"
proof -
  note b = base_bounds [OF assms(1)]
  obtain qr where qr: "simple_uint256_divmod q
      (simple_uint256_create uint128_0 (simple_uint128_create 0 (ucast base))) = Inr qr"
      "val256 (div_result256 qr) = val256 q div uint base"
      "val256 (mod_result256 qr) = val256 q mod uint base"
    using divmod256 [of "simple_uint256_create uint128_0 (simple_uint128_create 0 (ucast base))" q]
      b assms(2) by (auto simp: val256_base)
  have m: "0 \<le> val256 q mod uint base" "val256 q mod uint base < 16"
    using b pos_mod_bound [of "uint base" "val256 q"] by (simp, linarith)
  then have "uint (low (lo256 (mod_result256 qr))) = val256 q mod uint base"
    using qr(3) val128_lo_small [of "mod_result256 qr"]
      val128_low_small [of "lo256 (mod_result256 qr)"] by simp
  then have "unat (ucast (low (lo256 (mod_result256 qr))) :: u8) = nat (val256 q) mod unat base"
    using m b val256_bounds [of q]
    by (simp add: unat_eq_nat_uint unsigned_ucast_eq take_bit_eq_mod nat_mod_distrib del: nat_uint_eq)
  moreover have "nat (val256 (div_result256 qr)) = nat (val256 q) div unat base"
    using qr(2) val256_bounds [of q] by (simp add: unat_eq_nat_uint nat_div_distrib del: nat_uint_eq)
  moreover have "val256 (div_result256 qr) < 2 ^ 255"
    using zdiv_mono2 [of "val256 q" 1 "uint base"] qr(2) b assms(2) val256_bounds [of q] by simp
  ultimately show ?thesis using qr(1) by blast
qed

lemma to_string256_loop_eq:
  assumes "\<not> (base < 2 \<or> base > 16)" "val256 q < 2 ^ 255"
  shows "to_string256_loop q base out
    = Inr (nat_to_string (unat base) (nat (val256 q)) @ out)"
  using assms
proof (induction q base out rule: to_string256_loop.induct)
  case (1 q base out)
  note b = base_bounds [OF 1(2)]
  obtain qr where qr: "simple_uint256_divmod q
      (simple_uint256_create uint128_0 (simple_uint128_create 0 (ucast base))) = Inr qr"
    and dig: "unat (ucast (low (lo256 (mod_result256 qr))) :: u8) = nat (val256 q) mod unat base"
    and dv: "nat (val256 (div_result256 qr)) = nat (val256 q) div unat base"
    and small: "val256 (div_result256 qr) < 2 ^ 255"
    using divmod256_digit [OF 1(2,3)] by blast
  have z: "simple_uint256_is_zero (div_result256 qr) \<longleftrightarrow> nat (val256 q) < unat base"
    using dv val256_bounds [of "div_result256 qr"] b
    by (auto simp: simple_uint256_is_zero_iff unat_eq_nat_uint div_eq_0_iff nat_eq_iff
        simp del: nat_uint_eq)
  show ?case
  proof (cases "nat (val256 q) < unat base")
    case True
    then show ?thesis
      using 1(2) qr dig z
      by (simp add: to_string256_loop.simps [of q] digit_char_def
          nat_to_string.simps [of "unat base" "nat (val256 q)"] del: not_less)
  next
    case False
    have "to_string256_loop (div_result256 qr) base (''0123456789abcdef'' !
        unat (ucast (low (lo256 (mod_result256 qr))) :: u8) # out) = Inr (nat_to_string (unat base)
        (nat (val256 (div_result256 qr))) @ (''0123456789abcdef'' !
        unat (ucast (low (lo256 (mod_result256 qr))) :: u8) # out))"
      using 1(2) False z small by (intro 1(1) [OF _ qr] refl) simp_all
    then have "to_string256_loop q base out = Inr (nat_to_string (unat base)
        (nat (val256 q) div unat base) @ digit_char (nat (val256 q) mod unat base) # out)"
      using 1(2) False qr dig z dv by (simp add: to_string256_loop.simps [of q] digit_char_def)
    moreover have "\<not> unat base < 2"
      using b by (simp add: unat_eq_nat_uint del: nat_uint_eq)
    ultimately show ?thesis
      using False by (simp add: nat_to_string.simps [of "unat base" "nat (val256 q)"])
  qed
qed

lemma simple_uint256_to_string_eq:
  assumes "val256 a < 2 ^ 255"
  shows "simple_uint256_to_string a base len =
    (if base < 2 \<or> base > 16 then Inl Invalid_argument
     else Inr (pad_left len (nat_to_string (unat base) (nat (val256 a)))))"
proof -
  have "nat_to_string (unat base) 0 = ''0''" if "\<not> (base < 2 \<or> base > 16)"
    using base_bounds [OF that]
    by (subst nat_to_string.simps) (auto simp: digit_char_def unat_eq_nat_uint simp del: nat_uint_eq)
  then show ?thesis
    using assms by (cases "base < 2 \<or> base > 16")
      (auto simp: simple_uint256_to_string_def to_string256_loop_eq pad_left_def limb_simps)
qed

end
