(* ===== verification/Safe_Number.thy ===== *)
theory Safe_Number
  imports Uint256
begin

text \<open>
  The decimal numbers of \<^verbatim>\<open>safenumber.cpp\<close>: a sign, a 128 bit coefficient \<open>sn_x\<close> and a
  decimal exponent \<open>sn_e\<close>, standing for \<open>\<plusminus> sn_x * 10 ^ (- sn_e)\<close>, or not a number.
  The operations are translated first, with the exception of a division by zero as
  \<open>Inl\<close>. \<open>scaled\<close> is the number times \<open>10 ^ 16\<close>, an integer for every number in normal form;
  the arithmetic is shown to be exact on it, up to truncation after sixteen
  decimals in products, for numbers of absolute value up to \<open>10 ^ 16\<close>.
\<close>

section \<open>Definitions\<close>

record SafeNumber =
  sn_valid :: bool
  sn_sign :: bool
  sn_x :: SimpleUint128
  sn_e :: u32

text \<open>
  \<^verbatim>\<open>uint64_pow\<close> is called with base 10 only. Its table and \<^verbatim>\<open>std::pow\<close> give the exact power
  up to \<open>10 ^ 19\<close>, the largest one a \<^verbatim>\<open>uint64_t\<close> holds, and 0 for a negative exponent; beyond,
  the conversion from \<^verbatim>\<open>double\<close> is undefined behaviour.
\<close>

definition uint64_pow :: "u64 \<Rightarrow> int \<Rightarrow> u64" where
  "uint64_pow a p = (if a = 10 \<and> p < 0 then 0
     else if a = 10 \<and> p \<le> 19 then 10 ^ nat p else undefined)"

definition safe_number_zero :: SafeNumber where
  "safe_number_zero = \<lparr>sn_valid = True, sn_sign = True, sn_x = uint128_0, sn_e = 0\<rparr>"

definition safe_number_create_invalid :: SafeNumber where
  "safe_number_create_invalid = \<lparr>sn_valid = False, sn_sign = True, sn_x = uint128_0, sn_e = 0\<rparr>"

definition largest_x :: SimpleUint128 where
  "largest_x = simple_uint128_multi (simple_uint128_create 0 (uint64_pow 10 16))
     (simple_uint128_create 0 (uint64_pow 10 16))"

definition safe_number_is_valid :: "SafeNumber \<Rightarrow> bool" where
  "safe_number_is_valid a = sn_valid a"

definition safe_number_invalid :: "SafeNumber \<Rightarrow> bool" where
  "safe_number_invalid a = (\<not> sn_valid a)"

definition safe_number_is_zero :: "SafeNumber \<Rightarrow> bool" where
  "safe_number_is_zero a = (if \<not> sn_valid a then False else simple_uint128_is_zero (sn_x a))"

text \<open>\<^verbatim>\<open>simple_uint128_divmod(x, uint128_10).div_result\<close>\<close>

definition uint128_div10 :: "SimpleUint128 \<Rightarrow> SimpleUint128 result" where
  "uint128_div10 x = ebind (simple_uint128_divmod x uint128_10) (\<lambda>r. Inr (div_result r))"

text \<open>The four loops of \<^verbatim>\<open>compress_number\<close>, in its order.\<close>

lemma unat_minus_1_less: "e \<noteq> 0 \<Longrightarrow> unat (e - 1) < unat (e :: 'a :: len word)"
  by (simp add: unat_minus_one unat_gt_0)

lemma unat_plus_1_below: "count < e \<Longrightarrow> unat (count + 1) = Suc (unat (count :: u32))"
proof -
  assume "count < e"
  moreover have "unat e < 2 ^ LENGTH(32)" by (rule unsigned_less)
  ultimately show ?thesis by (simp add: word_less_nat_alt unat_word_ariths)
qed

function shrink_loop :: "SimpleUint128 \<Rightarrow> u32 \<Rightarrow> (SimpleUint128 \<times> u32) result" where
  "shrink_loop x e =
    (if simple_uint128_gt x largest_x
     then if e = 0 then Inr (x, e)
          else ebind (uint128_div10 x) (\<lambda>x. shrink_loop x (e - 1))
     else Inr (x, e))"
  by pat_completeness auto
termination
  by (relation "measure (\<lambda>(x, e). unat e)") (simp_all add: unat_minus_1_less)

function truncate_loop :: "SimpleUint128 \<Rightarrow> u32 \<Rightarrow> (SimpleUint128 \<times> u32) result" where
  "truncate_loop x count =
    (if count > 16 then ebind (uint128_div10 x) (\<lambda>x. truncate_loop x (count - 1))
     else Inr (x, count))"
  by pat_completeness auto
termination
  by (relation "measure (\<lambda>(x, count). unat count)") (auto intro!: unat_minus_1_less)

function restore_loop :: "SimpleUint128 \<Rightarrow> u32 \<Rightarrow> u32 \<Rightarrow> SimpleUint128" where
  "restore_loop x count e =
    (if count < e then restore_loop (simple_uint128_multi x uint128_10) (count + 1) e else x)"
  by pat_completeness auto
termination
  by (relation "measure (\<lambda>(x, count, e). unat e - unat count)")
    (simp_all add: unat_plus_1_below word_less_nat_alt diff_less_mono2)

function strip_loop :: "SimpleUint128 \<Rightarrow> u32 \<Rightarrow> (SimpleUint128 \<times> u32) result" where
  "strip_loop x e =
    (if simple_uint128_is_zero x then Inr (x, e)
     else ebind (uint128_div10 x) (\<lambda>q.
       if simple_uint128_eq (simple_uint128_multi q uint128_10) x \<and> e > 0
       then strip_loop q (e - 1) else Inr (x, e)))"
  by pat_completeness auto
termination
  by (relation "measure (\<lambda>(x, e). unat e)") (auto intro!: unat_minus_1_less)

declare shrink_loop.simps [simp del] truncate_loop.simps [simp del]
  restore_loop.simps [simp del] strip_loop.simps [simp del]

definition compress_number :: "SafeNumber \<Rightarrow> SafeNumber result" where
  "compress_number a =
    (if \<not> safe_number_is_valid a then Inr a
     else ebind (shrink_loop (sn_x a) (sn_e a)) (\<lambda>(x, e).
       ebind (truncate_loop x e) (\<lambda>(x, count).
       let x = restore_loop x count e
       in ebind (strip_loop x e) (\<lambda>(x, e).
       Inr (if e > 16
            then \<lparr>sn_valid = True, sn_sign = True, sn_x = uint128_0, sn_e = 0\<rparr>
            else \<lparr>sn_valid = True, sn_sign = sn_sign a, sn_x = x, sn_e = e\<rparr>)))))"

definition safe_number_create :: "bool \<Rightarrow> SimpleUint128 \<Rightarrow> u32 \<Rightarrow> SafeNumber result" where
  "safe_number_create sign x e =
     compress_number \<lparr>sn_valid = True, sn_sign = sign, sn_x = x, sn_e = e\<rparr>"

definition safe_number_create_u64 :: "bool \<Rightarrow> u64 \<Rightarrow> u32 \<Rightarrow> SafeNumber result" where
  "safe_number_create_u64 sign x e = safe_number_create sign (simple_uint128_create 0 x) e"

text \<open>The \<^verbatim>\<open>int64_t\<close> argument is an \<open>int\<close> in \<open>- 2 ^ 63 .. 2 ^ 63 - 1\<close>.\<close>

definition safe_number_create_int64 :: "int \<Rightarrow> SafeNumber result" where
  "safe_number_create_int64 value =
    (let value_uint = word_of_int (if value \<ge> 0 then value else - value) :: u64
     in compress_number \<lparr>sn_valid = True, sn_sign = (value \<ge> 0),
          sn_x = simple_uint128_create 0 value_uint, sn_e = 0\<rparr>)"

definition safe_number_create_uint128 :: "SimpleUint128 \<Rightarrow> SafeNumber result" where
  "safe_number_create_uint128 value =
     compress_number \<lparr>sn_valid = True, sn_sign = True, sn_x = value, sn_e = 0\<rparr>"

definition sn_0 :: SafeNumber where
  "sn_0 = safe_number_zero"

definition sn_nan :: SafeNumber where
  "sn_nan = safe_number_create_invalid"

text \<open>
  A \<^verbatim>\<open>char\<close> is a signed byte, \<^verbatim>\<open>c - '0'\<close> an \<^verbatim>\<open>int\<close> that the overload of
  \<^verbatim>\<open>simple_uint128_add\<close> converts to \<^verbatim>\<open>uint64_t\<close>. No character is rejected.
\<close>

definition c_int :: "char \<Rightarrow> u64" where
  "c_int c = word_of_int ((if of_char c < (128 :: int) then of_char c else of_char c - 256) - 48)"

fun parse_loop :: "string \<Rightarrow> bool \<Rightarrow> SimpleUint128 \<Rightarrow> u32 \<Rightarrow> (SimpleUint128 \<times> u32) option" where
  "parse_loop [] after_dot x e = Some (x, e)"
| "parse_loop (c # cs) after_dot x e =
    (if c = CHR ''.'' then if after_dot then None else parse_loop cs True x e
     else parse_loop cs after_dot
       (simple_uint128_add_u64 (simple_uint128_multi x uint128_10) (c_int c))
       (if after_dot then e + 1 else e))"

definition safe_number_create_str :: "string \<Rightarrow> SafeNumber result" where
  "safe_number_create_str str =
    (if str = [] then Inr sn_nan
     else if length str > 40 then Inr sn_nan
     else if str = ''NaN'' then Inr sn_nan
     else let has_sign_char = (hd str = CHR ''+'' \<or> hd str = CHR ''-'');
              result_sign = (hd str \<noteq> CHR ''-'')
          in case parse_loop (if has_sign_char then tl str else str) False uint128_0 0 of
               None \<Rightarrow> Inr sn_nan
             | Some (x, e) \<Rightarrow> safe_number_create result_sign x e)"

text \<open>The branch of \<^verbatim>\<open>safe_number_add\<close> on the signs and the aligned coefficients.\<close>

definition signed_sum ::
    "bool \<Rightarrow> SimpleUint128 \<Rightarrow> bool \<Rightarrow> SimpleUint128 \<Rightarrow> bool \<times> SimpleUint128" where
  "signed_sum a_sign ax b_sign bx =
    (if a_sign \<noteq> b_sign
     then if simple_uint128_gt ax bx then (a_sign, simple_uint128_minus ax bx)
          else if simple_uint128_eq ax bx then (True, uint128_0)
          else (b_sign, simple_uint128_minus bx ax)
     else (a_sign, simple_uint128_add ax bx))"

definition safe_number_add :: "SafeNumber \<Rightarrow> SafeNumber \<Rightarrow> SafeNumber result" where
  "safe_number_add a b =
    (if \<not> safe_number_is_valid a \<or> \<not> safe_number_is_valid b then Inr a
     else if safe_number_is_zero b then Inr a
     else if safe_number_is_zero a then Inr b
     else let max_e = max (sn_e a) (sn_e b);
              ax = simple_uint128_multi_u64 (sn_x a) (uint64_pow 10 (sint (max_e - sn_e a)));
              bx = simple_uint128_multi_u64 (sn_x b) (uint64_pow 10 (sint (max_e - sn_e b)));
              (result_sign, result_x) = signed_sum (sn_sign a) ax (sn_sign b) bx
          in safe_number_create result_sign result_x max_e)"

definition safe_number_neg :: "SafeNumber \<Rightarrow> SafeNumber result" where
  "safe_number_neg a =
    (if \<not> safe_number_is_valid a then Inr a
     else if safe_number_is_zero a then Inr a
     else safe_number_create (\<not> sn_sign a) (sn_x a) (sn_e a))"

definition safe_number_minus :: "SafeNumber \<Rightarrow> SafeNumber \<Rightarrow> SafeNumber result" where
  "safe_number_minus a b = ebind (safe_number_neg b) (\<lambda>nb. safe_number_add a nb)"

function multiply_loop :: "SimpleUint256 \<Rightarrow> u32 \<Rightarrow> (SimpleUint256 \<times> u32) result" where
  "multiply_loop abx e =
    (if \<not> simple_uint128_is_zero (hi256 abx)
     then if e = 0 then Inr (abx, e)
          else ebind (simple_uint256_divmod abx uint256_10) (\<lambda>r.
            multiply_loop (div_result256 r) (e - 1))
     else Inr (abx, e))"
  by pat_completeness auto
termination
  by (relation "measure (\<lambda>(abx, e). unat e)") (simp_all add: unat_minus_1_less)

declare multiply_loop.simps [simp del]

definition safe_number_multiply :: "SafeNumber \<Rightarrow> SafeNumber \<Rightarrow> SafeNumber result" where
  "safe_number_multiply a b =
    (if \<not> safe_number_is_valid a \<or> \<not> safe_number_is_valid b then Inr a
     else if safe_number_is_zero a \<or> safe_number_is_zero b then Inr sn_0
     else let result_sign = (sn_sign a = sn_sign b);
              ax = simple_uint256_create uint128_0 (sn_x a);
              bx = simple_uint256_create uint128_0 (sn_x b)
          in ebind (multiply_loop (simple_uint256_multi ax bx) (sn_e a + sn_e b)) (\<lambda>(abx, result_e).
             safe_number_create result_sign (lo256 abx) result_e))"

text \<open>
  The digit loop of \<^verbatim>\<open>safe_number_div\<close>. \<open>re\<close> is the \<^verbatim>\<open>int32_t\<close> variable after its
  increment, starting at 0; \<open>16 - re\<close> rounds are left at most.
\<close>

function div_loop :: "SimpleUint256 \<Rightarrow> SimpleUint256 \<Rightarrow> SimpleUint128 \<Rightarrow> int \<Rightarrow>
    (SimpleUint128 \<times> int) result" where
  "div_loop big_a big_b rx re =
    ebind (simple_uint256_divmod big_a big_b) (\<lambda>r.
      let rx = simple_uint128_add (simple_uint128_multi_u64 rx 10) (lo256 (div_result256 r));
          big_a = simple_uint256_multi (mod_result256 r) uint256_10;
          re = re + 1
      in if re < 16 \<and> simple_uint128_lt rx largest_x \<and> \<not> simple_uint256_is_zero big_a
         then div_loop big_a big_b rx re else Inr (rx, re))"
  by pat_completeness auto
termination
  by (relation "measure (\<lambda>(big_a, big_b, rx, re). nat (16 - re))") simp_all

declare div_loop.simps [simp del]

definition safe_number_div :: "SafeNumber \<Rightarrow> SafeNumber \<Rightarrow> SafeNumber result" where
  "safe_number_div a b =
    (if \<not> safe_number_is_valid a \<or> \<not> safe_number_is_valid b then Inr a
     else if safe_number_is_zero a then Inr sn_0
     else if safe_number_is_zero b then Inr sn_nan
     else let sign = (sn_sign a = sn_sign b);
              extra_e = sint (sn_e a - sn_e b);
              big_a = simple_uint256_create uint128_0 (sn_x a);
              big_b = simple_uint256_create uint128_0 (sn_x b)
          in ebind (div_loop big_a big_b uint128_0 (- 1)) (\<lambda>(rx, re).
             let (rx, re) = (if extra_e \<ge> - re then (rx, re + extra_e)
                else (simple_uint128_multi_u64 rx (uint64_pow 10 (- extra_e - re)), 0))
             in safe_number_create sign rx (word_of_int re)))"

text \<open>
  \<^verbatim>\<open>(static_cast<int64_t>(w) << 1) >> 1\<close>: the shift left drops bit 63, the arithmetic shift
  right copies bit 62 into it.
\<close>

definition drop_sign_bit :: "u64 \<Rightarrow> int" where
  "drop_sign_bit w = sint (signed_drop_bit 1 (push_bit 1 w))"

definition safe_number_to_int64 :: "SafeNumber \<Rightarrow> int result" where
  "safe_number_to_int64 a =
    (if safe_number_invalid a then Inr 0
     else if safe_number_is_zero a then Inr 0
     else if sn_e a > 0
     then ebind (simple_uint128_divmod (sn_x a)
            (simple_uint128_create 0 (uint64_pow 10 (sint (sn_e a))))) (\<lambda>r.
          let tmp = drop_sign_bit (low (div_result r))
          in Inr (if sn_sign a then tmp else - tmp))
     else let tmp = drop_sign_bit (low (sn_x a)) in Inr (if sn_sign a then tmp else - tmp))"

definition safe_number_to_int64_floor :: "SafeNumber \<Rightarrow> int result" where
  "safe_number_to_int64_floor a =
    (if safe_number_invalid a then Inr 0
     else if safe_number_is_zero a then Inr 0
     else if sn_e a > 0
     then ebind (simple_uint128_divmod (sn_x a)
            (simple_uint128_create 0 (uint64_pow 10 (sint (sn_e a))))) (\<lambda>r.
          let tmp = drop_sign_bit (low (div_result r))
          in if simple_uint128_is_zero (mod_result r)
             then Inr (if sn_sign a then tmp else - tmp)
             else Inr (if sn_sign a then tmp else - tmp - 1))
     else let tmp = drop_sign_bit (low (sn_x a)) in Inr (if sn_sign a then tmp else - tmp))"

definition safe_number_idiv :: "SafeNumber \<Rightarrow> SafeNumber \<Rightarrow> SafeNumber result" where
  "safe_number_idiv a b =
    ebind (safe_number_div a b) (\<lambda>div_result.
    ebind (safe_number_to_int64 div_result) (\<lambda>div_result_int.
      if sn_sign div_result then safe_number_create_int64 div_result_int
      else safe_number_create_int64 (div_result_int - 1)))"

definition safe_number_mod :: "SafeNumber \<Rightarrow> SafeNumber \<Rightarrow> SafeNumber result" where
  "safe_number_mod a b =
    ebind (safe_number_idiv a b) (\<lambda>div_result.
    ebind (safe_number_multiply b div_result) (\<lambda>p. safe_number_minus a p))"

definition safe_number_abs :: "SafeNumber \<Rightarrow> SafeNumber result" where
  "safe_number_abs a = (if sn_sign a then Inr a else safe_number_neg a)"

definition safe_number_to_string :: "SafeNumber \<Rightarrow> string result" where
  "safe_number_to_string a =
    ebind (compress_number a) (\<lambda>val.
      if \<not> safe_number_is_valid val then Inr ''NaN''
      else if safe_number_is_zero val then Inr ''0''
      else ebind (simple_uint128_divmod (sn_x val)
             (simple_uint128_create 0 (uint64_pow 10 (sint (sn_e val))))) (\<lambda>pq.
           ebind (simple_uint128_to_string (div_result pq) 10 0) (\<lambda>p.
           ebind (if \<not> simple_uint128_is_zero (mod_result pq)
                  then ebind (simple_uint128_to_string (mod_result pq) 10 (unat (sn_e val))) (\<lambda>d.
                    Inr (''.'' @ d))
                  else Inr '''') (\<lambda>q.
           Inr ((if \<not> sn_sign val then ''-'' else '''') @ p @ q)))))"

definition safe_number_eq :: "SafeNumber \<Rightarrow> SafeNumber \<Rightarrow> bool" where
  "safe_number_eq a b =
    (if safe_number_invalid a \<or> safe_number_invalid b then False
     else sn_sign a = sn_sign b \<and> simple_uint128_eq (sn_x a) (sn_x b) \<and> sn_e a = sn_e b)"

definition safe_number_ne :: "SafeNumber \<Rightarrow> SafeNumber \<Rightarrow> bool" where
  "safe_number_ne a b =
    (if safe_number_invalid a \<or> safe_number_invalid b then False else \<not> safe_number_eq a b)"

definition safe_number_gt :: "SafeNumber \<Rightarrow> SafeNumber \<Rightarrow> bool result" where
  "safe_number_gt a b =
    (if safe_number_invalid a \<or> safe_number_invalid b then Inr False
     else if sn_sign a \<noteq> sn_sign b then Inr (sn_sign a)
     else ebind (simple_uint128_divmod (sn_x a)
            (simple_uint128_create 0 (uint64_pow 10 (sint (sn_e a))))) (\<lambda>a_divmod.
          ebind (simple_uint128_divmod (sn_x b)
            (simple_uint128_create 0 (uint64_pow 10 (sint (sn_e b))))) (\<lambda>b_divmod.
          if simple_uint128_gt (div_result a_divmod) (div_result b_divmod) then Inr (sn_sign a)
          else if simple_uint128_lt (div_result a_divmod) (div_result b_divmod)
          then Inr (\<not> sn_sign a)
          else let ra = mod_result a_divmod; rb = mod_result b_divmod;
                   rb = (if sn_e a > sn_e b
                     then simple_uint128_multi_u64 rb (uint64_pow 10 (sint (sn_e a - sn_e b))) else rb);
                   ra = (if sn_e a < sn_e b
                     then simple_uint128_multi_u64 ra (uint64_pow 10 (sint (sn_e b - sn_e a))) else ra)
               in if simple_uint128_eq ra rb then Inr False
                  else if simple_uint128_gt ra rb then Inr (sn_sign a)
                  else Inr (\<not> sn_sign a))))"

text \<open>The comparison operators short-circuit: \<^verbatim>\<open>eq || gt\<close>.\<close>

definition safe_number_gte :: "SafeNumber \<Rightarrow> SafeNumber \<Rightarrow> bool result" where
  "safe_number_gte a b = (if safe_number_eq a b then Inr True else safe_number_gt a b)"

definition safe_number_lt :: "SafeNumber \<Rightarrow> SafeNumber \<Rightarrow> bool result" where
  "safe_number_lt left right = safe_number_gt right left"

definition safe_number_lte :: "SafeNumber \<Rightarrow> SafeNumber \<Rightarrow> bool result" where
  "safe_number_lte a b = (if safe_number_eq a b then Inr True else safe_number_lt a b)"

section \<open>Compression\<close>

text \<open>\<open>compress_number\<close> over natural numbers: coefficient and exponent of the result.\<close>

abbreviation nat128 :: "SimpleUint128 \<Rightarrow> nat" where
  "nat128 x \<equiv> nat (val128 x)"

lemma nat128_less: "nat128 x < 2 ^ 128"
  using val128_bounds [of x] by (simp add: nat_less_iff)

lemma nat128_inj: "nat128 x = nat128 y \<longleftrightarrow> x = y"
  using val128_bounds [of x] val128_bounds [of y] by (simp add: eq_nat_nat_iff val128_inj)

lemma nat128_multi: "nat128 (simple_uint128_multi a b) = (nat128 a * nat128 b) mod 2 ^ 128"
  using val128_bounds [of a] val128_bounds [of b]
  by (simp add: val128_multi nat_mod_distrib nat_mult_distrib)

lemma nat128_consts [simp]: "nat128 uint128_0 = 0" "nat128 uint128_10 = 10"
  by (simp_all add: val128_consts)

lemma uint64_pow_10: "0 \<le> p \<Longrightarrow> p \<le> 19 \<Longrightarrow> uint (uint64_pow 10 p) = 10 ^ nat p"
proof -
  assume p: "0 \<le> p" "p \<le> 19"
  then have "(10 :: int) ^ nat p \<le> 10 ^ 19" by (intro power_increasing) simp_all
  moreover have "uint (word_of_int (10 ^ nat p) :: u64) = 10 ^ nat p mod 2 ^ 64"
    by (simp only: uint_word_of_int) simp
  ultimately have "uint (10 ^ nat p :: u64) = 10 ^ nat p" by simp
  then show ?thesis using p by (simp add: uint64_pow_def)
qed

lemma nat128_largest_x: "nat128 largest_x = 10 ^ 32"
  by (simp add: largest_x_def val128_multi val128_create uint64_pow_10)

lemma uint128_div10_eq: "\<exists>q. uint128_div10 x = Inr q \<and> nat128 q = nat128 x div 10"
  using divmod128 [of uint128_10 x] val128_bounds [of x]
  by (auto simp: uint128_div10_def val128_consts nat_div_distrib)

fun shrink :: "nat \<Rightarrow> nat \<Rightarrow> nat \<times> nat" where
  "shrink x 0 = (x, 0)"
| "shrink x (Suc e) = (if x > 10 ^ 32 then shrink (x div 10) e else (x, Suc e))"

fun strip :: "nat \<Rightarrow> nat \<Rightarrow> nat \<times> nat" where
  "strip x 0 = (x, 0)"
| "strip x (Suc e) = (if x \<noteq> 0 \<and> 10 dvd x then strip (x div 10) e else (x, Suc e))"

definition compress :: "nat \<Rightarrow> nat \<Rightarrow> nat \<times> nat" where
  "compress x e =
    (let (x1, e1) = shrink x e
     in if e1 \<le> 16 then strip x1 e1
        else if x1 div 10 ^ (e1 - 16) = 0 then (0, 0)
        else strip (x1 div 10 ^ (e1 - 16)) 16)"

definition vanishes :: "nat \<Rightarrow> nat \<Rightarrow> bool" where
  "vanishes x e \<longleftrightarrow> (let (x1, e1) = shrink x e in e1 > 16 \<and> x1 div 10 ^ (e1 - 16) = 0)"

lemma unat_pred: "e \<noteq> 0 \<Longrightarrow> unat (e :: u32) = Suc (unat (e - 1))"
  by (simp add: unat_minus_one unat_gt_0)

lemma gt_largest_x: "simple_uint128_gt x largest_x \<longleftrightarrow> nat128 x > 10 ^ 32"
proof -
  have "val128 largest_x = 10 ^ 32"
    using nat128_largest_x val128_bounds [of largest_x] by (simp add: nat_eq_iff)
  then show ?thesis
    using val128_bounds [of x] by (simp add: simple_uint128_gt_iff zless_nat_eq_int_zless)
qed

lemma shrink_loop_eq:
  "\<exists>x' e'. shrink_loop x e = Inr (x', e') \<and> (nat128 x', unat e') = shrink (nat128 x) (unat e)"
proof (induction x e rule: shrink_loop.induct)
  case (1 x e)
  obtain q where q: "uint128_div10 x = Inr q" "nat128 q = nat128 x div 10"
    using uint128_div10_eq [of x] by blast
  show ?case
  proof (cases "nat128 x > 10 ^ 32 \<and> e \<noteq> 0")
    case True
    then show ?thesis
      using 1 [OF _ _ q(1)] q unat_pred [of e]
      by (simp add: shrink_loop.simps [of x] gt_largest_x)
  next
    case False
    then show ?thesis
      by (cases "unat e") (auto simp: shrink_loop.simps [of x] gt_largest_x unat_eq_0)
  qed
qed

lemma truncate_loop_eq:
  "\<exists>x'. truncate_loop x e = Inr (x', min e 16) \<and> nat128 x' = nat128 x div 10 ^ (unat e - 16)"
proof (induction x e rule: truncate_loop.induct)
  case (1 x e)
  obtain q where q: "uint128_div10 x = Inr q" "nat128 q = nat128 x div 10"
    using uint128_div10_eq [of x] by blast
  show ?case
  proof (cases "e > 16")
    case True
    then have "unat (e - 1) = unat e - 1" "unat e > 16"
      using unat_pred [of e] by (auto simp: word_less_nat_alt unat_gt_0 [symmetric])
    then have s: "unat e - 16 = Suc (unat (e - 1) - 16)" and "e - 1 \<ge> 16"
      by (simp_all add: word_le_nat_alt)
    then have "min (e - 1) 16 = min e 16"
      using True by simp
    then show ?thesis
      using 1 [OF True q(1)] True q s by (auto simp: truncate_loop.simps [of x] div_mult2_eq)
  next
    case False
    then show ?thesis
      by (simp add: truncate_loop.simps [of x] word_less_nat_alt min_def) (simp add: word_le_nat_alt)
  qed
qed

lemma restore_loop_eq:
  assumes "nat128 x * 10 ^ (unat e - unat count) < 2 ^ 128"
  shows "nat128 (restore_loop x count e) = nat128 x * 10 ^ (unat e - unat count)"
  using assms
proof (induction x count e rule: restore_loop.induct)
  case (1 x count e)
  show ?case
  proof (cases "count < e")
    case True
    have s: "unat e - unat count = Suc (unat e - unat (count + 1))"
      using unat_plus_1_below [OF True] True by (simp add: word_less_nat_alt)
    have le: "nat128 x * 10 \<le> nat128 x * 10 ^ (unat e - unat count)"
      unfolding s by simp
    then have "nat128 x * 10 < 2 ^ 128" using 1(2) by linarith
    then have m: "nat128 (simple_uint128_multi x uint128_10) = nat128 x * 10"
      by (simp add: nat128_multi)
    show ?thesis
      using 1(1) [OF True] 1(2) m True s by (simp add: restore_loop.simps [of x] mult.assoc)
  qed (simp add: restore_loop.simps [of x] word_less_nat_alt)
qed

lemma strip_loop_eq:
  "\<exists>x' e'. strip_loop x e = Inr (x', e') \<and> (nat128 x', unat e') = strip (nat128 x) (unat e)"
proof (induction x e rule: strip_loop.induct)
  case (1 x e)
  obtain q where q: "uint128_div10 x = Inr q" "nat128 q = nat128 x div 10"
    using uint128_div10_eq [of x] by blast
  have "nat128 q * 10 \<le> nat128 x" using q(2) by simp
  then have "nat128 (simple_uint128_multi q uint128_10) = nat128 q * 10"
    using nat128_less [of x] by (simp add: nat128_multi)
  then have dvd: "simple_uint128_eq (simple_uint128_multi q uint128_10) x \<longleftrightarrow> 10 dvd nat128 x"
    unfolding simple_uint128_eq_iff val128_inj nat128_inj [symmetric] q(2)
    by (metis dvd_div_mult_self dvd_triv_right)
  have z: "simple_uint128_is_zero x \<longleftrightarrow> nat128 x = 0"
    using val128_bounds [of x] by (auto simp: simple_uint128_is_zero_iff)
  show ?case
  proof (cases "nat128 x \<noteq> 0 \<and> 10 dvd nat128 x \<and> e \<noteq> 0")
    case True
    then show ?thesis
      using 1 [OF _ q(1)] q unat_pred [of e] dvd z
      by (simp add: strip_loop.simps [of x] word_gt_0)
  next
    case False
    then show ?thesis
      using q dvd z by (cases "unat e") (auto simp: strip_loop.simps [of x] word_gt_0 unat_eq_0)
  qed
qed


lemma strip_value: "fst (strip x e) * 10 ^ (e - snd (strip x e)) = x"
  "snd (strip x e) \<le> e"
  "fst (strip x e) \<noteq> 0 \<Longrightarrow> snd (strip x e) = 0 \<or> \<not> 10 dvd fst (strip x e)"
  "fst (strip x e) \<le> x"
  "x = 0 \<Longrightarrow> strip x e = (x, e)"
proof (induction x e rule: strip.induct)
  case (2 x e)
  {
    case 1
    show ?case
    proof (cases "x \<noteq> 0 \<and> 10 dvd x")
      case True
      have "Suc e - snd (strip (x div 10) e) = Suc (e - snd (strip (x div 10) e))"
        using 2(2) [OF True] by simp
      then show ?thesis using 2(1) [OF True] True by (auto simp: mult.left_commute)
    qed auto
  next
    case 2
    then show ?case using "2.IH"(2) by (auto intro: le_SucI)
  next
    case 3
    then show ?case using "2.IH"(3) by (auto split: if_splits)
  next
    case 4
    then show ?case using "2.IH"(4) by (auto intro: le_trans [OF _ div_le_dividend])
  next
    case 5
    then show ?case by simp
  }
qed simp_all

lemma shrink_value: "fst (shrink x e) = x div 10 ^ (e - snd (shrink x e))"
  "snd (shrink x e) \<le> e" "snd (shrink x e) = 0 \<or> fst (shrink x e) \<le> 10 ^ 32"
proof (induction x e rule: shrink.induct)
  case (2 x e)
  {
    case 1
    show ?case
    proof (cases "x > 10 ^ 32")
      case True
      have "Suc e - snd (shrink (x div 10) e) = Suc (e - snd (shrink (x div 10) e))"
        using 2(2) [OF True] by simp
      then show ?thesis using 2(1) [OF True] True by (simp add: div_mult2_eq)
    qed auto
  next
    case 2
    then show ?case using "2.IH"(2) by (auto intro: le_SucI)
  next
    case 3
    then show ?case using "2.IH"(3) by (auto split: if_splits)
  }
qed simp_all


lemma strip_shift: "y \<noteq> 0 \<Longrightarrow> strip (y * 10 ^ k) (m + k) = strip y m"
  by (induction k) simp_all

text \<open>The compression of a number always returns, with the result of \<open>compress\<close>.\<close>

lemma compress_number_eq:
  assumes "sn_valid a"
  shows "\<exists>r. compress_number a = Inr r \<and> sn_valid r
    \<and> (nat128 (sn_x r), unat (sn_e r)) = compress (nat128 (sn_x a)) (unat (sn_e a))
    \<and> sn_sign r = (sn_sign a \<or> vanishes (nat128 (sn_x a)) (unat (sn_e a)))"
proof -
  obtain x1 e1 where s: "shrink_loop (sn_x a) (sn_e a) = Inr (x1, e1)"
      "shrink (nat128 (sn_x a)) (unat (sn_e a)) = (nat128 x1, unat e1)"
    using shrink_loop_eq [of "sn_x a" "sn_e a"] by auto
  obtain t where t: "truncate_loop x1 e1 = Inr (t, min e1 16)"
      "nat128 t = nat128 x1 div 10 ^ (unat e1 - 16)"
    using truncate_loop_eq [of x1 e1] by blast
  have k: "unat e1 - unat (min e1 16) = unat e1 - 16"
    by (simp add: min_def word_le_nat_alt)
  have "nat128 t * 10 ^ (unat e1 - 16) \<le> nat128 x1"
    using t(2) by simp
  then have "nat128 t * 10 ^ (unat e1 - 16) < 2 ^ 128"
    using nat128_less [of x1] by linarith
  then have r: "nat128 (restore_loop t (min e1 16) e1) = nat128 t * 10 ^ (unat e1 - 16)"
    using restore_loop_eq [of t e1 "min e1 16"] k by simp
  obtain x2 e2 where p: "strip_loop (restore_loop t (min e1 16) e1) e1 = Inr (x2, e2)"
      "(nat128 x2, unat e2) = strip (nat128 t * 10 ^ (unat e1 - 16)) (unat e1)"
    using strip_loop_eq [of "restore_loop t (min e1 16) e1" e1] r by auto
  have e2: "e2 > 16 \<longleftrightarrow> unat e2 > 16" by (simp add: word_less_nat_alt)
  consider "unat e1 \<le> 16" | "unat e1 > 16" "nat128 t = 0" | "unat e1 > 16" "nat128 t \<noteq> 0" by linarith
  then show ?thesis
  proof cases
    case 1
    then have "(nat128 x2, unat e2) = strip (nat128 x1) (unat e1)"
      using p(2) t(2) by simp
    moreover from this have "unat e2 \<le> 16"
      using 1 strip_value(2) [of "nat128 x1" "unat e1"] by (metis le_trans snd_conv)
    ultimately show ?thesis
      using assms s t(1) p(1) 1 e2
      by (simp add: compress_number_def safe_number_is_valid_def compress_def vanishes_def)
  next
    case 2
    then have "unat e2 > 16" using p(2) strip_value(5) by simp
    then show ?thesis
      using assms s t p(1) 2 e2
      by (simp add: compress_number_def safe_number_is_valid_def compress_def vanishes_def val128_consts)
  next
    case 3
    then have "(nat128 x2, unat e2) = strip (nat128 t) 16"
      using p(2) strip_shift [of "nat128 t" "unat e1 - 16" 16] by simp
    moreover from this have "unat e2 \<le> 16"
      using strip_value(2) [of "nat128 t" 16] by (metis snd_conv)
    ultimately show ?thesis
      using assms s t p(1) 3 e2
      by (simp add: compress_number_def safe_number_is_valid_def compress_def vanishes_def)
  qed
qed


definition trunc16 :: "nat \<Rightarrow> nat \<Rightarrow> nat" where
  "trunc16 x e = x * 10 ^ 16 div 10 ^ e"

lemma trunc16_le: "e \<le> 16 \<Longrightarrow> trunc16 x e = x * 10 ^ (16 - e)"
proof -
  assume "e \<le> 16"
  then have "(10 :: nat) ^ 16 = 10 ^ (16 - e) * 10 ^ e" by (simp flip: power_add)
  then show ?thesis by (simp add: trunc16_def mult.assoc [symmetric] del: power_numeral)
qed

lemma trunc16_ge: "16 \<le> e \<Longrightarrow> trunc16 x e = x div 10 ^ (e - 16)"
proof -
  assume "16 \<le> e"
  then have "(10 :: nat) ^ e = 10 ^ (e - 16) * 10 ^ 16" by (subst power_add [symmetric]) simp
  then show ?thesis by (simp only: trunc16_def) (simp add: div_mult_mult2)
qed

lemma shrink_stop: "x \<le> 10 ^ (16 + e) \<Longrightarrow> snd (shrink x e) = e \<or> 16 \<le> snd (shrink x e)"
proof (induction x e rule: shrink.induct)
  case (2 x e)
  show ?case
  proof (cases "x > 10 ^ 32")
    case True
    have "x div 10 \<le> 10 ^ (17 + e) div 10"
      using 2(2) by (intro div_le_mono) simp
    also have "(10 :: nat) ^ (17 + e) = 10 ^ (16 + e) * 10" by (simp add: power_add)
    finally have "x div 10 \<le> 10 ^ (16 + e)" by simp
    then have "snd (shrink (x div 10) e) = e \<or> 16 \<le> snd (shrink (x div 10) e)"
      using 2(1) [OF True] by simp
    moreover have "16 \<le> e"
    proof (rule ccontr)
      assume "\<not> 16 \<le> e"
      then have "(10 :: nat) ^ (17 + e) \<le> 10 ^ 32" by (intro power_increasing) simp_all
      then show False using True 2(2) by simp
    qed
    ultimately show ?thesis using True by auto
  qed simp
qed simp

lemma strip_scaled: "e \<le> 16 \<Longrightarrow> fst (strip x e) * 10 ^ (16 - snd (strip x e)) = x * 10 ^ (16 - e)"
proof -
  assume e: "e \<le> 16"
  have "16 - snd (strip x e) = (e - snd (strip x e)) + (16 - e)"
    using e strip_value(2) [of x e] by simp
  then show ?thesis using strip_value(1) [of x e] by (simp add: power_add mult.assoc [symmetric])
qed

text \<open>Compression truncates after sixteen decimals, and does nothing else to numbers up to \<open>10 ^ 16\<close>.\<close>

lemma compress_exact:
  assumes "x \<le> 10 ^ (16 + e)"
  shows "fst (compress x e) * 10 ^ (16 - snd (compress x e)) = trunc16 x e"
proof -
  obtain x1 e1 where s: "shrink x e = (x1, e1)" by fastforce
  then have x1: "x1 = x div 10 ^ (e - e1)" and e1: "e1 \<le> e" and stop: "e1 = e \<or> 16 \<le> e1"
    using shrink_value [of x e] shrink_stop [OF assms] by simp_all
  have big: "x1 div 10 ^ (e1 - 16) = x div 10 ^ (e - 16)" if "16 \<le> e1"
    using that e1 by (simp add: x1 div_mult2_eq [symmetric] power_add [symmetric])
  consider "e1 = e" "e \<le> 16" | "e1 = 16" "16 \<le> e" | "e1 > 16" using stop e1 by linarith
  then show ?thesis
  proof cases
    case 1
    then show ?thesis using s x1 strip_scaled [of e x] by (simp add: compress_def trunc16_le)
  next
    case 2
    then show ?thesis using s big strip_scaled [of 16 x1] by (simp add: compress_def trunc16_ge)
  next
    case 3
    then show ?thesis
      using s e1 big strip_scaled [of 16 "x div 10 ^ (e - 16)"]
      by (auto simp: compress_def trunc16_ge)
  qed
qed

definition normal :: "nat \<Rightarrow> nat \<Rightarrow> bool" where
  "normal x e \<longleftrightarrow> e \<le> 16 \<and> (x = 0 \<or> e = 0 \<or> \<not> 10 dvd x) \<and> (e = 0 \<or> x \<le> 10 ^ 32)"

lemma compress_normal: "normal (fst (compress x e)) (snd (compress x e))"
proof -
  obtain x1 e1 where s: "shrink x e = (x1, e1)" by fastforce
  then have x1: "e1 = 0 \<or> x1 \<le> 10 ^ 32"
    using shrink_value(3) [of x e] by simp
  have y: "x1 div 10 ^ (e1 - 16) \<le> 10 ^ 32" if "e1 > 16"
    using x1 that by (auto intro: le_trans [OF div_le_dividend])
  show ?thesis
    using s x1 y strip_value [of x1 e1] strip_value [of "x1 div 10 ^ (e1 - 16)" 16]
    by (auto simp: compress_def normal_def intro: le_trans)
qed

lemma compress_id: "normal x e \<Longrightarrow> compress x e = (x, e) \<and> \<not> vanishes x e"
proof -
  assume n: "normal x e"
  then have s: "shrink x e = (x, e)" by (cases e) (auto simp: normal_def)
  have "strip x e = (x, e)" using n by (cases e) (auto simp: normal_def)
  then show ?thesis using s n by (simp add: compress_def vanishes_def normal_def)
qed


section \<open>Values\<close>

definition sn_normal :: "SafeNumber \<Rightarrow> bool" where
  "sn_normal a \<longleftrightarrow> sn_valid a \<and> normal (nat128 (sn_x a)) (unat (sn_e a))"

definition magnitude :: "SafeNumber \<Rightarrow> nat" where
  "magnitude a = nat128 (sn_x a) * 10 ^ (16 - unat (sn_e a))"

definition scaled :: "SafeNumber \<Rightarrow> int" where
  "scaled a = (if sn_sign a then int (magnitude a) else - int (magnitude a))"

lemma safe_number_is_zero_iff: "sn_valid a \<Longrightarrow> safe_number_is_zero a \<longleftrightarrow> magnitude a = 0"
  using val128_bounds [of "sn_x a"]
  by (auto simp: safe_number_is_zero_def simple_uint128_is_zero_iff magnitude_def)

lemma sn_normal_e: "sn_normal a \<Longrightarrow> unat (sn_e a) \<le> 16"
  by (simp add: sn_normal_def normal_def)

lemma safe_number_create_eq:
  "\<exists>r. safe_number_create s x e = Inr r \<and> sn_normal r
    \<and> (nat128 (sn_x r), unat (sn_e r)) = compress (nat128 x) (unat e)
    \<and> sn_sign r = (s \<or> vanishes (nat128 x) (unat e))
    \<and> (nat128 x \<le> 10 ^ (16 + unat e) \<longrightarrow>
         magnitude r = trunc16 (nat128 x) (unat e)
         \<and> scaled r = (if s then 1 else - 1) * int (trunc16 (nat128 x) (unat e)))"
proof -
  obtain r where r: "safe_number_create s x e = Inr r" "sn_valid r"
      "(nat128 (sn_x r), unat (sn_e r)) = compress (nat128 x) (unat e)"
      "sn_sign r = (s \<or> vanishes (nat128 x) (unat e))"
    using compress_number_eq [of "\<lparr>sn_valid = True, sn_sign = s, sn_x = x, sn_e = e\<rparr>"]
    by (auto simp: safe_number_create_def)
  have n: "sn_normal r"
    using compress_normal [of "nat128 x" "unat e"] r(2)
    unfolding sn_normal_def r(3) [symmetric] fst_conv snd_conv by simp
  have "magnitude r = trunc16 (nat128 x) (unat e)" if "nat128 x \<le> 10 ^ (16 + unat e)"
    using compress_exact [OF that] unfolding magnitude_def r(3) [symmetric] fst_conv snd_conv .
  moreover have "magnitude r = 0" if "vanishes (nat128 x) (unat e)"
    using that r(3) by (auto simp: vanishes_def compress_def magnitude_def split: prod.splits)
  ultimately show ?thesis
    using r n by (auto simp: scaled_def)
qed

lemma safe_number_create_id:
  assumes "sn_normal a"
  shows "safe_number_create (sn_sign a) (sn_x a) (sn_e a) = Inr a"
proof -
  obtain r where r: "safe_number_create (sn_sign a) (sn_x a) (sn_e a) = Inr r" "sn_normal r"
      "(nat128 (sn_x r), unat (sn_e r)) = compress (nat128 (sn_x a)) (unat (sn_e a))"
      "sn_sign r = (sn_sign a \<or> vanishes (nat128 (sn_x a)) (unat (sn_e a)))"
    using safe_number_create_eq by blast
  have "compress (nat128 (sn_x a)) (unat (sn_e a)) = (nat128 (sn_x a), unat (sn_e a))"
    "\<not> vanishes (nat128 (sn_x a)) (unat (sn_e a))"
    using assms compress_id by (simp_all add: sn_normal_def)
  then have "nat128 (sn_x r) = nat128 (sn_x a)" "unat (sn_e r) = unat (sn_e a)"
    "sn_sign r = sn_sign a" "sn_valid r = sn_valid a"
    using r assms by (simp_all add: sn_normal_def)
  then have "r = a"
    unfolding nat128_inj by (cases r; cases a) (simp add: word_unat_eq_iff)
  then show ?thesis using r(1) by simp
qed

section \<open>Sums and differences\<close>

lemma sint_small: "unat (w :: u32) < 2 ^ 31 \<Longrightarrow> sint w = int (unat w)"
proof -
  assume "unat w < 2 ^ 31"
  then have "int (unat w) < 2 ^ 31" by (simp only: of_nat_less_numeral_power_cancel_iff)
  then have "uint w < 2 ^ 31" by simp
  moreover have "- (2 ^ 31) \<le> uint w" by (rule order_trans [OF _ uint_ge_0]) simp
  ultimately show ?thesis by (simp add: sint_uint signed_take_bit_int_eq_self)
qed

lemma sint_diff_small:
  assumes "unat (e :: u32) \<le> 16" "e' \<le> e"
  shows "sint (e - e') = int (unat e - unat e')"
proof -
  have "unat (e - e') = unat e - unat e'" using assms(2) by (rule unat_sub)
  then show ?thesis using assms(1) by (subst sint_small) simp_all
qed

text \<open>The coefficient brought to a larger exponent.\<close>

definition aligned :: "SafeNumber \<Rightarrow> nat \<Rightarrow> nat" where
  "aligned a m = nat128 (sn_x a) * 10 ^ (m - unat (sn_e a))"

lemma aligned_magnitude:
  assumes "unat (sn_e a) \<le> m" "m \<le> 16"
  shows "aligned a m * 10 ^ (16 - m) = magnitude a"
proof -
  have "16 - unat (sn_e a) = (m - unat (sn_e a)) + (16 - m)" using assms by simp
  then show ?thesis by (simp add: aligned_def magnitude_def power_add mult.assoc)
qed

lemma aligned_le: "unat (sn_e a) \<le> m \<Longrightarrow> m \<le> 16 \<Longrightarrow> aligned a m \<le> magnitude a"
  by (subst aligned_magnitude [of a m, symmetric]) simp_all

lemma nat128_multi_u64: "nat128 (simple_uint128_multi_u64 x w) = (nat128 x * unat w) mod 2 ^ 128"
proof -
  have "nat128 (simple_uint128_create 0 w) = unat w" by (simp add: val128_create)
  then show ?thesis by (simp only: simple_uint128_multi_u64_def nat128_multi)
qed

lemma unat_uint64_pow: "n \<le> 19 \<Longrightarrow> unat (uint64_pow 10 (int n)) = 10 ^ n"
  using uint64_pow_10 [of "int n"] by (simp add: unat_eq_nat_uint nat_power_eq del: nat_uint_eq)

lemma nat128_align:
  assumes "sn_normal a" "sn_e a \<le> m" "unat m \<le> 16" "magnitude a < 2 ^ 128"
  shows "nat128 (simple_uint128_multi_u64 (sn_x a) (uint64_pow 10 (sint (m - sn_e a))))
    = aligned a (unat m)"
proof -
  have "aligned a (unat m) < 2 ^ 128"
    using aligned_le [of a "unat m"] assms by (simp add: word_le_nat_alt)
  then show ?thesis
    using assms(3) by (simp add: sint_diff_small [OF assms(3,2)] nat128_multi_u64 unat_uint64_pow
        aligned_def)
qed


definition with_sign :: "bool \<Rightarrow> int \<Rightarrow> int" where
  "with_sign s v = (if s then v else - v)"

lemma scaled_with_sign: "scaled a = with_sign (sn_sign a) (int (magnitude a))"
  by (simp add: scaled_def with_sign_def)

lemma with_sign_mult: "with_sign s (v * k) = with_sign s v * k"
  by (simp add: with_sign_def)

lemma signed_sum_val:
  assumes "val128 ax + val128 bx < 2 ^ 128" "signed_sum sa ax sb bx = (s, x)"
  shows "with_sign s (val128 x) = with_sign sa (val128 ax) + with_sign sb (val128 bx)"
    and "val128 x \<le> val128 ax + val128 bx"
proof -
  note bounds = val128_bounds(1) [of ax] val128_bounds(1) [of bx]
  have sub: "val128 (simple_uint128_minus p q) = val128 p - val128 q"
    if "val128 q < val128 p" for p q
    using that val128_bounds [of p] val128_bounds [of q] by (simp add: val128_minus)
  have add: "val128 (simple_uint128_add ax bx) = val128 ax + val128 bx"
    using assms(1) bounds by (simp add: val128_add)
  consider "sa = sb" | "sa \<noteq> sb" "val128 bx < val128 ax" | "sa \<noteq> sb" "val128 ax = val128 bx"
    | "sa \<noteq> sb" "val128 ax < val128 bx" by linarith
  then have "with_sign s (val128 x) = with_sign sa (val128 ax) + with_sign sb (val128 bx)
      \<and> val128 x \<le> val128 ax + val128 bx"
    using assms(2) bounds
    by cases (auto simp: signed_sum_def simple_uint128_gt_iff simple_uint128_eq_iff val128_consts
        with_sign_def sub add)
  then show "with_sign s (val128 x) = with_sign sa (val128 ax) + with_sign sb (val128 bx)"
    and "val128 x \<le> val128 ax + val128 bx" by blast+
qed

lemma scaled_aligned:
  assumes "unat (sn_e a) \<le> m" "m \<le> 16"
  shows "scaled a = with_sign (sn_sign a) (int (aligned a m)) * 10 ^ (16 - m)"
  unfolding scaled_with_sign aligned_magnitude [OF assms, symmetric]
  by (simp add: with_sign_def)

text \<open>Two coefficients brought to a common exponent stay below the bound of \<open>compress_exact\<close>.\<close>

lemma aligned_sum_bound:
  assumes "unat (sn_e a) \<le> m" "unat (sn_e b) \<le> m" "m \<le> 16" "magnitude a + magnitude b \<le> 10 ^ 32"
  shows "aligned a m + aligned b m \<le> 10 ^ (16 + m)"
proof -
  have "(aligned a m + aligned b m) * 10 ^ (16 - m) \<le> 10 ^ 32"
    using assms by (simp add: distrib_right aligned_magnitude)
  also have "(10 :: nat) ^ 32 = 10 ^ (16 + m) * 10 ^ (16 - m)"
    using assms(3) by (subst power_add [symmetric]) simp
  finally show ?thesis by simp
qed

lemma safe_number_add_zero:
  assumes "sn_normal a" "sn_normal b" "magnitude a = 0 \<or> magnitude b = 0"
  shows "\<exists>r. safe_number_add a b = Inr r \<and> sn_normal r \<and> scaled r = scaled a + scaled b"
proof (cases "magnitude b = 0")
  case True
  then have "safe_number_add a b = Inr a"
    using assms(1,2)
    by (simp add: safe_number_add_def safe_number_is_valid_def safe_number_is_zero_iff sn_normal_def)
  then show ?thesis using True assms(1) by (simp add: scaled_def)
next
  case False
  then have "safe_number_add a b = Inr b"
    using assms
    by (simp add: safe_number_add_def safe_number_is_valid_def safe_number_is_zero_iff sn_normal_def)
  then show ?thesis using False assms(2,3) by (simp add: scaled_def)
qed

lemma safe_number_add_exact:
  assumes "sn_normal a" "sn_normal b" "magnitude a + magnitude b \<le> 10 ^ 32"
  shows "\<exists>r. safe_number_add a b = Inr r \<and> sn_normal r \<and> scaled r = scaled a + scaled b"
proof (cases "magnitude a = 0 \<or> magnitude b = 0")
  case True
  then show ?thesis by (rule safe_number_add_zero [OF assms(1,2)])
next
  case False
  define m where "m = max (sn_e a) (sn_e b)"
  define ax where "ax = simple_uint128_multi_u64 (sn_x a) (uint64_pow 10 (sint (m - sn_e a)))"
  define bx where "bx = simple_uint128_multi_u64 (sn_x b) (uint64_pow 10 (sint (m - sn_e b)))"
  obtain s x where sx: "signed_sum (sn_sign a) ax (sn_sign b) bx = (s, x)" by fastforce
  have m: "sn_e a \<le> m" "sn_e b \<le> m" "unat m \<le> 16"
    using sn_normal_e [OF assms(1)] sn_normal_e [OF assms(2)] by (auto simp: m_def max_def)
  then have mn: "unat (sn_e a) \<le> unat m" "unat (sn_e b) \<le> unat m"
    by (simp_all add: word_le_nat_alt)
  have "nat128 ax = aligned a (unat m)" "nat128 bx = aligned b (unat m)"
    unfolding ax_def bx_def using assms m by (simp_all add: nat128_align)
  then have val: "val128 ax = int (aligned a (unat m))" "val128 bx = int (aligned b (unat m))"
    using val128_bounds [of ax] val128_bounds [of bx] by simp_all
  have bound: "aligned a (unat m) + aligned b (unat m) \<le> 10 ^ (16 + unat m)"
    using aligned_sum_bound [OF mn m(3) assms(3)] .
  also have "\<dots> \<le> 10 ^ 32" using m(3) by (intro power_increasing) simp_all
  finally have fit: "val128 ax + val128 bx < 2 ^ 128" by (simp add: val)
  have "nat128 x \<le> aligned a (unat m) + aligned b (unat m)"
    using signed_sum_val(2) [OF fit sx] by (simp add: val nat_le_iff)
  then have nx: "nat128 x \<le> 10 ^ (16 + unat m)" using bound by (rule le_trans)
  have "scaled a + scaled b = with_sign s (int (trunc16 (nat128 x) (unat m)))"
    using signed_sum_val(1) [OF fit sx] m(3) val128_bounds [of x]
    by (simp add: scaled_aligned [OF _ m(3)] mn val trunc16_le with_sign_mult
        flip: distrib_right)
  moreover have "safe_number_add a b = safe_number_create s x m"
    using False assms(1,2) sx
    by (simp add: safe_number_add_def safe_number_is_valid_def sn_normal_def Let_def
        safe_number_is_zero_iff flip: m_def ax_def bx_def)
  ultimately show ?thesis
    using safe_number_create_eq [of s x m] nx by (auto simp: with_sign_def)
qed

lemma safe_number_neg_exact:
  assumes "sn_normal a"
  shows "\<exists>r. safe_number_neg a = Inr r \<and> sn_normal r \<and> scaled r = - scaled a
    \<and> magnitude r = magnitude a"
proof (cases "magnitude a = 0")
  case True
  then have "safe_number_neg a = Inr a"
    using assms by (simp add: safe_number_neg_def safe_number_is_zero_iff sn_normal_def)
  then show ?thesis using assms True by (simp add: scaled_def)
next
  case False
  let ?r = "a\<lparr>sn_sign := \<not> sn_sign a\<rparr>"
  have "safe_number_create (sn_sign ?r) (sn_x ?r) (sn_e ?r) = Inr ?r"
    using assms by (intro safe_number_create_id) (simp add: sn_normal_def)
  then have "safe_number_neg a = Inr ?r"
    using assms False
    by (simp add: safe_number_neg_def safe_number_is_valid_def safe_number_is_zero_iff sn_normal_def)
  then show ?thesis using assms by (simp add: scaled_def magnitude_def sn_normal_def)
qed

lemma safe_number_minus_exact:
  assumes "sn_normal a" "sn_normal b" "magnitude a + magnitude b \<le> 10 ^ 32"
  shows "\<exists>r. safe_number_minus a b = Inr r \<and> sn_normal r \<and> scaled r = scaled a - scaled b"
proof -
  obtain n where n: "safe_number_neg b = Inr n" "sn_normal n" "scaled n = - scaled b"
      "magnitude n = magnitude b"
    using safe_number_neg_exact [OF assms(2)] by blast
  then show ?thesis
    using safe_number_add_exact [of a n] assms by (simp add: safe_number_minus_def)
qed

section \<open>Products\<close>

abbreviation nat256 :: "SimpleUint256 \<Rightarrow> nat" where
  "nat256 x \<equiv> nat (val256 x)"

lemma hi_zero_iff: "simple_uint128_is_zero (hi256 a) \<longleftrightarrow> nat256 a < 2 ^ 128"
proof -
  have "val128 (hi256 a) = 0 \<longleftrightarrow> val256 a < 2 ^ 128"
    using limb_less [of "val128 (lo256 a)" "2 ^ 128" 0 "val128 (hi256 a)" 1]
      val128_bounds [of "lo256 a"] val128_bounds [of "hi256 a"]
    by (auto simp: val256_def)
  then show ?thesis
    using val256_bounds [of a] by (simp add: simple_uint128_is_zero_iff nat_less_iff)
qed

lemma nat128_lo256: "nat256 a < 2 ^ 128 \<Longrightarrow> nat128 (lo256 a) = nat256 a"
  using val128_lo_small [of a] val256_bounds [of a] by (simp add: nat_less_iff)

lemma uint256_div10_eq:
  assumes "nat256 a < 2 ^ 255"
  shows "\<exists>r. simple_uint256_divmod a uint256_10 = Inr r \<and> nat256 (div_result256 r) = nat256 a div 10"
  using divmod256 [of uint256_10 a] assms val256_bounds [of a]
  by (auto simp: val256_consts nat_div_distrib nat_less_iff)

text \<open>
  The loop that brings a product back to 128 bits stops before it has dropped any of the
  sixteen decimals that are kept.
\<close>

lemma multiply_loop_eq:
  assumes "nat256 abx \<le> 10 ^ (16 + unat e)" "unat e \<le> 32"
  shows "\<exists>abx' e'. multiply_loop abx e = Inr (abx', e') \<and> unat e' \<le> unat e
    \<and> nat128 (lo256 abx') = nat256 abx div 10 ^ (unat e - unat e')
    \<and> (e' = e \<or> 16 \<le> unat e')"
  using assms
proof (induction abx e rule: multiply_loop.induct)
  case (1 abx e)
  show ?case
  proof (cases "nat256 abx < 2 ^ 128")
    case True
    then show ?thesis
      by (simp add: multiply_loop.simps [of abx] hi_zero_iff nat128_lo256)
  next
    case False
    then have big: "10 ^ 38 < nat256 abx" by simp
    have e: "22 < unat e"
    proof (rule ccontr)
      assume "\<not> 22 < unat e"
      then have "(10 :: nat) ^ (16 + unat e) \<le> 10 ^ 38" by (intro power_increasing) simp_all
      then show False using 1(2) big by linarith
    qed
    then have nz: "e \<noteq> 0" by auto
    have s: "unat e = Suc (unat (e - 1))" by (rule unat_pred [OF nz])
    have "nat256 abx \<le> 10 ^ 48"
      using 1(2,3) power_increasing [of "16 + unat e" 48 "10 :: nat"] by linarith
    then obtain r where r: "simple_uint256_divmod abx uint256_10 = Inr r"
        "nat256 (div_result256 r) = nat256 abx div 10"
      using uint256_div10_eq [of abx] by auto
    have "nat256 abx div 10 \<le> 10 ^ (16 + unat e) div 10" using 1(2) by (rule div_le_mono)
    moreover have "(10 :: nat) ^ (16 + unat e) = 10 ^ (16 + unat (e - 1)) * 10"
      by (simp add: s power_add)
    ultimately have le: "nat256 (div_result256 r) \<le> 10 ^ (16 + unat (e - 1))"
      by (simp add: r(2))
    obtain abx' e' where l: "multiply_loop (div_result256 r) (e - 1) = Inr (abx', e')"
        "unat e' \<le> unat (e - 1)"
        "nat128 (lo256 abx') = nat256 abx div 10 div 10 ^ (unat (e - 1) - unat e')"
        "e' = e - 1 \<or> 16 \<le> unat e'"
      using 1(1) [OF _ nz r(1) le] False 1(3) s r(2) by (auto simp: hi_zero_iff)
    have "unat e - unat e' = Suc (unat (e - 1) - unat e')" using l(2) s by simp
    then have "nat128 (lo256 abx') = nat256 abx div 10 ^ (unat e - unat e')"
      using l(3) by (simp add: div_mult2_eq)
    moreover have "16 \<le> unat e'" using l(4) e s by auto
    moreover have "multiply_loop abx e = Inr (abx', e')"
      using False nz r(1) l(1) by (simp add: multiply_loop.simps [of abx] hi_zero_iff)
    ultimately show ?thesis using l(2) s by auto
  qed
qed

lemma trunc16_div:
  assumes "e' \<le> e" "e' = e \<or> 16 \<le> e'"
  shows "trunc16 (p div 10 ^ (e - e')) e' = trunc16 p e"
proof (cases "e' = e")
  case False
  then have "trunc16 (p div 10 ^ (e - e')) e' = p div (10 ^ (e - e') * 10 ^ (e' - 16))"
    using assms by (simp add: trunc16_ge div_mult2_eq)
  also have "\<dots> = p div 10 ^ (e - 16)"
    using assms False by (simp flip: power_add)
  finally show ?thesis using assms False by (simp add: trunc16_ge)
qed simp

lemma trunc16_product:
  assumes "ea \<le> 16" "eb \<le> 16"
  shows "trunc16 (x * y) (ea + eb) = (x * 10 ^ (16 - ea)) * (y * 10 ^ (16 - eb)) div 10 ^ 16"
proof -
  have e: "(10 :: nat) ^ (16 - ea) * 10 ^ (16 - eb) * 10 ^ (ea + eb) = 10 ^ 16 * 10 ^ 16"
    using assms by (simp only: power_add [symmetric]) simp
  have "trunc16 (x * y) (ea + eb) = (x * y * 10 ^ 16 * 10 ^ 16) div (10 ^ (ea + eb) * 10 ^ 16)"
    unfolding trunc16_def by (rule div_mult_mult2 [symmetric]) simp
  also have "x * y * 10 ^ 16 * 10 ^ 16 = (x * 10 ^ (16 - ea)) * (y * 10 ^ (16 - eb)) * 10 ^ (ea + eb)"
  proof -
    have "(x * 10 ^ (16 - ea)) * (y * 10 ^ (16 - eb)) * 10 ^ (ea + eb)
        = x * y * (10 ^ (16 - ea) * 10 ^ (16 - eb) * 10 ^ (ea + eb))" by (simp only: ac_simps)
    then show ?thesis unfolding e by (simp only: mult.assoc)
  qed
  also have "\<dots> div (10 ^ (ea + eb) * 10 ^ 16) = (x * 10 ^ (16 - ea)) * (y * 10 ^ (16 - eb)) div 10 ^ 16"
    by (subst mult.commute [of "10 ^ (ea + eb)"]) (rule div_mult_mult2, simp)
  finally show ?thesis .
qed

lemma unat_sum_small: "unat ea \<le> 16 \<Longrightarrow> unat eb \<le> 16 \<Longrightarrow> unat (ea + eb :: u32) = unat ea + unat eb"
  by (simp add: unat_word_ariths)

lemma nat256_widening_product:
  "nat256 (simple_uint256_multi (simple_uint256_create uint128_0 x) (simple_uint256_create uint128_0 y))
    = nat128 x * nat128 y"
proof -
  have "val128 x * val128 y < 2 ^ 128 * 2 ^ 128"
    using val128_bounds [of x] val128_bounds [of y] by (intro mult_strict_mono) simp_all
  then show ?thesis
    using val128_bounds [of x] val128_bounds [of y]
    by (simp add: val256_multi val256_create val128_consts nat_mult_distrib)
qed

lemma safe_number_multiply_exact:
  assumes "sn_normal a" "sn_normal b" "magnitude a * magnitude b \<le> 10 ^ 48"
  shows "\<exists>r. safe_number_multiply a b = Inr r \<and> sn_normal r
    \<and> magnitude r = magnitude a * magnitude b div 10 ^ 16
    \<and> scaled r = with_sign (sn_sign a = sn_sign b) (int (magnitude a * magnitude b div 10 ^ 16))"
proof (cases "magnitude a = 0 \<or> magnitude b = 0")
  case True
  then have "safe_number_multiply a b = Inr sn_0"
    using assms(1,2) by (auto simp: safe_number_multiply_def safe_number_is_valid_def
        safe_number_is_zero_iff sn_normal_def)
  then show ?thesis
    using True by (auto simp: sn_0_def safe_number_zero_def sn_normal_def normal_def magnitude_def
        scaled_def with_sign_def)
next
  case False
  let ?p = "nat128 (sn_x a) * nat128 (sn_x b)" and ?e = "sn_e a + sn_e b"
  let ?abx = "simple_uint256_multi (simple_uint256_create uint128_0 (sn_x a))
    (simple_uint256_create uint128_0 (sn_x b))"
  note ea = sn_normal_e [OF assms(1)] and eb = sn_normal_e [OF assms(2)]
  have e: "unat ?e = unat (sn_e a) + unat (sn_e b)" using ea eb by (rule unat_sum_small)
  have t: "trunc16 ?p (unat ?e) = magnitude a * magnitude b div 10 ^ 16"
    unfolding e magnitude_def by (rule trunc16_product [OF ea eb])
  have "?p * 10 ^ (32 - unat ?e) = magnitude a * magnitude b"
  proof -
    have "32 - unat ?e = (16 - unat (sn_e a)) + (16 - unat (sn_e b))" using e ea eb by simp
    then show ?thesis by (simp only: magnitude_def power_add ac_simps)
  qed
  also have "\<dots> \<le> 10 ^ (16 + unat ?e) * 10 ^ (32 - unat ?e)"
    using assms(3) e ea eb by (simp only: power_add [symmetric]) simp
  finally have bound: "nat256 ?abx \<le> 10 ^ (16 + unat ?e)"
    by (simp add: nat256_widening_product)
  obtain abx e' where l: "multiply_loop ?abx ?e = Inr (abx, e')" "unat e' \<le> unat ?e"
      "nat128 (lo256 abx) = ?p div 10 ^ (unat ?e - unat e')" "e' = ?e \<or> 16 \<le> unat e'"
    using multiply_loop_eq [OF bound] e ea eb nat256_widening_product by auto
  have "?p div 10 ^ (unat ?e - unat e') \<le> 10 ^ (16 + unat ?e) div 10 ^ (unat ?e - unat e')"
    using bound by (intro div_le_mono) (simp add: nat256_widening_product)
  also have "\<dots> = 10 ^ (16 + unat e')"
    using l(2) by (simp add: power_diff [symmetric])
  finally have "nat128 (lo256 abx) \<le> 10 ^ (16 + unat e')" using l(3) by simp
  moreover have "trunc16 (nat128 (lo256 abx)) (unat e') = magnitude a * magnitude b div 10 ^ 16"
    using trunc16_div [of "unat e'" "unat ?e" ?p] l(2-4) t by auto
  moreover have "safe_number_multiply a b
      = safe_number_create (sn_sign a = sn_sign b) (lo256 abx) e'"
    using False assms(1,2) l(1)
    by (simp add: safe_number_multiply_def safe_number_is_valid_def sn_normal_def
        safe_number_is_zero_iff)
  ultimately show ?thesis
    using safe_number_create_eq [of "sn_sign a = sn_sign b" "lo256 abx" e']
    by (auto simp: with_sign_def)
qed

section \<open>Conversion to integers\<close>

lemma drop_sign_bit_eq:
  assumes "uint w < 2 ^ 62"
  shows "drop_sign_bit w = uint w"
proof -
  have p: "uint (push_bit 1 w) = 2 * uint w"
    unfolding uint_push_bit_u64 using assms by simp
  moreover have "- (2 ^ 63) \<le> 2 * uint w" "2 * uint w < 2 ^ 63"
    using assms by (auto intro: order_trans [OF _ uint_ge_0])
  ultimately have "sint (push_bit 1 w) = 2 * uint w"
    by (simp add: sint_uint signed_take_bit_int_eq_self del: push_bit_eq_mult push_bit_of_1)
  then show ?thesis
    by (simp add: drop_sign_bit_def sint_signed_drop_bit_eq drop_bit_eq_div del: push_bit_eq_mult)
qed

lemma divmod_pow10:
  assumes "unat (e :: u32) \<le> 16"
  shows "\<exists>r. simple_uint128_divmod x (simple_uint128_create 0 (uint64_pow 10 (sint e))) = Inr r
    \<and> nat128 (div_result r) = nat128 x div 10 ^ unat e
    \<and> nat128 (mod_result r) = nat128 x mod 10 ^ unat e"
proof -
  have "sint e = int (unat e)" using assms by (intro sint_small) simp
  moreover have "unat (uint64_pow 10 (int (unat e))) = 10 ^ unat e"
    using assms by (intro unat_uint64_pow) simp
  ultimately have "uint (uint64_pow 10 (sint e)) = int (10 ^ unat e)"
    by (simp only: uint_nat)
  then have p: "val128 (simple_uint128_create 0 (uint64_pow 10 (sint e))) = 10 ^ unat e"
    by (simp add: val128_create)
  then show ?thesis
    using divmod128 [of "simple_uint128_create 0 (uint64_pow 10 (sint e))" x] val128_bounds [of x]
    by (auto simp: nat_div_distrib nat_mod_distrib nat_power_eq)
qed

lemma nat128_low: "nat128 x < 2 ^ 64 \<Longrightarrow> uint (low x) = int (nat128 x)"
  using val128_low_small [of x] val128_bounds [of x] by (simp add: nat_less_iff)

lemma magnitude_div:
  assumes "unat (sn_e a) \<le> 16"
  shows "magnitude a div 10 ^ 16 = nat128 (sn_x a) div 10 ^ unat (sn_e a)"
    and "magnitude a mod 10 ^ 16 = 0 \<longleftrightarrow> nat128 (sn_x a) mod 10 ^ unat (sn_e a) = 0"
proof -
  have e: "(10 :: nat) ^ 16 = 10 ^ unat (sn_e a) * 10 ^ (16 - unat (sn_e a))"
    using assms by (subst power_add [symmetric]) simp
  show "magnitude a div 10 ^ 16 = nat128 (sn_x a) div 10 ^ unat (sn_e a)"
    unfolding magnitude_def e by (rule div_mult_mult2) simp
  show "magnitude a mod 10 ^ 16 = 0 \<longleftrightarrow> nat128 (sn_x a) mod 10 ^ unat (sn_e a) = 0"
    unfolding magnitude_def e mod_mult_mult2 by simp
qed

text \<open>
  Both conversions are exact below \<open>2 ^ 62\<close>: \<open>to_int64\<close> rounds towards zero,
  \<open>to_int64_floor\<close> towards minus infinity.
\<close>

lemma to_int64_aux:
  assumes "sn_normal a" "magnitude a div 10 ^ 16 < 2 ^ 62"
  shows "safe_number_to_int64 a = Inr (with_sign (sn_sign a) (int (magnitude a div 10 ^ 16)))"
    and "safe_number_to_int64_floor a =
      Inr (with_sign (sn_sign a) (int (magnitude a div 10 ^ 16))
           - (if sn_sign a \<or> magnitude a mod 10 ^ 16 = 0 then 0 else 1))"
proof -
  note e = sn_normal_e [OF assms(1)]
  note md = magnitude_div [OF e]
  have v: "sn_valid a" using assms(1) by (simp add: sn_normal_def)
  obtain r where r: "simple_uint128_divmod (sn_x a)
        (simple_uint128_create 0 (uint64_pow 10 (sint (sn_e a)))) = Inr r"
      "nat128 (div_result r) = magnitude a div 10 ^ 16"
      "nat128 (mod_result r) = nat128 (sn_x a) mod 10 ^ unat (sn_e a)"
    using divmod_pow10 [OF e, of "sn_x a"] md by auto
  have d: "drop_sign_bit (low (div_result r)) = int (magnitude a div 10 ^ 16)"
    using drop_sign_bit_eq [of "low (div_result r)"] nat128_low [of "div_result r"] r(2) assms(2) by simp
  have z: "simple_uint128_is_zero (mod_result r) \<longleftrightarrow> magnitude a mod 10 ^ 16 = 0"
    unfolding simple_uint128_is_zero_iff md(2) r(3) [symmetric]
    using val128_bounds [of "mod_result r"] by auto
  have d0: "drop_sign_bit (low (sn_x a)) = int (magnitude a div 10 ^ 16)" if "sn_e a = 0"
    using drop_sign_bit_eq [of "low (sn_x a)"] nat128_low [of "sn_x a"] md(1) that assms(2) by simp
  have m0: "magnitude a mod 10 ^ 16 = 0" if "sn_e a = 0"
    using md(2) that by simp
  have nz: "sn_e a > 0 \<longleftrightarrow> sn_e a \<noteq> 0" by (simp add: word_gt_0)
  show "safe_number_to_int64 a = Inr (with_sign (sn_sign a) (int (magnitude a div 10 ^ 16)))"
    using v r(1) d d0 nz
    by (cases "magnitude a = 0") (auto simp: safe_number_to_int64_def safe_number_invalid_def
        safe_number_is_zero_iff with_sign_def Let_def)
  show "safe_number_to_int64_floor a =
      Inr (with_sign (sn_sign a) (int (magnitude a div 10 ^ 16))
           - (if sn_sign a \<or> magnitude a mod 10 ^ 16 = 0 then 0 else 1))"
    using v r(1) d d0 nz z m0
    by (cases "magnitude a = 0") (auto simp: safe_number_to_int64_floor_def safe_number_invalid_def
        safe_number_is_zero_iff with_sign_def Let_def)
qed

lemma scaled_div_floor:
  "scaled a div 10 ^ 16 = with_sign (sn_sign a) (int (magnitude a div 10 ^ 16))
     - (if sn_sign a \<or> magnitude a mod 10 ^ 16 = 0 then 0 else 1)"
proof -
  have "(- int m) div 10 ^ 16 = - int (m div 10 ^ 16) - (if m mod 10 ^ 16 = 0 then 0 else 1)" for m
  proof -
    have "int (m mod 10 ^ 16) = int m mod 10 ^ 16" "int (m div 10 ^ 16) = int m div 10 ^ 16"
      by (simp_all add: of_nat_mod of_nat_div)
    then show ?thesis using zdiv_zminus1_eq_if [of "10 ^ 16" "int m"] by auto
  qed
  then show ?thesis by (auto simp: scaled_def with_sign_def zdiv_int)
qed

section \<open>Comparison\<close>

lemma magnitude_split:
  assumes "unat (sn_e a) \<le> m" "m \<le> 16"
  defines "x \<equiv> nat128 (sn_x a)" and "e \<equiv> unat (sn_e a)"
  shows "magnitude a = x div 10 ^ e * 10 ^ 16 + x mod 10 ^ e * 10 ^ (m - e) * 10 ^ (16 - m)"
    and "x mod 10 ^ e * 10 ^ (m - e) < 10 ^ m"
proof -
  have p: "(10 :: nat) ^ 16 = 10 ^ e * 10 ^ (16 - e)" "(10 :: nat) ^ (m - e) * 10 ^ (16 - m) = 10 ^ (16 - e)"
      "(10 :: nat) ^ m = 10 ^ e * 10 ^ (m - e)"
    using assms by (simp_all only: power_add [symmetric]) simp_all
  have "magnitude a = (x div 10 ^ e * 10 ^ e + x mod 10 ^ e) * 10 ^ (16 - e)"
    by (simp only: magnitude_def x_def e_def div_mult_mod_eq)
  then show "magnitude a = x div 10 ^ e * 10 ^ 16 + x mod 10 ^ e * 10 ^ (m - e) * 10 ^ (16 - m)"
    unfolding p(1) by (simp only: distrib_right mult.assoc p(2))
  show "x mod 10 ^ e * 10 ^ (m - e) < 10 ^ m"
    unfolding p(3) by simp
qed

lemma lex_less_nat:
  fixes p q r s K :: nat
  assumes "r < K" "s < K"
  shows "p * K + r < q * K + s \<longleftrightarrow> p < q \<or> p = q \<and> r < s"
proof -
  have "int p * int K + int r < int q * int K + int s \<longleftrightarrow> int p < int q \<or> int p = int q \<and> int r < int s"
    using assms by (intro limb_less) simp_all
  then show ?thesis by (simp flip: of_nat_mult of_nat_add)
qed

lemma magnitude_less_iff:
  assumes "unat (sn_e a) \<le> m" "unat (sn_e b) \<le> m" "m \<le> 16"
  shows "magnitude a < magnitude b \<longleftrightarrow>
    nat128 (sn_x a) div 10 ^ unat (sn_e a) < nat128 (sn_x b) div 10 ^ unat (sn_e b) \<or>
    nat128 (sn_x a) div 10 ^ unat (sn_e a) = nat128 (sn_x b) div 10 ^ unat (sn_e b) \<and>
    nat128 (sn_x a) mod 10 ^ unat (sn_e a) * 10 ^ (m - unat (sn_e a))
      < nat128 (sn_x b) mod 10 ^ unat (sn_e b) * 10 ^ (m - unat (sn_e b))"
proof -
  note A = magnitude_split [OF assms(1,3)] and B = magnitude_split [OF assms(2,3)]
  have k: "(10 :: nat) ^ m * 10 ^ (16 - m) = 10 ^ 16"
    using assms(3) by (simp only: power_add [symmetric]) simp
  have less: "u * 10 ^ (16 - m) < 10 ^ 16" if "u < 10 ^ m" for u :: nat
    unfolding k [symmetric] using that by simp
  show ?thesis
    unfolding A(1) B(1) using lex_less_nat [OF less [OF A(2)] less [OF B(2)]] by simp
qed

lemma extend_remainder:
  assumes "unat (e :: u32) \<le> 16" "e' < e" "nat128 r < 10 ^ unat e'"
  shows "nat128 (simple_uint128_multi_u64 r (uint64_pow 10 (sint (e - e'))))
    = nat128 r * 10 ^ (unat e - unat e')"
proof -
  have "nat128 r * 10 ^ (unat e - unat e') < 10 ^ unat e' * 10 ^ (unat e - unat e')"
    using assms(3) by simp
  also have "\<dots> \<le> 10 ^ 16"
    using assms(1,2) power_increasing [of "unat e" 16 "10 :: nat"]
    by (simp only: power_add [symmetric]) (simp add: word_less_nat_alt)
  finally have "nat128 r * 10 ^ (unat e - unat e') < 2 ^ 128" by simp
  then show ?thesis
    using assms(1,2) by (simp add: sint_diff_small nat128_multi_u64 unat_uint64_pow)
qed

lemma uint128_order:
  "simple_uint128_gt x y \<longleftrightarrow> nat128 y < nat128 x"
  "simple_uint128_lt x y \<longleftrightarrow> nat128 x < nat128 y"
  "simple_uint128_eq x y \<longleftrightarrow> nat128 x = nat128 y"
  using val128_bounds [of x] val128_bounds [of y] by (auto simp: limb_simps)

text \<open>The comparison of two numbers of the same sign compares their values.\<close>

lemma safe_number_gt_same_sign:
  assumes "sn_normal a" "sn_normal b" "sn_sign a = sn_sign b"
  shows "safe_number_gt a b = Inr (scaled b < scaled a)"
proof -
  note ea = sn_normal_e [OF assms(1)] and eb = sn_normal_e [OF assms(2)]
  obtain ra where ra: "simple_uint128_divmod (sn_x a)
        (simple_uint128_create 0 (uint64_pow 10 (sint (sn_e a)))) = Inr ra"
      "nat128 (div_result ra) = nat128 (sn_x a) div 10 ^ unat (sn_e a)"
      "nat128 (mod_result ra) = nat128 (sn_x a) mod 10 ^ unat (sn_e a)"
    using divmod_pow10 [OF ea] by blast
  obtain rb where rb: "simple_uint128_divmod (sn_x b)
        (simple_uint128_create 0 (uint64_pow 10 (sint (sn_e b)))) = Inr rb"
      "nat128 (div_result rb) = nat128 (sn_x b) div 10 ^ unat (sn_e b)"
      "nat128 (mod_result rb) = nat128 (sn_x b) mod 10 ^ unat (sn_e b)"
    using divmod_pow10 [OF eb] by blast
  define m where "m = max (unat (sn_e a)) (unat (sn_e b))"
  define ea' where "ea' = (if sn_e a < sn_e b
    then simple_uint128_multi_u64 (mod_result ra) (uint64_pow 10 (sint (sn_e b - sn_e a))) else mod_result ra)"
  define eb' where "eb' = (if sn_e a > sn_e b
    then simple_uint128_multi_u64 (mod_result rb) (uint64_pow 10 (sint (sn_e a - sn_e b))) else mod_result rb)"
  have xa: "nat128 ea' = nat128 (mod_result ra) * 10 ^ (m - unat (sn_e a))"
    unfolding ea'_def m_def using extend_remainder [OF eb, of "sn_e a" "mod_result ra"] ra(3)
    by (auto simp: word_less_nat_alt max_def)
  have xb: "nat128 eb' = nat128 (mod_result rb) * 10 ^ (m - unat (sn_e b))"
    unfolding eb'_def m_def using extend_remainder [OF ea, of "sn_e b" "mod_result rb"] rb(3)
    by (auto simp: word_less_nat_alt max_def)
  have m: "unat (sn_e a) \<le> m" "unat (sn_e b) \<le> m" "m \<le> 16" using ea eb by (simp_all add: m_def)
  have v: "sn_valid a" "sn_valid b" using assms by (simp_all add: sn_normal_def)
  have "safe_number_gt a b =
    (if nat128 (div_result rb) < nat128 (div_result ra) then Inr (sn_sign a)
     else if nat128 (div_result ra) < nat128 (div_result rb) then Inr (\<not> sn_sign a)
     else if nat128 ea' = nat128 eb' then Inr False
     else if nat128 eb' < nat128 ea' then Inr (sn_sign a) else Inr (\<not> sn_sign a))"
    unfolding safe_number_gt_def safe_number_invalid_def ra(1) rb(1) ebind_simps Let_def uint128_order
      ea'_def [symmetric] eb'_def [symmetric]
    using v assms(3) by simp
  moreover have "magnitude a < magnitude b \<longleftrightarrow> nat128 (div_result ra) < nat128 (div_result rb)
      \<or> nat128 (div_result ra) = nat128 (div_result rb) \<and> nat128 ea' < nat128 eb'"
    unfolding xa xb ra(2,3) rb(2,3) by (rule magnitude_less_iff [OF m])
  moreover have "magnitude b < magnitude a \<longleftrightarrow> nat128 (div_result rb) < nat128 (div_result ra)
      \<or> nat128 (div_result rb) = nat128 (div_result ra) \<and> nat128 eb' < nat128 ea'"
    unfolding xa xb ra(2,3) rb(2,3) by (rule magnitude_less_iff [OF m(2,1,3)])
  ultimately show ?thesis
    by (cases "nat128 (div_result ra)" "nat128 (div_result rb)" rule: linorder_cases;
        cases "nat128 ea'" "nat128 eb'" rule: linorder_cases)
      (simp_all add: scaled_def assms(3) del: zless_nat_conj eq_nat_nat_iff nat_eq_iff)
qed

lemma safe_number_gt_iff:
  assumes "sn_normal a" "sn_normal b" "sn_sign a = sn_sign b \<or> magnitude a \<noteq> 0 \<or> magnitude b \<noteq> 0"
  shows "safe_number_gt a b = Inr (scaled b < scaled a)"
proof (cases "sn_sign a = sn_sign b")
  case True
  then show ?thesis by (rule safe_number_gt_same_sign [OF assms(1,2)])
next
  case False
  then show ?thesis
    using assms by (auto simp: safe_number_gt_def safe_number_invalid_def sn_normal_def scaled_def)
qed

text \<open>A nonzero value has one normal form, so the field-wise equality compares values.\<close>

lemma normal_unique:
  assumes "normal x e" "normal y f" "x \<noteq> 0" "x * 10 ^ (16 - e) = y * 10 ^ (16 - f)"
  shows "x = y \<and> e = f"
proof -
  have aux: "e = f" if "e \<le> f" "normal x e" "normal y f" "y \<noteq> 0" "x * 10 ^ (16 - e) = y * 10 ^ (16 - f)"
    for x y e f
  proof (rule ccontr)
    assume "e \<noteq> f"
    then have f: "f = e + Suc (f - Suc e)" using that(1) by simp
    have "f \<le> 16" using that(3) by (simp add: normal_def)
    then have "16 - e = Suc (f - Suc e) + (16 - f)" using f by simp
    then have "x * 10 ^ Suc (f - Suc e) * 10 ^ (16 - f) = y * 10 ^ (16 - f)"
      using that(5) by (simp only: power_add mult.assoc)
    then have "y = x * 10 ^ Suc (f - Suc e)" by simp
    then have "10 dvd y" by simp
    then show False using that(3,4) f by (simp add: normal_def)
  qed
  have "y \<noteq> 0" using assms(3,4) by (metis mult_eq_0_iff power_not_zero zero_neq_numeral)
  then have "e = f"
    using aux [of e f x y] aux [of f e y x] assms by (cases "e \<le> f") auto
  then show ?thesis using assms(4) by simp
qed

lemma safe_number_eq_iff:
  assumes "sn_normal a" "sn_normal b" "magnitude a \<noteq> 0"
  shows "safe_number_eq a b \<longleftrightarrow> scaled a = scaled b"
proof -
  have "nat128 (sn_x a) \<noteq> 0" using assms(3) by (auto simp: magnitude_def)
  then have "magnitude a = magnitude b \<longleftrightarrow> nat128 (sn_x a) = nat128 (sn_x b) \<and> unat (sn_e a) = unat (sn_e b)"
    using normal_unique [of "nat128 (sn_x a)" "unat (sn_e a)" "nat128 (sn_x b)" "unat (sn_e b)"] assms(1,2)
    by (auto simp: sn_normal_def magnitude_def)
  then show ?thesis
    using assms by (auto simp: safe_number_eq_def safe_number_invalid_def sn_normal_def uint128_order
        scaled_def word_unat_eq_iff)
qed

section \<open>Quotients\<close>

text \<open>One round of the digit loop.\<close>

lemma div_round:
  assumes "nat256 big_b = B" "0 < B" "B \<le> 2 ^ 127" "nat256 big_a = A"
    and "nat128 rx = 0 \<and> A < 2 ^ 128 \<or> nat128 rx < 10 ^ 32 \<and> A < 10 * B"
  shows "\<exists>r. simple_uint256_divmod big_a big_b = Inr r
    \<and> nat128 (simple_uint128_add (simple_uint128_multi_u64 rx 10) (lo256 (div_result256 r)))
      = nat128 rx * 10 + A div B
    \<and> nat256 (simple_uint256_multi (mod_result256 r) uint256_10) = A mod B * 10"
proof -
  have "A < 2 ^ 255" using assms(3,5) by auto
  then obtain r where r: "simple_uint256_divmod big_a big_b = Inr r"
      "nat256 (div_result256 r) = A div B" "nat256 (mod_result256 r) = A mod B"
    using divmod256 [of big_b big_a] assms(1-4) val256_bounds [of big_a] val256_bounds [of big_b]
    by (auto simp: nat_div_distrib nat_mod_distrib nat_less_iff nat_le_iff)
  have q: "nat128 rx * 10 + A div B < 2 ^ 128" and q1: "A div B < 2 ^ 128"
    using assms(2,5) div_le_dividend [of A B] less_mult_imp_div_less [of A 10 B]
    by (auto intro: le_less_trans [OF div_le_dividend])
  have m: "A mod B * 10 < 2 ^ 256" using less_le_trans [OF mod_less_divisor [OF assms(2), of A] assms(3)] by simp
  have "nat128 (simple_uint128_multi_u64 rx 10) = nat128 rx * 10"
    using q by (simp add: nat128_multi_u64)
  moreover have "nat128 (lo256 (div_result256 r)) = A div B"
    using nat128_lo256 [of "div_result256 r"] r(2) q1 by simp
  moreover have "nat128 (simple_uint128_add x y) = (nat128 x + nat128 y) mod 2 ^ 128" for x y
    using val128_bounds [of x] val128_bounds [of y]
    by (simp add: val128_add nat_mod_distrib nat_add_distrib)
  moreover have "nat256 (simple_uint256_multi (mod_result256 r) uint256_10) = A mod B * 10"
    using val256_bounds [of "mod_result256 r"] r(3) m
    by (simp add: val256_multi val256_consts nat_mod_distrib nat_mult_distrib)
  ultimately show ?thesis using r(1) q by simp
qed

lemma quotient_step:
  fixes R A B k :: nat
  shows "((R * 10 + A div B) * 10 * B + A mod B * 10) * 10 ^ k = (R * 10 * B + A) * 10 ^ Suc k"
proof -
  have "(R * 10 * B + (q * B + m)) * 10 ^ Suc k = ((R * 10 + q) * 10 * B + m * 10) * 10 ^ k"
    for q m :: nat
    by (simp add: algebra_simps)
  from this [of "A div B" "A mod B"] show ?thesis by (simp only: div_mult_mod_eq)
qed

text \<open>
  The loop yields the quotient with \<open>k\<close> further decimals, and stops early only when the
  division is exact or the quotient has reached \<open>10 ^ 32\<close>.
\<close>

lemma div_loop_eq:
  assumes "nat256 big_b = B" "0 < B" "B \<le> 2 ^ 127" "nat256 big_a = A" "re < 16"
    and "nat128 rx = 0 \<and> A < 2 ^ 128 \<or> nat128 rx < 10 ^ 32 \<and> A < 10 * B"
  shows "\<exists>rx' k. div_loop big_a big_b rx re = Inr (rx', re + 1 + int k) \<and> re + 1 + int k \<le> 16
    \<and> nat128 rx' = (nat128 rx * 10 * B + A) * 10 ^ k div B
    \<and> (re + 1 + int k = 16 \<or> B dvd (nat128 rx * 10 * B + A) * 10 ^ k \<or> 10 ^ 32 \<le> nat128 rx')"
  using assms
proof (induction big_a big_b rx re arbitrary: A rule: div_loop.induct)
  case (1 big_a big_b rx re)
  obtain r where r: "simple_uint256_divmod big_a big_b = Inr r"
      "nat128 (simple_uint128_add (simple_uint128_multi_u64 rx 10) (lo256 (div_result256 r)))
        = nat128 rx * 10 + A div B"
      "nat256 (simple_uint256_multi (mod_result256 r) uint256_10) = A mod B * 10"
    using div_round [OF 1(2-5,7)] by blast
  define rx1 where "rx1 = simple_uint128_add (simple_uint128_multi_u64 rx 10) (lo256 (div_result256 r))"
  define a1 where "a1 = simple_uint256_multi (mod_result256 r) uint256_10"
  note r' = r(2) [folded rx1_def] r(3) [folded a1_def]
  have lt: "simple_uint128_lt rx1 largest_x \<longleftrightarrow> nat128 rx1 < 10 ^ 32"
    by (simp only: uint128_order nat128_largest_x)
  have z: "simple_uint256_is_zero a1 \<longleftrightarrow> A mod B = 0"
    using r'(2) val256_bounds [of a1] by (auto simp: simple_uint256_is_zero_iff)
  have v: "(nat128 rx * 10 * B + A) div B = nat128 rx1"
    using 1(3) r'(1) by simp
  show ?case
  proof (cases "re + 1 < 16 \<and> nat128 rx1 < 10 ^ 32 \<and> A mod B \<noteq> 0")
    case True
    have small: "nat128 rx1 = 0 \<and> A mod B * 10 < 2 ^ 128 \<or> nat128 rx1 < 10 ^ 32 \<and> A mod B * 10 < 10 * B"
      using True 1(3) mod_less_divisor [of B A] by simp
    have "\<exists>rx' k. div_loop a1 big_b rx1 (re + 1) = Inr (rx', re + 1 + 1 + int k) \<and> re + 1 + 1 + int k \<le> 16
        \<and> nat128 rx' = (nat128 rx1 * 10 * B + A mod B * 10) * 10 ^ k div B
        \<and> (re + 1 + 1 + int k = 16 \<or> B dvd (nat128 rx1 * 10 * B + A mod B * 10) * 10 ^ k
          \<or> 10 ^ 32 \<le> nat128 rx')"
      using 1(1) [OF r(1) refl refl refl, folded rx1_def a1_def, OF _ 1(2-4) r'(2) _ small] True lt z
      by simp
    then obtain rx' k where l: "div_loop a1 big_b rx1 (re + 1) = Inr (rx', re + 1 + 1 + int k)"
        "re + 1 + 1 + int k \<le> 16"
        "nat128 rx' = (nat128 rx * 10 * B + A) * 10 ^ Suc k div B"
        "re + 1 + 1 + int k = 16 \<or> B dvd (nat128 rx * 10 * B + A) * 10 ^ Suc k \<or> 10 ^ 32 \<le> nat128 rx'"
      unfolding r'(1) quotient_step by blast
    then have "div_loop big_a big_b rx re = Inr (rx', re + 1 + int (Suc k))"
      using r(1) True lt z
      by (subst div_loop.simps) (simp add: Let_def add.assoc flip: rx1_def a1_def)
    then show ?thesis using l by (intro exI [of _ rx'] exI [of _ "Suc k"]) auto
  next
    case False
    then have "div_loop big_a big_b rx re = Inr (rx1, re + 1)"
      using r(1) lt z by (subst div_loop.simps) (auto simp: Let_def simp flip: rx1_def a1_def)
    moreover have "re + 1 = 16 \<or> B dvd (nat128 rx * 10 * B + A) \<or> 10 ^ 32 \<le> nat128 rx1"
      using False 1(6) by (auto simp: dvd_eq_mod_eq_0)
    ultimately show ?thesis
      using v 1(6) by (intro exI [of _ rx1] exI [of _ 0]) simp
  qed
qed

text \<open>
  The quotient of the coefficients, truncated after sixteen decimals, brackets the quotient
  of the numbers: it is never above, and less than one unit of the last kept decimal below.
\<close>

definition brackets :: "nat \<Rightarrow> SafeNumber \<Rightarrow> SafeNumber \<Rightarrow> bool" where
  "brackets m a b \<longleftrightarrow> m * magnitude b \<le> magnitude a * 10 ^ 16
     \<and> magnitude a * 10 ^ 16 < (m + 10 ^ (unat (sn_e b) - unat (sn_e a))) * magnitude b"

lemma brackets_iff:
  assumes "unat (sn_e a) \<le> 16" "unat (sn_e b) \<le> 16" "unat (sn_e a) + k = unat (sn_e b) + e"
  shows "brackets m a b \<longleftrightarrow> m * 10 ^ e * nat128 (sn_x b) \<le> nat128 (sn_x a) * 10 ^ (16 + k)
    \<and> nat128 (sn_x a) * 10 ^ (16 + k)
      < (m + 10 ^ (unat (sn_e b) - unat (sn_e a))) * 10 ^ e * nat128 (sn_x b)"
proof -
  let ?xa = "nat128 (sn_x a)" and ?xb = "nat128 (sn_x b)" and ?ea = "unat (sn_e a)" and ?eb = "unat (sn_e b)"
  have a: "magnitude a * 10 ^ 16 * 10 ^ (?ea + k) = ?xa * 10 ^ (16 + k) * 10 ^ 16"
  proof -
    have "magnitude a * 10 ^ 16 * 10 ^ (?ea + k) = ?xa * (10 ^ (16 - ?ea) * 10 ^ 16 * 10 ^ (?ea + k))"
      by (simp only: magnitude_def mult.assoc)
    also have "10 ^ (16 - ?ea) * 10 ^ 16 * 10 ^ (?ea + k) = (10 :: nat) ^ (16 + k) * 10 ^ 16"
      using assms(1) by (simp only: power_add [symmetric]) simp
    finally show ?thesis by (simp only: mult.assoc)
  qed
  have b: "n * magnitude b * 10 ^ (?ea + k) = n * 10 ^ e * ?xb * 10 ^ 16" for n
  proof -
    have "n * magnitude b * 10 ^ (?ea + k) = n * ?xb * (10 ^ (16 - ?eb) * 10 ^ (?eb + e))"
      by (simp only: magnitude_def mult.assoc assms(3))
    also have "10 ^ (16 - ?eb) * 10 ^ (?eb + e) = (10 :: nat) ^ e * 10 ^ 16"
      using assms(2) by (simp only: power_add [symmetric]) simp
    finally show ?thesis by (simp only: ac_simps)
  qed
  have le: "u \<le> v \<longleftrightarrow> u * 10 ^ n \<le> v * 10 ^ n" and lt: "u < v \<longleftrightarrow> u * 10 ^ n < v * 10 ^ n"
    for u v n :: nat by simp_all
  show ?thesis
    unfolding brackets_def
      le [of "m * magnitude b" "magnitude a * 10 ^ 16" "?ea + k"]
      lt [of "magnitude a * 10 ^ 16" "(m + 10 ^ (?eb - ?ea)) * magnitude b" "?ea + k"] a b
    using le [of "m * 10 ^ e * ?xb" "?xa * 10 ^ (16 + k)" 16]
      lt [of "?xa * 10 ^ (16 + k)" "(m + 10 ^ (?eb - ?ea)) * 10 ^ e * ?xb" 16]
    by (simp only:)
qed

lemma trunc16_brackets:
  fixes xa xb k e :: nat
  defines "q \<equiv> xa * 10 ^ k div xb"
  assumes "0 < xb" and stop: "xb dvd xa * 10 ^ k \<or> 16 \<le> e \<or> d = 16 - e"
  shows "trunc16 q e * 10 ^ e * xb \<le> xa * 10 ^ (16 + k)"
    and "xa * 10 ^ (16 + k) < (trunc16 q e + 10 ^ d) * 10 ^ e * xb"
proof -
  let ?m = "trunc16 q e"
  have q: "q * xb \<le> xa * 10 ^ k" by (simp add: q_def)
  have m: "?m * 10 ^ e \<le> q * 10 ^ 16" unfolding trunc16_def by (rule div_times_less_eq_dividend)
  have "?m * 10 ^ e * xb \<le> q * 10 ^ 16 * xb" using m by (rule mult_le_mono1)
  also have "\<dots> = q * xb * 10 ^ 16" by simp
  also have "\<dots> \<le> xa * 10 ^ k * 10 ^ 16" using q by (rule mult_le_mono1)
  finally show "?m * 10 ^ e * xb \<le> xa * 10 ^ (16 + k)" by (simp only: power_add ac_simps)
  have one: "?m + 1 \<le> ?m + 10 ^ d" by simp
  have "xa * 10 ^ k < (q + 1) * xb"
    unfolding q_def using assms(2) by (metis Suc_eq_plus1 dividend_less_div_times mult.commute mult_Suc_right add.commute)
  then have "xa * 10 ^ k * 10 ^ 16 < (q + 1) * xb * 10 ^ 16" by (intro mult_strict_right_mono) simp_all
  then have up: "xa * 10 ^ (16 + k) < (q + 1) * 10 ^ 16 * xb"
    by (simp only: power_add ac_simps)
  have below: "xa * 10 ^ (16 + k) < (?m + 10 ^ d) * 10 ^ e * xb"
    if "xa * 10 ^ (16 + k) < n * xb" "n \<le> (?m + 10 ^ d) * 10 ^ e" for n
    using that by (meson less_le_trans mult_le_mono1)
  consider "xb dvd xa * 10 ^ k" | "16 \<le> e" | "e < 16" "d = 16 - e" using stop by linarith
  then show "xa * 10 ^ (16 + k) < (?m + 10 ^ d) * 10 ^ e * xb"
  proof cases
    case 1
    then have "xa * 10 ^ (16 + k) = q * 10 ^ 16 * xb"
      by (simp add: q_def power_add dvd_div_mult_self mult.commute mult.left_commute)
    also have "q * 10 ^ 16 < (?m + 1) * 10 ^ e"
      unfolding trunc16_def
      using dividend_less_div_times [of "10 ^ e" "q * 10 ^ 16"] by (simp add: distrib_right)
    then have "q * 10 ^ 16 * xb < (?m + 1) * 10 ^ e * xb" using assms(2) by simp
    also have "\<dots> \<le> (?m + 10 ^ d) * 10 ^ e * xb" using one by (intro mult_le_mono1)
    finally show ?thesis .
  next
    case 2
    have "q < (q div 10 ^ (e - 16) + 1) * 10 ^ (e - 16)"
      using dividend_less_div_times [of "10 ^ (e - 16)" q] by (simp add: distrib_right)
    then have "(q + 1) * 10 ^ 16 \<le> (?m + 1) * 10 ^ (e - 16) * 10 ^ 16"
      using 2 by (intro mult_le_mono1) (simp add: trunc16_ge)
    also have "\<dots> = (?m + 1) * 10 ^ e"
      using 2 by (simp only: mult.assoc power_add [symmetric]) simp
    also have "\<dots> \<le> (?m + 10 ^ d) * 10 ^ e" using one by (rule mult_le_mono1)
    finally show ?thesis using up by (rule below [rotated])
  next
    case 3
    have "(q + 1) * 10 ^ 16 = (q + 1) * 10 ^ (16 - e) * 10 ^ e"
      using 3 by (simp only: mult.assoc power_add [symmetric]) simp
    also have "\<dots> = (?m + 10 ^ d) * 10 ^ e"
      using 3 by (simp add: trunc16_le distrib_right)
    finally show ?thesis using up by (intro below [of "(q + 1) * 10 ^ 16"]) simp_all
  qed
qed


lemma quotient_fits:
  assumes "unat (sn_e a) \<le> 16" "unat (sn_e b) \<le> 16" "unat (sn_e a) + k = unat (sn_e b) + e"
    and "magnitude a \<le> 10 ^ 16 * magnitude b"
  shows "nat128 (sn_x a) * 10 ^ k div nat128 (sn_x b) \<le> 10 ^ (16 + e)"
proof -
  let ?xa = "nat128 (sn_x a)" and ?xb = "nat128 (sn_x b)" and ?ea = "unat (sn_e a)" and ?eb = "unat (sn_e b)"
  have "magnitude a * 10 ^ (?ea + k) \<le> 10 ^ 16 * magnitude b * 10 ^ (?eb + e)"
    unfolding assms(3) using assms(4) by (rule mult_le_mono1)
  moreover have "magnitude a * 10 ^ (?ea + k) = ?xa * (10 ^ k * 10 ^ 16)"
  proof -
    have "(10 :: nat) ^ (16 - ?ea) * 10 ^ (?ea + k) = 10 ^ k * 10 ^ 16"
      using assms(1) by (simp only: power_add [symmetric]) simp
    then show ?thesis by (simp only: magnitude_def mult.assoc)
  qed
  moreover have "10 ^ 16 * magnitude b * 10 ^ (?eb + e) = ?xb * 10 ^ (16 + e) * 10 ^ 16"
  proof -
    have "(10 :: nat) ^ 16 * 10 ^ (16 - ?eb) * 10 ^ (?eb + e) = 10 ^ (16 + e) * 10 ^ 16"
      using assms(2) by (simp only: power_add [symmetric]) simp
    moreover have "10 ^ 16 * magnitude b * 10 ^ (?eb + e)
        = ?xb * (10 ^ 16 * 10 ^ (16 - ?eb) * 10 ^ (?eb + e))" by (simp only: magnitude_def ac_simps)
    ultimately show ?thesis by (simp only: mult.assoc)
  qed
  ultimately have "?xa * 10 ^ k * 10 ^ 16 \<le> ?xb * 10 ^ (16 + e) * 10 ^ 16"
    by (simp only: mult.assoc)
  then have "?xa * 10 ^ k \<le> ?xb * 10 ^ (16 + e)" by simp
  then have "?xa * 10 ^ k div ?xb \<le> ?xb * 10 ^ (16 + e) div ?xb" by (rule div_le_mono)
  then show ?thesis by (cases "?xb = 0") simp_all
qed


lemma sint_diff:
  assumes "unat (e :: u32) \<le> 16" "unat e' \<le> 16"
  shows "sint (e - e') = int (unat e) - int (unat e')"
proof -
  have "int (unat e) \<le> int 16" "int (unat e') \<le> int 16" using assms by (simp_all only: of_nat_le_iff)
  then have "uint e \<le> 16" "uint e' \<le> 16" by simp_all
  moreover have "(2 :: int) ^ 31 = 2147483648" by simp
  ultimately have "- (2 ^ 31) \<le> uint e - uint e'" "uint e - uint e' < 2 ^ 31"
    using uint_ge_0 [of e] uint_ge_0 [of e'] by linarith+
  moreover have "sint (e - e') = signed_take_bit 31 (uint e - uint e')"
    using sint_sbintrunc' [of "uint e - uint e'", where 'a = 32] by simp
  ultimately show ?thesis by (simp add: signed_take_bit_int_eq_self)
qed

text \<open>
  The exponent bookkeeping after the loop: a nonnegative exponent is kept, a negative one
  is folded into the coefficient.
\<close>

lemma div_tail:
  assumes a: "sn_normal a" "sn_normal b" "magnitude b \<noteq> 0" "magnitude a \<le> 10 ^ 16 * magnitude b"
    and k: "k \<le> 16" "nat128 rx = nat128 (sn_x a) * 10 ^ k div nat128 (sn_x b)"
      "k = 16 \<or> nat128 (sn_x b) dvd nat128 (sn_x a) * 10 ^ k \<or> 10 ^ 32 \<le> nat128 rx"
  defines "res \<equiv> (if sint (sn_e a - sn_e b) \<ge> - int k then (rx, int k + sint (sn_e a - sn_e b))
      else (simple_uint128_multi_u64 rx (uint64_pow 10 (- sint (sn_e a - sn_e b) - int k)), 0))"
  shows "nat128 (fst res) \<le> 10 ^ (16 + unat (word_of_int (snd res) :: u32))
    \<and> brackets (trunc16 (nat128 (fst res)) (unat (word_of_int (snd res) :: u32))) a b"
proof -
  let ?xa = "nat128 (sn_x a)" and ?xb = "nat128 (sn_x b)" and ?ea = "unat (sn_e a)" and ?eb = "unat (sn_e b)"
  note e = sn_normal_e [OF a(1)] sn_normal_e [OF a(2)]
  have xb: "0 < ?xb" using a(3) by (simp add: magnitude_def)
  note d = sint_diff [OF e]
  show ?thesis
  proof (cases "?eb \<le> ?ea + k")
    case True
    define f where "f = ?ea + k - ?eb"
    have f: "?ea + k = ?eb + f" "f \<le> 32" using True e k(1) by (simp_all add: f_def)
    have "int k + sint (sn_e a - sn_e b) = int f" using d f by linarith
    moreover have "sint (sn_e a - sn_e b) \<ge> - int k" using d True by linarith
    ultimately have res: "res = (rx, int f)" by (simp add: res_def)
    have uf: "unat (word_of_int (int f) :: u32) = f" using f(2) by (simp add: unat_of_nat)
    have fits: "nat128 rx \<le> 10 ^ (16 + f)"
      unfolding k(2) by (rule quotient_fits [OF e f(1) a(4)])
    have stop: "?xb dvd ?xa * 10 ^ k \<or> 16 \<le> f \<or> ?eb - ?ea = 16 - f"
    proof -
      have "16 \<le> f" if "10 ^ 32 \<le> nat128 rx"
      proof -
        have "(10 :: nat) ^ 32 \<le> 10 ^ (16 + f)" using that fits by (rule le_trans)
        then have "32 \<le> 16 + f" by (rule power_le_imp_le_exp [rotated]) simp
        then show ?thesis by simp
      qed
      then show ?thesis using k(3) f by auto
    qed
    show ?thesis
      unfolding res fst_conv snd_conv uf brackets_iff [OF e f(1)]
      using fits trunc16_brackets [OF xb stop] unfolding k(2) [symmetric] by blast
  next
    case False
    define f where "f = ?eb - ?ea - k"
    have f: "?ea + (k + f) = ?eb + 0" "f \<le> 16" "k < 16" using False e by (simp_all add: f_def)
    have fits: "?xa * 10 ^ (k + f) div ?xb \<le> 10 ^ 16"
      using quotient_fits [OF e f(1) a(4)] by simp
    have "?xa * 10 ^ k div ?xb \<le> ?xa * 10 ^ (k + f) div ?xb"
      by (intro div_le_mono mult_le_mono2 power_increasing) simp_all
    then have dvd: "?xb dvd ?xa * 10 ^ k" using k(2,3) f(3) fits by auto
    have p: "?xa * 10 ^ (k + f) = ?xa * 10 ^ k * 10 ^ f" by (simp only: power_add mult.assoc)
    have q: "?xa * 10 ^ (k + f) div ?xb = nat128 rx * 10 ^ f"
      unfolding p k(2) using dvd by (rule dvd_div_mult [symmetric])
    have dvd': "?xb dvd ?xa * 10 ^ (k + f)"
      unfolding p using dvd by (rule dvd_mult2)
    have "- sint (sn_e a - sn_e b) - int k = int f" using d False unfolding f_def by linarith
    moreover have "\<not> sint (sn_e a - sn_e b) \<ge> - int k" using d False by linarith
    ultimately have res: "res = (simple_uint128_multi_u64 rx (uint64_pow 10 (int f)), 0)"
      by (simp add: res_def)
    have "nat128 rx * 10 ^ f < 2 ^ 128" using fits q by simp
    then have m: "nat128 (simple_uint128_multi_u64 rx (uint64_pow 10 (int f))) = nat128 rx * 10 ^ f"
      using f(2) by (simp add: nat128_multi_u64 unat_uint64_pow)
    show ?thesis
      unfolding res fst_conv snd_conv m word_of_int_0 unsigned_0 brackets_iff [OF e f(1)]
      using fits trunc16_brackets [OF xb disjI1 [OF dvd'], where e = 0] unfolding q by simp
  qed
qed


lemma safe_number_div_brackets:
  assumes "sn_normal a" "sn_normal b" "magnitude a \<noteq> 0" "magnitude b \<noteq> 0"
    and "nat128 (sn_x b) \<le> 2 ^ 127" "magnitude a \<le> 10 ^ 16 * magnitude b"
  shows "\<exists>r. safe_number_div a b = Inr r \<and> sn_normal r \<and> brackets (magnitude r) a b
    \<and> scaled r = with_sign (sn_sign a = sn_sign b) (int (magnitude r))"
proof -
  let ?a = "simple_uint256_create uint128_0 (sn_x a)" and ?b = "simple_uint256_create uint128_0 (sn_x b)"
  have n: "nat256 ?a = nat128 (sn_x a)" "nat256 ?b = nat128 (sn_x b)"
    by (simp_all add: val256_create val128_consts)
  have xb: "0 < nat128 (sn_x b)" using assms(4) by (auto simp: magnitude_def)
  obtain rx k where l: "div_loop ?a ?b uint128_0 (- 1) = Inr (rx, int k)" "k \<le> 16"
      "nat128 rx = nat128 (sn_x a) * 10 ^ k div nat128 (sn_x b)"
      "k = 16 \<or> nat128 (sn_x b) dvd nat128 (sn_x a) * 10 ^ k \<or> 10 ^ 32 \<le> nat128 rx"
    using div_loop_eq [OF n(2) xb assms(5) n(1), of "- 1" uint128_0] nat128_less [of "sn_x a"]
    by (auto simp: val128_consts)
  define res where "res = (if sint (sn_e a - sn_e b) \<ge> - int k then (rx, int k + sint (sn_e a - sn_e b))
      else (simple_uint128_multi_u64 rx (uint64_pow 10 (- sint (sn_e a - sn_e b) - int k)), 0))"
  have t: "nat128 (fst res) \<le> 10 ^ (16 + unat (word_of_int (snd res) :: u32))"
      "brackets (trunc16 (nat128 (fst res)) (unat (word_of_int (snd res) :: u32))) a b"
    using div_tail [OF assms(1,2,4,6) l(2-4)] by (auto simp: res_def)
  have z: "\<not> safe_number_is_zero a" "\<not> safe_number_is_zero b" "sn_valid a" "sn_valid b"
    using assms(1-4) by (auto simp: safe_number_is_zero_iff sn_normal_def)
  have "safe_number_div a b
      = safe_number_create (sn_sign a = sn_sign b) (fst res) (word_of_int (snd res))"
    unfolding safe_number_div_def safe_number_is_valid_def Let_def l(1) ebind_simps prod.case
      res_def [symmetric]
    using z by (simp add: case_prod_beta)
  then show ?thesis
    using safe_number_create_eq [of "sn_sign a = sn_sign b" "fst res" "word_of_int (snd res)"] t
    by (auto simp: with_sign_def)
qed

section \<open>Printing and parsing\<close>

lemma c_int_digit:
  assumes "is_dec_digit c"
  shows "uint (c_int c) = int (digit_val c)"
  using assms by (auto simp: is_dec_digit_def c_int_def digit_val_def)


abbreviation horner :: "nat \<Rightarrow> string \<Rightarrow> nat" where
  "horner n s \<equiv> foldl (\<lambda>n c. n * 10 + digit_val c) n s"

lemma horner_ge: "n \<le> horner n s"
proof (induction s arbitrary: n)
  case (Cons c s)
  have "n \<le> n * 10 + digit_val c" by simp
  also have "\<dots> \<le> horner (n * 10 + digit_val c) s" by (rule Cons.IH)
  finally show ?case by simp
qed simp

lemma nat128_add_u64: "nat128 (simple_uint128_add_u64 x w) = (nat128 x + unat w) mod 2 ^ 128"
  using val128_bounds [of x] by (simp add: val128_add_u64 nat_mod_distrib nat_add_distrib)

lemma parse_digits:
  assumes "\<forall>c \<in> set s. is_dec_digit c" "unat e + length s < 2 ^ 32" "horner (nat128 x) s < 2 ^ 128"
  shows "\<exists>x' e'. parse_loop (s @ rest) after_dot x e = parse_loop rest after_dot x' e'
    \<and> nat128 x' = horner (nat128 x) s
    \<and> unat e' = unat e + (if after_dot then length s else 0)"
  using assms
proof (induction s arbitrary: x e)
  case (Cons c s)
  define x1 where "x1 = simple_uint128_add_u64 (simple_uint128_multi x uint128_10) (c_int c)"
  define e1 where "e1 = (if after_dot then e + 1 else e)"
  have c: "c \<noteq> CHR ''.''" "unat (c_int c) = digit_val c"
    using Cons.prems(1) c_int_digit [of c] by (auto simp: is_dec_digit_def unat_eq_nat_uint simp del: nat_uint_eq)
  have "nat128 x * 10 + digit_val c < 2 ^ 128"
    using horner_ge [of "nat128 x * 10 + digit_val c" s] Cons.prems(3) by simp
  then have x1: "nat128 x1 = nat128 x * 10 + digit_val c"
    by (simp add: x1_def nat128_add_u64 nat128_multi c)
  have e1: "unat e1 = unat e + (if after_dot then 1 else 0)"
    using Cons.prems(2) by (simp add: e1_def unat_word_ariths)
  have "unat e1 + length s < 2 ^ 32" using e1 Cons.prems(2) by simp
  then obtain x' e' where "parse_loop (s @ rest) after_dot x1 e1 = parse_loop rest after_dot x' e'"
      "nat128 x' = horner (nat128 x1) s" "unat e' = unat e1 + (if after_dot then length s else 0)"
    using Cons.IH [of e1 x1] Cons.prems x1 by auto
  then show ?case
    using c(1) x1 e1 by (intro exI [of _ x'] exI [of _ e']) (simp add: x1_def [symmetric] e1_def [symmetric])
qed auto

lemma compress_number_id: "sn_normal a \<Longrightarrow> compress_number a = Inr a"
  using safe_number_create_id [of a] by (cases a) (simp add: safe_number_create_def sn_normal_def)

lemma horner_of_digits: "horner 0 s = of_digits 10 s"
  by (simp add: of_digits_def)

text \<open>The text of a nonzero number in normal form, and what reading its digits yields.\<close>

definition decimal :: "nat \<Rightarrow> nat \<Rightarrow> string" where
  "decimal x e = nat_to_string 10 (x div 10 ^ e) @
     (if e = 0 then '''' else ''.'' @ pad_left e (nat_to_string 10 (x mod 10 ^ e)))"

lemma normal_fraction: "normal x e \<Longrightarrow> x \<noteq> 0 \<Longrightarrow> x mod 10 ^ e \<noteq> 0 \<longleftrightarrow> e \<noteq> 0"
proof -
  assume n: "normal x e" "x \<noteq> 0"
  have "e = 0" if "10 ^ e dvd x"
  proof (rule ccontr)
    assume "e \<noteq> 0"
    then have "10 dvd (10 :: nat) ^ e" by (simp add: dvd_power)
    then have "10 dvd x" using that by (rule dvd_trans)
    then show False using n \<open>e \<noteq> 0\<close> by (simp add: normal_def)
  qed
  then show ?thesis by (cases "e = 0") (auto simp: dvd_eq_mod_eq_0)
qed

lemma safe_number_to_string_eq:
  assumes "sn_normal a" "magnitude a \<noteq> 0"
  shows "safe_number_to_string a = Inr ((if sn_sign a then '''' else ''-'')
    @ decimal (nat128 (sn_x a)) (unat (sn_e a)))"
proof -
  let ?x = "nat128 (sn_x a)" and ?e = "unat (sn_e a)"
  obtain r where r: "simple_uint128_divmod (sn_x a)
        (simple_uint128_create 0 (uint64_pow 10 (sint (sn_e a)))) = Inr r"
      "nat128 (div_result r) = ?x div 10 ^ ?e" "nat128 (mod_result r) = ?x mod 10 ^ ?e"
    using divmod_pow10 [OF sn_normal_e [OF assms(1)]] by blast
  have x: "?x \<noteq> 0" using assms(2) by (auto simp: magnitude_def)
  have v: "sn_valid a" "\<not> safe_number_is_zero a"
    using assms by (auto simp: sn_normal_def safe_number_is_zero_iff)
  have z: "simple_uint128_is_zero (mod_result r) \<longleftrightarrow> ?e = 0"
    using normal_fraction [of ?x ?e] assms(1) x r(3) val128_bounds [of "mod_result r"]
    by (auto simp: simple_uint128_is_zero_iff sn_normal_def)
  have b: "\<not> ((10 :: u8) < 2 \<or> 10 > (16 :: u8))" "unat (10 :: u8) = 10" by simp_all
  show ?thesis
    unfolding safe_number_to_string_def compress_number_id [OF assms(1)] ebind_simps
      safe_number_is_valid_def r(1) simple_uint128_to_string_eq b(2) r(2,3)
    using v z b(1) by (simp add: decimal_def pad_left_def)
qed

lemma decimal_digits:
  "\<forall>c \<in> set (nat_to_string 10 n). is_dec_digit c"
  "\<forall>c \<in> set (pad_left k (nat_to_string 10 n)). is_dec_digit c"
proof -
  have "is_dec_digit CHR ''0''" by (simp add: is_dec_digit_def)
  then show "\<forall>c \<in> set (nat_to_string 10 n). is_dec_digit c"
    "\<forall>c \<in> set (pad_left k (nat_to_string 10 n)). is_dec_digit c"
    using nat_to_string_digits [of n] set_pad_left [of k "nat_to_string 10 n"] by blast+
qed

lemma parse_decimal:
  assumes "x < 2 ^ 128" "e \<le> 16"
  shows "\<exists>x' e'. parse_loop (decimal x e) False uint128_0 0 = Some (x', e') \<and> nat128 x' = x \<and> unat e' = e"
proof -
  let ?p = "nat_to_string 10 (x div 10 ^ e)" and ?q = "pad_left e (nat_to_string 10 (x mod 10 ^ e))"
  have hp: "horner 0 ?p = x div 10 ^ e"
    by (simp add: horner_of_digits of_digits_nat_to_string)
  have small: "x div 10 ^ e < 2 ^ 128" using assms(1) by (rule le_less_trans [OF div_le_dividend])
  then have "length ?p \<le> 39" by (intro length_nat_to_string) simp_all
  then have p: "\<exists>x' e'. parse_loop (?p @ rest) False uint128_0 0 = parse_loop rest False x' e'
      \<and> nat128 x' = x div 10 ^ e \<and> unat e' = 0" for rest
    using parse_digits [OF decimal_digits(1) [of "x div 10 ^ e"], of 0 uint128_0 rest False] hp small
    by (simp add: val128_consts)
  show ?thesis
  proof (cases "e = 0")
    case True
    then show ?thesis using p [of "[]"] by (auto simp: decimal_def)
  next
    case False
    obtain x1 e1 where p1: "parse_loop (?p @ (''.'' @ ?q)) False uint128_0 0 = parse_loop (''.'' @ ?q) False x1 e1"
        "nat128 x1 = x div 10 ^ e" "unat e1 = 0" using p by blast
    have lq: "length ?q = e"
      using False by (intro length_pad_left length_nat_to_string) simp_all
    have "horner (nat128 x1) ?q = of_digits 10 (?p @ ?q)"
      using hp p1(2) by (simp add: of_digits_def)
    also have "\<dots> = x"
      by (simp add: of_digits_append_gen of_digits_nat_to_string lq div_mult_mod_eq)
    finally have hq: "horner (nat128 x1) ?q = x" .
    obtain x' e' where "parse_loop (?q @ []) True x1 e1 = parse_loop [] True x' e'"
        "nat128 x' = x" "unat e' = e"
      using parse_digits [OF decimal_digits(2) [of e "x mod 10 ^ e"], of e1 x1 "[]" True] hq lq p1(3) assms
      by auto
    then show ?thesis using False p1 by (simp add: decimal_def)
  qed
qed

lemma length_decimal:
  assumes "x < 2 ^ 128" "normal x e"
  shows "length (decimal x e) \<le> 39"
proof (cases "e = 0")
  case True
  then show ?thesis
    using assms(1) by (auto simp: decimal_def intro!: length_nat_to_string)
next
  case False
  have e: "e \<le> 16" and x: "x \<le> 10 ^ 32" using assms(2) False by (simp_all add: normal_def)
  have "x < 10 ^ 33" using x by simp
  also have "(10 :: nat) ^ 33 = 10 ^ (33 - e) * 10 ^ e"
    using e by (subst power_add [symmetric]) simp
  finally have "length (nat_to_string 10 (x div 10 ^ e)) \<le> 33 - e"
    using e by (intro length_nat_to_string less_mult_imp_div_less) simp_all
  moreover have "length (pad_left e (nat_to_string 10 (x mod 10 ^ e))) = e"
    using False by (intro length_pad_left length_nat_to_string) simp_all
  ultimately show ?thesis using False e by (simp add: decimal_def)
qed

lemma decimal_hd: "decimal x e \<noteq> []" "is_dec_digit (hd (decimal x e))"
  using decimal_digits(1) [of "x div 10 ^ e"] by (simp_all add: decimal_def)

text \<open>Printing a nonzero number in normal form and parsing the text gives the number back.\<close>

lemma safe_number_roundtrip:
  assumes "sn_normal a" "magnitude a \<noteq> 0"
  shows "ebind (safe_number_to_string a) safe_number_create_str = Inr a"
proof -
  let ?d = "decimal (nat128 (sn_x a)) (unat (sn_e a))"
  obtain x e where p: "parse_loop ?d False uint128_0 0 = Some (x, e)"
      "nat128 x = nat128 (sn_x a)" "unat e = unat (sn_e a)"
    using parse_decimal [OF nat128_less sn_normal_e [OF assms(1)]] by blast
  then have x: "x = sn_x a" "e = sn_e a" by (simp_all only: nat128_inj word_unat_eq_iff)
  have len: "length ?d \<le> 39"
    using assms(1) by (intro length_decimal [OF nat128_less]) (simp add: sn_normal_def)
  have hd: "?d \<noteq> []" "hd ?d \<noteq> CHR ''+''" "hd ?d \<noteq> CHR ''-''" "hd ?d \<noteq> CHR ''N''"
    using decimal_hd [of "nat128 (sn_x a)" "unat (sn_e a)"] by (auto simp: is_dec_digit_def)
  have "safe_number_create_str ((if sn_sign a then '''' else ''-'') @ ?d)
      = safe_number_create (sn_sign a) (sn_x a) (sn_e a)"
    using len hd p(1) x by (cases ?d) (auto simp: safe_number_create_str_def Let_def)
  then show ?thesis
    using safe_number_create_id [OF assms(1)] by (simp add: safe_number_to_string_eq [OF assms])
qed

end
