(* ===== verification/Uniswap_Contract.thy ===== *)
theory Uniswap_Contract
  imports Token_Contract Safe_Number
begin

text \<open>
  The liquidity pool contract, \<^verbatim>\<open>native_uniswap_contract.cpp\<close>. It is a token contract whose
  token stands for shares of a pool of two assets; besides the token's storage it keeps the
  pool amounts, the fee rate and, in one fast map per user, the deposits. Prices are computed
  with the decimal numbers of \<open>Safe_Number\<close>.
\<close>

section \<open>Definitions\<close>

definition MAX_ASSET_AMOUNT :: int where
  "MAX_ASSET_AMOUNT = 4000000000000000"

definition uniswap_contract_key :: string where
  "uniswap_contract_key = ''uniswap''"

definition uniswap_apis :: "string set" where
  "uniswap_apis = {''init'', ''init_token'', ''transfer'', ''transferFrom'', ''balanceOf'', ''approve'',
     ''approvedBalanceFrom'', ''allApprovedFromUser'', ''state'', ''supply'', ''totalSupply'', ''precision'',
     ''tokenName'', ''tokenSymbol'', ''addLiquidity'', ''removeLiquidity'', ''on_deposit_asset'',
     ''init_config'', ''withraw'', ''setMinAddAmount'', ''caculateExchangeAmount'', ''getInfo'',
     ''balanceOfAsset'', ''getUserRemoveableLiquidity'', ''caculatePoolShareByToken''}"

definition uniswap_offline_apis :: "string set" where
  "uniswap_offline_apis = {''balanceOf'', ''approvedBalanceFrom'', ''allApprovedFromUser'', ''state'', ''supply'',
     ''totalSupply'', ''precision'', ''tokenName'', ''tokenSymbol'', ''caculateExchangeAmount'', ''getInfo'',
     ''balanceOfAsset'', ''getUserRemoveableLiquidity'', ''caculatePoolShareByToken''}"

definition uniswap_events :: "string set" where
  "uniswap_events = {''Inited'', ''Transfer'', ''Approved'', ''SetMinAddAmount'', ''Exchanged'', ''Withdrawed'',
     ''Deposited'', ''LiquidityAdded'', ''LiquidityTokenMinted'', ''LiquidityRemoved'',
     ''LiquidityTokenDestoryed''}"

definition not_inited_state_of_contract :: string where
  "not_inited_state_of_contract = ''NOT_INITED''"

definition common_state_of_contract :: string where
  "common_state_of_contract = ''COMMON''"

definition uniswap_init_api :: handler where
  "uniswap_init_api en api_arg st =
    ebind (token_init_api en api_arg st) (\<lambda>st.
    let st = set_current_contract_storage en ''fee_rate'' (COT_STRING ''0.0'') st;
        st = set_current_contract_storage en ''asset_1_symbol'' (COT_STRING '''') st;
        st = set_current_contract_storage en ''asset_2_symbol'' (COT_STRING '''') st;
        st = set_current_contract_storage en ''asset_1_pool_amount'' (COT_INT 0) st;
        st = set_current_contract_storage en ''asset_2_pool_amount'' (COT_INT 0) st;
        st = set_current_contract_storage en ''min_asset1_amount'' (COT_INT 0) st
    in Inr (set_current_contract_storage en ''min_asset2_amount'' (COT_INT 0) st))"

definition getInputPrice :: "int \<Rightarrow> int \<Rightarrow> int \<Rightarrow> int result" where
  "getInputPrice input_amount input_reserve output_reserve =
    ebind (safe_number_create_int64 input_reserve) (\<lambda>a.
    ebind (safe_number_create_int64 output_reserve) (\<lambda>b.
    ebind (safe_number_create_int64 input_amount) (\<lambda>x.
    ebind (safe_number_multiply x b) (\<lambda>n.
    ebind (safe_number_add a x) (\<lambda>d.
    ebind (safe_number_div n d) safe_number_to_int64)))))"

text \<open>A decimal number rounded up to the next integer, as the handlers do it.\<close>

definition round_up_to_int64 :: "SafeNumber \<Rightarrow> int result" where
  "round_up_to_int64 temp =
    ebind (safe_number_to_int64 temp) (\<lambda>v.
    ebind (safe_number_create_int64 v) (\<lambda>n.
      Inr (if safe_number_ne n temp then v + 1 else v)))"

definition exchange_fee :: "string \<Rightarrow> int \<Rightarrow> int result" where
  "exchange_fee feeRate amount =
    ebind (safe_number_create_str feeRate) (\<lambda>nFeeRate.
    ebind (safe_number_create_int64 amount) (\<lambda>n.
    ebind (safe_number_multiply n nFeeRate) (\<lambda>temp.
    ebind (round_up_to_int64 temp) (\<lambda>fee.
      Inr (if fee \<le> 0 then 1 else fee)))))"

text \<open>An entry of a fast map read as an integer, zero when there is none.\<close>

definition fast_map_int ::
    "contract_env \<Rightarrow> contract_invoke_result \<Rightarrow> string \<Rightarrow> string \<Rightarrow> int result" where
  "fast_map_int en st storage_name key =
    (let v = current_fast_map_get en st storage_name key
     in if is_integer v then force_as_int v else Inr 0)"

definition setMinAddAmount_api :: handler where
  "setMinAddAmount_api en api_arg st =
    ebind (check_admin en st) (\<lambda>_.
    ebind (get_storage_state en st) (\<lambda>state.
    if state \<noteq> common_state_of_contract then throw_error ''state not common''
    else let parsed_args = split_comma api_arg
    in if length parsed_args \<noteq> 2
    then throw_error ''argument format error, need format: min_asset1_amount,min_asset2_amount''
    else let min_amount1 = parsed_args ! 0; min_amount2 = parsed_args ! 1
    in if \<not> is_integral min_amount1 \<or> \<not> is_integral min_amount2
    then throw_error ''argument format error, need format: min_asset1_amount,min_asset2_amount''
    else ebind (stoll min_amount1) (\<lambda>min_asset1_amount.
    ebind (stoll min_amount2) (\<lambda>min_asset2_amount.
    if min_asset1_amount \<le> 0 \<or> min_asset2_amount \<le> 0
    then throw_error ''argument format error, min_asset_amount to add liquidity must be positive integer''
    else let st = set_current_contract_storage en ''min_asset1_amount'' (COT_INT min_asset1_amount) st;
             st = set_current_contract_storage en ''min_asset2_amount'' (COT_INT min_asset2_amount) st
    in emit_event en ''SetMinAddAmount'' (Plain api_arg) st))))"

definition init_config_format :: string where
  "init_config_format = ''argument format error, need format: asset1,asset2,min_asset1_amount,min_asset2_amount,fee_rate,token_name,token_symbol''"

definition init_config_api :: handler where
  "init_config_api en api_arg st =
    ebind (check_admin en st) (\<lambda>_.
    ebind (get_storage_state en st) (\<lambda>state.
    if state \<noteq> not_inited_state_of_contract then throw_error ''this contract inited before''
    else let parsed_args = split_comma api_arg
    in if length parsed_args \<noteq> 7 then throw_error init_config_format
    else let asset1 = trim (parsed_args ! 0); asset2 = trim (parsed_args ! 1)
    in if asset1 = [] \<or> asset2 = [] then throw_error init_config_format
    else if asset1 = asset2 then throw_error ''asset1 is same with asset2''
    else let min_amount1 = parsed_args ! 2; min_amount2 = parsed_args ! 3; feestr = parsed_args ! 4
    in if \<not> is_integral min_amount1 \<or> \<not> is_integral min_amount2 \<or> \<not> is_numeric feestr
    then throw_error init_config_format
    else ebind (stoll min_amount1) (\<lambda>min_asset1_amount.
    ebind (stoll min_amount2) (\<lambda>min_asset2_amount.
    ebind (safe_number_create_str feestr) (\<lambda>feeRate.
    if min_asset1_amount \<le> 0 \<or> min_asset2_amount \<le> 0
    then throw_error ''argument format error, min_asset_amount to add liquidity must be positive integer''
    else ebind (safe_number_create_int64 0) (\<lambda>zero.
    ebind (safe_number_lt feeRate zero) (\<lambda>below.
    ebind (safe_number_create_int64 1) (\<lambda>one.
    ebind (if below then Inr True else safe_number_gte feeRate one) (\<lambda>bad.
    if bad then throw_error ''argument format error, fee rate must be >=0 and < 1''
    else let token_name = trim (parsed_args ! 5); token_symbol = trim (parsed_args ! 6)
    in if token_name = [] \<or> token_symbol = [] then throw_error init_config_format
    else
      let st = set_current_contract_storage en ''fee_rate'' (COT_STRING feestr) st;
          st = set_current_contract_storage en ''asset_1_symbol'' (COT_STRING asset1) st;
          st = set_current_contract_storage en ''asset_2_symbol'' (COT_STRING asset2) st;
          st = set_current_contract_storage en ''min_asset1_amount'' (COT_INT min_asset1_amount) st;
          st = set_current_contract_storage en ''min_asset2_amount'' (COT_INT min_asset2_amount) st;
          st = set_current_contract_storage en ''state'' (COT_STRING common_state_of_contract) st;
          st = set_current_contract_storage en ''name'' (COT_STRING token_name) st;
          st = set_current_contract_storage en ''symbol'' (COT_STRING token_symbol) st;
          st = set_current_contract_storage en ''precision'' (COT_INT 1) st
      in emit_event en ''Inited'' (Dumped (Json_object
           [(''fee_rate'', Json_string feestr), (''symbol'', Json_string token_symbol),
            (''precision'', Json_int 1), (''name'', Json_string token_name),
            (''state'', Json_string common_state_of_contract), (''supply'', Json_int 0),
            (''asset_1_symbol'', Json_string asset1), (''asset_2_symbol'', Json_string asset2),
            (''min_asset1_amount'', Json_int min_asset1_amount),
            (''min_asset2_amount'', Json_int min_asset2_amount)])) st)))))))))"

text \<open>
  \<open>addLiquidity\<close>: the deposit of the first asset and the limits are given, the deposit of
  the second asset follows from the pool's ratio, rounded up; the minted token amount is
  rounded down.
\<close>

definition liquidity_asset2_amount :: "int \<Rightarrow> int \<Rightarrow> int \<Rightarrow> int \<Rightarrow> int result" where
  "liquidity_asset2_amount asset_1_pool_amount asset_2_pool_amount add_asset1_amount max_add_asset2_amount =
    ebind (safe_number_create_int64 asset_1_pool_amount) (\<lambda>a.
    ebind (safe_number_create_int64 asset_2_pool_amount) (\<lambda>b.
    ebind (safe_number_create_int64 add_asset1_amount) (\<lambda>x.
    if asset_1_pool_amount \<noteq> 0 \<and> asset_2_pool_amount \<noteq> 0
    then ebind (safe_number_multiply x b) (\<lambda>xb.
         ebind (safe_number_div xb a) (\<lambda>temp.
         ebind (round_up_to_int64 temp) (\<lambda>caculate_asset2_amount.
         if caculate_asset2_amount > max_add_asset2_amount
         then throw_error ''caculate_asset2_amount > max_add_asset2_amount''
         else Inr caculate_asset2_amount)))
    else Inr max_add_asset2_amount)))"

definition minted_token_amount :: "int \<Rightarrow> int \<Rightarrow> int \<Rightarrow> int \<Rightarrow> int result" where
  "minted_token_amount asset_1_pool_amount asset_2_pool_amount add_asset1_amount supply_amount =
    ebind (if asset_1_pool_amount = 0 \<and> asset_2_pool_amount = 0 \<and> supply_amount = 0
      then Inr (wrap_int64 (add_asset1_amount * 1000))
      else if asset_1_pool_amount \<noteq> 0 \<and> asset_2_pool_amount \<noteq> 0 \<and> supply_amount \<noteq> 0
      then ebind (safe_number_create_int64 add_asset1_amount) (\<lambda>x.
           ebind (safe_number_create_int64 supply_amount) (\<lambda>s.
           ebind (safe_number_multiply x s) (\<lambda>xs.
           ebind (safe_number_create_int64 asset_1_pool_amount) (\<lambda>a.
           ebind (safe_number_div xs a) safe_number_to_int64))))
      else throw_error ''internal error, asset_1_pool_amount,asset_2_pool_amount,supply not unified 0'') (\<lambda>token_amount.
    if token_amount \<le> 0 then throw_error ''get token_amount is 0'' else Inr token_amount)"

definition addLiquidity_format :: string where
  "addLiquidity_format = ''argument format error, need format: add_asset1_amount,max_add_asset2_amount,expired_blocknum''"

definition addLiquidity_api :: handler where
  "addLiquidity_api en api_arg st =
    ebind (get_storage_state en st) (\<lambda>state.
    if state \<noteq> common_state_of_contract then throw_error ''state not common!''
    else let parsed_args = split_comma api_arg
    in if length parsed_args \<noteq> 3 then throw_error addLiquidity_format
    else let add_asset1_amount_str = parsed_args ! 0; max_add_asset2_amount_str = parsed_args ! 1;
             expired_blocknum_str = parsed_args ! 2
    in if \<not> is_integral add_asset1_amount_str \<or> \<not> is_integral max_add_asset2_amount_str
          \<or> \<not> is_integral expired_blocknum_str
    then throw_error addLiquidity_format
    else ebind (stoll add_asset1_amount_str) (\<lambda>add_asset1_amount.
    ebind (stoll max_add_asset2_amount_str) (\<lambda>max_add_asset2_amount.
    ebind (stoll expired_blocknum_str) (\<lambda>expired_blocknum.
    if add_asset1_amount \<le> 0 \<or> max_add_asset2_amount \<le> 0
    then throw_error ''argument format error, add_asset_amount to add liquidity must be positive integer''
    else if expired_blocknum \<le> 0
    then throw_error ''argument format error, expired_blocknum must be positive integer''
    else if expired_blocknum \<le> env_head_block_num en
    then throw_error (''expired blocknum:'' @ expired_blocknum_str)
    else ebind (get_int_current_contract_storage en st ''min_asset1_amount'') (\<lambda>min1.
    if add_asset1_amount < min1 then throw_error ''add_asset1_amount must >= min_asset1_amount''
    else ebind (get_int_current_contract_storage en st ''min_asset2_amount'') (\<lambda>min2.
    if max_add_asset2_amount < min2 then throw_error ''max_add_asset2_amount must >= min_asset2_amount''
    else ebind (get_int_current_contract_storage en st ''asset_1_pool_amount'') (\<lambda>asset_1_pool_amount.
    ebind (get_int_current_contract_storage en st ''asset_2_pool_amount'') (\<lambda>asset_2_pool_amount.
    ebind (liquidity_asset2_amount asset_1_pool_amount asset_2_pool_amount add_asset1_amount
             max_add_asset2_amount) (\<lambda>caculate_asset2_amount.
    let from_address = get_from_address en
    in ebind (get_string_current_contract_storage en st ''asset_1_symbol'') (\<lambda>asset1.
    ebind (get_string_current_contract_storage en st ''asset_2_symbol'') (\<lambda>asset2.
    let user_asset1_balance_cbor = current_fast_map_get en st from_address asset1
    in if \<not> is_integer user_asset1_balance_cbor then throw_error (''no balance of '' @ asset1)
    else let user_asset2_balance_cbor = current_fast_map_get en st from_address asset2
    in if \<not> is_integer user_asset2_balance_cbor then throw_error (''no balance of '' @ asset2)
    else ebind (force_as_int user_asset1_balance_cbor) (\<lambda>asset1_balance.
    ebind (force_as_int user_asset2_balance_cbor) (\<lambda>asset2_balance.
    if add_asset1_amount > asset1_balance \<or> caculate_asset2_amount > asset2_balance
    then throw_error ''not enough balance''
    else
    let st = current_fast_map_set en from_address asset1 (COT_INT (asset1_balance - add_asset1_amount)) st;
        st = current_fast_map_set en from_address asset2 (COT_INT (asset2_balance - caculate_asset2_amount)) st
    in ebind (get_int_current_contract_storage en st ''supply'') (\<lambda>supply_amount.
    ebind (minted_token_amount asset_1_pool_amount asset_2_pool_amount add_asset1_amount supply_amount) (\<lambda>token_amount.
    let asset_1_pool_amount = wrap_int64 (asset_1_pool_amount + add_asset1_amount);
        asset_2_pool_amount = wrap_int64 (asset_2_pool_amount + caculate_asset2_amount)
    in if asset_1_pool_amount > MAX_ASSET_AMOUNT then throw_error ''EXCEED MAX ASSET AMOUNT''
    else
    let st = set_current_contract_storage en ''asset_1_pool_amount'' (COT_INT asset_1_pool_amount) st;
        st = set_current_contract_storage en ''asset_2_pool_amount'' (COT_INT asset_2_pool_amount) st;
        st = set_current_contract_storage en ''supply'' (COT_INT (wrap_int64 (supply_amount + token_amount))) st
    in ebind (fast_map_int en st ''users'' from_address) (\<lambda>token_bal.
    let st = current_fast_map_set en ''users'' from_address (COT_INT (wrap_int64 (token_bal + token_amount))) st
    in ebind (emit_event en ''LiquidityAdded'' (Dumped (Json_object
         (json_put asset2 (Json_int caculate_asset2_amount) [(asset1, Json_int add_asset1_amount)]))) st) (\<lambda>st.
    ebind (emit_event en ''LiquidityTokenMinted'' (Plain (int_to_string token_amount)) st) (\<lambda>st.
    let st = set_api_result (Plain (int_to_string token_amount)) st
    in emit_event en ''Transfer'' (Dumped (Json_object [(''from'', Json_string ''''),
         (''to'', Json_string from_address), (''amount'', Json_int token_amount)])) st))))))))))))))))))"

text \<open>
  \<open>removeLiquidity\<close>: a share of both pools for a token amount, all of it for the whole supply.
  The old balance of the second asset is read from the entry of the first.
\<close>

definition pool_share :: "int \<Rightarrow> int \<Rightarrow> int \<Rightarrow> int \<Rightarrow> (int \<times> int) result" where
  "pool_share token_amount supply_amount asset_1_pool_amount asset_2_pool_amount =
    ebind (safe_number_create_int64 asset_1_pool_amount) (\<lambda>a.
    ebind (safe_number_create_int64 asset_2_pool_amount) (\<lambda>b.
    ebind (safe_number_create_int64 supply_amount) (\<lambda>s.
    ebind (safe_number_create_int64 token_amount) (\<lambda>tk.
    ebind (safe_number_div tk s) (\<lambda>quota.
    ebind (safe_number_multiply quota a) (\<lambda>qa.
    ebind (safe_number_to_int64 qa) (\<lambda>share1.
    ebind (safe_number_multiply quota b) (\<lambda>qb.
    ebind (safe_number_to_int64 qb) (\<lambda>share2. Inr (share1, share2))))))))))"

definition removeLiquidity_format :: string where
  "removeLiquidity_format = ''argument format error, need format: destory_token_amount,min_remove_asset1_amount,min_remove_asset2_amount,expired_blocknum''"

definition removeLiquidity_api :: handler where
  "removeLiquidity_api en api_arg st =
    ebind (get_storage_state en st) (\<lambda>state.
    if state \<noteq> common_state_of_contract then throw_error ''state not common!''
    else let parsed_args = split_comma api_arg
    in if length parsed_args \<noteq> 4 then throw_error removeLiquidity_format
    else let destory_token_amount_str = parsed_args ! 0; min_remove_asset1_amount_str = parsed_args ! 1;
             min_remove_asset2_amount_str = parsed_args ! 2; expired_blocknum_str = parsed_args ! 3
    in if \<not> is_integral min_remove_asset1_amount_str \<or> \<not> is_integral min_remove_asset2_amount_str
          \<or> \<not> is_integral destory_token_amount_str \<or> \<not> is_integral expired_blocknum_str
    then throw_error removeLiquidity_format
    else ebind (stoll destory_token_amount_str) (\<lambda>destory_token_amount.
    ebind (stoll min_remove_asset1_amount_str) (\<lambda>min_remove_asset1_amount.
    ebind (stoll min_remove_asset2_amount_str) (\<lambda>min_remove_asset2_amount.
    ebind (stoll expired_blocknum_str) (\<lambda>expired_blocknum.
    if min_remove_asset1_amount < 0 \<or> min_remove_asset2_amount < 0 \<or> destory_token_amount \<le> 0
       \<or> expired_blocknum \<le> 0
    then throw_error ''argument format error, input args must be positive integers''
    else if expired_blocknum \<le> env_head_block_num en
    then throw_error (''expired blocknum:'' @ expired_blocknum_str)
    else let from_address = get_from_address en
    in ebind (fast_map_int en st ''users'' from_address) (\<lambda>token_bal.
    if destory_token_amount > token_bal then throw_error ''you have not enough liquidity to remove''
    else ebind (get_int_current_contract_storage en st ''asset_1_pool_amount'') (\<lambda>asset_1_pool_amount.
    ebind (get_int_current_contract_storage en st ''asset_2_pool_amount'') (\<lambda>asset_2_pool_amount.
    ebind (get_int_current_contract_storage en st ''supply'') (\<lambda>supply_amount.
    if asset_1_pool_amount \<le> 0 \<or> supply_amount \<le> 0 \<or> asset_2_pool_amount \<le> 0
    then throw_error ''pool is empty''
    else if min_remove_asset1_amount > asset_1_pool_amount \<or> min_remove_asset2_amount > asset_2_pool_amount
    then throw_error ''wrong remove_asset_amount''
    else ebind (if supply_amount = destory_token_amount then Inr (asset_1_pool_amount, asset_2_pool_amount)
      else pool_share destory_token_amount supply_amount asset_1_pool_amount asset_2_pool_amount)
      (\<lambda>(caculate_asset1_amount, caculate_asset2_amount).
    if caculate_asset1_amount < min_remove_asset1_amount
    then throw_error ''caculate_asset1_amount < min_remove_asset1_amount''
    else if caculate_asset2_amount < min_remove_asset2_amount
    then throw_error ''caculate_asset2_amount < min_remove_asset2_amount''
    else ebind (get_string_current_contract_storage en st ''asset_1_symbol'') (\<lambda>asset1.
    ebind (get_string_current_contract_storage en st ''asset_2_symbol'') (\<lambda>asset2.
    let user_asset1_balance_cbor = current_fast_map_get en st from_address asset1
    in ebind (if is_integer user_asset1_balance_cbor then force_as_int user_asset1_balance_cbor else Inr 0)
      (\<lambda>orig_asset1_balance.
    let user_asset2_balance_cbor = current_fast_map_get en st from_address asset2
    in ebind (if is_integer user_asset2_balance_cbor then force_as_int user_asset1_balance_cbor else Inr 0)
      (\<lambda>orig_asset2_balance.
    let st = current_fast_map_set en from_address asset1
               (COT_INT (wrap_int64 (orig_asset1_balance + caculate_asset1_amount))) st;
        st = current_fast_map_set en from_address asset2
               (COT_INT (wrap_int64 (orig_asset2_balance + caculate_asset2_amount))) st;
        asset_1_pool_amount = asset_1_pool_amount - caculate_asset1_amount;
        asset_2_pool_amount = asset_2_pool_amount - caculate_asset2_amount;
        supply_amount = supply_amount - destory_token_amount
    in if \<not> (asset_1_pool_amount = 0 \<and> asset_2_pool_amount = 0 \<and> supply_amount = 0) \<and>
          \<not> (asset_1_pool_amount \<noteq> 0 \<and> asset_2_pool_amount \<noteq> 0 \<and> supply_amount \<noteq> 0)
    then throw_error ''internal error, pool 0 when supply is not 0''
    else
    let st = set_current_contract_storage en ''asset_1_pool_amount'' (COT_INT asset_1_pool_amount) st;
        st = set_current_contract_storage en ''asset_2_pool_amount'' (COT_INT asset_2_pool_amount) st;
        st = set_current_contract_storage en ''supply'' (COT_INT supply_amount) st;
        st = current_fast_map_set en ''users'' from_address (COT_INT (token_bal - destory_token_amount)) st
    in ebind (emit_event en ''LiquidityRemoved'' (Dumped (Json_object
         (json_put asset2 (Json_int caculate_asset2_amount) [(asset1, Json_int caculate_asset1_amount)]))) st) (\<lambda>st.
       emit_event en ''LiquidityTokenDestoryed'' (Plain (int_to_string destory_token_amount)) st)))))))))))))))"

text \<open>
  \<open>on_deposit_asset\<close>, called when an asset is sent to the contract: an empty \<open>param\<close> is a deposit,
  otherwise it asks for an exchange.
\<close>

definition deposit_asset :: "contract_env \<Rightarrow> string \<Rightarrow> int \<Rightarrow> contract_invoke_result \<Rightarrow> contract_invoke_result result" where
  "deposit_asset en symbol amount st =
    (let from_address = get_from_address en
     in ebind (fast_map_int en st from_address symbol) (\<lambda>user_balance.
        let user_balance = wrap_int64 (user_balance + amount);
            st = current_fast_map_set en from_address symbol (COT_INT user_balance) st
        in emit_event en ''Deposited'' (Dumped (Json_object [(''from_address'', Json_string from_address),
             (''symbol'', Json_string symbol), (''amount'', Json_int amount)])) st))"

definition exchange_format :: string where
  "exchange_format = ''argument format error, need format: want_buy_asset_symbol,min_want_buy_asset_amount,expired_blocknum''"

text \<open>The new pools and the bought amount when an amount of the symbol is sold.\<close>

definition exchange_amounts :: "bool \<Rightarrow> int \<Rightarrow> int \<Rightarrow> int \<Rightarrow> int \<Rightarrow> int \<Rightarrow> (int \<times> int \<times> int) result" where
  "exchange_amounts sell_asset1 amount fee want_buy_asset_amount asset_1_pool_amount asset_2_pool_amount =
    (if sell_asset1
     then if want_buy_asset_amount \<ge> asset_2_pool_amount then throw_error ''pool amount not enough''
       else ebind (getInputPrice (amount - fee) asset_1_pool_amount asset_2_pool_amount) (\<lambda>get_asset_amount.
         if get_asset_amount \<le> 0 then throw_error ''get_asset_amount <= 0''
         else if want_buy_asset_amount > get_asset_amount then throw_error ''can't get what you want amount''
         else Inr (wrap_int64 (asset_1_pool_amount + amount), asset_2_pool_amount - get_asset_amount, get_asset_amount))
     else if want_buy_asset_amount \<ge> asset_1_pool_amount then throw_error ''pool amount not enough''
       else ebind (getInputPrice (amount - fee) asset_2_pool_amount asset_1_pool_amount) (\<lambda>get_asset_amount.
         if get_asset_amount \<le> 0 then throw_error ''get_asset_amount <= 0''
         else if want_buy_asset_amount > get_asset_amount then throw_error ''can't get what you want amount''
         else Inr (asset_1_pool_amount - get_asset_amount, wrap_int64 (asset_2_pool_amount + amount), get_asset_amount)))"

definition exchange_asset ::
    "contract_env \<Rightarrow> string \<Rightarrow> int \<Rightarrow> string \<Rightarrow> string \<Rightarrow> string \<Rightarrow> contract_invoke_result \<Rightarrow>
     contract_invoke_result result" where
  "exchange_asset en symbol amount param asset1 asset2 st =
    (let parsed_args = split_comma param; from_address = get_from_address en
     in if length parsed_args \<noteq> 3 then throw_error exchange_format
     else let want_buy_asset_symbol = parsed_args ! 0; want_buy_asset_amount_str = parsed_args ! 1;
              expired_blocknum_str = parsed_args ! 2
     in if \<not> is_integral want_buy_asset_amount_str \<or> \<not> is_integral expired_blocknum_str
     then throw_error exchange_format
     else ebind (stoll want_buy_asset_amount_str) (\<lambda>want_buy_asset_amount.
     ebind (stoll expired_blocknum_str) (\<lambda>expired_blocknum.
     if want_buy_asset_amount \<le> 0 then throw_error ''want_buy_asset_amount must > 0''
     else if expired_blocknum \<le> 0 then throw_error ''expired_blocknum must > 0''
     else if expired_blocknum \<le> env_head_block_num en
     then throw_error (''expired blocknum:'' @ expired_blocknum_str)
     else if want_buy_asset_symbol \<noteq> asset1 \<and> want_buy_asset_symbol \<noteq> asset2
     then throw_error (''not support buy asset:'' @ want_buy_asset_symbol)
     else if symbol \<noteq> asset1 \<and> symbol \<noteq> asset2 then throw_error (''not support sell asset:'' @ symbol)
     else if want_buy_asset_symbol = symbol
     then throw_error ''deposit asset and want_buy_asset_symbol is same''
     else ebind (get_int_current_contract_storage en st ''asset_1_pool_amount'') (\<lambda>asset_1_pool_amount.
     ebind (get_int_current_contract_storage en st ''asset_2_pool_amount'') (\<lambda>asset_2_pool_amount.
     if asset_1_pool_amount \<le> 0 \<or> asset_2_pool_amount \<le> 0 then throw_error ''pool is empty''
     else ebind (get_string_current_contract_storage en st ''fee_rate'') (\<lambda>feeRate.
     ebind (exchange_fee feeRate amount) (\<lambda>fee.
     if amount \<le> fee then throw_error ''can't get any''
     else ebind (exchange_amounts (symbol = asset1) amount fee want_buy_asset_amount asset_1_pool_amount
              asset_2_pool_amount) (\<lambda>(asset_1_pool_amount, asset_2_pool_amount, get_asset_amount).
     if asset_1_pool_amount \<le> 0 \<or> asset_2_pool_amount \<le> 0 then throw_error ''caculate internal error''
     else
     let st = set_current_contract_storage en ''asset_1_pool_amount'' (COT_INT asset_1_pool_amount) st;
         st = set_current_contract_storage en ''asset_2_pool_amount'' (COT_INT asset_2_pool_amount) st
     in ebind (current_transfer_to_address en from_address want_buy_asset_symbol get_asset_amount st) (\<lambda>st.
     ebind (emit_event en ''Exchanged'' (Dumped (Json_object
          [(''buy_asset'', Json_string (if symbol = asset1 then asset2 else asset1)),
           (''addr'', Json_string from_address), (''fee'', Json_int fee),
           (''sell_asset'', Json_string symbol), (''sell_amount'', Json_int amount),
           (''buy_amount'', Json_int get_asset_amount)])) st) (\<lambda>st.
     Inr (set_api_result (Plain (int_to_string get_asset_amount)) st)))))))))))"

definition on_deposit_asset_api :: handler where
  "on_deposit_asset_api en api_args st =
    ebind (get_storage_state en st) (\<lambda>state.
    if state \<noteq> common_state_of_contract then throw_error ''state not common!''
    else ebind (env_json_from_string en api_args) (\<lambda>args.
    case args of
      Json_object arginfo \<Rightarrow>
        ebind (variant_as_int64 en (json_get arginfo ''num'')) (\<lambda>amount.
        ebind (variant_as_string en (json_get arginfo ''symbol'')) (\<lambda>symbol.
        ebind (variant_as_string en (json_get arginfo ''param'')) (\<lambda>param.
        if amount \<le> 0 then throw_error ''amount must > 0''
        else ebind (get_string_current_contract_storage en st ''asset_1_symbol'') (\<lambda>asset1.
        ebind (get_string_current_contract_storage en st ''asset_2_symbol'') (\<lambda>asset2.
        if symbol \<noteq> asset1 \<and> symbol \<noteq> asset2 then throw_error (''not allowed deposit asset:'' @ symbol)
        else if param = [] then deposit_asset en symbol amount st
        else exchange_asset en symbol amount param asset1 asset2 st)))))
    | _ \<Rightarrow> throw_error ''args not map''))"

section \<open>Queries, withdrawal and dispatch\<close>

definition share_result :: "string \<Rightarrow> string \<Rightarrow> int \<times> int \<Rightarrow> text_value" where
  "share_result asset1 asset2 share =
     Dumped (Json_object (json_put asset2 (Json_int (snd share)) [(asset1, Json_int (fst share))]))"

definition getUserRemoveableLiquidity_api :: handler where
  "getUserRemoveableLiquidity_api en api_arg st =
    ebind (get_storage_state en st) (\<lambda>state.
    if state \<noteq> common_state_of_contract then throw_error ''state not common!''
    else let addr = api_arg
    in ebind (fast_map_int en st ''users'' addr) (\<lambda>token_bal.
    ebind (get_string_current_contract_storage en st ''asset_1_symbol'') (\<lambda>asset1.
    ebind (get_string_current_contract_storage en st ''asset_2_symbol'') (\<lambda>asset2.
    ebind (if token_bal \<le> 0 then Inr (0, 0)
      else ebind (get_int_current_contract_storage en st ''asset_1_pool_amount'') (\<lambda>asset_1_pool_amount.
           ebind (get_int_current_contract_storage en st ''asset_2_pool_amount'') (\<lambda>asset_2_pool_amount.
           ebind (get_int_current_contract_storage en st ''supply'') (\<lambda>supply_amount.
           if token_bal = supply_amount then Inr (asset_1_pool_amount, asset_2_pool_amount)
           else pool_share token_bal supply_amount asset_1_pool_amount asset_2_pool_amount)))) (\<lambda>share.
    Inr (set_api_result (share_result asset1 asset2 share) st))))))"

definition caculatePoolShareByToken_api :: handler where
  "caculatePoolShareByToken_api en api_arg st =
    ebind (get_storage_state en st) (\<lambda>state.
    if state \<noteq> common_state_of_contract then throw_error ''state not common!''
    else ebind (get_string_current_contract_storage en st ''asset_1_symbol'') (\<lambda>asset1.
    ebind (get_string_current_contract_storage en st ''asset_2_symbol'') (\<lambda>asset2.
    ebind (get_int_current_contract_storage en st ''asset_1_pool_amount'') (\<lambda>asset_1_pool_amount.
    ebind (get_int_current_contract_storage en st ''asset_2_pool_amount'') (\<lambda>asset_2_pool_amount.
    ebind (get_int_current_contract_storage en st ''supply'') (\<lambda>supply_amount.
    if \<not> is_integral api_arg then throw_error ''input arg must be integer''
    else ebind (stoll api_arg) (\<lambda>tokenAmount.
    if tokenAmount \<le> 0 then throw_error ''input arg must be positive integer''
    else ebind (if tokenAmount = supply_amount then Inr (asset_1_pool_amount, asset_2_pool_amount)
      else if tokenAmount > supply_amount then throw_error ''input tokenAmount must <= supply''
      else pool_share tokenAmount supply_amount asset_1_pool_amount asset_2_pool_amount) (\<lambda>share.
    Inr (set_api_result (share_result asset1 asset2 share) st)))))))))"

definition balanceOfAsset_api :: handler where
  "balanceOfAsset_api en api_arg st =
    ebind (get_storage_state en st) (\<lambda>state.
    if state \<noteq> common_state_of_contract then throw_error ''state not common!''
    else let parsed_args = split_comma api_arg
    in if length parsed_args \<noteq> 2 then throw_error ''argument format error, need format: address,symbol''
    else let addr = parsed_args ! 0; symbol = parsed_args ! 1
    in ebind (fast_map_int en st addr symbol) (\<lambda>bal.
       Inr (set_api_result (Plain (int_to_string bal)) st)))"

definition withdraw_api :: handler where
  "withdraw_api en api_arg st =
    ebind (get_storage_state en st) (\<lambda>state.
    if state \<noteq> common_state_of_contract then throw_error ''state not common!''
    else let parsed_args = split_comma api_arg
    in if length parsed_args \<noteq> 2 then throw_error ''argument format error, need format: amount,symbol''
    else if \<not> is_integral (parsed_args ! 0) then throw_error ''argument format error, amount must be integral''
    else ebind (to_int64 (parsed_args ! 0)) (\<lambda>amount.
    if amount \<le> 0 then throw_error ''amount must > 0''
    else let symbol = parsed_args ! 1
    in if symbol = [] then throw_error ''symbol is empty''
    else let from_address = caller_address_string en;
             balance = current_fast_map_get en st from_address symbol
    in if \<not> is_integer balance then throw_error ''no balance to withdraw''
    else ebind (force_as_int balance) (\<lambda>bal.
    if amount > bal then throw_error ''not enough balance to withdraw''
    else let newBalance = bal - amount;
             st = (if newBalance = 0 then current_fast_map_set en from_address (parsed_args ! 1) COT_NULL st
                   else current_fast_map_set en from_address (parsed_args ! 1) (COT_INT newBalance) st)
    in ebind (current_transfer_to_address en from_address symbol amount st) (\<lambda>st.
    emit_event en ''Withdrawed'' (Dumped (Json_object [(''symbol'', Json_string symbol),
      (''to_address'', Json_string from_address), (''amount'', Json_int amount)])) st))))"

definition caculateExchangeAmount_api :: handler where
  "caculateExchangeAmount_api en api_arg st =
    ebind (get_storage_state en st) (\<lambda>state.
    if state \<noteq> common_state_of_contract then throw_error ''state not common!''
    else let parsed_args = split_comma api_arg
    in if length parsed_args \<noteq> 3
    then throw_error ''argument format error, need format: want_sell_asset_symbol,want_sell_asset_amount,want_buy_asset_symbol''
    else let want_sell_asset_symbol = parsed_args ! 0; want_sell_asset_amount_str = parsed_args ! 1;
             want_buy_asset_symbol = parsed_args ! 2
    in if \<not> is_integral want_sell_asset_amount_str
    then throw_error ''argument format error, need format: want_sell_asset_symbol,want_sell_asset_amount''
    else ebind (stoll want_sell_asset_amount_str) (\<lambda>want_sell_asset_amount.
    if want_sell_asset_amount \<le> 0 then throw_error ''want_sell_asset_amount must > 0''
    else ebind (get_string_current_contract_storage en st ''asset_1_symbol'') (\<lambda>asset1.
    ebind (get_string_current_contract_storage en st ''asset_2_symbol'') (\<lambda>asset2.
    ebind (get_int_current_contract_storage en st ''asset_1_pool_amount'') (\<lambda>asset_1_pool_amount.
    ebind (get_int_current_contract_storage en st ''asset_2_pool_amount'') (\<lambda>asset_2_pool_amount.
    if asset_1_pool_amount \<le> 0 \<or> asset_2_pool_amount \<le> 0 then throw_error ''pool is empty''
    else ebind (get_string_current_contract_storage en st ''fee_rate'') (\<lambda>feeRate.
    ebind (exchange_fee feeRate want_sell_asset_amount) (\<lambda>fee.
    if want_sell_asset_amount \<le> fee then Inr (set_api_result (Plain (int_to_string 0)) st)
    else ebind (if want_sell_asset_symbol = asset1 \<and> want_buy_asset_symbol = asset2
        then getInputPrice (want_sell_asset_amount - fee) asset_1_pool_amount asset_2_pool_amount
        else if want_sell_asset_symbol = asset2 \<and> want_buy_asset_symbol = asset1
        then getInputPrice (want_sell_asset_amount - fee) asset_2_pool_amount asset_1_pool_amount
        else throw_error ''input asset symbol not match'') (\<lambda>get_asset_amount.
    Inr (set_api_result (Plain (int_to_string get_asset_amount)) st))))))))))"

definition getInfo_api :: handler where
  "getInfo_api en api_arg st =
    (let s = (\<lambda>n. as_string (get_current_contract_storage_cbor en st n));
         i = (\<lambda>n. force_as_int (get_current_contract_storage_cbor en st n))
     in ebind (i ''supply'') (\<lambda>supply_amount.
        ebind (i ''asset_1_pool_amount'') (\<lambda>pool1.
        ebind (i ''asset_2_pool_amount'') (\<lambda>pool2.
        ebind (i ''min_asset1_amount'') (\<lambda>min1.
        ebind (i ''min_asset2_amount'') (\<lambda>min2.
        Inr (set_api_result (Dumped (Json_object
          [(''admin'', Json_string (s ''admin'')), (''state'', Json_string (s ''state'')),
           (''fee_rate'', Json_string (s ''fee_rate'')), (''token_name'', Json_string (s ''name'')),
           (''token_symbol'', Json_string (s ''symbol'')), (''supply'', Json_int supply_amount),
           (''asset_1_symbol'', Json_string (s ''asset_1_symbol'')),
           (''asset_2_symbol'', Json_string (s ''asset_2_symbol'')),
           (''asset_1_pool_amount'', Json_int pool1), (''asset_2_pool_amount'', Json_int pool2),
           (''min_asset1_amount'', Json_int min1), (''min_asset2_amount'', Json_int min2)])) st)))))))"

definition uniswap_api_table :: "(string \<times> handler) list" where
  "uniswap_api_table =
    [(''init'', uniswap_init_api), (''init_config'', init_config_api), (''transfer'', transfer_api),
     (''transferFrom'', transfer_from_api), (''balanceOf'', balance_of_api), (''approve'', approve_api),
     (''approvedBalanceFrom'', approved_balance_from_api),
     (''allApprovedFromUser'', all_approved_from_user_api), (''state'', state_api), (''supply'', supply_api),
     (''totalSupply'', totalSupply_api), (''precision'', precision_api), (''tokenName'', token_name_api),
     (''tokenSymbol'', token_symbol_api), (''on_deposit_asset'', on_deposit_asset_api),
     (''addLiquidity'', addLiquidity_api), (''removeLiquidity'', removeLiquidity_api),
     (''setMinAddAmount'', setMinAddAmount_api), (''withdraw'', withdraw_api),
     (''caculatePoolShareByToken'', caculatePoolShareByToken_api),
     (''caculateExchangeAmount'', caculateExchangeAmount_api), (''getInfo'', getInfo_api),
     (''balanceOfAsset'', balanceOfAsset_api),
     (''getUserRemoveableLiquidity'', getUserRemoveableLiquidity_api)]"

definition uniswap_invoke ::
    "contract_env \<Rightarrow> string \<Rightarrow> string \<Rightarrow> contract_invoke_result \<Rightarrow> contract_invoke_result result" where
  "uniswap_invoke en api_name api_arg st =
    (case map_of uniswap_api_table api_name of
       Some h \<Rightarrow> ebind (h en api_arg st) (\<lambda>st. Inr (set_invoke_result_caller en st))
     | None \<Rightarrow> throw_error ''api not found'')"

end
