(* ===== verification/Safe_Integer.thy ===== *)
theory Safe_Integer
  imports Safe_Number
begin

text \<open>
  Decimal numbers that stand for integers. Products, sums and integer quotients of natural numbers
  are exact far beyond the range in which fractions are, as long as 128 bits hold them.
\<close>

definition is_nat_sn :: "SafeNumber \<Rightarrow> nat \<Rightarrow> bool" where
  "is_nat_sn a n \<longleftrightarrow> sn_valid a \<and> sn_sign a \<and> sn_e a = 0 \<and> nat128 (sn_x a) = n"

lemma is_nat_sn_facts:
  assumes "is_nat_sn a n"
  shows "sn_normal a" "magnitude a = n * 10 ^ 16" "safe_number_is_zero a \<longleftrightarrow> n = 0" "sn_valid a" "sn_sign a"
proof -
  show n: "sn_normal a" using assms by (simp add: is_nat_sn_def sn_normal_def normal_def)
  show m: "magnitude a = n * 10 ^ 16" using assms by (simp add: is_nat_sn_def magnitude_def)
  show "safe_number_is_zero a \<longleftrightarrow> n = 0" using safe_number_is_zero_iff n m by (simp add: sn_normal_def)
  show "sn_valid a" "sn_sign a" using assms by (simp_all add: is_nat_sn_def)
qed

lemma is_nat_sn_create: "\<exists>r. safe_number_create True x 0 = Inr r \<and> is_nat_sn r (nat128 x)"
proof -
  have "sn_normal \<lparr>sn_valid = True, sn_sign = True, sn_x = x, sn_e = 0\<rparr>"
    by (simp add: sn_normal_def normal_def)
  from safe_number_create_id [OF this] show ?thesis by (simp add: is_nat_sn_def)
qed

lemma is_nat_sn_0: "is_nat_sn sn_0 0"
  by (simp add: sn_0_def safe_number_zero_def is_nat_sn_def)

lemma create_int64_nat:
  assumes "0 \<le> v" "v < 2 ^ 63"
  shows "\<exists>r. safe_number_create_int64 v = Inr r \<and> is_nat_sn r (nat v)"
proof -
  have "nat128 (simple_uint128_create 0 (word_of_int v)) = nat v"
    using assms by (simp add: val128_create unsigned_of_int take_bit_int_eq_self)
  moreover have "safe_number_create_int64 v = safe_number_create True (simple_uint128_create 0 (word_of_int v)) 0"
    using assms(1) by (simp add: safe_number_create_int64_def safe_number_create_def)
  ultimately show ?thesis using is_nat_sn_create by metis
qed

lemma multiply_nat:
  assumes "is_nat_sn a m" "is_nat_sn b n" "m * n < 2 ^ 128"
  shows "\<exists>r. safe_number_multiply a b = Inr r \<and> is_nat_sn r (m * n)"
proof (cases "m = 0 \<or> n = 0")
  case True
  then have "safe_number_multiply a b = Inr sn_0"
    using is_nat_sn_facts [OF assms(1)] is_nat_sn_facts [OF assms(2)]
    by (auto simp: safe_number_multiply_def safe_number_is_valid_def)
  then show ?thesis using True is_nat_sn_0 by auto
next
  case False
  let ?p = "simple_uint256_multi (simple_uint256_create uint128_0 (sn_x a)) (simple_uint256_create uint128_0 (sn_x b))"
  have p: "nat256 ?p = m * n"
    using assms by (simp add: nat256_widening_product is_nat_sn_def)
  then have "simple_uint128_is_zero (hi256 ?p)" using hi_zero_iff [of ?p] assms(3) by simp
  then have "multiply_loop ?p 0 = Inr (?p, 0)" by (simp add: multiply_loop.simps)
  then have "safe_number_multiply a b = safe_number_create True (lo256 ?p) 0"
    using False is_nat_sn_facts [OF assms(1)] is_nat_sn_facts [OF assms(2)] assms(1,2)
    by (simp add: safe_number_multiply_def safe_number_is_valid_def is_nat_sn_def)
  then show ?thesis
    using is_nat_sn_create [of "lo256 ?p"] nat128_lo256 [of ?p] p assms(3) by simp
qed

lemma add_nat:
  assumes "is_nat_sn a m" "is_nat_sn b n" "m + n < 2 ^ 128"
  shows "\<exists>r. safe_number_add a b = Inr r \<and> is_nat_sn r (m + n)"
proof -
  note fa = is_nat_sn_facts [OF assms(1)] and fb = is_nat_sn_facts [OF assms(2)]
  consider "n = 0" | "m = 0" "n \<noteq> 0" | "m \<noteq> 0" "n \<noteq> 0" by blast
  then show ?thesis
  proof cases
    case 1
    then show ?thesis using fa fb assms(1) by (simp add: safe_number_add_def safe_number_is_valid_def)
  next
    case 2
    then show ?thesis using fa fb assms(2) by (simp add: safe_number_add_def safe_number_is_valid_def)
  next
    case 3
    let ?ax = "simple_uint128_multi_u64 (sn_x a) (uint64_pow 10 0)"
      and ?bx = "simple_uint128_multi_u64 (sn_x b) (uint64_pow 10 0)"
    have one: "unat (uint64_pow 10 0) = 1" using unat_uint64_pow [of 0] by simp
    have "nat128 ?ax = m" "nat128 ?bx = n"
      using assms one nat128_less by (simp_all add: nat128_multi_u64 is_nat_sn_def)
    then have "nat128 (simple_uint128_add ?ax ?bx) = m + n"
      using assms(3) val128_bounds [of ?ax] val128_bounds [of ?bx]
      by (simp add: val128_add nat_add_distrib nat_mod_distrib)
    moreover have "safe_number_add a b = safe_number_create True (simple_uint128_add ?ax ?bx) 0"
      using 3 fa fb assms(1,2) by (simp add: safe_number_add_def safe_number_is_valid_def signed_sum_def
          is_nat_sn_def Let_def)
    ultimately show ?thesis using is_nat_sn_create by metis
  qed
qed

lemma div_power_split: "j \<le> e \<Longrightarrow> (x div 10 ^ (e - j)) div 10 ^ j = x div (10 ^ e :: nat)"
  by (simp add: div_mult2_eq [symmetric] power_add [symmetric])

lemma compress_floor:
  assumes "e \<le> 16"
  shows "fst (compress x e) div 10 ^ snd (compress x e) = x div 10 ^ e"
proof -
  obtain x1 e1 where s: "shrink x e = (x1, e1)" by fastforce
  then have x1: "x1 = x div 10 ^ (e - e1)" "e1 \<le> e" using shrink_value(1,2) [of x e] by simp_all
  obtain x2 e2 where t: "strip x1 e1 = (x2, e2)" by fastforce
  then have x2: "x2 * 10 ^ (e1 - e2) = x1" "e2 \<le> e1" using strip_value(1,2) [of x1 e1] by simp_all
  have "x2 div 10 ^ e2 = (x2 * 10 ^ (e1 - e2)) div (10 ^ e2 * 10 ^ (e1 - e2))"
    by (rule div_mult_mult2 [symmetric]) simp
  also have "\<dots> = x1 div 10 ^ e1" using x2 by (simp add: power_add [symmetric])
  also have "\<dots> = x div 10 ^ e" using x1 by (simp add: div_power_split)
  finally show ?thesis using s t x1(2) assms by (simp add: compress_def)
qed

lemma div_nat_floor:
  assumes "is_nat_sn a m" "is_nat_sn b n" "0 < n" "n \<le> 2 ^ 127"
  shows "\<exists>r. safe_number_div a b = Inr r \<and> sn_normal r \<and> sn_sign r \<and> magnitude r div 10 ^ 16 = m div n"
proof (cases "m = 0")
  case True
  then have "safe_number_div a b = Inr sn_0"
    using is_nat_sn_facts [OF assms(1)] is_nat_sn_facts [OF assms(2)]
    by (simp add: safe_number_div_def safe_number_is_valid_def)
  then show ?thesis using True is_nat_sn_facts [OF is_nat_sn_0] by simp
next
  case False
  note fa = is_nat_sn_facts [OF assms(1)] and fb = is_nat_sn_facts [OF assms(2)]
  let ?a = "simple_uint256_create uint128_0 (sn_x a)" and ?b = "simple_uint256_create uint128_0 (sn_x b)"
  have v: "nat256 ?a = m" "nat256 ?b = n"
    using assms(1,2) by (simp_all add: val256_create val128_consts is_nat_sn_def)
  have "m < 2 ^ 128" using assms(1) nat128_less by (auto simp: is_nat_sn_def)
  then obtain rx k where l: "div_loop ?a ?b uint128_0 (- 1) = Inr (rx, int k)" "k \<le> 16"
      "nat128 rx = m * 10 ^ k div n"
    using div_loop_eq [OF v(2) assms(3,4) v(1), of "- 1" uint128_0] by (auto simp: val128_consts)
  have k: "unat (word_of_int (int k) :: u32) = k"
    using l(2) by (simp add: unsigned_of_nat take_bit_nat_eq_self)
  have "safe_number_div a b = safe_number_create True rx (word_of_int (int k))"
    unfolding safe_number_div_def safe_number_is_valid_def Let_def l(1)
    using False assms(1-3) fa fb by (simp add: is_nat_sn_def)
  moreover obtain r where r: "safe_number_create True rx (word_of_int (int k)) = Inr r" "sn_normal r"
      "(nat128 (sn_x r), unat (sn_e r)) = compress (nat128 rx) k" "sn_sign r"
    using safe_number_create_eq [of True rx "word_of_int (int k)"] k by auto
  moreover have "magnitude r div 10 ^ 16 = m div n"
  proof -
    have "magnitude r div 10 ^ 16 = nat128 rx div 10 ^ k"
      using magnitude_div(1) [OF sn_normal_e [OF r(2)]] compress_floor [OF l(2), of "nat128 rx"] r(3)
      by (metis fst_conv snd_conv)
    also have "\<dots> = m div n"
      unfolding l(3) by (simp add: div_mult2_eq [symmetric] mult.commute)
    finally show ?thesis .
  qed
  ultimately show ?thesis by auto
qed

lemma to_int64_nat:
  assumes "sn_normal r" "sn_sign r" "magnitude r div 10 ^ 16 = q" "q < 2 ^ 62"
  shows "safe_number_to_int64 r = Inr (int q)"
  using to_int64_aux(1) [OF assms(1)] assms(2-4) by (simp add: with_sign_def)

lemma is_nat_to_int64: "is_nat_sn r q \<Longrightarrow> q < 2 ^ 62 \<Longrightarrow> safe_number_to_int64 r = Inr (int q)"
  using to_int64_nat [of r q] is_nat_sn_facts [of r q] by simp

lemma div_nat_scaled:
  assumes "is_nat_sn a m" "is_nat_sn b n" "0 < m" "0 < n" "n \<le> 2 ^ 127" "m \<le> 10 ^ 16 * n"
  shows "\<exists>r. safe_number_div a b = Inr r \<and> sn_normal r \<and> magnitude r = m * 10 ^ 16 div n
    \<and> scaled r = int (m * 10 ^ 16 div n)"
proof -
  note fa = is_nat_sn_facts [OF assms(1)] and fb = is_nat_sn_facts [OF assms(2)]
  have e: "sn_e a = 0" "sn_e b = 0" "nat128 (sn_x b) = n" using assms(1,2) by (simp_all add: is_nat_sn_def)
  obtain r where r: "safe_number_div a b = Inr r" "sn_normal r" "brackets (magnitude r) a b"
    "scaled r = with_sign (sn_sign a = sn_sign b) (int (magnitude r))"
    using safe_number_div_brackets [OF fa(1) fb(1)] assms(3-6) fa(2) fb(2) e(3) by auto
  have "magnitude r * n \<le> m * 10 ^ 16" "m * 10 ^ 16 < (magnitude r + 1) * n"
    using r(3) fa(2) fb(2) e by (auto simp: brackets_def algebra_simps)
  then have "m * 10 ^ 16 div n = magnitude r"
    by (intro div_nat_eqI) (simp_all add: mult.commute)
  then show ?thesis using r fa fb by (simp add: with_sign_def)
qed

lemma to_int64_scaled:
  assumes "sn_normal r" "scaled r = int k" "k div 10 ^ 16 < 2 ^ 62"
  shows "safe_number_to_int64 r = Inr (int (k div 10 ^ 16))"
proof -
  have "magnitude r = k" "sn_sign r \<or> k = 0" using assms(2) by (auto simp: scaled_def split: if_splits)
  then show ?thesis using to_int64_aux(1) [OF assms(1)] assms(3) by (auto simp: with_sign_def)
qed

lemma create_str_zero: "\<exists>r. safe_number_create_str ''0'' = Inr r \<and> is_nat_sn r 0"
proof -
  have z: "nat128 (simple_uint128_add_u64 (simple_uint128_multi uint128_0 uint128_10) (c_int CHR ''0'')) = 0"
    by (simp add: nat128_add_u64 nat128_multi c_int_def)
  then show ?thesis
    using is_nat_sn_create [of "simple_uint128_add_u64 (simple_uint128_multi uint128_0 uint128_10) (c_int CHR ''0'')"]
    by (auto simp: safe_number_create_str_def)
qed

end
