(* ===== verification/Uniswap_Pool.thy ===== *)
theory Uniswap_Pool
  imports Uniswap_Contract Safe_Integer
begin

text \<open>
  What the pool operations of the liquidity contract compute and keep: prices are the floor of the
  exact quotients, deposits are rounded up and payouts down, an exchange makes the product of
  the pools grow, and minted and destroyed share tokens keep the token ledger balanced.
\<close>

section \<open>Prices and shares\<close>

text \<open>Rounding up, when the number is not a zero that was cut off.\<close>

lemma round_up_eq:
  assumes "sn_normal t" "scaled t = int k" "0 < k" "k div 10 ^ 16 < 2 ^ 62"
  shows "round_up_to_int64 t = Inr (int ((k + 10 ^ 16 - 1) div 10 ^ 16))"
proof -
  have sign: "sn_sign t" and mag: "magnitude t = k"
    using assms(2,3) by (auto simp: scaled_def split: if_splits)
  let ?q = "k div 10 ^ 16"
  have to: "safe_number_to_int64 t = Inr (int ?q)"
    using to_int64_nat [OF assms(1) sign _ assms(4)] mag by simp
  have "int ?q < 2 ^ 63" using assms(4) by simp
  then obtain n where n: "safe_number_create_int64 (int ?q) = Inr n" "is_nat_sn n ?q"
    using create_int64_nat [of "int ?q"] by auto
  note fn = is_nat_sn_facts [OF n(2)]
  have eq: "safe_number_eq n t \<longleftrightarrow> ?q * 10 ^ 16 = k"
  proof (cases "?q = 0")
    case True
    then have "nat128 (sn_x n) = 0" using n(2) by (simp add: is_nat_sn_def)
    moreover have "nat128 (sn_x t) \<noteq> 0" using mag assms(3) by (auto simp: magnitude_def)
    ultimately have "\<not> safe_number_eq n t"
      by (auto simp: safe_number_eq_def uint128_order)
    then show ?thesis using True assms(3) by simp
  next
    case False
    then have "safe_number_eq n t \<longleftrightarrow> scaled n = scaled t"
      using safe_number_eq_iff [OF fn(1) assms(1)] fn(2) by simp
    moreover have "scaled n = int (?q * 10 ^ 16)" using fn by (simp add: scaled_def)
    ultimately show ?thesis using assms(2) by (simp only: of_nat_eq_iff)
  qed
  have "(k + 10 ^ 16 - 1) div 10 ^ 16 = (if ?q * 10 ^ 16 = k then ?q else ?q + 1)"
  proof (cases "?q * 10 ^ 16 = k")
    case True
    then have "k + 10 ^ 16 - 1 = (10 ^ 16 - 1) + ?q * 10 ^ 16" by simp
    then show ?thesis using True by (simp only: div_mult_self1) simp
  next
    case False
    have k: "k = ?q * 10 ^ 16 + k mod 10 ^ 16" by simp
    then have "k mod 10 ^ 16 \<noteq> 0" using False by linarith
    then have "k + 10 ^ 16 - 1 = (k mod 10 ^ 16 - 1) + (?q + 1) * 10 ^ 16"
      using k by (simp add: algebra_simps)
    moreover have "k mod 10 ^ 16 - 1 < 10 ^ 16" using mod_less_divisor [of "10 ^ 16" k] by simp
    ultimately have "(k + 10 ^ 16 - 1) div 10 ^ 16 = ?q + 1"
      by (simp only: div_mult_self1) simp
    then show ?thesis using False by simp
  qed
  then show ?thesis
    using to n eq fn(4) assms(1) by (simp add: round_up_to_int64_def safe_number_ne_def safe_number_invalid_def sn_normal_def)
qed

lemma ceil_of_truncated:
  fixes m n :: nat
  assumes "0 < n" "n \<le> 10 ^ 16"
  shows "(m * 10 ^ 16 div n + 10 ^ 16 - 1) div 10 ^ 16 = (m + n - 1) div n"
proof -
  define T :: nat where "T = 10 ^ 16"
  have T: "0 < T" "n \<le> T" using assms(2) by (simp_all add: T_def)
  define q f where "q = m div n" and "f = m mod n"
  have m: "m = q * n + f" and f: "f < n" using assms(1) by (simp_all add: q_def f_def)
  have "m * T = f * T + (q * T) * n" unfolding m by (simp add: algebra_simps)
  then have d: "m * T div n = q * T + f * T div n"
    using assms(1) by (simp only: div_mult_self1)
  have ft: "f * T div n < T" using f assms(1) T(1) by (simp add: div_less_iff_less_mult mult.commute)
  have "(m * T div n + T - 1) div T = (if f = 0 then q else q + 1)"
  proof (cases "f = 0")
    case True
    then have "m * T div n + T - 1 = (T - 1) + q * T" using d T(1) by simp
    then show ?thesis using True T(1) by (simp only: div_mult_self1) simp
  next
    case False
    have "1 \<le> f * T div n"
      using False T assms(1) by (simp add: less_eq_div_iff_mult_less_eq le_trans [of n T])
    then have "m * T div n + T - 1 = (f * T div n - 1) + (q + 1) * T" using d by (simp add: algebra_simps)
    then show ?thesis using False ft T(1) by (simp only: div_mult_self1) simp
  qed
  moreover have "(m + n - 1) div n = (if f = 0 then q else q + 1)"
  proof (cases "f = 0")
    case True
    then have "m + n - 1 = (n - 1) + q * n" using m assms(1) by simp
    then show ?thesis using True assms(1) by (simp only: div_mult_self1) simp
  next
    case False
    then have "m + n - 1 = (f - 1) + (q + 1) * n" using m by (simp add: algebra_simps)
    then show ?thesis using False f assms(1) by (simp only: div_mult_self1) simp
  qed
  ultimately show ?thesis by (simp only: T_def)
qed

lemma getInputPrice_eq:
  assumes "0 < x" "0 < a" "0 \<le> b" "x < 2 ^ 63" "a < 2 ^ 63" "b \<le> 2 ^ 62"
  shows "getInputPrice x a b = Inr (x * b div (a + x))"
proof -
  obtain sa sb sx where c: "safe_number_create_int64 a = Inr sa" "is_nat_sn sa (nat a)"
    "safe_number_create_int64 b = Inr sb" "is_nat_sn sb (nat b)"
    "safe_number_create_int64 x = Inr sx" "is_nat_sn sx (nat x)"
    using create_int64_nat [of a] create_int64_nat [of b] create_int64_nat [of x] assms by auto
  have "nat x * nat b \<le> 2 ^ 63 * 2 ^ 62"
    using assms by (intro mult_mono) (simp_all add: nat_le_iff)
  then have "nat x * nat b < 2 ^ 128" by simp
  then obtain n where n: "safe_number_multiply sx sb = Inr n" "is_nat_sn n (nat x * nat b)"
    using multiply_nat [OF c(6,4)] by blast
  have s: "nat a + nat x < 2 ^ 64" using assms by (simp add: nat_less_iff)
  then obtain d where d: "safe_number_add sa sx = Inr d" "is_nat_sn d (nat a + nat x)"
    using add_nat [OF c(2,6)] by auto
  obtain r where r: "safe_number_div n d = Inr r" "sn_normal r" "sn_sign r"
    "magnitude r div 10 ^ 16 = nat x * nat b div (nat a + nat x)"
    using div_nat_floor [OF n(2) d(2)] assms s by auto
  have "nat x * nat b div (nat a + nat x) < 2 ^ 62"
  proof -
    have "nat x * nat b < 2 ^ 62 * (nat a + nat x)"
    proof -
      have "nat x * nat b \<le> nat x * 2 ^ 62" using assms(6) by (intro mult_left_mono) (simp_all add: nat_le_iff)
      also have "\<dots> < 2 ^ 62 * (nat a + nat x)" using assms(2) by (simp add: algebra_simps)
      finally show ?thesis .
    qed
    then show ?thesis by (simp only: div_less_iff_less_mult add_pos_nonneg assms(2) zero_less_nat_eq zero_le)
        
  qed
  then have "safe_number_to_int64 r = Inr (int (nat x * nat b div (nat a + nat x)))"
    using to_int64_nat [OF r(2-4)] by blast
  moreover have "int (nat x * nat b div (nat a + nat x)) = x * b div (a + x)"
    using assms by (simp add: zdiv_int)
  ultimately show ?thesis
    unfolding getInputPrice_def using c n d r(1) by simp
qed

lemma liquidity_asset2_amount_eq:
  assumes "0 < a" "a \<le> 10 ^ 16" "0 < b" "b < 2 ^ 63" "0 < x" "x < 2 ^ 63" "x * b \<le> 10 ^ 16 * a"
  shows "liquidity_asset2_amount a b x limit =
    (let y = (x * b + a - 1) div a
     in if y > limit then throw_error ''caculate_asset2_amount > max_add_asset2_amount'' else Inr y)"
proof -
  have "a < 2 ^ 63" using assms(2) by simp
  then obtain sa sb sx where c: "safe_number_create_int64 a = Inr sa" "is_nat_sn sa (nat a)"
    "safe_number_create_int64 b = Inr sb" "is_nat_sn sb (nat b)"
    "safe_number_create_int64 x = Inr sx" "is_nat_sn sx (nat x)"
    using create_int64_nat [of a] create_int64_nat [of b] create_int64_nat [of x] assms by auto
  have p: "nat x * nat b \<le> 10 ^ 16 * nat a"
    using assms by (simp add: nat_mult_distrib [symmetric] nat_le_iff)
  also have "\<dots> \<le> 10 ^ 16 * 10 ^ 16" using assms(2) by (intro mult_left_mono) (simp_all add: nat_le_iff)
  finally have "nat x * nat b < 2 ^ 128" by simp
  then obtain n where n: "safe_number_multiply sx sb = Inr n" "is_nat_sn n (nat x * nat b)"
    using multiply_nat [OF c(6,4)] by blast
  let ?k = "nat x * nat b * 10 ^ 16 div nat a"
  have na: "0 < nat a" "nat a \<le> 10 ^ 16" using assms(1,2) by (simp_all add: nat_le_iff)
  then obtain r where r: "safe_number_div n sa = Inr r" "sn_normal r" "scaled r = int ?k"
    using div_nat_scaled [OF n(2) c(2)] p assms by auto
  have "?k \<le> 10 ^ 32"
  proof -
    have "nat x * nat b * 10 ^ 16 \<le> 10 ^ 32 * nat a" using p by (simp add: mult.commute)
    then have "?k \<le> 10 ^ 32 * nat a div nat a" by (rule div_le_mono)
    then show ?thesis using na(1) by simp
  qed
  then have "?k div 10 ^ 16 \<le> 10 ^ 32 div 10 ^ 16" by (rule div_le_mono)
  then have small: "?k div 10 ^ 16 < 2 ^ 62" by simp
  have "nat a * 1 \<le> nat x * nat b * 10 ^ 16" using na(2) assms(3,5) by (simp add: Suc_le_eq le_trans [of "nat a" "10 ^ 16"])
  then have "0 < ?k" using na(1) by (simp add: div_greater_zero_iff)
  then have "round_up_to_int64 r = Inr (int ((?k + 10 ^ 16 - 1) div 10 ^ 16))"
    using round_up_eq [OF r(2,3) _ small] by blast
  also have "(?k + 10 ^ 16 - 1) div 10 ^ 16 = (nat x * nat b + nat a - 1) div nat a"
    using ceil_of_truncated [OF na] .
  also have "int \<dots> = (x * b + a - 1) div a"
    using assms na(1) by (simp add: zdiv_int of_nat_diff)
  finally show ?thesis
    unfolding liquidity_asset2_amount_def using c n r(1) assms(1,3) by (simp add: Let_def)
qed

lemma minted_token_amount_eq:
  assumes "0 < a" "a < 2 ^ 63" "b \<noteq> 0" "0 < s" "s < 2 ^ 63" "0 < x" "x < 2 ^ 63" "x * s div a < 2 ^ 62"
  shows "minted_token_amount a b x s =
    (let t = x * s div a in if t \<le> 0 then throw_error ''get token_amount is 0'' else Inr t)"
proof -
  obtain sa ss sx where c: "safe_number_create_int64 a = Inr sa" "is_nat_sn sa (nat a)"
    "safe_number_create_int64 s = Inr ss" "is_nat_sn ss (nat s)"
    "safe_number_create_int64 x = Inr sx" "is_nat_sn sx (nat x)"
    using create_int64_nat [of a] create_int64_nat [of s] create_int64_nat [of x] assms by auto
  have "nat x * nat s \<le> 2 ^ 63 * 2 ^ 63"
    using assms by (intro mult_mono) (simp_all add: nat_le_iff)
  then have "nat x * nat s < 2 ^ 128" by simp
  then obtain n where n: "safe_number_multiply sx ss = Inr n" "is_nat_sn n (nat x * nat s)"
    using multiply_nat [OF c(6,4)] by blast
  have "nat a \<le> 2 ^ 127" "0 < nat a" using assms(1,2) by (simp_all add: nat_le_iff)
  then obtain r where r: "safe_number_div n sa = Inr r" "sn_normal r" "sn_sign r"
    "magnitude r div 10 ^ 16 = nat x * nat s div nat a"
    using div_nat_floor [OF n(2) c(2)] by blast
  have q: "int (nat x * nat s div nat a) = x * s div a"
    using assms by (simp add: zdiv_int)
  then have "int (nat x * nat s div nat a) < int (2 ^ 62)" using assms(8) by simp
  then have "nat x * nat s div nat a < 2 ^ 62" by (simp only: of_nat_less_iff)
  then have "safe_number_to_int64 r = Inr (x * s div a)"
    using to_int64_nat [OF r(2-4)] q by metis
  then show ?thesis
    unfolding minted_token_amount_def using c n r(1) assms by (simp add: Let_def)
qed

definition share_of :: "int \<Rightarrow> int \<Rightarrow> int \<Rightarrow> int" where
  "share_of tk s a = (tk * 10 ^ 16 div s) * a div 10 ^ 16"

lemma pool_share_eq:
  assumes "0 < tk" "tk < s" "s < 2 ^ 63" "0 < a" "a \<le> 10 ^ 16" "0 < b" "b \<le> 10 ^ 16"
  shows "pool_share tk s a b = Inr (share_of tk s a, share_of tk s b)"
proof -
  have b63: "a < 2 ^ 63" "b < 2 ^ 63" using assms(5,7) by simp_all
  obtain sa sb ss st where c: "safe_number_create_int64 a = Inr sa" "is_nat_sn sa (nat a)"
    "safe_number_create_int64 b = Inr sb" "is_nat_sn sb (nat b)"
    "safe_number_create_int64 s = Inr ss" "is_nat_sn ss (nat s)"
    "safe_number_create_int64 tk = Inr st" "is_nat_sn st (nat tk)"
    using create_int64_nat [of a] create_int64_nat [of b] create_int64_nat [of s] create_int64_nat [of tk]
      assms b63 by auto
  let ?k = "nat tk * 10 ^ 16 div nat s"
  have ns: "0 < nat s" "nat s \<le> 2 ^ 127" "0 < nat tk" "nat tk \<le> 10 ^ 16 * nat s"
    using assms(1-3) by (simp_all add: nat_le_iff)
  obtain q where q: "safe_number_div st ss = Inr q" "sn_normal q" "magnitude q = ?k" "scaled q = int ?k"
    using div_nat_scaled [OF c(8,6) ns(3,1,2,4)] by blast
  have k: "?k \<le> 10 ^ 16"
  proof -
    have "?k \<le> nat s * 10 ^ 16 div nat s" using assms(2) by (intro div_le_mono mult_right_mono) simp_all
    then show ?thesis using ns(1) by simp
  qed
  have prod: "\<exists>r. safe_number_multiply q sv = Inr r \<and> safe_number_to_int64 r = Inr (share_of tk s v)"
    if "is_nat_sn sv (nat v)" "0 < v" "v \<le> 10 ^ 16" for sv v
  proof -
    note fv = is_nat_sn_facts [OF that(1)]
    have nv: "nat v \<le> 10 ^ 16" using that(3) by (simp add: nat_le_iff)
    then have kv: "?k * nat v \<le> 10 ^ 16 * 10 ^ 16" using k by (intro mult_mono) simp_all
    have "magnitude q * magnitude sv = ?k * nat v * 10 ^ 16" using q(3) fv(2) by simp
    moreover have "\<dots> \<le> 10 ^ 48" using kv by (simp add: mult.commute)
    ultimately obtain r where r: "safe_number_multiply q sv = Inr r" "sn_normal r"
      "scaled r = with_sign (sn_sign q = sn_sign sv) (int (?k * nat v))"
      using safe_number_multiply_exact [OF q(2) fv(1)] by auto
    have "sn_sign q \<or> ?k = 0" using q(3,4) by (auto simp: scaled_def split: if_splits)
    then have "scaled r = int (?k * nat v)" using r(3) fv(5) by (auto simp: with_sign_def)
    moreover have "?k * nat v div 10 ^ 16 \<le> 10 ^ 16 * 10 ^ 16 div 10 ^ 16" using kv by (rule div_le_mono)
    then have "?k * nat v div 10 ^ 16 < 2 ^ 62" by simp
    ultimately have "safe_number_to_int64 r = Inr (int (?k * nat v div 10 ^ 16))"
      using to_int64_scaled [OF r(2)] by blast
    moreover have "int (?k * nat v div 10 ^ 16) = share_of tk s v"
      using assms(1,2) that(2) by (simp add: share_of_def zdiv_int)
    ultimately show ?thesis using r(1) by auto
  qed
  from prod [OF c(2) assms(4,5)] prod [OF c(4) assms(6,7)] show ?thesis
    unfolding pool_share_def using c q(1) by auto
qed

definition pools :: "contract_env \<Rightarrow> contract_invoke_result \<Rightarrow> int \<Rightarrow> int \<Rightarrow> int \<Rightarrow> bool" where
  "pools en st a b s \<longleftrightarrow> get_int_current_contract_storage en st ''asset_1_pool_amount'' = Inr a \<and>
     get_int_current_contract_storage en st ''asset_2_pool_amount'' = Inr b \<and>
     get_int_current_contract_storage en st ''supply'' = Inr s"

text \<open>Selling an amount less its fee into the pool, with the pool's new contents.\<close>

lemma exchange_amounts_Inr:
  assumes "exchange_amounts sell1 amount fee want a b = Inr (a', b', out)"
    "1 \<le> fee" "fee < amount" "amount < 2 ^ 62" "0 < a" "a \<le> 2 ^ 62" "0 < b" "b \<le> 2 ^ 62"
  shows "0 < out" "want \<le> out"
    "if sell1 then a' = a + amount \<and> b' = b - out \<and> out = (amount - fee) * b div (a + (amount - fee))
     else b' = b + amount \<and> a' = a - out \<and> out = (amount - fee) * a div (b + (amount - fee))"
proof -
  have p: "getInputPrice (amount - fee) u v = Inr ((amount - fee) * v div (u + (amount - fee)))"
    if "0 < u" "u \<le> 2 ^ 62" "0 < v" "v \<le> 2 ^ 62" for u v
    using that assms(2-4) by (intro getInputPrice_eq) simp_all
  have w: "wrap_int64 (a + amount) = a + amount" "wrap_int64 (b + amount) = b + amount"
    using assms by (auto intro!: wrap_int64_id)
  show "0 < out" "want \<le> out"
    "if sell1 then a' = a + amount \<and> b' = b - out \<and> out = (amount - fee) * b div (a + (amount - fee))
     else b' = b + amount \<and> a' = a - out \<and> out = (amount - fee) * a div (b + (amount - fee))"
    using assms(1) p [OF assms(5-8)] p [OF assms(7,8,5,6)] w
    by (auto simp: exchange_amounts_def throw_error_def split: if_splits)
qed

text \<open>The product of the pools grows with every sale that pays a fee.\<close>

lemma product_grows:
  fixes a b v fee :: int
  assumes "0 < a" "0 < b" "0 < v" "0 < fee"
  shows "a * b < (a + v + fee) * (b - v * b div (a + v))"
proof -
  let ?out = "v * b div (a + v)"
  have le: "?out * (a + v) \<le> v * b"
    using assms pos_mod_sign [of "a + v" "v * b"] div_mult_mod_eq [of "v * b" "a + v"] by linarith
  have "v * b < b * (a + v)" using assms by (simp add: algebra_simps)
  then have "?out * (a + v) < b * (a + v)" using le by linarith
  then have "?out < b" using assms by simp
  then have "0 < fee * (b - ?out)" using assms by simp
  moreover have "(a + v) * (b - ?out) = a * b + (v * b - ?out * (a + v))"
    by (simp add: algebra_simps)
  then have "a * b \<le> (a + v) * (b - ?out)" using le by simp
  moreover have "(a + v + fee) * (b - ?out) = (a + v) * (b - ?out) + fee * (b - ?out)"
    by (simp add: algebra_simps)
  ultimately show ?thesis by linarith
qed

lemma exchange_fee_pos: "exchange_fee rate amount = Inr fee \<Longrightarrow> 1 \<le> fee"
  by (auto simp: exchange_fee_def ebind_eq_Inr split: if_splits)

lemma exchange_asset_Inr:
  assumes "exchange_asset en symbol amount param asset1 asset2 st = Inr st'"
  obtains a b feeRate fee want a' b' out ev st1 st2 where
    "get_int_current_contract_storage en st ''asset_1_pool_amount'' = Inr a"
    "get_int_current_contract_storage en st ''asset_2_pool_amount'' = Inr b"
    "0 < a" "0 < b" "exchange_fee feeRate amount = Inr fee" "fee < amount"
    "stoll (split_comma param ! 1) = Inr want"
    "exchange_amounts (symbol = asset1) amount fee want a b = Inr (a', b', out)"
    "0 < a'" "0 < b'"
    "current_transfer_to_address en (env_caller en) (split_comma param ! 0) out
       (set_current_contract_storage en ''asset_2_pool_amount'' (COT_INT b')
         (set_current_contract_storage en ''asset_1_pool_amount'' (COT_INT a') st)) = Inr st1"
    "emit_event en ''Exchanged'' ev st1 = Inr st2" "st' = set_api_result (Plain (int_to_string out)) st2"
    "symbol = asset1 \<or> symbol = asset2" "split_comma param ! 0 = asset1 \<or> split_comma param ! 0 = asset2"
    "split_comma param ! 0 \<noteq> symbol"
proof -
  show thesis
    using assms unfolding exchange_asset_def
    by (auto simp: Let_def throw_error_def get_from_address_def caller_address_string_def ebind_eq_Inr not_le
        intro!: that split: if_splits prod.splits)
qed

lemma exchange_effect:
  assumes "exchange_asset en symbol amount param asset1 asset2 st = Inr st'" "pools en st a b s"
    "0 < amount" "amount < 2 ^ 62" "a \<le> 2 ^ 62" "b \<le> 2 ^ 62"
  shows "\<exists>a' b' out want. pools en st' a' b' s \<and> 0 < a' \<and> 0 < b' \<and> a * b < a' * b' \<and>
    stoll (split_comma param ! 1) = Inr want \<and> want \<le> out \<and>
    (if symbol = asset1 then a' = a + amount \<and> b' = b - out else a' = a - out \<and> b' = b + amount) \<and>
    api_result st' = Plain (int_to_string out)"
proof -
  obtain a0 b0 feeRate fee want a' b' out ev st1 st2 where h0:
    "get_int_current_contract_storage en st ''asset_1_pool_amount'' = Inr a0"
    "get_int_current_contract_storage en st ''asset_2_pool_amount'' = Inr b0"
    "0 < a0" "0 < b0" "exchange_fee feeRate amount = Inr fee" "fee < amount"
    "stoll (split_comma param ! 1) = Inr want"
    "exchange_amounts (symbol = asset1) amount fee want a0 b0 = Inr (a', b', out)"
    "0 < a'" "0 < b'"
    and t: "current_transfer_to_address en (env_caller en) (split_comma param ! 0) out
       (set_current_contract_storage en ''asset_2_pool_amount'' (COT_INT b')
         (set_current_contract_storage en ''asset_1_pool_amount'' (COT_INT a') st)) = Inr st1"
    and e: "emit_event en ''Exchanged'' ev st1 = Inr st2" and st': "st' = set_api_result (Plain (int_to_string out)) st2"
    by (rule exchange_asset_Inr [OF assms(1)])
  then have ab: "a0 = a" "b0 = b" using assms(2) by (simp_all add: pools_def)
  note h = h0(3-10) [unfolded ab]
  have fee: "1 \<le> fee" using exchange_fee_pos [OF h(3)] .
  note x = exchange_amounts_Inr [OF h(6) fee h(4) assms(4) h(1) assms(5) h(2) assms(6)]
  have ok: "storable a'" "storable b'"
    using x h(7,8) assms by (auto simp: storable_def split: if_splits)
  have "pools en st' a' b' s"
    using assms(2) storable_reload [OF ok(1)] storable_reload [OF ok(2)]
    unfolding pools_def int_storage_Inr st'
    by (simp add: store_simps reads_after_event [OF e] reads_after_transfer [OF t])
  moreover have "a * b < a' * b'"
  proof (cases "symbol = asset1")
    case True
    then have "a' = a + (amount - fee) + fee" "b' = b - (amount - fee) * b div (a + (amount - fee))"
      using x(3) by simp_all
    then show ?thesis using product_grows [of a b "amount - fee" fee] h fee by simp
  next
    case False
    then have "b' = b + (amount - fee) + fee" "a' = a - (amount - fee) * a div (b + (amount - fee))"
      using x(3) by simp_all
    then show ?thesis using product_grows [of b a "amount - fee" fee] h fee by (simp add: mult.commute)
  qed
  moreover have "if symbol = asset1 then a' = a + amount \<and> b' = b - out else a' = a - out \<and> b' = b + amount"
    using x(3) by (auto split: if_splits)
  moreover have "api_result st' = Plain (int_to_string out)" by (simp add: st' set_api_result_def)
  ultimately show ?thesis using h(5,7,8) x(2) by blast
qed

lemma addLiquidity_Inr:
  assumes "addLiquidity_api en arg st = Inr st'"
  obtains x limit a b y asset1 asset2 bal1 bal2 s t tb ev st1 st2 st3 where
    "stoll (split_comma arg ! 0) = Inr x" "stoll (split_comma arg ! 1) = Inr limit" "0 < x" "0 < limit"
    "get_int_current_contract_storage en st ''asset_1_pool_amount'' = Inr a"
    "get_int_current_contract_storage en st ''asset_2_pool_amount'' = Inr b"
    "liquidity_asset2_amount a b x limit = Inr y"
    "get_string_current_contract_storage en st ''asset_1_symbol'' = Inr asset1"
    "get_string_current_contract_storage en st ''asset_2_symbol'' = Inr asset2"
    "is_integer (current_fast_map_get en st (env_caller en) asset1)"
    "force_as_int (current_fast_map_get en st (env_caller en) asset1) = Inr bal1"
    "is_integer (current_fast_map_get en st (env_caller en) asset2)"
    "force_as_int (current_fast_map_get en st (env_caller en) asset2) = Inr bal2"
    "x \<le> bal1" "y \<le> bal2"
    "st1 = current_fast_map_set en (env_caller en) asset2 (COT_INT (bal2 - y))
       (current_fast_map_set en (env_caller en) asset1 (COT_INT (bal1 - x)) st)"
    "get_int_current_contract_storage en st1 ''supply'' = Inr s"
    "minted_token_amount a b x s = Inr t" "wrap_int64 (a + x) \<le> MAX_ASSET_AMOUNT"
    "st2 = set_current_contract_storage en ''supply'' (COT_INT (wrap_int64 (s + t)))
       (set_current_contract_storage en ''asset_2_pool_amount'' (COT_INT (wrap_int64 (b + y)))
       (set_current_contract_storage en ''asset_1_pool_amount'' (COT_INT (wrap_int64 (a + x))) st1))"
    "fast_map_int en st2 ''users'' (env_caller en) = Inr tb"
    "st3 = current_fast_map_set en ''users'' (env_caller en) (COT_INT (wrap_int64 (tb + t))) st2"
    "\<And>n. get_current_contract_storage_cbor en st' n = get_current_contract_storage_cbor en st3 n"
    "\<And>m k. current_fast_map_get en st' m k = current_fast_map_get en st3 m k"
    "api_result st' = Plain (int_to_string t)"
proof -
  show thesis
    using assms unfolding addLiquidity_api_def Let_def
    apply (simp only: run_simps get_from_address_def caller_address_string_def)
    apply (elim exE conjE)
    apply (rule that, assumption+)
    apply (simp_all only: reads_after_event reads_irrelevant emit_event_api_result api_result_set)
    done
qed

text \<open>A caller whose deposits are kept apart from the token's own maps, as for every address.\<close>

definition plain_caller :: "contract_env \<Rightarrow> bool" where
  "plain_caller en \<longleftrightarrow> CHR ''.'' \<notin> set (env_caller en) \<and> env_caller en \<noteq> ''users''"

lemma users_key_other: "plain_caller en \<Longrightarrow> ''users'' @ ''.'' @ k = env_caller en @ ''.'' @ s \<longleftrightarrow> False"
  using fast_key_eq [of "''users''" "env_caller en" k s] by (auto simp: plain_caller_def)

lemma token_balance_deposit:
  "plain_caller en \<Longrightarrow> token_balance en (current_fast_map_set en (env_caller en) k v st) a = token_balance en st a"
  by (simp only: token_balance_def store_simps users_key_other if_False)

lemma fast_map_int_users: "fast_map_int en st ''users'' a = Inr (token_balance en st a)"
  using get_balance_of_user_eq [of en st a]
  by (simp add: fast_map_int_def get_balance_of_user_def Let_def split: if_splits)

lemma token_balance_plain:
  "CHR ''.'' \<notin> set n \<Longrightarrow> token_balance en (set_current_contract_storage en n v st) a = token_balance en st a"
  using plain_key(1) [of n "''users''" a] by (auto simp: token_balance_def store_simps)

lemma token_balance_cong:
  "(\<And>m k. current_fast_map_get en st' m k = current_fast_map_get en st m k) \<Longrightarrow>
    token_balance en st' a = token_balance en st a"
  by (simp add: token_balance_def)

lemma token_balance_put:
  assumes "storable v"
  shows "token_balance en (current_fast_map_set en ''users'' a (COT_INT v) st) b
    = (if b = a then v else token_balance en st b)"
  using storable_reload [OF assms]
  by (auto simp: token_balance_def store_simps Let_def)

lemma supported_after_put:
  assumes "users.supported en st A s" "storable v"
    "\<And>b. token_balance en st' b = (if b = a then v else token_balance en st b)"
  shows "users.supported en st' (insert a A) (s + v - token_balance en st a)"
proof -
  have "users.supported en (store_remaining_balance en a v st) (insert a A) (s + v - token_balance en st a)"
    using users.supported_put [OF assms(1,2)] .
  moreover have "token_balance en (store_remaining_balance en a v st) b = token_balance en st' b" for b
    using assms(3) token_balance_store [OF assms(2)] by simp
  ultimately show ?thesis by (simp add: users.supported_def)
qed

lemma pools_cong:
  assumes "\<And>n. get_current_contract_storage_cbor en st' n = get_current_contract_storage_cbor en st n"
  shows "pools en st' a b s = pools en st a b s"
  using assms by (simp add: pools_def int_storage_Inr)

lemma pools_fast_map:
  "pools en (current_fast_map_set en m k v st) a b s = pools en st a b s"
proof -
  have "CHR ''.'' \<notin> set n \<Longrightarrow>
      get_current_contract_storage_cbor en (current_fast_map_set en m k v st) n
        = get_current_contract_storage_cbor en st n" for n
    using plain_key(1) [of n m k] by (auto simp: store_simps)
  then show ?thesis by (simp add: pools_def int_storage_Inr)
qed

lemma pools_written:
  assumes "storable a" "storable b" "storable s"
  shows "pools en (set_current_contract_storage en ''supply'' (COT_INT s)
     (set_current_contract_storage en ''asset_2_pool_amount'' (COT_INT b)
     (set_current_contract_storage en ''asset_1_pool_amount'' (COT_INT a) st))) a b s"
  using storable_reload [OF assms(1)] storable_reload [OF assms(2)] storable_reload [OF assms(3)]
  by (simp add: pools_def int_storage_Inr store_simps)

lemma ceil_div_bounds:
  fixes m n :: int
  assumes "0 < n"
  shows "m \<le> (m + n - 1) div n * n" "(m + n - 1) div n * n < m + n"
  using assms pos_mod_sign [of n "m + n - 1"] pos_mod_bound [of n "m + n - 1"]
    div_mult_mod_eq [of "m + n - 1" n] by linarith+

lemma addLiquidity_effect:
  assumes "addLiquidity_api en arg st = Inr st'" "pools en st a b s"
    and x: "stoll (split_comma arg ! 0) = Inr x"
    and pos: "0 < a" "0 < b" "0 < s" "plain_caller en"
    and bounds: "a \<le> 10 ^ 16" "b \<le> 10 ^ 16" "x * b \<le> 10 ^ 16 * a" "x * s div a < 2 ^ 62" "s + x * s div a < 2 ^ 63"
      "x \<le> 10 ^ 16"
    and funds: "users.supported en st A s" "\<forall>u. 0 \<le> token_balance en st u"
  defines "y \<equiv> (x * b + a - 1) div a" and "t \<equiv> x * s div a"
  shows "0 < x" "0 < t" "pools en st' (a + x) (b + y) (s + t)"
    "\<forall>u. token_balance en st' u = token_balance en st u + (if u = env_caller en then t else 0)"
    "\<exists>B. users.supported en st' B (s + t)"
    "\<exists>limit. stoll (split_comma arg ! 1) = Inr limit \<and> y \<le> limit"
    "t * a \<le> x * s" "t * b \<le> y * s"
proof -
  obtain limit y' asset1 asset2 bal1 bal2 s' t' tb st1 st2 st3 where
    h: "stoll (split_comma arg ! 1) = Inr limit" "0 < x"
    "liquidity_asset2_amount a b x limit = Inr y'"
    and st1: "st1 = current_fast_map_set en (env_caller en) asset2 (COT_INT (bal2 - y'))
       (current_fast_map_set en (env_caller en) asset1 (COT_INT (bal1 - x)) st)"
    and s': "get_int_current_contract_storage en st1 ''supply'' = Inr s'"
    and t': "minted_token_amount a b x s' = Inr t'"
    and mx: "wrap_int64 (a + x) \<le> MAX_ASSET_AMOUNT"
    and st2: "st2 = set_current_contract_storage en ''supply'' (COT_INT (wrap_int64 (s' + t')))
       (set_current_contract_storage en ''asset_2_pool_amount'' (COT_INT (wrap_int64 (b + y')))
       (set_current_contract_storage en ''asset_1_pool_amount'' (COT_INT (wrap_int64 (a + x))) st1))"
    and tb: "fast_map_int en st2 ''users'' (env_caller en) = Inr tb"
    and st3: "st3 = current_fast_map_set en ''users'' (env_caller en) (COT_INT (wrap_int64 (tb + t'))) st2"
    and same: "\<And>n. get_current_contract_storage_cbor en st' n = get_current_contract_storage_cbor en st3 n"
    "\<And>m k. current_fast_map_get en st' m k = current_fast_map_get en st3 m k"
    using assms(2) x unfolding pools_def
    by (elim conjE) (rule addLiquidity_Inr [OF assms(1)], simp)
  show "0 < x" by (rule h(2))
  have "x < 2 ^ 63" using stoll_range [OF x] by blast
  have "b < 2 ^ 63" using bounds(2) by simp
  have "(if y > limit then throw_error ''caculate_asset2_amount > max_add_asset2_amount'' else Inr y) = Inr y'"
    using h(3) liquidity_asset2_amount_eq [OF pos(1) bounds(1) pos(2) \<open>b < 2 ^ 63\<close> h(2) \<open>x < 2 ^ 63\<close> bounds(3)]
    by (simp only: y_def Let_def)
  then have y': "y' = y" "y \<le> limit" by (auto simp: throw_error_def split: if_splits)
  have "pools en st1 a b s" unfolding st1 by (simp add: pools_fast_map assms(2))
  then have "s' = s" using s' by (simp add: pools_def)
  have "a < 2 ^ 63" "s < 2 ^ 63" using bounds(1,5) pos h(2) pos_imp_zdiv_nonneg_iff [of a "x * s"] by auto
  then have "(if t \<le> 0 then throw_error ''get token_amount is 0'' else Inr t) = Inr t'"
    using t' minted_token_amount_eq [of a b s x] pos h(2) \<open>x < 2 ^ 63\<close> bounds(4)
    by (simp add: t_def Let_def \<open>s' = s\<close>)
  then have t'': "t' = t" and "0 < t" by (auto simp: throw_error_def split: if_splits)
  show "0 < t" by fact
  show "\<exists>limit. stoll (split_comma arg ! 1) = Inr limit \<and> y \<le> limit" using h(1) y'(2) by blast
  show ta: "t * a \<le> x * s"
    unfolding t_def using pos(1) pos_mod_sign [of a "x * s"] div_mult_mod_eq [of "x * s" a] by linarith
  have ya: "x * b \<le> y * a" "y * a < x * b + a" using ceil_div_bounds [OF pos(1), of "x * b"] by (simp_all add: y_def)
  have "(t * b) * a \<le> (y * s) * a"
  proof -
    have "(t * a) * b \<le> (x * s) * b" using ta pos(2) by (intro mult_right_mono) simp_all
    also have "\<dots> = (x * b) * s" by simp
    also have "\<dots> \<le> (y * a) * s" using ya(1) pos(3) by (intro mult_right_mono) simp_all
    finally show ?thesis by (simp add: ac_simps)
  qed
  then show "t * b \<le> y * s" using pos(1) by simp
  have "y * a < (10 ^ 16 + 1) * a" using ya(2) bounds(3) by (simp add: algebra_simps)
  then have "y < 10 ^ 16 + 1" using pos(1) by simp
  moreover have "0 \<le> y" using pos h(2) by (simp add: y_def pos_imp_zdiv_nonneg_iff add_pos_pos)
  ultimately have ok: "storable (a + x)" "storable (b + y)" "storable (s + t)"
    using pos h(2) bounds(1,2,6) bounds(5) [folded t_def] \<open>0 < t\<close> by (simp_all add: storable_def)
  then have w: "wrap_int64 (a + x) = a + x" "wrap_int64 (b + y) = b + y" "wrap_int64 (s + t) = s + t"
    by (auto simp: storable_def intro: wrap_int64_id)
  note st2' = st2 [unfolded y'(1) t'' \<open>s' = s\<close> w]
  show "pools en st' (a + x) (b + y) (s + t)"
    unfolding pools_cong [OF same(1)] st3 pools_fast_map st2' by (rule pools_written [OF ok])
  have bal2: "token_balance en st2 u = token_balance en st u" for u
    unfolding st2' st1 by (simp add: token_balance_plain token_balance_deposit [OF pos(4)])
  then have "tb = token_balance en st (env_caller en)" using tb by (simp add: fast_map_int_users)
  moreover have "token_balance en st (env_caller en) \<le> s"
    using users.supported_bound [OF funds(1)] funds(2) by simp
  ultimately have okt: "storable (tb + t)" using funds(2) \<open>0 < t\<close> ok(3) by (auto simp: storable_def)
  then have "wrap_int64 (tb + t) = tb + t" by (intro wrap_int64_id) (simp_all add: storable_def)
  then have bal: "token_balance en st' u = (if u = env_caller en then tb + t else token_balance en st u)" for u
    unfolding token_balance_cong [OF same(2)] st3 t''
    by (simp add: token_balance_put [OF okt] bal2)
  then show "\<forall>u. token_balance en st' u = token_balance en st u + (if u = env_caller en then t else 0)"
    using \<open>tb = token_balance en st (env_caller en)\<close> by simp
  show "\<exists>B. users.supported en st' B (s + t)"
    using supported_after_put [OF funds(1) okt bal] \<open>tb = token_balance en st (env_caller en)\<close>
    by (auto simp: algebra_simps)
qed

lemma removeLiquidity_Inr:
  assumes "removeLiquidity_api en arg st = Inr st'"
  obtains tk min1 min2 tb a b s c asset1 asset2 bal1 bal2 st1 st2 st3 where
    "stoll (split_comma arg ! 0) = Inr tk" "stoll (split_comma arg ! 1) = Inr min1"
    "stoll (split_comma arg ! 2) = Inr min2" "0 < tk"
    "fast_map_int en st ''users'' (env_caller en) = Inr tb" "tk \<le> tb"
    "get_int_current_contract_storage en st ''asset_1_pool_amount'' = Inr a"
    "get_int_current_contract_storage en st ''asset_2_pool_amount'' = Inr b"
    "get_int_current_contract_storage en st ''supply'' = Inr s" "0 < a" "0 < s" "0 < b"
    "(if s = tk then Inr (a, b) else pool_share tk s a b) = Inr c" "min1 \<le> fst c" "min2 \<le> snd c"
    "get_string_current_contract_storage en st ''asset_1_symbol'' = Inr asset1"
    "get_string_current_contract_storage en st ''asset_2_symbol'' = Inr asset2"
    "(if is_integer (current_fast_map_get en st (env_caller en) asset1)
      then force_as_int (current_fast_map_get en st (env_caller en) asset1) else Inr 0) = Inr bal1"
    "(if is_integer (current_fast_map_get en st (env_caller en) asset2)
      then force_as_int (current_fast_map_get en st (env_caller en) asset1) else Inr 0) = Inr bal2"
    "st1 = current_fast_map_set en (env_caller en) asset2 (COT_INT (wrap_int64 (bal2 + snd c)))
       (current_fast_map_set en (env_caller en) asset1 (COT_INT (wrap_int64 (bal1 + fst c))) st)"
    "\<not> (\<not> (a - fst c = 0 \<and> b - snd c = 0 \<and> s - tk = 0) \<and> \<not> (a - fst c \<noteq> 0 \<and> b - snd c \<noteq> 0 \<and> s - tk \<noteq> 0))"
    "st2 = set_current_contract_storage en ''supply'' (COT_INT (s - tk))
       (set_current_contract_storage en ''asset_2_pool_amount'' (COT_INT (b - snd c))
       (set_current_contract_storage en ''asset_1_pool_amount'' (COT_INT (a - fst c)) st1))"
    "st3 = current_fast_map_set en ''users'' (env_caller en) (COT_INT (tb - tk)) st2"
    "\<forall>n. get_current_contract_storage_cbor en st' n = get_current_contract_storage_cbor en st3 n"
    "\<forall>m k. current_fast_map_get en st' m k = current_fast_map_get en st3 m k"
proof -
  show thesis
    using assms unfolding removeLiquidity_api_def Let_def
    apply (simp only: run_simps get_from_address_def caller_address_string_def case_prod_beta)
    apply (elim exE conjE)
    apply (rule that, assumption+)
    apply (rule refl, assumption, rule refl, rule refl)
    apply (simp_all only: reads_after_event simp_thms)
    done
qed

lemma div_mult_le': "0 < n \<Longrightarrow> m div n * n \<le> (m :: int)"
  using pos_mod_sign [of n m] div_mult_mod_eq [of m n] by linarith

lemma share_of_bounds:
  assumes "0 < tk" "0 < s" "0 \<le> v"
  shows "share_of tk s v * s \<le> tk * v" "0 \<le> share_of tk s v"
proof -
  let ?T = "10 ^ 16 :: int"
  let ?k = "tk * ?T div s"
  have k: "?k * s \<le> tk * ?T" "0 \<le> ?k"
    using assms pos_mod_sign [of s "tk * ?T"] div_mult_mod_eq [of "tk * ?T" s]
    by (linarith, simp add: pos_imp_zdiv_nonneg_iff)
  have "?k * v div ?T * ?T \<le> ?k * v"
    by (rule div_mult_le') simp
  then have "(?k * v div ?T * ?T) * s \<le> (?k * v) * s" using assms(2) by (intro mult_right_mono) simp_all
  also have "\<dots> = (?k * s) * v" by simp
  also have "\<dots> \<le> (tk * ?T) * v" using k(1) assms(3) by (rule mult_right_mono)
  finally have "(share_of tk s v * s) * ?T \<le> (tk * v) * ?T"
    unfolding share_of_def by (simp only: ac_simps)
  then show "share_of tk s v * s \<le> tk * v" by (rule mult_right_le_imp_le) simp
  show "0 \<le> share_of tk s v"
    using k(2) assms(3) unfolding share_of_def by (simp add: pos_imp_zdiv_nonneg_iff)
qed

definition pool_removed :: "int \<Rightarrow> int \<Rightarrow> int \<Rightarrow> int" where
  "pool_removed tk s v = (if s = tk then v else share_of tk s v)"

lemma removed_bounds:
  assumes "0 < tk" "tk \<le> s" "0 \<le> v"
  shows "pool_removed tk s v * s \<le> tk * v" "0 \<le> pool_removed tk s v" "pool_removed tk s v \<le> v"
proof -
  show 1: "pool_removed tk s v * s \<le> tk * v" "0 \<le> pool_removed tk s v"
    using share_of_bounds [of tk s v] assms by (auto simp: pool_removed_def mult.commute)
  have "tk * v \<le> s * v" using assms by (intro mult_right_mono) simp_all
  then have "pool_removed tk s v * s \<le> v * s" using 1(1) by (simp add: mult.commute)
  then show "pool_removed tk s v \<le> v" using assms(1,2) by simp
qed

lemma removeLiquidity_effect:
  assumes "removeLiquidity_api en arg st = Inr st'" "pools en st a b s"
    and tk: "stoll (split_comma arg ! 0) = Inr tk"
    and bounds: "a \<le> 10 ^ 16" "b \<le> 10 ^ 16" "s < 2 ^ 63" "plain_caller en"
    and funds: "users.supported en st A s" "\<forall>u. 0 \<le> token_balance en st u"
  defines "c1 \<equiv> pool_removed tk s a" and "c2 \<equiv> pool_removed tk s b"
  shows "0 < tk" "tk \<le> token_balance en st (env_caller en)"
    "pools en st' (a - c1) (b - c2) (s - tk)"
    "\<forall>u. token_balance en st' u = token_balance en st u - (if u = env_caller en then tk else 0)"
    "\<exists>B. users.supported en st' B (s - tk)"
    "c1 * s \<le> tk * a" "c2 * s \<le> tk * b" "0 \<le> c1" "c1 \<le> a" "0 \<le> c2" "c2 \<le> b"
    "\<exists>min1 min2. stoll (split_comma arg ! 1) = Inr min1 \<and> stoll (split_comma arg ! 2) = Inr min2 \<and>
       min1 \<le> c1 \<and> min2 \<le> c2"
proof -
  obtain tk0 min1 min2 tb a0 b0 s0 c asset1 asset2 bal1 bal2 st1 st2 st3 where
    g: "stoll (split_comma arg ! 0) = Inr tk0"
    "stoll (split_comma arg ! 1) = Inr min1"
    "stoll (split_comma arg ! 2) = Inr min2"
    "0 < tk0"
    "fast_map_int en st ''users'' (env_caller en) = Inr tb"
    "tk0 \<le> tb"
    "get_int_current_contract_storage en st ''asset_1_pool_amount'' = Inr a0"
    "get_int_current_contract_storage en st ''asset_2_pool_amount'' = Inr b0"
    "get_int_current_contract_storage en st ''supply'' = Inr s0"
    "0 < a0"
    "0 < s0"
    "0 < b0"
    "(if s0 = tk0 then Inr (a0, b0) else pool_share tk0 s0 a0 b0) = Inr c"
    "min1 \<le> fst c"
    "min2 \<le> snd c"
    "get_string_current_contract_storage en st ''asset_1_symbol'' = Inr asset1"
    "get_string_current_contract_storage en st ''asset_2_symbol'' = Inr asset2"
    "(if is_integer (current_fast_map_get en st (env_caller en) asset1)
      then force_as_int (current_fast_map_get en st (env_caller en) asset1) else Inr 0) = Inr bal1"
    "(if is_integer (current_fast_map_get en st (env_caller en) asset2)
      then force_as_int (current_fast_map_get en st (env_caller en) asset1) else Inr 0) = Inr bal2"
    and st1: "st1 = current_fast_map_set en (env_caller en) asset2 (COT_INT (wrap_int64 (bal2 + snd c)))
       (current_fast_map_set en (env_caller en) asset1 (COT_INT (wrap_int64 (bal1 + fst c))) st)"
    and g2: "\<not> (\<not> (a0 - fst c = 0 \<and> b0 - snd c = 0 \<and> s0 - tk0 = 0) \<and> \<not> (a0 - fst c \<noteq> 0 \<and> b0 - snd c \<noteq> 0 \<and> s0 - tk0 \<noteq> 0))"
    and st2: "st2 = set_current_contract_storage en ''supply'' (COT_INT (s0 - tk0))
       (set_current_contract_storage en ''asset_2_pool_amount'' (COT_INT (b0 - snd c))
       (set_current_contract_storage en ''asset_1_pool_amount'' (COT_INT (a0 - fst c)) st1))"
    and st3: "st3 = current_fast_map_set en ''users'' (env_caller en) (COT_INT (tb - tk0)) st2"
    and same: "\<forall>n. get_current_contract_storage_cbor en st' n = get_current_contract_storage_cbor en st3 n"
    "\<forall>m k. current_fast_map_get en st' m k = current_fast_map_get en st3 m k"
    by (rule removeLiquidity_Inr [OF assms(1)])
  then have eq: "tk0 = tk" "a0 = a" "b0 = b" "s0 = s"
    using assms(2) tk by (simp_all add: pools_def)
  note h = g(2-6,10-15) [unfolded eq] and st2 = st2 [unfolded eq] and st3 = st3 [unfolded eq]
  have tb: "tb = token_balance en st (env_caller en)" using h(4) by (simp add: fast_map_int_users)
  then have tb_le: "tb \<le> s" using users.supported_bound [OF funds(1)] funds(2) by simp
  have le: "tk \<le> s" using h(5) tb_le by simp
  show "0 < tk" by (rule h(3))
  show "tk \<le> token_balance en st (env_caller en)" using h(5) tb by simp
  have "c = (c1, c2)"
  proof (cases "s = tk")
    case True
    then show ?thesis using h(9) by (simp add: c1_def c2_def pool_removed_def)
  next
    case False
    then show ?thesis
      using h(9) pool_share_eq [of tk s a b] h(3,6,8) le bounds by (simp add: c1_def c2_def pool_removed_def)
  qed
  then have c: "fst c = c1" "snd c = c2" by simp_all
  show b1: "c1 * s \<le> tk * a" "0 \<le> c1" "c1 \<le> a"
    using removed_bounds [OF h(3) le, of a] h(6) by (simp_all add: c1_def)
  show b2: "c2 * s \<le> tk * b" "0 \<le> c2" "c2 \<le> b"
    using removed_bounds [OF h(3) le, of b] h(8) by (simp_all add: c2_def)
  show "\<exists>min1 min2. stoll (split_comma arg ! 1) = Inr min1 \<and> stoll (split_comma arg ! 2) = Inr min2 \<and>
       min1 \<le> c1 \<and> min2 \<le> c2"
    using h(1,2,10,11) c by simp
  have ok: "storable (a - c1)" "storable (b - c2)" "storable (s - tk)" "storable (tb - tk)"
    using b1 b2 le bounds h(3,5) tb_le by (simp_all add: storable_def)
  show "pools en st' (a - c1) (b - c2) (s - tk)"
    unfolding pools_cong [OF same(1) [rule_format]] st3 pools_fast_map st2 c by (rule pools_written [OF ok(1-3)])
  have bal2: "token_balance en st2 u = token_balance en st u" for u
    unfolding st2 st1 by (simp add: token_balance_plain token_balance_deposit [OF bounds(4)])
  have bal: "token_balance en st' u = (if u = env_caller en then tb - tk else token_balance en st u)" for u
    unfolding token_balance_cong [OF same(2) [rule_format]] st3 by (simp add: token_balance_put [OF ok(4)] bal2)
  then show "\<forall>u. token_balance en st' u = token_balance en st u - (if u = env_caller en then tk else 0)"
    using tb by simp
  show "\<exists>B. users.supported en st' B (s - tk)"
    using supported_after_put [OF funds(1) ok(4) bal] tb by (auto simp: algebra_simps)
qed

text \<open>What the deposits become: the second one starts from the balance of the first asset.\<close>

lemma removeLiquidity_deposits:
  assumes "removeLiquidity_api en arg st = Inr st'" "plain_caller en"
    "get_string_current_contract_storage en st ''asset_1_symbol'' = Inr asset1"
    "get_string_current_contract_storage en st ''asset_2_symbol'' = Inr asset2" "asset1 \<noteq> asset2"
    "is_integer (current_fast_map_get en st (env_caller en) asset1)"
    "force_as_int (current_fast_map_get en st (env_caller en) asset1) = Inr p"
    "is_integer (current_fast_map_get en st (env_caller en) asset2)"
  shows "\<exists>c1 c2. current_fast_map_get en st' (env_caller en) asset1 = cbor_reload (COT_INT (wrap_int64 (p + c1))) \<and>
    current_fast_map_get en st' (env_caller en) asset2 = cbor_reload (COT_INT (wrap_int64 (p + c2)))"
proof -
  obtain tk0 min1 min2 tb a0 b0 s0 c asset10 asset20 bal1 bal2 st1 st2 st3 where
    g: "stoll (split_comma arg ! 0) = Inr tk0"
    "stoll (split_comma arg ! 1) = Inr min1"
    "stoll (split_comma arg ! 2) = Inr min2"
    "0 < tk0"
    "fast_map_int en st ''users'' (env_caller en) = Inr tb"
    "tk0 \<le> tb"
    "get_int_current_contract_storage en st ''asset_1_pool_amount'' = Inr a0"
    "get_int_current_contract_storage en st ''asset_2_pool_amount'' = Inr b0"
    "get_int_current_contract_storage en st ''supply'' = Inr s0"
    "0 < a0"
    "0 < s0"
    "0 < b0"
    "(if s0 = tk0 then Inr (a0, b0) else pool_share tk0 s0 a0 b0) = Inr c"
    "min1 \<le> fst c"
    "min2 \<le> snd c"
    "get_string_current_contract_storage en st ''asset_1_symbol'' = Inr asset10"
    "get_string_current_contract_storage en st ''asset_2_symbol'' = Inr asset20"
    "(if is_integer (current_fast_map_get en st (env_caller en) asset10)
      then force_as_int (current_fast_map_get en st (env_caller en) asset10) else Inr 0) = Inr bal1"
    "(if is_integer (current_fast_map_get en st (env_caller en) asset20)
      then force_as_int (current_fast_map_get en st (env_caller en) asset10) else Inr 0) = Inr bal2"
    and st1: "st1 = current_fast_map_set en (env_caller en) asset20 (COT_INT (wrap_int64 (bal2 + snd c)))
       (current_fast_map_set en (env_caller en) asset10 (COT_INT (wrap_int64 (bal1 + fst c))) st)"
    and g2: "\<not> (\<not> (a0 - fst c = 0 \<and> b0 - snd c = 0 \<and> s0 - tk0 = 0) \<and> \<not> (a0 - fst c \<noteq> 0 \<and> b0 - snd c \<noteq> 0 \<and> s0 - tk0 \<noteq> 0))"
    and st2: "st2 = set_current_contract_storage en ''supply'' (COT_INT (s0 - tk0))
       (set_current_contract_storage en ''asset_2_pool_amount'' (COT_INT (b0 - snd c))
       (set_current_contract_storage en ''asset_1_pool_amount'' (COT_INT (a0 - fst c)) st1))"
    and st3: "st3 = current_fast_map_set en ''users'' (env_caller en) (COT_INT (tb - tk0)) st2"
    and same: "\<forall>n. get_current_contract_storage_cbor en st' n = get_current_contract_storage_cbor en st3 n"
    "\<forall>m k. current_fast_map_get en st' m k = current_fast_map_get en st3 m k"
    by (rule removeLiquidity_Inr [OF assms(1)])
  then have eq: "asset10 = asset1" "asset20 = asset2" "bal1 = p" "bal2 = p"
    using assms(3,4,6-8) by simp_all
  note st1 = st1 [unfolded eq]
  have "env_caller en @ ''.'' @ v \<noteq> ''users'' @ ''.'' @ env_caller en" for v
    using users_key_other [OF assms(2), of "env_caller en" v] by metis
  moreover have "CHR ''.'' \<notin> set n \<Longrightarrow> env_caller en @ ''.'' @ v \<noteq> n" for n v
    using plain_key(1) by metis
  ultimately have "current_fast_map_get en st' (env_caller en) v = current_fast_map_get en st1 (env_caller en) v" for v
    unfolding same(2) [rule_format] st3 st2 by (simp add: store_simps)
  then show ?thesis
    using assms(5) unfolding st1 by (auto simp: store_simps)
qed

lemma exchange_fee_zero_rate:
  assumes "0 < amount" "amount < 2 ^ 63"
  shows "exchange_fee ''0'' amount = Inr 1"
proof -
  obtain r where "safe_number_create_str ''0'' = Inr r" "is_nat_sn r 0" using create_str_zero by blast
  moreover obtain n where "safe_number_create_int64 amount = Inr n" "is_nat_sn n (nat amount)"
    using create_int64_nat [of amount] assms by auto
  moreover from calculation have "safe_number_multiply n r = Inr sn_0"
    using is_nat_sn_facts [of n "nat amount"] is_nat_sn_facts [of r 0]
    by (simp add: safe_number_multiply_def safe_number_is_valid_def)
  moreover obtain w where "safe_number_create_int64 0 = Inr w" using create_int64_nat [of 0] by auto
  moreover have "safe_number_to_int64 sn_0 = Inr 0" using is_nat_to_int64 [OF is_nat_sn_0] by simp
  ultimately show ?thesis by (simp add: exchange_fee_def round_up_to_int64_def)
qed

end
