(* ===== verification/Exchange_Contract.thy ===== *)
theory Exchange_Contract
  imports Native_Store Safe_Number
begin

text \<open>
  The order matching contract, \<^verbatim>\<open>native_exchange_contract.cpp\<close>: users deposit assets, sign orders off
  the chain, and a relayer submits matched orders. A deposit is the entry \<open>address.symbol\<close> of the
  store, the progress of an order the entry \<open>id.info\<close>, a map with the amounts spent and got so far.
\<close>

section \<open>Orders\<close>

record OrderInfo =
  purchaseAsset :: string
  purchaseNum :: int
  payAsset :: string
  payNum :: int
  order_nonce :: string
  relayer :: string
  order_fee_rate :: string
  order_type :: string
  expiredAt :: int
  order_version :: int

record Order =
  orderInfo :: string
  order_sig :: string
  order_id :: string

record FillOrder =
  fill_order :: Order
  getNum :: int
  spentNum :: int

record MatchInfo =
  fillTakerOrder :: FillOrder
  fillMakerOrders :: "FillOrder list"

definition OrderInfo_from_variant :: "contract_env \<Rightarrow> json \<Rightarrow> OrderInfo result" where
  "OrderInfo_from_variant en var =
    ebind (get_object var) (\<lambda>obj.
    ebind (ebind (json_at obj ''purchaseAsset'') (variant_as_string en)) (\<lambda>purchase_asset.
    ebind (ebind (json_at obj ''purchaseNum'') (variant_as_int64 en)) (\<lambda>purchase_num.
    ebind (ebind (json_at obj ''payAsset'') (variant_as_string en)) (\<lambda>pay_asset.
    ebind (ebind (json_at obj ''payNum'') (variant_as_int64 en)) (\<lambda>pay_num.
    ebind (ebind (json_at obj ''nonce'') (variant_as_string en)) (\<lambda>nonce.
    ebind (ebind (json_at obj ''relayer'') (variant_as_string en)) (\<lambda>relayer_addr.
    ebind (ebind (json_at obj ''fee'') (variant_as_string en)) (\<lambda>fee.
    ebind (ebind (json_at obj ''type'') (variant_as_string en)) (\<lambda>type.
    ebind (ebind (json_at obj ''expiredAt'') (variant_as_uint64 en)) (\<lambda>expired.
    ebind (ebind (json_at obj ''version'') (variant_as_uint64 en)) (\<lambda>version.
    Inr \<lparr>purchaseAsset = purchase_asset, purchaseNum = purchase_num, payAsset = pay_asset, payNum = pay_num,
         order_nonce = nonce, relayer = relayer_addr, order_fee_rate = fee, order_type = type,
         expiredAt = expired, order_version = version\<rparr>)))))))))))"

definition Order_from_variant :: "contract_env \<Rightarrow> json \<Rightarrow> Order result" where
  "Order_from_variant en var =
    ebind (get_object var) (\<lambda>obj.
    ebind (ebind (json_at obj ''sig'') (variant_as_string en)) (\<lambda>sig.
    ebind (ebind (json_at obj ''id'') (variant_as_string en)) (\<lambda>oid.
    ebind (ebind (json_at obj ''orderInfo'') (variant_as_string en)) (\<lambda>info.
    Inr \<lparr>orderInfo = info, order_sig = sig, order_id = oid\<rparr>))))"

definition FillOrder_from_variant :: "contract_env \<Rightarrow> json \<Rightarrow> FillOrder result" where
  "FillOrder_from_variant en var =
    ebind (get_object var) (\<lambda>obj.
    ebind (ebind (json_at obj ''order'') (Order_from_variant en)) (\<lambda>ord.
    ebind (ebind (json_at obj ''getNum'') (variant_as_int64 en)) (\<lambda>get_num.
    ebind (ebind (json_at obj ''spentNum'') (variant_as_int64 en)) (\<lambda>spent_num.
    Inr \<lparr>fill_order = ord, getNum = get_num, spentNum = spent_num\<rparr>))))"

fun list_from_variant :: "(json \<Rightarrow> 'a result) \<Rightarrow> json list \<Rightarrow> 'a list result" where
  "list_from_variant f [] = Inr []"
| "list_from_variant f (v # vs) = ebind (f v) (\<lambda>x. ebind (list_from_variant f vs) (\<lambda>xs. Inr (x # xs)))"

definition MatchInfo_from_variant :: "contract_env \<Rightarrow> json \<Rightarrow> MatchInfo result" where
  "MatchInfo_from_variant en var =
    ebind (get_object var) (\<lambda>obj.
    ebind (ebind (json_at obj ''fillTakerOrder'') (FillOrder_from_variant en)) (\<lambda>taker.
    ebind (ebind (json_at obj ''fillMakerOrders'') get_array) (\<lambda>vs.
    ebind (list_from_variant (FillOrder_from_variant en) vs) (\<lambda>makers.
    Inr \<lparr>fillTakerOrder = taker, fillMakerOrders = makers\<rparr>))))"

section \<open>Configuration\<close>

definition NATIVE_EXCHANGE_ORDER_STATE_CANCELED :: int where
  "NATIVE_EXCHANGE_ORDER_STATE_CANCELED = 0"

definition NATIVE_EXCHANGE_ORDER_STATE_COMPLETED :: int where
  "NATIVE_EXCHANGE_ORDER_STATE_COMPLETED = 1"

definition exchange_contract_key :: string where
  "exchange_contract_key = ''exchange''"

definition exchange_apis :: "string set" where
  "exchange_apis = {''init'', ''init_config'', ''fillOrder'', ''cancelOrders'', ''setMinFee'', ''withdraw'',
     ''state'', ''feeReceiver'', ''balanceOf'', ''getOrder'', ''minFee'', ''balanceOfPubk'', ''getAddrByPubk'',
     ''on_deposit_asset''}"

definition exchange_offline_apis :: "string set" where
  "exchange_offline_apis = {''state'', ''feeReceiver'', ''balanceOf'', ''getOrder'', ''minFee'',
     ''balanceOfPubk'', ''getAddrByPubk''}"

definition exchange_events :: "string set" where
  "exchange_events = {''Inited'', ''OrderCanceled'', ''BuyOrderPutedOn'', ''SellOrderPutedOn'', ''Deposited'',
     ''Withdrawed'', ''CancelOrders'', ''FillOrders'', ''UserBalanceChange''}"

definition not_inited_state_of_exchange_contract :: string where
  "not_inited_state_of_exchange_contract = ''NOT_INITED''"

definition common_state_of_exchange_contract :: string where
  "common_state_of_exchange_contract = ''COMMON''"

definition exchange_init_api :: handler where
  "exchange_init_api en api_arg st =
    (let st = set_current_contract_storage en ''name'' (COT_STRING '''') st;
         st = set_current_contract_storage en ''feeReceiver'' (COT_STRING '''') st;
         st = set_current_contract_storage en ''state'' (COT_STRING not_inited_state_of_exchange_contract) st;
         caller_addr = caller_address_string en
     in if caller_addr = [] then Inl (Fc_assert ''caller_address can't be empty'')
        else Inr (set_current_contract_storage en ''admin'' (COT_STRING caller_addr) st))"

definition exchange_check_admin :: "contract_env \<Rightarrow> contract_invoke_result \<Rightarrow> string result" where
  "exchange_check_admin en st =
    (let caller_addr = caller_address_string en
     in ebind (get_string_current_contract_storage en st ''admin'') (\<lambda>admin.
        if admin = caller_addr then Inr admin else throw_error ''only admin can call this api''))"

definition exchange_get_storage_state :: "contract_env \<Rightarrow> contract_invoke_result \<Rightarrow> string result" where
  "exchange_get_storage_state en st = get_string_current_contract_storage en st ''state''"

text \<open>
  \<open>getOrderOwnerAddressAndId\<close> returns a status text, the address and the oid. The oid is the hash
  of the order text and its signature; the address belongs to the key recovered from the
  signature.
\<close>

definition getOrderOwnerAddressAndId :: "contract_env \<Rightarrow> Order \<Rightarrow> (string \<times> string \<times> string) result" where
  "getOrderOwnerAddressAndId en o1 =
    (let sig_hex = order_sig o1; infostr = orderInfo o1;
         orderinfoDigest = env_sha256 en infostr;
         oid = env_sha256 en (infostr @ sig_hex)
     in if order_id o1 \<noteq> oid then Inr (''id not match'', [], oid)
     else ebind (from_hex sig_hex (length sig_hex div 2)) (\<lambda>sig_bytes.
       if length sig_bytes \<noteq> length sig_hex div 2 then Inr (''parse sig hex to bytes error'', [], oid)
       else if length sig_bytes > 65 then Inr (''invalid sig bytes size'', [], oid)
       else ebind (env_recover_public_key en sig_bytes orderinfoDigest) (\<lambda>key.
         case key of
           None \<Rightarrow> Inr (''invalid signature'', [], oid)
         | Some k \<Rightarrow>
             (case env_pubkey_to_address_string en of
                None \<Rightarrow> Inr (''invalid global_uvm_chain_api'', [], oid)
              | Some f \<Rightarrow> Inr (''OK'', f k, oid)))))"

section \<open>Checking and settling one order\<close>

text \<open>The checks on the order text: expiry, amounts, fee receiver and fee.\<close>

definition order_fee_receiver :: "contract_env \<Rightarrow> contract_invoke_result \<Rightarrow> OrderInfo \<Rightarrow> string result" where
  "order_fee_receiver en st info =
    (if relayer info = [] then get_string_current_contract_storage en st ''feeReceiver''
     else if \<not> env_is_valid_address en (relayer info) then throw_error ''relayer is invalid address''
     else Inr (relayer info))"

definition order_spent_fee :: "contract_env \<Rightarrow> contract_invoke_result \<Rightarrow> OrderInfo \<Rightarrow> int \<Rightarrow> int result" where
  "order_spent_fee en st info spent =
    (if \<not> is_numeric (order_fee_rate info) then throw_error ''invalid fee percentage''
     else ebind (safe_number_create_int64 spent) (\<lambda>n.
       ebind (safe_number_create_str (order_fee_rate info)) (\<lambda>rate.
       ebind (safe_number_multiply n rate) (\<lambda>p.
       ebind (safe_number_to_int64 p) (\<lambda>spentFee.
       let temp_minFee = current_fast_map_get en st (payAsset info) ''minFee''
       in ebind (if is_integer temp_minFee then force_as_int temp_minFee else Inr 0) (\<lambda>minFee.
         if spentFee < 0 then throw_error ''fee percentage must positive''
         else if spentFee < minFee then Inr minFee
         else if spentFee \<ge> spent then throw_error ''fee percentage must < 100%''
         else Inr spentFee))))))"

definition order_is_buy :: "OrderInfo \<Rightarrow> bool result" where
  "order_is_buy info =
    (if order_type info = ''buy'' then Inr True
     else if order_type info = ''sell'' then Inr False
     else throw_error ''order type wrong'')"

definition order_price_ok :: "OrderInfo \<Rightarrow> int \<Rightarrow> int \<Rightarrow> unit result" where
  "order_price_ok info get_num spent =
    ebind (safe_number_create_int64 (purchaseNum info)) (\<lambda>sn_purchaseNum.
    ebind (safe_number_create_int64 (payNum info)) (\<lambda>sn_payNum.
    ebind (safe_number_create_int64 spent) (\<lambda>sn_spent.
    ebind (safe_number_multiply sn_spent sn_purchaseNum) (\<lambda>a.
    ebind (safe_number_create_int64 get_num) (\<lambda>sn_get.
    ebind (safe_number_multiply sn_get sn_payNum) (\<lambda>b.
    ebind (safe_number_gt a b) (\<lambda>worse.
    if worse then throw_error ''fill order price not satify'' else Inr ())))))))"

text \<open>The progress of the order: a canceled or completed order stays as it is.\<close>

definition update_order_progress ::
    "contract_env \<Rightarrow> string \<Rightarrow> int \<Rightarrow> int \<Rightarrow> int \<Rightarrow> contract_invoke_result \<Rightarrow>
     (int \<times> int \<times> contract_invoke_result) result" where
  "update_order_progress en oid pay_num get_num spent st =
    (let orderStore = current_fast_map_get en st oid ''info''
     in if is_map orderStore then
       let o1 = as_map orderStore
       in ebind (case std_map_find o1 ''state'' of
             None \<Rightarrow> Inr ()
           | Some v \<Rightarrow> ebind (force_as_int v) (\<lambda>state.
               if state = NATIVE_EXCHANGE_ORDER_STATE_CANCELED then throw_error ''order has been canceled''
               else if state = NATIVE_EXCHANGE_ORDER_STATE_COMPLETED
               then throw_error ''order has been completely filled''
               else throw_error ''wrong order state'')) (\<lambda>_.
         ebind (case std_map_find o1 ''spentNum'' of
             Some v \<Rightarrow> ebind (force_as_int v) (\<lambda>lastSpentNum.
               let remainNum = wrap_int64 (pay_num - lastSpentNum)
               in if remainNum < spent then throw_error ''order remain not enough''
               else let o1 = std_map_set ''spentNum'' (COT_INT (wrap_int64 (lastSpentNum + spent))) o1
               in case std_map_find o1 ''gotNum'' of
                 None \<Rightarrow> throw_error ''wrong order info stored''
               | Some g \<Rightarrow> ebind (force_as_int g) (\<lambda>lastGotNum.
                   Inr (lastSpentNum, lastGotNum,
                     std_map_set ''gotNum'' (COT_INT (wrap_int64 (lastGotNum + get_num))) o1)))
           | None \<Rightarrow>
               Inr (0, 0, std_map_set ''spentNum'' (COT_INT spent) (std_map_set ''gotNum'' (COT_INT get_num) o1)))
           (\<lambda>(lastSpentNum, lastGotNum, o1).
         Inr (lastSpentNum, lastGotNum, current_fast_map_set en oid ''info'' (COT_MAP o1) st)))
     else
       Inr (0, 0, current_fast_map_set en oid ''info''
         (COT_MAP (std_map_set ''spentNum'' (COT_INT spent) [(''gotNum'', COT_INT get_num)])) st))"

text \<open>
  The payments: the owner pays the spent amount and the fee and receives the bought amount. The
  balance of the fee receiver is read into the wrong variable, so the fee replaces it.
\<close>

definition settle_order ::
    "contract_env \<Rightarrow> string \<Rightarrow> string \<Rightarrow> OrderInfo \<Rightarrow> int \<Rightarrow> int \<Rightarrow> int \<Rightarrow> int \<Rightarrow> contract_invoke_result \<Rightarrow>
     contract_invoke_result result" where
  "settle_order en addr feeReceiver info bal get_num spent spentFee st =
    (let st = current_fast_map_set en addr (payAsset info) (COT_INT (wrap_int64 (bal - spent - spentFee))) st;
         balance = current_fast_map_get en st addr (purchaseAsset info)
     in ebind (if \<not> is_integer balance then Inr 0 else force_as_int balance) (\<lambda>bal.
        let st = current_fast_map_set en addr (purchaseAsset info) (COT_INT (wrap_int64 (bal + get_num))) st
        in if spentFee > 0
           then let balance = current_fast_map_get en st feeReceiver (payAsset info); feeReceiverBal = 0
             in ebind (if is_integer balance then force_as_int balance else Inr bal) (\<lambda>bal.
                Inr (current_fast_map_set en feeReceiver (payAsset info)
                  (COT_INT (wrap_int64 (feeReceiverBal + spentFee))) st))
           else Inr st))"

text \<open>What remains of the order after this fill, as the event reports it.\<close>

definition comma_list :: "string list \<Rightarrow> string" where
  "comma_list parts = (case parts of [] \<Rightarrow> [] | p # ps \<Rightarrow> p @ concat (map (\<lambda>q. '','' @ q) ps))"

definition order_remainder ::
    "bool \<Rightarrow> OrderInfo \<Rightarrow> int \<Rightarrow> int \<Rightarrow> int \<Rightarrow> int \<Rightarrow> (int \<times> int) result" where
  "order_remainder isBuyOrder info get_num spent lastSpentNum lastGotNum =
    ebind (safe_number_create_int64 (purchaseNum info)) (\<lambda>sn_purchaseNum.
    ebind (safe_number_create_int64 (payNum info)) (\<lambda>sn_payNum.
    if isBuyOrder
    then let baseNum = wrap_int64 (purchaseNum info - get_num - lastGotNum);
             quoteNum = wrap_int64 (payNum info - spent - lastSpentNum)
         in if baseNum > 0
            then ebind (safe_number_create_int64 baseNum) (\<lambda>n.
                 ebind (safe_number_div sn_payNum sn_purchaseNum) (\<lambda>price.
                 ebind (safe_number_multiply n price) (\<lambda>q.
                 ebind (safe_number_to_int64 q) (\<lambda>quoteNum. Inr (baseNum, quoteNum)))))
            else Inr (baseNum, quoteNum)
    else let baseNum = wrap_int64 (payNum info - spent - lastSpentNum);
             quoteNum = wrap_int64 (purchaseNum info - get_num - lastGotNum)
         in if baseNum > 0
            then ebind (safe_number_create_int64 baseNum) (\<lambda>n.
                 ebind (safe_number_div sn_purchaseNum sn_payNum) (\<lambda>price.
                 ebind (safe_number_multiply n price) (\<lambda>sn_quoteNum.
                 ebind (safe_number_to_int64 sn_quoteNum) (\<lambda>quoteNum.
                 ebind (safe_number_create_int64 quoteNum) (\<lambda>back.
                 let quoteNum = (if \<not> safe_number_eq sn_quoteNum back then quoteNum + 1 else quoteNum);
                     quoteNum = (if quoteNum = 0 then 1 else quoteNum)
                 in Inr (baseNum, quoteNum))))))
            else Inr (baseNum, quoteNum)))"

definition order_event_text ::
    "bool \<Rightarrow> int \<Rightarrow> int \<Rightarrow> string \<Rightarrow> string \<Rightarrow> int \<Rightarrow> int \<Rightarrow> int \<Rightarrow> int \<Rightarrow> int \<Rightarrow> string" where
  "order_event_text isBuyOrder baseNum quoteNum addr oid lastSpentNum lastGotNum get_num spent spentFee =
    (let got = int_to_string (wrap_int64 (lastGotNum + get_num));
         paid = int_to_string (wrap_int64 (lastSpentNum + spent))
     in comma_list ([int_to_string baseNum, int_to_string quoteNum, addr, oid] @
          (if isBuyOrder then [got, paid, int_to_string get_num, int_to_string spent]
           else [paid, got, int_to_string spent, int_to_string get_num]) @ [int_to_string spentFee]))"

definition user_balance_change ::
    "contract_env \<Rightarrow> string \<Rightarrow> string \<Rightarrow> int \<Rightarrow> contract_invoke_result \<Rightarrow> contract_invoke_result result" where
  "user_balance_change en symbol addr amount st =
     emit_event en ''UserBalanceChange'' (Dumped (Json_object [(''symbol'', Json_string symbol),
       (''address'', Json_string addr), (''amount'', Json_int amount)])) st"

record checked_order =
  co_info :: OrderInfo
  co_addr :: string
  co_id :: string
  co_event :: string
  co_completed :: bool

definition checkOrder ::
    "contract_env \<Rightarrow> FillOrder \<Rightarrow> contract_invoke_result \<Rightarrow> (checked_order \<times> contract_invoke_result) result" where
  "checkOrder en fillOrder st =
    ebind (getOrderOwnerAddressAndId en (fill_order fillOrder)) (\<lambda>(status, addr, oid).
    if status \<noteq> ''OK'' then throw_error ''fillOrder wrong''
    else ebind (env_json_from_string en (orderInfo (fill_order fillOrder))) (\<lambda>orderInfoV.
    ebind (case orderInfoV of Json_object obj \<Rightarrow> Inr () | _ \<Rightarrow> throw_error ''fillOrderInfo not map str'') (\<lambda>_.
    ebind (OrderInfo_from_variant en orderInfoV) (\<lambda>info.
    let get_num = getNum fillOrder; spent = spentNum fillOrder
    in if expiredAt info \<le> env_chain_now en then throw_error (''order expired, order id:'' @ oid)
    else if purchaseNum info \<le> 0 \<or> payNum info \<le> 0 \<or> get_num \<le> 0 \<or> spent \<le> 0 then throw_error ''num must > 0''
    else if spent > payNum info then throw_error ''spentNum must < payNum''
    else ebind (order_fee_receiver en st info) (\<lambda>feeReceiver.
    ebind (order_spent_fee en st info spent) (\<lambda>spentFee.
    ebind (order_is_buy info) (\<lambda>isBuyOrder.
    ebind (order_price_ok info get_num spent) (\<lambda>_.
    let balance = current_fast_map_get en st addr (payAsset info)
    in if \<not> is_integer balance then throw_error (''no balance of user '' @ addr)
    else ebind (force_as_int balance) (\<lambda>bal.
    if bal < wrap_int64 (spent + spentFee) then throw_error ''not enough balance''
    else ebind (update_order_progress en oid (payNum info) get_num spent st) (\<lambda>(lastSpentNum, lastGotNum, st).
    ebind (settle_order en addr feeReceiver info bal get_num spent spentFee st) (\<lambda>st.
    ebind (order_remainder isBuyOrder info get_num spent lastSpentNum lastGotNum) (\<lambda>(baseNum, quoteNum).
    ebind (user_balance_change en (payAsset info) addr (wrap_int64 (- (spent + spentFee))) st) (\<lambda>st.
    ebind (if spentFee > 0 then user_balance_change en (payAsset info) feeReceiver spentFee st else Inr st) (\<lambda>st.
    ebind (user_balance_change en (purchaseAsset info) addr get_num st) (\<lambda>st.
    Inr (\<lparr>co_info = info, co_addr = addr, co_id = oid,
          co_event = order_event_text isBuyOrder baseNum quoteNum addr oid lastSpentNum lastGotNum get_num spent spentFee,
          co_completed = (baseNum \<le> 0)\<rparr>, st))))))))))))))))"

section \<open>Matching\<close>

text \<open>The loop over the maker orders: their totals, event texts and ids.\<close>

fun makers_loop ::
    "contract_env \<Rightarrow> OrderInfo \<Rightarrow> FillOrder list \<Rightarrow> int \<Rightarrow> int \<Rightarrow> string list \<Rightarrow> string list \<Rightarrow>
     contract_invoke_result \<Rightarrow> (int \<times> int \<times> string list \<times> string list \<times> contract_invoke_result) result" where
  "makers_loop en taker [] totalGet totalSpent texts ids st = Inr (totalGet, totalSpent, texts, ids, st)"
| "makers_loop en taker (f # fs) totalGet totalSpent texts ids st =
    ebind (checkOrder en f st) (\<lambda>(co, st).
    if purchaseAsset taker \<noteq> payAsset (co_info co) \<or> payAsset taker \<noteq> purchaseAsset (co_info co)
    then throw_error ''asset not match''
    else if order_type taker = order_type (co_info co) then throw_error ''order type not match''
    else makers_loop en taker fs (wrap_int64 (getNum f + totalGet)) (wrap_int64 (spentNum f + totalSpent))
           (texts @ [co_event co]) (ids @ [co_id co]) st)"

definition checkMatchedOrders ::
    "contract_env \<Rightarrow> FillOrder \<Rightarrow> FillOrder list \<Rightarrow> contract_invoke_result \<Rightarrow> contract_invoke_result result" where
  "checkMatchedOrders en takerFillOrder makerFillOrders st =
    ebind (checkOrder en takerFillOrder st) (\<lambda>(co, st).
    let info = co_info co; takerIsBuy = (order_type info = ''buy'');
        takerGetNum = getNum takerFillOrder; takerSpentNum = spentNum takerFillOrder
    in ebind (makers_loop en info makerFillOrders 0 0 [] [co_id co] st)
      (\<lambda>(totalMakerGetNum, totalMakerSpentNum, texts, changedOrders, st).
    if totalMakerGetNum \<noteq> takerSpentNum \<or> totalMakerSpentNum \<noteq> takerGetNum
    then throw_error ''total exchange num not match''
    else
    let js = (\<lambda>ss. Json_array (map Json_string ss));
        putOnOrder = comma_list (if takerIsBuy
          then [int_to_string (purchaseNum info), int_to_string (payNum info), co_addr co, co_id co]
          else [int_to_string (payNum info), int_to_string (purchaseNum info), co_addr co, co_id co])
    in ebind (emit_event en (if takerIsBuy then ''BuyOrderPutedOn'' else ''SellOrderPutedOn'') (Dumped (Json_object
         [(''OrderType'', Json_string (order_type info)),
          (''totalExchangeBaseAmount'', Json_int (if takerIsBuy then takerGetNum else takerSpentNum)),
          (''totalExchangeQuoteAmount'', Json_int (if takerIsBuy then takerSpentNum else takerGetNum)),
          (''exchangPair'', Json_string (if takerIsBuy then purchaseAsset info @ ''/'' @ payAsset info
             else payAsset info @ ''/'' @ purchaseAsset info)),
          (''putOnOrder'', Json_string putOnOrder),
          (''transactionResult'', Json_string (if co_completed co then ''FULL_COMPLETED'' else ''PARTLY_COMPLETED'')),
          (''transactionSells'', js (if takerIsBuy then texts else [co_event co])),
          (''transactionBuys'', js (if takerIsBuy then [co_event co] else texts))])) st) (\<lambda>st.
    emit_event en ''FillOrders'' (Dumped (js changedOrders)) st)))"

section \<open>Handlers\<close>

definition exchange_init_config_api :: handler where
  "exchange_init_config_api en api_arg st =
    ebind (exchange_check_admin en st) (\<lambda>_.
    ebind (exchange_get_storage_state en st) (\<lambda>state.
    if state \<noteq> not_inited_state_of_exchange_contract then throw_error ''this exchange contract inited before''
    else let feeReceiver = trim api_arg
    in if feeReceiver = [] then throw_error ''feeReceiver is empty''
    else if \<not> env_is_valid_address en feeReceiver then throw_error ''feeReceiver is invalid address''
    else let st = set_current_contract_storage en ''feeReceiver'' (COT_STRING feeReceiver) st;
             st = set_current_contract_storage en ''state'' (COT_STRING common_state_of_exchange_contract) st
    in emit_event en ''Inited'' (Plain feeReceiver) st))"

definition exchange_state_api :: handler where
  "exchange_state_api en api_arg st =
    ebind (exchange_get_storage_state en st) (\<lambda>state. Inr (set_api_result (Plain state) st))"

definition minFee_api :: handler where
  "minFee_api en api_arg st =
    (let temp_minFee = current_fast_map_get en st api_arg ''minFee''
     in ebind (if is_integer temp_minFee then force_as_int temp_minFee else Inr 0) (\<lambda>minFee.
        Inr (set_api_result (Plain (int_to_string minFee)) st)))"

definition exchange_not_common :: "'a result" where
  "exchange_not_common = throw_error ''this exchange contract state is not common''"

definition setMinFee_api :: handler where
  "setMinFee_api en api_arg st =
    ebind (exchange_check_admin en st) (\<lambda>_.
    ebind (exchange_get_storage_state en st) (\<lambda>state.
    if state \<noteq> common_state_of_exchange_contract then exchange_not_common
    else let parsed_args = split_comma api_arg
    in if length parsed_args \<noteq> 2 then throw_error ''argument format error, need format: asset_symbol,minFee''
    else let asset_symbol = parsed_args ! 0
    in if asset_symbol = [] then throw_error ''symbol is empty''
    else if \<not> is_integral (parsed_args ! 1) then throw_error ''argument format error, minFee must be integral''
    else ebind (to_int64 (parsed_args ! 1)) (\<lambda>minFee.
    if minFee < 0 then throw_error ''amount must >= 0''
    else Inr (current_fast_map_set en asset_symbol ''minFee'' (COT_INT minFee) st))))"

definition fillOrder_api :: handler where
  "fillOrder_api en api_args_utf8 st =
    ebind (exchange_get_storage_state en st) (\<lambda>state.
    if state \<noteq> common_state_of_exchange_contract then exchange_not_common
    else ebind (env_json_from_string en api_args_utf8) (\<lambda>args.
    ebind (case args of Json_object obj \<Rightarrow> Inr () | _ \<Rightarrow> throw_error ''args not map'') (\<lambda>_.
    ebind (MatchInfo_from_variant en args) (\<lambda>matchinfo.
    ebind (checkMatchedOrders en (fillTakerOrder matchinfo) (fillMakerOrders matchinfo) st) (\<lambda>st.
    Inr (set_api_result (Plain ''OK'') st))))))"

text \<open>
  Cancelling one order. For an order that has been filled in part, the map with the new state is
  a copy; the value stored is the old one.
\<close>

definition cancelOrder ::
    "contract_env \<Rightarrow> Order \<Rightarrow> string list \<Rightarrow> contract_invoke_result \<Rightarrow> (string list \<times> contract_invoke_result) result" where
  "cancelOrder en ord canceledOrderIds st =
    ebind (getOrderOwnerAddressAndId en ord) (\<lambda>(status, addr, oid).
    if status = ''OK'' \<and> caller_address_string en = addr
    then let info = current_fast_map_get en st oid ''info''
      in if is_map info
         then let o1 = as_map info
           in ebind (case std_map_find o1 ''state'' of None \<Rightarrow> Inr False
                | Some v \<Rightarrow> ebind (force_as_int v) (\<lambda>state. Inr (state = 0))) (\<lambda>already.
              if already then Inr (canceledOrderIds, st)
              else let o1 = std_map_set ''state'' (COT_INT 0) o1
                in Inr (canceledOrderIds @ [oid], current_fast_map_set en oid ''info'' info st))
         else Inr (canceledOrderIds @ [oid],
                current_fast_map_set en oid ''info'' (COT_MAP [(''state'', COT_INT 0)]) st)
    else Inr (canceledOrderIds, st))"

fun cancel_loop ::
    "contract_env \<Rightarrow> Order list \<Rightarrow> string list \<Rightarrow> contract_invoke_result \<Rightarrow>
     (string list \<times> contract_invoke_result) result" where
  "cancel_loop en [] canceledOrderIds st = Inr (canceledOrderIds, st)"
| "cancel_loop en (ord # orders) canceledOrderIds st =
    ebind (cancelOrder en ord canceledOrderIds st) (\<lambda>(canceledOrderIds, st).
    cancel_loop en orders canceledOrderIds st)"

definition cancelOrders_api :: handler where
  "cancelOrders_api en api_args st =
    ebind (exchange_get_storage_state en st) (\<lambda>state.
    if state \<noteq> common_state_of_exchange_contract then exchange_not_common
    else ebind (env_json_from_string en api_args) (\<lambda>args.
    case args of
      Json_array vs \<Rightarrow>
        ebind (list_from_variant (Order_from_variant en) vs) (\<lambda>orders.
        ebind (cancel_loop en orders [] st) (\<lambda>(canceledOrderIds, st).
        let res = Dumped (Json_array (map Json_string canceledOrderIds));
            st = set_api_result res st
        in if length canceledOrderIds > 0 then emit_event en ''CancelOrders'' res st else Inr st))
    | _ \<Rightarrow> throw_error ''args not array''))"

definition exchange_on_deposit_asset_api :: handler where
  "exchange_on_deposit_asset_api en api_args st =
    ebind (exchange_get_storage_state en st) (\<lambda>state.
    if state \<noteq> common_state_of_exchange_contract then exchange_not_common
    else ebind (env_json_from_string en api_args) (\<lambda>args.
    case args of
      Json_object arginfo \<Rightarrow>
        ebind (variant_as_int64 en (json_get arginfo ''num'')) (\<lambda>amount.
        ebind (variant_as_string en (json_get arginfo ''symbol'')) (\<lambda>symbol.
        if amount \<le> 0 then throw_error ''amount must > 0''
        else let addr = caller_address_string en;
                 balance = current_fast_map_get en st addr symbol
        in ebind (if is_integer balance then force_as_int balance else Inr 0) (\<lambda>bal.
        let st = current_fast_map_set en addr symbol (COT_INT (wrap_int64 (bal + amount))) st
        in ebind (emit_event en ''Deposited'' (Dumped (Json_object [(''from_address'', Json_string addr),
             (''symbol'', Json_string symbol), (''amount'', Json_int amount)])) st) (\<lambda>st.
        emit_event en ''UserBalanceChange'' (Dumped (Json_object [(''symbol'', Json_string symbol),
             (''amount'', Json_int amount), (''address'', Json_string addr)])) st))))
    | _ \<Rightarrow> throw_error ''args not map''))"

definition exchange_withdraw_api :: handler where
  "exchange_withdraw_api en api_arg st =
    ebind (exchange_get_storage_state en st) (\<lambda>state.
    if state \<noteq> common_state_of_exchange_contract then exchange_not_common
    else let parsed_args = split_comma api_arg
    in if length parsed_args \<noteq> 2 then throw_error ''argument format error, need format: amount,symbol''
    else if \<not> is_integral (parsed_args ! 0) then throw_error ''argument format error, amount must be integral''
    else ebind (to_int64 (parsed_args ! 0)) (\<lambda>amount.
    if amount \<le> 0 then throw_error ''amount must > 0''
    else let symbol = parsed_args ! 1
    in if symbol = [] then throw_error ''symbol is empty''
    else let caller = caller_address_string en;
             balance = current_fast_map_get en st caller symbol
    in if \<not> is_integer balance then throw_error ''no balance to withdraw''
    else ebind (force_as_int balance) (\<lambda>bal.
    if amount > bal then throw_error ''not enough balance to withdraw''
    else let newBalance = bal - amount;
             st = (if newBalance = 0 then current_fast_map_set en caller (parsed_args ! 1) COT_NULL st
                   else current_fast_map_set en caller (parsed_args ! 1) (COT_INT newBalance) st)
    in ebind (current_transfer_to_address en caller symbol amount st) (\<lambda>st.
    ebind (emit_event en ''Withdrawed'' (Dumped (Json_object [(''symbol'', Json_string symbol),
      (''to_address'', Json_string caller), (''amount'', Json_int amount)])) st) (\<lambda>st.
    emit_event en ''UserBalanceChange'' (Dumped (Json_object [(''symbol'', Json_string symbol),
      (''amount'', Json_int (- amount)), (''address'', Json_string caller)])) st)))))"

definition exchange_balanceOf_api :: handler where
  "exchange_balanceOf_api en api_arg st =
    (let parsed_args = split_comma api_arg
     in if length parsed_args \<noteq> 2 then throw_error ''argument format error, need format: address,symbol''
     else let balance = current_fast_map_get en st (parsed_args ! 0) (parsed_args ! 1)
     in ebind (if \<not> is_integer balance then Inr 0 else force_as_int balance) (\<lambda>bal.
        Inr (set_api_result (Plain (int_to_string bal)) st)))"

definition getAddrByPubk :: "contract_env \<Rightarrow> string \<Rightarrow> string result" where
  "getAddrByPubk en pubk_hex =
    (if length pubk_hex = 2 * 33
     then ebind (from_hex pubk_hex 33) (\<lambda>pubkey_chars.
          ebind (env_parse_public_key en pubkey_chars) (\<lambda>pubk.
          case (pubk, env_pubkey_to_address_string en) of (Some k, Some f) \<Rightarrow> Inr (f k) | _ \<Rightarrow> Inr []))
     else Inr [])"

definition getAddrByPubk_api :: handler where
  "getAddrByPubk_api en api_arg st =
    ebind (getAddrByPubk en api_arg) (\<lambda>addr.
    if addr = [] then throw_error ''invalid publicKey_hexString'' else Inr (set_api_result (Plain addr) st))"

definition balanceOfPubk_api :: handler where
  "balanceOfPubk_api en api_arg st =
    (let parsed_args = split_comma api_arg
     in if length parsed_args \<noteq> 2
     then throw_error ''argument format error, need format: publicKey_hexString,symbol''
     else ebind (getAddrByPubk en (parsed_args ! 0)) (\<lambda>addr.
     if addr = [] then throw_error ''invalid publicKey_hexString''
     else let balance = current_fast_map_get en st addr (parsed_args ! 1)
     in ebind (if \<not> is_integer balance then Inr 0 else force_as_int balance) (\<lambda>bal.
        Inr (set_api_result (Plain (int_to_string bal)) st))))"

definition getOrder_api :: handler where
  "getOrder_api en orderId st =
    (let info = current_fast_map_get en st orderId ''info''
     in if is_map info then ebind (to_json info) (\<lambda>j. Inr (set_api_result (Dumped j) st))
        else Inr (set_api_result (Plain ''{}'') st))"

definition exchange_api_table :: "(string \<times> handler) list" where
  "exchange_api_table =
    [(''init'', exchange_init_api), (''init_config'', exchange_init_config_api), (''fillOrder'', fillOrder_api),
     (''cancelOrders'', cancelOrders_api), (''balanceOf'', exchange_balanceOf_api), (''getOrder'', getOrder_api),
     (''state'', exchange_state_api), (''minFee'', minFee_api), (''setMinFee'', setMinFee_api),
     (''on_deposit_asset'', exchange_on_deposit_asset_api), (''withdraw'', exchange_withdraw_api),
     (''getAddrByPubk'', getAddrByPubk_api), (''balanceOfPubk'', balanceOfPubk_api)]"

definition exchange_invoke ::
    "contract_env \<Rightarrow> string \<Rightarrow> string \<Rightarrow> contract_invoke_result \<Rightarrow> contract_invoke_result result" where
  "exchange_invoke en api_name api_arg st =
    (case map_of exchange_api_table api_name of
       Some h \<Rightarrow> ebind (h en api_arg st) (\<lambda>st. Inr (set_invoke_result_caller en st))
     | None \<Rightarrow> throw_error ''exchange api not found'')"

end
