(* ===== verification/Exchange_Orders.thy ===== *)
theory Exchange_Orders
  imports Exchange_Contract Safe_Integer
begin

text \<open>
  What the order matching contract promises: a fill respects the limit price of the order and its
  total, the fee replaces the balance of the fee receiver, and a cancelled order is not filled,
  unless it had been filled in part before.
\<close>

section \<open>What a fill has done\<close>

lemma checkOrder_Inr:
  assumes "checkOrder en f st = Inr (co, st')"
  obtains owner info feeReceiver spentFee isBuy pu bal upd st2 rem where
    "getOrderOwnerAddressAndId en (fill_order f) = Inr owner" "fst owner = ''OK''"
    "env_chain_now en < expiredAt info"
    "0 < purchaseNum info" "0 < payNum info" "0 < getNum f" "0 < spentNum f" "spentNum f \<le> payNum info"
    "order_fee_receiver en st info = Inr feeReceiver"
    "order_spent_fee en st info (spentNum f) = Inr spentFee"
    "order_is_buy info = Inr isBuy" "order_price_ok info (getNum f) (spentNum f) = Inr pu"
    "is_integer (current_fast_map_get en st (fst (snd owner)) (payAsset info))"
    "force_as_int (current_fast_map_get en st (fst (snd owner)) (payAsset info)) = Inr bal"
    "wrap_int64 (spentNum f + spentFee) \<le> bal"
    "update_order_progress en (snd (snd owner)) (payNum info) (getNum f) (spentNum f) st = Inr upd"
    "settle_order en (fst (snd owner)) feeReceiver info bal (getNum f) (spentNum f) spentFee (snd (snd upd)) = Inr st2"
    "order_remainder isBuy info (getNum f) (spentNum f) (fst upd) (fst (snd upd)) = Inr rem"
    "\<forall>n. get_current_contract_storage_cbor en st' n = get_current_contract_storage_cbor en st2 n"
    "\<forall>m k. current_fast_map_get en st' m k = current_fast_map_get en st2 m k"
    "co_info co = info" "co_addr co = fst (snd owner)" "co_id co = snd (snd owner)"
    "co_completed co = (fst rem \<le> 0)"
proof -
  show thesis
    using assms unfolding checkOrder_def Let_def
    apply (simp only: run_simps case_prod_beta user_balance_change_def)
    apply (elim exE conjE)
    apply (rule that, assumption+)
    apply (auto simp: reads_after_event split: if_splits)
    done
qed

text \<open>Entries with different last parts are different entries.\<close>

lemma last_key_eq:
  assumes "CHR ''.'' \<notin> set k" "CHR ''.'' \<notin> set k'" "m @ ''.'' @ k = m' @ ''.'' @ k'"
  shows "k = k'"
proof -
  have "rev k @ ''.'' @ rev m = rev k' @ ''.'' @ rev m'"
    using arg_cong [OF assms(3), of rev] by simp
  then show ?thesis using fast_key_eq [of "rev k" "rev k'" "rev m" "rev m'"] assms(1,2) by simp
qed

definition plain_asset :: "string \<Rightarrow> bool" where
  "plain_asset a \<longleftrightarrow> CHR ''.'' \<notin> set a \<and> a \<noteq> ''info''"

lemma info_key_other: "plain_asset a \<Longrightarrow> oid @ ''.'' @ ''info'' = m @ ''.'' @ a \<longleftrightarrow> False"
  using last_key_eq [of "''info''" a oid m] by (auto simp: plain_asset_def)

lemma settle_keeps_info:
  assumes "settle_order en addr r info bal g s fee st = Inr st'" "plain_asset (payAsset info)"
    "plain_asset (purchaseAsset info)"
  shows "current_fast_map_get en st' oid ''info'' = current_fast_map_get en st oid ''info''"
  using assms(1) unfolding settle_order_def Let_def
  by (auto simp: ebind_eq_Inr current_fast_map_get_set simp del: append.simps append_Cons
      simp: info_key_other [OF assms(2)] info_key_other [OF assms(3)] split: if_splits)

text \<open>What has been spent of an order according to its entry.\<close>

definition order_spent :: "contract_env \<Rightarrow> contract_invoke_result \<Rightarrow> string \<Rightarrow> int" where
  "order_spent en st oid =
    (let v = current_fast_map_get en st oid ''info''
     in if is_map v
        then (case std_map_find (as_map v) ''spentNum'' of
            Some n \<Rightarrow> (case force_as_int n of Inr k \<Rightarrow> k | Inl e \<Rightarrow> 0) | None \<Rightarrow> 0)
        else 0)"

lemma std_map_find_members': "std_map_find (cbor_reload_members m) k = map_option cbor_reload (std_map_find m k)"
  by (simp add: std_map_find_def map_cbor_reload_members)

lemma order_spent_stored:
  assumes "std_map_find m ''spentNum'' = Some (COT_INT n)" "storable n"
  shows "order_spent en (current_fast_map_set en oid ''info'' (COT_MAP m) st) oid = n"
  using assms storable_reload [OF assms(2)]
  by (simp add: order_spent_def store_simps std_map_find_members')

lemma update_order_progress_spent:
  assumes "update_order_progress en oid pay get spent st = Inr (ls, lg, st')"
    "storable (order_spent en st oid)" "0 < spent" "spent \<le> pay" "pay < 2 ^ 63"
  shows "ls = order_spent en st oid" "order_spent en st' oid = order_spent en st oid + spent"
    "order_spent en st oid + spent \<le> pay"
proof -
  let ?v = "current_fast_map_get en st oid ''info''"
  have goal: "ls = order_spent en st oid \<and> order_spent en st' oid = order_spent en st oid + spent \<and>
    order_spent en st oid + spent \<le> pay"
  proof (cases "is_map ?v")
    case False
    then have "order_spent en st oid = 0" by (simp add: order_spent_def Let_def)
    moreover have "st' = current_fast_map_set en oid ''info''
        (COT_MAP (std_map_set ''spentNum'' (COT_INT spent) [(''gotNum'', COT_INT get)])) st" "ls = 0"
      using assms(1) False by (simp_all add: update_order_progress_def)
    ultimately show ?thesis
      using order_spent_stored [of "[(''gotNum'', COT_INT get), (''spentNum'', COT_INT spent)]" spent en oid st] assms(3-5)
      by (simp add: std_map_find_def storable_def)
  next
    case True
    let ?o = "as_map ?v"
    show ?thesis
    proof (cases "std_map_find ?o ''spentNum''")
      case None
      then have z: "order_spent en st oid = 0" by (simp add: order_spent_def Let_def)
      have "st' = current_fast_map_set en oid ''info''
          (COT_MAP (std_map_set ''spentNum'' (COT_INT spent) (std_map_set ''gotNum'' (COT_INT get) ?o))) st" "ls = 0"
        using assms(1) True None by (auto simp: update_order_progress_def ebind_eq_Inr Let_def)
      then show ?thesis
        using z order_spent_stored [of _ spent en oid st] assms(3-5) by (simp add: std_map.find_put storable_def)
    next
      case (Some n)
      then obtain last lastGot where l: "force_as_int n = Inr last" "\<not> wrap_int64 (pay - last) < spent" "ls = last"
        "st' = current_fast_map_set en oid ''info'' (COT_MAP (std_map_set ''gotNum''
            (COT_INT (wrap_int64 (lastGot + get)))
            (std_map_set ''spentNum'' (COT_INT (wrap_int64 (last + spent))) ?o))) st"
        using assms(1) True
        by (auto simp: update_order_progress_def ebind_eq_Inr Let_def throw_error_def split: if_splits option.splits)
      have last: "order_spent en st oid = last" using True Some l(1) by (simp add: order_spent_def Let_def)
      have "wrap_int64 (pay - last) = pay - last"
      proof (rule wrap_int64_id)
        show "- (2 ^ 63) \<le> pay - last" "pay - last < 2 ^ 63"
          using assms(2-5) last by (simp_all add: storable_def)
      qed
      then have le: "last + spent \<le> pay" using l(2) by simp
      then have ok: "storable (last + spent)" using assms(2,3,5) last by (simp add: storable_def)
      then have "wrap_int64 (last + spent) = last + spent" by (intro wrap_int64_id) (simp_all add: storable_def)
      then show ?thesis
        using l last le ok order_spent_stored [OF _ ok] by (simp add: std_map.find_put)
    qed
  qed
  then show "ls = order_spent en st oid" "order_spent en st' oid = order_spent en st oid + spent"
    "order_spent en st oid + spent \<le> pay" by simp_all
qed

lemma checkOrder_progress:
  assumes "checkOrder en f st = Inr (co, st')" "storable (order_spent en st (co_id co))" "payNum (co_info co) < 2 ^ 63"
    "plain_asset (payAsset (co_info co))" "plain_asset (purchaseAsset (co_info co))"
  shows "order_spent en st' (co_id co) = order_spent en st (co_id co) + spentNum f"
    "order_spent en st' (co_id co) \<le> payNum (co_info co)" "0 < spentNum f"
proof -
  show "0 < spentNum f" by (rule checkOrder_Inr [OF assms(1)])
  have "order_spent en st' (co_id co) = order_spent en st (co_id co) + spentNum f \<and>
      order_spent en st (co_id co) + spentNum f \<le> payNum (co_info co)"
  proof (rule checkOrder_Inr [OF assms(1)])
    fix owner info feeReceiver spentFee bal st2 and upd :: "int \<times> int \<times> contract_invoke_result"
    assume pos: "0 < spentNum f" "spentNum f \<le> payNum info"
      and u: "update_order_progress en (snd (snd owner)) (payNum info) (getNum f) (spentNum f) st = Inr upd"
      and s: "settle_order en (fst (snd owner)) feeReceiver info bal (getNum f) (spentNum f) spentFee (snd (snd upd)) = Inr st2"
      and same: "\<forall>m k. current_fast_map_get en st' m k = current_fast_map_get en st2 m k"
      and co: "co_info co = info" "co_id co = snd (snd owner)"
    obtain ls lg st1 where upd: "upd = (ls, lg, st1)" by (cases upd) auto
    have "order_spent en st' (co_id co) = order_spent en st1 (co_id co)"
      using same settle_keeps_info [OF s] assms(4,5) co(1) upd by (simp add: order_spent_def Let_def)
    then show ?thesis
      using update_order_progress_spent [OF u [unfolded upd] _ pos] assms(2,3) co by simp
  qed
  then show "order_spent en st' (co_id co) = order_spent en st (co_id co) + spentNum f"
    "order_spent en st' (co_id co) \<le> payNum (co_info co)" by simp_all
qed

lemma checkOrder_fee_receiver:
  assumes "checkOrder en f st = Inr (co, st')"
    "order_fee_receiver en st (co_info co) = Inr r" "order_spent_fee en st (co_info co) (spentNum f) = Inr fee" "0 < fee"
  shows "current_fast_map_get en st' r (payAsset (co_info co)) = cbor_reload (COT_INT (wrap_int64 fee))"
proof (rule checkOrder_Inr [OF assms(1)])
  fix owner info feeReceiver spentFee bal st2 and upd :: "int \<times> int \<times> contract_invoke_result"
  assume r: "order_fee_receiver en st info = Inr feeReceiver"
      "order_spent_fee en st info (spentNum f) = Inr spentFee"
    and s: "settle_order en (fst (snd owner)) feeReceiver info bal (getNum f) (spentNum f) spentFee (snd (snd upd)) = Inr st2"
    and same: "\<forall>m k. current_fast_map_get en st' m k = current_fast_map_get en st2 m k"
    and co: "co_info co = info"
  have "feeReceiver = r" "spentFee = fee" using r assms(2,3) co by simp_all
  then show ?thesis
    using s assms(4) same co unfolding settle_order_def Let_def
    by (auto simp: ebind_eq_Inr store_simps)
qed

section \<open>Cancelled orders\<close>

definition order_state :: "contract_env \<Rightarrow> contract_invoke_result \<Rightarrow> string \<Rightarrow> cbor option" where
  "order_state en st oid = std_map_find (as_map (current_fast_map_get en st oid ''info'')) ''state''"

lemma cancel_filled_order:
  assumes "cancelOrder en ord ids st = Inr (ids', st')"
    "getOrderOwnerAddressAndId en ord = Inr (''OK'', env_caller en, oid)"
    "is_map (current_fast_map_get en st oid ''info'')" "order_state en st oid = None"
  shows "ids' = ids @ [oid]" "order_state en st' oid = None"
    "current_fast_map_get en st' oid ''info'' = cbor_reload (current_fast_map_get en st oid ''info'')"
proof -
  have c: "ids' = ids @ [oid]" "st' = current_fast_map_set en oid ''info'' (current_fast_map_get en st oid ''info'') st"
    using assms by (simp_all add: cancelOrder_def caller_address_string_def order_state_def Let_def)
  show "ids' = ids @ [oid]" by (rule c)
  show i: "current_fast_map_get en st' oid ''info'' = cbor_reload (current_fast_map_get en st oid ''info'')"
    unfolding c(2) by (simp add: store_simps)
  obtain m where "current_fast_map_get en st oid ''info'' = COT_MAP m"
    using assms(3) by (cases "current_fast_map_get en st oid ''info''") auto
  then show "order_state en st' oid = None"
    using assms(4) i by (simp add: order_state_def std_map_find_members')
qed

lemma cancel_fresh_order:
  assumes "getOrderOwnerAddressAndId en ord = Inr (''OK'', env_caller en, oid)"
    "\<not> is_map (current_fast_map_get en st oid ''info'')"
  shows "\<exists>st'. cancelOrder en ord ids st = Inr (ids @ [oid], st') \<and>
    (\<forall>pay get spent. update_order_progress en oid pay get spent st' = Inl (Uvm_exception ''order has been canceled''))"
proof -
  let ?st = "current_fast_map_set en oid ''info'' (COT_MAP [(''state'', COT_INT 0)]) st"
  have "cancelOrder en ord ids st = Inr (ids @ [oid], ?st)"
    using assms by (simp add: cancelOrder_def caller_address_string_def Let_def)
  moreover have "current_fast_map_get en ?st oid ''info'' = COT_MAP [(''state'', COT_INT 0)]"
    by (simp add: store_simps reload_nat_def int_max_def)
  then have "update_order_progress en oid pay get spent ?st = Inl (Uvm_exception ''order has been canceled'')" for pay get spent
    by (simp add: update_order_progress_def std_map_find_def NATIVE_EXCHANGE_ORDER_STATE_CANCELED_def throw_error_def)
  ultimately show ?thesis by blast
qed

lemma checkOrder_canceled:
  assumes "\<forall>pay get spent. update_order_progress en oid pay get spent st = Inl e"
    "getOrderOwnerAddressAndId en (fill_order f) = Inr (''OK'', addr, oid)"
  shows "\<exists>e'. checkOrder en f st = Inl e'"
proof (cases "checkOrder en f st")
  case (Inr r)
  obtain co st' where "checkOrder en f st = Inr (co, st')" using Inr by (cases r) auto
  then show ?thesis
    by (rule checkOrder_Inr) (use assms in auto)
qed simp

section \<open>The limit price\<close>

lemma int64_product_bound: "m < 2 ^ 63 \<Longrightarrow> n < 2 ^ 63 \<Longrightarrow> m * n < (2 :: nat) ^ 128"
proof -
  assume "m < 2 ^ 63" "n < (2 :: nat) ^ 63"
  then have "m * n \<le> 2 ^ 63 * 2 ^ 63" by (intro mult_le_mono) simp_all
  also have "\<dots> < (2 :: nat) ^ 128" by simp
  finally show ?thesis .
qed

lemma gt_nat:
  assumes "is_nat_sn a m" "is_nat_sn b n"
  shows "safe_number_gt a b = Inr (n < m)"
proof -
  note f = is_nat_sn_facts [OF assms(1)] is_nat_sn_facts [OF assms(2)]
  have "safe_number_gt a b = Inr (scaled b < scaled a)"
    by (rule safe_number_gt_iff) (simp_all add: f)
  then show ?thesis using f by (simp add: scaled_def with_sign_def flip: of_nat_mult of_nat_power)
qed

lemma order_price_ok_iff:
  assumes "0 < purchaseNum info" "0 < payNum info" "0 < get" "0 < spent"
    "purchaseNum info < 2 ^ 63" "payNum info < 2 ^ 63" "get < 2 ^ 63" "spent < 2 ^ 63"
  shows "order_price_ok info get spent =
    (if spent * purchaseNum info \<le> get * payNum info then Inr () else throw_error ''fill order price not satify'')"
proof -
  let ?u = "nat (purchaseNum info)" and ?p = "nat (payNum info)" and ?g = "nat get" and ?s = "nat spent"
  obtain u p g s where c: "safe_number_create_int64 (purchaseNum info) = Inr u" "is_nat_sn u ?u"
      "safe_number_create_int64 (payNum info) = Inr p" "is_nat_sn p ?p"
      "safe_number_create_int64 get = Inr g" "is_nat_sn g ?g"
      "safe_number_create_int64 spent = Inr s" "is_nat_sn s ?s"
    using create_int64_nat [of "purchaseNum info"] create_int64_nat [of "payNum info"]
      create_int64_nat [of get] create_int64_nat [of spent] assms by auto
  have "?s * ?u < 2 ^ 128" "?g * ?p < 2 ^ 128" using assms by (intro int64_product_bound; simp add: nat_less_iff)+
  then obtain a b where ab: "safe_number_multiply s u = Inr a" "is_nat_sn a (?s * ?u)"
      "safe_number_multiply g p = Inr b" "is_nat_sn b (?g * ?p)"
    using multiply_nat [OF c(8,2)] multiply_nat [OF c(6,4)] by auto
  have "?g * ?p < ?s * ?u \<longleftrightarrow> get * payNum info < spent * purchaseNum info"
    using assms by (simp add: nat_less_eq_zless flip: nat_mult_distrib)
  then show ?thesis
    using c ab by (simp add: order_price_ok_def gt_nat [OF ab(2,4)] not_le)
qed

lemma checkOrder_price:
  assumes "checkOrder en f st = Inr (co, st')" "purchaseNum (co_info co) < 2 ^ 63" "payNum (co_info co) < 2 ^ 63"
    "getNum f < 2 ^ 63"
  shows "spentNum f * purchaseNum (co_info co) \<le> getNum f * payNum (co_info co)"
  using assms(2-)
  by (rule_tac checkOrder_Inr [OF assms(1)])
    (auto simp: order_price_ok_iff throw_error_def split: if_splits)

lemma zero_rate_fee:
  assumes "order_fee_rate info = ''0''" "0 < spent" "spent < 2 ^ 63"
    "current_fast_map_get en st (payAsset info) ''minFee'' = COT_INT m" "0 \<le> m" "m < 2 ^ 62"
  shows "order_spent_fee en st info spent = Inr m"
proof -
  obtain r where r: "safe_number_create_str ''0'' = Inr r" "is_nat_sn r 0" using create_str_zero by blast
  obtain n where n: "safe_number_create_int64 spent = Inr n" "is_nat_sn n (nat spent)"
    using create_int64_nat [of spent] assms by auto
  obtain p where p: "safe_number_multiply n r = Inr p" "is_nat_sn p 0"
    using multiply_nat [OF n(2) r(2)] by auto
  have "safe_number_to_int64 p = Inr 0" using is_nat_to_int64 [OF p(2)] by simp
  moreover have "is_numeric ''0''"
    using is_integral_int_to_string [of 0]
    by (simp add: is_integral_def int_to_string_def digit_char_def nat_to_string.simps c_str_def)
  ultimately show ?thesis
    using assms r(1) n(1) p(1) by (simp add: order_spent_fee_def is_integer_def)
qed

end
