(* ===== verification/Object_Id.thy ===== *)
theory Object_Id
  imports Cpp_Std
begin

text \<open>
  The identifiers of database objects, \<^verbatim>\<open>object_id.hpp\<close>: a space, a type and an instance packed into
  64 bits, and their textual form.
\<close>

section \<open>Packing\<close>

type_synonym object_id_type = u64

definition GRAPHENE_DB_MAX_INSTANCE_ID :: u64 where
  "GRAPHENE_DB_MAX_INSTANCE_ID = drop_bit 16 (- 1)"

definition make_object_id :: "u8 \<Rightarrow> u8 \<Rightarrow> u64 \<Rightarrow> object_id_type result" where
  "make_object_id s t i =
    (if drop_bit 48 i \<noteq> 0 then Inl (Fc_assert ''instance overflow'')
     else Inr (push_bit 56 (ucast s) OR push_bit 48 (ucast t) OR i))"

definition id_space :: "object_id_type \<Rightarrow> u8" where
  "id_space number = ucast (drop_bit 56 number)"

definition id_type :: "object_id_type \<Rightarrow> u8" where
  "id_type number = ucast (drop_bit 48 number AND 0x00ff)"

definition id_space_type :: "object_id_type \<Rightarrow> u16" where
  "id_space_type number = ucast (drop_bit 48 number)"

definition id_instance :: "object_id_type \<Rightarrow> u64" where
  "id_instance number = number AND GRAPHENE_DB_MAX_INSTANCE_ID"

definition id_is_null :: "object_id_type \<Rightarrow> bool" where
  "id_is_null number \<longleftrightarrow> number = 0"

definition id_plus :: "object_id_type \<Rightarrow> int \<Rightarrow> object_id_type result" where
  "id_plus a delta = make_object_id (id_space a) (id_type a) (id_instance a + word_of_int delta)"

section \<open>Text\<close>

definition object_id_to_variant :: "object_id_type \<Rightarrow> string" where
  "object_id_to_variant var =
    int_to_string (uint (id_space var)) @ ''.'' @ int_to_string (uint (id_type var)) @ ''.'' @
    int_to_string (uint (id_instance var))"

text \<open>
  \<^verbatim>\<open>s.find('.', k)\<close> is the first position of a dot from \<open>k\<close> on, or \<^verbatim>\<open>npos\<close>, here \<open>None\<close>. A search that
  starts behind \<^verbatim>\<open>npos\<close> starts at 0 again, because \<^verbatim>\<open>npos + 1\<close> is 0.
\<close>

definition find_dot :: "string \<Rightarrow> nat \<Rightarrow> nat option" where
  "find_dot s k =
    (let n = length (takeWhile (\<lambda>c. c \<noteq> CHR ''.'') (drop k s))
     in if k + n < length s then Some (k + n) else None)"

definition after_pos :: "nat option \<Rightarrow> nat" where
  "after_pos p = (case p of None \<Rightarrow> 0 | Some n \<Rightarrow> n + 1)"

definition object_id_from_variant :: "string \<Rightarrow> object_id_type result" where
  "object_id_from_variant s =
    (let first_dot = find_dot s 0; second_dot = find_dot s (after_pos first_dot)
     in if first_dot = second_dot then Inl (Fc_assert ''first_dot != second_dot'')
     else case first_dot of
       None \<Rightarrow> Inl (Fc_assert ''first_dot != std::string::npos'')
     | Some f \<Rightarrow>
         if f = 0 then Inl (Fc_assert ''first_dot != 0'')
         else ebind (to_uint64 (drop (after_pos second_dot) s)) (\<lambda>number.
         if word_of_int number > GRAPHENE_DB_MAX_INSTANCE_ID
         then Inl (Fc_assert ''vo.number <= GRAPHENE_DB_MAX_INSTANCE_ID'')
         else ebind (to_uint64 (take f s)) (\<lambda>space_id.
         if space_id > 0xff then Inl (Fc_assert ''space_id <= 0xff'')
         else ebind (to_uint64 (case second_dot of None \<Rightarrow> drop (f + 1) s | Some g \<Rightarrow> take (g - f - 1) (drop (f + 1) s)))
           (\<lambda>type_id.
         if type_id > 0xff then Inl (Fc_assert ''type_id <= 0xff'')
         else Inr (word_of_int number OR (push_bit 56 (word_of_int space_id) OR push_bit 48 (word_of_int type_id)))))))"

section \<open>Laws\<close>

lemma max_instance: "GRAPHENE_DB_MAX_INSTANCE_ID = mask 48"
  by (simp add: GRAPHENE_DB_MAX_INSTANCE_ID_def mask_eq_decr_exp)

lemma id_instance_mask: "id_instance n = take_bit 48 n"
  by (simp add: id_instance_def max_instance take_bit_eq_mask)

lemma bit_id_parts:
  "bit (id_space n) i \<longleftrightarrow> i < 8 \<and> bit n (56 + i)"
  "bit (id_type n) i \<longleftrightarrow> i < 8 \<and> bit n (48 + i)"
  "bit (id_instance n) i \<longleftrightarrow> i < 48 \<and> bit n i"
proof -
  have m: "(0x00ff :: u64) = mask 8" by (simp add: mask_eq_decr_exp)
  show "bit (id_type n) i \<longleftrightarrow> i < 8 \<and> bit n (48 + i)"
    unfolding id_type_def m by (auto simp: bit_simps)
qed (auto simp: id_space_def id_instance_mask bit_simps)

definition pack_id :: "u8 \<Rightarrow> u8 \<Rightarrow> u64 \<Rightarrow> object_id_type" where
  "pack_id s t i = push_bit 56 (ucast s) OR push_bit 48 (ucast t) OR i"

lemma bit_pack_id:
  assumes "drop_bit 48 i = 0" "k < 64"
  shows "bit (pack_id s t i) k \<longleftrightarrow> (if k < 48 then bit i k else if k < 56 then bit t (k - 48) else bit s (k - 56))"
proof -
  have "\<not> bit i k" if "48 \<le> k" for k
  proof -
    have "bit (drop_bit 48 i) (k - 48) = bit (0 :: u64) (k - 48)" using assms(1) by simp
    then show ?thesis using that by (simp add: bit_simps)
  qed
  moreover have "j < 8" if "bit t j" for j using bit_imp_le_length [OF that] by simp
  then have "\<not> bit t (k - 48)" if "56 \<le> k" using that by fastforce
  ultimately show ?thesis using assms(2) by (auto simp: pack_id_def bit_simps)
qed

lemma pack_id_parts:
  assumes "drop_bit 48 i = 0"
  shows "id_space (pack_id s t i) = s" "id_type (pack_id s t i) = t" "id_instance (pack_id s t i) = i"
proof -
  show "id_space (pack_id s t i) = s" "id_type (pack_id s t i) = t"
    using assms by (auto intro!: bit_word_eqI simp: bit_id_parts bit_pack_id)
  have "k < 48" if "bit i k" for k
  proof (rule ccontr)
    assume "\<not> k < 48"
    then have "bit (drop_bit 48 i) (k - 48)" using that by (simp add: bit_simps)
    then show False using assms by simp
  qed
  then show "id_instance (pack_id s t i) = i"
    using assms by (auto intro!: bit_word_eqI simp: bit_id_parts bit_pack_id)
qed

lemma pack_id_unpack: "pack_id (id_space n) (id_type n) (id_instance n) = n"
proof -
  have "drop_bit 48 (id_instance n) = 0" by (simp add: id_instance_mask drop_bit_take_bit)
  then show ?thesis by (auto intro!: bit_word_eqI simp: bit_pack_id bit_id_parts split: if_splits)
qed

lemma make_object_id_ok: "drop_bit 48 i = 0 \<Longrightarrow> make_object_id s t i = Inr (pack_id s t i)"
  by (simp add: make_object_id_def pack_id_def)

lemma to_uint64_int_to_string:
  assumes "0 \<le> v" "v < 2 ^ 64"
  shows "to_uint64 (int_to_string v) = Inr v"
proof -
  have "nat_to_string 10 (nat v) \<noteq> []" "list_all is_dec_digit (nat_to_string 10 (nat v))"
    using nat_to_string_digits [of "nat v"] nat_string_shape [of "nat v"] by (auto simp: list_all_iff)
  moreover have "of_digits 10 (nat_to_string 10 (nat v)) = nat v" by (simp add: of_digits_nat_to_string)
  ultimately show ?thesis
    using assms int_to_string_shape(2,4) [of v] by (simp add: to_uint64_def c_str_int_to_string Let_def)
qed

lemma no_dot_int_to_string: "CHR ''.'' \<notin> set (int_to_string v)"
proof -
  have "CHR ''.'' \<notin> set (nat_to_string 10 m)" for m
    using nat_to_string_digits [of m] dec_digit_facts(5) by fastforce
  then show ?thesis by (simp add: int_to_string_def)
qed

lemma find_dot_here:
  assumes "CHR ''.'' \<notin> set a"
  shows "find_dot (p @ a @ CHR ''.'' # b) (length p) = Some (length p + length a)"
proof -
  have "takeWhile (\<lambda>c. c \<noteq> CHR ''.'') (a @ CHR ''.'' # b) = a"
    using assms by (subst takeWhile_append2) auto
  then show ?thesis by (simp add: find_dot_def)
qed

lemma object_id_text:
  "object_id_from_variant (object_id_to_variant n) = Inr n"
proof -
  let ?a = "int_to_string (uint (id_space n))" and ?b = "int_to_string (uint (id_type n))"
    and ?c = "int_to_string (uint (id_instance n))"
  have bounds: "uint (id_space n) < 256" "uint (id_type n) < 256" "uint (id_instance n) < 2 ^ 64"
    using uint_lt2p [of "id_space n"] uint_lt2p [of "id_type n"] uint_lt2p [of "id_instance n"] by simp_all
  then have numbers: "to_uint64 ?a = Inr (uint (id_space n))" "to_uint64 ?b = Inr (uint (id_type n))"
      "to_uint64 ?c = Inr (uint (id_instance n))"
    by (simp_all add: to_uint64_int_to_string)
  have s: "object_id_to_variant n = [] @ ?a @ CHR ''.'' # ?b @ CHR ''.'' # ?c"
      "object_id_to_variant n = (?a @ ''.'') @ ?b @ CHR ''.'' # ?c"
    by (simp_all add: object_id_to_variant_def)
  have first: "find_dot (object_id_to_variant n) 0 = Some (length ?a)"
    using find_dot_here [of ?a "[]" "?b @ CHR ''.'' # ?c"] no_dot_int_to_string by (simp add: s(1))
  have second: "find_dot (object_id_to_variant n) (Suc (length ?a)) = Some (Suc (length ?a + length ?b))"
    unfolding s(2) using find_dot_here [of ?b "?a @ ''.''" ?c] no_dot_int_to_string by simp
  have parts: "take (length ?a) (object_id_to_variant n) = ?a" "drop (Suc (Suc (length ?a + length ?b))) (object_id_to_variant n) = ?c"
      "take (length ?b) (drop (Suc (length ?a)) (object_id_to_variant n)) = ?b"
    by (simp_all add: s(1))
  have "id_instance n \<le> GRAPHENE_DB_MAX_INSTANCE_ID"
    by (simp add: id_instance_def word_and_le1)
  moreover have "push_bit 56 (ucast (id_space n)) OR push_bit 48 (ucast (id_type n)) OR id_instance n = n"
    using pack_id_unpack [of n] by (simp add: pack_id_def)
  then have "id_instance n OR (push_bit 56 (word_of_int (uint (id_space n))) OR push_bit 48 (word_of_int (uint (id_type n)))) = n"
    unfolding ucast_eq by (subst or.commute) (simp only: or.assoc)
  moreover have "?a \<noteq> []" using int_to_string_shape(3) by simp
  ultimately show ?thesis
    using bounds by (simp add: object_id_from_variant_def Let_def first second after_pos_def numbers parts not_less not_le)
qed

section \<open>Kinds\<close>

text \<open>The index an object belongs to is named by the id of its kind with instance 0.\<close>

definition index_id :: "object_id_type \<Rightarrow> object_id_type" where
  "index_id n = pack_id (id_space n) (id_type n) 0"

lemma index_id_push: "index_id n = push_bit 48 (drop_bit 48 n)"
  by (rule bit_word_eqI) (auto simp: index_id_def bit_pack_id bit_id_parts bit_simps)

lemma index_id_parts [simp]:
  "id_space (index_id n) = id_space n" "id_type (index_id n) = id_type n" "id_instance (index_id n) = 0"
  by (simp_all add: index_id_def pack_id_parts)

lemma index_id_idem [simp]: "index_id (index_id n) = index_id n"
  by (simp add: index_id_def pack_id_parts)

lemma index_id_kind: "index_id a = index_id b \<longleftrightarrow> id_space a = id_space b \<and> id_type a = id_type b"
  using pack_id_parts [of 0 "id_space a" "id_type a"] pack_id_parts [of 0 "id_space b" "id_type b"]
  by (auto simp: index_id_def)

lemma id_eq_iff: "a = b \<longleftrightarrow> index_id a = index_id b \<and> id_instance a = id_instance b"
  by (metis index_id_kind pack_id_unpack)

lemma unat_id_instance: "unat (id_instance n) = unat n mod 2 ^ 48"
  unfolding id_instance_mask unsigned_take_bit_eq [symmetric] by (simp add: take_bit_eq_mod unsigned_take_bit_eq unat_mod)

lemma id_value: "unat n = unat (index_id n) + unat (id_instance n)"
proof -
  have "unat n = 2 ^ 48 * (unat n div 2 ^ 48) + unat n mod 2 ^ 48" by simp
  moreover have "unat (id_instance n) = unat n mod 2 ^ 48" by (rule unat_id_instance)
  moreover have "unat (index_id n) = 2 ^ 48 * (unat n div 2 ^ 48)"
  proof -
    have "unat (index_id n) = take_bit 64 (2 ^ 48 * (unat n div 2 ^ 48))"
      unfolding index_id_push unsigned_push_bit_eq unat_drop_bit_eq
      by (simp add: push_bit_eq_mult drop_bit_eq_div mult.commute)
    also have "\<dots> = 2 ^ 48 * (unat n div 2 ^ 48)"
    proof (rule take_bit_nat_eq_self)
      have "2 ^ 48 * (unat n div 2 ^ 48) \<le> unat n" by (simp add: mult.commute)
      also have "\<dots> < 2 ^ 64" using unsigned_less [of n] by simp
      finally show "2 ^ 48 * (unat n div 2 ^ 48) < 2 ^ 64" .
    qed
    finally show ?thesis .
  qed
  ultimately show ?thesis by simp
qed

lemma id_less_iff: "index_id a = index_id b \<Longrightarrow> a < b \<longleftrightarrow> unat (id_instance a) < unat (id_instance b)"
  using id_value [of a] id_value [of b] by (simp add: word_less_nat_alt)

lemma next_id_kind:
  assumes "unat (id_instance n) + 1 < 2 ^ 48"
  shows "index_id (n + 1) = index_id n" "n < n + 1"
proof -
  define q r where "q = unat n div 2 ^ 48" and "r = unat n mod 2 ^ 48"
  have n: "unat n = q * 2 ^ 48 + r" unfolding q_def r_def by (rule div_mult_mod_eq [symmetric])
  have r: "r + 1 < 2 ^ 48" unfolding r_def using assms unat_id_instance [of n] by simp
  have "unat n < 2 ^ 64" using unsigned_less [of n] by simp
  then have "q * 2 ^ 48 < 2 ^ 16 * 2 ^ 48" using n by simp
  then have "q + 1 \<le> 2 ^ 16" by simp
  then have "(q + 1) * 2 ^ 48 \<le> 2 ^ 16 * 2 ^ 48" by (rule mult_right_mono) simp
  then have "unat n + 1 < 2 ^ 64" using n r by simp
  have "(q * 2 ^ 48 + (r + 1)) div 2 ^ 48 = q"
  proof (rule div_nat_eqI)
    show "2 ^ 48 * q \<le> q * 2 ^ 48 + (r + 1)" by simp
    show "q * 2 ^ 48 + (r + 1) < 2 ^ 48 * Suc q" using r unfolding mult_Suc_right by (simp only: mult.commute [of q])
  qed
  then have "(unat n + 1) div 2 ^ 48 = q" unfolding n add.assoc .
  then have "(unat n + 1) div 2 ^ 48 = unat n div 2 ^ 48" unfolding q_def .
  note d = this
  have "unat (n + 1) = (unat n + 1) mod 2 ^ 64" by (simp add: unat_word_ariths)
  with \<open>unat n + 1 < 2 ^ 64\<close> have u: "unat (n + 1) = unat n + 1" by (simp only: mod_less)
  have "drop_bit 48 (n + 1) = drop_bit 48 n"
    unfolding word_unat_eq_iff unat_drop_bit_eq u using d by (simp only: drop_bit_eq_div)
  then show "index_id (n + 1) = index_id n" by (simp add: index_id_push)
  show "n < n + 1" using u by (simp add: word_less_nat_alt)
qed

end
