(* ===== verification/Object_Index.thy ===== *)
theory Object_Index
  imports Object_Id
begin

text \<open>
  The containers that hold database objects: \<^verbatim>\<open>generic_index.hpp\<close> (a multi-index container ordered by
  id, with further unique keys), \<^verbatim>\<open>simple_index.hpp\<close> (a vector of pointers) and \<^verbatim>\<open>flat_index.hpp\<close> (a
  vector of objects). What the database relies on is stated as two locales.
\<close>

section \<open>Objects\<close>

record 'v object =
  obj_id :: object_id_type
  obj_data :: 'v

text \<open>A default constructed object has the null id.\<close>

definition default_object :: "'v \<Rightarrow> 'v object" where
  "default_object d = \<lparr>obj_id = 0, obj_data = d\<rparr>"

section \<open>Generic index\<close>

text \<open>
  \<open>gi_clash\<close> says that two objects agree on one of the further unique keys of the container type.
  When \<^verbatim>\<open>modify\<close> of a multi-index container produces such a clash, the element is erased.
\<close>

record 'v generic_index =
  gi_indices :: "(object_id_type \<times> 'v object) list"
  gi_clash :: "'v object \<Rightarrow> 'v object \<Rightarrow> bool"
  gi_default :: 'v

definition generic_accepts :: "'v generic_index \<Rightarrow> (object_id_type \<times> 'v object) list \<Rightarrow> 'v object \<Rightarrow> bool" where
  "generic_accepts gi objects obj \<longleftrightarrow>
     std_map_find objects (obj_id obj) = None \<and> list_all (\<lambda>p. \<not> gi_clash gi (snd p) obj) objects"

definition generic_insert :: "'v object \<Rightarrow> 'v generic_index \<Rightarrow> 'v generic_index result" where
  "generic_insert obj gi =
    (if generic_accepts gi (gi_indices gi) obj
     then Inr (gi\<lparr>gi_indices := std_map_set (obj_id obj) obj (gi_indices gi)\<rparr>)
     else Inl (Fc_assert ''Could not insert object, most likely a uniqueness constraint was violated''))"

definition generic_create ::
    "object_id_type \<Rightarrow> ('v object \<Rightarrow> 'v object) \<Rightarrow> 'v generic_index \<Rightarrow> ('v object \<times> 'v generic_index) result" where
  "generic_create next_id constructor gi =
    (let item = constructor \<lparr>obj_id = next_id, obj_data = gi_default gi\<rparr>
     in if generic_accepts gi (gi_indices gi) item
        then Inr (item, gi\<lparr>gi_indices := std_map_set (obj_id item) item (gi_indices gi)\<rparr>)
        else Inl (Fc_assert ''Could not create object! Most likely a uniqueness constraint is violated.''))"

definition generic_modify ::
    "object_id_type \<Rightarrow> ('v object \<Rightarrow> 'v object) \<Rightarrow> 'v generic_index \<Rightarrow> unit result \<times> 'v generic_index" where
  "generic_modify oid m gi =
    (case std_map_find (gi_indices gi) oid of
       None \<Rightarrow> (Inl (Undefined_behaviour ''iterator_to''), gi)
     | Some obj \<Rightarrow>
         let others = std_map_erase oid (gi_indices gi); obj = m obj
         in if generic_accepts gi others obj
            then (Inr (), gi\<lparr>gi_indices := std_map_set (obj_id obj) obj others\<rparr>)
            else (Inl (Fc_assert ''Could not modify object, most likely a index constraint was violated''),
                  gi\<lparr>gi_indices := others\<rparr>))"

definition generic_remove :: "object_id_type \<Rightarrow> 'v generic_index \<Rightarrow> 'v generic_index result" where
  "generic_remove oid gi =
    (case std_map_find (gi_indices gi) oid of
       None \<Rightarrow> Inl (Undefined_behaviour ''iterator_to'')
     | Some obj \<Rightarrow> Inr (gi\<lparr>gi_indices := std_map_erase oid (gi_indices gi)\<rparr>))"

definition generic_find :: "'v generic_index \<Rightarrow> object_id_type \<Rightarrow> 'v object option" where
  "generic_find gi oid = std_map_find (gi_indices gi) oid"

section \<open>Simple index\<close>

record 'v simple_index =
  si_objects :: "'v object option list"
  si_default :: 'v

definition slot :: "object_id_type \<Rightarrow> nat" where
  "slot oid = unat (id_instance oid)"

definition resize_for :: "nat \<Rightarrow> 'a \<Rightarrow> 'a list \<Rightarrow> 'a list" where
  "resize_for i d xs = (if length xs \<le> i then xs @ replicate (i + 1 - length xs) d else xs)"

definition simple_create ::
    "object_id_type \<Rightarrow> ('v object \<Rightarrow> 'v object) \<Rightarrow> 'v simple_index \<Rightarrow> ('v object \<times> 'v simple_index) result" where
  "simple_create next_id constructor si =
    (let item = (constructor \<lparr>obj_id = next_id, obj_data = si_default si\<rparr>)\<lparr>obj_id := next_id\<rparr>
     in Inr (item, si\<lparr>si_objects := (resize_for (slot next_id) None (si_objects si))[slot next_id := Some item]\<rparr>))"

definition simple_modify ::
    "object_id_type \<Rightarrow> ('v object \<Rightarrow> 'v object) \<Rightarrow> 'v simple_index \<Rightarrow> unit result \<times> 'v simple_index" where
  "simple_modify oid m si =
    (if slot oid < length (si_objects si)
     then case si_objects si ! slot oid of
         None \<Rightarrow> (Inl (Undefined_behaviour ''null pointer''), si)
       | Some obj \<Rightarrow> (Inr (), si\<lparr>si_objects := (si_objects si)[slot oid := Some (m obj)]\<rparr>)
     else (Inl (Undefined_behaviour ''vector index''), si))"

definition simple_insert :: "'v object \<Rightarrow> 'v simple_index \<Rightarrow> 'v simple_index result" where
  "simple_insert obj si =
    Inr (si\<lparr>si_objects := (resize_for (slot (obj_id obj)) None (si_objects si))[slot (obj_id obj) := Some obj]\<rparr>)"

definition pop_null_back :: "'a option list \<Rightarrow> 'a option list" where
  "pop_null_back xs = rev (dropWhile (\<lambda>x. x = None) (rev xs))"

definition simple_remove :: "object_id_type \<Rightarrow> 'v simple_index \<Rightarrow> 'v simple_index result" where
  "simple_remove oid si =
    (if slot oid < length (si_objects si)
     then Inr (si\<lparr>si_objects := pop_null_back ((si_objects si)[slot oid := None])\<rparr>)
     else Inl (Undefined_behaviour ''vector index''))"

definition simple_find :: "'v simple_index \<Rightarrow> object_id_type \<Rightarrow> 'v object option" where
  "simple_find si oid = (if length (si_objects si) \<le> slot oid then None else si_objects si ! slot oid)"

section \<open>Flat index\<close>

record 'v flat_index =
  fi_objects :: "'v object list"
  fi_default :: 'v

definition flat_create ::
    "object_id_type \<Rightarrow> ('v object \<Rightarrow> 'v object) \<Rightarrow> 'v flat_index \<Rightarrow> ('v object \<times> 'v flat_index) result" where
  "flat_create next_id constructor fi =
    (let objects = resize_for (slot next_id) (default_object (fi_default fi)) (fi_objects fi);
         item = constructor ((objects ! slot next_id)\<lparr>obj_id := next_id\<rparr>)
     in Inr (item, fi\<lparr>fi_objects := objects[slot next_id := item]\<rparr>))"

definition flat_modify ::
    "object_id_type \<Rightarrow> ('v object \<Rightarrow> 'v object) \<Rightarrow> 'v flat_index \<Rightarrow> unit result \<times> 'v flat_index" where
  "flat_modify oid m fi =
    (if slot oid < length (fi_objects fi)
     then (Inr (), fi\<lparr>fi_objects := (fi_objects fi)[slot oid := m (fi_objects fi ! slot oid)]\<rparr>)
     else (Inl (Undefined_behaviour ''vector index''), fi))"

definition flat_insert :: "'v object \<Rightarrow> 'v flat_index \<Rightarrow> 'v flat_index result" where
  "flat_insert obj fi =
    Inr (fi\<lparr>fi_objects := (resize_for (slot (obj_id obj)) (default_object (fi_default fi)) (fi_objects fi))
      [slot (obj_id obj) := obj]\<rparr>)"

text \<open>Removing an object resets its slot; the slot still holds an object.\<close>

definition flat_remove :: "object_id_type \<Rightarrow> 'v flat_index \<Rightarrow> 'v flat_index result" where
  "flat_remove oid fi =
    (if slot oid < length (fi_objects fi)
     then Inr (fi\<lparr>fi_objects := (fi_objects fi)[slot oid := default_object (fi_default fi)]\<rparr>)
     else Inl (Undefined_behaviour ''vector index''))"

definition flat_find :: "'v flat_index \<Rightarrow> object_id_type \<Rightarrow> 'v object option" where
  "flat_find fi oid = (if length (fi_objects fi) \<le> slot oid then None else Some (fi_objects fi ! slot oid))"

section \<open>What the database relies on\<close>

text \<open>
  Objects are found under their id and can be changed in place; the objects of one index have one
  kind. An object index can also create, insert and remove objects, and a removed object is gone.
\<close>

locale keyed_index =
  fixes find :: "'i \<Rightarrow> object_id_type \<Rightarrow> 'v object option"
    and modify :: "object_id_type \<Rightarrow> ('v object \<Rightarrow> 'v object) \<Rightarrow> 'i \<Rightarrow> unit result \<times> 'i"
    and wf :: "object_id_type \<Rightarrow> 'i \<Rightarrow> bool"
  assumes find_id: "wf k i \<Longrightarrow> index_id oid = k \<Longrightarrow> find i oid = Some obj \<Longrightarrow> obj_id obj = oid"
    and modify_found: "wf k i \<Longrightarrow> index_id oid = k \<Longrightarrow> find i oid = Some obj \<Longrightarrow> obj_id (m obj) = oid \<Longrightarrow>
      \<exists>i'. modify oid m i = (Inr (), i') \<and> wf k i' \<and>
        (\<forall>a. index_id a = k \<longrightarrow> find i' a = (if a = oid then Some (m obj) else find i a))"
begin

lemma modify_same:
  assumes "wf k i" "index_id oid = k" "find i oid = Some obj" "index_id a = k"
  shows "find (snd (modify oid (\<lambda>_. obj) i)) a = find i a"
  using modify_found [OF assms(1-3), of "\<lambda>_. obj"] find_id [OF assms(1-3)] assms(3,4) by auto

end

locale object_index = keyed_index find modify wf
  for find :: "'i \<Rightarrow> object_id_type \<Rightarrow> 'v object option" and modify and wf +
  fixes create :: "object_id_type \<Rightarrow> ('v object \<Rightarrow> 'v object) \<Rightarrow> 'i \<Rightarrow> ('v object \<times> 'i) result"
    and insert :: "'v object \<Rightarrow> 'i \<Rightarrow> 'i result"
    and remove :: "object_id_type \<Rightarrow> 'i \<Rightarrow> 'i result"
  assumes create_fresh: "wf k i \<Longrightarrow> index_id oid = k \<Longrightarrow> find i oid = None \<Longrightarrow> (\<And>x. obj_id (c x) = obj_id x) \<Longrightarrow>
      \<exists>obj i'. create oid c i = Inr (obj, i') \<and> obj_id obj = oid \<and> wf k i' \<and>
        (\<forall>a. index_id a = k \<longrightarrow> find i' a = (if a = oid then Some obj else find i a))"
    and insert_fresh: "wf k i \<Longrightarrow> index_id (obj_id obj) = k \<Longrightarrow> find i (obj_id obj) = None \<Longrightarrow>
      \<exists>i'. insert obj i = Inr i' \<and> wf k i' \<and>
        (\<forall>a. index_id a = k \<longrightarrow> find i' a = (if a = obj_id obj then Some obj else find i a))"
    and remove_found: "wf k i \<Longrightarrow> index_id oid = k \<Longrightarrow> find i oid = Some obj \<Longrightarrow>
      \<exists>i'. remove oid i = Inr i' \<and> wf k i' \<and>
        (\<forall>a. index_id a = k \<longrightarrow> find i' a = (if a = oid then None else find i a))"
begin

lemma create_remove:
  assumes "wf k i" "index_id oid = k" "find i oid = None" "\<And>x. obj_id (c x) = obj_id x" "create oid c i = Inr (obj, i')"
  shows "\<exists>i''. remove oid i' = Inr i'' \<and> (\<forall>a. index_id a = k \<longrightarrow> find i'' a = find i a)"
proof -
  have i': "wf k i'" "\<forall>a. index_id a = k \<longrightarrow> find i' a = (if a = oid then Some obj else find i a)"
    using create_fresh [OF assms(1-4)] assms(5) by auto
  then have "find i' oid = Some obj" using assms(2) by simp
  from remove_found [OF i'(1) assms(2) this] show ?thesis using i'(2) assms(3) by fastforce
qed

end

definition generic_wf :: "object_id_type \<Rightarrow> 'v generic_index \<Rightarrow> bool" where
  "generic_wf k gi \<longleftrightarrow> (\<forall>p \<in> set (gi_indices gi). obj_id (snd p) = fst p \<and> index_id (fst p) = k) \<and>
     (\<forall>a b. \<not> gi_clash gi a b)"

definition simple_wf :: "object_id_type \<Rightarrow> 'v simple_index \<Rightarrow> bool" where
  "simple_wf k si \<longleftrightarrow> (\<forall>j obj. j < length (si_objects si) \<longrightarrow> si_objects si ! j = Some obj \<longrightarrow>
     index_id (obj_id obj) = k \<and> slot (obj_id obj) = j)"

definition flat_wf :: "object_id_type \<Rightarrow> 'v flat_index \<Rightarrow> bool" where
  "flat_wf k fi \<longleftrightarrow> (\<forall>j < length (fi_objects fi). index_id (obj_id (fi_objects fi ! j)) = k \<and>
     slot (obj_id (fi_objects fi ! j)) = j)"

lemma slot_inj: "index_id a = index_id b \<Longrightarrow> slot a = slot b \<longleftrightarrow> a = b"
  using id_eq_iff [of a b] word_unat_eq_iff [of "id_instance a" "id_instance b"] by (auto simp: slot_def)

lemma set_std_map_set: "set (std_map_set k v m) \<subseteq> insert (k, v) (set m)"
  by (induction k v m rule: std_map_set.induct) auto

lemma set_std_map_erase: "set (std_map_erase k m) \<subseteq> set m"
  by (auto simp: std_map_erase_def)

lemma std_map_find_set: "std_map_find m k = Some v \<Longrightarrow> (k, v) \<in> set m"
  by (auto simp: std_map_find_def dest: map_of_SomeD)

lemma generic_accepts_wf:
  "generic_wf k gi \<Longrightarrow> generic_accepts gi objects obj \<longleftrightarrow> std_map_find objects (obj_id obj) = None"
  by (simp add: generic_accepts_def generic_wf_def list_all_iff)

lemma generic_wf_put:
  assumes "generic_wf k gi" "index_id (obj_id obj) = k" "set m \<subseteq> set (gi_indices gi)"
  shows "generic_wf k (gi\<lparr>gi_indices := std_map_set (obj_id obj) obj m\<rparr>)"
  using assms set_std_map_set [of "obj_id obj" obj m] by (fastforce simp: generic_wf_def)

lemma generic_wf_erase:
  "generic_wf k gi \<Longrightarrow> generic_wf k (gi\<lparr>gi_indices := std_map_erase oid (gi_indices gi)\<rparr>)"
  using set_std_map_erase [of oid "gi_indices gi"] by (fastforce simp: generic_wf_def)

interpretation generic: object_index generic_find generic_modify generic_wf generic_create generic_insert generic_remove
proof unfold_locales
  fix k oid and gi :: "'v generic_index" and obj :: "'v object" and m :: "'v object \<Rightarrow> 'v object"
  assume wf: "generic_wf k gi" and kind: "index_id oid = k"
  { assume f: "generic_find gi oid = Some obj"
    then show "obj_id obj = oid"
      using wf std_map_find_set [of "gi_indices gi" oid obj] by (fastforce simp: generic_find_def generic_wf_def)
    assume "obj_id (m obj) = oid"
    then show "\<exists>i'. generic_modify oid m gi = (Inr (), i') \<and> generic_wf k i' \<and>
        (\<forall>a. index_id a = k \<longrightarrow> generic_find i' a = (if a = oid then Some (m obj) else generic_find gi a))"
      using wf kind f generic_wf_put [OF wf _ set_std_map_erase [of oid], of "m obj"]
      by (simp add: generic_modify_def generic_find_def generic_accepts_wf std_map.find_erase std_map.find_put) }
  { assume "generic_find gi oid = Some obj"
    then show "\<exists>i'. generic_remove oid gi = Inr i' \<and> generic_wf k i' \<and>
        (\<forall>a. index_id a = k \<longrightarrow> generic_find i' a = (if a = oid then None else generic_find gi a))"
      using generic_wf_erase [OF wf] by (simp add: generic_remove_def generic_find_def std_map.find_erase) }
  { fix c :: "'v object \<Rightarrow> 'v object"
    assume "generic_find gi oid = None" "\<And>x. obj_id (c x) = obj_id x"
    then show "\<exists>obj i'. generic_create oid c gi = Inr (obj, i') \<and> obj_id obj = oid \<and> generic_wf k i' \<and>
        (\<forall>a. index_id a = k \<longrightarrow> generic_find i' a = (if a = oid then Some obj else generic_find gi a))"
      using generic_wf_put [OF wf, of "c \<lparr>obj_id = oid, obj_data = gi_default gi\<rparr>" "gi_indices gi"] kind
      by (simp add: generic_create_def generic_find_def generic_accepts_wf [OF wf] std_map.find_put Let_def) }
next
  fix k and gi :: "'v generic_index" and obj :: "'v object"
  assume "generic_wf k gi" "index_id (obj_id obj) = k" "generic_find gi (obj_id obj) = None"
  then show "\<exists>i'. generic_insert obj gi = Inr i' \<and> generic_wf k i' \<and>
      (\<forall>a. index_id a = k \<longrightarrow> generic_find i' a = (if a = obj_id obj then Some obj else generic_find gi a))"
    using generic_wf_put [of k gi obj]
    by (simp add: generic_insert_def generic_find_def generic_accepts_wf std_map.find_put)
qed

lemma resize_for_facts:
  "i < length (resize_for i d xs)"
  "j < length xs \<Longrightarrow> resize_for i d xs ! j = xs ! j"
  "length xs \<le> j \<Longrightarrow> j < length (resize_for i d xs) \<Longrightarrow> resize_for i d xs ! j = d"
  "length xs \<le> length (resize_for i d xs)"
  by (auto simp: resize_for_def nth_append)

lemma nth_pop_null_back:
  "length (pop_null_back xs) \<le> length xs"
  "j < length (pop_null_back xs) \<Longrightarrow> pop_null_back xs ! j = xs ! j"
  "length (pop_null_back xs) \<le> j \<Longrightarrow> j < length xs \<Longrightarrow> xs ! j = None"
proof -
  obtain ys where xs: "xs = pop_null_back xs @ ys" "\<forall>y \<in> set ys. y = None"
  proof -
    have "rev (takeWhile (\<lambda>x. x = None) (rev xs) @ dropWhile (\<lambda>x. x = None) (rev xs)) = xs"
      unfolding takeWhile_dropWhile_id by simp
    then have "xs = pop_null_back xs @ rev (takeWhile (\<lambda>x. x = None) (rev xs))"
      unfolding rev_append pop_null_back_def by (rule sym)
    moreover have "\<forall>y \<in> set (rev (takeWhile (\<lambda>x. x = None) (rev xs))). y = None"
      by (auto dest: set_takeWhileD)
    ultimately show ?thesis by (rule that)
  qed
  show "length (pop_null_back xs) \<le> length xs" by (subst (2) xs(1)) simp
  show "pop_null_back xs ! j = xs ! j" if "j < length (pop_null_back xs)"
    using that arg_cong [OF xs(1), of "\<lambda>ys. ys ! j"] by (simp add: nth_append)
  show "xs ! j = None" if "length (pop_null_back xs) \<le> j" "j < length xs"
  proof -
    have "length xs = length (pop_null_back xs) + length ys" using arg_cong [OF xs(1), of length] by simp
    then have "ys ! (j - length (pop_null_back xs)) \<in> set ys" using that by (intro nth_mem) simp
    moreover have "xs ! j = ys ! (j - length (pop_null_back xs))"
      using that by (subst xs(1)) (simp add: nth_append)
    ultimately show ?thesis using xs(2) by simp
  qed
qed

lemma simple_put:
  fixes si :: "'v simple_index"
  assumes "simple_wf (index_id (obj_id obj)) si"
  defines "si' \<equiv> si\<lparr>si_objects := (resize_for (slot (obj_id obj)) None (si_objects si))[slot (obj_id obj) := Some obj]\<rparr>"
  shows "simple_wf (index_id (obj_id obj)) si'"
    "index_id a = index_id (obj_id obj) \<Longrightarrow> simple_find si' a = (if a = obj_id obj then Some obj else simple_find si a)"
proof -
  let ?i = "slot (obj_id obj)" and ?xs = "resize_for (slot (obj_id obj)) None (si_objects si)"
  have si': "si_objects si' = ?xs[?i := Some obj]" by (simp add: si'_def)
  have old: "?xs ! j = (if j < length (si_objects si) then si_objects si ! j else None)" if "j < length ?xs" for j
    using that by (simp add: resize_for_facts(2,3))
  show "simple_wf (index_id (obj_id obj)) si'"
    unfolding simple_wf_def si'
  proof (intro allI impI)
    fix j y
    assume "j < length (?xs[?i := Some obj])" "?xs[?i := Some obj] ! j = Some y"
    then show "index_id (obj_id y) = index_id (obj_id obj) \<and> slot (obj_id y) = j"
      using assms(1) old [of j] by (cases "j = ?i") (auto simp: simple_wf_def split: if_splits)
  qed
  assume "index_id a = index_id (obj_id obj)"
  then have "slot a = ?i \<longleftrightarrow> a = obj_id obj" by (rule slot_inj)
  then show "simple_find si' a = (if a = obj_id obj then Some obj else simple_find si a)"
    using resize_for_facts(1) [of ?i None "si_objects si"] resize_for_facts(4) [of "si_objects si" ?i None] old [of "slot a"]
    by (auto simp: simple_find_def si' nth_list_update)
qed

lemma simple_find_nth: "simple_find si oid = Some obj \<longleftrightarrow> slot oid < length (si_objects si) \<and> si_objects si ! slot oid = Some obj"
  by (auto simp: simple_find_def)

lemma simple_find_id:
  assumes "simple_wf k si" "index_id oid = k" "simple_find si oid = Some obj"
  shows "obj_id obj = oid"
  using assms slot_inj [of "obj_id obj" oid] by (auto simp: simple_find_nth simple_wf_def)

lemma nth_update_if: "j < length xs \<Longrightarrow> xs[i := x] ! j = (if j = i then x else xs ! j)"
  by (cases "i < length xs") (auto simp: nth_list_update)

lemma simple_wf_update:
  assumes "simple_wf k si" "index_id (obj_id obj) = k" "slot (obj_id obj) = i"
  shows "simple_wf k (si\<lparr>si_objects := (si_objects si)[i := Some obj]\<rparr>)"
  using assms by (simp add: simple_wf_def nth_update_if)

lemma simple_modify_found:
  assumes "simple_wf k si" "index_id oid = k" "simple_find si oid = Some obj" "obj_id (m obj) = oid"
  shows "\<exists>i'. simple_modify oid m si = (Inr (), i') \<and> simple_wf k i' \<and>
    (\<forall>a. index_id a = k \<longrightarrow> simple_find i' a = (if a = oid then Some (m obj) else simple_find si a))"
proof -
  let ?si = "si\<lparr>si_objects := (si_objects si)[slot oid := Some (m obj)]\<rparr>"
  have "simple_modify oid m si = (Inr (), ?si)"
    using assms(3) by (simp add: simple_modify_def simple_find_nth)
  moreover have "simple_wf k ?si" using simple_wf_update [OF assms(1)] assms(2,4) by simp
  moreover have "simple_find ?si a = (if a = oid then Some (m obj) else simple_find si a)" if "index_id a = k" for a
    using that assms(2,3) slot_inj [of a oid] by (simp add: simple_find_def nth_update_if split: if_splits)
  ultimately show ?thesis by blast
qed

lemma simple_remove_found:
  assumes "simple_wf k si" "index_id oid = k" "simple_find si oid = Some obj"
  shows "\<exists>i'. simple_remove oid si = Inr i' \<and> simple_wf k i' \<and>
    (\<forall>a. index_id a = k \<longrightarrow> simple_find i' a = (if a = oid then None else simple_find si a))"
proof -
  have i: "slot oid < length (si_objects si)" using assms(3) by (simp add: simple_find_nth)
  let ?xs = "(si_objects si)[slot oid := None]"
  let ?si = "si\<lparr>si_objects := pop_null_back ?xs\<rparr>"
  have old: "j < length (si_objects si) \<and> si_objects si ! j = Some y"
    if "j < length (pop_null_back ?xs)" "pop_null_back ?xs ! j = Some y" for j y
  proof -
    have j: "j < length (si_objects si)" using that(1) nth_pop_null_back(1) [of ?xs] by simp
    then show ?thesis using that(2) nth_pop_null_back(2) [OF that(1)] by (simp add: nth_update_if split: if_splits)
  qed
  have "simple_wf k ?si"
    unfolding simple_wf_def
  proof (intro allI impI)
    fix j y
    assume "j < length (si_objects ?si)" "si_objects ?si ! j = Some y"
    then have "j < length (si_objects si) \<and> si_objects si ! j = Some y" using old by simp
    then show "index_id (obj_id y) = k \<and> slot (obj_id y) = j" using assms(1) unfolding simple_wf_def by blast
  qed
  moreover have "simple_find ?si a = (if a = oid then None else simple_find si a)" if a: "index_id a = k" for a
  proof (cases "slot a < length (si_objects si)")
    case True
    then have "(if length (pop_null_back ?xs) \<le> slot a then None else pop_null_back ?xs ! slot a) = ?xs ! slot a"
      using nth_pop_null_back(2) [of "slot a" ?xs] nth_pop_null_back(3) [of ?xs "slot a"] by simp
    then have "simple_find ?si a = ?xs ! slot a" by (simp add: simple_find_def split: if_splits)
    also have "\<dots> = (if a = oid then None else simple_find si a)"
      using True a assms(2) slot_inj [of a oid] by (simp add: simple_find_def nth_update_if)
    finally show ?thesis .
  next
    case False
    then show ?thesis using nth_pop_null_back(1) [of ?xs] by (simp add: simple_find_def)
  qed
  ultimately show ?thesis using i by (auto simp: simple_remove_def)
qed

interpretation simple: object_index simple_find simple_modify simple_wf simple_create simple_insert simple_remove
proof unfold_locales
  fix k oid and si :: "'v simple_index" and c :: "'v object \<Rightarrow> 'v object"
  assume "simple_wf k si" "index_id oid = k"
  then show "\<exists>obj i'. simple_create oid c si = Inr (obj, i') \<and> obj_id obj = oid \<and> simple_wf k i' \<and>
      (\<forall>a. index_id a = k \<longrightarrow> simple_find i' a = (if a = oid then Some obj else simple_find si a))"
    using simple_put [of "(c \<lparr>obj_id = oid, obj_data = si_default si\<rparr>)\<lparr>obj_id := oid\<rparr>" si]
    by (simp add: simple_create_def Let_def)
next
  fix k and si :: "'v simple_index" and obj :: "'v object"
  assume "simple_wf k si" "index_id (obj_id obj) = k"
  then show "\<exists>i'. simple_insert obj si = Inr i' \<and> simple_wf k i' \<and>
      (\<forall>a. index_id a = k \<longrightarrow> simple_find i' a = (if a = obj_id obj then Some obj else simple_find si a))"
    using simple_put [of obj si] by (auto simp: simple_insert_def)
qed (simp_all add: simple_find_id simple_modify_found simple_remove_found)

interpretation flat: keyed_index flat_find flat_modify flat_wf
proof unfold_locales
  fix k oid and fi :: "'v flat_index" and obj :: "'v object" and m :: "'v object \<Rightarrow> 'v object"
  assume wf: "flat_wf k fi" and kind: "index_id oid = k" and f: "flat_find fi oid = Some obj"
  then have i: "slot oid < length (fi_objects fi)" "obj = fi_objects fi ! slot oid"
    by (simp_all add: flat_find_def split: if_splits)
  then show oid: "obj_id obj = oid"
    using wf kind slot_inj [of "obj_id obj" oid] by (simp add: flat_wf_def)
  assume m: "obj_id (m obj) = oid"
  let ?fi = "fi\<lparr>fi_objects := (fi_objects fi)[slot oid := m obj]\<rparr>"
  have "flat_wf k ?fi" using wf m kind by (simp add: flat_wf_def nth_update_if)
  moreover have "flat_find ?fi a = (if a = oid then Some (m obj) else flat_find fi a)" if "index_id a = k" for a
    using that kind i slot_inj [of a oid] by (simp add: flat_find_def nth_update_if)
  ultimately show "\<exists>i'. flat_modify oid m fi = (Inr (), i') \<and> flat_wf k i' \<and>
      (\<forall>a. index_id a = k \<longrightarrow> flat_find i' a = (if a = oid then Some (m obj) else flat_find fi a))"
    using i by (auto simp: flat_modify_def)
qed

section \<open>Any index\<close>

text \<open>The database holds indices of all three classes behind one interface.\<close>

datatype 'v derived_index = Generic "'v generic_index" | Simple "'v simple_index" | Flat "'v flat_index"

fun di_find :: "'v derived_index \<Rightarrow> object_id_type \<Rightarrow> 'v object option" where
  "di_find (Generic gi) oid = generic_find gi oid"
| "di_find (Simple si) oid = simple_find si oid"
| "di_find (Flat fi) oid = flat_find fi oid"

fun di_modify ::
    "object_id_type \<Rightarrow> ('v object \<Rightarrow> 'v object) \<Rightarrow> 'v derived_index \<Rightarrow> unit result \<times> 'v derived_index" where
  "di_modify oid m (Generic gi) = map_prod id Generic (generic_modify oid m gi)"
| "di_modify oid m (Simple si) = map_prod id Simple (simple_modify oid m si)"
| "di_modify oid m (Flat fi) = map_prod id Flat (flat_modify oid m fi)"

fun di_create ::
    "object_id_type \<Rightarrow> ('v object \<Rightarrow> 'v object) \<Rightarrow> 'v derived_index \<Rightarrow> ('v object \<times> 'v derived_index) result" where
  "di_create oid c (Generic gi) = map_sum id (map_prod id Generic) (generic_create oid c gi)"
| "di_create oid c (Simple si) = map_sum id (map_prod id Simple) (simple_create oid c si)"
| "di_create oid c (Flat fi) = map_sum id (map_prod id Flat) (flat_create oid c fi)"

fun di_insert :: "'v object \<Rightarrow> 'v derived_index \<Rightarrow> 'v derived_index result" where
  "di_insert obj (Generic gi) = map_sum id Generic (generic_insert obj gi)"
| "di_insert obj (Simple si) = map_sum id Simple (simple_insert obj si)"
| "di_insert obj (Flat fi) = map_sum id Flat (flat_insert obj fi)"

fun di_remove :: "object_id_type \<Rightarrow> 'v derived_index \<Rightarrow> 'v derived_index result" where
  "di_remove oid (Generic gi) = map_sum id Generic (generic_remove oid gi)"
| "di_remove oid (Simple si) = map_sum id Simple (simple_remove oid si)"
| "di_remove oid (Flat fi) = map_sum id Flat (flat_remove oid fi)"

fun di_wf :: "object_id_type \<Rightarrow> 'v derived_index \<Rightarrow> bool" where
  "di_wf k (Generic gi) = generic_wf k gi"
| "di_wf k (Simple si) = simple_wf k si"
| "di_wf k (Flat fi) = flat_wf k fi"

fun is_flat :: "'v derived_index \<Rightarrow> bool" where
  "is_flat (Flat fi) = True"
| "is_flat _ = False"

interpretation di: keyed_index di_find di_modify di_wf
proof unfold_locales
  fix k oid and i :: "'v derived_index" and obj :: "'v object" and m :: "'v object \<Rightarrow> 'v object"
  assume a: "di_wf k i" "index_id oid = k" "di_find i oid = Some obj"
  then show "obj_id obj = oid"
    by (cases i) (auto dest: generic.find_id simple.find_id flat.find_id)
  assume "obj_id (m obj) = oid"
  with a show "\<exists>i'. di_modify oid m i = (Inr (), i') \<and> di_wf k i' \<and>
      (\<forall>a. index_id a = k \<longrightarrow> di_find i' a = (if a = oid then Some (m obj) else di_find i a))"
    using generic.modify_found [of k _ oid obj m] simple.modify_found [of k _ oid obj m] flat.modify_found [of k _ oid obj m]
    by (cases i) fastforce+
qed

definition removable_wf :: "object_id_type \<Rightarrow> 'v derived_index \<Rightarrow> bool" where
  "removable_wf k i \<longleftrightarrow> di_wf k i \<and> \<not> is_flat i"

lemma di_modify_flat: "is_flat (snd (di_modify oid m i)) = is_flat i"
  by (cases i) simp_all

interpretation rdi: object_index di_find di_modify removable_wf di_create di_insert di_remove
proof unfold_locales
  fix k oid and i :: "'v derived_index" and obj :: "'v object" and m :: "'v object \<Rightarrow> 'v object"
  assume a: "removable_wf k i" "index_id oid = k" "di_find i oid = Some obj"
  then show "obj_id obj = oid" using di.find_id by (auto simp: removable_wf_def)
  show "\<exists>i'. di_remove oid i = Inr i' \<and> removable_wf k i' \<and>
      (\<forall>a. index_id a = k \<longrightarrow> di_find i' a = (if a = oid then None else di_find i a))"
    using a generic.remove_found [of k _ oid obj] simple.remove_found [of k _ oid obj]
    by (cases i) (fastforce simp: removable_wf_def)+
  assume "obj_id (m obj) = oid"
  then show "\<exists>i'. di_modify oid m i = (Inr (), i') \<and> removable_wf k i' \<and>
      (\<forall>a. index_id a = k \<longrightarrow> di_find i' a = (if a = oid then Some (m obj) else di_find i a))"
    using di.modify_found [of k i oid obj m] di_modify_flat [of oid m i] a by (auto simp: removable_wf_def)
next
  fix k oid and i :: "'v derived_index" and c :: "'v object \<Rightarrow> 'v object"
  assume "removable_wf k i" "index_id oid = k" "di_find i oid = None" "\<And>x. obj_id (c x) = obj_id x"
  then show "\<exists>obj i'. di_create oid c i = Inr (obj, i') \<and> obj_id obj = oid \<and> removable_wf k i' \<and>
      (\<forall>a. index_id a = k \<longrightarrow> di_find i' a = (if a = oid then Some obj else di_find i a))"
    using generic.create_fresh [of k _ oid c] simple.create_fresh [of k _ oid c]
    by (cases i) (fastforce simp: removable_wf_def)+
next
  fix k and i :: "'v derived_index" and obj :: "'v object"
  assume "removable_wf k i" "index_id (obj_id obj) = k" "di_find i (obj_id obj) = None"
  then show "\<exists>i'. di_insert obj i = Inr i' \<and> removable_wf k i' \<and>
      (\<forall>a. index_id a = k \<longrightarrow> di_find i' a = (if a = obj_id obj then Some obj else di_find i a))"
    using generic.insert_fresh [of k _ obj] simple.insert_fresh [of k _ obj]
    by (cases i) (fastforce simp: removable_wf_def)+
qed

end
