(* ===== verification/Object_Types.thy ===== *)
theory Object_Types
  imports Object_Index Cbor_Object
begin

text \<open>
  The kinds of chain objects, \<^verbatim>\<open>protocol/types.hpp\<close>, and how \<^verbatim>\<open>undo_database.cpp\<close> turns an object into a
  JSON value and back when it moves an undo state to disk and loads it again.
\<close>

section \<open>Kinds of objects\<close>

datatype object_type =
    null_object_type | base_object_type | account_object_type | asset_object_type |
    force_settlement_object_type | wallfacer_member_object_type | miner_object_type |
    limit_order_object_type | call_order_object_type | custom_object_type | proposal_object_type |
    referendum_object_type | operation_history_object_type | withdraw_permission_object_type |
    vesting_balance_object_type | worker_object_type | balance_object_type | lockbalance_object_type |
    crosschain_trx_object_type | coldhot_transfer_object_type | wallfacer_lock_balance_object_type |
    multisig_transfer_object_type | acquired_crosschain_object_type |
    crosschain_transaction_history_count_object_type | contract_storage_diff_type |
    contract_storage_type | contract_object_type | contract_balance_object_type |
    contract_storage_object_type | contract_event_notify_object_type |
    contract_invoke_result_object_type | script_object_type | script_binding_object_type |
    pay_back_object_type | bonus_object_type | total_fees_type | contract_storage_change_object_type |
    contract_history_object_type | eth_multi_account_trx_object_type | vote_object_type |
    vote_result_object_type

datatype impl_object_type =
    impl_global_property_object_type | impl_dynamic_global_property_object_type |
    impl_reserved0_object_type | impl_asset_dynamic_data_type | impl_asset_bitasset_data_type |
    impl_account_balance_object_type | impl_account_binding_object_type |
    impl_multisig_account_binding_object_type | impl_multisig_address_object_type |
    impl_account_statistics_object_type | impl_transaction_object_type |
    impl_history_transaction_object_type | impl_trx_object_type | impl_block_summary_object_type |
    impl_account_transaction_history_object_type | impl_blinded_balance_object_type |
    impl_chain_property_object_type | impl_witness_schedule_object_type |
    impl_budget_record_object_type | impl_special_authority_object_type | impl_buyback_object_type |
    impl_fba_accumulator_object_type | impl_guarantee_obj_type |
    impl_address_transaction_history_object_type | impl_blocked_address_obj_type |
    impl_lockbalance_record_object_type | impl_white_operationlist_object_type

text \<open>The enumerators in order: a type number is a position of the list.\<close>

definition object_types :: "object_type list" where
  "object_types = [
     null_object_type, base_object_type, account_object_type, asset_object_type,
     force_settlement_object_type, wallfacer_member_object_type, miner_object_type,
     limit_order_object_type, call_order_object_type, custom_object_type, proposal_object_type,
     referendum_object_type, operation_history_object_type, withdraw_permission_object_type,
     vesting_balance_object_type, worker_object_type, balance_object_type, lockbalance_object_type,
     crosschain_trx_object_type, coldhot_transfer_object_type, wallfacer_lock_balance_object_type,
     multisig_transfer_object_type, acquired_crosschain_object_type,
     crosschain_transaction_history_count_object_type, contract_storage_diff_type,
     contract_storage_type, contract_object_type, contract_balance_object_type,
     contract_storage_object_type, contract_event_notify_object_type,
     contract_invoke_result_object_type, script_object_type, script_binding_object_type,
     pay_back_object_type, bonus_object_type, total_fees_type, contract_storage_change_object_type,
     contract_history_object_type, eth_multi_account_trx_object_type, vote_object_type,
     vote_result_object_type]"

definition impl_object_types :: "impl_object_type list" where
  "impl_object_types = [
     impl_global_property_object_type, impl_dynamic_global_property_object_type,
     impl_reserved0_object_type, impl_asset_dynamic_data_type, impl_asset_bitasset_data_type,
     impl_account_balance_object_type, impl_account_binding_object_type,
     impl_multisig_account_binding_object_type, impl_multisig_address_object_type,
     impl_account_statistics_object_type, impl_transaction_object_type,
     impl_history_transaction_object_type, impl_trx_object_type, impl_block_summary_object_type,
     impl_account_transaction_history_object_type, impl_blinded_balance_object_type,
     impl_chain_property_object_type, impl_witness_schedule_object_type, impl_budget_record_object_type,
     impl_special_authority_object_type, impl_buyback_object_type, impl_fba_accumulator_object_type,
     impl_guarantee_obj_type, impl_address_transaction_history_object_type,
     impl_blocked_address_obj_type, impl_lockbalance_record_object_type,
     impl_white_operationlist_object_type]"

definition nth_enum :: "'a list \<Rightarrow> u8 \<Rightarrow> 'a option" where
  "nth_enum xs t = (if unat t < length xs then Some (xs ! unat t) else None)"

definition protocol_ids :: u8 where
  "protocol_ids = 1"

definition implementation_ids :: u8 where
  "implementation_ids = 2"

section \<open>Objects as JSON values\<close>

text \<open>
  The types with a branch in the \<^verbatim>\<open>switch\<close> that constructs an object; for any other type the process
  exits.
\<close>

definition has_protocol_case :: "object_type \<Rightarrow> bool" where
  "has_protocol_case t \<longleftrightarrow> t \<in> set [
     account_object_type, asset_object_type, force_settlement_object_type, wallfacer_member_object_type,
     miner_object_type, limit_order_object_type, call_order_object_type, proposal_object_type,
     referendum_object_type, operation_history_object_type, withdraw_permission_object_type,
     vesting_balance_object_type, worker_object_type, balance_object_type, lockbalance_object_type,
     crosschain_trx_object_type, coldhot_transfer_object_type, wallfacer_lock_balance_object_type,
     multisig_transfer_object_type, acquired_crosschain_object_type,
     crosschain_transaction_history_count_object_type, contract_object_type,
     contract_storage_object_type, contract_storage_diff_type, contract_event_notify_object_type,
     contract_invoke_result_object_type, pay_back_object_type, bonus_object_type,
     eth_multi_account_trx_object_type, contract_storage_change_object_type, total_fees_type,
     contract_history_object_type, vote_object_type, vote_result_object_type]"

definition has_implementation_case :: "impl_object_type \<Rightarrow> bool" where
  "has_implementation_case t \<longleftrightarrow> t \<in> set [
     impl_global_property_object_type, impl_dynamic_global_property_object_type,
     impl_asset_dynamic_data_type, impl_asset_bitasset_data_type, impl_account_balance_object_type,
     impl_account_binding_object_type, impl_account_statistics_object_type,
     impl_transaction_object_type, impl_trx_object_type, impl_history_transaction_object_type,
     impl_block_summary_object_type, impl_account_transaction_history_object_type,
     impl_chain_property_object_type, impl_witness_schedule_object_type, impl_budget_record_object_type,
     impl_blinded_balance_object_type, impl_special_authority_object_type, impl_buyback_object_type,
     impl_fba_accumulator_object_type, impl_multisig_account_binding_object_type,
     impl_multisig_address_object_type, impl_guarantee_obj_type,
     impl_address_transaction_history_object_type, impl_blocked_address_obj_type,
     impl_lockbalance_record_object_type, impl_white_operationlist_object_type]"

record serializable_obj =
  ser_s :: u8
  ser_t :: u8
  ser_obj :: json

text \<open>
  The conversions of each object class between the object and its JSON value, the text that is
  written and read back, and the hash of a state belong to other parts of the program.
\<close>

record serializable_undo_state =
  ser_old_values :: "(object_id_type \<times> serializable_obj) list"
  ser_old_index_next_ids :: "(object_id_type \<times> object_id_type) list"
  ser_new_ids :: "object_id_type list"
  ser_removed :: "(object_id_type \<times> serializable_obj) list"

type_synonym undo_state_id_type = "160 word"

record 'v undo_env =
  ue_to_variant :: "'v object \<Rightarrow> json"
  ue_from_variant :: "u8 \<Rightarrow> u8 \<Rightarrow> json \<Rightarrow> 'v object result"
  ue_json_reload :: "serializable_undo_state \<Rightarrow> serializable_undo_state result"
  ue_hash :: "serializable_undo_state \<Rightarrow> undo_state_id_type"

definition make_serializable_obj :: "'v undo_env \<Rightarrow> 'v object \<Rightarrow> serializable_obj" where
  "make_serializable_obj en obj =
    \<lparr>ser_s = id_space (obj_id obj), ser_t = id_type (obj_id obj), ser_obj = ue_to_variant en obj\<rparr>"

definition to_protocol_object :: "'v undo_env \<Rightarrow> u8 \<Rightarrow> json \<Rightarrow> 'v object result" where
  "to_protocol_object en t var =
    (case nth_enum object_types t of
       Some e \<Rightarrow> if has_protocol_case e then ue_from_variant en protocol_ids t var else Inl Process_exit
     | None \<Rightarrow> Inl Process_exit)"

definition to_implementation_object :: "'v undo_env \<Rightarrow> u8 \<Rightarrow> json \<Rightarrow> 'v object result" where
  "to_implementation_object en t var =
    (case nth_enum impl_object_types t of
       Some e \<Rightarrow> if has_implementation_case e then ue_from_variant en implementation_ids t var else Inl Process_exit
     | None \<Rightarrow> Inl Process_exit)"

definition to_object :: "'v undo_env \<Rightarrow> serializable_obj \<Rightarrow> 'v object result" where
  "to_object en so =
    (if ser_s so = protocol_ids then to_protocol_object en (ser_t so) (ser_obj so)
     else if ser_s so = implementation_ids then to_implementation_object en (ser_t so) (ser_obj so)
     else Inl Terminate_called)"

text \<open>The kinds of objects that can be loaded again, when the class conversions are inverse to each other.\<close>

definition storable_kind :: "object_id_type \<Rightarrow> bool" where
  "storable_kind oid \<longleftrightarrow>
    (id_space oid = protocol_ids \<and> (\<exists>e. nth_enum object_types (id_type oid) = Some e \<and> has_protocol_case e)) \<or>
    (id_space oid = implementation_ids \<and>
       (\<exists>e. nth_enum impl_object_types (id_type oid) = Some e \<and> has_implementation_case e))"

definition faithful_variants :: "'v undo_env \<Rightarrow> bool" where
  "faithful_variants en \<longleftrightarrow>
    (\<forall>obj. ue_from_variant en (id_space (obj_id obj)) (id_type (obj_id obj)) (ue_to_variant en obj) = Inr obj) \<and>
    (\<forall>s. ue_json_reload en s = Inr s)"

lemma to_object_make:
  assumes "faithful_variants en" "storable_kind (obj_id obj)"
  shows "to_object en (make_serializable_obj en obj) = Inr obj"
proof -
  have "ue_from_variant en (id_space (obj_id obj)) (id_type (obj_id obj)) (ue_to_variant en obj) = Inr obj"
    using assms(1) by (simp add: faithful_variants_def)
  moreover have "protocol_ids \<noteq> implementation_ids" by (simp add: protocol_ids_def implementation_ids_def)
  ultimately show ?thesis
    using assms(2)
    by (auto simp: storable_kind_def to_object_def make_serializable_obj_def to_protocol_object_def
        to_implementation_object_def)
qed

lemma to_object_not_storable:
  assumes "\<not> storable_kind (obj_id obj)"
  shows "to_object en (make_serializable_obj en obj) \<in> {Inl Process_exit, Inl Terminate_called}"
  using assms
  by (auto simp: storable_kind_def to_object_def make_serializable_obj_def to_protocol_object_def
      to_implementation_object_def split: option.splits)

end
