(* ===== verification/Run_Monad.thy ===== *)
theory Run_Monad
  imports Prelude
begin

text \<open>
  Computations that change a state and may raise an exception, with the loop over a container.
\<close>

text \<open>An exception leaves the changes made before it in place.\<close>

type_synonym ('s, 'a) run = "'s \<Rightarrow> 'a result \<times> 's"

definition run_return :: "'a \<Rightarrow> ('s, 'a) run" where
  "run_return x s = (Inr x, s)"

definition run_throw :: "cpp_error \<Rightarrow> ('s, 'a) run" where
  "run_throw e s = (Inl e, s)"

definition run_bind :: "('s, 'a) run \<Rightarrow> ('a \<Rightarrow> ('s, 'b) run) \<Rightarrow> ('s, 'b) run" where
  "run_bind f g s = (case f s of (Inl e, s') \<Rightarrow> (Inl e, s') | (Inr x, s') \<Rightarrow> g x s')"

definition run_get :: "('s \<Rightarrow> 'a) \<Rightarrow> ('s, 'a) run" where
  "run_get f s = (Inr (f s), s)"

definition run_update :: "('s \<Rightarrow> 's) \<Rightarrow> ('s, unit) run" where
  "run_update f s = (Inr (), f s)"

definition run_assert :: "bool \<Rightarrow> string \<Rightarrow> ('s, unit) run" where
  "run_assert b msg s = (if b then (Inr (), s) else (Inl (Fc_assert msg), s))"

definition run_result :: "'a result \<Rightarrow> ('s, 'a) run" where
  "run_result r s = (r, s)"

fun run_for :: "('x \<Rightarrow> ('s, unit) run) \<Rightarrow> 'x list \<Rightarrow> ('s, unit) run" where
  "run_for f [] = run_return ()"
| "run_for f (x # xs) = run_bind (f x) (\<lambda>_. run_for f xs)"

lemma run_bind_Inr: "run_bind f g s = (Inr y, s'') \<longleftrightarrow> (\<exists>x s'. f s = (Inr x, s') \<and> g x s' = (Inr y, s''))"
  by (auto simp: run_bind_def split: prod.splits sum.splits)

lemmas run_defs = run_return_def run_throw_def run_get_def run_update_def run_assert_def run_result_def

end
