(* ===== verification/Undo_Database.thy ===== *)
theory Undo_Database
  imports Object_Types Run_Monad
begin

text \<open>
  The object database with its undo history, \<^verbatim>\<open>object_database.cpp\<close>, \<^verbatim>\<open>index.hpp\<close> and
  \<^verbatim>\<open>undo_database.cpp\<close>. Every change of an object is noted in the undo state of the youngest session;
  older states are moved to a key value store on disk and loaded again when they are needed.
\<close>

section \<open>Undo states\<close>

record 'v undo_state =
  old_values :: "(object_id_type \<times> 'v object) list"
  old_index_next_ids :: "(object_id_type \<times> object_id_type) list"
  new_ids :: "object_id_type list"
  removed :: "(object_id_type \<times> 'v object) list"

definition empty_undo_state :: "'v undo_state" where
  "empty_undo_state = \<lparr>old_values = [], old_index_next_ids = [], new_ids = [], removed = []\<rparr>"

definition std_set_insert :: "'a :: linorder \<Rightarrow> 'a list \<Rightarrow> 'a list" where
  "std_set_insert x xs = (if x \<in> set xs then xs else insort x xs)"

definition std_set_erase :: "'a :: linorder \<Rightarrow> 'a list \<Rightarrow> 'a list" where
  "std_set_erase x xs = filter (\<lambda>y. y \<noteq> x) xs"

fun serialize_objects ::
    "'v undo_env \<Rightarrow> (object_id_type \<times> 'v object) list \<Rightarrow> (object_id_type \<times> serializable_obj) list \<Rightarrow>
     (object_id_type \<times> serializable_obj) list" where
  "serialize_objects en [] res = res"
| "serialize_objects en ((k, obj) # objs) res =
     serialize_objects en objs (std_map_set k (make_serializable_obj en obj) res)"

definition get_serializable_undo_state :: "'v undo_env \<Rightarrow> 'v undo_state \<Rightarrow> serializable_undo_state" where
  "get_serializable_undo_state en st =
    \<lparr>ser_old_values = serialize_objects en (old_values st) [],
     ser_old_index_next_ids = old_index_next_ids st, ser_new_ids = new_ids st,
     ser_removed = serialize_objects en (removed st) []\<rparr>"

definition undo_id :: "'v undo_env \<Rightarrow> serializable_undo_state \<Rightarrow> undo_state_id_type" where
  "undo_id en s = ue_hash en s"

text \<open>Assigning a serialized state: the objects built before an exception stay.\<close>

fun load_objects ::
    "'v undo_env \<Rightarrow> (object_id_type \<times> serializable_obj) list \<Rightarrow> (object_id_type \<times> 'v object) list \<Rightarrow>
     unit result \<times> (object_id_type \<times> 'v object) list" where
  "load_objects en [] res = (Inr (), res)"
| "load_objects en ((k, so) # sos) res =
    (case to_object en so of
       Inl e \<Rightarrow> (Inl e, res)
     | Inr obj \<Rightarrow> load_objects en sos (std_map_set k obj res))"

definition undo_state_assign :: "'v undo_env \<Rightarrow> serializable_undo_state \<Rightarrow> unit result \<times> 'v undo_state" where
  "undo_state_assign en s =
    (case load_objects en (ser_old_values s) [] of
       (Inl e, olds) \<Rightarrow> (Inl e, empty_undo_state\<lparr>old_values := olds\<rparr>)
     | (Inr _, olds) \<Rightarrow>
         (case load_objects en (ser_removed s) [] of
            (r, rems) \<Rightarrow> (r, \<lparr>old_values = olds, old_index_next_ids = ser_old_index_next_ids s,
              new_ids = ser_new_ids s, removed = rems\<rparr>)))"

section \<open>Databases\<close>

text \<open>
  The store on disk keeps its contents when it is closed. The list of the ids of stored states is
  kept in memory and written to a file of its own on shutdown.
\<close>

record 'v undo_database =
  ud_active_sessions :: u32
  ud_disabled :: bool
  ud_stack :: "undo_state_id_type list"
  ud_disk :: "(undo_state_id_type \<times> serializable_undo_state) list"
  ud_open :: bool
  ud_stack_file :: "undo_state_id_type list option"
  ud_max_size :: nat
  ud_back :: "'v undo_state list"

record 'v primary_index =
  pi_derived :: "'v derived_index"
  pi_next_id :: object_id_type

record 'v object_database =
  db_index :: "'v primary_index option list list"
  db_undo :: "'v undo_database"

definition GRAPHENE_UNDO_BUFF_MAX_SIZE :: nat where
  "GRAPHENE_UNDO_BUFF_MAX_SIZE = 20"

definition new_undo_database :: "'v undo_database" where
  "new_undo_database = \<lparr>ud_active_sessions = 0, ud_disabled = True, ud_stack = [], ud_disk = [], ud_open = False,
     ud_stack_file = None, ud_max_size = 1440, ud_back = []\<rparr>"

definition new_object_database :: "'v object_database" where
  "new_object_database = \<lparr>db_index = replicate 255 [], db_undo = new_undo_database\<lparr>ud_disabled := False\<rparr>\<rparr>"

definition with_undo :: "('v undo_database, 'a) run \<Rightarrow> ('v object_database, 'a) run" where
  "with_undo f db = (case f (db_undo db) of (r, u) \<Rightarrow> (r, db\<lparr>db_undo := u\<rparr>))"

section \<open>Noting changes\<close>

text \<open>Without a session there is no youngest state.\<close>

definition update_back :: "('v undo_state \<Rightarrow> 'v undo_state) \<Rightarrow> ('v undo_database, unit) run" where
  "update_back f u =
    (if ud_back u = [] then (Inl (Undefined_behaviour ''back of an empty deque''), u)
     else (Inr (), u\<lparr>ud_back := butlast (ud_back u) @ [f (last (ud_back u))]\<rparr>))"

definition note_create :: "'v object \<Rightarrow> 'v undo_state \<Rightarrow> 'v undo_state" where
  "note_create obj state =
    (let index = index_id (obj_id obj);
         state = (if std_map_find (old_index_next_ids state) index = None
           then state\<lparr>old_index_next_ids := std_map_set index (obj_id obj) (old_index_next_ids state)\<rparr> else state)
     in state\<lparr>new_ids := std_set_insert (obj_id obj) (new_ids state)\<rparr>)"

definition note_modify :: "'v object \<Rightarrow> 'v undo_state \<Rightarrow> 'v undo_state" where
  "note_modify obj state =
    (if obj_id obj \<in> set (new_ids state) then state
     else if std_map_find (old_values state) (obj_id obj) \<noteq> None then state
     else state\<lparr>old_values := std_map_set (obj_id obj) obj (old_values state)\<rparr>)"

definition note_remove :: "'v object \<Rightarrow> 'v undo_state \<Rightarrow> 'v undo_state" where
  "note_remove obj state =
    (if obj_id obj \<in> set (new_ids state)
     then state\<lparr>new_ids := std_set_erase (obj_id obj) (new_ids state)\<rparr>
     else case std_map_find (old_values state) (obj_id obj) of
       Some old \<Rightarrow> state\<lparr>removed := std_map_set (obj_id obj) old (removed state),
           old_values := std_map_erase (obj_id obj) (old_values state)\<rparr>
     | None \<Rightarrow>
         if std_map_find (removed state) (obj_id obj) \<noteq> None then state
         else state\<lparr>removed := std_map_set (obj_id obj) obj (removed state)\<rparr>)"

definition on_create :: "'v object \<Rightarrow> ('v undo_database, unit) run" where
  "on_create obj u = (if ud_disabled u then (Inr (), u) else update_back (note_create obj) u)"

definition on_modify :: "'v object \<Rightarrow> ('v undo_database, unit) run" where
  "on_modify obj u = (if ud_disabled u then (Inr (), u) else update_back (note_modify obj) u)"

definition on_remove :: "'v object \<Rightarrow> ('v undo_database, unit) run" where
  "on_remove obj u = (if ud_disabled u then (Inr (), u) else update_back (note_remove obj) u)"

section \<open>The object database\<close>

definition get_index :: "'v object_database \<Rightarrow> u8 \<Rightarrow> u8 \<Rightarrow> 'v primary_index result" where
  "get_index db space_id type_id =
    (if length (db_index db) \<le> unat space_id then Inl (Fc_assert ''_index.size() > space_id'')
     else if length (db_index db ! unat space_id) \<le> unat type_id then Inl (Fc_assert ''_index[space_id].size() > type_id'')
     else case db_index db ! unat space_id ! unat type_id of
       None \<Rightarrow> Inl (Fc_assert ''tmp'')
     | Some idx \<Rightarrow> Inr idx)"

definition set_index :: "u8 \<Rightarrow> u8 \<Rightarrow> 'v primary_index \<Rightarrow> 'v object_database \<Rightarrow> 'v object_database" where
  "set_index space_id type_id idx db =
    db\<lparr>db_index := (db_index db)[unat space_id := (db_index db ! unat space_id)[unat type_id := Some idx]]\<rparr>"

definition add_index :: "u8 \<Rightarrow> u8 \<Rightarrow> 'v derived_index \<Rightarrow> 'v object_database \<Rightarrow> 'v object_database" where
  "add_index space_id type_id derived db =
    (let types = db_index db ! unat space_id;
         types = (if length types \<le> unat type_id then take 255 (types @ replicate (255 - length types) None) else types)
     in db\<lparr>db_index := (db_index db)[unat space_id := types
          [unat type_id := Some \<lparr>pi_derived = derived, pi_next_id = pack_id space_id type_id 0\<rparr>]]\<rparr>)"

definition find_object :: "'v object_database \<Rightarrow> object_id_type \<Rightarrow> 'v object option result" where
  "find_object db oid = ebind (get_index db (id_space oid) (id_type oid)) (\<lambda>idx. Inr (di_find (pi_derived idx) oid))"

definition db_get_object :: "'v object_database \<Rightarrow> object_id_type \<Rightarrow> 'v object result" where
  "db_get_object db oid = ebind (find_object db oid) (\<lambda>found.
     case found of None \<Rightarrow> Inl (Fc_assert ''Unable to find Object'') | Some obj \<Rightarrow> Inr obj)"

text \<open>
  \<^verbatim>\<open>create\<close>, \<^verbatim>\<open>modify\<close> and \<^verbatim>\<open>remove\<close> of a primary index note the change in the undo database; \<^verbatim>\<open>insert\<close> does
  not. Observers and secondary indices are told of every change and do not act on the database.
\<close>

definition db_create ::
    "u8 \<Rightarrow> u8 \<Rightarrow> ('v object \<Rightarrow> 'v object) \<Rightarrow> ('v object_database, 'v object) run" where
  "db_create space_id type_id constructor db =
    (case get_index db space_id type_id of
       Inl e \<Rightarrow> (Inl e, db)
     | Inr idx \<Rightarrow>
         (case di_create (pi_next_id idx) constructor (pi_derived idx) of
            Inl e \<Rightarrow> (Inl e, db)
          | Inr (obj, derived) \<Rightarrow>
              run_bind (with_undo (on_create obj)) (\<lambda>_. run_return obj)
                (set_index space_id type_id \<lparr>pi_derived = derived, pi_next_id = pi_next_id idx + 1\<rparr> db)))"

definition db_modify :: "'v object \<Rightarrow> ('v object \<Rightarrow> 'v object) \<Rightarrow> ('v object_database, unit) run" where
  "db_modify obj m =
    run_bind (run_get (\<lambda>db. get_index db (id_space (obj_id obj)) (id_type (obj_id obj)))) (\<lambda>found.
    run_bind (run_result found) (\<lambda>idx.
    run_bind (with_undo (on_modify obj)) (\<lambda>_ db.
      case di_modify (obj_id obj) m (pi_derived idx) of
        (r, derived) \<Rightarrow> (r, set_index (id_space (obj_id obj)) (id_type (obj_id obj)) (idx\<lparr>pi_derived := derived\<rparr>) db))))"

definition db_remove :: "'v object \<Rightarrow> ('v object_database, unit) run" where
  "db_remove obj =
    run_bind (run_get (\<lambda>db. get_index db (id_space (obj_id obj)) (id_type (obj_id obj)))) (\<lambda>found.
    run_bind (run_result found) (\<lambda>idx.
    run_bind (with_undo (on_remove obj)) (\<lambda>_ db.
      case di_remove (obj_id obj) (pi_derived idx) of
        Inl e \<Rightarrow> (Inl e, db)
      | Inr derived \<Rightarrow>
          (Inr (), set_index (id_space (obj_id obj)) (id_type (obj_id obj)) (idx\<lparr>pi_derived := derived\<rparr>) db))))"

definition db_insert :: "'v object \<Rightarrow> ('v object_database, unit) run" where
  "db_insert obj db =
    (case get_index db (id_space (obj_id obj)) (id_type (obj_id obj)) of
       Inl e \<Rightarrow> (Inl e, db)
     | Inr idx \<Rightarrow>
         (case di_insert obj (pi_derived idx) of
            Inl e \<Rightarrow> (Inl e, db)
          | Inr derived \<Rightarrow>
              (Inr (), set_index (id_space (obj_id obj)) (id_type (obj_id obj)) (idx\<lparr>pi_derived := derived\<rparr>) db)))"

definition set_next_id :: "u8 \<Rightarrow> u8 \<Rightarrow> object_id_type \<Rightarrow> ('v object_database, unit) run" where
  "set_next_id space_id type_id oid db =
    (case get_index db space_id type_id of
       Inl e \<Rightarrow> (Inl e, db)
     | Inr idx \<Rightarrow> (Inr (), set_index space_id type_id (idx\<lparr>pi_next_id := oid\<rparr>) db))"

section \<open>The store on disk\<close>

definition storage_store :: "undo_state_id_type \<Rightarrow> serializable_undo_state \<Rightarrow> ('v undo_database, bool) run" where
  "storage_store sid s u =
    (if \<not> ud_open u then (Inl (Fc_assert ''undo_storage closed''), u)
     else (Inr True, u\<lparr>ud_disk := std_map_set sid s (ud_disk u)\<rparr>))"

definition store_undo_state :: "'v undo_env \<Rightarrow> 'v undo_state \<Rightarrow> ('v undo_database, undo_state_id_type) run" where
  "store_undo_state en b =
    (let obj = get_serializable_undo_state en b; sid = undo_id en obj
     in run_bind (storage_store sid obj) (\<lambda>ok.
        run_bind (run_assert ok ''store state failed'') (\<lambda>_. run_return sid)))"

definition storage_remove :: "undo_state_id_type \<Rightarrow> ('v undo_database, bool) run" where
  "storage_remove sid u =
    (if sid = 0 then (Inl (Fc_assert ''id != undo_state_id_type()''), u)
     else if \<not> ud_open u then (Inl (Fc_assert ''undo_storage closed''), u)
     else (Inr True, u\<lparr>ud_disk := std_map_erase sid (ud_disk u)\<rparr>))"

text \<open>Reading a state: every exception, a missing key included, means that there is none.\<close>

definition fetch_optional :: "'v undo_env \<Rightarrow> 'v undo_database \<Rightarrow> undo_state_id_type \<Rightarrow> serializable_undo_state option" where
  "fetch_optional en u sid =
    (if \<not> ud_open u then None
     else case std_map_find (ud_disk u) sid of
       None \<Rightarrow> None
     | Some s \<Rightarrow> (case ue_json_reload en s of Inl e \<Rightarrow> None | Inr s' \<Rightarrow> Some s'))"

definition storage_open :: "'v undo_database \<Rightarrow> 'v undo_database" where
  "storage_open u = u\<lparr>ud_open := True\<rparr>"

definition storage_close :: "'v undo_database \<Rightarrow> 'v undo_database" where
  "storage_close u = u\<lparr>ud_open := False\<rparr>"

section \<open>Sessions\<close>

definition undo_enable :: "'v undo_database \<Rightarrow> 'v undo_database" where
  "undo_enable u = u\<lparr>ud_disabled := False\<rparr>"

definition undo_disable :: "'v undo_database \<Rightarrow> 'v undo_database" where
  "undo_disable u = u\<lparr>ud_disabled := True\<rparr>"

definition undo_size :: "'v undo_database \<Rightarrow> nat" where
  "undo_size u = length (ud_stack u) + length (ud_back u)"

definition set_max_size :: "nat \<Rightarrow> 'v undo_database \<Rightarrow> 'v undo_database" where
  "set_max_size n u = u\<lparr>ud_max_size := n\<rparr>"

text \<open>
  The loop that moves the oldest states in memory to the store until fewer than
  \<open>GRAPHENE_UNDO_BUFF_MAX_SIZE\<close> are left. The loop around it runs at most once.
\<close>

definition spill_front :: "'v undo_env \<Rightarrow> ('v undo_database, unit) run" where
  "spill_front en u =
    run_bind (if length (ud_back u) < ud_max_size u
       then run_bind (store_undo_state en (hd (ud_back u))) (\<lambda>sid. run_update (\<lambda>u. u\<lparr>ud_stack := ud_stack u @ [sid]\<rparr>))
       else run_return ()) (\<lambda>_.
    run_update (\<lambda>u. u\<lparr>ud_back := tl (ud_back u)\<rparr>)) u"

lemma spill_front_back: "spill_front en u = (Inr x, u') \<Longrightarrow> ud_back u' = tl (ud_back u)"
  by (auto simp: spill_front_def run_bind_Inr store_undo_state_def storage_store_def Let_def run_defs split: if_splits)

function spill_loop :: "'v undo_env \<Rightarrow> ('v undo_database, unit) run" where
  "spill_loop en u =
    (if GRAPHENE_UNDO_BUFF_MAX_SIZE \<le> length (ud_back u)
     then case spill_front en u of (Inl e, u') \<Rightarrow> (Inl e, u') | (Inr _, u') \<Rightarrow> spill_loop en u'
     else (Inr (), u))"
  by pat_completeness auto
termination
  by (relation "measure (\<lambda>(en, u). length (ud_back u))")
    (auto dest!: spill_front_back [OF sym] simp: GRAPHENE_UNDO_BUFF_MAX_SIZE_def)

text \<open>The loop that forgets the oldest states until the history is no longer than allowed.\<close>

definition drop_oldest :: "('v undo_database, unit) run" where
  "drop_oldest u =
    (if GRAPHENE_UNDO_BUFF_MAX_SIZE < undo_size u \<and> ud_stack u \<noteq> []
     then run_bind (storage_remove (hd (ud_stack u))) (\<lambda>ok.
          run_bind (run_assert ok ''state_storage->remove(_stack.front())'') (\<lambda>_.
          run_update (\<lambda>u. u\<lparr>ud_stack := tl (ud_stack u)\<rparr>))) u
     else if ud_back u = [] then (Inl (Undefined_behaviour ''pop_front of an empty deque''), u)
     else (Inr (), u\<lparr>ud_back := tl (ud_back u)\<rparr>))"

lemma drop_oldest_size: "drop_oldest u = (Inr x, u') \<Longrightarrow> undo_size u' < undo_size u"
  by (cases "ud_stack u"; cases "ud_back u")
    (auto simp: drop_oldest_def undo_size_def run_bind_Inr storage_remove_def run_defs split: if_splits)

function trim_loop :: "('v undo_database, unit) run" where
  "trim_loop u =
    (if ud_max_size u < undo_size u
     then case drop_oldest u of (Inl e, u') \<Rightarrow> (Inl e, u') | (Inr _, u') \<Rightarrow> trim_loop u'
     else (Inr (), u))"
  by pat_completeness auto
termination
  by (relation "measure undo_size") (auto dest!: drop_oldest_size [OF sym])

record session =
  ses_apply_undo :: bool
  ses_disable_on_exit :: bool

definition start_undo_session :: "'v undo_env \<Rightarrow> bool \<Rightarrow> ('v undo_database, session) run" where
  "start_undo_session en force_enable u =
    (if ud_disabled u \<and> \<not> force_enable then (Inr \<lparr>ses_apply_undo = True, ses_disable_on_exit = False\<rparr>, u)
     else let disable_on_exit = ud_disabled u \<and> force_enable;
              u = (if force_enable then u\<lparr>ud_disabled := False\<rparr> else u);
              u = u\<lparr>ud_back := ud_back u @ [empty_undo_state]\<rparr>
     in run_bind (\<lambda>u. if GRAPHENE_UNDO_BUFF_MAX_SIZE + 10 \<le> length (ud_back u) then spill_loop en u else (Inr (), u)) (\<lambda>_.
        run_bind trim_loop (\<lambda>_.
        run_bind (run_update (\<lambda>u. u\<lparr>ud_active_sessions := ud_active_sessions u + 1\<rparr>)) (\<lambda>_.
        run_return \<lparr>ses_apply_undo = True, ses_disable_on_exit = disable_on_exit\<rparr>))) u)"

text \<open>Loading the youngest stored state again.\<close>

definition load_one :: "'v undo_env \<Rightarrow> ('v undo_database, unit) run" where
  "load_one en u =
    (let u = u\<lparr>ud_back := empty_undo_state # ud_back u\<rparr>
     in case fetch_optional en u (last (ud_stack u)) of
          None \<Rightarrow> (Inl (Fc_assert ''load stack back failed''), u)
        | Some s \<Rightarrow>
            (case undo_state_assign en s of
               (Inl e, state) \<Rightarrow> (Inl e, u\<lparr>ud_back := state # tl (ud_back u)\<rparr>)
             | (Inr _, state) \<Rightarrow>
                 run_bind (storage_remove (last (ud_stack u))) (\<lambda>ok.
                 run_bind (run_assert ok ''remove stack back failed'') (\<lambda>_.
                 run_update (\<lambda>u. u\<lparr>ud_stack := butlast (ud_stack u)\<rparr>))) (u\<lparr>ud_back := state # tl (ud_back u)\<rparr>)))"

lemma load_one_Inr:
  assumes "load_one en u = (Inr x, u')"
  obtains s state where "fetch_optional en u (last (ud_stack u)) = Some s" "undo_state_assign en s = (Inr (), state)"
    "last (ud_stack u) \<noteq> 0" "ud_open u"
    "u' = u\<lparr>ud_back := state # ud_back u, ud_disk := std_map_erase (last (ud_stack u)) (ud_disk u),
       ud_stack := butlast (ud_stack u)\<rparr>"
proof -
  have f: "fetch_optional en (u\<lparr>ud_back := b\<rparr>) k = fetch_optional en u k" for b k
    by (simp add: fetch_optional_def)
  obtain s where s: "fetch_optional en u (last (ud_stack u)) = Some s"
    using assms by (cases "fetch_optional en u (last (ud_stack u))") (simp_all add: load_one_def f)
  obtain r state where a: "undo_state_assign en s = (r, state)" by (cases "undo_state_assign en s")
  then obtain y where r: "r = Inr y" using assms s by (cases r) (simp_all add: load_one_def f)
  have "storage_remove (last (ud_stack u)) (u\<lparr>ud_back := state # ud_back u\<rparr>)
      = (Inr True, u\<lparr>ud_back := state # ud_back u, ud_disk := std_map_erase (last (ud_stack u)) (ud_disk u)\<rparr>) \<and>
      last (ud_stack u) \<noteq> 0 \<and> ud_open u"
    using assms s a r by (simp add: load_one_def f run_bind_Inr storage_remove_def split: if_splits)
  then show ?thesis
    using assms s a r that by (auto simp: load_one_def f run_bind_Inr run_defs)
qed

lemma load_one_stack: "load_one en u = (Inr x, u') \<Longrightarrow> ud_stack u' = butlast (ud_stack u)"
  by (erule load_one_Inr) simp

function load_loop :: "'v undo_env \<Rightarrow> ('v undo_database, unit) run" where
  "load_loop en u =
    (if ud_stack u \<noteq> [] \<and> length (ud_back u) < GRAPHENE_UNDO_BUFF_MAX_SIZE
     then case load_one en u of (Inl e, u') \<Rightarrow> (Inl e, u') | (Inr _, u') \<Rightarrow> load_loop en u'
     else (Inr (), u))"
  by pat_completeness auto
termination
  by (relation "measure (\<lambda>(en, u). length (ud_stack u))") (auto dest!: load_one_stack [OF sym])

definition refill_back :: "'v undo_env \<Rightarrow> ('v undo_database, unit) run" where
  "refill_back en u = (if ud_stack u \<noteq> [] \<and> length (ud_back u) \<le> 5 then load_loop en u else (Inr (), u))"

section \<open>Undo\<close>

text \<open>
  Restoring one state: old values come back, new objects go, the id counters are reset and removed
  objects are inserted again, in this order.
\<close>

definition restore_state :: "'v undo_state \<Rightarrow> ('v object_database, unit) run" where
  "restore_state state =
    run_bind (run_for (\<lambda>item db. run_bind (run_result (db_get_object db (obj_id (snd item))))
       (\<lambda>obj. db_modify obj (\<lambda>_. snd item)) db) (old_values state)) (\<lambda>_.
    run_bind (run_for (\<lambda>oid db. run_bind (run_result (db_get_object db oid)) db_remove db) (new_ids state)) (\<lambda>_.
    run_bind (run_for (\<lambda>item. set_next_id (id_space (fst item)) (id_type (fst item)) (snd item))
       (old_index_next_ids state)) (\<lambda>_.
    run_for (\<lambda>item. db_insert (snd item)) (removed state))))"

definition pop_back :: "'v undo_database \<Rightarrow> 'v undo_database" where
  "pop_back u = u\<lparr>ud_back := butlast (ud_back u)\<rparr>"

definition undo :: "'v undo_env \<Rightarrow> ('v object_database, unit) run" where
  "undo en db =
    (if ud_disabled (db_undo db) then (Inl (Fc_assert ''!_disabled''), db)
     else if ud_back (db_undo db) = [] then (Inl (Fc_assert ''back.size()>0''), db)
     else if ud_active_sessions (db_undo db) = 0 then (Inl (Fc_assert ''_active_sessions > 0''), db)
     else let state = last (ud_back (db_undo db))
     in run_bind (with_undo (run_update undo_disable)) (\<lambda>_.
        run_bind (restore_state state) (\<lambda>_.
        run_bind (with_undo (run_update pop_back)) (\<lambda>_.
        run_bind (with_undo (refill_back en)) (\<lambda>_.
        run_bind (with_undo (run_update undo_enable)) (\<lambda>_.
        with_undo (run_update (\<lambda>u. u\<lparr>ud_active_sessions := ud_active_sessions u - 1\<rparr>))))))) db)"

section \<open>Merge\<close>

definition merge_upd :: "'v object \<Rightarrow> 'v undo_state \<Rightarrow> 'v undo_state" where
  "merge_upd obj prev_state =
    (if obj_id obj \<in> set (new_ids prev_state) then prev_state
     else if std_map_find (old_values prev_state) (obj_id obj) \<noteq> None then prev_state
     else prev_state\<lparr>old_values := std_map_set (obj_id obj) obj (old_values prev_state)\<rparr>)"

definition merge_new :: "object_id_type \<Rightarrow> 'v undo_state \<Rightarrow> 'v undo_state" where
  "merge_new oid prev_state = prev_state\<lparr>new_ids := std_set_insert oid (new_ids prev_state)\<rparr>"

definition merge_next_id :: "object_id_type \<times> object_id_type \<Rightarrow> 'v undo_state \<Rightarrow> 'v undo_state" where
  "merge_next_id item prev_state =
    (if std_map_find (old_index_next_ids prev_state) (fst item) = None
     then prev_state\<lparr>old_index_next_ids := std_map_set (fst item) (snd item) (old_index_next_ids prev_state)\<rparr>
     else prev_state)"

definition merge_del :: "'v object \<Rightarrow> 'v undo_state \<Rightarrow> 'v undo_state" where
  "merge_del obj prev_state =
    (if obj_id obj \<in> set (new_ids prev_state)
     then prev_state\<lparr>new_ids := std_set_erase (obj_id obj) (new_ids prev_state)\<rparr>
     else case std_map_find (old_values prev_state) (obj_id obj) of
       Some old \<Rightarrow> prev_state\<lparr>removed := std_map_set (obj_id obj) old (removed prev_state),
           old_values := std_map_erase (obj_id obj) (old_values prev_state)\<rparr>
     | None \<Rightarrow> prev_state\<lparr>removed := std_map_set (obj_id obj) obj (removed prev_state)\<rparr>)"

definition merge_states :: "'v undo_state \<Rightarrow> 'v undo_state \<Rightarrow> 'v undo_state" where
  "merge_states prev_state state =
    (let prev_state = fold (\<lambda>item. merge_upd (snd item)) (old_values state) prev_state;
         prev_state = fold merge_new (new_ids state) prev_state;
         prev_state = fold merge_next_id (old_index_next_ids state) prev_state
     in fold (\<lambda>item. merge_del (snd item)) (removed state) prev_state)"

definition undo_merge :: "'v undo_env \<Rightarrow> ('v undo_database, unit) run" where
  "undo_merge en u =
    (if ud_active_sessions u = 0 then (Inl (Fc_assert ''_active_sessions > 0''), u)
     else if length (ud_back u) < 2 then (Inl (Fc_assert ''back.size() >=2''), u)
     else let state = last (ud_back u); prev_state = last (butlast (ud_back u))
     in run_bind (run_update (\<lambda>u. u\<lparr>ud_back := butlast (butlast (ud_back u)) @ [merge_states prev_state state]\<rparr>)) (\<lambda>_.
        run_bind (refill_back en) (\<lambda>_.
        run_update (\<lambda>u. u\<lparr>ud_active_sessions := ud_active_sessions u - 1\<rparr>))) u)"

section \<open>Commit\<close>

definition undo_commit :: "('v undo_database, unit) run" where
  "undo_commit u =
    (if ud_disabled u then (Inr (), u)
     else if ud_active_sessions u = 0 then (Inl (Fc_assert ''_active_sessions > 0''), u)
     else (Inr (), u\<lparr>ud_active_sessions := ud_active_sessions u - 1\<rparr>))"

text \<open>Taking back a committed session; the history is enabled again whatever happens.\<close>

definition pop_commit :: "'v undo_env \<Rightarrow> ('v object_database, unit) run" where
  "pop_commit en db =
    (if ud_active_sessions (db_undo db) \<noteq> 0 then (Inl (Fc_assert ''_active_sessions == 0''), db)
     else if ud_back (db_undo db) = [] then (Inl (Fc_assert ''!back.empty()''), db)
     else let state = last (ud_back (db_undo db))
     in case run_bind (with_undo (run_update undo_disable)) (\<lambda>_.
          run_bind (restore_state state) (\<lambda>_.
          run_bind (with_undo (run_update pop_back)) (\<lambda>_. with_undo (refill_back en)))) db of
        (r, db) \<Rightarrow> (r, db\<lparr>db_undo := undo_enable (db_undo db)\<rparr>))"

definition undo_head :: "'v undo_database \<Rightarrow> 'v undo_state result" where
  "undo_head u = (if ud_back u = [] then Inl (Undefined_behaviour ''back of an empty deque'') else Inr (last (ud_back u)))"

section \<open>Session objects\<close>

text \<open>
  A session undoes its changes when it is destroyed, unless it was committed, merged or undone. The
  operations return the session as well, since an exception leaves its flag as it is at that moment.
  The move constructor takes over the duty to undo, but not the wish to disable. A destructor must not
  throw: an exception that leaves it terminates the process.
\<close>

type_synonym 'v session_op = "session \<Rightarrow> 'v object_database \<Rightarrow> unit result \<times> session \<times> 'v object_database"

definition session_commit :: "'v session_op" where
  "session_commit ses db = (case with_undo undo_commit db of (r, db') \<Rightarrow> (r, ses\<lparr>ses_apply_undo := False\<rparr>, db'))"

definition clear_after :: "('v object_database, unit) run \<Rightarrow> 'v session_op" where
  "clear_after f ses db =
    (if \<not> ses_apply_undo ses then (Inr (), ses, db)
     else case f db of (Inl e, db') \<Rightarrow> (Inl e, ses, db') | (Inr _, db') \<Rightarrow> (Inr (), ses\<lparr>ses_apply_undo := False\<rparr>, db'))"

definition session_undo :: "'v undo_env \<Rightarrow> 'v session_op" where
  "session_undo en = clear_after (undo en)"

definition session_merge :: "'v undo_env \<Rightarrow> 'v session_op" where
  "session_merge en = clear_after (with_undo (undo_merge en))"

definition session_move :: "session \<Rightarrow> session \<times> session" where
  "session_move mv = (\<lparr>ses_apply_undo = ses_apply_undo mv, ses_disable_on_exit = False\<rparr>, mv\<lparr>ses_apply_undo := False\<rparr>)"

definition session_assign :: "'v undo_env \<Rightarrow> session \<Rightarrow> session \<Rightarrow> ('v object_database, session \<times> session) run" where
  "session_assign en this mv =
    run_bind (if ses_apply_undo this then undo en else run_return ())
      (\<lambda>_. run_return (this\<lparr>ses_apply_undo := ses_apply_undo mv\<rparr>, mv\<lparr>ses_apply_undo := False\<rparr>))"

definition in_destructor :: "cpp_error \<Rightarrow> cpp_error" where
  "in_destructor e = (if e = Process_exit then e else Terminate_called)"

definition session_destroy :: "'v undo_env \<Rightarrow> session \<Rightarrow> ('v object_database, unit) run" where
  "session_destroy en ses db =
    (case (if ses_apply_undo ses then undo en else run_return ()) db of
       (Inl e, db') \<Rightarrow> (Inl (in_destructor e), db')
     | (Inr _, db') \<Rightarrow>
         (if ses_disable_on_exit ses then with_undo (run_update undo_disable) else run_return ()) db')"

section \<open>Shutdown and restart\<close>

definition save_one :: "'v undo_env \<Rightarrow> 'v undo_state \<Rightarrow> ('v undo_database, unit) run" where
  "save_one en sta = run_bind (store_undo_state en sta) (\<lambda>sid. run_update (\<lambda>u. u\<lparr>ud_stack := ud_stack u @ [sid]\<rparr>))"

definition undo_save_to_file :: "'v undo_env \<Rightarrow> ('v undo_database, unit) run" where
  "undo_save_to_file en u =
    (if \<not> ud_open u then (Inr (), u)
     else run_bind (run_for (save_one en) (ud_back u)) (\<lambda>_.
          run_bind (run_update (\<lambda>u. if ud_stack u \<noteq> [] then u\<lparr>ud_stack_file := Some (ud_stack u)\<rparr> else u)) (\<lambda>_.
          run_update storage_close)) u)"

definition undo_reset :: "'v undo_database \<Rightarrow> 'v undo_database" where
  "undo_reset u = u\<lparr>ud_stack := []\<rparr>"

definition remove_storage :: "'v undo_database \<Rightarrow> 'v undo_database" where
  "remove_storage u = storage_open ((storage_close u)\<lparr>ud_disk := [], ud_stack_file := None\<rparr>)"

definition undo_discard :: "'v undo_database \<Rightarrow> 'v undo_database" where
  "undo_discard u = (if ud_disabled u then u else remove_storage (undo_disable (undo_reset u)))"

text \<open>Every exception while loading becomes \<^verbatim>\<open>deserialize_undo_database_failed\<close>.\<close>

definition undo_from_file :: "'v undo_env \<Rightarrow> ('v undo_database, unit) run" where
  "undo_from_file en u =
    (let u = storage_open (storage_close u)
     in case ud_stack_file u of
          None \<Rightarrow> (Inr (), u)
        | Some out_stack \<Rightarrow>
            let u = u\<lparr>ud_stack := out_stack\<rparr>;
                back_size = min (length out_stack) GRAPHENE_UNDO_BUFF_MAX_SIZE
            in case run_for (\<lambda>_. load_one en) [0..<back_size] u of
                 (Inl e, u) \<Rightarrow> (Inl (if e \<in> {Process_exit, Terminate_called} then e
                     else Fc_assert ''deserialize_undo_database_failed''), u)
               | (Inr _, u) \<Rightarrow> (Inr (), u))"

end
