(* ===== verification/Undo_States.thy ===== *)
theory Undo_States
  imports Undo_Database
begin

text \<open>
  What an undo state means: applied to the present objects and id counters it gives those at the
  start of its session. Noting a change keeps this meaning, and merging two states composes it.
\<close>

section \<open>The meaning of a state\<close>

definition revert_objects :: "'v undo_state \<Rightarrow> (object_id_type \<rightharpoonup> 'v object) \<Rightarrow> (object_id_type \<rightharpoonup> 'v object)" where
  "revert_objects s v = (\<lambda>k. case std_map_find (old_values s) k of
       Some obj \<Rightarrow> Some obj
     | None \<Rightarrow> if k \<in> set (new_ids s) then None
         else (case std_map_find (removed s) k of Some obj \<Rightarrow> Some obj | None \<Rightarrow> v k))"

definition revert_next :: "'v undo_state \<Rightarrow> (object_id_type \<rightharpoonup> object_id_type) \<Rightarrow> (object_id_type \<rightharpoonup> object_id_type)" where
  "revert_next s nx = (\<lambda>k. case std_map_find (old_index_next_ids s) (index_id k) of Some n \<Rightarrow> Some n | None \<Rightarrow> nx k)"

text \<open>The ids in use are below the counter of their kind.\<close>

definition bounded :: "(object_id_type \<Rightarrow> bool) \<Rightarrow> (object_id_type \<rightharpoonup> 'v object) \<Rightarrow> (object_id_type \<rightharpoonup> object_id_type) \<Rightarrow> bool" where
  "bounded rem v nx \<longleftrightarrow> (\<forall>k obj. v k = Some obj \<longrightarrow> rem k \<longrightarrow> (\<exists>n. nx k = Some n \<and> k < n))"

definition state_lists_ok :: "'v undo_state \<Rightarrow> bool" where
  "state_lists_ok s \<longleftrightarrow> std_map_wf (old_values s) \<and> std_map_wf (removed s) \<and>
     std_map_wf (old_index_next_ids s) \<and> distinct (new_ids s)"

definition state_ok ::
    "(object_id_type \<Rightarrow> bool) \<Rightarrow> 'v undo_state \<Rightarrow> (object_id_type \<rightharpoonup> 'v object) \<Rightarrow> (object_id_type \<rightharpoonup> object_id_type) \<Rightarrow> bool" where
  "state_ok rem s v nx \<longleftrightarrow> state_lists_ok s \<and>
     (\<forall>k obj. std_map_find (old_values s) k = Some obj \<longrightarrow> obj_id obj = k \<and> v k \<noteq> None \<and> k \<notin> set (new_ids s)) \<and>
     (\<forall>k \<in> set (new_ids s). v k \<noteq> None \<and> rem k \<and> (\<exists>n. revert_next s nx k = Some n \<and> n \<le> k)) \<and>
     (\<forall>k obj. std_map_find (removed s) k = Some obj \<longrightarrow> obj_id obj = k \<and> v k = None \<and> rem k) \<and>
     (\<forall>k n. std_map_find (old_index_next_ids s) k = Some n \<longrightarrow>
        index_id k = k \<and> index_id n = k \<and> (\<exists>m. nx k = Some m \<and> n \<le> m))"

lemma state_ok_empty: "state_ok rem empty_undo_state v nx"
  by (simp add: state_ok_def state_lists_ok_def empty_undo_state_def std_map_wf_def std_map_find_def)

lemma revert_empty: "revert_objects empty_undo_state v = v" "revert_next empty_undo_state nx = nx"
  by (simp_all add: revert_objects_def revert_next_def empty_undo_state_def std_map_find_def)

lemma state_okD:
  assumes "state_ok rem s v nx"
  shows "std_map_find (old_values s) k = Some obj \<Longrightarrow> obj_id obj = k"
    "std_map_find (old_values s) k = Some obj \<Longrightarrow> v k \<noteq> None"
    "std_map_find (old_values s) k = Some obj \<Longrightarrow> k \<notin> set (new_ids s)"
    "k \<in> set (new_ids s) \<Longrightarrow> v k \<noteq> None"
    "k \<in> set (new_ids s) \<Longrightarrow> rem k"
    "k \<in> set (new_ids s) \<Longrightarrow> \<exists>n. revert_next s nx k = Some n \<and> n \<le> k"
    "std_map_find (removed s) k = Some obj \<Longrightarrow> obj_id obj = k"
    "std_map_find (removed s) k = Some obj \<Longrightarrow> v k = None"
    "std_map_find (removed s) k = Some obj \<Longrightarrow> rem k"
    "std_map_find (old_index_next_ids s) k = Some n \<Longrightarrow> index_id k = k \<and> index_id n = k \<and> (\<exists>m. nx k = Some m \<and> n \<le> m)"
    "state_lists_ok s"
  using assms unfolding state_ok_def by blast+

lemma state_okI:
  assumes "state_lists_ok s"
    "\<And>k obj. std_map_find (old_values s) k = Some obj \<Longrightarrow> obj_id obj = k \<and> v k \<noteq> None \<and> k \<notin> set (new_ids s)"
    "\<And>k. k \<in> set (new_ids s) \<Longrightarrow> v k \<noteq> None \<and> rem k \<and> (\<exists>n. revert_next s nx k = Some n \<and> n \<le> k)"
    "\<And>k obj. std_map_find (removed s) k = Some obj \<Longrightarrow> obj_id obj = k \<and> v k = None \<and> rem k"
    "\<And>k n. std_map_find (old_index_next_ids s) k = Some n \<Longrightarrow>
        index_id k = k \<and> index_id n = k \<and> (\<exists>m. nx k = Some m \<and> n \<le> m)"
  shows "state_ok rem s v nx"
  unfolding state_ok_def using assms by blast

lemma std_set_simps [simp]:
  "set (std_set_insert x xs) = insert x (set xs)" "set (std_set_erase x xs) = set xs - {x}"
  "distinct xs \<Longrightarrow> distinct (std_set_insert x xs)" "distinct xs \<Longrightarrow> distinct (std_set_erase x xs)"
  by (auto simp: std_set_insert_def std_set_erase_def set_insort_key distinct_insort)

lemma revert_next_le:
  assumes "state_ok rem s v nx" "\<And>k. nx k = nx (index_id k)" "nx k = Some m" "revert_next s nx k = Some n"
  shows "n \<le> m"
  using assms state_okD(10) [OF assms(1), of "index_id k"] by (auto simp: revert_next_def split: option.splits)

lemma removed_elsewhere:
  assumes s: "state_ok rem s v nx" and r: "std_map_find (removed s) k \<noteq> None"
  shows "v k = None" "k \<notin> set (new_ids s)" "std_map_find (old_values s) k = None"
proof -
  obtain x where x: "std_map_find (removed s) k = Some x" using r by blast
  then show v: "v k = None" by (rule state_okD(8) [OF s])
  then show "k \<notin> set (new_ids s)" using state_okD(4) [OF s, of k] by blast
  show "std_map_find (old_values s) k = None" using v state_okD(2) [OF s, of k] by (cases "std_map_find (old_values s) k") auto
qed

section \<open>Noting a change\<close>

lemma removed_below:
  assumes "state_ok rem s v nx" "bounded rem (revert_objects s v) (revert_next s nx)"
    "std_map_find (removed s) k = Some obj"
  shows "\<exists>n. revert_next s nx k = Some n \<and> k < n"
proof -
  have "v k = None" "rem k" using state_okD(8,9) [OF assms(1,3)] by simp_all
  then have "revert_objects s v k = Some obj"
    using assms(3) state_okD(2,4) [OF assms(1), of k] by (auto simp: revert_objects_def split: option.splits)
  then show ?thesis using assms(2) \<open>rem k\<close> by (simp add: bounded_def)
qed

lemma note_create_ok:
  fixes s :: "'v undo_state"
  assumes ok: "state_ok rem s v nx" and kinds: "\<And>k. nx k = nx (index_id k)"
    and rb: "bounded rem (revert_objects s v) (revert_next s nx)"
    and new: "v (obj_id obj) = None" "nx (obj_id obj) = Some (obj_id obj)" "rem (obj_id obj)" "obj_id obj < m"
  defines "nx' \<equiv> \<lambda>k. if index_id k = index_id (obj_id obj) then Some m else nx k"
  shows "state_ok rem (note_create obj s) (v(obj_id obj \<mapsto> obj)) nx'"
    "revert_objects (note_create obj s) (v(obj_id obj \<mapsto> obj)) = revert_objects s v"
    "revert_next (note_create obj s) nx' = revert_next s nx"
proof -
  let ?i = "obj_id obj" and ?s = "note_create obj s"
  have fields: "old_values ?s = old_values s" "removed ?s = removed s" "new_ids ?s = std_set_insert ?i (new_ids s)"
      "old_index_next_ids ?s = (if std_map_find (old_index_next_ids s) (index_id ?i) = None
         then std_map_set (index_id ?i) ?i (old_index_next_ids s) else old_index_next_ids s)"
    by (simp_all add: note_create_def Let_def)
  have absent: "std_map_find (old_values s) ?i = None" "?i \<notin> set (new_ids s)"
    using state_okD(2,4) [OF ok, of ?i] new(1) by (auto intro: option.exhaust)
  have gone: "std_map_find (removed s) ?i = None"
  proof (rule ccontr)
    assume "std_map_find (removed s) ?i \<noteq> None"
    then obtain n where "revert_next s nx ?i = Some n" "?i < n" using removed_below [OF ok rb, of ?i] by auto
    then show False using revert_next_le [OF ok kinds new(2)] by fastforce
  qed
  show "revert_objects ?s (v(?i \<mapsto> obj)) = revert_objects s v"
    using absent gone new(1) by (auto simp: revert_objects_def fields fun_eq_iff split: option.splits)
  show next': "revert_next ?s nx' = revert_next s nx"
  proof
    fix k
    show "revert_next ?s nx' k = revert_next s nx k"
    proof (cases "index_id k = index_id ?i")
      case True
      then have "nx k = Some ?i" using kinds [of k] kinds [of ?i] new(2) by simp
      then show ?thesis using True by (auto simp: revert_next_def fields nx'_def std_map.find_put split: option.splits)
    next
      case False
      then show ?thesis by (auto simp: revert_next_def fields nx'_def std_map.find_put split: option.splits)
    qed
  qed
  have "\<exists>n. revert_next s nx ?i = Some n \<and> n \<le> ?i"
    using revert_next_le [OF ok kinds new(2)] new(2) by (auto simp: revert_next_def split: option.splits)
  moreover have "index_id k = k \<and> index_id n = k \<and> (\<exists>m. nx' k = Some m \<and> n \<le> m)"
    if "std_map_find (old_index_next_ids ?s) k = Some n" for k n
  proof (cases "k = index_id ?i \<and> std_map_find (old_index_next_ids s) k = None")
    case True
    then show ?thesis using that new(4) by (auto simp: fields std_map.find_put nx'_def)
  next
    case False
    then have "std_map_find (old_index_next_ids s) k = Some n"
      using that by (auto simp: fields std_map.find_put split: if_splits)
    then have "index_id k = k \<and> index_id n = k \<and> (\<exists>m. nx k = Some m \<and> n \<le> m)" by (rule state_okD(10) [OF ok])
    then show ?thesis using new kinds [of ?i] by (auto simp: nx'_def)
  qed
  moreover have "state_lists_ok ?s"
    using state_okD(11) [OF ok] by (auto simp: state_lists_ok_def fields std_map.wf_put)
  moreover note e = calculation
  show "state_ok rem ?s (v(?i \<mapsto> obj)) nx'"
  proof (rule state_okI [OF e(3)])
    fix k x
    show "obj_id x = k \<and> (v(?i \<mapsto> obj)) k \<noteq> None \<and> k \<notin> set (new_ids ?s)" if "std_map_find (old_values ?s) k = Some x"
    proof -
      have x: "std_map_find (old_values s) k = Some x" using that by (simp add: fields)
      then have "k \<noteq> ?i" using absent(1) by (metis option.distinct(1))
      then show ?thesis using state_okD(1-3) [OF ok x] by (simp add: fields)
    qed
    show "obj_id x = k \<and> (v(?i \<mapsto> obj)) k = None \<and> rem k" if "std_map_find (removed ?s) k = Some x"
      using state_okD(7-9) [OF ok, of k x] that gone by (auto simp: fields)
    show "(v(?i \<mapsto> obj)) k \<noteq> None \<and> rem k \<and> (\<exists>n. revert_next ?s nx' k = Some n \<and> n \<le> k)" if "k \<in> set (new_ids ?s)"
      using state_okD(4-6) [OF ok, of k] that e(1) new(3) by (auto simp: fields next')
  qed (rule e(2))
qed

lemma note_modify_ok:
  assumes ok: "state_ok rem s v nx" and found: "v (obj_id obj) = Some obj"
  shows "state_ok rem (note_modify obj s) (v(obj_id obj \<mapsto> obj')) nx"
    "revert_objects (note_modify obj s) (v(obj_id obj \<mapsto> obj')) = revert_objects s v"
    "revert_next (note_modify obj s) nx = revert_next s nx"
proof -
  let ?i = "obj_id obj" and ?s = "note_modify obj s"
  have fields: "removed ?s = removed s" "new_ids ?s = new_ids s" "old_index_next_ids ?s = old_index_next_ids s"
      "std_map_find (old_values ?s) k = (if k = ?i \<and> ?i \<notin> set (new_ids s) \<and> std_map_find (old_values s) ?i = None
         then Some obj else std_map_find (old_values s) k)" for k
    by (simp_all add: note_modify_def std_map.find_put)
  have gone: "std_map_find (removed s) ?i = None" using state_okD(8) [OF ok, of ?i] found by fastforce
  show "revert_objects ?s (v(?i \<mapsto> obj')) = revert_objects s v"
    using found gone by (auto simp: revert_objects_def fields fun_eq_iff split: option.splits)
  show next': "revert_next ?s nx = revert_next s nx" by (simp add: revert_next_def fields)
  have "state_lists_ok ?s"
    using state_okD(11) [OF ok] by (auto simp: state_lists_ok_def fields note_modify_def std_map.wf_put)
  then show "state_ok rem ?s (v(?i \<mapsto> obj')) nx"
  proof (rule state_okI)
    fix k x
    show "obj_id x = k \<and> (v(?i \<mapsto> obj')) k \<noteq> None \<and> k \<notin> set (new_ids ?s)" if "std_map_find (old_values ?s) k = Some x"
      using state_okD(1-3) [OF ok, of k x] that by (auto simp: fields split: if_splits)
    show "obj_id x = k \<and> (v(?i \<mapsto> obj')) k = None \<and> rem k" if "std_map_find (removed ?s) k = Some x"
      using state_okD(7-9) [OF ok, of k x] that gone by (auto simp: fields)
    show "(v(?i \<mapsto> obj')) k \<noteq> None \<and> rem k \<and> (\<exists>n. revert_next ?s nx k = Some n \<and> n \<le> k)" if "k \<in> set (new_ids ?s)"
      using state_okD(4-6) [OF ok, of k] that by (auto simp: fields next')
    show "index_id k = k \<and> index_id n = k \<and> (\<exists>m. nx k = Some m \<and> n \<le> m)" if "std_map_find (old_index_next_ids ?s) k = Some n" for n
      using state_okD(10) [OF ok, of k n] that by (simp add: fields)
  qed
qed

lemma note_remove_ok:
  assumes ok: "state_ok rem s v nx" and found: "v (obj_id obj) = Some obj" "rem (obj_id obj)"
  shows "state_ok rem (note_remove obj s) (v(obj_id obj := None)) nx"
    "revert_objects (note_remove obj s) (v(obj_id obj := None)) = revert_objects s v"
    "revert_next (note_remove obj s) nx = revert_next s nx"
proof -
  let ?i = "obj_id obj" and ?s = "note_remove obj s"
  have gone: "std_map_find (removed s) ?i = None" using state_okD(8) [OF ok, of ?i] found(1) by fastforce
  have fields: "set (new_ids ?s) = set (new_ids s) - {?i}" "old_index_next_ids ?s = old_index_next_ids s"
      "std_map_find (old_values ?s) k = (if k = ?i \<and> ?i \<notin> set (new_ids s) then None else std_map_find (old_values s) k)"
      "std_map_find (removed ?s) k = (if k = ?i \<and> ?i \<notin> set (new_ids s)
         then Some (case std_map_find (old_values s) ?i of Some old \<Rightarrow> old | None \<Rightarrow> obj) else std_map_find (removed s) k)" for k
    using gone by (auto simp: note_remove_def std_map.find_put std_map.find_erase split: option.splits)
  have old: "std_map_find (old_values s) ?i = None" if "?i \<in> set (new_ids s)"
    using state_okD(3) [OF ok, of ?i] that by (auto intro: option.exhaust)
  show "revert_objects ?s (v(?i := None)) = revert_objects s v"
  proof
    fix k
    show "revert_objects ?s (v(?i := None)) k = revert_objects s v k"
    proof (cases "k = ?i")
      case True
      then show ?thesis
        using found gone old by (cases "?i \<in> set (new_ids s)") (simp_all add: revert_objects_def fields split: option.splits)
    next
      case False
      then show ?thesis by (simp add: revert_objects_def fields cong: option.case_cong)
    qed
  qed
  show next': "revert_next ?s nx = revert_next s nx" by (simp add: revert_next_def fields)
  have "state_lists_ok ?s"
    using state_okD(11) [OF ok]
    by (auto simp: state_lists_ok_def note_remove_def std_map.wf_put std_map.wf_erase split: option.splits)
  moreover have "obj_id (case std_map_find (old_values s) ?i of Some old \<Rightarrow> old | None \<Rightarrow> obj) = ?i"
    using state_okD(1) [OF ok] by (auto split: option.splits)
  moreover note e = calculation
  show "state_ok rem ?s (v(?i := None)) nx"
  proof (rule state_okI [OF e(1)])
    fix k x
    show "obj_id x = k \<and> (v(?i := None)) k \<noteq> None \<and> k \<notin> set (new_ids ?s)" if "std_map_find (old_values ?s) k = Some x"
      using state_okD(1-3) [OF ok, of k x] that old by (auto simp: fields split: if_splits)
    show "obj_id x = k \<and> (v(?i := None)) k = None \<and> rem k" if "std_map_find (removed ?s) k = Some x"
      using state_okD(7-9) [OF ok, of k x] that e(2) found(2) by (auto simp: fields split: if_splits)
    show "(v(?i := None)) k \<noteq> None \<and> rem k \<and> (\<exists>n. revert_next ?s nx k = Some n \<and> n \<le> k)" if "k \<in> set (new_ids ?s)"
      using state_okD(4-6) [OF ok, of k] that by (auto simp: fields next')
    show "index_id k = k \<and> index_id n = k \<and> (\<exists>m. nx k = Some m \<and> n \<le> m)" if "std_map_find (old_index_next_ids ?s) k = Some n" for n
      using state_okD(10) [OF ok, of k n] that by (simp add: fields)
  qed
qed

section \<open>Merging\<close>

definition keyed :: "(object_id_type \<times> 'v object) list \<Rightarrow> bool" where
  "keyed items \<longleftrightarrow> (\<forall>item \<in> set items. obj_id (snd item) = fst item)"

lemma std_map_find_Cons: "std_map_find ((k, x) # m) k' = (if k' = k then Some x else std_map_find m k')"
  by (simp add: std_map_find_def)

lemma std_map_find_notin: "k \<notin> fst ` set m \<Longrightarrow> std_map_find m k = None"
  by (simp add: std_map_find_def map_of_eq_None_iff)

lemma fold_merge_upd:
  assumes "keyed items" "distinct (map fst items)"
  defines "q \<equiv> \<lambda>p. fold (\<lambda>item. merge_upd (snd item)) items p"
  shows "new_ids (q p) = new_ids p" "removed (q p) = removed p" "old_index_next_ids (q p) = old_index_next_ids p"
    "std_map_wf (old_values p) \<Longrightarrow> std_map_wf (old_values (q p))"
    "std_map_find (old_values (q p)) k = (case std_map_find (old_values p) k of Some x \<Rightarrow> Some x
       | None \<Rightarrow> if k \<in> set (new_ids p) then None else std_map_find items k)"
proof -
  have "new_ids (q p) = new_ids p \<and> removed (q p) = removed p \<and> old_index_next_ids (q p) = old_index_next_ids p \<and>
    (std_map_wf (old_values p) \<longrightarrow> std_map_wf (old_values (q p))) \<and>
    std_map_find (old_values (q p)) k = (case std_map_find (old_values p) k of Some x \<Rightarrow> Some x
       | None \<Rightarrow> if k \<in> set (new_ids p) then None else std_map_find items k)"
    using assms(1,2) unfolding q_def
  proof (induction items arbitrary: p)
    case Nil
    then show ?case by (simp add: std_map_find_def split: option.splits)
  next
    case (Cons item items)
    obtain i x where item: "item = (i, x)" "obj_id x = i" using Cons.prems(1) by (cases item) (auto simp: keyed_def)
    have "keyed items" "distinct (map fst items)" "std_map_find items i = None"
      using Cons.prems item std_map_find_notin [of i items] by (auto simp: keyed_def)
    moreover have "new_ids (merge_upd x p) = new_ids p" "removed (merge_upd x p) = removed p"
        "old_index_next_ids (merge_upd x p) = old_index_next_ids p"
        "std_map_wf (old_values p) \<Longrightarrow> std_map_wf (old_values (merge_upd x p))"
        "\<And>k. std_map_find (old_values (merge_upd x p)) k = (if k = i \<and> i \<notin> set (new_ids p) \<and> std_map_find (old_values p) i = None
          then Some x else std_map_find (old_values p) k)"
      using item by (auto simp: merge_upd_def std_map.find_put std_map.wf_put)
    ultimately show ?case
      using Cons.IH [of "merge_upd x p"] item by (auto simp: std_map_find_Cons split: option.splits)
  qed
  then show "new_ids (q p) = new_ids p" "removed (q p) = removed p" "old_index_next_ids (q p) = old_index_next_ids p"
    "std_map_wf (old_values p) \<Longrightarrow> std_map_wf (old_values (q p))"
    "std_map_find (old_values (q p)) k = (case std_map_find (old_values p) k of Some x \<Rightarrow> Some x
       | None \<Rightarrow> if k \<in> set (new_ids p) then None else std_map_find items k)" by simp_all
qed

lemma fold_merge_new:
  "old_values (fold merge_new ids p) = old_values p" "removed (fold merge_new ids p) = removed p"
  "old_index_next_ids (fold merge_new ids p) = old_index_next_ids p"
  "set (new_ids (fold merge_new ids p)) = set ids \<union> set (new_ids p)"
  "distinct (new_ids p) \<Longrightarrow> distinct (new_ids (fold merge_new ids p))"
  by (induction ids arbitrary: p) (simp_all add: merge_new_def)

lemma fold_merge_next_id:
  assumes "distinct (map fst items)"
  defines "q \<equiv> \<lambda>p. fold merge_next_id items p"
  shows "new_ids (q p) = new_ids p" "removed (q p) = removed p" "old_values (q p) = old_values p"
    "std_map_wf (old_index_next_ids p) \<Longrightarrow> std_map_wf (old_index_next_ids (q p))"
    "std_map_find (old_index_next_ids (q p)) k = (case std_map_find (old_index_next_ids p) k of Some x \<Rightarrow> Some x
       | None \<Rightarrow> std_map_find items k)"
proof -
  have "new_ids (q p) = new_ids p \<and> removed (q p) = removed p \<and> old_values (q p) = old_values p \<and>
    (std_map_wf (old_index_next_ids p) \<longrightarrow> std_map_wf (old_index_next_ids (q p))) \<and>
    std_map_find (old_index_next_ids (q p)) k = (case std_map_find (old_index_next_ids p) k of Some x \<Rightarrow> Some x
       | None \<Rightarrow> std_map_find items k)"
    using assms(1) unfolding q_def
  proof (induction items arbitrary: p)
    case Nil
    then show ?case by (simp add: std_map_find_def split: option.splits)
  next
    case (Cons item items)
    obtain i n where item: "item = (i, n)" by (cases item)
    have "distinct (map fst items)" "std_map_find items i = None"
      using Cons.prems item std_map_find_notin [of i items] by auto
    moreover have "new_ids (merge_next_id item p) = new_ids p" "removed (merge_next_id item p) = removed p"
        "old_values (merge_next_id item p) = old_values p"
        "std_map_wf (old_index_next_ids p) \<Longrightarrow> std_map_wf (old_index_next_ids (merge_next_id item p))"
        "\<And>k. std_map_find (old_index_next_ids (merge_next_id item p)) k = (if k = i \<and> std_map_find (old_index_next_ids p) i = None
          then Some n else std_map_find (old_index_next_ids p) k)"
      using item by (auto simp: merge_next_id_def std_map.find_put std_map.wf_put)
    ultimately show ?case
      using Cons.IH [of "merge_next_id item p"] item by (auto simp: std_map_find_Cons split: option.splits)
  qed
  then show "new_ids (q p) = new_ids p" "removed (q p) = removed p" "old_values (q p) = old_values p"
    "std_map_wf (old_index_next_ids p) \<Longrightarrow> std_map_wf (old_index_next_ids (q p))"
    "std_map_find (old_index_next_ids (q p)) k = (case std_map_find (old_index_next_ids p) k of Some x \<Rightarrow> Some x
       | None \<Rightarrow> std_map_find items k)" by simp_all
qed

lemma merge_del_fields:
  "old_index_next_ids (merge_del x p) = old_index_next_ids p"
  "set (new_ids (merge_del x p)) = set (new_ids p) - {obj_id x}"
  "std_map_find (old_values (merge_del x p)) k
     = (if k = obj_id x \<and> k \<notin> set (new_ids p) then None else std_map_find (old_values p) k)"
  "std_map_find (removed (merge_del x p)) k = (if k = obj_id x \<and> k \<notin> set (new_ids p)
     then (case std_map_find (old_values p) k of Some y \<Rightarrow> Some y | None \<Rightarrow> Some x) else std_map_find (removed p) k)"
  "state_lists_ok p \<Longrightarrow> state_lists_ok (merge_del x p)"
  by (auto simp: merge_del_def state_lists_ok_def std_map.find_put std_map.find_erase std_map.wf_put std_map.wf_erase
      split: option.splits)

lemma fold_merge_del:
  assumes "keyed items" "distinct (map fst items)"
  defines "q \<equiv> \<lambda>p. fold (\<lambda>item. merge_del (snd item)) items p"
  shows "old_index_next_ids (q p) = old_index_next_ids p" "state_lists_ok p \<Longrightarrow> state_lists_ok (q p)"
    "k \<in> set (new_ids (q p)) \<longleftrightarrow> k \<in> set (new_ids p) \<and> std_map_find items k = None"
    "std_map_find (old_values (q p)) k
       = (if std_map_find items k \<noteq> None \<and> k \<notin> set (new_ids p) then None else std_map_find (old_values p) k)"
    "std_map_find (removed (q p)) k = (if std_map_find items k \<noteq> None \<and> k \<notin> set (new_ids p)
       then (case std_map_find (old_values p) k of Some y \<Rightarrow> Some y | None \<Rightarrow> std_map_find items k)
       else std_map_find (removed p) k)"
proof -
  have "old_index_next_ids (q p) = old_index_next_ids p \<and> (state_lists_ok p \<longrightarrow> state_lists_ok (q p)) \<and>
    (k \<in> set (new_ids (q p)) \<longleftrightarrow> k \<in> set (new_ids p) \<and> std_map_find items k = None) \<and>
    std_map_find (old_values (q p)) k
       = (if std_map_find items k \<noteq> None \<and> k \<notin> set (new_ids p) then None else std_map_find (old_values p) k) \<and>
    std_map_find (removed (q p)) k = (if std_map_find items k \<noteq> None \<and> k \<notin> set (new_ids p)
       then (case std_map_find (old_values p) k of Some y \<Rightarrow> Some y | None \<Rightarrow> std_map_find items k)
       else std_map_find (removed p) k)"
    using assms(1,2) unfolding q_def
  proof (induction items arbitrary: p)
    case Nil
    then show ?case by (simp add: std_map_find_def)
  next
    case (Cons item items)
    obtain i x where item: "item = (i, x)" "obj_id x = i" using Cons.prems(1) by (cases item) (auto simp: keyed_def)
    have *: "keyed items" "distinct (map fst items)" "std_map_find items i = None"
      using Cons.prems item std_map_find_notin [of i items] by (auto simp: keyed_def)
    note IH = Cons.IH [OF *(1,2), of "merge_del x p"]
    show ?case
    proof (cases "k = i")
      case True
      then show ?thesis using IH item *(3)
        by (simp add: std_map_find_Cons merge_del_fields split: option.splits)
    next
      case False
      then show ?thesis using IH item by (simp add: std_map_find_Cons merge_del_fields cong: option.case_cong)
    qed
  qed
  then show "old_index_next_ids (q p) = old_index_next_ids p" "state_lists_ok p \<Longrightarrow> state_lists_ok (q p)"
    "k \<in> set (new_ids (q p)) \<longleftrightarrow> k \<in> set (new_ids p) \<and> std_map_find items k = None"
    "std_map_find (old_values (q p)) k
       = (if std_map_find items k \<noteq> None \<and> k \<notin> set (new_ids p) then None else std_map_find (old_values p) k)"
    "std_map_find (removed (q p)) k = (if std_map_find items k \<noteq> None \<and> k \<notin> set (new_ids p)
       then (case std_map_find (old_values p) k of Some y \<Rightarrow> Some y | None \<Rightarrow> std_map_find items k)
       else std_map_find (removed p) k)" by simp_all
qed

lemma std_map_wf_distinct: "std_map_wf m \<Longrightarrow> distinct (map fst m)"
  by (simp add: std_map_wf_def strict_sorted_iff)

lemma std_map_find_iff: "std_map_wf m \<Longrightarrow> std_map_find m k = Some x \<longleftrightarrow> (k, x) \<in> set m"
  by (simp add: std_map_find_def std_map_wf_distinct)

lemma state_ok_keyed:
  assumes "state_ok rem s v nx"
  shows "keyed (old_values s)" "keyed (removed s)" "distinct (map fst (old_values s))" "distinct (map fst (removed s))"
    "distinct (map fst (old_index_next_ids s))"
proof -
  have wf: "std_map_wf (old_values s)" "std_map_wf (removed s)" "std_map_wf (old_index_next_ids s)"
    using state_okD(11) [OF assms] by (simp_all add: state_lists_ok_def)
  then show "distinct (map fst (old_values s))" "distinct (map fst (removed s))" "distinct (map fst (old_index_next_ids s))"
    by (simp_all add: std_map_wf_distinct)
  show "keyed (old_values s)" "keyed (removed s)"
    using state_okD(1,7) [OF assms] by (auto simp: keyed_def std_map_find_iff [OF wf(1)] std_map_find_iff [OF wf(2)])
qed

text \<open>The merged state, entry by entry: the table of the comment in \<^verbatim>\<open>undo_database::merge\<close>.\<close>

lemma merge_fields:
  assumes p: "state_lists_ok p" and s: "state_ok rem s v nx"
  defines "m \<equiv> merge_states p s"
  shows "state_lists_ok m"
    "std_map_find (old_index_next_ids m) k
       = (case std_map_find (old_index_next_ids p) k of Some n \<Rightarrow> Some n | None \<Rightarrow> std_map_find (old_index_next_ids s) k)"
    "k \<in> set (new_ids m) \<longleftrightarrow> (k \<in> set (new_ids p) \<or> k \<in> set (new_ids s)) \<and> std_map_find (removed s) k = None"
    "std_map_find (old_values m) k = (if std_map_find (removed s) k \<noteq> None \<and> k \<notin> set (new_ids p) then None
       else case std_map_find (old_values p) k of Some x \<Rightarrow> Some x
         | None \<Rightarrow> if k \<in> set (new_ids p) then None else std_map_find (old_values s) k)"
    "std_map_find (removed m) k = (if std_map_find (removed s) k \<noteq> None \<and> k \<notin> set (new_ids p)
       then (case std_map_find (old_values p) k of Some x \<Rightarrow> Some x | None \<Rightarrow> std_map_find (removed s) k)
       else std_map_find (removed p) k)"
proof -
  note ks = state_ok_keyed [OF s]
  define p1 where "p1 = fold (\<lambda>item. merge_upd (snd item)) (old_values s) p"
  define p2 where "p2 = fold merge_new (new_ids s) p1"
  define p3 where "p3 = fold merge_next_id (old_index_next_ids s) p2"
  have m: "m = fold (\<lambda>item. merge_del (snd item)) (removed s) p3"
    by (simp add: m_def merge_states_def p1_def p2_def p3_def Let_def)
  note f1 = fold_merge_upd [OF ks(1,3), where p = p, folded p1_def]
  note f2 = fold_merge_new [where ids = "new_ids s" and p = p1, folded p2_def]
  note f3 = fold_merge_next_id [OF ks(5), where p = p2, folded p3_def]
  note f4 = fold_merge_del [OF ks(2,4), where p = p3, folded m]
  have l3: "state_lists_ok p3" using p f1 f2 f3 by (simp add: state_lists_ok_def)
  then show "state_lists_ok m" by (rule f4(2))
  have new3: "k \<in> set (new_ids p3) \<longleftrightarrow> k \<in> set (new_ids p) \<or> k \<in> set (new_ids s)" for k
    using f1(1) f2(4) f3(1) by auto
  have rs: "k \<notin> set (new_ids s)" "std_map_find (old_values s) k = None" if r: "std_map_find (removed s) k \<noteq> None" for k
    using removed_elsewhere [OF s r] by simp_all
  show "std_map_find (old_index_next_ids m) k
       = (case std_map_find (old_index_next_ids p) k of Some n \<Rightarrow> Some n | None \<Rightarrow> std_map_find (old_index_next_ids s) k)"
    using f1(3) f2(3) f3(5) f4(1) by simp
  show "k \<in> set (new_ids m) \<longleftrightarrow> (k \<in> set (new_ids p) \<or> k \<in> set (new_ids s)) \<and> std_map_find (removed s) k = None"
    using f4(3) new3 by simp
  have old3: "std_map_find (old_values p3) k = (case std_map_find (old_values p) k of Some x \<Rightarrow> Some x
         | None \<Rightarrow> if k \<in> set (new_ids p) then None else std_map_find (old_values s) k)" for k
    using f1(5) f2(1) f3(3) by simp
  show "std_map_find (old_values m) k = (if std_map_find (removed s) k \<noteq> None \<and> k \<notin> set (new_ids p) then None
       else case std_map_find (old_values p) k of Some x \<Rightarrow> Some x
         | None \<Rightarrow> if k \<in> set (new_ids p) then None else std_map_find (old_values s) k)"
    unfolding f4(4) new3 old3 using rs [of k] by auto
  have rem3: "std_map_find (removed p3) k = std_map_find (removed p) k" using f1(2) f2(2) f3(2) by simp
  show "std_map_find (removed m) k = (if std_map_find (removed s) k \<noteq> None \<and> k \<notin> set (new_ids p)
       then (case std_map_find (old_values p) k of Some x \<Rightarrow> Some x | None \<Rightarrow> std_map_find (removed s) k)
       else std_map_find (removed p) k)"
    unfolding f4(5) new3 old3 rem3 using rs [of k] by (auto split: option.splits)
qed

lemma merge_disjoint:
  assumes s: "state_ok rem s v nx" and p: "state_ok rem p (revert_objects s v) (revert_next s nx)"
    and kinds: "\<And>k. nx k = nx (index_id k)"
    and b: "bounded rem (revert_objects p (revert_objects s v)) (revert_next p (revert_next s nx))"
    and k: "k \<in> set (new_ids s)"
  shows "std_map_find (old_values p) k = None" "k \<notin> set (new_ids p)" "std_map_find (removed p) k = None"
    "std_map_find (old_values s) k = None" "std_map_find (removed s) k = None" "v k \<noteq> None"
proof -
  show olds: "std_map_find (old_values s) k = None" "v k \<noteq> None" "std_map_find (removed s) k = None"
    using state_okD(3,4,8) [OF s, of k] k by (auto intro: option.exhaust)
  then have "revert_objects s v k = None" using k by (simp add: revert_objects_def)
  then show "std_map_find (old_values p) k = None" "k \<notin> set (new_ids p)"
    using state_okD(2,4) [OF p, of k] by (auto intro: option.exhaust)
  show "std_map_find (removed p) k = None"
  proof (rule ccontr)
    assume "std_map_find (removed p) k \<noteq> None"
    then obtain n where n: "revert_next p (revert_next s nx) k = Some n" "k < n" using removed_below [OF p b] by blast
    obtain m where m: "revert_next s nx k = Some m" "m \<le> k" using state_okD(6) [OF s k] by blast
    have "revert_next s nx j = revert_next s nx (index_id j)" for j using kinds [of j] by (simp add: revert_next_def split: option.split)
    then have "n \<le> m" by (rule revert_next_le [OF p _ m(1) n(1)])
    then show False using n(2) m(2) by simp
  qed
qed

lemma merge_ok:
  assumes s: "state_ok rem s v nx" and p: "state_ok rem p (revert_objects s v) (revert_next s nx)"
    and kinds: "\<And>k. nx k = nx (index_id k)"
    and b: "bounded rem (revert_objects p (revert_objects s v)) (revert_next p (revert_next s nx))"
  shows "state_ok rem (merge_states p s) v nx"
    "revert_objects (merge_states p s) v = revert_objects p (revert_objects s v)"
    "revert_next (merge_states p s) nx = revert_next p (revert_next s nx)"
proof -
  let ?m = "merge_states p s"
  note f = merge_fields [OF state_okD(11) [OF p] s]
  note d = merge_disjoint [OF s p kinds b]
  have gone: "v k = None \<and> k \<notin> set (new_ids s) \<and> std_map_find (old_values s) k = None \<and> revert_objects s v k \<noteq> None"
    if r: "std_map_find (removed s) k \<noteq> None" for k
  proof -
    obtain x where "std_map_find (removed s) k = Some x" using r by blast
    then show ?thesis using removed_elsewhere [OF s r] by (simp add: revert_objects_def)
  qed
  show rn: "revert_next ?m nx = revert_next p (revert_next s nx)"
    by (auto simp: revert_next_def f(2) fun_eq_iff split: option.splits)
  show "revert_objects ?m v = revert_objects p (revert_objects s v)"
  proof
    fix k
    show "revert_objects ?m v k = revert_objects p (revert_objects s v) k"
    proof (cases "k \<in> set (new_ids s)")
      case True
      then show ?thesis using d [OF True] by (simp add: revert_objects_def f)
    next
      case new: False
      have np: "std_map_find (removed p) k = None"
        if "std_map_find (removed s) k \<noteq> None \<or> std_map_find (old_values s) k \<noteq> None"
        using state_okD(8) [OF p, of k] gone [of k] that
        by (cases "std_map_find (removed p) k") (auto simp: revert_objects_def split: option.splits)
      show ?thesis
        using new np gone [of k] state_okD(3) [OF p, of k]
        by (cases "std_map_find (removed s) k"; cases "k \<in> set (new_ids p)"; cases "std_map_find (old_values p) k")
          (auto simp: revert_objects_def f split: option.splits)
    qed
  qed
  show "state_ok rem ?m v nx"
  proof (rule state_okI [OF f(1)])
    fix k x
    have present: "v k \<noteq> None" if "revert_objects s v k \<noteq> None" "std_map_find (removed s) k = None"
      using that state_okD(2,4) [OF s, of k] by (auto simp: revert_objects_def split: option.splits if_splits)
    show "obj_id x = k \<and> v k \<noteq> None \<and> k \<notin> set (new_ids ?m)" if "std_map_find (old_values ?m) k = Some x"
    proof (cases "std_map_find (old_values p) k")
      case (Some y)
      then show ?thesis
        using that state_okD(1-3) [OF p Some] present d(1) [of k] by (auto simp: f split: if_splits)
    next
      case None
      then show ?thesis using that state_okD(1-3) [OF s, of k x] d(1) [of k] by (auto simp: f split: if_splits)
    qed
    show "obj_id x = k \<and> v k = None \<and> rem k" if "std_map_find (removed ?m) k = Some x"
    proof (cases "std_map_find (removed s) k \<noteq> None \<and> k \<notin> set (new_ids p)")
      case True
      then obtain z where z: "std_map_find (removed s) k = Some z" by blast
      then show ?thesis
        using True that state_okD(7-9) [OF s z] state_okD(1) [OF p, of k x] by (auto simp: f split: option.splits)
    next
      case False
      then have r: "std_map_find (removed p) k = Some x" using that by (auto simp: f)
      have "revert_objects s v k = None" "obj_id x = k" "rem k" using state_okD(7-9) [OF p r] by simp_all
      then show ?thesis
        using d(3) [of k] r state_okD(4) [OF p, of k] by (auto simp: revert_objects_def split: option.splits if_splits)
    qed
    show "v k \<noteq> None \<and> rem k \<and> (\<exists>n. revert_next ?m nx k = Some n \<and> n \<le> k)" if k: "k \<in> set (new_ids ?m)"
    proof (cases "k \<in> set (new_ids p)")
      case True
      then show ?thesis using k state_okD(4-6) [OF p True] present by (auto simp: f rn)
    next
      case False
      then have ks: "k \<in> set (new_ids s)" using k by (simp add: f)
      obtain m where m: "revert_next s nx k = Some m" "m \<le> k" using state_okD(6) [OF s ks] by blast
      have "revert_next s nx j = revert_next s nx (index_id j)" for j using kinds [of j] by (simp add: revert_next_def split: option.split)
      then have "\<exists>n. revert_next p (revert_next s nx) k = Some n \<and> n \<le> m"
        using revert_next_le [OF p _ m(1)] m(1) by (auto simp: revert_next_def split: option.splits)
      then show ?thesis using state_okD(4,5) [OF s ks] m(2) unfolding rn by fastforce
    qed
    show "index_id k = k \<and> index_id n = k \<and> (\<exists>m. nx k = Some m \<and> n \<le> m)" if "std_map_find (old_index_next_ids ?m) k = Some n" for n
    proof (cases "std_map_find (old_index_next_ids p) k")
      case (Some n')
      then have n: "n' = n" using that by (simp add: f)
      obtain m where m: "index_id k = k" "index_id n = k" "revert_next s nx k = Some m" "n \<le> m"
        using state_okD(10) [OF p Some] n by blast
      then show ?thesis using state_okD(10) [OF s, of k] by (fastforce simp: revert_next_def split: option.splits)
    next
      case None
      then show ?thesis using that state_okD(10) [OF s, of k n] by (simp add: f)
    qed
  qed
qed

end
