(* ===== verification/Undo_Objects.thy ===== *)
theory Undo_Objects
  imports Undo_States
begin

text \<open>
  What the operations of the object database do to the objects and to the id counters, for
  databases whose indices satisfy the laws of an object index, and what restoring a state does.
\<close>

section \<open>The objects of a database\<close>

definition view :: "'v object_database \<Rightarrow> object_id_type \<Rightarrow> 'v object option" where
  "view db oid = (case get_index db (id_space oid) (id_type oid) of Inr idx \<Rightarrow> di_find (pi_derived idx) oid | Inl _ \<Rightarrow> None)"

definition next_ids :: "'v object_database \<Rightarrow> object_id_type \<Rightarrow> object_id_type option" where
  "next_ids db k = (case get_index db (id_space k) (id_type k) of Inr idx \<Rightarrow> Some (pi_next_id idx) | Inl _ \<Rightarrow> None)"

definition removable :: "'v object_database \<Rightarrow> object_id_type \<Rightarrow> bool" where
  "removable db k = (case get_index db (id_space k) (id_type k) of Inr idx \<Rightarrow> \<not> is_flat (pi_derived idx) | Inl _ \<Rightarrow> False)"

definition db_wf :: "'v object_database \<Rightarrow> bool" where
  "db_wf db \<longleftrightarrow> (\<forall>k idx. get_index db (id_space k) (id_type k) = Inr idx \<longrightarrow>
     di_wf (index_id k) (pi_derived idx) \<and> index_id (pi_next_id idx) = index_id k)"

lemma next_ids_kind: "next_ids db k = next_ids db (index_id k)"
  by (simp add: next_ids_def)

lemma view_get_object: "view db oid = Some obj \<longleftrightarrow> db_get_object db oid = Inr obj"
  by (auto simp: view_def db_get_object_def find_object_def ebind_def split: sum.splits option.splits)

lemma get_index_undo [simp]: "get_index (db\<lparr>db_undo := u\<rparr>) s t = get_index db s t"
  by (simp add: get_index_def)

lemma view_undo [simp]:
  "view (db\<lparr>db_undo := u\<rparr>) = view db" "next_ids (db\<lparr>db_undo := u\<rparr>) = next_ids db"
  "removable (db\<lparr>db_undo := u\<rparr>) = removable db" "db_wf (db\<lparr>db_undo := u\<rparr>) = db_wf db"
  by (simp_all add: view_def next_ids_def removable_def db_wf_def fun_eq_iff)

lemma db_undo_set_index [simp]: "db_undo (set_index s t idx db) = db_undo db"
  by (simp add: set_index_def)

lemma get_set_index:
  assumes "get_index db s t = Inr idx0"
  shows "get_index (set_index s t idx db) s' t' = (if s' = s \<and> t' = t then Inr idx else get_index db s' t')"
proof -
  have "unat s < length (db_index db)" "unat t < length (db_index db ! unat s)"
    using assms by (auto simp: get_index_def split: if_splits)
  then show ?thesis
    by (auto simp: get_index_def set_index_def nth_list_update word_unat_eq_iff split: option.splits)
qed

lemma put_index:
  assumes "get_index db (id_space k) (id_type k) = Inr idx0"
  defines "db' \<equiv> \<lambda>idx. set_index (id_space k) (id_type k) idx db"
  shows "view (db' idx) oid = (if index_id oid = index_id k then di_find (pi_derived idx) oid else view db oid)"
    "next_ids (db' idx) j = (if index_id j = index_id k then Some (pi_next_id idx) else next_ids db j)"
    "removable (db' idx) j = (if index_id j = index_id k then \<not> is_flat (pi_derived idx) else removable db j)"
    "db_wf db \<Longrightarrow> di_wf (index_id k) (pi_derived idx) \<Longrightarrow> index_id (pi_next_id idx) = index_id k \<Longrightarrow> db_wf (db' idx)"
proof -
  note g = get_set_index [OF assms(1)]
  show "view (db' idx) oid = (if index_id oid = index_id k then di_find (pi_derived idx) oid else view db oid)"
    "next_ids (db' idx) j = (if index_id j = index_id k then Some (pi_next_id idx) else next_ids db j)"
    "removable (db' idx) j = (if index_id j = index_id k then \<not> is_flat (pi_derived idx) else removable db j)"
    by (simp_all add: db'_def view_def next_ids_def removable_def g index_id_kind)
  assume "db_wf db" "di_wf (index_id k) (pi_derived idx)" "index_id (pi_next_id idx) = index_id k"
  then show "db_wf (db' idx)"
    unfolding db_wf_def db'_def g by (metis index_id_kind sum.inject(2))
qed

lemma view_index:
  assumes "db_wf db" "get_index db (id_space k) (id_type k) = Inr idx"
  shows "di_wf (index_id k) (pi_derived idx)" "index_id (pi_next_id idx) = index_id k"
    "index_id oid = index_id k \<Longrightarrow> view db oid = di_find (pi_derived idx) oid"
    "index_id oid = index_id k \<Longrightarrow> next_ids db oid = Some (pi_next_id idx)"
    "index_id oid = index_id k \<Longrightarrow> removable db oid \<longleftrightarrow> \<not> is_flat (pi_derived idx)"
  using assms by (auto simp: db_wf_def view_def next_ids_def removable_def index_id_kind)

lemma view_id: "db_wf db \<Longrightarrow> view db oid = Some obj \<Longrightarrow> obj_id obj = oid"
  using di.find_id [of "index_id oid" _ oid obj] by (fastforce simp: view_def db_wf_def split: sum.splits)

section \<open>Operations\<close>

text \<open>The rest of the database after an operation on one kind.\<close>

definition same_kinds :: "'v object_database \<Rightarrow> 'v object_database \<Rightarrow> bool" where
  "same_kinds db db' \<longleftrightarrow> db_wf db' \<and> removable db' = removable db"

lemma put_kind:
  fixes u :: "'v undo_database"
  assumes wf: "db_wf db" and g: "get_index db (id_space k) (id_type k) = Inr idx"
    and d: "di_wf (index_id k) d" "index_id n = index_id k" "is_flat d = is_flat (pi_derived idx)"
      "\<forall>a. index_id a = index_id k \<longrightarrow> di_find d a = (if a = k then x else di_find (pi_derived idx) a)"
  defines "db' \<equiv> set_index (id_space k) (id_type k) \<lparr>pi_derived = d, pi_next_id = n\<rparr> (db\<lparr>db_undo := u\<rparr>)"
  shows "same_kinds db db'" "view db' = (view db)(k := x)"
    "next_ids db' = (\<lambda>j. if index_id j = index_id k then Some n else next_ids db j)" "db_undo db' = u"
proof -
  note vi = view_index [OF wf g]
  have g': "get_index (db\<lparr>db_undo := u\<rparr>) (id_space k) (id_type k) = Inr idx" using g by simp
  note p = put_index [OF g', folded db'_def]
  show "same_kinds db db'"
    using put_index(4) [OF g', of "\<lparr>pi_derived = d, pi_next_id = n\<rparr>"] wf d(1-3) vi(5)
    by (auto simp: same_kinds_def db'_def put_index(3) [OF g'] fun_eq_iff)
  show "view db' = (view db)(k := x)"
    using d(4) vi(3) by (auto simp: db'_def put_index(1) [OF g'] fun_eq_iff)
  show "next_ids db' = (\<lambda>j. if index_id j = index_id k then Some n else next_ids db j)"
    by (auto simp: db'_def put_index(2) [OF g'] fun_eq_iff)
  show "db_undo db' = u" by (simp add: db'_def)
qed

lemma view_found:
  assumes "db_wf db" "view db k = Some obj"
  obtains idx where "get_index db (id_space k) (id_type k) = Inr idx" "di_find (pi_derived idx) k = Some obj"
    "di_wf (index_id k) (pi_derived idx)" "index_id (pi_next_id idx) = index_id k"
    "next_ids db = (\<lambda>j. if index_id j = index_id k then Some (pi_next_id idx) else next_ids db j)"
proof -
  obtain idx where g: "get_index db (id_space k) (id_type k) = Inr idx"
    using assms(2) by (auto simp: view_def split: sum.splits)
  then show ?thesis
    using assms(2) view_index [OF assms(1) g] by (intro that) (auto simp: fun_eq_iff)
qed

lemma db_modify_ok:
  assumes wf: "db_wf db" and v: "view db (obj_id obj) = Some obj" and m: "obj_id (m obj) = obj_id obj"
    and u: "on_modify obj (db_undo db) = (Inr (), u)"
  shows "\<exists>db'. db_modify obj m db = (Inr (), db') \<and> same_kinds db db' \<and> view db' = (view db)(obj_id obj \<mapsto> m obj) \<and>
    next_ids db' = next_ids db \<and> db_undo db' = u"
proof -
  let ?k = "obj_id obj"
  obtain idx where i: "get_index db (id_space ?k) (id_type ?k) = Inr idx" "di_find (pi_derived idx) ?k = Some obj"
      "di_wf (index_id ?k) (pi_derived idx)" "index_id (pi_next_id idx) = index_id ?k"
      "next_ids db = (\<lambda>j. if index_id j = index_id ?k then Some (pi_next_id idx) else next_ids db j)"
    by (rule view_found [OF wf v])
  obtain d where d: "di_modify ?k m (pi_derived idx) = (Inr (), d)" "di_wf (index_id ?k) d"
      "\<forall>a. index_id a = index_id ?k \<longrightarrow> di_find d a = (if a = ?k then Some (m obj) else di_find (pi_derived idx) a)"
    using di.modify_found [of "index_id ?k" "pi_derived idx" ?k obj m] i(2,3) m by auto
  have flat: "is_flat d = is_flat (pi_derived idx)" using di_modify_flat [of ?k m "pi_derived idx"] d(1) by simp
  have "db_modify obj m db = (Inr (), set_index (id_space ?k) (id_type ?k) (idx\<lparr>pi_derived := d\<rparr>) (db\<lparr>db_undo := u\<rparr>))"
    using i(1) u d(1) by (simp add: db_modify_def run_bind_def run_defs with_undo_def)
  then show ?thesis
    using put_kind [OF wf i(1) d(2) i(4) flat d(3), where u = u] i(5) by (cases idx) auto
qed

lemma db_remove_ok:
  assumes wf: "db_wf db" and v: "view db (obj_id obj) = Some obj" and r: "removable db (obj_id obj)"
    and u: "on_remove obj (db_undo db) = (Inr (), u)"
  shows "\<exists>db'. db_remove obj db = (Inr (), db') \<and> same_kinds db db' \<and> view db' = (view db)(obj_id obj := None) \<and>
    next_ids db' = next_ids db \<and> db_undo db' = u"
proof -
  let ?k = "obj_id obj"
  obtain idx where i: "get_index db (id_space ?k) (id_type ?k) = Inr idx" "di_find (pi_derived idx) ?k = Some obj"
      "di_wf (index_id ?k) (pi_derived idx)" "index_id (pi_next_id idx) = index_id ?k"
      "next_ids db = (\<lambda>j. if index_id j = index_id ?k then Some (pi_next_id idx) else next_ids db j)"
    by (rule view_found [OF wf v])
  have rw: "removable_wf (index_id ?k) (pi_derived idx)"
    using i(1,3) r view_index(5) [OF wf i(1)] by (simp add: removable_wf_def)
  obtain d where d: "di_remove ?k (pi_derived idx) = Inr d" "removable_wf (index_id ?k) d"
      "\<forall>a. index_id a = index_id ?k \<longrightarrow> di_find d a = (if a = ?k then None else di_find (pi_derived idx) a)"
    using rdi.remove_found [of "index_id ?k" "pi_derived idx" ?k obj] rw i(2) by auto
  have dw: "di_wf (index_id ?k) d" "is_flat d = is_flat (pi_derived idx)" using d(2) rw by (simp_all add: removable_wf_def)
  have "db_remove obj db = (Inr (), set_index (id_space ?k) (id_type ?k) (idx\<lparr>pi_derived := d\<rparr>) (db\<lparr>db_undo := u\<rparr>))"
    using i(1) u d(1) by (simp add: db_remove_def run_bind_def run_defs with_undo_def)
  then show ?thesis
    using put_kind [OF wf i(1) dw(1) i(4) dw(2) d(3), where u = u] i(5) by (cases idx) auto
qed

lemma db_insert_ok:
  assumes wf: "db_wf db" and v: "view db (obj_id obj) = None" and r: "removable db (obj_id obj)"
  shows "\<exists>db'. db_insert obj db = (Inr (), db') \<and> same_kinds db db' \<and> view db' = (view db)(obj_id obj \<mapsto> obj) \<and>
    next_ids db' = next_ids db \<and> db_undo db' = db_undo db"
proof -
  let ?k = "obj_id obj"
  obtain idx where g: "get_index db (id_space ?k) (id_type ?k) = Inr idx"
    using r by (auto simp: removable_def split: sum.splits)
  note vi = view_index [OF wf g]
  have rw: "removable_wf (index_id ?k) (pi_derived idx)" using vi(1,5) r by (simp add: removable_wf_def)
  obtain d where d: "di_insert obj (pi_derived idx) = Inr d" "removable_wf (index_id ?k) d"
      "\<forall>a. index_id a = index_id ?k \<longrightarrow> di_find d a = (if a = ?k then Some obj else di_find (pi_derived idx) a)"
    using rdi.insert_fresh [of "index_id ?k" "pi_derived idx" obj] rw v vi(3) by auto
  have dw: "di_wf (index_id ?k) d" "is_flat d = is_flat (pi_derived idx)" using d(2) rw by (simp_all add: removable_wf_def)
  have "db_insert obj db = (Inr (), set_index (id_space ?k) (id_type ?k) (idx\<lparr>pi_derived := d\<rparr>) (db\<lparr>db_undo := db_undo db\<rparr>))"
    using g d(1) by (simp add: db_insert_def)
  then show ?thesis
    using put_kind [OF wf g dw(1) vi(2) dw(2) d(3), where u = "db_undo db"] vi(4) by (cases idx) (auto simp: fun_eq_iff)
qed

lemma set_next_id_ok:
  assumes wf: "db_wf db" and n: "next_ids db k \<noteq> None" "index_id n = index_id k"
  shows "\<exists>db'. set_next_id (id_space k) (id_type k) n db = (Inr (), db') \<and> same_kinds db db' \<and> view db' = view db \<and>
    next_ids db' = (\<lambda>j. if index_id j = index_id k then Some n else next_ids db j) \<and> db_undo db' = db_undo db"
proof -
  obtain idx where g: "get_index db (id_space k) (id_type k) = Inr idx"
    using n(1) by (auto simp: next_ids_def split: sum.splits)
  note vi = view_index [OF wf g]
  have "set_next_id (id_space k) (id_type k) n db
      = (Inr (), set_index (id_space k) (id_type k) (idx\<lparr>pi_next_id := n\<rparr>) (db\<lparr>db_undo := db_undo db\<rparr>))"
    using g by (simp add: set_next_id_def)
  moreover have same: "\<forall>a. index_id a = index_id k \<longrightarrow>
      di_find (pi_derived idx) a = (if a = k then view db k else di_find (pi_derived idx) a)"
    using vi(3) by simp
  ultimately show ?thesis
    using put_kind [OF wf g vi(1) n(2) refl same, where u = "db_undo db"] by (cases idx) simp
qed

lemma db_create_ok:
  assumes wf: "db_wf db" and n: "next_ids db k = Some n" and r: "removable db k" and fresh: "view db n = None"
    and room: "unat (id_instance n) + 1 < 2 ^ 48" and c: "\<And>x. obj_id (c x) = obj_id x"
    and u: "\<And>obj. obj_id obj = n \<Longrightarrow> on_create obj (db_undo db) = (Inr (), u obj)"
  shows "\<exists>obj db'. db_create (id_space k) (id_type k) c db = (Inr obj, db') \<and> obj_id obj = n \<and> same_kinds db db' \<and>
    view db' = (view db)(n \<mapsto> obj) \<and>
    next_ids db' = (\<lambda>j. if index_id j = index_id n then Some (n + 1) else next_ids db j) \<and> db_undo db' = u obj"
proof -
  obtain idx where g: "get_index db (id_space k) (id_type k) = Inr idx" and pn: "pi_next_id idx = n"
    using n by (auto simp: next_ids_def split: sum.splits)
  note vi = view_index [OF wf g, unfolded pn]
  have kind: "index_id n = index_id k" "id_space n = id_space k" "id_type n = id_type k"
    using vi(2) by (simp_all add: index_id_kind)
  have rw: "removable_wf (index_id n) (pi_derived idx)" using vi(1) vi(5) [of k] r kind by (simp add: removable_wf_def)
  obtain obj d where d: "di_create n c (pi_derived idx) = Inr (obj, d)" "obj_id obj = n" "removable_wf (index_id n) d"
      "\<forall>a. index_id a = index_id n \<longrightarrow> di_find d a = (if a = n then Some obj else di_find (pi_derived idx) a)"
    using rdi.create_fresh [of "index_id n" "pi_derived idx" n c] rw fresh vi(3) kind c by auto
  have dw: "di_wf (index_id n) d" "is_flat d = is_flat (pi_derived idx)" using d(3) rw by (simp_all add: removable_wf_def)
  have g': "get_index db (id_space n) (id_type n) = Inr idx" using g kind by simp
  have "db_create (id_space k) (id_type k) c db
      = (Inr obj, set_index (id_space n) (id_type n) \<lparr>pi_derived = d, pi_next_id = n + 1\<rparr> (db\<lparr>db_undo := u obj\<rparr>))"
    using g pn d(1,2) u kind by (simp add: db_create_def run_bind_def run_defs with_undo_def set_index_def)
  then show ?thesis
    using put_kind [OF wf g' dw(1) next_id_kind(1) [OF room] dw(2) d(4), where u = "u obj"] d(2) by auto
qed

section \<open>Restoring a state\<close>

lemma run_bind_done: "f s = (Inr x, s') \<Longrightarrow> run_bind f g s = g x s'"
  by (simp add: run_bind_def)

lemma same_kinds_refl: "db_wf db \<Longrightarrow> same_kinds db db"
  by (simp add: same_kinds_def)

lemma same_kinds_trans: "same_kinds a b \<Longrightarrow> same_kinds b c \<Longrightarrow> same_kinds a c"
  by (simp add: same_kinds_def)

lemma restore_old_values:
  assumes "db_wf db" "ud_disabled (db_undo db)" "keyed items" "distinct (map fst items)"
    "\<forall>item \<in> set items. view db (fst item) \<noteq> None"
  shows "\<exists>db'. run_for (\<lambda>item db. run_bind (run_result (db_get_object db (obj_id (snd item))))
       (\<lambda>obj. db_modify obj (\<lambda>_. snd item)) db) items db = (Inr (), db') \<and> same_kinds db db' \<and>
     view db' = (\<lambda>k. case std_map_find items k of Some x \<Rightarrow> Some x | None \<Rightarrow> view db k) \<and>
     next_ids db' = next_ids db \<and> db_undo db' = db_undo db"
  using assms
proof (induction items arbitrary: db)
  case Nil
  then show ?case by (simp add: run_return_def same_kinds_refl std_map_find_def)
next
  case (Cons item items)
  obtain k x where item: "item = (k, x)" "obj_id x = k" using Cons.prems(3) by (cases item) (auto simp: keyed_def)
  obtain obj where obj: "view db k = Some obj" "obj_id obj = k"
    using Cons.prems(1,5) item view_id by fastforce
  have "on_modify obj (db_undo db) = (Inr (), db_undo db)" using Cons.prems(2) by (simp add: on_modify_def)
  then obtain db1 where db1: "db_modify obj (\<lambda>_. x) db = (Inr (), db1)" "same_kinds db db1" "view db1 = (view db)(k \<mapsto> x)"
      "next_ids db1 = next_ids db" "db_undo db1 = db_undo db"
    using db_modify_ok [of db obj "\<lambda>_. x"] Cons.prems(1) obj item by auto
  have "db_wf db1" using db1(2) by (simp add: same_kinds_def)
  moreover have "keyed items" "distinct (map fst items)" "std_map_find items k = None"
    using Cons.prems(3,4) item std_map_find_notin [of k items] by (auto simp: keyed_def)
  moreover have "\<forall>item \<in> set items. view db1 (fst item) \<noteq> None" using Cons.prems(5) db1(3) by auto
  ultimately obtain db2 where db2: "run_for (\<lambda>item db. run_bind (run_result (db_get_object db (obj_id (snd item))))
       (\<lambda>obj. db_modify obj (\<lambda>_. snd item)) db) items db1 = (Inr (), db2)" "same_kinds db1 db2"
     "view db2 = (\<lambda>k. case std_map_find items k of Some x \<Rightarrow> Some x | None \<Rightarrow> view db1 k)"
     "next_ids db2 = next_ids db1" "db_undo db2 = db_undo db1"
    using Cons.IH [of db1] Cons.prems(2) db1(5) by auto
  have "db_get_object db k = Inr obj" using obj(1) view_get_object by blast
  then have "run_for (\<lambda>item db. run_bind (run_result (db_get_object db (obj_id (snd item))))
       (\<lambda>obj. db_modify obj (\<lambda>_. snd item)) db) (item # items) db = (Inr (), db2)"
    using item db1(1) db2(1) by (simp add: run_bind_def run_result_def)
  moreover have "view db2 = (\<lambda>j. case std_map_find (item # items) j of Some x \<Rightarrow> Some x | None \<Rightarrow> view db j)"
    using \<open>std_map_find items k = None\<close> by (auto simp: db2(3) db1(3) item std_map_find_Cons fun_eq_iff split: option.split)
  ultimately show ?case using db1(2,4,5) db2(2,4,5) same_kinds_trans by auto
qed

lemma restore_new_ids:
  assumes "db_wf db" "ud_disabled (db_undo db)" "distinct ids" "\<forall>k \<in> set ids. view db k \<noteq> None \<and> removable db k"
  shows "\<exists>db'. run_for (\<lambda>oid db. run_bind (run_result (db_get_object db oid)) db_remove db) ids db = (Inr (), db') \<and>
     same_kinds db db' \<and> view db' = (\<lambda>k. if k \<in> set ids then None else view db k) \<and>
     next_ids db' = next_ids db \<and> db_undo db' = db_undo db"
  using assms
proof (induction ids arbitrary: db)
  case Nil
  then show ?case by (simp add: run_return_def same_kinds_refl)
next
  case (Cons k ids)
  obtain obj where obj: "view db k = Some obj" "obj_id obj = k" "removable db k"
    using Cons.prems(1,4) view_id by fastforce
  have "on_remove obj (db_undo db) = (Inr (), db_undo db)" using Cons.prems(2) by (simp add: on_remove_def)
  then obtain db1 where db1: "db_remove obj db = (Inr (), db1)" "same_kinds db db1" "view db1 = (view db)(k := None)"
      "next_ids db1 = next_ids db" "db_undo db1 = db_undo db"
    using db_remove_ok [of db obj] Cons.prems(1) obj by auto
  have "db_wf db1" "\<forall>j \<in> set ids. view db1 j \<noteq> None \<and> removable db1 j"
    using db1(2,3) Cons.prems(3,4) by (auto simp: same_kinds_def)
  then obtain db2 where db2: "run_for (\<lambda>oid db. run_bind (run_result (db_get_object db oid)) db_remove db) ids db1 = (Inr (), db2)"
      "same_kinds db1 db2" "view db2 = (\<lambda>k. if k \<in> set ids then None else view db1 k)"
      "next_ids db2 = next_ids db1" "db_undo db2 = db_undo db1"
    using Cons.IH [of db1] Cons.prems(2,3) db1(5) by auto
  have "db_get_object db k = Inr obj" using obj(1) view_get_object by blast
  then have "run_for (\<lambda>oid db. run_bind (run_result (db_get_object db oid)) db_remove db) (k # ids) db = (Inr (), db2)"
    using db1(1) db2(1) by (simp add: run_bind_def run_result_def)
  moreover have "view db2 = (\<lambda>j. if j \<in> set (k # ids) then None else view db j)"
    by (auto simp: db2(3) db1(3) fun_eq_iff)
  ultimately show ?case using db1(2,4,5) db2(2,4,5) same_kinds_trans by auto
qed

lemma restore_next_ids:
  assumes "db_wf db" "distinct (map fst items)"
    "\<forall>item \<in> set items. next_ids db (fst item) \<noteq> None \<and> index_id (snd item) = fst item \<and> index_id (fst item) = fst item"
  shows "\<exists>db'. run_for (\<lambda>item. set_next_id (id_space (fst item)) (id_type (fst item)) (snd item)) items db = (Inr (), db') \<and>
     same_kinds db db' \<and> view db' = view db \<and>
     next_ids db' = (\<lambda>j. case std_map_find items (index_id j) of Some n \<Rightarrow> Some n | None \<Rightarrow> next_ids db j) \<and>
     db_undo db' = db_undo db"
  using assms
proof (induction items arbitrary: db)
  case Nil
  then show ?case by (simp add: run_return_def same_kinds_refl std_map_find_def)
next
  case (Cons item items)
  obtain k n where item: "item = (k, n)" "next_ids db k \<noteq> None" "index_id n = k" "index_id k = k"
    using Cons.prems(3) by (cases item) auto
  obtain db1 where db1: "set_next_id (id_space k) (id_type k) n db = (Inr (), db1)" "same_kinds db db1" "view db1 = view db"
      "next_ids db1 = (\<lambda>j. if index_id j = k then Some n else next_ids db j)" "db_undo db1 = db_undo db"
    using set_next_id_ok [of db k n] Cons.prems(1) item by auto
  have "db_wf db1" "distinct (map fst items)" "std_map_find items k = None"
    using db1(2) Cons.prems(2) item(1) std_map_find_notin [of k items] by (auto simp: same_kinds_def)
  moreover have "\<forall>item \<in> set items. next_ids db1 (fst item) \<noteq> None \<and> index_id (snd item) = fst item \<and> index_id (fst item) = fst item"
    using Cons.prems(3) db1(4) by auto
  ultimately obtain db2 where db2: "run_for (\<lambda>item. set_next_id (id_space (fst item)) (id_type (fst item)) (snd item)) items db1 = (Inr (), db2)"
      "same_kinds db1 db2" "view db2 = view db1"
      "next_ids db2 = (\<lambda>j. case std_map_find items (index_id j) of Some n \<Rightarrow> Some n | None \<Rightarrow> next_ids db1 j)"
      "db_undo db2 = db_undo db1"
    using Cons.IH [of db1] by auto
  have "next_ids db2 = (\<lambda>j. case std_map_find (item # items) (index_id j) of Some n \<Rightarrow> Some n | None \<Rightarrow> next_ids db j)"
    using \<open>std_map_find items k = None\<close> by (auto simp: db2(4) db1(4) item(1) std_map_find_Cons fun_eq_iff split: option.split)
  then show ?case
    using item(1) db1(1,2,3,5) db2(1,2,3,5) same_kinds_trans by (auto simp: run_bind_def)
qed

lemma restore_removed:
  assumes "db_wf db" "keyed items" "distinct (map fst items)"
    "\<forall>item \<in> set items. view db (fst item) = None \<and> removable db (fst item)"
  shows "\<exists>db'. run_for (\<lambda>item. db_insert (snd item)) items db = (Inr (), db') \<and> same_kinds db db' \<and>
     view db' = (\<lambda>k. case std_map_find items k of Some x \<Rightarrow> Some x | None \<Rightarrow> view db k) \<and>
     next_ids db' = next_ids db \<and> db_undo db' = db_undo db"
  using assms
proof (induction items arbitrary: db)
  case Nil
  then show ?case by (simp add: run_return_def same_kinds_refl std_map_find_def)
next
  case (Cons item items)
  obtain k x where item: "item = (k, x)" "obj_id x = k" "view db k = None" "removable db k"
    using Cons.prems(2,4) by (cases item) (auto simp: keyed_def)
  obtain db1 where db1: "db_insert x db = (Inr (), db1)" "same_kinds db db1" "view db1 = (view db)(k \<mapsto> x)"
      "next_ids db1 = next_ids db" "db_undo db1 = db_undo db"
    using db_insert_ok [of db x] Cons.prems(1) item by auto
  have k: "std_map_find items k = None" "k \<notin> fst ` set items"
    using Cons.prems(3) item(1) std_map_find_notin [of k items] by auto
  have "db_wf db1" "keyed items" "distinct (map fst items)"
      "\<forall>item \<in> set items. view db1 (fst item) = None \<and> removable db1 (fst item)"
    using db1(2,3) Cons.prems(2-4) k(2) by (auto simp: same_kinds_def keyed_def)
  then obtain db2 where db2: "run_for (\<lambda>item. db_insert (snd item)) items db1 = (Inr (), db2)" "same_kinds db1 db2"
      "view db2 = (\<lambda>k. case std_map_find items k of Some x \<Rightarrow> Some x | None \<Rightarrow> view db1 k)"
      "next_ids db2 = next_ids db1" "db_undo db2 = db_undo db1"
    using Cons.IH [of db1] by auto
  have "view db2 = (\<lambda>j. case std_map_find (item # items) j of Some x \<Rightarrow> Some x | None \<Rightarrow> view db j)"
    using k(1) by (auto simp: db2(3) db1(3) item(1) std_map_find_Cons fun_eq_iff split: option.split)
  then show ?case
    using item(1) db1(1,2,4,5) db2(1,2,4,5) same_kinds_trans by (auto simp: run_bind_def)
qed

lemma restore_ok:
  assumes wf: "db_wf db" and dis: "ud_disabled (db_undo db)" and ok: "state_ok (removable db) s (view db) (next_ids db)"
  shows "\<exists>db'. restore_state s db = (Inr (), db') \<and> same_kinds db db' \<and> view db' = revert_objects s (view db) \<and>
    next_ids db' = revert_next s (next_ids db) \<and> db_undo db' = db_undo db"
proof -
  note k = state_ok_keyed [OF ok]
  have wfs: "std_map_wf (old_values s)" "std_map_wf (removed s)" "std_map_wf (old_index_next_ids s)" "distinct (new_ids s)"
    using state_okD(11) [OF ok] by (simp_all add: state_lists_ok_def)
  have in_set: "std_map_find m j = Some y" if "std_map_wf m" "(j, y) \<in> set m" for m j and y :: 'x
    using that by (simp add: std_map_find_iff)
  obtain db1 where db1: "run_for (\<lambda>item db. run_bind (run_result (db_get_object db (obj_id (snd item))))
       (\<lambda>obj. db_modify obj (\<lambda>_. snd item)) db) (old_values s) db = (Inr (), db1)" "same_kinds db db1"
     "view db1 = (\<lambda>k. case std_map_find (old_values s) k of Some x \<Rightarrow> Some x | None \<Rightarrow> view db k)"
     "next_ids db1 = next_ids db" "db_undo db1 = db_undo db"
    using restore_old_values [OF wf dis k(1,3)] state_okD(2) [OF ok] in_set [OF wfs(1)] by fastforce
  have kinds1: "db_wf db1" "removable db1 = removable db" using db1(2) by (simp_all add: same_kinds_def)
  have "\<forall>j \<in> set (new_ids s). view db1 j \<noteq> None \<and> removable db1 j"
    using state_okD(4,5) [OF ok] kinds1(2) by (auto simp: db1(3) split: option.splits)
  then obtain db2 where db2: "run_for (\<lambda>oid db. run_bind (run_result (db_get_object db oid)) db_remove db) (new_ids s) db1 = (Inr (), db2)"
     "same_kinds db1 db2" "view db2 = (\<lambda>k. if k \<in> set (new_ids s) then None else view db1 k)"
     "next_ids db2 = next_ids db1" "db_undo db2 = db_undo db1"
    using restore_new_ids [OF kinds1(1) _ wfs(4)] dis db1(5) by auto
  have kinds2: "db_wf db2" "removable db2 = removable db" using db2(2) kinds1(2) by (simp_all add: same_kinds_def)
  have "\<forall>item \<in> set (old_index_next_ids s). next_ids db2 (fst item) \<noteq> None \<and> index_id (snd item) = fst item \<and>
      index_id (fst item) = fst item"
    using state_okD(10) [OF ok] in_set [OF wfs(3)] db2(4) db1(4) by fastforce
  then obtain db3 where db3: "run_for (\<lambda>item. set_next_id (id_space (fst item)) (id_type (fst item)) (snd item))
       (old_index_next_ids s) db2 = (Inr (), db3)" "same_kinds db2 db3" "view db3 = view db2"
     "next_ids db3 = (\<lambda>j. case std_map_find (old_index_next_ids s) (index_id j) of Some n \<Rightarrow> Some n | None \<Rightarrow> next_ids db2 j)"
     "db_undo db3 = db_undo db2"
    using restore_next_ids [OF kinds2(1) k(5)] by auto
  have kinds3: "db_wf db3" "removable db3 = removable db" using db3(2) kinds2(2) by (simp_all add: same_kinds_def)
  have gone: "view db3 j = None \<and> removable db3 j" if "(j, y) \<in> set (removed s)" for j y
  proof -
    have f: "std_map_find (removed s) j = Some y" using in_set [OF wfs(2)] that by blast
    then have "view db j = None" "std_map_find (old_values s) j = None" using removed_elsewhere [OF ok, of j] by simp_all
    then show ?thesis using kinds3(2) state_okD(9) [OF ok f] by (simp add: db3(3) db2(3) db1(3))
  qed
  have "\<forall>item \<in> set (removed s). view db3 (fst item) = None \<and> removable db3 (fst item)"
    using gone by (metis prod.collapse)
  then obtain db4 where db4: "run_for (\<lambda>item. db_insert (snd item)) (removed s) db3 = (Inr (), db4)" "same_kinds db3 db4"
     "view db4 = (\<lambda>k. case std_map_find (removed s) k of Some x \<Rightarrow> Some x | None \<Rightarrow> view db3 k)"
     "next_ids db4 = next_ids db3" "db_undo db4 = db_undo db3"
    using restore_removed [OF kinds3(1) k(2,4)] by auto
  have "view db4 j = revert_objects s (view db) j" for j
    using removed_elsewhere(2,3) [OF ok, of j] state_okD(3) [OF ok, of j]
    by (auto simp: db4(3) db3(3) db2(3) db1(3) revert_objects_def split: option.splits)
  moreover have "next_ids db4 = revert_next s (next_ids db)"
    unfolding db4(4) db3(4) db2(4) db1(4) revert_next_def ..
  moreover have "restore_state s db = (Inr (), db4)"
    unfolding restore_state_def using db1(1) db2(1) db3(1) db4(1) by (simp only: run_bind_done)
  ultimately show ?thesis
    using db1(2,5) db2(2,5) db3(2,5) db4(2,5) by (auto intro: same_kinds_trans)
qed

end
