(* ===== verification/Undo_History.thy ===== *)
theory Undo_History
  imports Undo_Objects
begin

text \<open>
  The history of undo states, part of it in memory and part of it in the store on disk. Moving
  states to disk and loading them again does not change the history, as long as no two states of it
  have the same hash.
\<close>

section \<open>Storing a state and loading it again\<close>

lemma serialize_objects_eq:
  assumes "std_map_wf (acc @ map (\<lambda>p. (fst p, make_serializable_obj en (snd p))) items)"
  shows "serialize_objects en items acc = acc @ map (\<lambda>p. (fst p, make_serializable_obj en (snd p))) items"
  using assms
proof (induction items arbitrary: acc)
  case (Cons p items)
  obtain k obj where p: "p = (k, obj)" by (cases p)
  let ?x = "(k, make_serializable_obj en obj)"
  have "std_map_wf ((acc @ [?x]) @ map (\<lambda>p. (fst p, make_serializable_obj en (snd p))) items)"
    using Cons.prems p by simp
  moreover from this have "std_map_set k (make_serializable_obj en obj) acc = acc @ [?x]"
    by (intro std_map_set_append) (rule std_map_wf_take)
  ultimately show ?case using Cons.IH p by simp
qed simp

definition all_storable :: "(object_id_type \<times> 'v object) list \<Rightarrow> bool" where
  "all_storable items \<longleftrightarrow> (\<forall>p \<in> set items. storable_kind (obj_id (snd p)))"

lemma load_objects_eq:
  assumes "faithful_variants en" "all_storable items" "std_map_wf (acc @ items)"
  shows "load_objects en (map (\<lambda>p. (fst p, make_serializable_obj en (snd p))) items) acc = (Inr (), acc @ items)"
  using assms
proof (induction items arbitrary: acc)
  case (Cons p items)
  obtain k obj where p: "p = (k, obj)" by (cases p)
  have "std_map_wf ((acc @ [(k, obj)]) @ items)" using Cons.prems(3) p by simp
  moreover from this have "std_map_set k obj acc = acc @ [(k, obj)]"
    by (intro std_map_set_append) (rule std_map_wf_take)
  moreover have "to_object en (make_serializable_obj en obj) = Inr obj"
    using Cons.prems(1,2) p by (intro to_object_make) (simp_all add: all_storable_def)
  ultimately show ?case using Cons.IH [of "acc @ [(k, obj)]"] Cons.prems(1,2) p by (simp add: all_storable_def)
qed simp

definition state_storable :: "'v undo_state \<Rightarrow> bool" where
  "state_storable s \<longleftrightarrow> state_lists_ok s \<and> all_storable (old_values s) \<and> all_storable (removed s)"

definition state_hash :: "'v undo_env \<Rightarrow> 'v undo_state \<Rightarrow> undo_state_id_type" where
  "state_hash en s = undo_id en (get_serializable_undo_state en s)"

lemma undo_state_assign_eq:
  assumes "faithful_variants en" "state_storable s"
  shows "undo_state_assign en (get_serializable_undo_state en s) = (Inr (), s)"
proof -
  have keys: "map fst (map (\<lambda>p. (fst p, make_serializable_obj en (snd p))) items) = map fst items" for items
    by simp
  have "std_map_wf (old_values s)" "std_map_wf (removed s)" using assms(2) by (simp_all add: state_storable_def state_lists_ok_def)
  then have "serialize_objects en (old_values s) [] = map (\<lambda>p. (fst p, make_serializable_obj en (snd p))) (old_values s)"
      "serialize_objects en (removed s) [] = map (\<lambda>p. (fst p, make_serializable_obj en (snd p))) (removed s)"
      "load_objects en (map (\<lambda>p. (fst p, make_serializable_obj en (snd p))) (old_values s)) [] = (Inr (), old_values s)"
      "load_objects en (map (\<lambda>p. (fst p, make_serializable_obj en (snd p))) (removed s)) [] = (Inr (), removed s)"
    using serialize_objects_eq [of "[]"] load_objects_eq [OF assms(1), of _ "[]"] assms(2) keys
    by (simp_all add: std_map_wf_def state_storable_def comp_def)
  then show ?thesis by (simp add: undo_state_assign_def get_serializable_undo_state_def)
qed

section \<open>The history\<close>

definition history_split :: "'v undo_env \<Rightarrow> 'v undo_database \<Rightarrow> 'v undo_state list \<Rightarrow> bool" where
  "history_split en u olds \<longleftrightarrow> ud_stack u = map (state_hash en) olds \<and> distinct (ud_stack u) \<and> 0 \<notin> set (ud_stack u) \<and>
     (\<forall>s \<in> set olds. state_storable s \<and>
        std_map_find (ud_disk u) (state_hash en s) = Some (get_serializable_undo_state en s)) \<and>
     (olds \<noteq> [] \<longrightarrow> ud_open u)"

definition history :: "'v undo_env \<Rightarrow> 'v undo_database \<Rightarrow> 'v undo_state list \<Rightarrow> bool" where
  "history en u ss \<longleftrightarrow> (\<exists>olds. ss = olds @ ud_back u \<and> history_split en u olds)"

definition undo_rest :: "'v undo_database \<Rightarrow> u32 \<times> bool \<times> nat \<times> bool" where
  "undo_rest u = (ud_active_sessions u, ud_disabled u, ud_max_size u, ud_open u)"

lemma undo_rest_eq: "undo_rest u' = undo_rest u \<longleftrightarrow> ud_active_sessions u' = ud_active_sessions u \<and>
    ud_disabled u' = ud_disabled u \<and> ud_max_size u' = ud_max_size u \<and> ud_open u' = ud_open u"
  by (auto simp: undo_rest_def)

lemma history_size: "history en u ss \<Longrightarrow> undo_size u = length ss"
  by (auto simp: history_def history_split_def undo_size_def)

lemma load_one_history:
  assumes "faithful_variants en" "history en u ss" "ud_stack u \<noteq> []"
  shows "\<exists>u' s. load_one en u = (Inr (), u') \<and> history en u' ss \<and> undo_rest u' = undo_rest u \<and> ud_back u' = s # ud_back u"
proof -
  obtain olds where olds: "ss = olds @ ud_back u" "history_split en u olds" using assms(2) by (auto simp: history_def)
  then obtain ys s where ys: "olds = ys @ [s]" using assms(3) by (cases olds rule: rev_cases) (auto simp: history_split_def)
  let ?h = "state_hash en s"
  have h: "last (ud_stack u) = ?h" "butlast (ud_stack u) = map (state_hash en) ys" "?h \<noteq> 0" "ud_open u"
      "\<forall>y \<in> set ys. ?h \<noteq> state_hash en y" "state_storable s"
      "std_map_find (ud_disk u) ?h = Some (get_serializable_undo_state en s)"
    using olds(2) ys by (auto simp: history_split_def image_iff)
  let ?u = "u\<lparr>ud_back := s # ud_back u, ud_disk := std_map_erase ?h (ud_disk u), ud_stack := map (state_hash en) ys\<rparr>"
  have "fetch_optional en (u\<lparr>ud_back := b\<rparr>) ?h = Some (get_serializable_undo_state en s)" for b
    using h(4,7) assms(1) by (simp add: fetch_optional_def faithful_variants_def)
  then have "load_one en u = (Inr (), ?u)"
    using h undo_state_assign_eq [OF assms(1) h(6)] by (simp add: load_one_def run_bind_def run_defs storage_remove_def)
  moreover have "history_split en ?u ys"
    using olds(2) ys h(5) by (auto simp: history_split_def std_map.find_erase)
  then have "history en ?u ss" using olds(1) ys by (auto simp: history_def)
  ultimately show ?thesis by (auto simp: undo_rest_def)
qed

lemma load_loop_history:
  assumes "faithful_variants en" "history en u ss"
  shows "\<exists>u' bs. load_loop en u = (Inr (), u') \<and> history en u' ss \<and> undo_rest u' = undo_rest u \<and> ud_back u' = bs @ ud_back u"
  using assms
proof (induction en u rule: load_loop.induct)
  case (1 en u)
  show ?case
  proof (cases "ud_stack u \<noteq> [] \<and> length (ud_back u) < GRAPHENE_UNDO_BUFF_MAX_SIZE")
    case True
    obtain u1 s where u1: "load_one en u = (Inr (), u1)" "history en u1 ss" "undo_rest u1 = undo_rest u" "ud_back u1 = s # ud_back u"
      using load_one_history [OF "1.prems"] True by blast
    obtain u2 bs where "load_loop en u1 = (Inr (), u2)" "history en u2 ss" "undo_rest u2 = undo_rest u1" "ud_back u2 = bs @ ud_back u1"
      using "1.IH" [OF True u1(1) [symmetric] refl "1.prems"(1) u1(2)] by blast
    then show ?thesis using True u1 by (subst load_loop.simps) simp
  next
    case False
    then show ?thesis using "1.prems"(2) by (subst load_loop.simps) auto
  qed
qed

lemma refill_back_history:
  assumes "faithful_variants en" "history en u ss"
  shows "\<exists>u' bs. refill_back en u = (Inr (), u') \<and> history en u' ss \<and> undo_rest u' = undo_rest u \<and> ud_back u' = bs @ ud_back u"
  using load_loop_history [OF assms] assms(2) by (auto simp: refill_back_def)

section \<open>Spilling\<close>

definition spillable :: "'v undo_env \<Rightarrow> 'v undo_state list \<Rightarrow> bool" where
  "spillable en ss \<longleftrightarrow> (\<forall>s \<in> set ss. state_storable s) \<and> distinct (map (state_hash en) ss) \<and> 0 \<notin> state_hash en ` set ss"

lemma spill_front_history:
  assumes "history en u ss" "spillable en (butlast ss)" "ud_open u" "2 \<le> length (ud_back u)" "length (ud_back u) < ud_max_size u"
  shows "\<exists>u'. spill_front en u = (Inr (), u') \<and> history en u' ss \<and> undo_rest u' = undo_rest u \<and> ud_back u' = tl (ud_back u)"
proof -
  obtain olds where olds: "ss = olds @ ud_back u" "history_split en u olds" using assms(1) by (auto simp: history_def)
  obtain s t bs where b: "ud_back u = s # t # bs" using assms(4) by (cases "ud_back u" rule: list.exhaust; cases "tl (ud_back u)") auto
  let ?h = "state_hash en s"
  have s: "state_storable s" "?h \<noteq> 0" "\<forall>y \<in> set olds. state_hash en y \<noteq> ?h"
    using assms(2) olds(1) b by (auto simp: spillable_def butlast_append image_iff)
  let ?u = "u\<lparr>ud_back := tl (ud_back u), ud_disk := std_map_set ?h (get_serializable_undo_state en s) (ud_disk u),
    ud_stack := ud_stack u @ [?h]\<rparr>"
  have "spill_front en u = (Inr (), ?u)"
    using b assms(3,5)
    by (simp add: spill_front_def store_undo_state_def storage_store_def run_bind_def run_defs state_hash_def Let_def)
  moreover have "history_split en ?u (olds @ [s])"
    using olds(2) s assms(3) by (auto simp: history_split_def std_map.find_put)
  then have "history en ?u ss" using olds(1) b by (auto simp: history_def)
  ultimately show ?thesis by (auto simp: undo_rest_def)
qed

lemma spill_loop_history:
  assumes "history en u ss" "spillable en (butlast ss)" "ud_open u" "length (ud_back u) < ud_max_size u"
  shows "\<exists>u'. spill_loop en u = (Inr (), u') \<and> history en u' ss \<and> undo_rest u' = undo_rest u \<and>
    (ud_back u \<noteq> [] \<longrightarrow> ud_back u' \<noteq> [] \<and> last (ud_back u') = last (ud_back u))"
  using assms
proof (induction en u rule: spill_loop.induct)
  case (1 en u)
  show ?case
  proof (cases "GRAPHENE_UNDO_BUFF_MAX_SIZE \<le> length (ud_back u)")
    case True
    then have two: "2 \<le> length (ud_back u)" by (simp add: GRAPHENE_UNDO_BUFF_MAX_SIZE_def)
    obtain u1 where u1: "spill_front en u = (Inr (), u1)" "history en u1 ss" "undo_rest u1 = undo_rest u" "ud_back u1 = tl (ud_back u)"
      using spill_front_history [OF "1.prems"(1-3) two "1.prems"(4)] by blast
    have rest: "ud_open u1" "length (ud_back u1) < ud_max_size u1" using u1(3,4) "1.prems"(3,4) by (simp_all add: undo_rest_eq)
    have "tl (ud_back u) \<noteq> []" using two by (simp add: tl_Nil) auto
    then have tl: "tl (ud_back u) \<noteq> []" "last (tl (ud_back u)) = last (ud_back u)" by (simp_all add: last_tl)
    obtain u2 where u2: "spill_loop en u1 = (Inr (), u2)" "history en u2 ss" "undo_rest u2 = undo_rest u1"
        "ud_back u1 \<noteq> [] \<longrightarrow> ud_back u2 \<noteq> [] \<and> last (ud_back u2) = last (ud_back u1)"
      using "1.IH" [OF True u1(1) [symmetric] refl u1(2) "1.prems"(2) rest] by blast
    then show ?thesis using True u1 tl by (subst spill_loop.simps) simp
  next
    case False
    then show ?thesis using "1.prems"(1) by (subst spill_loop.simps) auto
  qed
qed

lemma spill_loop_short: "spill_loop en u = (Inr x, u') \<Longrightarrow> length (ud_back u') < GRAPHENE_UNDO_BUFF_MAX_SIZE"
proof (induction en u rule: spill_loop.induct)
  case (1 en u)
  then show ?case
    by (cases "GRAPHENE_UNDO_BUFF_MAX_SIZE \<le> length (ud_back u)"; subst (asm) (2) spill_loop.simps)
      (auto split: prod.splits sum.splits)
qed

section \<open>Starting a session\<close>

lemma drop_oldest_history:
  assumes "history en u ss" "GRAPHENE_UNDO_BUFF_MAX_SIZE < undo_size u"
  shows "\<exists>u'. drop_oldest u = (Inr (), u') \<and> history en u' (tl ss) \<and> undo_rest u' = undo_rest u \<and>
    (ud_stack u \<noteq> [] \<longrightarrow> ud_back u' = ud_back u) \<and> (ud_stack u = [] \<longrightarrow> ud_back u' = tl (ud_back u))"
proof (cases "ud_stack u")
  case Nil
  then have "history en (u\<lparr>ud_back := tl (ud_back u)\<rparr>) (tl ss)" "ud_back u \<noteq> []"
    using assms by (auto simp: history_def history_split_def undo_size_def)
  then show ?thesis using Nil by (auto simp: drop_oldest_def undo_rest_def)
next
  case (Cons h hs)
  obtain olds where olds: "ss = olds @ ud_back u" "history_split en u olds" using assms(1) by (auto simp: history_def)
  then obtain s ys where ys: "olds = s # ys" "h = state_hash en s" using Cons by (auto simp: history_split_def)
  let ?u = "u\<lparr>ud_stack := hs, ud_disk := std_map_erase h (ud_disk u)\<rparr>"
  have "h \<noteq> 0" "ud_open u" using olds(2) ys Cons by (auto simp: history_split_def)
  then have "drop_oldest u = (Inr (), ?u)"
    using Cons assms(2) by (simp add: drop_oldest_def run_bind_def run_defs storage_remove_def)
  moreover have "\<forall>y \<in> set ys. h \<noteq> state_hash en y" using olds(2) ys by (auto simp: history_split_def)
  then have "history_split en ?u ys" using olds(2) ys Cons by (auto simp: history_split_def std_map.find_erase)
  then have "history en ?u (tl ss)" using olds(1) ys by (auto simp: history_def)
  ultimately show ?thesis using Cons by (auto simp: undo_rest_def)
qed

lemma trim_loop_history:
  assumes "history en u ss" "GRAPHENE_UNDO_BUFF_MAX_SIZE \<le> ud_max_size u" "length (ud_back u) \<le> ud_max_size u"
  shows "\<exists>u'. trim_loop u = (Inr (), u') \<and> history en u' (drop (length ss - ud_max_size u) ss) \<and> undo_rest u' = undo_rest u \<and>
    ud_back u' = ud_back u"
  using assms
proof (induction u arbitrary: ss rule: trim_loop.induct)
  case (1 u)
  have size: "undo_size u = length ss" using history_size [OF "1.prems"(1)] .
  show ?case
  proof (cases "ud_max_size u < undo_size u")
    case True
    have stack: "ud_stack u \<noteq> []" using True "1.prems"(3) by (auto simp: undo_size_def)
    have "GRAPHENE_UNDO_BUFF_MAX_SIZE < undo_size u" using True "1.prems"(2) by simp
    then obtain u1 where u1: "drop_oldest u = (Inr (), u1)" "history en u1 (tl ss)" "undo_rest u1 = undo_rest u" "ud_back u1 = ud_back u"
      using drop_oldest_history [OF "1.prems"(1)] stack by blast
    have max: "ud_max_size u1 = ud_max_size u" using u1(3) by (simp add: undo_rest_eq)
    then obtain u2 where u2: "trim_loop u1 = (Inr (), u2)" "history en u2 (drop (length (tl ss) - ud_max_size u) (tl ss))"
        "undo_rest u2 = undo_rest u1" "ud_back u2 = ud_back u1"
      using "1.IH" [OF True u1(1) [symmetric] refl u1(2)] "1.prems"(2,3) u1(4) by auto
    have "drop (length (tl ss) - ud_max_size u) (tl ss) = drop (length ss - ud_max_size u) ss"
      using True size by (cases ss) (simp_all add: Suc_diff_le)
    then show ?thesis using True u1 u2 by (subst trim_loop.simps) simp
  next
    case False
    then show ?thesis using "1.prems"(1) size by (subst trim_loop.simps) auto
  qed
qed

text \<open>A history that can be kept: it is written to an open store, and it is long enough.\<close>

definition keeps_history :: "'v undo_env \<Rightarrow> 'v undo_database \<Rightarrow> 'v undo_state list \<Rightarrow> bool" where
  "keeps_history en u ss \<longleftrightarrow> spillable en ss \<and> ud_open u \<and> GRAPHENE_UNDO_BUFF_MAX_SIZE + 10 < ud_max_size u \<and>
     length (ud_back u) < GRAPHENE_UNDO_BUFF_MAX_SIZE + 10"

lemma start_undo_session_history:
  assumes "history en u ss" "keeps_history en u ss" "\<not> ud_disabled u \<or> force_enable"
  shows "\<exists>u'. start_undo_session en force_enable u
      = (Inr \<lparr>ses_apply_undo = True, ses_disable_on_exit = ud_disabled u \<and> force_enable\<rparr>, u') \<and>
    history en u' (drop (length ss + 1 - ud_max_size u) (ss @ [empty_undo_state])) \<and> \<not> ud_disabled u' \<and>
    ud_active_sessions u' = ud_active_sessions u + 1 \<and> ud_max_size u' = ud_max_size u \<and> ud_open u' \<and>
    ud_back u' \<noteq> [] \<and> length (ud_back u') < GRAPHENE_UNDO_BUFF_MAX_SIZE + 10"
proof -
  let ?u0 = "(if force_enable then u\<lparr>ud_disabled := False\<rparr> else u)\<lparr>ud_back := ud_back u @ [empty_undo_state]\<rparr>"
  obtain olds where olds: "ss = olds @ ud_back u" "history_split en u olds" using assms(1) by (auto simp: history_def)
  then have h0: "history en ?u0 (ss @ [empty_undo_state])" by (auto simp: history_def history_split_def)
  have u0: "ud_open ?u0" "ud_max_size ?u0 = ud_max_size u" "\<not> ud_disabled ?u0" "ud_active_sessions ?u0 = ud_active_sessions u"
      "length (ud_back ?u0) < ud_max_size ?u0"
    using assms(2,3) by (auto simp: keeps_history_def)
  obtain u1 where u1: "(if GRAPHENE_UNDO_BUFF_MAX_SIZE + 10 \<le> length (ud_back ?u0) then spill_loop en ?u0 else (Inr (), ?u0)) = (Inr (), u1)"
      "history en u1 (ss @ [empty_undo_state])" "undo_rest u1 = undo_rest ?u0" "ud_back u1 \<noteq> []"
      "length (ud_back u1) < GRAPHENE_UNDO_BUFF_MAX_SIZE + 10"
  proof (cases "GRAPHENE_UNDO_BUFF_MAX_SIZE + 10 \<le> length (ud_back ?u0)")
    case True
    have "spillable en (butlast (ss @ [empty_undo_state]))" using assms(2) by (simp add: keeps_history_def)
    then obtain u1 where "spill_loop en ?u0 = (Inr (), u1)" "history en u1 (ss @ [empty_undo_state])"
        "undo_rest u1 = undo_rest ?u0" "ud_back u1 \<noteq> []"
      using spill_loop_history [OF h0 _ u0(1,5)] by auto
    moreover have "length (ud_back u1) < GRAPHENE_UNDO_BUFF_MAX_SIZE" using spill_loop_short calculation(1) .
    ultimately show ?thesis using True that by simp
  next
    case False
    then show ?thesis using h0 that by simp
  qed
  have rest1: "ud_max_size u1 = ud_max_size u" "\<not> ud_disabled u1" "ud_active_sessions u1 = ud_active_sessions u" "ud_open u1"
    using u1(3) u0 by (simp_all add: undo_rest_eq)
  then obtain u2 where u2: "trim_loop u1 = (Inr (), u2)"
      "history en u2 (drop (length ss + 1 - ud_max_size u) (ss @ [empty_undo_state]))" "undo_rest u2 = undo_rest u1" "ud_back u2 = ud_back u1"
    using trim_loop_history [OF u1(2)] u1(5) assms(2) by (auto simp: keeps_history_def)
  let ?u3 = "u2\<lparr>ud_active_sessions := ud_active_sessions u2 + 1\<rparr>"
  have "start_undo_session en force_enable u
      = (Inr \<lparr>ses_apply_undo = True, ses_disable_on_exit = ud_disabled u \<and> force_enable\<rparr>, ?u3)"
    using assms(3) u1(1) u2(1) by (auto simp: start_undo_session_def Let_def run_bind_def run_defs)
  moreover have "history en ?u3 (drop (length ss + 1 - ud_max_size u) (ss @ [empty_undo_state]))"
    using u2(2) by (auto simp: history_def history_split_def)
  ultimately show ?thesis using u2(3,4) rest1 u1(4,5) by (simp add: undo_rest_eq)
qed

end
