(* ===== verification/Undo_Sessions.thy ===== *)
theory Undo_Sessions
  imports Undo_History
begin

text \<open>
  Sessions refine a stack of snapshots: starting a session pushes the present objects and id
  counters, undo goes back to the youngest snapshot, merge forgets it, and the changes in between
  leave the snapshots alone.
\<close>

section \<open>Snapshots\<close>

type_synonym 'v snapshot = "(object_id_type \<Rightarrow> 'v object option) \<times> (object_id_type \<Rightarrow> object_id_type option)"

definition snapshot :: "'v object_database \<Rightarrow> 'v snapshot" where
  "snapshot db = (view db, next_ids db)"

definition revert :: "'v undo_state \<Rightarrow> 'v snapshot \<Rightarrow> 'v snapshot" where
  "revert s c = (revert_objects s (fst c), revert_next s (snd c))"

text \<open>The states from the youngest to the oldest, and the snapshots they stand for.\<close>

fun snapshots :: "'v undo_state list \<Rightarrow> 'v snapshot \<Rightarrow> 'v snapshot list" where
  "snapshots [] c = []"
| "snapshots (s # ss) c = revert s c # snapshots ss (revert s c)"

fun chain_ok :: "(object_id_type \<Rightarrow> bool) \<Rightarrow> 'v undo_state list \<Rightarrow> 'v snapshot \<Rightarrow> bool" where
  "chain_ok rem [] c \<longleftrightarrow> bounded rem (fst c) (snd c)"
| "chain_ok rem (s # ss) c \<longleftrightarrow> bounded rem (fst c) (snd c) \<and> state_ok rem s (fst c) (snd c) \<and> chain_ok rem ss (revert s c)"

lemma chain_ok_bounded: "chain_ok rem ss c \<Longrightarrow> bounded rem (fst c) (snd c)"
  by (cases ss) simp_all

lemma snapshots_length [simp]: "length (snapshots ss c) = length ss"
  by (induction ss arbitrary: c) simp_all

lemma chain_ok_take: "chain_ok rem ss c \<Longrightarrow> chain_ok rem (take n ss) c"
proof (induction ss arbitrary: n c)
  case (Cons s ss)
  then show ?case by (cases n) (auto dest: chain_ok_bounded)
qed simp

lemma snapshots_take: "snapshots (take n ss) c = take n (snapshots ss c)"
proof (induction ss arbitrary: n c)
  case (Cons s ss)
  then show ?case by (cases n) simp_all
qed simp

definition undo_inv :: "'v undo_env \<Rightarrow> 'v undo_state list \<Rightarrow> 'v object_database \<Rightarrow> bool" where
  "undo_inv en ss db \<longleftrightarrow> db_wf db \<and> history en (db_undo db) (rev ss) \<and> chain_ok (removable db) ss (snapshot db) \<and>
     \<not> ud_disabled (db_undo db)"

section \<open>Changes\<close>

text \<open>
  The changes a client makes: creating an object of a kind that is not kept in a flat index,
  changing one, and removing one. Constructors and changes keep the id.
\<close>

inductive change :: "'v object_database \<Rightarrow> 'v object_database \<Rightarrow> bool" where
  created: "next_ids db k = Some n \<Longrightarrow> removable db k \<Longrightarrow> unat (id_instance n) + 1 < 2 ^ 48 \<Longrightarrow>
    (\<And>x. obj_id (c x) = obj_id x) \<Longrightarrow> db_create (id_space k) (id_type k) c db = (r, db') \<Longrightarrow> change db db'"
| modified: "view db oid = Some obj \<Longrightarrow> obj_id (m obj) = oid \<Longrightarrow> db_modify obj m db = (r', db') \<Longrightarrow> change db db'"
| removed: "view db oid = Some obj \<Longrightarrow> removable db oid \<Longrightarrow> db_remove obj db = (r', db') \<Longrightarrow> change db db'"

lemma update_back_ok:
  assumes "ud_back u = bs @ [s]"
  shows "update_back f u = (Inr (), u\<lparr>ud_back := bs @ [f s]\<rparr>)"
  using assms by (simp add: update_back_def)

lemma history_last:
  assumes "history en u (rev (s # ss))" "ud_back u \<noteq> []"
  obtains bs where "ud_back u = bs @ [s]" "\<And>t. history en (u\<lparr>ud_back := bs @ [t]\<rparr>) (rev (t # ss))"
proof -
  obtain olds where olds: "rev ss @ [s] = olds @ ud_back u" "history_split en u olds"
    using assms(1) by (auto simp: history_def)
  obtain bs t where bs: "ud_back u = bs @ [t]" using assms(2) by (cases "ud_back u" rule: rev_cases) auto
  then have "s = t" "rev ss = olds @ bs" using olds(1) by auto
  moreover have "history_split en (u\<lparr>ud_back := b\<rparr>) olds" for b using olds(2) by (auto simp: history_split_def)
  ultimately show ?thesis using bs by (intro that [of bs]) (auto simp: history_def)
qed

text \<open>One change notes itself in the youngest state, whose snapshot stays the same.\<close>

lemma change_keeps:
  assumes "change db db'" "undo_inv en (s # ss) db" "ud_back (db_undo db) \<noteq> []"
  shows "\<exists>t. undo_inv en (t # ss) db' \<and> revert t (snapshot db') = revert s (snapshot db) \<and>
    ud_back (db_undo db') \<noteq> [] \<and> undo_rest (db_undo db') = undo_rest (db_undo db) \<and> removable db' = removable db \<and>
    length (ud_back (db_undo db')) = length (ud_back (db_undo db))"
proof -
  let ?u = "db_undo db"
  have inv: "db_wf db" "history en ?u (rev (s # ss))" "\<not> ud_disabled ?u"
      "bounded (removable db) (view db) (next_ids db)" "state_ok (removable db) s (view db) (next_ids db)"
      "chain_ok (removable db) ss (revert s (snapshot db))"
    using assms(2) by (simp_all add: undo_inv_def snapshot_def)
  obtain bs where bs: "ud_back ?u = bs @ [s]" "\<And>t. history en (?u\<lparr>ud_back := bs @ [t]\<rparr>) (rev (t # ss))"
    using history_last [OF inv(2) assms(3)] by blast
  have finish: ?thesis
    if "same_kinds db db'" "db_undo db' = ?u\<lparr>ud_back := bs @ [t]\<rparr>"
      "state_ok (removable db) t (view db') (next_ids db')" "bounded (removable db) (view db') (next_ids db')"
      "revert_objects t (view db') = revert_objects s (view db)" "revert_next t (next_ids db') = revert_next s (next_ids db)" for t
  proof (intro exI conjI)
    have r: "revert t (snapshot db') = revert s (snapshot db)" using that(5,6) by (simp add: revert_def snapshot_def)
    show "undo_inv en (t # ss) db'"
      using that(1,3,4) inv(3,6) bs(2) [of t] r unfolding undo_inv_def that(2) by (simp add: same_kinds_def snapshot_def)
    show "revert t (snapshot db') = revert s (snapshot db)" by (rule r)
  qed (use that(1,2) bs(1) in \<open>simp_all add: undo_rest_def same_kinds_def\<close>)
  from assms(1) show ?thesis
  proof cases
    case (created k n c r)
    note kinds = next_ids_kind [of db]
    have n: "index_id n = index_id k" using created(1) inv(1) by (auto simp: next_ids_def db_wf_def split: sum.splits)
    then have nn: "next_ids db n = Some n" "removable db n"
      using created(1,2) by (auto simp: next_ids_def removable_def index_id_kind)
    have fresh: "view db n = None" using inv(4) nn by (cases "view db n") (auto simp: bounded_def)
    have "on_create obj ?u = (Inr (), ?u\<lparr>ud_back := bs @ [note_create obj s]\<rparr>)" for obj
      using inv(3) update_back_ok [OF bs(1)] by (simp add: on_create_def)
    then obtain obj db1 where db1: "db_create (id_space k) (id_type k) c db = (Inr obj, db1)" "obj_id obj = n" "same_kinds db db1"
        "view db1 = (view db)(n \<mapsto> obj)" "next_ids db1 = (\<lambda>j. if index_id j = index_id n then Some (n + 1) else next_ids db j)"
        "db_undo db1 = ?u\<lparr>ud_back := bs @ [note_create obj s]\<rparr>"
      using db_create_ok [OF inv(1) created(1,2) fresh created(3,4), where u = "\<lambda>obj. ?u\<lparr>ud_back := bs @ [note_create obj s]\<rparr>"]
      by auto
    then have "db1 = db'" using created(5) by simp
    have rb: "bounded (removable db) (revert_objects s (view db)) (revert_next s (next_ids db))"
      using chain_ok_bounded [OF inv(6)] by (simp add: revert_def snapshot_def)
    have lt: "n < n + 1" using next_id_kind(2) [OF created(3)] .
    have ok: "state_ok (removable db) (note_create obj s) ((view db)(n \<mapsto> obj)) (next_ids db1)"
        "revert_objects (note_create obj s) ((view db)(n \<mapsto> obj)) = revert_objects s (view db)"
        "revert_next (note_create obj s) (next_ids db1) = revert_next s (next_ids db)"
      using note_create_ok [OF inv(5) kinds rb, of obj "n + 1"] fresh nn lt unfolding db1(2,5) by simp_all
    have "bounded (removable db) ((view db)(n \<mapsto> obj)) (next_ids db1)"
      unfolding bounded_def db1(5)
    proof (intro allI impI)
      fix j x
      assume j: "((view db)(n \<mapsto> obj)) j = Some x" "removable db j"
      show "\<exists>m. (if index_id j = index_id n then Some (n + 1) else next_ids db j) = Some m \<and> j < m"
      proof (cases "j = n")
        case False
        then obtain m where m: "next_ids db j = Some m" "j < m" using j inv(4) by (auto simp: bounded_def)
        moreover have "m = n" if "index_id j = index_id n" using m(1) nn(1) kinds [of j] kinds [of n] that by simp
        ultimately show ?thesis using lt by (cases "index_id j = index_id n") (auto intro: less_trans)
      qed (use lt in simp)
    qed
    with ok show ?thesis using finish [of "note_create obj s"] db1(3,4,6) \<open>db1 = db'\<close> by simp
  next
    case (modified oid obj m r')
    have oid: "obj_id obj = oid" using view_id [OF inv(1) modified(1)] .
    have "on_modify obj ?u = (Inr (), ?u\<lparr>ud_back := bs @ [note_modify obj s]\<rparr>)"
      using inv(3) update_back_ok [OF bs(1)] by (simp add: on_modify_def)
    then have db': "same_kinds db db'" "view db' = (view db)(oid \<mapsto> m obj)" "next_ids db' = next_ids db"
        "db_undo db' = ?u\<lparr>ud_back := bs @ [note_modify obj s]\<rparr>"
      using db_modify_ok [OF inv(1), of obj m] modified oid by auto
    moreover have "bounded (removable db) ((view db)(oid \<mapsto> m obj)) (next_ids db)"
      using inv(4) modified(1) by (auto simp: bounded_def)
    ultimately show ?thesis
      using finish [of "note_modify obj s"] note_modify_ok(1,2) [OF inv(5), of obj "m obj"]
        note_modify_ok(3) [OF inv(5), of obj] modified(1) oid by simp
  next
    case (removed oid obj r')
    have oid: "obj_id obj = oid" using view_id [OF inv(1) removed(1)] .
    have "on_remove obj ?u = (Inr (), ?u\<lparr>ud_back := bs @ [note_remove obj s]\<rparr>)"
      using inv(3) update_back_ok [OF bs(1)] by (simp add: on_remove_def)
    then have db': "same_kinds db db'" "view db' = (view db)(oid := None)" "next_ids db' = next_ids db"
        "db_undo db' = ?u\<lparr>ud_back := bs @ [note_remove obj s]\<rparr>"
      using db_remove_ok [OF inv(1), of obj] removed oid by auto
    moreover have "bounded (removable db) ((view db)(oid := None)) (next_ids db)"
      using inv(4) by (auto simp: bounded_def)
    ultimately show ?thesis
      using finish [of "note_remove obj s"] note_remove_ok [OF inv(5), of obj] removed(1,2) oid by simp
  qed
qed

section \<open>What is in memory\<close>

text \<open>When states are on disk, more than five are in memory; and there are never too many in memory.\<close>

definition memory_ok :: "'v undo_database \<Rightarrow> bool" where
  "memory_ok u \<longleftrightarrow> (ud_stack u \<noteq> [] \<longrightarrow> 5 < length (ud_back u)) \<and> length (ud_back u) < GRAPHENE_UNDO_BUFF_MAX_SIZE + 10"

lemma load_loop_end:
  "load_loop en u = (Inr x, u') \<Longrightarrow> length (ud_back u) < GRAPHENE_UNDO_BUFF_MAX_SIZE + 10 \<Longrightarrow>
    (ud_stack u' = [] \<or> GRAPHENE_UNDO_BUFF_MAX_SIZE \<le> length (ud_back u')) \<and> length (ud_back u') < GRAPHENE_UNDO_BUFF_MAX_SIZE + 10"
proof (induction en u rule: load_loop.induct)
  case (1 en u)
  show ?case
  proof (cases "ud_stack u \<noteq> [] \<and> length (ud_back u) < GRAPHENE_UNDO_BUFF_MAX_SIZE")
    case True
    obtain r u1 where u1: "load_one en u = (r, u1)" by (cases "load_one en u")
    then obtain y where r: "r = Inr y" using "1.prems"(1) True by (subst (asm) load_loop.simps) (auto split: sum.splits)
    then have "length (ud_back u1) = Suc (length (ud_back u))" using u1 by (auto elim: load_one_Inr)
    moreover have "load_loop en u1 = (Inr x, u')" using "1.prems"(1) True u1 r by (subst (asm) load_loop.simps) simp
    ultimately show ?thesis using "1.IH" [OF True, of r u1 y] u1 r True by simp
  next
    case False
    then show ?thesis using "1.prems" by (subst (asm) load_loop.simps) auto
  qed
qed

lemma refill_memory:
  assumes "refill_back en u = (Inr x, u')" "length (ud_back u) < GRAPHENE_UNDO_BUFF_MAX_SIZE + 10"
  shows "memory_ok u'"
  using assms load_loop_end [of en u x u'] by (auto simp: refill_back_def memory_ok_def GRAPHENE_UNDO_BUFF_MAX_SIZE_def split: if_splits)

lemma memory_ok_sessions [simp]: "memory_ok (u\<lparr>ud_active_sessions := n\<rparr>) = memory_ok u"
  by (simp add: memory_ok_def)

lemma memory_ok_disabled [simp]: "memory_ok (u\<lparr>ud_disabled := d\<rparr>) = memory_ok u"
  by (simp add: memory_ok_def)

lemma memory_ok_enable [simp]: "memory_ok (undo_enable u) = memory_ok u" "memory_ok (undo_disable u) = memory_ok u"
  by (simp_all add: undo_enable_def undo_disable_def)

section \<open>Undo and commit\<close>

lemma undo_inv_undo:
  assumes "undo_inv en ss db" "history en u (rev ss')" "\<not> ud_disabled u" "chain_ok (removable db) ss' (snapshot db)"
  shows "undo_inv en ss' (db\<lparr>db_undo := u\<rparr>)"
  using assms by (simp add: undo_inv_def snapshot_def)

text \<open>Taking the youngest state off the history and refilling the memory.\<close>

lemma pop_refill:
  assumes en: "faithful_variants en" and h: "history en u (rev (s # ss))" and b: "ud_back u \<noteq> []"
  shows "\<exists>u'. refill_back en (pop_back u) = (Inr (), u') \<and> history en u' (rev ss) \<and> undo_rest u' = undo_rest u \<and>
    (memory_ok u \<longrightarrow> memory_ok u')"
proof -
  obtain olds where olds: "rev ss @ [s] = olds @ ud_back u" "history_split en u olds" using h by (auto simp: history_def)
  obtain bs t where bs: "ud_back u = bs @ [t]" using b by (cases "ud_back u" rule: rev_cases) auto
  have "history en (pop_back u) (rev ss)"
    using olds bs by (auto simp: history_def history_split_def pop_back_def)
  then obtain u' where u': "refill_back en (pop_back u) = (Inr (), u')" "history en u' (rev ss)" "undo_rest u' = undo_rest (pop_back u)"
    using refill_back_history [OF en] by blast
  moreover have "memory_ok u'" if "memory_ok u"
    by (rule refill_memory [OF u'(1)]) (use that in \<open>auto simp: memory_ok_def pop_back_def\<close>)
  ultimately show ?thesis by (auto simp: undo_rest_def pop_back_def)
qed

lemma restore_youngest:
  assumes en: "faithful_variants en" and inv: "undo_inv en (s # ss) db" and b: "ud_back (db_undo db) \<noteq> []"
  shows "last (ud_back (db_undo db)) = s"
    "\<exists>db1 u. restore_state s (db\<lparr>db_undo := undo_disable (db_undo db)\<rparr>) = (Inr (), db1) \<and>
       refill_back en (pop_back (db_undo db1)) = (Inr (), u) \<and> undo_rest u = undo_rest (undo_disable (db_undo db)) \<and>
       undo_inv en ss (db1\<lparr>db_undo := undo_enable u\<rparr>) \<and> snapshot db1 = revert s (snapshot db) \<and>
       removable db1 = removable db \<and> db_wf db1 \<and> (memory_ok (db_undo db) \<longrightarrow> memory_ok u)"
proof -
  let ?d = "db\<lparr>db_undo := undo_disable (db_undo db)\<rparr>"
  have i: "db_wf db" "history en (db_undo db) (rev (s # ss))" "state_ok (removable db) s (view db) (next_ids db)"
      "chain_ok (removable db) ss (revert s (snapshot db))"
    using inv by (simp_all add: undo_inv_def snapshot_def)
  show "last (ud_back (db_undo db)) = s" using history_last [OF i(2) b] by (metis last_snoc)
  obtain db1 where db1: "restore_state s ?d = (Inr (), db1)" "same_kinds ?d db1" "view db1 = revert_objects s (view db)"
      "next_ids db1 = revert_next s (next_ids db)" "db_undo db1 = undo_disable (db_undo db)"
    using restore_ok [of ?d s] i(1,3) by (auto simp: undo_disable_def)
  have h: "history en (db_undo db1) (rev (s # ss))" "ud_back (db_undo db1) \<noteq> []"
    using i(2) b unfolding db1(5) by (auto simp: history_def history_split_def undo_disable_def)
  obtain u where u: "refill_back en (pop_back (db_undo db1)) = (Inr (), u)" "history en u (rev ss)" "undo_rest u = undo_rest (db_undo db1)"
      "memory_ok (db_undo db1) \<longrightarrow> memory_ok u"
    using pop_refill [OF en h] by blast
  have snap: "snapshot db1 = revert s (snapshot db)" by (simp add: snapshot_def revert_def db1(3,4))
  have "history en (undo_enable u) (rev ss)" using u(2) by (auto simp: history_def history_split_def undo_enable_def)
  then have "undo_inv en ss (db1\<lparr>db_undo := undo_enable u\<rparr>)"
    using db1(2) i(4) snap by (simp add: undo_inv_def same_kinds_def snapshot_def undo_enable_def)
  then show "\<exists>db1 u. restore_state s ?d = (Inr (), db1) \<and> refill_back en (pop_back (db_undo db1)) = (Inr (), u) \<and>
      undo_rest u = undo_rest (undo_disable (db_undo db)) \<and> undo_inv en ss (db1\<lparr>db_undo := undo_enable u\<rparr>) \<and>
      snapshot db1 = revert s (snapshot db) \<and> removable db1 = removable db \<and> db_wf db1 \<and>
      (memory_ok (db_undo db) \<longrightarrow> memory_ok u)"
    using db1(1,2,5) u(1,3,4) snap by (auto simp: same_kinds_def)
qed

lemma snapshot_undo [simp]: "snapshot (db\<lparr>db_undo := u\<rparr>) = snapshot db"
  by (simp add: snapshot_def)

lemma undo_inv_sessions: "undo_inv en ss (db\<lparr>db_undo := u\<lparr>ud_active_sessions := n\<rparr>\<rparr>) = undo_inv en ss (db\<lparr>db_undo := u\<rparr>)"
  by (simp add: undo_inv_def history_def history_split_def)

lemma undo_restores:
  assumes en: "faithful_variants en" and inv: "undo_inv en (s # ss) db" and b: "ud_back (db_undo db) \<noteq> []"
    and active: "ud_active_sessions (db_undo db) \<noteq> 0"
  shows "\<exists>db'. undo en db = (Inr (), db') \<and> undo_inv en ss db' \<and> snapshot db' = revert s (snapshot db) \<and>
    removable db' = removable db \<and> undo_rest (db_undo db')
      = undo_rest ((db_undo db)\<lparr>ud_active_sessions := ud_active_sessions (db_undo db) - 1\<rparr>) \<and>
    (memory_ok (db_undo db) \<longrightarrow> memory_ok (db_undo db'))"
proof -
  obtain db1 u where r: "restore_state s (db\<lparr>db_undo := undo_disable (db_undo db)\<rparr>) = (Inr (), db1)"
      "refill_back en (pop_back (db_undo db1)) = (Inr (), u)" "undo_rest u = undo_rest (undo_disable (db_undo db))"
      "undo_inv en ss (db1\<lparr>db_undo := undo_enable u\<rparr>)" "snapshot db1 = revert s (snapshot db)" "removable db1 = removable db"
      "memory_ok (db_undo db) \<longrightarrow> memory_ok u"
    using restore_youngest(2) [OF en inv b] by blast
  have enabled: "\<not> ud_disabled (db_undo db)" using inv by (simp add: undo_inv_def)
  let ?db = "db1\<lparr>db_undo := (undo_enable u)\<lparr>ud_active_sessions := ud_active_sessions u - 1\<rparr>\<rparr>"
  have "undo en db = (Inr (), ?db)"
    unfolding undo_def Let_def restore_youngest(1) [OF en inv b] using enabled b active r(1,2)
    by (simp add: run_bind_def with_undo_def run_update_def undo_enable_def)
  moreover have "undo_inv en ss ?db" using r(4) by (simp add: undo_inv_sessions)
  ultimately show ?thesis using r(3,5-7) enabled by (simp add: undo_rest_eq undo_enable_def undo_disable_def)
qed

lemma pop_commit_restores:
  assumes en: "faithful_variants en" and inv: "undo_inv en (s # ss) db" and b: "ud_back (db_undo db) \<noteq> []"
    and active: "ud_active_sessions (db_undo db) = 0"
  shows "\<exists>db'. pop_commit en db = (Inr (), db') \<and> undo_inv en ss db' \<and> snapshot db' = revert s (snapshot db) \<and>
    removable db' = removable db \<and> (memory_ok (db_undo db) \<longrightarrow> memory_ok (db_undo db'))"
proof -
  obtain db1 u where r: "restore_state s (db\<lparr>db_undo := undo_disable (db_undo db)\<rparr>) = (Inr (), db1)"
      "refill_back en (pop_back (db_undo db1)) = (Inr (), u)"
      "undo_inv en ss (db1\<lparr>db_undo := undo_enable u\<rparr>)" "snapshot db1 = revert s (snapshot db)" "removable db1 = removable db"
      "memory_ok (db_undo db) \<longrightarrow> memory_ok u"
    using restore_youngest(2) [OF en inv b] by blast
  have "pop_commit en db = (Inr (), db1\<lparr>db_undo := undo_enable u\<rparr>)"
    unfolding pop_commit_def Let_def restore_youngest(1) [OF en inv b] using b active r(1,2)
    by (simp add: run_bind_def with_undo_def run_update_def)
  then show ?thesis using r(3-6) by simp
qed

section \<open>Merge\<close>

lemma undo_merge_composes:
  assumes en: "faithful_variants en" and inv: "undo_inv en (s # p # ss) db" and b: "2 \<le> length (ud_back (db_undo db))"
    and active: "ud_active_sessions (db_undo db) \<noteq> 0"
  shows "\<exists>u'. undo_merge en (db_undo db) = (Inr (), u') \<and> undo_inv en (merge_states p s # ss) (db\<lparr>db_undo := u'\<rparr>) \<and>
    revert (merge_states p s) (snapshot db) = revert p (revert s (snapshot db)) \<and>
    (memory_ok (db_undo db) \<longrightarrow> memory_ok u') \<and> ud_active_sessions u' = ud_active_sessions (db_undo db) - 1"
proof -
  let ?u = "db_undo db"
  have i: "db_wf db" "history en ?u (rev (s # p # ss))" "\<not> ud_disabled ?u" "bounded (removable db) (view db) (next_ids db)"
      "state_ok (removable db) s (view db) (next_ids db)"
      "state_ok (removable db) p (revert_objects s (view db)) (revert_next s (next_ids db))"
      "chain_ok (removable db) ss (revert p (revert s (snapshot db)))"
    using inv by (simp_all add: undo_inv_def snapshot_def revert_def)
  note m = merge_ok [OF i(5,6) next_ids_kind]
  have rb: "bounded (removable db) (revert_objects p (revert_objects s (view db))) (revert_next p (revert_next s (next_ids db)))"
    using chain_ok_bounded [OF i(7)] by (simp add: revert_def snapshot_def)
  obtain olds where olds: "rev ss @ [p, s] = olds @ ud_back ?u" "history_split en ?u olds" using i(2) by (auto simp: history_def)
  obtain bs p' s' where bs: "ud_back ?u = bs @ [p', s']"
  proof -
    obtain xs y where xs: "ud_back ?u = xs @ [y]" using b by (cases "ud_back ?u" rule: rev_cases) auto
    then obtain ys z where "xs = ys @ [z]" using b by (cases xs rule: rev_cases) auto
    then show ?thesis using that xs by simp
  qed
  then have eq: "p' = p" "s' = s" "rev ss = olds @ bs" using olds(1) by auto
  let ?u1 = "?u\<lparr>ud_back := bs @ [merge_states p s]\<rparr>"
  have "history en ?u1 (rev (merge_states p s # ss))"
    using olds(2) eq(3) by (auto simp: history_def history_split_def)
  then obtain u2 where u2: "refill_back en ?u1 = (Inr (), u2)" "history en u2 (rev (merge_states p s # ss))" "undo_rest u2 = undo_rest ?u1"
    using refill_back_history [OF en] by blast
  let ?u3 = "u2\<lparr>ud_active_sessions := ud_active_sessions u2 - 1\<rparr>"
  have "undo_merge en ?u = (Inr (), ?u3)"
    using active bs eq u2(1) by (simp add: undo_merge_def butlast_append run_bind_def run_update_def)
  moreover have r: "revert (merge_states p s) (snapshot db) = revert p (revert s (snapshot db))"
    using m(2,3) rb by (simp add: revert_def snapshot_def)
  moreover have "undo_inv en (merge_states p s # ss) (db\<lparr>db_undo := ?u3\<rparr>)"
    using i(1,3,4,7) m(1) rb u2(2,3) r
    by (simp add: undo_inv_sessions) (simp add: undo_inv_def snapshot_def undo_rest_eq)
  moreover have "memory_ok ?u3" if "memory_ok ?u"
    unfolding memory_ok_sessions by (rule refill_memory [OF u2(1)]) (use that bs in \<open>simp add: memory_ok_def\<close>)
  moreover have "ud_active_sessions ?u3 = ud_active_sessions ?u - 1" using u2(3) by (simp add: undo_rest_eq)
  ultimately show ?thesis by blast
qed

section \<open>Starting a session\<close>

lemma start_pushes:
  assumes inv: "undo_inv en ss db" and k: "keeps_history en (db_undo db) (rev ss)"
  shows "\<exists>u'. start_undo_session en False (db_undo db) = (Inr \<lparr>ses_apply_undo = True, ses_disable_on_exit = False\<rparr>, u') \<and>
    undo_inv en (empty_undo_state # take (ud_max_size (db_undo db) - 1) ss) (db\<lparr>db_undo := u'\<rparr>) \<and> ud_back u' \<noteq> [] \<and>
    ud_active_sessions u' = ud_active_sessions (db_undo db) + 1"
proof -
  let ?u = "db_undo db" and ?n = "ud_max_size (db_undo db) - 1"
  have i: "history en ?u (rev ss)" "\<not> ud_disabled ?u" "chain_ok (removable db) ss (snapshot db)"
    using inv by (simp_all add: undo_inv_def)
  have size: "0 < ud_max_size ?u" using k by (simp add: keeps_history_def)
  obtain u' where u': "start_undo_session en False ?u = (Inr \<lparr>ses_apply_undo = True, ses_disable_on_exit = False\<rparr>, u')"
      "history en u' (drop (length ss + 1 - ud_max_size ?u) (rev ss @ [empty_undo_state]))" "\<not> ud_disabled u'"
      "ud_active_sessions u' = ud_active_sessions ?u + 1" "ud_back u' \<noteq> []"
    using start_undo_session_history [OF i(1) k, of False] i(2) by auto
  have "drop (length ss + 1 - ud_max_size ?u) (rev (empty_undo_state # ss)) = rev (take (ud_max_size ?u) (empty_undo_state # ss))"
    by (simp add: rev_take del: rev.simps(2))
  also have "take (ud_max_size ?u) (empty_undo_state # ss) = empty_undo_state # take ?n ss"
    using size by (cases "ud_max_size ?u") simp_all
  finally have "history en u' (rev (empty_undo_state # take ?n ss))" using u'(2) by simp
  moreover have "chain_ok (removable db) (empty_undo_state # take ?n ss) (snapshot db)"
    using chain_ok_take [OF i(3)] chain_ok_bounded [OF i(3)] state_ok_empty by (simp add: revert_def revert_empty)
  ultimately have "undo_inv en (empty_undo_state # take ?n ss) (db\<lparr>db_undo := u'\<rparr>)"
    using inv u'(3) by (intro undo_inv_undo [OF inv]) simp_all
  then show ?thesis using u'(1,4,5) by blast
qed

section \<open>Starting a session and the memory\<close>

lemma spill_loop_length:
  "spill_loop en u = (Inr x, u') \<Longrightarrow> GRAPHENE_UNDO_BUFF_MAX_SIZE \<le> length (ud_back u) \<Longrightarrow>
    length (ud_back u') + 1 = GRAPHENE_UNDO_BUFF_MAX_SIZE"
proof (induction en u rule: spill_loop.induct)
  case (1 en u)
  obtain r u1 where u1: "spill_front en u = (r, u1)" by (cases "spill_front en u")
  then obtain y where r: "r = Inr y" using "1.prems" by (subst (asm) spill_loop.simps) (auto split: sum.splits)
  have loop: "spill_loop en u1 = (Inr x, u')" using "1.prems" u1 r by (subst (asm) spill_loop.simps) simp
  have len: "length (ud_back u1) = length (ud_back u) - 1" using spill_front_back [of en u y u1] u1 r by simp
  show ?case
  proof (cases "GRAPHENE_UNDO_BUFF_MAX_SIZE \<le> length (ud_back u1)")
    case True
    then show ?thesis using "1.IH" [OF "1.prems"(2), of r u1 y] u1 r loop by simp
  next
    case False
    then have "u' = u1" using loop by (subst (asm) spill_loop.simps) simp
    then show ?thesis using False len "1.prems"(2) by (simp add: GRAPHENE_UNDO_BUFF_MAX_SIZE_def)
  qed
qed

lemma spill_loop_max: "spill_loop en u = (Inr x, u') \<Longrightarrow> ud_max_size u' = ud_max_size u"
proof (induction en u rule: spill_loop.induct)
  case (1 en u)
  show ?case
  proof (cases "GRAPHENE_UNDO_BUFF_MAX_SIZE \<le> length (ud_back u)")
    case True
    obtain r u1 where u1: "spill_front en u = (r, u1)" by (cases "spill_front en u")
    then obtain y where r: "r = Inr y" using "1.prems" True by (subst (asm) spill_loop.simps) (auto split: sum.splits)
    have loop: "spill_loop en u1 = (Inr x, u')" using "1.prems" True u1 r by (subst (asm) spill_loop.simps) simp
    have "ud_max_size u1 = ud_max_size u"
      using u1 r by (auto simp: spill_front_def run_bind_Inr store_undo_state_def storage_store_def Let_def run_defs split: if_splits)
    then show ?thesis using "1.IH" [OF True, of r u1 y] u1 r loop by simp
  next
    case False
    then show ?thesis using "1.prems" by (subst (asm) spill_loop.simps) simp
  qed
qed

lemma trim_loop_back:
  "trim_loop u = (Inr x, u') \<Longrightarrow> length (ud_back u) \<le> ud_max_size u \<Longrightarrow> GRAPHENE_UNDO_BUFF_MAX_SIZE \<le> ud_max_size u \<Longrightarrow>
    ud_back u' = ud_back u \<and> (ud_stack u = [] \<longrightarrow> ud_stack u' = [])"
proof (induction u rule: trim_loop.induct)
  case (1 u)
  show ?case
  proof (cases "ud_max_size u < undo_size u")
    case True
    obtain r u1 where u1: "drop_oldest u = (r, u1)" by (cases "drop_oldest u")
    then obtain y where r: "r = Inr y" using "1.prems" True by (subst (asm) trim_loop.simps) (auto split: sum.splits)
    have loop: "trim_loop u1 = (Inr x, u')" using "1.prems" True u1 r by (subst (asm) trim_loop.simps) simp
    have stack: "ud_stack u \<noteq> []" using True "1.prems"(2) by (auto simp: undo_size_def)
    have "ud_back u1 = ud_back u \<and> ud_max_size u1 = ud_max_size u"
      using u1 r stack True "1.prems"(3)
      by (auto simp: drop_oldest_def run_bind_Inr storage_remove_def run_defs split: if_splits)
    then show ?thesis using "1.IH" [OF True, of r u1 y] u1 r loop "1.prems"(2,3) stack by simp
  next
    case False
    then show ?thesis using "1.prems" by (subst (asm) trim_loop.simps) simp
  qed
qed

lemma start_memory:
  assumes "start_undo_session en False u = (Inr ses, u')" "memory_ok u" "\<not> ud_disabled u"
    "GRAPHENE_UNDO_BUFF_MAX_SIZE + 10 < ud_max_size u"
  shows "memory_ok u'"
proof -
  let ?u0 = "u\<lparr>ud_back := ud_back u @ [empty_undo_state]\<rparr>"
  let ?spill = "\<lambda>u. if GRAPHENE_UNDO_BUFF_MAX_SIZE + 10 \<le> length (ud_back u) then spill_loop en u else (Inr (), u)"
  obtain u1 u2 where u: "?spill ?u0 = (Inr (), u1)" "trim_loop u1 = (Inr (), u2)" "ud_back u' = ud_back u2" "ud_stack u' = ud_stack u2"
    using assms(1,3) by (auto simp: start_undo_session_def Let_def run_bind_Inr run_defs)
  have mem1: "memory_ok u1 \<and> ud_max_size u1 = ud_max_size u"
  proof (cases "GRAPHENE_UNDO_BUFF_MAX_SIZE + 10 \<le> length (ud_back ?u0)")
    case True
    then have loop: "spill_loop en ?u0 = (Inr (), u1)" using u(1) by simp
    then have "length (ud_back u1) + 1 = GRAPHENE_UNDO_BUFF_MAX_SIZE" by (rule spill_loop_length) (use True in simp)
    moreover have "ud_max_size u1 = ud_max_size ?u0" using spill_loop_max [OF loop] .
    ultimately show ?thesis by (simp add: memory_ok_def GRAPHENE_UNDO_BUFF_MAX_SIZE_def)
  next
    case False
    then show ?thesis using u(1) assms(2) by (auto simp: memory_ok_def)
  qed
  then have "ud_back u2 = ud_back u1 \<and> (ud_stack u1 = [] \<longrightarrow> ud_stack u2 = [])"
    using trim_loop_back [OF u(2)] assms(4) by (auto simp: memory_ok_def)
  then show ?thesis using mem1 u(3,4) by (auto simp: memory_ok_def)
qed

end
