(* ===== verification/Undo_Refinement.thy ===== *)
theory Undo_Refinement
  imports Undo_Sessions
begin

text \<open>
  The object database with its undo history implements a stack of snapshots.
\<close>

section \<open>The specification\<close>

text \<open>The present snapshot and the saved ones, the youngest first.\<close>

type_synonym 'v spec_state = "'v snapshot \<times> 'v snapshot list"

inductive spec_step :: "'v spec_state \<Rightarrow> 'v spec_state \<Rightarrow> bool" where
  spec_change: "spec_step (c, s # ss) (c', s # ss)"
| spec_start: "spec_step (c, ss) (c, c # take n ss)"
| spec_undo: "spec_step (c, s # ss) (s, ss)"
| spec_merge: "spec_step (c, s # s' # ss) (c, s' # ss)"
| spec_commit: "spec_step (c, ss) (c, ss)"

inductive_cases spec_undoE: "spec_step (c, []) x"

section \<open>The implementation\<close>

definition all_states :: "'v undo_env \<Rightarrow> 'v undo_database \<Rightarrow> 'v undo_state list" where
  "all_states en u = map (\<lambda>sid. case fetch_optional en u sid of
       Some s \<Rightarrow> snd (undo_state_assign en s) | None \<Rightarrow> empty_undo_state) (ud_stack u) @ ud_back u"

lemma all_states_eq:
  assumes "faithful_variants en" "history en u ss"
  shows "all_states en u = ss"
proof -
  obtain olds where olds: "ss = olds @ ud_back u" "history_split en u olds" using assms(2) by (auto simp: history_def)
  have "(case fetch_optional en u (state_hash en s) of Some s \<Rightarrow> snd (undo_state_assign en s) | None \<Rightarrow> empty_undo_state) = s"
    if s: "s \<in> set olds" for s
  proof -
    have "ud_open u" "state_storable s" "std_map_find (ud_disk u) (state_hash en s) = Some (get_serializable_undo_state en s)"
      using olds(2) s by (auto simp: history_split_def)
    then show ?thesis
      using undo_state_assign_eq [OF assms(1), of s] assms(1) by (simp add: fetch_optional_def faithful_variants_def)
  qed
  then have "map (\<lambda>sid. case fetch_optional en u sid of
       Some s \<Rightarrow> snd (undo_state_assign en s) | None \<Rightarrow> empty_undo_state) (map (state_hash en) olds) = olds"
    by (simp add: map_idI)
  then show ?thesis using olds by (simp add: all_states_def history_split_def)
qed

definition undo_states :: "'v undo_env \<Rightarrow> 'v object_database \<Rightarrow> 'v undo_state list" where
  "undo_states en db = rev (all_states en (db_undo db))"

definition undo_ok :: "'v undo_env \<Rightarrow> 'v object_database \<Rightarrow> bool" where
  "undo_ok en db \<longleftrightarrow> undo_inv en (undo_states en db) db \<and> memory_ok (db_undo db)"

definition undo_abs :: "'v undo_env \<Rightarrow> 'v object_database \<Rightarrow> 'v spec_state" where
  "undo_abs en db = (snapshot db, snapshots (undo_states en db) (snapshot db))"

definition can_start :: "'v undo_env \<Rightarrow> 'v object_database \<Rightarrow> bool" where
  "can_start en db \<longleftrightarrow> spillable en (all_states en (db_undo db)) \<and> ud_open (db_undo db) \<and>
     GRAPHENE_UNDO_BUFF_MAX_SIZE + 10 < ud_max_size (db_undo db)"

inductive db_step :: "'v undo_env \<Rightarrow> 'v object_database \<Rightarrow> 'v object_database \<Rightarrow> bool" for en where
  step_change: "change db db' \<Longrightarrow> undo_size (db_undo db) \<noteq> 0 \<Longrightarrow> db_step en db db'"
| step_start: "can_start en db \<Longrightarrow> with_undo (start_undo_session en False) db = (Inr ses, db') \<Longrightarrow> db_step en db db'"
| step_undo: "undo en db = (Inr (), db') \<Longrightarrow> db_step en db db'"
| step_merge: "with_undo (undo_merge en) db = (Inr (), db') \<Longrightarrow> db_step en db db'"
| step_commit: "with_undo undo_commit db = (Inr (), db') \<Longrightarrow> db_step en db db'"
| step_pop: "pop_commit en db = (Inr (), db') \<Longrightarrow> db_step en db db'"

inductive_cases db_stepE: "db_step en db db'"

lemma undo_okI:
  assumes "faithful_variants en" "undo_inv en ss db" "memory_ok (db_undo db)"
  shows "undo_ok en db" "undo_states en db = ss" "undo_abs en db = (snapshot db, snapshots ss (snapshot db))"
proof -
  show s: "undo_states en db = ss"
    using all_states_eq [OF assms(1)] assms(2) by (auto simp: undo_states_def undo_inv_def)
  then show "undo_ok en db" "undo_abs en db = (snapshot db, snapshots ss (snapshot db))"
    using assms(2,3) by (simp_all add: undo_ok_def undo_abs_def)
qed

lemma undo_ok_back:
  assumes "undo_ok en db"
  shows "ud_back (db_undo db) = [] \<longleftrightarrow> undo_states en db = []"
    "undo_size (db_undo db) = length (undo_states en db)"
    "2 \<le> length (undo_states en db) \<Longrightarrow> 2 \<le> length (ud_back (db_undo db))"
proof -
  have h: "history en (db_undo db) (rev (undo_states en db))" using assms by (simp add: undo_ok_def undo_inv_def)
  show s: "undo_size (db_undo db) = length (undo_states en db)" using history_size [OF h] by simp
  have m: "ud_stack (db_undo db) \<noteq> [] \<longrightarrow> 5 < length (ud_back (db_undo db))" using assms by (simp add: undo_ok_def memory_ok_def)
  then show "ud_back (db_undo db) = [] \<longleftrightarrow> undo_states en db = []"
    using s by (cases "ud_stack (db_undo db)") (auto simp: undo_size_def)
  show "2 \<le> length (ud_back (db_undo db))" if "2 \<le> length (undo_states en db)"
    using m s that by (cases "ud_stack (db_undo db)") (auto simp: undo_size_def)
qed

section \<open>Every operation is a step of the specification\<close>

lemma change_refines:
  assumes en: "faithful_variants en" and ok: "undo_ok en db" and c: "change db db'" and n: "undo_states en db \<noteq> []"
  shows "undo_ok en db'" "snd (undo_abs en db') = snd (undo_abs en db)" "undo_states en db' \<noteq> []"
    "undo_rest (db_undo db') = undo_rest (db_undo db)"
proof -
  obtain s ss where ss: "undo_states en db = s # ss" using n by (cases "undo_states en db") auto
  have inv: "undo_inv en (s # ss) db" "ud_back (db_undo db) \<noteq> []" using ok ss undo_ok_back(1) [OF ok] by (simp_all add: undo_ok_def)
  obtain t where t: "undo_inv en (t # ss) db'" "revert t (snapshot db') = revert s (snapshot db)" "ud_back (db_undo db') \<noteq> []"
      "undo_rest (db_undo db') = undo_rest (db_undo db)" "length (ud_back (db_undo db')) = length (ud_back (db_undo db))"
    using change_keeps [OF c inv] by blast
  have "undo_size (db_undo db') = undo_size (db_undo db)"
    using t(1) inv(1) history_size [of en "db_undo db'"] history_size [of en "db_undo db"] by (fastforce simp: undo_inv_def)
  then have "memory_ok (db_undo db')"
    using ok t(5) by (auto simp: undo_ok_def memory_ok_def undo_size_def)
  note i = undo_okI [OF en t(1) this]
  show "undo_ok en db'" "undo_states en db' \<noteq> []" "undo_rest (db_undo db') = undo_rest (db_undo db)" using i t(4) by simp_all
  show "snd (undo_abs en db') = snd (undo_abs en db)" using i(3) t(2) ss by (simp add: undo_abs_def)
qed

lemma undo_refines:
  assumes en: "faithful_variants en" and ok: "undo_ok en db" and ss: "undo_states en db = s # ss"
    and active: "ud_active_sessions (db_undo db) \<noteq> 0"
  shows "\<exists>db'. undo en db = (Inr (), db') \<and> undo_ok en db' \<and> undo_states en db' = ss \<and> snapshot db' = revert s (snapshot db) \<and>
    undo_rest (db_undo db') = undo_rest ((db_undo db)\<lparr>ud_active_sessions := ud_active_sessions (db_undo db) - 1\<rparr>)"
proof -
  have inv: "undo_inv en (s # ss) db" "ud_back (db_undo db) \<noteq> []" using ok ss undo_ok_back(1) [OF ok] by (simp_all add: undo_ok_def)
  obtain db' where db': "undo en db = (Inr (), db')" "undo_inv en ss db'" "snapshot db' = revert s (snapshot db)"
      "undo_rest (db_undo db') = undo_rest ((db_undo db)\<lparr>ud_active_sessions := ud_active_sessions (db_undo db) - 1\<rparr>)"
      "memory_ok (db_undo db')"
    using undo_restores [OF en inv active] ok by (auto simp: undo_ok_def)
  then show ?thesis using undo_okI [OF en db'(2)] db' by blast
qed

lemma pop_refines:
  assumes en: "faithful_variants en" and ok: "undo_ok en db" and ss: "undo_states en db = s # ss"
    and active: "ud_active_sessions (db_undo db) = 0"
  shows "\<exists>db'. pop_commit en db = (Inr (), db') \<and> undo_ok en db' \<and> undo_states en db' = ss \<and> snapshot db' = revert s (snapshot db)"
proof -
  have inv: "undo_inv en (s # ss) db" "ud_back (db_undo db) \<noteq> []" using ok ss undo_ok_back(1) [OF ok] by (simp_all add: undo_ok_def)
  obtain db' where db': "pop_commit en db = (Inr (), db')" "undo_inv en ss db'" "snapshot db' = revert s (snapshot db)"
      "memory_ok (db_undo db')"
    using pop_commit_restores [OF en inv active] ok by (auto simp: undo_ok_def)
  then show ?thesis using undo_okI [OF en db'(2)] by blast
qed

lemma merge_refines:
  assumes en: "faithful_variants en" and ok: "undo_ok en db" and ss: "undo_states en db = s # p # ss"
    and active: "ud_active_sessions (db_undo db) \<noteq> 0"
  shows "\<exists>db'. with_undo (undo_merge en) db = (Inr (), db') \<and> undo_ok en db' \<and> snapshot db' = snapshot db \<and>
    undo_states en db' = merge_states p s # ss \<and> revert (merge_states p s) (snapshot db) = revert p (revert s (snapshot db)) \<and>
    ud_active_sessions (db_undo db') = ud_active_sessions (db_undo db) - 1"
proof -
  have inv: "undo_inv en (s # p # ss) db" "2 \<le> length (ud_back (db_undo db))"
    using ok ss undo_ok_back(3) [OF ok] by (simp_all add: undo_ok_def)
  obtain u' where u': "undo_merge en (db_undo db) = (Inr (), u')" "undo_inv en (merge_states p s # ss) (db\<lparr>db_undo := u'\<rparr>)"
      "revert (merge_states p s) (snapshot db) = revert p (revert s (snapshot db))" "memory_ok u'"
      "ud_active_sessions u' = ud_active_sessions (db_undo db) - 1"
    using undo_merge_composes [OF en inv active] ok by (auto simp: undo_ok_def)
  then show ?thesis using undo_okI [OF en u'(2)] by (simp add: with_undo_def)
qed

lemma start_refines:
  assumes en: "faithful_variants en" and ok: "undo_ok en db" and can: "can_start en db"
  shows "\<exists>db'. with_undo (start_undo_session en False) db = (Inr \<lparr>ses_apply_undo = True, ses_disable_on_exit = False\<rparr>, db') \<and>
    undo_ok en db' \<and> snapshot db' = snapshot db \<and> undo_states en db' = empty_undo_state # take (ud_max_size (db_undo db) - 1) (undo_states en db) \<and>
    ud_active_sessions (db_undo db') = ud_active_sessions (db_undo db) + 1"
proof -
  let ?ss = "undo_states en db"
  have inv: "undo_inv en ?ss db" "memory_ok (db_undo db)" using ok by (simp_all add: undo_ok_def)
  have "keeps_history en (db_undo db) (rev ?ss)"
    using can inv(2) by (simp add: keeps_history_def can_start_def undo_states_def memory_ok_def)
  then obtain u' where u': "start_undo_session en False (db_undo db) = (Inr \<lparr>ses_apply_undo = True, ses_disable_on_exit = False\<rparr>, u')"
      "undo_inv en (empty_undo_state # take (ud_max_size (db_undo db) - 1) ?ss) (db\<lparr>db_undo := u'\<rparr>)"
      "ud_active_sessions u' = ud_active_sessions (db_undo db) + 1"
    using start_pushes [OF inv(1)] by blast
  have "memory_ok u'"
    using start_memory [OF u'(1) inv(2)] inv(1) can by (simp add: undo_inv_def can_start_def)
  then show ?thesis using undo_okI [OF en u'(2)] u' by (simp add: with_undo_def)
qed

lemma undo_ok_sessions:
  assumes "undo_ok en db"
  shows "undo_ok en (db\<lparr>db_undo := (db_undo db)\<lparr>ud_active_sessions := n\<rparr>\<rparr>)"
    "undo_abs en (db\<lparr>db_undo := (db_undo db)\<lparr>ud_active_sessions := n\<rparr>\<rparr>) = undo_abs en db"
proof -
  have "undo_states en (db\<lparr>db_undo := (db_undo db)\<lparr>ud_active_sessions := n\<rparr>\<rparr>) = undo_states en db"
    by (simp add: undo_states_def all_states_def fetch_optional_def cong: option.case_cong)
  then show "undo_ok en (db\<lparr>db_undo := (db_undo db)\<lparr>ud_active_sessions := n\<rparr>\<rparr>)"
    "undo_abs en (db\<lparr>db_undo := (db_undo db)\<lparr>ud_active_sessions := n\<rparr>\<rparr>) = undo_abs en db"
    using assms by (simp_all add: undo_ok_def undo_abs_def undo_inv_sessions)
qed

lemma db_step_refines:
  assumes en: "faithful_variants en" and ok: "undo_ok en db" and step: "db_step en db db'"
  shows "undo_ok en db' \<and> spec_step (undo_abs en db) (undo_abs en db')"
  using step
proof cases
  case step_change
  then have n: "undo_states en db \<noteq> []" using undo_ok_back(2) [OF ok] by auto
  note c = change_refines [OF en ok step_change(1) n]
  obtain s ss where "snd (undo_abs en db) = s # ss" using n by (cases "undo_states en db") (auto simp: undo_abs_def)
  then show ?thesis using c(1,2) by (metis prod.collapse spec_change)
next
  case (step_start ses)
  then show ?thesis
    using start_refines [OF en ok step_start(1)] by (auto simp: undo_abs_def snapshots_take revert_def revert_empty intro!: spec_start)
next
  case step_undo
  then have a: "ud_active_sessions (db_undo db) \<noteq> 0" "ud_back (db_undo db) \<noteq> []" by (auto simp: undo_def split: if_splits)
  then obtain s ss where ss: "undo_states en db = s # ss" using undo_ok_back(1) [OF ok] by (cases "undo_states en db") auto
  then show ?thesis using undo_refines [OF en ok ss a(1)] step_undo by (auto simp: undo_abs_def intro: spec_undo)
next
  case step_merge
  then have a: "ud_active_sessions (db_undo db) \<noteq> 0" "2 \<le> length (ud_back (db_undo db))"
    by (auto simp: undo_merge_def with_undo_def split: if_splits)
  then have "2 \<le> length (undo_states en db)" using undo_ok_back(2) [OF ok] by (simp add: undo_size_def)
  then obtain s p ss where ss: "undo_states en db = s # p # ss" by (metis Suc_le_length_iff numeral_2_eq_2)
  then show ?thesis using merge_refines [OF en ok ss a(1)] step_merge by (auto simp: undo_abs_def intro: spec_merge)
next
  case step_commit
  then have "db' = db \<or> db' = db\<lparr>db_undo := (db_undo db)\<lparr>ud_active_sessions := ud_active_sessions (db_undo db) - 1\<rparr>\<rparr>"
    by (auto simp: undo_commit_def with_undo_def split: if_splits)
  then show ?thesis using undo_ok_sessions [OF ok] ok by (metis prod.collapse spec_commit)
next
  case step_pop
  then have a: "ud_active_sessions (db_undo db) = 0" "ud_back (db_undo db) \<noteq> []" by (auto simp: pop_commit_def split: if_splits)
  then obtain s ss where ss: "undo_states en db = s # ss" using undo_ok_back(1) [OF ok] by (cases "undo_states en db") auto
  then show ?thesis using pop_refines [OF en ok ss a(1)] step_pop by (auto simp: undo_abs_def intro: spec_undo)
qed

section \<open>A session that is undone\<close>

lemma changes_refine:
  assumes "change\<^sup>*\<^sup>* db db'" "faithful_variants en" "undo_ok en db" "undo_states en db \<noteq> []"
  shows "undo_ok en db' \<and> snd (undo_abs en db') = snd (undo_abs en db) \<and> undo_states en db' \<noteq> [] \<and>
    undo_rest (db_undo db') = undo_rest (db_undo db)"
  using assms
proof (induction rule: rtranclp_induct)
  case (step db1 db2)
  then show ?case using change_refines [of en db1 db2] by auto
qed simp

lemma session_restores:
  assumes en: "faithful_variants en" and ok: "undo_ok en db" and can: "can_start en db"
    and active: "ud_active_sessions (db_undo db) + 1 \<noteq> 0"
    and start: "with_undo (start_undo_session en False) db = (Inr ses, db1)" and changes: "change\<^sup>*\<^sup>* db1 db2"
  shows "\<exists>db3. session_destroy en ses db2 = (Inr (), db3) \<and> undo_ok en db3 \<and> view db3 = view db \<and> next_ids db3 = next_ids db"
proof -
  have n: "ses = \<lparr>ses_apply_undo = True, ses_disable_on_exit = False\<rparr>" "undo_ok en db1" "snapshot db1 = snapshot db"
      "undo_states en db1 = empty_undo_state # take (ud_max_size (db_undo db) - 1) (undo_states en db)"
      "ud_active_sessions (db_undo db1) = ud_active_sessions (db_undo db) + 1"
    using start_refines [OF en ok can] start by auto
  have c: "undo_ok en db2" "snd (undo_abs en db2) = snd (undo_abs en db1)" "undo_states en db2 \<noteq> []"
      "ud_active_sessions (db_undo db2) \<noteq> 0"
    using changes_refine [OF changes en n(2)] n(4,5) active by (simp_all add: undo_rest_eq)
  then obtain s ss where ss: "undo_states en db2 = s # ss" by (cases "undo_states en db2") auto
  have "revert s (snapshot db2) = snapshot db"
    using c(2) ss n(3,4) by (simp add: undo_abs_def revert_def revert_empty)
  then show ?thesis
    using undo_refines [OF en c(1) ss c(4)] n(1)
    by (auto simp: session_destroy_def run_bind_def run_return_def snapshot_def)
qed

end
