(* ===== verification/Undo_Restart.thy ===== *)
theory Undo_Restart
  imports Undo_Refinement
begin

text \<open>
  The history across a shutdown and a restart, its length, and the histories that cannot be loaded
  again because two states have the same hash.
\<close>

section \<open>Saving and loading\<close>

lemma save_states:
  assumes "history_split en u olds" "spillable en (olds @ bs)" "ud_open u"
  shows "\<exists>u'. run_for (save_one en) bs u = (Inr (), u') \<and> history_split en u' (olds @ bs) \<and> undo_rest u' = undo_rest u"
  using assms
proof (induction bs arbitrary: u olds)
  case (Cons s bs)
  let ?h = "state_hash en s"
  let ?u = "u\<lparr>ud_disk := std_map_set ?h (get_serializable_undo_state en s) (ud_disk u), ud_stack := ud_stack u @ [?h]\<rparr>"
  have s: "state_storable s" "?h \<noteq> 0" "\<forall>y \<in> set olds. state_hash en y \<noteq> ?h"
    using Cons.prems(2) by (auto simp: spillable_def image_iff)
  have "save_one en s u = (Inr (), ?u)"
    using Cons.prems(3) by (simp add: save_one_def store_undo_state_def storage_store_def run_bind_def run_defs state_hash_def Let_def)
  moreover have "history_split en ?u (olds @ [s])"
    using Cons.prems(1,3) s by (auto simp: history_split_def std_map.find_put)
  then obtain u' where "run_for (save_one en) bs ?u = (Inr (), u')" "history_split en u' ((olds @ [s]) @ bs)" "undo_rest u' = undo_rest ?u"
    using Cons.IH [of ?u "olds @ [s]"] Cons.prems(2,3) by auto
  ultimately show ?case by (auto simp: run_bind_def undo_rest_def)
qed (auto simp: run_return_def)

lemma load_states:
  assumes "faithful_variants en" "history en u ss" "length xs \<le> length (ud_stack u)"
  shows "\<exists>u' bs. run_for (\<lambda>_. load_one en) xs u = (Inr (), u') \<and> history en u' ss \<and> undo_rest u' = undo_rest u \<and>
    ud_back u' = bs @ ud_back u \<and> length bs = length xs"
  using assms(2,3)
proof (induction xs arbitrary: u)
  case (Cons x xs)
  then have "ud_stack u \<noteq> []" by auto
  then obtain u1 s where u1: "load_one en u = (Inr (), u1)" "history en u1 ss" "undo_rest u1 = undo_rest u" "ud_back u1 = s # ud_back u"
    using load_one_history [OF assms(1) Cons.prems(1)] by blast
  have "length (ud_stack u1) + length (ud_back u1) = length (ud_stack u) + length (ud_back u)"
    using history_size [OF u1(2)] history_size [OF Cons.prems(1)] by (simp add: undo_size_def)
  then obtain u2 bs where "run_for (\<lambda>_. load_one en) xs u1 = (Inr (), u2)" "history en u2 ss" "undo_rest u2 = undo_rest u1"
      "ud_back u2 = bs @ ud_back u1" "length bs = length xs"
    using Cons.IH [OF u1(2)] Cons.prems(2) u1(4) by auto
  then have "run_for (\<lambda>_. load_one en) (x # xs) u = (Inr (), u2)" "history en u2 ss" "undo_rest u2 = undo_rest u"
      "ud_back u2 = (bs @ [s]) @ ud_back u" "length (bs @ [s]) = length (x # xs)"
    using u1 by (simp_all add: run_bind_def)
  then show ?case by blast
qed (auto simp: run_return_def)

text \<open>The files that a new process finds.\<close>

definition restarted :: "'v undo_database \<Rightarrow> 'v undo_database" where
  "restarted u = new_undo_database\<lparr>ud_disk := ud_disk u, ud_stack_file := ud_stack_file u\<rparr>"

lemma restart_keeps_history:
  assumes en: "faithful_variants en" and h: "history en u ss" and s: "spillable en ss" "ud_open u" and n: "ss \<noteq> []"
  shows "\<exists>u1 u2. undo_save_to_file en u = (Inr (), u1) \<and> undo_from_file en (restarted u1) = (Inr (), u2) \<and>
    history en u2 ss \<and> length (ud_back u2) = min (length ss) GRAPHENE_UNDO_BUFF_MAX_SIZE"
proof -
  obtain olds where olds: "ss = olds @ ud_back u" "history_split en u olds" using h by (auto simp: history_def)
  obtain u0 where u0: "run_for (save_one en) (ud_back u) u = (Inr (), u0)" "history_split en u0 ss" "ud_open u0"
    using save_states [OF olds(2)] olds(1) s by (auto simp: undo_rest_eq)
  have stack: "ud_stack u0 = map (state_hash en) ss" using u0(2) by (simp add: history_split_def)
  let ?u1 = "storage_close (u0\<lparr>ud_stack_file := Some (ud_stack u0)\<rparr>)"
  have save: "undo_save_to_file en u = (Inr (), ?u1)"
    using u0(1) s(2) n stack by (simp add: undo_save_to_file_def run_bind_def run_defs)
  let ?v = "(storage_open (storage_close (restarted ?u1)))\<lparr>ud_stack := ud_stack u0\<rparr>"
  let ?n = "min (length ss) GRAPHENE_UNDO_BUFF_MAX_SIZE"
  have v: "ud_back ?v = []" "ud_stack ?v = ud_stack u0"
    by (simp_all add: storage_open_def storage_close_def restarted_def new_undo_database_def)
  have "history_split en ?v ss"
    using u0(2) by (auto simp: history_split_def storage_open_def storage_close_def restarted_def)
  then have "history en ?v ss" using v(1) by (simp add: history_def)
  then obtain u2 bs where u2: "run_for (\<lambda>_. load_one en) [0..<?n] ?v = (Inr (), u2)" "history en u2 ss" "ud_back u2 = bs" "length bs = ?n"
    using load_states [OF en, of ?v ss "[0..<?n]"] v stack by auto
  have "undo_from_file en (restarted ?u1) = (Inr (), u2)"
    using u2(1) stack by (simp add: undo_from_file_def restarted_def storage_open_def storage_close_def Let_def)
  then show ?thesis using save u2 by blast
qed

section \<open>The length of the history\<close>

lemma drop_oldest_max: "drop_oldest u = (Inr x, u') \<Longrightarrow> ud_max_size u' = ud_max_size u"
  by (auto simp: drop_oldest_def run_bind_Inr storage_remove_def run_defs split: if_splits)

lemma trim_loop_bound: "trim_loop u = (Inr x, u') \<Longrightarrow> undo_size u' \<le> ud_max_size u'"
proof (induction u rule: trim_loop.induct)
  case (1 u)
  then show ?case
    by (cases "ud_max_size u < undo_size u"; subst (asm) (2) trim_loop.simps) (auto split: prod.splits sum.splits)
qed

lemma start_bound:
  assumes "start_undo_session en force_enable u = (Inr ses, u')" "\<not> ud_disabled u \<or> force_enable"
  shows "undo_size u' \<le> ud_max_size u'"
  using assms by (auto simp: start_undo_session_def Let_def run_bind_Inr run_defs undo_size_def simp del: trim_loop.simps dest!: trim_loop_bound)

section \<open>States with the same hash\<close>

text \<open>
  Two stored states with the same hash share one entry of the store: the first one to be loaded
  takes it away, and loading the other one fails.
\<close>

lemma load_same_hash:
  assumes "last (ud_stack u) = h" "last (butlast (ud_stack u)) = h" "load_one en u = (Inr (), u1)" "1 < length (ud_stack u)"
  shows "load_one en u1 = (Inl (Fc_assert ''load stack back failed''), u1\<lparr>ud_back := empty_undo_state # ud_back u1\<rparr>)"
proof -
  have u1: "last (ud_stack u1) = h" "ud_disk u1 = std_map_erase h (ud_disk u)"
    using assms(1-3) by (auto elim!: load_one_Inr)
  have "fetch_optional en (u1\<lparr>ud_back := b\<rparr>) h = None" for b
    using u1(2) by (simp add: fetch_optional_def std_map.find_erase)
  then show ?thesis using u1(1) by (simp add: load_one_def Let_def)
qed

lemma refill_same_hash:
  assumes "ud_stack u = hs @ [h, h]" "length (ud_back u) \<le> 5"
  shows "\<exists>e u'. refill_back en u = (Inl e, u') \<and> ud_disabled u' = ud_disabled u"
proof -
  have stack: "last (ud_stack u) = h" "last (butlast (ud_stack u)) = h" "1 < length (ud_stack u)" "ud_stack u \<noteq> []"
    using assms(1) by (simp_all add: butlast_append)
  obtain r u1 where u1: "load_one en u = (r, u1)" by (cases "load_one en u")
  have d1: "ud_disabled u1 = ud_disabled u"
    using u1 by (auto simp: load_one_def Let_def run_bind_def run_defs storage_remove_def split: option.splits prod.splits sum.splits if_splits)
  have b: "ud_stack u \<noteq> [] \<and> length (ud_back u) < GRAPHENE_UNDO_BUFF_MAX_SIZE"
    using stack(4) assms(2) by (simp add: GRAPHENE_UNDO_BUFF_MAX_SIZE_def)
  have "\<exists>e u'. load_loop en u = (Inl e, u') \<and> ud_disabled u' = ud_disabled u"
  proof (cases r)
    case (Inl e)
    then show ?thesis using u1 b d1 by (subst load_loop.simps) simp
  next
    case (Inr x)
    then have l: "load_one en u = (Inr (), u1)" using u1 by simp
    then have "ud_stack u1 \<noteq> [] \<and> length (ud_back u1) < GRAPHENE_UNDO_BUFF_MAX_SIZE"
      using assms by (auto elim!: load_one_Inr simp: butlast_append GRAPHENE_UNDO_BUFF_MAX_SIZE_def)
    then have "load_loop en u1 = (Inl (Fc_assert ''load stack back failed''), u1\<lparr>ud_back := empty_undo_state # ud_back u1\<rparr>)"
      using load_same_hash [OF stack(1,2) l stack(3)] by (subst load_loop.simps) simp
    moreover have "load_loop en u = load_loop en u1" using l b by (subst load_loop.simps) simp
    ultimately show ?thesis using d1 by simp
  qed
  then show ?thesis using assms(2) stack(4) by (simp add: refill_back_def)
qed

section \<open>Restoring leaves a disabled history alone\<close>

definition keeps_undo :: "('v object_database, 'a) run \<Rightarrow> bool" where
  "keeps_undo f \<longleftrightarrow> (\<forall>db. ud_disabled (db_undo db) \<longrightarrow> db_undo (snd (f db)) = db_undo db)"

lemma keeps_undo_bind:
  fixes f :: "('a object_database, 'b) run"
  assumes "keeps_undo f" "\<And>x. keeps_undo (g x)"
  shows "keeps_undo (run_bind f g)"
  unfolding keeps_undo_def
proof (intro allI impI)
  fix db :: "'a object_database"
  assume d: "ud_disabled (db_undo db)"
  obtain r db1 where f: "f db = (r, db1)" by (cases "f db")
  then have "db_undo db1 = db_undo db" using assms(1) d by (auto simp: keeps_undo_def)
  then show "db_undo (snd (run_bind f g db)) = db_undo db"
    using assms(2) f d by (cases r) (auto simp: run_bind_def keeps_undo_def)
qed

lemma keeps_undo_for: "(\<And>x. keeps_undo (f x)) \<Longrightarrow> keeps_undo (run_for f xs)"
proof (induction xs)
  case Nil
  then show ?case by (simp add: keeps_undo_def run_return_def)
next
  case (Cons x xs)
  then show ?case by (simp add: keeps_undo_bind)
qed

lemma keeps_undo_operations:
  "keeps_undo (db_modify obj m)" "keeps_undo (db_remove obj)" "keeps_undo (db_insert obj)" "keeps_undo (set_next_id s t n)"
  "keeps_undo (run_result r)" "keeps_undo (run_get f)"
  by (auto simp: keeps_undo_def db_modify_def db_remove_def db_insert_def set_next_id_def run_bind_def run_defs with_undo_def
      on_modify_def on_remove_def split: sum.splits prod.splits)

lemma keeps_undo_found: "(\<And>x. keeps_undo (g x)) \<Longrightarrow> keeps_undo (\<lambda>db. run_bind (run_result (r db)) g db)"
  by (auto simp: keeps_undo_def run_bind_def run_result_def split: sum.splits)

lemma keeps_undo_restore: "keeps_undo (restore_state s)"
  unfolding restore_state_def
  by (intro keeps_undo_bind keeps_undo_for keeps_undo_operations keeps_undo_found)

lemma undo_same_hash:
  assumes stack: "ud_stack (db_undo db) = hs @ [h, h]" and b: "ud_back (db_undo db) \<noteq> []" "length (ud_back (db_undo db)) \<le> 6"
    and u: "\<not> ud_disabled (db_undo db)" "ud_active_sessions (db_undo db) \<noteq> 0"
  shows "\<exists>e db'. undo en db = (Inl e, db') \<and> ud_disabled (db_undo db')"
proof -
  let ?d = "db\<lparr>db_undo := undo_disable (db_undo db)\<rparr>" and ?s = "last (ud_back (db_undo db))"
  obtain r db1 where r: "restore_state ?s ?d = (r, db1)" by (cases "restore_state ?s ?d")
  have db1: "db_undo db1 = undo_disable (db_undo db)"
    using keeps_undo_restore [of ?s] r unfolding keeps_undo_def undo_disable_def
    by (metis object_database.select_convs(2) object_database.surjective object_database.update_convs(2) snd_conv undo_database.select_convs(2)
        undo_database.surjective undo_database.update_convs(2))
  have "ud_stack (pop_back (db_undo db1)) = hs @ [h, h]" "length (ud_back (pop_back (db_undo db1))) \<le> 5"
      "ud_disabled (pop_back (db_undo db1))"
    using stack b by (simp_all add: db1 pop_back_def undo_disable_def)
  then obtain e u' where "refill_back en (pop_back (db_undo db1)) = (Inl e, u')" "ud_disabled u'"
    using refill_same_hash by blast
  then show ?thesis
    using u b(1) r db1 by (cases r) (simp_all add: undo_def run_bind_def with_undo_def run_update_def Let_def undo_disable_def)
qed

section \<open>A key that moved to another object\<close>

lemma undo_unique_key:
  assumes u: "\<not> ud_disabled (db_undo db)" "ud_active_sessions (db_undo db) \<noteq> 0" "ud_back (db_undo db) = bs @ [s]"
    and s: "old_values s = (oid, old) # olds" "obj_id old = oid"
    and g: "get_index db (id_space oid) (id_type oid) = Inr \<lparr>pi_derived = Generic gi, pi_next_id = n\<rparr>"
      "std_map_find (gi_indices gi) oid = Some cur" "obj_id cur = oid"
    and clash: "(oid', x) \<in> set (gi_indices gi)" "oid' \<noteq> oid" "gi_clash gi x old"
  shows "\<exists>db'. undo en db = (Inl (Fc_assert ''Could not modify object, most likely a index constraint was violated''), db') \<and>
    find_object db' oid = Inr None \<and> ud_disabled (db_undo db')"
proof -
  let ?d = "db\<lparr>db_undo := undo_disable (db_undo db)\<rparr>"
  let ?gi = "gi\<lparr>gi_indices := std_map_erase oid (gi_indices gi)\<rparr>"
  let ?db = "set_index (id_space oid) (id_type oid) \<lparr>pi_derived = Generic ?gi, pi_next_id = n\<rparr> ?d"
  have gd: "get_index ?d (id_space oid) (id_type oid) = Inr \<lparr>pi_derived = Generic gi, pi_next_id = n\<rparr>" using g(1) by simp
  have "(oid', x) \<in> set (std_map_erase oid (gi_indices gi))" using clash(1,2) by (simp add: std_map_erase_def)
  then have "\<not> generic_accepts gi (std_map_erase oid (gi_indices gi)) old"
    using clash(3) by (force simp: generic_accepts_def list_all_iff)
  then have "generic_modify oid (\<lambda>_. old) gi = (Inl (Fc_assert ''Could not modify object, most likely a index constraint was violated''), ?gi)"
    using g(2) by (simp add: generic_modify_def Let_def)
  then have "db_modify cur (\<lambda>_. old) ?d = (Inl (Fc_assert ''Could not modify object, most likely a index constraint was violated''), ?db)"
    using gd g(3) by (simp add: db_modify_def run_bind_def run_defs with_undo_def on_modify_def undo_disable_def)
  moreover have "db_get_object ?d (obj_id old) = Inr cur"
    using gd g(2) s(2) by (simp add: db_get_object_def find_object_def ebind_def generic_find_def)
  ultimately have "restore_state s ?d = (Inl (Fc_assert ''Could not modify object, most likely a index constraint was violated''), ?db)"
    using s by (simp add: restore_state_def run_bind_def run_result_def)
  then have "undo en db = (Inl (Fc_assert ''Could not modify object, most likely a index constraint was violated''), ?db)"
    using u by (simp add: undo_def run_bind_def with_undo_def run_update_def Let_def)
  moreover have "find_object ?db oid = Inr None"
    using get_set_index [OF gd] by (simp add: find_object_def ebind_def generic_find_def std_map.find_erase)
  ultimately show ?thesis by (simp add: undo_disable_def)
qed

section \<open>Going back several sessions\<close>

lemma undo_unwinds:
  assumes en: "faithful_variants en"
  shows "undo_ok en db \<Longrightarrow> n \<le> length (undo_states en db) \<Longrightarrow> n \<le> unat (ud_active_sessions (db_undo db)) \<Longrightarrow>
    \<exists>db'. ((\<lambda>a b. undo en a = (Inr (), b)) ^^ n) db db' \<and> undo_ok en db' \<and>
      snapshot db' = (snapshot db # snapshots (undo_states en db) (snapshot db)) ! n"
proof (induction n arbitrary: db)
  case (Suc n)
  obtain s ss where ss: "undo_states en db = s # ss" using Suc.prems(2) by (cases "undo_states en db") auto
  let ?a = "ud_active_sessions (db_undo db)"
  have a: "?a \<noteq> 0" using Suc.prems(3) by auto
  then have a1: "unat (?a - 1) = unat ?a - 1" by (simp add: unat_minus_one)
  obtain db1 where db1: "undo en db = (Inr (), db1)" "undo_ok en db1" "undo_states en db1 = ss" "snapshot db1 = revert s (snapshot db)"
      "ud_active_sessions (db_undo db1) = ?a - 1"
    using undo_refines [OF en Suc.prems(1) ss a] by (auto simp: undo_rest_eq)
  have le: "n \<le> length (undo_states en db1)" "n \<le> unat (ud_active_sessions (db_undo db1))"
    using Suc.prems(2,3) ss a1 unfolding db1(3,5) by simp_all
  obtain db' where "((\<lambda>a b. undo en a = (Inr (), b)) ^^ n) db1 db'" "undo_ok en db'"
      "snapshot db' = (snapshot db1 # snapshots ss (snapshot db1)) ! n"
    using Suc.IH [OF db1(2)] le db1(3) by auto
  then show ?case using db1 ss relpowp_Suc_I2 [of "\<lambda>a b. undo en a = (Inr (), b)", OF db1(1)] by (auto simp del: relpowp.simps)
qed auto

section \<open>A new database\<close>

lemma add_index_get:
  assumes "unat s < length (db_index db)" "unat t < 255" "get_index (add_index s t d db) s' t' = Inr idx"
  shows "if s' = s \<and> t' = t then idx = \<lparr>pi_derived = d, pi_next_id = pack_id s t 0\<rparr> else get_index db s' t' = Inr idx"
  using assms
  by (auto simp: get_index_def add_index_def Let_def nth_list_update nth_append word_unat_eq_iff
      split: if_splits option.splits)

lemma add_index_undo: "db_undo (add_index s t d db) = db_undo db" "length (db_index (add_index s t d db)) = length (db_index db)"
  by (simp_all add: add_index_def Let_def)

lemma add_index_ok:
  assumes ok: "undo_ok en db" "undo_states en db = []" and st: "unat s < length (db_index db)" "unat t < 255"
    and d: "di_wf (pack_id s t 0) d" "\<And>oid. di_find d oid = None"
  shows "undo_ok en (add_index s t d db)" "undo_states en (add_index s t d db) = []"
proof -
  let ?db = "add_index s t d db"
  have i: "db_wf db" "history en (db_undo db) []" "bounded (removable db) (view db) (next_ids db)" "\<not> ud_disabled (db_undo db)"
    using ok by (simp_all add: undo_ok_def undo_inv_def snapshot_def)
  note g = add_index_get [OF st, of d]
  show n: "undo_states en ?db = []" using ok(2) by (simp add: undo_states_def add_index_undo)
  have kind: "index_id (pack_id s t 0) = pack_id s t 0" "index_id k = pack_id (id_space k) (id_type k) 0" for k
    by (simp_all add: index_id_def pack_id_parts)
  have "db_wf ?db"
    unfolding db_wf_def
  proof (intro allI impI)
    fix k idx
    assume k: "get_index ?db (id_space k) (id_type k) = Inr idx"
    show "di_wf (index_id k) (pi_derived idx) \<and> index_id (pi_next_id idx) = index_id k"
    proof (cases "id_space k = s \<and> id_type k = t")
      case True
      then show ?thesis using g [OF k] d(1) kind(1) kind(2) [of k] by simp
    next
      case False
      then show ?thesis using g [OF k] i(1) unfolding db_wf_def by (metis (full_types))
    qed
  qed
  moreover have "bounded (removable ?db) (view ?db) (next_ids ?db)"
    unfolding bounded_def
  proof (intro allI impI)
    fix k x
    assume v: "view ?db k = Some x" "removable ?db k"
    then obtain idx where idx: "get_index ?db (id_space k) (id_type k) = Inr idx" "di_find (pi_derived idx) k = Some x"
        "\<not> is_flat (pi_derived idx)"
      by (auto simp: view_def removable_def split: sum.splits)
    then have "get_index db (id_space k) (id_type k) = Inr idx"
      using g [OF idx(1)] d(2) by (auto split: if_splits)
    then have "view db k = Some x" "removable db k" "next_ids db k = next_ids ?db k"
      using idx by (simp_all add: view_def removable_def next_ids_def)
    then show "\<exists>m. next_ids ?db k = Some m \<and> k < m" using i(3) unfolding bounded_def by metis
  qed
  ultimately show "undo_ok en ?db"
    using ok n i(2,4) by (simp add: undo_ok_def undo_inv_def snapshot_def add_index_undo)
qed

lemma new_object_database_ok:
  fixes en :: "'v undo_env"
  shows "undo_ok en new_object_database" "undo_states en new_object_database = []"
proof -
  let ?db = "new_object_database :: 'v object_database"
  have "get_index ?db s t \<noteq> Inr idx" for s t idx
    by (auto simp: get_index_def new_object_database_def nth_replicate)
  then have "db_wf ?db" "view ?db = (\<lambda>_. None)"
    by (auto simp: db_wf_def view_def fun_eq_iff split: sum.splits)
  moreover have u: "db_undo ?db = new_undo_database\<lparr>ud_disabled := False\<rparr>" by (simp add: new_object_database_def)
  moreover show n: "undo_states en new_object_database = []"
    by (simp add: undo_states_def all_states_def u new_undo_database_def)
  ultimately show "undo_ok en new_object_database"
    by (simp add: undo_ok_def undo_inv_def history_def history_split_def snapshot_def bounded_def memory_ok_def
        new_undo_database_def GRAPHENE_UNDO_BUFF_MAX_SIZE_def)
qed

lemma open_storage_ok:
  assumes "undo_ok en db" "undo_states en db = []"
  shows "undo_ok en (db\<lparr>db_undo := storage_open (db_undo db)\<rparr>)" "undo_states en (db\<lparr>db_undo := storage_open (db_undo db)\<rparr>) = []"
proof -
  have h: "history en (db_undo db) []" using assms by (simp add: undo_ok_def undo_inv_def)
  then have "ud_stack (db_undo db) = []" "ud_back (db_undo db) = []" by (auto simp: history_def history_split_def)
  then show "undo_states en (db\<lparr>db_undo := storage_open (db_undo db)\<rparr>) = []"
    "undo_ok en (db\<lparr>db_undo := storage_open (db_undo db)\<rparr>)"
    using assms by (simp_all add: undo_states_def all_states_def storage_open_def undo_ok_def undo_inv_def history_def history_split_def memory_ok_def)
qed

lemma merge_then_undo:
  assumes en: "faithful_variants en" and ok: "undo_ok en db" and n: "2 \<le> undo_size (db_undo db)" "2 \<le> unat (ud_active_sessions (db_undo db))"
  shows "\<exists>merged m1 u1 u2. with_undo (undo_merge en) db = (Inr (), merged) \<and> undo en merged = (Inr (), m1) \<and>
    undo en db = (Inr (), u1) \<and> undo en u1 = (Inr (), u2) \<and> view m1 = view u2 \<and> next_ids m1 = next_ids u2"
proof -
  let ?a = "ud_active_sessions (db_undo db)"
  obtain s p ss where ss: "undo_states en db = s # p # ss" using n(1) undo_ok_back(2) [OF ok] by (metis Suc_le_length_iff numeral_2_eq_2)
  have a: "?a \<noteq> 0" "?a - 1 \<noteq> 0"
    using n(2) by auto
  obtain mg where mg: "with_undo (undo_merge en) db = (Inr (), mg)" "undo_ok en mg" "snapshot mg = snapshot db"
      "undo_states en mg = merge_states p s # ss" "revert (merge_states p s) (snapshot db) = revert p (revert s (snapshot db))"
      "ud_active_sessions (db_undo mg) = ?a - 1"
    using merge_refines [OF en ok ss a(1)] by blast
  obtain m1 where m1: "undo en mg = (Inr (), m1)" "snapshot m1 = revert p (revert s (snapshot db))"
    using undo_refines [OF en mg(2,4)] a(2) mg(3,5,6) by auto
  obtain u1 where u1: "undo en db = (Inr (), u1)" "undo_ok en u1" "undo_states en u1 = p # ss" "snapshot u1 = revert s (snapshot db)"
      "ud_active_sessions (db_undo u1) = ?a - 1"
    using undo_refines [OF en ok ss a(1)] by (auto simp: undo_rest_eq)
  obtain u2 where "undo en u1 = (Inr (), u2)" "snapshot u2 = revert p (revert s (snapshot db))"
    using undo_refines [OF en u1(2,3)] u1(4,5) a(2) by auto
  then have "view m1 = view u2 \<and> next_ids m1 = next_ids u2" "undo en u1 = (Inr (), u2)"
    using m1(2) unfolding snapshot_def by (metis prod.inject)+
  then show ?thesis using mg(1) m1(1) u1(1) by blast
qed

end
