(* ===== verification/Block.thy ===== *)
theory Block
  imports Run_Monad
begin

text \<open>
  Block ids and the Merkle root of the transactions, \<^verbatim>\<open>protocol/block.hpp\<close> and \<^verbatim>\<open>protocol/block.cpp\<close>.
  A hash is the number its bytes spell, the first byte the most significant one, so that the order of
  numbers is the order of \<^verbatim>\<open>memcmp\<close>.
\<close>

section \<open>Blocks\<close>

type_synonym block_id_type = "160 word"
type_synonym digest_type = "256 word"
type_synonym checksum_type = "160 word"

text \<open>
  Of the header only the id of the previous block and the time are read by the operations modelled here; the other
  fields, with the signature, are \<open>blk_header\<close>.
\<close>

record ('h, 't) signed_block =
  blk_previous :: block_id_type
  blk_timestamp :: u32
  blk_header :: 'h
  blk_transactions :: "'t list"

text \<open>
  The hash functions: of a signed header, of a transaction, of a pair of digests, and of a digest.
\<close>

record ('h, 't) block_env =
  be_sha224 :: "block_id_type \<Rightarrow> u32 \<Rightarrow> 'h \<Rightarrow> 224 word"
  be_merkle_digest :: "'t \<Rightarrow> digest_type"
  be_hash_pair :: "digest_type \<times> digest_type \<Rightarrow> digest_type"
  be_checksum :: "digest_type \<Rightarrow> checksum_type"

definition num_from_id :: "block_id_type \<Rightarrow> u32" where
  "num_from_id i = ucast (drop_bit 128 i)"

definition block_num :: "('h, 't) signed_block \<Rightarrow> u32" where
  "block_num b = num_from_id (blk_previous b) + 1"

definition block_id :: "('h, 't) block_env \<Rightarrow> ('h, 't) signed_block \<Rightarrow> block_id_type" where
  "block_id en b =
    (let tmp = be_sha224 en (blk_previous b) (blk_timestamp b) (blk_header b);
         tmp = push_bit 192 (ucast (block_num b)) OR take_bit 192 tmp
     in ucast (drop_bit 64 tmp))"

lemma num_from_block_id: "num_from_id (block_id en b) = block_num b"
  by (rule bit_word_eqI)
    (auto simp: num_from_id_def block_id_def Let_def bit_simps)

section \<open>The Merkle root\<close>

text \<open>
  The hashes are combined in place: the inner loop writes the hash of the elements \<open>i\<close> and \<open>i + 1\<close> to
  position \<open>k\<close>. The counters are 32 bits wide, more than a block can have transactions.
\<close>

function merkle_pairs :: "('d \<times> 'd \<Rightarrow> 'd) \<Rightarrow> nat \<Rightarrow> 'd list \<Rightarrow> nat \<Rightarrow> nat \<Rightarrow> 'd list \<times> nat" where
  "merkle_pairs h i_max ids i k =
    (if i < i_max then merkle_pairs h i_max (ids[k := h (ids ! i, ids ! (i + 1))]) (i + 2) (k + 1) else (ids, k))"
  by pat_completeness auto
termination
  by (relation "measure (\<lambda>(h, i_max, ids, i, k). i_max - i)") auto

declare merkle_pairs.simps [simp del]

definition merkle_round :: "('d \<times> 'd \<Rightarrow> 'd) \<Rightarrow> 'd list \<Rightarrow> nat \<Rightarrow> 'd list \<times> nat" where
  "merkle_round h ids n =
    (let i_max = n - n mod 2
     in case merkle_pairs h i_max ids 0 0 of
          (ids, k) \<Rightarrow> if n mod 2 = 1 then (ids[k := ids ! i_max], k + 1) else (ids, k))"

lemma merkle_pairs_count: "snd (merkle_pairs h i_max ids i k) = k + (i_max - i + 1) div 2"
proof (induction h i_max ids i k rule: merkle_pairs.induct)
  case (1 h i_max ids i k)
  show ?case
  proof (cases "i < i_max")
    case True
    then have "(i_max - i + 1) div 2 = Suc ((i_max - (i + 2) + 1) div 2)" by arith
    then show ?thesis using 1 True by (subst merkle_pairs.simps) simp
  next
    case False
    then show ?thesis by (subst merkle_pairs.simps) simp
  qed
qed

lemma merkle_round_count: "snd (merkle_round h ids n) = (n + 1) div 2"
proof -
  have "snd (merkle_pairs h (n - n mod 2) ids 0 0) = (n - n mod 2 + 1) div 2"
    by (simp add: merkle_pairs_count)
  also have "\<dots> = n div 2" by arith
  finally have k: "snd (merkle_pairs h (n - n mod 2) ids 0 0) = n div 2" .
  have "(n + 1) div 2 = n div 2 + n mod 2" by arith
  then show ?thesis using k by (auto simp: merkle_round_def Let_def split: prod.splits)
qed

function merkle_loop :: "('d \<times> 'd \<Rightarrow> 'd) \<Rightarrow> 'd list \<Rightarrow> nat \<Rightarrow> 'd list" where
  "merkle_loop h ids n =
    (if 1 < n then case merkle_round h ids n of (ids, k) \<Rightarrow> merkle_loop h ids k else ids)"
  by pat_completeness auto
termination
proof (relation "measure (\<lambda>(h, ids, n). n)")
  fix h :: "'d \<times> 'd \<Rightarrow> 'd" and ids n ids' k
  assume "1 < n" "(ids', k) = merkle_round h ids n"
  then have "k = (n + 1) div 2" using merkle_round_count [of h ids n] by (metis snd_conv)
  then show "((h, ids', k), h, ids, n) \<in> measure (\<lambda>(h, ids, n). n)" using \<open>1 < n\<close> by simp
qed simp

definition calculate_merkle_root :: "('h, 't) block_env \<Rightarrow> ('h, 't) signed_block \<Rightarrow> checksum_type" where
  "calculate_merkle_root en b =
    (if blk_transactions b = [] then 0
     else let ids = map (be_merkle_digest en) (blk_transactions b)
          in be_checksum en (merkle_loop (be_hash_pair en) ids (length ids) ! 0))"

section \<open>The tree of pairs\<close>

declare merkle_loop.simps [simp del]

text \<open>The specification: neighbours are paired, and a last element without a neighbour goes up as it is.\<close>

fun pair_up :: "('d \<times> 'd \<Rightarrow> 'd) \<Rightarrow> 'd list \<Rightarrow> 'd list" where
  "pair_up h (x # y # zs) = h (x, y) # pair_up h zs"
| "pair_up h xs = xs"

lemma length_pair_up: "length (pair_up h xs) = (length xs + 1) div 2"
  by (induction h xs rule: pair_up.induct) simp_all

function merkle_root :: "('d \<times> 'd \<Rightarrow> 'd) \<Rightarrow> 'd list \<Rightarrow> 'd" where
  "merkle_root h xs = (if length xs \<le> 1 then hd xs else merkle_root h (pair_up h xs))"
  by pat_completeness auto
termination
  by (relation "measure (\<lambda>(h, xs). length xs)") (auto simp: length_pair_up)

declare merkle_root.simps [simp del]

lemma merkle_pairs_spec:
  "k \<le> i \<Longrightarrow> i_max \<le> length ids \<Longrightarrow> even (i_max - i) \<Longrightarrow> merkle_pairs h i_max ids i k = (ids', k') \<Longrightarrow>
    length ids' = length ids \<and> take k' ids' = take k ids @ pair_up h (drop i (take i_max ids)) \<and>
    drop i_max ids' = drop i_max ids"
proof (induction h i_max ids i k rule: merkle_pairs.induct)
  case (1 h i_max ids i k)
  show ?case
  proof (cases "i < i_max")
    case True
    then have i: "i + 2 \<le> i_max" using "1.prems"(3) by (cases "i_max = i + 1") auto
    let ?ids = "ids[k := h (ids ! i, ids ! (i + 1))]"
    have "drop i (take i_max ids) = ids ! i # ids ! (i + 1) # drop (i + 2) (take i_max ids)"
      using i "1.prems"(2) by (simp add: Cons_nth_drop_Suc [symmetric])
    moreover have "drop (i + 2) (take i_max ?ids) = drop (i + 2) (take i_max ids)"
      using "1.prems"(1) by (simp add: drop_take)
    moreover have "take (k + 1) ?ids = take k ids @ [h (ids ! i, ids ! (i + 1))]"
      using i "1.prems"(1,2) by (simp add: take_Suc_conv_app_nth)
    moreover have "drop i_max ?ids = drop i_max ids" using True "1.prems"(1) by simp
    moreover have "merkle_pairs h i_max ?ids (i + 2) (k + 1) = (ids', k')"
      using "1.prems"(4) True by (subst (asm) merkle_pairs.simps) simp
    ultimately show ?thesis using "1.IH" [OF True] "1.prems" i by simp
  next
    case False
    then show ?thesis using "1.prems"(4) by (subst (asm) merkle_pairs.simps) simp
  qed
qed

lemma pair_up_append: "even (length xs) \<Longrightarrow> pair_up h (xs @ [y]) = pair_up h xs @ [y]"
proof (induction h xs rule: pair_up.induct)
  case (1 h x y zs)
  then show ?case by simp
qed simp_all

lemma merkle_round_spec:
  assumes "n \<le> length ids" "merkle_round h ids n = (ids', k)" "0 < n"
  shows "k = (n + 1) div 2" "take k ids' = pair_up h (take n ids)" "length ids' = length ids"
proof -
  let ?m = "n - n mod 2"
  show k: "k = (n + 1) div 2" using merkle_round_count [of h ids n] assms(2) by simp
  obtain ids1 k1 where r: "merkle_pairs h ?m ids 0 0 = (ids1, k1)" by fastforce
  have s: "length ids1 = length ids" "take k1 ids1 = pair_up h (take ?m ids)" "drop ?m ids1 = drop ?m ids"
    using merkle_pairs_spec [OF _ _ _ r] assms(1) by simp_all
  have k1: "k1 = n div 2" using merkle_pairs_count [of h ?m ids 0 0] r by (simp, arith)
  show "length ids' = length ids" using assms(2) r s(1) by (auto simp: merkle_round_def Let_def split: if_splits)
  show "take k ids' = pair_up h (take n ids)"
  proof (cases "n mod 2 = 1")
    case True
    have "ids1 ! ?m = ids ! ?m" using s(1,3) assms(1) True
      by (metis Cons_nth_drop_Suc diff_less list.sel(1) mod_less_eq_dividend order_less_le_trans zero_less_one assms(3))
    then have "take k ids' = take k1 ids1 @ [ids ! ?m]"
      using assms(1,2) r True s(1) k1 by (auto simp: merkle_round_def Let_def take_Suc_conv_app_nth)
    moreover have "take n ids = take ?m ids @ [ids ! ?m]"
      using True assms(1,3) by (metis Suc_diff_1 Suc_le_eq take_Suc_conv_app_nth)
    moreover have "even (length (take ?m ids))" using assms(1) by simp
    ultimately show ?thesis using s(2) pair_up_append by metis
  next
    case False
    then show ?thesis using assms(2) r s(2) by (simp add: merkle_round_def Let_def)
  qed
qed

lemma merkle_loop_root:
  "0 < n \<Longrightarrow> n \<le> length ids \<Longrightarrow> merkle_loop h ids n ! 0 = merkle_root h (take n ids)"
proof (induction h ids n rule: merkle_loop.induct)
  case (1 h ids n)
  show ?case
  proof (cases "1 < n")
    case True
    obtain ids' k where r: "merkle_round h ids n = (ids', k)" by fastforce
    note s = merkle_round_spec [OF "1.prems"(2) r "1.prems"(1)]
    have "merkle_loop h ids' k ! 0 = merkle_root h (take k ids')"
      using "1.IH" [OF True r [symmetric]] s(1,3) True "1.prems"(2) by simp
    also have "\<dots> = merkle_root h (take n ids)"
      using s(2) True "1.prems"(2) by (subst (2) merkle_root.simps) simp
    finally show ?thesis using True r by (subst merkle_loop.simps) simp
  next
    case False
    then have "n = 1" using "1.prems"(1) by simp
    then show ?thesis using "1.prems"(2) by (subst merkle_loop.simps, subst merkle_root.simps) (cases ids, auto)
  qed
qed

text \<open>
  The pairs that are hashed on the way to the root. When the hash has no collision among those of two
  lists of the same length, they have the same root only when they are equal.
\<close>

fun level_pairs :: "'d list \<Rightarrow> ('d \<times> 'd) list" where
  "level_pairs (x # y # zs) = (x, y) # level_pairs zs"
| "level_pairs xs = []"

function hashed_pairs :: "('d \<times> 'd \<Rightarrow> 'd) \<Rightarrow> 'd list \<Rightarrow> ('d \<times> 'd) list" where
  "hashed_pairs h xs = (if length xs \<le> 1 then [] else level_pairs xs @ hashed_pairs h (pair_up h xs))"
  by pat_completeness auto
termination
  by (relation "measure (\<lambda>(h, xs). length xs)") (auto simp: length_pair_up)

declare hashed_pairs.simps [simp del]

lemma pair_up_inj:
  "inj_on h (set (level_pairs xs) \<union> set (level_pairs ys)) \<Longrightarrow> length xs = length ys \<Longrightarrow> pair_up h xs = pair_up h ys \<Longrightarrow> xs = ys"
proof (induction h xs arbitrary: ys rule: pair_up.induct)
  case (1 h x y zs)
  obtain x' y' zs' where ys: "ys = x' # y' # zs'" using "1.prems"(2) by (metis Suc_length_conv length_Cons)
  let ?p = "(x, y)" and ?q = "(x', y')"
  have "?p = ?q" using inj_onD [OF "1.prems"(1), of ?p ?q] "1.prems"(3) ys by simp
  moreover have "inj_on h (set (level_pairs zs) \<union> set (level_pairs zs'))"
    by (rule inj_on_subset [OF "1.prems"(1)]) (auto simp: ys)
  ultimately show ?case using "1.IH" [of zs'] "1.prems"(2,3) ys by simp
qed (auto simp: Suc_length_conv)

lemma merkle_root_inj:
  "inj_on h (set (hashed_pairs h xs) \<union> set (hashed_pairs h ys)) \<Longrightarrow> xs \<noteq> [] \<Longrightarrow> length xs = length ys \<Longrightarrow>
    merkle_root h xs = merkle_root h ys \<Longrightarrow> xs = ys"
proof (induction h xs arbitrary: ys rule: merkle_root.induct)
  case (1 h xs)
  show ?case
  proof (cases "length xs \<le> 1")
    case True
    then have "length xs = 1" using "1.prems"(2) by (cases xs) auto
    then show ?thesis using "1.prems"(3,4) True by (auto simp: length_Suc_conv merkle_root.simps)
  next
    case False
    have sub: "set (hashed_pairs h xs) = set (level_pairs xs) \<union> set (hashed_pairs h (pair_up h xs))"
        "set (hashed_pairs h ys) = set (level_pairs ys) \<union> set (hashed_pairs h (pair_up h ys))"
      using False "1.prems"(3) by (subst hashed_pairs.simps, simp)+
    have inj: "inj_on h (set (hashed_pairs h (pair_up h xs)) \<union> set (hashed_pairs h (pair_up h ys)))"
        "inj_on h (set (level_pairs xs) \<union> set (level_pairs ys))"
      by (rule inj_on_subset [OF "1.prems"(1)], auto simp: sub)+
    have "merkle_root h (pair_up h xs) = merkle_root h (pair_up h ys)" "pair_up h xs \<noteq> []"
      using False "1.prems"(3,4) length_pair_up [of h xs] merkle_root.simps [of h xs] merkle_root.simps [of h ys] by auto
    then have "pair_up h xs = pair_up h ys"
      using "1.IH" [OF False inj(1)] "1.prems"(3) by (simp add: length_pair_up)
    then show ?thesis using pair_up_inj [OF inj(2)] "1.prems"(3) by blast
  qed
qed

lemma calculate_merkle_root_tree:
  "calculate_merkle_root en b =
    (if blk_transactions b = [] then 0
     else be_checksum en (merkle_root (be_hash_pair en) (map (be_merkle_digest en) (blk_transactions b))))"
  by (simp add: calculate_merkle_root_def Let_def merkle_loop_root)

lemma calculate_merkle_root_inj:
  assumes "blk_transactions b \<noteq> []" "length (blk_transactions b) = length (blk_transactions c)"
    and "inj_on (be_hash_pair en) (set (hashed_pairs (be_hash_pair en) (map (be_merkle_digest en) (blk_transactions b))) \<union>
      set (hashed_pairs (be_hash_pair en) (map (be_merkle_digest en) (blk_transactions c))))"
    and "inj_on (be_checksum en) {merkle_root (be_hash_pair en) (map (be_merkle_digest en) (blk_transactions b)),
      merkle_root (be_hash_pair en) (map (be_merkle_digest en) (blk_transactions c))}"
    and "calculate_merkle_root en b = calculate_merkle_root en c"
  shows "map (be_merkle_digest en) (blk_transactions b) = map (be_merkle_digest en) (blk_transactions c)"
proof (rule merkle_root_inj [OF assms(3)])
  have "blk_transactions c \<noteq> []" using assms(1,2) by auto
  then show "merkle_root (be_hash_pair en) (map (be_merkle_digest en) (blk_transactions b)) =
      merkle_root (be_hash_pair en) (map (be_merkle_digest en) (blk_transactions c))"
    using assms(1,4,5) unfolding calculate_merkle_root_tree by (auto dest: inj_onD)
qed (use assms(1,2) in simp_all)

end
