(* ===== verification/Fork_Database.thy ===== *)
theory Fork_Database
  imports Block Cpp_Std
begin

text \<open>
  The fork database, \<^verbatim>\<open>fork_database.cpp\<close>: the recent blocks of all branches, linked to their
  predecessors by weak pointers. Items live in a heap; an item is alive while the indices, the head or a
  caller hold it, and only then a weak pointer to it can be locked.
\<close>

section \<open>Items\<close>

type_synonym addr = nat

record ('h, 't) fork_item =
  fi_prev :: "addr option"
  fi_num :: u32
  fi_invalid :: bool
  fi_id :: block_id_type
  fi_data :: "('h, 't) signed_block"

definition make_fork_item :: "('h, 't) block_env \<Rightarrow> ('h, 't) signed_block \<Rightarrow> ('h, 't) fork_item" where
  "make_fork_item en d = \<lparr>fi_prev = None, fi_num = block_num d, fi_invalid = False, fi_id = block_id en d, fi_data = d\<rparr>"

definition previous_id :: "('h, 't) fork_item \<Rightarrow> block_id_type" where
  "previous_id item = blk_previous (fi_data item)"

text \<open>
  \<open>fd_heap\<close> has every item that was ever made, \<open>fd_held\<close> the items that callers hold pointers to.
  The containers are lists in the order of insertion, which is the order of elements with equal keys.
\<close>

record ('h, 't) fork_database =
  fd_heap :: "('h, 't) fork_item list"
  fd_index :: "addr list"
  fd_unlinked :: "addr list"
  fd_head :: "addr option"
  fd_items_read :: "(block_id_type \<times> addr) list"
  fd_max_size :: u32
  fd_held :: "addr list"

definition new_fork_database :: "('h, 't) fork_database" where
  "new_fork_database = \<lparr>fd_heap = [], fd_index = [], fd_unlinked = [], fd_head = None, fd_items_read = [],
     fd_max_size = 1500, fd_held = []\<rparr>"

definition item :: "('h, 't) fork_database \<Rightarrow> addr \<Rightarrow> ('h, 't) fork_item" where
  "item db a = fd_heap db ! a"

definition set_item :: "addr \<Rightarrow> ('h, 't) fork_item \<Rightarrow> ('h, 't) fork_database \<Rightarrow> ('h, 't) fork_database" where
  "set_item a it db = db\<lparr>fd_heap := (fd_heap db)[a := it]\<rparr>"

definition make_shared :: "('h, 't) fork_item \<Rightarrow> ('h, 't) fork_database \<Rightarrow> addr \<times> ('h, 't) fork_database" where
  "make_shared it db = (length (fd_heap db), db\<lparr>fd_heap := fd_heap db @ [it]\<rparr>)"

definition alive :: "('h, 't) fork_database \<Rightarrow> addr \<Rightarrow> bool" where
  "alive db a \<longleftrightarrow> a \<in> set (fd_index db) \<or> a \<in> set (fd_unlinked db) \<or> fd_head db = Some a \<or>
     a \<in> snd ` set (fd_items_read db) \<or> a \<in> set (fd_held db)"

definition weak_lock :: "('h, 't) fork_database \<Rightarrow> addr option \<Rightarrow> addr option" where
  "weak_lock db w = (case w of None \<Rightarrow> None | Some a \<Rightarrow> if alive db a then Some a else None)"

section \<open>The indices\<close>

definition index_find :: "('h, 't) fork_database \<Rightarrow> addr list \<Rightarrow> block_id_type \<Rightarrow> addr option" where
  "index_find db idx i = List.find (\<lambda>a. fi_id (item db a) = i) idx"

definition index_insert :: "('h, 't) fork_database \<Rightarrow> addr \<Rightarrow> addr list \<Rightarrow> addr list" where
  "index_insert db a idx = (if index_find db idx (fi_id (item db a)) = None then idx @ [a] else idx)"

definition index_erase :: "('h, 't) fork_database \<Rightarrow> block_id_type \<Rightarrow> addr list \<Rightarrow> addr list" where
  "index_erase db i idx = filter (\<lambda>a. fi_id (item db a) \<noteq> i) idx"

text \<open>The view by block number, and the loop that erases its first element as long as that is too old.\<close>

definition by_num :: "('h, 't) fork_database \<Rightarrow> addr list \<Rightarrow> addr list" where
  "by_num db idx = sort_key (\<lambda>a. unat (fi_num (item db a))) idx"

lemma set_by_num [simp]: "set (by_num db idx) = set idx"
  by (simp add: by_num_def)

function erase_older :: "('h, 't) fork_database \<Rightarrow> int \<Rightarrow> addr list \<Rightarrow> addr list" where
  "erase_older db m idx =
    (case by_num db idx of
       [] \<Rightarrow> idx
     | a # as \<Rightarrow> if uint (fi_num (item db a)) < m then erase_older db m (remove1 a idx) else idx)"
  by pat_completeness auto
termination
proof (relation "measure (\<lambda>(db, m, idx). length idx)")
  fix db :: "('h, 't) fork_database" and m idx a as
  assume "by_num db idx = a # as"
  then have "a \<in> set idx" by (metis list.set_intros(1) set_by_num)
  then show "((db, m, remove1 a idx), db, m, idx) \<in> measure (\<lambda>(db, m, idx). length idx)"
    by (auto simp: length_remove1 dest: length_pos_if_in_set)
qed simp

declare erase_older.simps [simp del]

section \<open>Operations\<close>

definition fork_reset :: "('h, 't) fork_database \<Rightarrow> ('h, 't) fork_database" where
  "fork_reset db = db\<lparr>fd_head := None, fd_index := []\<rparr>"

definition fork_pop_block :: "(('h, 't) fork_database, unit) run" where
  "fork_pop_block db =
    (case fd_head db of
       None \<Rightarrow> (Inl (Fc_assert ''no blocks to pop''), db)
     | Some h \<Rightarrow>
         (case weak_lock db (fi_prev (item db h)) of
            None \<Rightarrow> (Inl (Fc_assert ''poping block would leave head block null''), db)
          | Some prev \<Rightarrow> (Inr (), db\<lparr>fd_head := Some prev\<rparr>)))"

definition fork_start_block :: "('h, 't) block_env \<Rightarrow> ('h, 't) signed_block \<Rightarrow> ('h, 't) fork_database \<Rightarrow> ('h, 't) fork_database" where
  "fork_start_block en b db =
    (case make_shared (make_fork_item en b) db of
       (a, db) \<Rightarrow> db\<lparr>fd_index := index_insert db a (fd_index db), fd_head := Some a\<rparr>)"

text \<open>
  \<^verbatim>\<open>_push_block\<close>: the block must be recent enough and link to a known valid block. The head moves to a
  block with a higher number only, and then blocks that are too old are forgotten.
\<close>

definition link_item :: "addr \<Rightarrow> (('h, 't) fork_database, unit) run" where
  "link_item a db =
    (if fd_head db \<noteq> None \<and> previous_id (item db a) \<noteq> 0
     then case index_find db (fd_index db) (previous_id (item db a)) of
            None \<Rightarrow> (Inl Unlinkable_block_exception, db)
          | Some p \<Rightarrow>
              if fi_invalid (item db p) then (Inl (Fc_assert ''!(*itr)->invalid''), db)
              else (Inr (), set_item a ((item db a)\<lparr>fi_prev := Some p\<rparr>) db)
     else (Inr (), db))"

definition advance_head :: "addr \<Rightarrow> ('h, 't) fork_database \<Rightarrow> ('h, 't) fork_database" where
  "advance_head a db =
    (case fd_head db of
       None \<Rightarrow> db\<lparr>fd_head := Some a\<rparr>
     | Some h \<Rightarrow>
         if fi_num (item db h) < fi_num (item db a)
         then let num = fi_num (item db a);
                  min_num = num - min (fd_max_size db) num
              in db\<lparr>fd_head := Some a, fd_index := erase_older db (uint min_num) (fd_index db),
                   fd_unlinked := filter (\<lambda>b. fi_num (item db b) \<noteq> num - fd_max_size db) (fd_unlinked db)\<rparr>
         else db)"

definition too_old :: "('h, 't) fork_database \<Rightarrow> addr \<Rightarrow> bool" where
  "too_old db a =
    (case fd_head db of
       None \<Rightarrow> False
     | Some h \<Rightarrow> uint (fi_num (item db a)) \<le> max 0 (uint (fi_num (item db h)) - uint (fd_max_size db)))"

definition push_item :: "addr \<Rightarrow> (('h, 't) fork_database, unit) run" where
  "push_item a db =
    (if too_old db a then (Inl (Fc_assert ''attempting to push a block that is too old''), db)
     else run_bind (link_item a) (\<lambda>_.
          run_bind (run_update (\<lambda>db. db\<lparr>fd_index := index_insert db a (fd_index db)\<rparr>)) (\<lambda>_.
          run_update (advance_head a))) db)"

text \<open>
  The exception of a block that does not link leaves \<^verbatim>\<open>push_block\<close>; the statement that would keep the block
  is not reached. The new item is held only while \<^verbatim>\<open>push_block\<close> runs.
\<close>

definition fork_push_block :: "('h, 't) block_env \<Rightarrow> ('h, 't) signed_block \<Rightarrow> (('h, 't) fork_database, addr option) run" where
  "fork_push_block en b db =
    (case make_shared (make_fork_item en b) db of
       (a, db) \<Rightarrow> run_bind (push_item a) (\<lambda>_. run_get fd_head) db)"

lemma push_item_unlinked:
  fixes db :: "('h, 't) fork_database"
  assumes "push_item a db = (r, db')"
  shows "length (fd_unlinked db') \<le> length (fd_unlinked db)"
proof -
  have adv: "length (fd_unlinked (advance_head a d)) \<le> length (fd_unlinked d)" for d :: "('h, 't) fork_database"
    by (auto simp: advance_head_def Let_def split: option.splits)
  obtain r1 d1 where l: "link_item a db = (r1, d1)" by fastforce
  then have "fd_unlinked d1 = fd_unlinked db"
    by (auto simp: link_item_def set_item_def split: option.splits if_splits)
  then show ?thesis
    using assms l adv [of "d1\<lparr>fd_index := index_insert d1 a (fd_index d1)\<rparr>"]
    by (cases r1) (auto simp: push_item_def run_bind_def run_update_def split: if_splits)
qed

text \<open>
  \<^verbatim>\<open>_push_next\<close> links the cached blocks that wait for an item. No function calls it.
\<close>

function push_next :: "addr \<Rightarrow> (('h, 't) fork_database, unit) run" where
  "push_next new_item db =
    (case List.find (\<lambda>a. previous_id (item db a) = fi_id (item db new_item)) (fd_unlinked db) of
       None \<Rightarrow> (Inr (), db)
     | Some tmp \<Rightarrow>
         (case push_item tmp (db\<lparr>fd_unlinked := remove1 tmp (fd_unlinked db)\<rparr>) of
            (Inl e, db') \<Rightarrow> (Inl e, db')
          | (Inr _, db') \<Rightarrow> push_next new_item db'))"
  by pat_completeness auto
termination
proof (relation "measure (\<lambda>(a, db). length (fd_unlinked db))")
  fix a :: addr and db db' :: "('h, 't) fork_database" and tmp r u
  assume f: "List.find (\<lambda>b. previous_id (item db b) = fi_id (item db a)) (fd_unlinked db) = Some tmp"
    and p: "(r, db') = push_item tmp (db\<lparr>fd_unlinked := remove1 tmp (fd_unlinked db)\<rparr>)"
  have "tmp \<in> set (fd_unlinked db)" using f by (auto simp: find_Some_iff)
  then have "length (remove1 tmp (fd_unlinked db)) < length (fd_unlinked db)"
    by (auto simp: length_remove1 dest: length_pos_if_in_set)
  moreover have "length (fd_unlinked db') \<le> length (remove1 tmp (fd_unlinked db))"
    using push_item_unlinked [OF p [symmetric]] by simp
  ultimately show "((a, db'), a, db) \<in> measure (\<lambda>(a, db). length (fd_unlinked db))" by simp
qed simp

declare push_next.simps [simp del]

definition fork_set_max_size :: "u32 \<Rightarrow> ('h, 't) fork_database \<Rightarrow> ('h, 't) fork_database" where
  "fork_set_max_size s db =
    (let db = db\<lparr>fd_max_size := s\<rparr>
     in case fd_head db of
          None \<Rightarrow> db
        | Some h \<Rightarrow>
            let m = max 0 (uint (fi_num (item db h)) - uint (fd_max_size db))
            in db\<lparr>fd_index := erase_older db m (fd_index db), fd_unlinked := erase_older db m (fd_unlinked db)\<rparr>)"

definition fork_is_known_block :: "('h, 't) fork_database \<Rightarrow> block_id_type \<Rightarrow> bool" where
  "fork_is_known_block db i \<longleftrightarrow>
    (if index_find db (fd_index db) i \<noteq> None then True else index_find db (fd_unlinked db) i \<noteq> None)"

definition fork_fetch_block :: "('h, 't) fork_database \<Rightarrow> block_id_type \<Rightarrow> addr option" where
  "fork_fetch_block db i =
    (case index_find db (fd_index db) i of Some a \<Rightarrow> Some a | None \<Rightarrow> index_find db (fd_unlinked db) i)"

definition fork_fetch_block_by_number :: "('h, 't) fork_database \<Rightarrow> u32 \<Rightarrow> addr list" where
  "fork_fetch_block_by_number db num =
    takeWhile (\<lambda>a. fi_num (item db a) = num) (dropWhile (\<lambda>a. fi_num (item db a) \<noteq> num) (by_num db (fd_index db)))"

definition fork_set_head :: "addr option \<Rightarrow> ('h, 't) fork_database \<Rightarrow> ('h, 't) fork_database" where
  "fork_set_head h db = db\<lparr>fd_head := h\<rparr>"

definition fork_remove :: "block_id_type \<Rightarrow> ('h, 't) fork_database \<Rightarrow> ('h, 't) fork_database" where
  "fork_remove i db = db\<lparr>fd_index := index_erase db i (fd_index db)\<rparr>"

section \<open>Branches\<close>

text \<open>
  The loops of \<^verbatim>\<open>fetch_branch_from\<close>. The result \<open>None\<close> stands for a loop that does not end.
\<close>

definition step_back :: "('h, 't) fork_database \<Rightarrow> addr \<Rightarrow> addr result" where
  "step_back db a =
    (case weak_lock db (fi_prev (item db a)) of None \<Rightarrow> Inl (Fc_assert ''branch'') | Some p \<Rightarrow> Inr p)"

partial_function (option) climb ::
    "('h, 't) fork_database \<Rightarrow> u32 \<Rightarrow> addr \<Rightarrow> addr list \<Rightarrow> (addr \<times> addr list) result option" where
  "climb db n a branch =
    (if n < block_num (fi_data (item db a))
     then case step_back db a of
            Inl e \<Rightarrow> Some (Inl e)
          | Inr p \<Rightarrow> climb db n p (branch @ [a])
     else Some (Inr (a, branch)))"

partial_function (option) climb_both ::
    "('h, 't) fork_database \<Rightarrow> addr \<Rightarrow> addr list \<Rightarrow> addr \<Rightarrow> addr list \<Rightarrow> (addr list \<times> addr list) result option" where
  "climb_both db a as b bs =
    (if blk_previous (fi_data (item db a)) \<noteq> blk_previous (fi_data (item db b))
     then case step_back db a of
            Inl e \<Rightarrow> Some (Inl e)
          | Inr a' \<Rightarrow>
              (case step_back db b of
                 Inl e \<Rightarrow> Some (Inl e)
               | Inr b' \<Rightarrow> climb_both db a' (as @ [a]) b' (bs @ [b]))
     else Some (Inr (as @ [a], bs @ [b])))"

definition fetch_branch_from ::
    "('h, 't) fork_database \<Rightarrow> block_id_type \<Rightarrow> block_id_type \<Rightarrow> (addr list \<times> addr list) result option" where
  "fetch_branch_from db first second =
    (case index_find db (fd_index db) first of
       None \<Rightarrow> Some (Inl (Fc_assert ''first_branch_itr''))
     | Some a \<Rightarrow>
         (case index_find db (fd_index db) second of
            None \<Rightarrow> Some (Inl (Fc_assert ''second_branch_itr''))
          | Some b \<Rightarrow>
              Option.bind (climb db (block_num (fi_data (item db b))) a []) (\<lambda>r1.
              case r1 of
                Inl e \<Rightarrow> Some (Inl e)
              | Inr (a', as) \<Rightarrow>
                  Option.bind (climb db (block_num (fi_data (item db a'))) b []) (\<lambda>r2.
                  case r2 of Inl e \<Rightarrow> Some (Inl e) | Inr (b', bs) \<Rightarrow> climb_both db a' as b' bs))))"

section \<open>Shutdown and restart\<close>

record ('h, 't) serializable_fork_item =
  sfi_prev :: block_id_type
  sfi_num :: u32
  sfi_invalid :: bool
  sfi_id :: block_id_type
  sfi_data :: "('h, 't) signed_block"

record ('h, 't) fork_data =
  fdata_items :: "('h, 't) serializable_fork_item list"
  fdata_head :: block_id_type

definition serialize_fork_item :: "('h, 't) fork_item \<Rightarrow> ('h, 't) serializable_fork_item" where
  "serialize_fork_item it =
    \<lparr>sfi_prev = previous_id it, sfi_num = fi_num it, sfi_invalid = fi_invalid it, sfi_id = fi_id it, sfi_data = fi_data it\<rparr>"

definition get_shared_item_without_prev_set :: "('h, 't) serializable_fork_item \<Rightarrow> ('h, 't) fork_item" where
  "get_shared_item_without_prev_set s =
    \<lparr>fi_prev = None, fi_num = sfi_num s, fi_invalid = sfi_invalid s, fi_id = sfi_id s, fi_data = sfi_data s\<rparr>"

text \<open>What is written, if anything; \<open>hash_order\<close> is the order in which the hashed index lists its elements.\<close>

definition fork_save_to_file :: "(addr list \<Rightarrow> addr list) \<Rightarrow> ('h, 't) fork_database \<Rightarrow> ('h, 't) fork_data option" where
  "fork_save_to_file hash_order db =
    (let items = map (\<lambda>a. serialize_fork_item (item db a)) (hash_order (fd_index db))
     in case fd_head db of
          Some h \<Rightarrow> if items \<noteq> [] then Some \<lparr>fdata_items = items, fdata_head = fi_id (item db h)\<rparr> else None
        | None \<Rightarrow> None)"

definition read_item :: "block_id_type \<Rightarrow> ('h, 't) serializable_fork_item \<Rightarrow> ('h, 't) fork_database \<Rightarrow> ('h, 't) fork_database" where
  "read_item head it db =
    (case make_shared (get_shared_item_without_prev_set it) db of
       (ptr, db) \<Rightarrow>
         let db = (if std_map_find (fd_items_read db) (sfi_prev it) = None
                   then db\<lparr>fd_items_read := std_map_set (sfi_prev it) ptr (fd_items_read db)\<rparr> else db)
         in if sfi_id it = head then db\<lparr>fd_head := Some ptr\<rparr> else db)"

definition link_read :: "block_id_type \<times> addr \<Rightarrow> ('h, 't) fork_database \<Rightarrow> ('h, 't) fork_database" where
  "link_read w db =
    fold (\<lambda>r db. if fst w = fi_id (item db (snd r))
       then set_item (snd w) ((item db (snd w))\<lparr>fi_prev := Some (snd r)\<rparr>) db else db) (fd_items_read db) db"

definition insert_read :: "block_id_type \<times> addr \<Rightarrow> (('h, 't) fork_database, unit) run" where
  "insert_read r db =
    (let a = snd r; it = item db a
     in if index_find db (fd_index db) (fi_id it) = None then (Inr (), db\<lparr>fd_index := fd_index db @ [a]\<rparr>)
        else case index_find db (fd_index db) (previous_id it) of
          None \<Rightarrow> (Inl (Fc_assert ''back != idx.end()''), db)
        | Some p \<Rightarrow>
            (case index_find db (fd_index db) (fi_id it) of
               None \<Rightarrow> (Inr (), db)
             | Some front \<Rightarrow> (Inr (), set_item front ((item db front)\<lparr>fi_prev := Some p\<rparr>) db)))"

text \<open>The argument is the outcome of reading the file, or \<open>None\<close> when there is none.\<close>

definition fork_from_file :: "('h, 't) fork_data result option \<Rightarrow> (('h, 't) fork_database, unit) run" where
  "fork_from_file file db =
    (case file of
       None \<Rightarrow> (Inr (), db)
     | Some (Inl e) \<Rightarrow> (Inl Deserialize_fork_database_failed, db)
     | Some (Inr data) \<Rightarrow>
         let db = fold (read_item (fdata_head data)) (fdata_items data) db;
             db = fold link_read (fd_items_read db) db
         in case run_for insert_read (fd_items_read db) db of
              (Inl e, db) \<Rightarrow> (Inl Deserialize_fork_database_failed, db)
            | (Inr _, db) \<Rightarrow> (Inr (), db))"

end
