(* ===== verification/Fork_Invariant.thy ===== *)
theory Fork_Invariant
  imports Fork_Database
begin

text \<open>
  What every reachable fork database satisfies: links lead to the block with the id of the predecessor and to a
  smaller number, ids are unique in the index, and after a push the head has the highest number and
  the index only has blocks in the window below it.
\<close>

section \<open>Heaps\<close>

definition item_ok :: "('h, 't) block_env \<Rightarrow> ('h, 't) fork_item list \<Rightarrow> ('h, 't) fork_item \<Rightarrow> bool" where
  "item_ok en heap it \<longleftrightarrow> fi_num it = block_num (fi_data it) \<and> fi_id it = block_id en (fi_data it) \<and>
     (\<forall>p. fi_prev it = Some p \<longrightarrow> p < length heap \<and> fi_id (heap ! p) = previous_id it \<and> fi_num (heap ! p) < fi_num it)"

definition heap_ok :: "('h, 't) block_env \<Rightarrow> ('h, 't) fork_item list \<Rightarrow> bool" where
  "heap_ok en heap \<longleftrightarrow> (\<forall>it \<in> set heap. item_ok en heap it)"

definition fork_ok :: "('h, 't) block_env \<Rightarrow> ('h, 't) fork_database \<Rightarrow> bool" where
  "fork_ok en db \<longleftrightarrow> heap_ok en (fd_heap db) \<and> (\<forall>a. alive db a \<longrightarrow> a < length (fd_heap db)) \<and>
     distinct (map (\<lambda>a. fi_id (item db a)) (fd_index db))"

lemma fork_okD:
  assumes "fork_ok en db"
  shows "a \<in> set (fd_index db) \<Longrightarrow> a < length (fd_heap db)" "fd_head db = Some h \<Longrightarrow> h < length (fd_heap db)"
  using assms by (auto simp: fork_ok_def alive_def)

lemma item_link:
  assumes "fork_ok en db" "a < length (fd_heap db)" "fi_prev (item db a) = Some p"
  shows "p < length (fd_heap db)" "fi_id (item db p) = previous_id (item db a)" "fi_num (item db p) < fi_num (item db a)"
    "fi_num (item db a) = fi_num (item db p) + 1"
proof -
  have h: "item_ok en (fd_heap db) (item db b)" if "b < length (fd_heap db)" for b
    using assms(1) that by (simp add: fork_ok_def heap_ok_def item_def)
  then show p: "p < length (fd_heap db)" "fi_id (item db p) = previous_id (item db a)" "fi_num (item db p) < fi_num (item db a)"
    using h [OF assms(2)] assms(3) unfolding item_ok_def item_def by blast+
  have "fi_num (item db a) = num_from_id (fi_id (item db p)) + 1"
    using h [OF assms(2)] p(2) by (simp add: item_ok_def block_num_def previous_id_def)
  also have "num_from_id (fi_id (item db p)) = fi_num (item db p)"
    using h [OF p(1)] by (simp add: item_ok_def num_from_block_id)
  finally show "fi_num (item db a) = fi_num (item db p) + 1" .
qed

lemma item_num:
  assumes "fork_ok en db" "a < length (fd_heap db)"
  shows "block_num (fi_data (item db a)) = fi_num (item db a)" "fi_id (item db a) = block_id en (fi_data (item db a))"
    "num_from_id (fi_id (item db a)) = fi_num (item db a)"
  using assms by (auto simp: fork_ok_def heap_ok_def item_ok_def item_def num_from_block_id)

lemma index_find_Some: "index_find db idx i = Some a \<Longrightarrow> a \<in> set idx \<and> fi_id (item db a) = i"
  by (auto simp: index_find_def find_Some_iff)

lemma index_find_None: "index_find db idx i = None \<longleftrightarrow> i \<notin> (\<lambda>a. fi_id (item db a)) ` set idx"
  by (auto simp: index_find_def find_None_iff)

section \<open>Erasing old blocks\<close>

lemma erase_older_filter: "erase_older db m idx = filter (\<lambda>a. m \<le> uint (fi_num (item db a))) idx"
proof (induction db m idx rule: erase_older.induct)
  case (1 db m idx)
  show ?case
  proof (cases "by_num db idx")
    case Nil
    then have "idx = []" by (metis set_by_num set_empty)
    then show ?thesis using Nil by (subst erase_older.simps) simp
  next
    case (Cons a as)
    have sorted: "sorted (map (\<lambda>a. unat (fi_num (item db a))) (a # as))"
      unfolding Cons [symmetric] by (simp add: by_num_def)
    have set: "set idx = set (a # as)" unfolding Cons [symmetric] by simp
    show ?thesis
    proof (cases "uint (fi_num (item db a)) < m")
      case True
      have "erase_older db m idx = filter (\<lambda>a. m \<le> uint (fi_num (item db a))) (remove1 a idx)"
        using "1.IH" [OF Cons True] Cons True by (subst erase_older.simps) simp
      also have "\<dots> = filter (\<lambda>a. m \<le> uint (fi_num (item db a))) idx"
        using True by (simp add: filter_remove1 remove1_idem)
      finally show ?thesis .
    next
      case False
      then have "m \<le> uint (fi_num (item db b))" if "b \<in> set idx" for b
      proof -
        have "fi_num (item db a) \<le> fi_num (item db b)" using sorted set that by (auto simp: word_le_nat_alt)
        then show ?thesis using False by (simp add: word_le_def)
      qed
      then show ?thesis using Cons False by (subst erase_older.simps) simp
    qed
  qed
qed

lemma takeWhile_sorted:
  fixes f :: "'a \<Rightarrow> nat"
  assumes "sorted (map f xs)" "\<forall>x \<in> set xs. n \<le> f x"
  shows "takeWhile (\<lambda>a. f a = n) xs = filter (\<lambda>a. f a = n) xs"
  using assms
proof (induction xs)
  case (Cons b xs)
  show ?case
  proof (cases "f b = n")
    case False
    then have "\<forall>x \<in> set (b # xs). f x \<noteq> n" using Cons.prems by fastforce
    then show ?thesis by (simp add: filter_empty_conv [symmetric])
  qed (use Cons in simp)
qed simp

lemma dropWhile_sorted:
  fixes f :: "'a \<Rightarrow> nat"
  assumes "sorted (map f xs)"
  shows "takeWhile (\<lambda>a. f a = n) (dropWhile (\<lambda>a. f a \<noteq> n) xs) = filter (\<lambda>a. f a = n) xs"
  using assms
proof (induction xs)
  case (Cons b xs)
  then show ?case using takeWhile_sorted [of f xs n] by auto
qed simp

lemma fetch_by_number_filter:
  "fork_fetch_block_by_number db num = filter (\<lambda>a. fi_num (item db a) = num) (fd_index db)"
  using dropWhile_sorted [of "\<lambda>a. unat (fi_num (item db a))" "by_num db (fd_index db)" "unat num"]
    sort_key_stable [of "\<lambda>a. unat (fi_num (item db a))" "unat num" "fd_index db"]
  by (simp add: fork_fetch_block_by_number_def by_num_def word_unat_eq_iff)

section \<open>Pushing a block\<close>

lemma item_make_shared:
  "a < length (fd_heap db) \<Longrightarrow> item (snd (make_shared it db)) a = item db a"
  "item (snd (make_shared it db)) (length (fd_heap db)) = it"
  by (simp_all add: item_def make_shared_def nth_append)

lemma item_ok_append: "item_ok en heap it \<Longrightarrow> item_ok en (heap @ xs) it"
  by (auto simp: item_ok_def nth_append)

lemma heap_ok_append:
  assumes "heap_ok en heap" "item_ok en heap it"
  shows "heap_ok en (heap @ [it])"
  using assms by (simp add: heap_ok_def item_ok_append)

lemma item_ok_update:
  assumes "item_ok en heap it" "fi_id y = fi_id (heap ! a)" "fi_num y = fi_num (heap ! a)"
  shows "item_ok en (heap[a := y]) it"
  unfolding item_ok_def
proof (intro conjI allI impI)
  fix p
  assume p: "fi_prev it = Some p"
  have q: "p < length heap" "fi_id (heap ! p) = previous_id it" "fi_num (heap ! p) < fi_num it"
    using assms(1) p unfolding item_ok_def by blast+
  have "fi_id (heap[a := y] ! p) = fi_id (heap ! p)" "fi_num (heap[a := y] ! p) = fi_num (heap ! p)"
    using assms(2,3) q(1) by (cases "p = a"; simp)+
  then show "fi_id (heap[a := y] ! p) = previous_id it" "fi_num (heap[a := y] ! p) < fi_num it" "p < length (heap[a := y])"
    using q by simp_all
qed (use assms(1) in \<open>simp_all add: item_ok_def\<close>)

lemma heap_ok_update:
  assumes "heap_ok en heap" "item_ok en heap y" "fi_id y = fi_id (heap ! a)" "fi_num y = fi_num (heap ! a)"
  shows "heap_ok en (heap[a := y])"
  using assms item_ok_update [OF _ assms(3,4)] set_update_subset_insert [of heap a y] unfolding heap_ok_def by blast

lemma next_number:
  fixes m n :: u32
  assumes "n = m + 1" "n \<noteq> 0"
  shows "m < n"
  using unatSuc [of m] assms by (simp add: word_less_nat_alt add.commute)

lemma fork_ok_frame:
  assumes "fork_ok en db" "fd_heap db' = fd_heap db" "\<forall>a. alive db' a \<longrightarrow> a < length (fd_heap db)"
    "distinct (map (\<lambda>a. fi_id (item db a)) (fd_index db'))"
  shows "fork_ok en db'"
  using assms by (simp add: fork_ok_def item_def)

lemma fork_ok_make_shared:
  assumes "fork_ok en db" "make_shared (make_fork_item en b) db = (a, db')"
  shows "fork_ok en db'" "a < length (fd_heap db')" "a \<notin> set (fd_index db')" "fd_index db' = fd_index db" "fd_head db' = fd_head db"
    "fd_unlinked db' = fd_unlinked db" "fd_max_size db' = fd_max_size db" "item db' a = make_fork_item en b"
    "\<And>x. x < length (fd_heap db) \<Longrightarrow> item db' x = item db x"
proof -
  have db': "db' = db\<lparr>fd_heap := fd_heap db @ [make_fork_item en b]\<rparr>" and a: "a = length (fd_heap db)"
    using assms(2) by (auto simp: make_shared_def)
  show it: "item db' x = item db x" if "x < length (fd_heap db)" for x
    using that by (simp add: db' item_def nth_append)
  have "item_ok en (fd_heap db) (make_fork_item en b)" by (simp add: item_ok_def make_fork_item_def)
  then have "heap_ok en (fd_heap db')" using assms(1) by (auto simp: db' fork_ok_def intro: heap_ok_append)
  moreover have "map (\<lambda>a. fi_id (item db' a)) (fd_index db') = map (\<lambda>a. fi_id (item db a)) (fd_index db)"
    using it fork_okD(1) [OF assms(1)] by (simp add: db')
  moreover have "alive db' x \<Longrightarrow> x < length (fd_heap db')" for x
    using assms(1) by (auto simp: fork_ok_def alive_def db')
  ultimately show "fork_ok en db'" using assms(1) by (simp add: fork_ok_def)
  show "a \<notin> set (fd_index db')" using fork_okD(1) [OF assms(1)] by (auto simp: db' a)
qed (use assms(2) in \<open>auto simp: make_shared_def item_def\<close>)

lemma fork_ok_link:
  assumes ok: "fork_ok en db" and a: "a < length (fd_heap db)" "fi_num (item db a) \<noteq> 0 \<or> fd_head db = None"
    and l: "link_item a db = (r, db')"
  shows "fork_ok en db'" "db' = db\<lparr>fd_heap := fd_heap db'\<rparr>" "length (fd_heap db') = length (fd_heap db)"
    "fi_id (item db' x) = fi_id (item db x)" "fi_num (item db' x) = fi_num (item db x)" "fi_data (item db' x) = fi_data (item db x)"
proof -
  have cases: "db' = db \<or> (\<exists>p. index_find db (fd_index db) (previous_id (item db a)) = Some p \<and> fd_head db \<noteq> None \<and>
      db' = set_item a ((item db a)\<lparr>fi_prev := Some p\<rparr>) db)"
    using l by (auto simp: link_item_def split: if_splits option.splits)
  then show "db' = db\<lparr>fd_heap := fd_heap db'\<rparr>" "length (fd_heap db') = length (fd_heap db)" by (auto simp: set_item_def)
  show same: "fi_id (item db' x) = fi_id (item db x)" "fi_num (item db' x) = fi_num (item db x)" "fi_data (item db' x) = fi_data (item db x)" for x
    using cases a(1) by (auto simp: set_item_def item_def nth_list_update)
  show "fork_ok en db'"
    using cases
  proof (elim disjE exE conjE)
    fix p
    assume p: "index_find db (fd_index db) (previous_id (item db a)) = Some p" "fd_head db \<noteq> None"
      "db' = set_item a ((item db a)\<lparr>fi_prev := Some p\<rparr>) db"
    have pl: "p < length (fd_heap db)" "fi_id (item db p) = previous_id (item db a)"
      using index_find_Some [OF p(1)] fork_okD(1) [OF ok] by auto
    have "fi_num (item db a) = fi_num (item db p) + 1"
      using item_num [OF ok a(1)] item_num [OF ok pl(1)] pl(2) by (metis block_num_def previous_id_def)
    then have lt: "fi_num (item db p) < fi_num (item db a)" using next_number a(2) p(2) by blast
    have "item_ok en (fd_heap db) (item db a)" using ok a(1) by (simp add: fork_ok_def heap_ok_def item_def)
    then have "item_ok en (fd_heap db) ((item db a)\<lparr>fi_prev := Some p\<rparr>)"
      using pl lt by (simp add: item_ok_def item_def previous_id_def)
    then have "heap_ok en (fd_heap db')"
      using ok heap_ok_update [of en "fd_heap db" "(item db a)\<lparr>fi_prev := Some p\<rparr>" a]
      by (simp add: p(3) set_item_def fork_ok_def item_def)
    moreover have "alive db' = alive db" by (simp add: p(3) set_item_def alive_def fun_eq_iff)
    ultimately show "fork_ok en db'" using ok same(1) by (simp add: fork_ok_def p(3) set_item_def)
  qed (use ok in simp)
qed

lemma index_insert_cases:
  "index_insert db a idx = idx \<and> fi_id (item db a) \<in> (\<lambda>a. fi_id (item db a)) ` set idx \<or>
   index_insert db a idx = idx @ [a] \<and> fi_id (item db a) \<notin> (\<lambda>a. fi_id (item db a)) ` set idx"
  using index_find_None [of db idx "fi_id (item db a)"] by (auto simp: index_insert_def)

lemma fork_ok_insert:
  assumes "fork_ok en db" "a < length (fd_heap db)"
  shows "fork_ok en (db\<lparr>fd_index := index_insert db a (fd_index db)\<rparr>)"
  by (rule fork_ok_frame [OF assms(1)])
    (use assms index_insert_cases [of db a "fd_index db"] in \<open>auto simp: fork_ok_def alive_def\<close>)

lemma fork_ok_advance:
  assumes "fork_ok en db" "a < length (fd_heap db)"
  shows "fork_ok en (advance_head a db)"
  by (rule fork_ok_frame [OF assms(1)])
    (use assms in \<open>auto simp: fork_ok_def alive_def advance_head_def Let_def erase_older_filter distinct_map_filter split: option.splits\<close>)

lemma not_too_old: "\<not> too_old db a \<Longrightarrow> fi_num (item db a) \<noteq> 0 \<or> fd_head db = None"
  by (auto simp: too_old_def split: option.splits)

lemma push_item_cases:
  assumes ok: "fork_ok en db" and a: "a < length (fd_heap db)" and p: "push_item a db = (r, db')"
  obtains (failed) e where "r = Inl e" "db' = db" 
  | (pushed) db1 where "r = Inr ()" "\<not> too_old db a" "link_item a db = (Inr (), db1)" "fork_ok en db1"
      "db' = advance_head a (db1\<lparr>fd_index := index_insert db1 a (fd_index db1)\<rparr>)"
proof (cases "too_old db a")
  case True
  then show ?thesis using p by (intro failed) (auto simp: push_item_def)
next
  case False
  obtain r1 db1 where l: "link_item a db = (r1, db1)" by fastforce
  note fl = fork_ok_link [OF ok a not_too_old [OF False] l]
  show ?thesis
  proof (cases r1)
    case (Inl e)
    then have "db1 = db" using l by (auto simp: link_item_def split: if_splits option.splits)
    then show ?thesis using p False l Inl by (intro failed [of e]) (auto simp: push_item_def run_bind_def)
  next
    case (Inr u)
    then show ?thesis using p False l fl(1) by (intro pushed [of db1]) (auto simp: push_item_def run_bind_def run_update_def)
  qed
qed

lemma push_item_ok:
  assumes "fork_ok en db" "a < length (fd_heap db)" "push_item a db = (r, db')"
  shows "fork_ok en db'"
proof (rule push_item_cases [OF assms])
  fix db1
  assume d: "\<not> too_old db a" "link_item a db = (Inr (), db1)" "fork_ok en db1"
    "db' = advance_head a (db1\<lparr>fd_index := index_insert db1 a (fd_index db1)\<rparr>)"
  have "a < length (fd_heap db1)" using fork_ok_link(3) [OF assms(1,2) not_too_old [OF d(1)] d(2)] assms(2) by simp
  then show ?thesis using fork_ok_advance [OF fork_ok_insert [OF d(3)]] d(4) by simp
qed (use assms(1) in simp)

section \<open>Steps\<close>

text \<open>
  What a client of the fork database does. It may hold any living item and let go of it, flag an item as
  invalid, and make a living item the head.
\<close>

inductive fork_step :: "('h, 't) block_env \<Rightarrow> ('h, 't) fork_database \<Rightarrow> ('h, 't) fork_database \<Rightarrow> bool" for en where
  step_start: "fork_step en db (fork_start_block en b db)"
| step_push: "fork_push_block en b db = (r, db') \<Longrightarrow> fork_step en db db'"
| step_pop: "fork_pop_block db = (r', db') \<Longrightarrow> fork_step en db db'"
| step_set_head: "h \<noteq> None \<Longrightarrow> alive db (the h) \<Longrightarrow> fork_step en db (fork_set_head h db)"
| step_remove: "fork_step en db (fork_remove i db)"
| step_max_size: "fork_step en db (fork_set_max_size s db)"
| step_reset: "fork_step en db (fork_reset db)"
| step_invalid: "alive db a \<Longrightarrow> fork_step en db (set_item a ((item db a)\<lparr>fi_invalid := True\<rparr>) db)"
| step_hold: "\<forall>a \<in> set as. alive db a \<Longrightarrow> fork_step en db (db\<lparr>fd_held := as\<rparr>)"

inductive_cases fork_stepE: "fork_step en db db'"

lemma fork_push_cases:
  assumes ok: "fork_ok en db" and p: "fork_push_block en b db = (r, db')"
  obtains a db0 where "make_shared (make_fork_item en b) db = (a, db0)" "fork_ok en db0" "a < length (fd_heap db0)"
    "push_item a db0 = (map_sum (\<lambda>e. e) (\<lambda>_. ()) r, db')" "\<forall>h. r = Inr h \<longrightarrow> h = fd_head db'"
proof -
  obtain a db0 where m: "make_shared (make_fork_item en b) db = (a, db0)" by fastforce
  obtain r1 db1 where q: "push_item a db0 = (r1, db1)" by fastforce
  have "r = (case r1 of Inl e \<Rightarrow> Inl e | Inr _ \<Rightarrow> Inr (fd_head db1))" "db1 = db'"
    using p m q by (auto simp: fork_push_block_def run_bind_def run_get_def split: sum.splits)
  then show ?thesis
    using that [OF m fork_ok_make_shared(1,2) [OF ok m]] q by (auto split: sum.splits)
qed

lemma fork_ok_head:
  assumes "fork_ok en db" "alive db h"
  shows "fork_ok en (db\<lparr>fd_head := Some h\<rparr>)"
proof (rule fork_ok_frame [OF assms(1)])
  have "alive (db\<lparr>fd_head := Some h\<rparr>) a \<Longrightarrow> a = h \<or> alive db a" for a by (auto simp: alive_def)
  then show "\<forall>a. alive (db\<lparr>fd_head := Some h\<rparr>) a \<longrightarrow> a < length (fd_heap db)"
    using assms by (auto simp: fork_ok_def)
qed (use assms(1) in \<open>simp_all add: fork_ok_def\<close>)

lemma fork_step_ok:
  assumes ok: "fork_ok en db" and step: "fork_step en db db'"
  shows "fork_ok en db'"
  using step
proof cases
  case (step_start b)
  obtain a db0 where m: "make_shared (make_fork_item en b) db = (a, db0)" by fastforce
  note s = fork_ok_make_shared [OF ok m]
  have "fork_ok en (db0\<lparr>fd_index := index_insert db0 a (fd_index db0), fd_head := Some a\<rparr>)"
    by (rule fork_ok_frame [OF fork_ok_insert [OF s(1,2)]])
      (use fork_ok_insert [OF s(1,2)] s(2) in \<open>auto simp: fork_ok_def alive_def\<close>)
  then show ?thesis using m by (simp add: step_start fork_start_block_def)
next
  case (step_push b r)
  show ?thesis by (rule fork_push_cases [OF ok step_push]) (rule push_item_ok)
next
  case (step_pop r')
  then have "db' = db \<or> (\<exists>h. fd_head db \<noteq> None \<and> alive db h \<and> db' = db\<lparr>fd_head := Some h\<rparr>)"
    by (auto simp: fork_pop_block_def weak_lock_def split: option.splits if_splits)
  then show ?thesis using ok fork_ok_head by auto
next
  case (step_set_head h)
  then show ?thesis using fork_ok_head [OF ok, of "the h"] by (auto simp: fork_set_head_def)
next
  case (step_remove i)
  show ?thesis unfolding step_remove
    by (rule fork_ok_frame [OF ok]) (use ok in \<open>auto simp: fork_ok_def alive_def fork_remove_def index_erase_def distinct_map_filter\<close>)
next
  case (step_max_size s)
  show ?thesis unfolding step_max_size
    by (rule fork_ok_frame [OF ok])
      (use ok in \<open>auto simp: fork_ok_def alive_def fork_set_max_size_def Let_def erase_older_filter distinct_map_filter item_def split: option.splits\<close>)
next
  case step_reset
  then show ?thesis using ok by (auto simp: fork_ok_def alive_def item_def fork_reset_def)
next
  case (step_invalid a)
  have a: "a < length (fd_heap db)" using ok step_invalid(2) by (simp add: fork_ok_def)
  let ?it = "(item db a)\<lparr>fi_invalid := True\<rparr>"
  have "item_ok en (fd_heap db) (item db a)" using ok a by (simp add: fork_ok_def heap_ok_def item_def)
  then have "item_ok en (fd_heap db) ?it" by (auto simp: item_ok_def previous_id_def)
  then have "heap_ok en (fd_heap db')"
    using ok heap_ok_update [of en "fd_heap db" ?it a] by (simp add: step_invalid set_item_def fork_ok_def item_def)
  moreover have "fi_id (item db' x) = fi_id (item db x)" for x
    using a by (simp add: step_invalid set_item_def item_def nth_list_update)
  ultimately show ?thesis using ok by (simp add: fork_ok_def step_invalid set_item_def alive_def)
next
  case (step_hold as)
  then show ?thesis using ok by (auto simp: fork_ok_def alive_def item_def)
qed

lemma new_fork_database_ok: "fork_ok en new_fork_database"
  by (simp add: fork_ok_def heap_ok_def alive_def new_fork_database_def)

lemma fork_steps_ok: "(fork_step en)\<^sup>*\<^sup>* db db' \<Longrightarrow> fork_ok en db \<Longrightarrow> fork_ok en db'"
  by (induction rule: rtranclp_induct) (auto intro: fork_step_ok)

section \<open>The head and the window\<close>

definition head_highest :: "('h, 't) fork_database \<Rightarrow> bool" where
  "head_highest db \<longleftrightarrow> (\<forall>h. fd_head db = Some h \<longrightarrow> (\<forall>a \<in> set (fd_index db). fi_num (item db a) \<le> fi_num (item db h))) \<and>
     (fd_head db = None \<longrightarrow> fd_index db = [])"

definition in_window :: "('h, 't) fork_database \<Rightarrow> bool" where
  "in_window db \<longleftrightarrow> (\<forall>h. fd_head db = Some h \<longrightarrow> (\<forall>a \<in> set (fd_index db).
     uint (fi_num (item db h)) - uint (fd_max_size db) \<le> uint (fi_num (item db a))))"

lemma item_advance [simp]: "item (advance_head a db) x = item db x" "item (db\<lparr>fd_index := i\<rparr>) x = item db x"
  by (auto simp: advance_head_def item_def Let_def split: option.splits)

lemma window_start:
  fixes n m :: u32
  shows "uint (n - min m n) = max 0 (uint n - uint m)"
proof (cases "m \<le> n")
  case True
  then show ?thesis by (simp add: min_def uint_minus_simple_alt [THEN iffD1] word_le_def)
next
  case False
  then show ?thesis by (simp add: min_def word_le_def)
qed

lemma push_item_head:
  assumes ok: "fork_ok en db" and a: "a < length (fd_heap db)" and inv: "head_highest db" "in_window db"
    and p: "push_item a db = (Inr (), db')"
  shows "head_highest db'" "in_window db'" "fi_id (item db' a) \<in> (\<lambda>x. fi_id (item db' x)) ` set (fd_index db')"
    "\<exists>h. fd_head db' = Some h \<and> fi_num (item db' a) \<le> fi_num (item db' h) \<and>
       (\<forall>h0. fd_head db = Some h0 \<longrightarrow> fi_num (item db h0) \<le> fi_num (item db' h))"
proof -
  obtain db1 where d: "\<not> too_old db a" "link_item a db = (Inr (), db1)" "fork_ok en db1"
      "db' = advance_head a (db1\<lparr>fd_index := index_insert db1 a (fd_index db1)\<rparr>)"
    by (rule push_item_cases [OF ok a p]) auto
  note l = fork_ok_link [OF ok a not_too_old [OF d(1)] d(2)]
  let ?n = "\<lambda>x. fi_num (item db x)"
  obtain heap where "db1 = db\<lparr>fd_heap := heap\<rparr>" using l(2) by blast
  then have f: "fd_index db1 = fd_index db" "fd_head db1 = fd_head db" "fd_max_size db1 = fd_max_size db" by simp_all
  have it: "fi_num (item db' x) = ?n x" "fi_id (item db' x) = fi_id (item db x)" for x using l(4,5) by (simp_all add: d(4))
  have ins: "set (index_insert db1 a (fd_index db1)) \<subseteq> insert a (set (fd_index db))"
      "fi_id (item db a) \<in> (\<lambda>x. fi_id (item db x)) ` set (index_insert db1 a (fd_index db1))"
    using index_insert_cases [of db1 a "fd_index db1"] l(4) f(1) by auto
  have nums: "fi_num (item db x) = fi_num (item db y)"
    if "fi_id (item db x) = fi_id (item db y)" "x < length (fd_heap db)" "y < length (fd_heap db)" for x y
    using item_num(3) [OF ok that(2)] item_num(3) [OF ok that(3)] that(1) by simp
  have inl: "x < length (fd_heap db)" if "x \<in> set (index_insert db1 a (fd_index db1))" for x
    using ins(1) that a fork_okD(1) [OF ok] by auto
  obtain y where y: "y \<in> set (index_insert db1 a (fd_index db1))" "fi_id (item db y) = fi_id (item db a)" "?n y = ?n a"
  proof -
    obtain y where "y \<in> set (index_insert db1 a (fd_index db1))" "fi_id (item db y) = fi_id (item db a)" using ins(2) by force
    then show ?thesis using that nums [OF _ inl a] by blast
  qed
  let ?i = "index_insert db1 a (fd_index db1)"
  have "head_highest db' \<and> in_window db' \<and> y \<in> set (fd_index db') \<and>
    (\<exists>h. fd_head db' = Some h \<and> ?n a \<le> ?n h \<and> (\<forall>h0. fd_head db = Some h0 \<longrightarrow> ?n h0 \<le> ?n h))"
  proof (cases "fd_head db")
    case None
    then have "fd_index db = []" using inv(1) by (simp add: head_highest_def)
    moreover have "fd_head db' = Some a" "fd_index db' = ?i" using None f by (simp_all add: d(4) advance_head_def)
    ultimately show ?thesis using None ins(1) y(1) by (auto simp: head_highest_def in_window_def it)
  next
    case (Some h)
    have i: "?n x \<le> ?n h \<and> uint (?n h) - uint (fd_max_size db) \<le> uint (?n x) \<or> x = a" if "x \<in> set ?i" for x
      using that ins(1) inv Some by (auto simp: head_highest_def in_window_def)
    show ?thesis
    proof (cases "?n h < ?n a")
      case True
      have n': "fd_head db' = Some a" "fd_max_size db' = fd_max_size db"
          "fd_index db' = filter (\<lambda>x. uint (?n a - min (fd_max_size db) (?n a)) \<le> uint (?n x)) ?i"
        using True Some f l(5) by (simp_all add: d(4) advance_head_def Let_def erase_older_filter)
      have "y \<in> set (fd_index db')" using y(1,3) by (simp add: n'(3) window_start)
      moreover have "?n x \<le> ?n a" if "x \<in> set ?i" for x using i [OF that] True by auto
      ultimately show ?thesis
        using n' True Some by (auto simp: head_highest_def in_window_def it window_start less_imp_le)
    next
      case False
      have n': "fd_head db' = Some h" "fd_max_size db' = fd_max_size db" "fd_index db' = ?i"
        using False Some f l(5) by (simp_all add: d(4) advance_head_def)
      have "?n a \<le> ?n h" "uint (?n h) - uint (fd_max_size db) \<le> uint (?n a)"
        using False d(1) Some by (auto simp: too_old_def)
      then have "?n x \<le> ?n h \<and> uint (?n h) - uint (fd_max_size db) \<le> uint (?n x)" if "x \<in> set ?i" for x
        using i [OF that] by auto
      then show ?thesis
        using n' y(1) Some \<open>?n a \<le> ?n h\<close> by (auto simp: head_highest_def in_window_def it)
    qed
  qed
  then show "head_highest db'" "in_window db'" "fi_id (item db' a) \<in> (\<lambda>x. fi_id (item db' x)) ` set (fd_index db')"
    "\<exists>h. fd_head db' = Some h \<and> fi_num (item db' a) \<le> fi_num (item db' h) \<and>
       (\<forall>h0. fd_head db = Some h0 \<longrightarrow> fi_num (item db h0) \<le> fi_num (item db' h))"
    using y(2) by (auto simp: it intro: rev_image_eqI)
qed

lemma fork_push_block_head:
  assumes ok: "fork_ok en db" and inv: "head_highest db" "in_window db" and p: "fork_push_block en b db = (Inr r, db')"
  shows "\<exists>h. r = Some h \<and> fd_head db' = Some h \<and> fork_is_known_block db' (block_id en b) \<and> block_num b \<le> fi_num (item db' h) \<and>
    head_highest db' \<and> in_window db'"
proof -
  obtain a db0 where m: "make_shared (make_fork_item en b) db = (a, db0)" "fork_ok en db0" "a < length (fd_heap db0)"
      "push_item a db0 = (Inr (), db')" "r = fd_head db'"
    by (rule fork_push_cases [OF ok p]) auto
  note s = fork_ok_make_shared [OF ok m(1)]
  have "item db0 x = item db x" if "x \<in> set (fd_index db) \<or> fd_head db = Some x" for x
    using that s(9) fork_okD [OF ok] by blast
  then have "head_highest db0" "in_window db0"
    using inv s(4,5,7) by (auto simp: head_highest_def in_window_def)
  note h = push_item_head [OF m(2,3) this m(4)]
  obtain db1 where l: "link_item a db0 = (Inr (), db1)" "db' = advance_head a (db1\<lparr>fd_index := index_insert db1 a (fd_index db1)\<rparr>)"
      "\<not> too_old db0 a"
    by (rule push_item_cases [OF m(2-4)]) auto
  note fl = fork_ok_link [OF m(2,3) not_too_old [OF l(3)] l(1)]
  have a: "fi_id (item db' a) = block_id en b" "fi_num (item db' a) = block_num b"
    using s(8) fl(4,5) by (simp_all add: l(2) make_fork_item_def)
  then have "fork_is_known_block db' (block_id en b)"
    using h(3) index_find_None [of db' "fd_index db'" "block_id en b"] by (simp add: fork_is_known_block_def)
  then show ?thesis using h(1,2,4) a(2) m(5) by auto
qed

text \<open>A block that does not link leaves the containers as they were; in particular it is not kept for later.\<close>

lemma fork_push_unlinkable:
  assumes head: "fd_head db = Some h" and b: "blk_previous b \<noteq> 0" "index_find db (fd_index db) (blk_previous b) = None"
    and idx: "\<forall>a \<in> set (fd_index db). a < length (fd_heap db)" "h < length (fd_heap db)"
    and recent: "max 0 (uint (fi_num (item db h)) - uint (fd_max_size db)) < uint (block_num b)"
  shows "\<exists>db'. fork_push_block en b db = (Inl Unlinkable_block_exception, db') \<and>
    fd_index db' = fd_index db \<and> fd_unlinked db' = fd_unlinked db \<and> fd_head db' = fd_head db"
proof -
  obtain a db0 where m: "make_shared (make_fork_item en b) db = (a, db0)" by fastforce
  then have d: "db0 = db\<lparr>fd_heap := fd_heap db @ [make_fork_item en b]\<rparr>" "a = length (fd_heap db)" by (auto simp: make_shared_def)
  have it: "item db0 a = make_fork_item en b" "item db0 h = item db h" "\<forall>x \<in> set (fd_index db). item db0 x = item db x"
    using idx by (simp_all add: d item_def nth_append)
  have "index_find db0 (fd_index db0) (blk_previous b) = None"
    using b(2) it(3) unfolding index_find_None by (auto simp: d(1))
  then have "link_item a db0 = (Inl Unlinkable_block_exception, db0)"
    using head b(1) it(1) by (simp add: link_item_def d(1) previous_id_def make_fork_item_def)
  moreover have "\<not> too_old db0 a"
    using head recent it(1,2) unfolding not_le [symmetric] by (simp add: too_old_def d(1) make_fork_item_def)
  ultimately have "fork_push_block en b db = (Inl Unlinkable_block_exception, db0)"
    using m by (simp add: fork_push_block_def push_item_def run_bind_def)
  then show ?thesis by (simp add: d(1))
qed

end
