(* ===== verification/Fork_Branches.thy ===== *)
theory Fork_Branches
  imports Fork_Invariant
begin

text \<open>
  \<^verbatim>\<open>fetch_branch_from\<close>: it always ends, its branches lead from the two blocks back to the most recent common
  ancestor, and it only fails when the items in between are gone.
\<close>

section \<open>Going back\<close>

definition branch :: "('h, 't) fork_database \<Rightarrow> addr list \<Rightarrow> bool" where
  "branch db as \<longleftrightarrow> as \<noteq> [] \<and> successively (\<lambda>a b. step_back db a = Inr b) as \<and> hd as < length (fd_heap db)"

lemma step_back_Inr:
  assumes "fork_ok en db" "a < length (fd_heap db)" "step_back db a = Inr p"
  shows "p < length (fd_heap db)" "fi_id (item db p) = previous_id (item db a)" "unat (fi_num (item db a)) = Suc (unat (fi_num (item db p)))"
proof -
  have l: "fi_prev (item db a) = Some p"
    using assms(3) by (auto simp: step_back_def weak_lock_def split: option.splits if_splits)
  note i = item_link [OF assms(1,2) l]
  show "p < length (fd_heap db)" "fi_id (item db p) = previous_id (item db a)" using i by simp_all
  show "unat (fi_num (item db a)) = Suc (unat (fi_num (item db p)))"
    using i(3,4) unatSuc [of "fi_num (item db p)"] by (simp add: add.commute) (metis word_not_simps(1))
qed

lemma branch_nth:
  assumes "fork_ok en db" "branch db as" "i < length as"
  shows "as ! i < length (fd_heap db) \<and> unat (fi_num (item db (hd as))) = unat (fi_num (item db (as ! i))) + i"
  using assms(3)
proof (induction i)
  case 0
  then show ?case using assms(2) by (simp add: branch_def hd_conv_nth)
next
  case (Suc i)
  then have "step_back db (as ! i) = Inr (as ! Suc i)"
    using assms(2) by (simp add: branch_def successively_conv_nth)
  then show ?case using Suc.IH Suc.prems step_back_Inr(1,3) [OF assms(1), of "as ! i" "as ! Suc i"] by simp
qed

section \<open>The loops\<close>

lemma climb_ends:
  assumes "fork_ok en db" "a < length (fd_heap db)"
  shows "\<exists>r. climb db n a as = Some r"
  using assms(2)
proof (induction "unat (fi_num (item db a))" arbitrary: a as rule: less_induct)
  case less
  show ?case
  proof (cases "step_back db a")
    case (Inr p)
    then show ?thesis
      using less step_back_Inr [OF assms(1) less.prems Inr] by (subst climb.simps) auto
  qed (subst climb.simps, simp)
qed

lemma climb_branch:
  assumes "fork_ok en db"
  shows "a < length (fd_heap db) \<Longrightarrow> climb db n a as = Some (Inr (a', as')) \<Longrightarrow>
    \<exists>xs. as' = as @ xs \<and> branch db (xs @ [a']) \<and> hd (xs @ [a']) = a \<and> (\<forall>x \<in> set xs. n < fi_num (item db x)) \<and>
      fi_num (item db a') \<le> n"
proof (induction "unat (fi_num (item db a))" arbitrary: a as rule: less_induct)
  case less
  note num = item_num(1) [OF assms less.prems(1)]
  show ?case
  proof (cases "n < fi_num (item db a)")
    case True
    then obtain p where p: "step_back db a = Inr p" "climb db n p (as @ [a]) = Some (Inr (a', as'))"
      using less.prems(2) num by (subst (asm) climb.simps) (auto split: sum.splits)
    note s = step_back_Inr [OF assms less.prems(1) p(1)]
    obtain xs where xs: "as' = (as @ [a]) @ xs" "branch db (xs @ [a'])" "hd (xs @ [a']) = p" "\<forall>x \<in> set xs. n < fi_num (item db x)"
        "fi_num (item db a') \<le> n"
      using less.hyps [of p, OF _ s(1) p(2)] s(3) by auto
    have "branch db ((a # xs) @ [a'])"
      using xs(2,3) p(1) less.prems(1) by (cases "xs @ [a']") (auto simp: branch_def)
    then show ?thesis using xs True by (intro exI [of _ "a # xs"]) auto
  next
    case False
    then have "a' = a" "as' = as" using less.prems(2) num by (subst (asm) climb.simps, simp)+
    then show ?thesis using False less.prems(1) by (simp add: branch_def)
  qed
qed

lemma climb_both_ends:
  assumes "fork_ok en db"
  shows "a < length (fd_heap db) \<Longrightarrow> b < length (fd_heap db) \<Longrightarrow> \<exists>r. climb_both db a as b bs = Some r"
proof (induction "unat (fi_num (item db a))" arbitrary: a as b bs rule: less_induct)
  case less
  show ?case
  proof (cases "step_back db a")
    case (Inr p)
    note a = step_back_Inr [OF assms less.prems(1) Inr]
    show ?thesis
    proof (cases "step_back db b")
      case (Inr q)
      then show ?thesis
        using less.hyps [of p q "as @ [a]" "bs @ [b]"] a step_back_Inr [OF assms less.prems(2) Inr] \<open>step_back db a = Inr p\<close>
        by (subst climb_both.simps) simp
    qed (use Inr in \<open>subst climb_both.simps, simp\<close>)
  qed (subst climb_both.simps, simp)
qed

lemma climb_both_branches:
  assumes "fork_ok en db"
  shows "a < length (fd_heap db) \<Longrightarrow> b < length (fd_heap db) \<Longrightarrow> climb_both db a as b bs = Some (Inr (as', bs')) \<Longrightarrow>
    \<exists>xs ys. as' = as @ xs \<and> bs' = bs @ ys \<and> branch db xs \<and> branch db ys \<and> hd xs = a \<and> hd ys = b \<and> length xs = length ys \<and>
      previous_id (item db (last xs)) = previous_id (item db (last ys)) \<and>
      (\<forall>i < length xs - 1. previous_id (item db (xs ! i)) \<noteq> previous_id (item db (ys ! i)))"
proof (induction "unat (fi_num (item db a))" arbitrary: a as b bs rule: less_induct)
  case less
  show ?case
  proof (cases "previous_id (item db a) = previous_id (item db b)")
    case True
    then have "as' = as @ [a]" "bs' = bs @ [b]"
      using less.prems(3) by (subst (asm) climb_both.simps, simp add: previous_id_def)+
    then show ?thesis using True less.prems(1,2) by (intro exI [of _ "[a]"] exI [of _ "[b]"]) (simp add: branch_def)
  next
    case False
    then obtain p q where p: "step_back db a = Inr p" "step_back db b = Inr q"
        "climb_both db p (as @ [a]) q (bs @ [b]) = Some (Inr (as', bs'))"
      using less.prems(3) by (subst (asm) climb_both.simps) (auto simp: previous_id_def split: sum.splits)
    note s = step_back_Inr [OF assms less.prems(1) p(1)] step_back_Inr [OF assms less.prems(2) p(2)]
    obtain xs ys where xs: "as' = (as @ [a]) @ xs" "bs' = (bs @ [b]) @ ys" "branch db xs" "branch db ys" "hd xs = p" "hd ys = q"
        "length xs = length ys" "previous_id (item db (last xs)) = previous_id (item db (last ys))"
        "\<forall>i < length xs - 1. previous_id (item db (xs ! i)) \<noteq> previous_id (item db (ys ! i))"
      using less.hyps [OF _ s(1,4) p(3)] s(3) by auto
    have "xs \<noteq> []" "ys \<noteq> []" using xs(3,4) by (simp_all add: branch_def)
    then have "branch db (a # xs)" "branch db (b # ys)"
      using xs(3-6) p(1,2) less.prems(1,2) by (auto simp: branch_def successively_Cons)
    moreover have "\<forall>i < length (a # xs) - 1. previous_id (item db ((a # xs) ! i)) \<noteq> previous_id (item db ((b # ys) ! i))"
      using xs(9) False \<open>xs \<noteq> []\<close> by (auto simp: nth_Cons less_Suc_eq_0_disj split: nat.splits)
    ultimately show ?thesis
      using xs \<open>xs \<noteq> []\<close> \<open>ys \<noteq> []\<close> by (intro exI [of _ "a # xs"] exI [of _ "b # ys"]) auto
  qed
qed

section \<open>Branches to the common ancestor\<close>

lemma fetch_branch_from_ends:
  assumes "fork_ok en db"
  shows "\<exists>r. fetch_branch_from db first second = Some r"
proof (cases "index_find db (fd_index db) first")
  case None
  then show ?thesis by (simp add: fetch_branch_from_def)
next
  case (Some a)
  show ?thesis
  proof (cases "index_find db (fd_index db) second")
    case None
    then show ?thesis using Some by (simp add: fetch_branch_from_def)
  next
    case (Some b)
    have l: "a < length (fd_heap db)" "b < length (fd_heap db)"
      using Some \<open>index_find db (fd_index db) first = Some a\<close> index_find_Some fork_okD(1) [OF assms] by blast+
    obtain r1 where r1: "climb db (block_num (fi_data (item db b))) a [] = Some r1" using climb_ends [OF assms l(1)] by blast
    show ?thesis
    proof (cases r1)
      case (Inl e)
      then show ?thesis using Some r1 \<open>index_find db (fd_index db) first = Some a\<close> by (simp add: fetch_branch_from_def)
    next
      case (Inr x)
      obtain a' as where x: "x = (a', as)" by fastforce
      have "branch db (as @ [a'])" using climb_branch [OF assms l(1)] r1 Inr x by fastforce
      then have l': "a' < length (fd_heap db)" using branch_nth [OF assms, of "as @ [a']" "length as"] by simp
      obtain r2 where r2: "climb db (block_num (fi_data (item db a'))) b [] = Some r2" using climb_ends [OF assms l(2)] by blast
      show ?thesis
      proof (cases r2)
        case (Inl e)
        then show ?thesis using Some r1 r2 Inr x \<open>index_find db (fd_index db) first = Some a\<close> by (simp add: fetch_branch_from_def)
      next
        case (Inr y)
        obtain b' bs where y: "y = (b', bs)" by fastforce
        have "branch db (bs @ [b'])" using climb_branch [OF assms l(2)] r2 Inr y by fastforce
        then have "b' < length (fd_heap db)" using branch_nth [OF assms, of "bs @ [b']" "length bs"] by simp
        then show ?thesis
          using climb_both_ends [OF assms l'] Some r1 r2 Inr x y \<open>r1 = Inr x\<close> \<open>index_find db (fd_index db) first = Some a\<close>
          by (simp add: fetch_branch_from_def)
      qed
    qed
  qed
qed

lemma branch_append:
  assumes "branch db (xs @ [a])" "branch db ys" "hd ys = a"
  shows "branch db (xs @ ys)" "hd (xs @ ys) = hd (xs @ [a])"
  using assms by (cases ys; auto simp: branch_def successively_append_iff hd_append)+

lemma branch_last_num:
  assumes "fork_ok en db" "branch db as"
  shows "unat (fi_num (item db (last as))) \<le> unat (fi_num (item db (hd as)))" "last as < length (fd_heap db)"
    "unat (fi_num (item db (hd as))) + 1 = unat (fi_num (item db (last as))) + length as"
proof -
  have "as \<noteq> []" using assms(2) by (simp add: branch_def)
  then show "unat (fi_num (item db (last as))) \<le> unat (fi_num (item db (hd as)))" "last as < length (fd_heap db)"
      "unat (fi_num (item db (hd as))) + 1 = unat (fi_num (item db (last as))) + length as"
    using branch_nth [OF assms, of "length as - 1"] by (auto simp: last_conv_nth)
qed

lemma climb_exact:
  assumes "fork_ok en db" "branch db (xs @ [a'])" "\<forall>x \<in> set xs. n < fi_num (item db x)" "fi_num (item db a') \<le> n"
    "n \<le> fi_num (item db (hd (xs @ [a'])))"
  shows "fi_num (item db a') = n"
proof (cases xs rule: rev_cases)
  case Nil
  then show ?thesis using assms(4,5) by simp
next
  case (snoc ys y)
  then have "step_back db y = Inr a'" using assms(2) by (simp add: branch_def successively_append_iff)
  moreover have "y < length (fd_heap db)" using branch_nth [OF assms(1,2), of "length ys"] snoc by (simp add: nth_append)
  ultimately have "unat (fi_num (item db y)) = Suc (unat (fi_num (item db a')))" using step_back_Inr [OF assms(1)] by blast
  then show ?thesis using assms(3,4) snoc by (simp add: word_less_nat_alt word_le_nat_alt word_unat_eq_iff)
qed

lemma previous_num:
  assumes "fork_ok en db" "a < length (fd_heap db)" "b < length (fd_heap db)" "previous_id (item db a) = previous_id (item db b)"
  shows "fi_num (item db a) = fi_num (item db b)"
  using item_num(1) [OF assms(1,2)] item_num(1) [OF assms(1,3)] assms(4) by (simp add: block_num_def previous_id_def)

lemma fetch_branch_Inr:
  assumes ok: "fork_ok en db" and f: "fetch_branch_from db first second = Some (Inr (fs, ss))"
  obtains a b p1 xs p2 ys where "index_find db (fd_index db) first = Some a" "index_find db (fd_index db) second = Some b"
    "fs = p1 @ xs" "ss = p2 @ ys" "branch db fs" "branch db ss" "hd fs = a" "hd ss = b" "length xs = length ys" "xs \<noteq> []"
    "p1 = [] \<or> p2 = []" "fi_num (item db (hd xs)) = fi_num (item db (hd ys))" "branch db xs" "branch db ys"
    "previous_id (item db (last xs)) = previous_id (item db (last ys))"
    "\<forall>i < length xs - 1. previous_id (item db (xs ! i)) \<noteq> previous_id (item db (ys ! i))"
proof -
  obtain a b where ab: "index_find db (fd_index db) first = Some a" "index_find db (fd_index db) second = Some b"
    using f by (auto simp: fetch_branch_from_def split: option.splits)
  obtain r1 where r1: "climb db (block_num (fi_data (item db b))) a [] = Some r1"
      "(case r1 of Inl e \<Rightarrow> Some (Inl e)
        | Inr (a', as) \<Rightarrow> Option.bind (climb db (block_num (fi_data (item db a'))) b []) (\<lambda>r2.
            case r2 of Inl e \<Rightarrow> Some (Inl e) | Inr (b', bs) \<Rightarrow> climb_both db a' as b' bs)) = Some (Inr (fs, ss))"
    using f ab by (auto simp: fetch_branch_from_def bind_eq_Some_conv)
  obtain a' as where a': "r1 = Inr (a', as)" using r1(2) by (cases r1) auto
  obtain r2 where r2: "climb db (block_num (fi_data (item db a'))) b [] = Some r2"
      "(case r2 of Inl e \<Rightarrow> Some (Inl e) | Inr (b', bs) \<Rightarrow> climb_both db a' as b' bs) = Some (Inr (fs, ss))"
    using r1(2) a' by (auto simp: bind_eq_Some_conv)
  obtain b' bs where b': "r2 = Inr (b', bs)" using r2(2) by (cases r2) auto
  note g = ab r1(1) [unfolded a'] r2(1) [unfolded b'] r2(2) [unfolded b', simplified]
  have l: "a < length (fd_heap db)" "b < length (fd_heap db)"
    using g(1,2) index_find_Some fork_okD(1) [OF ok] by blast+
  let ?n = "\<lambda>x. fi_num (item db x)"
  have a: "branch db (as @ [a'])" "hd (as @ [a']) = a" "\<forall>x \<in> set as. ?n b < ?n x" "?n a' \<le> ?n b"
    using climb_branch [OF ok l(1) g(3)] item_num(1) [OF ok l(2)] by auto
  have a': "a' < length (fd_heap db)" using branch_last_num(2) [OF ok a(1)] by simp
  have b: "branch db (bs @ [b'])" "hd (bs @ [b']) = b" "\<forall>x \<in> set bs. ?n a' < ?n x" "?n b' \<le> ?n a'"
    using climb_branch [OF ok l(2) g(4)] item_num(1) [OF ok a'] by auto
  have b': "b' < length (fd_heap db)" using branch_last_num(2) [OF ok b(1)] by simp
  have eq: "?n b' = ?n a'" using climb_exact [OF ok b(1,3,4)] b(2) a(4) by simp
  have one: "as = [] \<or> bs = []"
  proof (cases as)
    case (Cons x as')
    then have "?n b \<le> ?n a" using a(2,3) by (simp add: less_imp_le)
    then have "?n a' = ?n b" using climb_exact [OF ok a(1,3,4)] a(2) by simp
    then show ?thesis using b(2,3) by (cases bs) auto
  qed simp
  obtain xs ys where x: "fs = as @ xs" "ss = bs @ ys" "branch db xs" "branch db ys" "hd xs = a'" "hd ys = b'" "length xs = length ys"
      "previous_id (item db (last xs)) = previous_id (item db (last ys))"
      "\<forall>i < length xs - 1. previous_id (item db (xs ! i)) \<noteq> previous_id (item db (ys ! i))"
    using climb_both_branches [OF ok a' b' g(5)] by auto
  have "xs \<noteq> []" using x(3) by (simp add: branch_def)
  then show ?thesis
    using that [OF g(1,2) x(1,2)] branch_append [OF a(1) x(3,5)] branch_append [OF b(1) x(4,6)] a(2) b(2) x one eq by simp
qed

lemma fetch_branch_recent:
  assumes ok: "fork_ok en db" and f: "fetch_branch_from db first second = Some (Inr (fs, ss))"
    and x: "x \<in> set (butlast fs)" and y: "y \<in> set (butlast ss)"
  shows "previous_id (item db x) \<noteq> previous_id (item db y)"
proof
  assume eq: "previous_id (item db x) = previous_id (item db y)"
  obtain p1 xs p2 ys where g: "fs = p1 @ xs" "ss = p2 @ ys" "branch db fs" "branch db ss" "length xs = length ys" "xs \<noteq> []"
      "p1 = [] \<or> p2 = []" "fi_num (item db (hd xs)) = fi_num (item db (hd ys))" "branch db xs" "branch db ys"
      "\<forall>i < length xs - 1. previous_id (item db (xs ! i)) \<noteq> previous_id (item db (ys ! i))"
    by (rule fetch_branch_Inr [OF ok f])
  obtain i j where i: "i < length fs - 1" "x = fs ! i" and j: "j < length ss - 1" "y = ss ! j"
    using x y by (auto simp: in_set_conv_nth nth_butlast)
  have xi: "x < length (fd_heap db)" "unat (fi_num (item db (hd fs))) = unat (fi_num (item db x)) + i"
    using branch_nth [OF ok g(3), of i] i by auto
  have yj: "y < length (fd_heap db)" "unat (fi_num (item db (hd ss))) = unat (fi_num (item db y)) + j"
    using branch_nth [OF ok g(4), of j] j by auto
  have ys: "ys \<noteq> []" using g(5,6) by auto
  have "fs ! length p1 = hd xs" "ss ! length p2 = hd ys" using g(1,2,5,6) by (cases xs; cases ys; simp add: nth_append)+
  then have "unat (fi_num (item db (hd fs))) = unat (fi_num (item db (hd xs))) + length p1"
      "unat (fi_num (item db (hd ss))) = unat (fi_num (item db (hd xs))) + length p2"
    using branch_nth [OF ok g(3), of "length p1"] branch_nth [OF ok g(4), of "length p2"] g(1,2,6,8) ys by auto
  then have shift: "length p1 + j = length p2 + i"
    using xi(2) yj(2) previous_num [OF ok xi(1) yj(1) eq] by simp
  have top: "\<not> (i < length p1 \<and> p2 = [])" "\<not> (j < length p2 \<and> p1 = [])" using shift by auto
  then have ij: "length p1 \<le> i" "length p2 \<le> j" using g(7) shift by auto
  then have "i - length p1 = j - length p2" using shift by simp
  then show False
    using g(11) eq i j ij g(1,2,5) by (simp add: nth_append)
qed

section \<open>Success\<close>

lemma branch_tail:
  assumes "fork_ok en db" "branch db (a # xs)" "xs \<noteq> []"
  shows "step_back db a = Inr (hd xs)" "branch db xs"
proof -
  have a: "a < length (fd_heap db)" using assms(2) by (simp add: branch_def)
  show s: "step_back db a = Inr (hd xs)" using assms(2,3) by (cases xs) (simp_all add: branch_def)
  then show "branch db xs" using assms(2,3) step_back_Inr(1) [OF assms(1) a] by (cases xs) (simp_all add: branch_def)
qed

lemma climb_success:
  assumes "fork_ok en db"
  shows "branch db xs \<Longrightarrow> fi_num (item db (last xs)) \<le> n \<Longrightarrow>
    \<exists>a' as' xs'. climb db n (hd xs) as = Some (Inr (a', as')) \<and> branch db xs' \<and> hd xs' = a' \<and> last xs' = last xs"
proof (induction xs arbitrary: as)
  case (Cons a xs)
  have a: "a < length (fd_heap db)" using Cons.prems(1) by (simp add: branch_def)
  note num = item_num(1) [OF assms a]
  show ?case
  proof (cases "n < fi_num (item db a)")
    case True
    then have xs: "xs \<noteq> []" using Cons.prems(2) by auto
    note s = branch_tail [OF assms Cons.prems(1) xs]
    then show ?thesis
      using Cons.IH [OF s(2), of "as @ [a]"] Cons.prems(2) xs True s num by (subst climb.simps) simp
  next
    case False
    then show ?thesis using Cons.prems(1) num by (subst climb.simps) auto
  qed
qed (simp add: branch_def)

lemma climb_both_success:
  assumes "fork_ok en db"
  shows "branch db xs \<Longrightarrow> branch db ys \<Longrightarrow> length xs = length ys \<Longrightarrow>
    previous_id (item db (last xs)) = previous_id (item db (last ys)) \<Longrightarrow>
    \<exists>r. climb_both db (hd xs) as (hd ys) bs = Some (Inr r)"
proof (induction xs arbitrary: ys as bs)
  case (Cons a xs)
  obtain b ys' where ys: "ys = b # ys'" "length ys' = length xs" using Cons.prems(3) by (cases ys) auto
  show ?case
  proof (cases "previous_id (item db a) = previous_id (item db b)")
    case True
    then show ?thesis using ys(1) by (subst climb_both.simps) (simp add: previous_id_def)
  next
    case False
    then have n: "xs \<noteq> []" "ys' \<noteq> []" using Cons.prems(4) ys by auto
    have s: "step_back db a = Inr (hd xs)" "branch db xs" using branch_tail [OF assms] Cons.prems(1) n(1) by simp_all
    have s': "step_back db b = Inr (hd ys')" "branch db ys'" using branch_tail [OF assms, of b ys'] Cons.prems(2) n(2) ys(1) by simp_all
    show ?thesis
      using Cons.IH [OF s(2) s'(2), of "as @ [a]" "bs @ [b]"] Cons.prems(4) ys n False s(1) s'(1) by (subst climb_both.simps) (simp add: previous_id_def)
  qed
qed (simp add: branch_def)

lemma fetch_branch_success:
  assumes ok: "fork_ok en db" and idx: "index_find db (fd_index db) first = Some (hd xs)" "index_find db (fd_index db) second = Some (hd ys)"
    and br: "branch db xs" "branch db ys" "previous_id (item db (last xs)) = previous_id (item db (last ys))"
  shows "\<exists>fs ss. fetch_branch_from db first second = Some (Inr (fs, ss))"
proof -
  let ?n = "\<lambda>x. fi_num (item db x)"
  have last: "?n (last xs) = ?n (last ys)"
    using previous_num [OF ok _ _ br(3)] branch_last_num(2) [OF ok] br(1,2) by blast
  have heads: "hd xs < length (fd_heap db)" "hd ys < length (fd_heap db)" using br by (simp_all add: branch_def)
  have "?n (last xs) \<le> ?n (hd ys)" using branch_last_num(1) [OF ok br(2)] last by (simp add: word_le_nat_alt)
  then obtain a' as xs' where a: "climb db (?n (hd ys)) (hd xs) [] = Some (Inr (a', as))" "branch db xs'" "hd xs' = a'" "last xs' = last xs"
    using climb_success [OF ok br(1)] by blast
  have "?n (last ys) \<le> ?n a'" using branch_last_num(1) [OF ok a(2)] a(3,4) last by (simp add: word_le_nat_alt)
  then obtain b' bs ys' where b: "climb db (?n a') (hd ys) [] = Some (Inr (b', bs))" "branch db ys'" "hd ys' = b'" "last ys' = last ys"
    using climb_success [OF ok br(2)] by blast
  have a': "a' < length (fd_heap db)" using a(2,3) by (simp add: branch_def)
  obtain p where p: "branch db (p @ [b'])" "hd (p @ [b']) = hd ys" "\<forall>x \<in> set p. ?n a' < ?n x" "?n b' \<le> ?n a'"
    using climb_branch [OF ok heads(2) b(1)] by auto
  have le: "?n a' \<le> ?n (hd ys)" using climb_branch [OF ok heads(1) a(1)] by auto
  have "?n b' = ?n a'" using climb_exact [OF ok p(1,3,4)] p(2) le by simp
  then have "length xs' = length ys'"
    using branch_last_num(3) [OF ok a(2)] branch_last_num(3) [OF ok b(2)] a(3,4) b(3,4) last by simp
  then obtain r where "climb_both db a' as b' bs = Some (Inr r)"
    using climb_both_success [OF ok a(2) b(2), of as bs] a(3,4) b(3,4) br(3) by auto
  then show ?thesis
    using idx a(1) b(1) item_num(1) [OF ok heads(2)] item_num(1) [OF ok a'] by (cases r) (simp add: fetch_branch_from_def)
qed

end
