(* ===== verification/Fork_Restart.thy ===== *)
theory Fork_Restart
  imports Fork_Branches "HOL-Library.Multiset"
begin

text \<open>
  The fork database across a restart. Blocks are read back into a map with one entry for each
  predecessor, so a chain without forks comes back with its links, and of several blocks on the same
  predecessor only one does.
\<close>

section \<open>Reading the items\<close>

definition items_of :: "('h, 't) serializable_fork_item list \<Rightarrow> ('h, 't) fork_item list" where
  "items_of xs = map get_shared_item_without_prev_set xs"

definition read_ok :: "('h, 't) serializable_fork_item list \<Rightarrow> ('h, 't) fork_database \<Rightarrow> bool" where
  "read_ok xs db \<longleftrightarrow> fd_heap db = items_of xs \<and> fd_index db = [] \<and> std_map_wf (fd_items_read db) \<and>
     (\<forall>k a. (k, a) \<in> set (fd_items_read db) \<longrightarrow> a < length xs \<and> sfi_prev (xs ! a) = k) \<and>
     fst ` set (fd_items_read db) = sfi_prev ` set xs"

lemma std_map_set_fresh: "map_of m k = None \<Longrightarrow> set (std_map_set k v m) = insert (k, v) (set m)"
  by (induction k v m rule: std_map_set.induct) (auto split: if_splits)

lemma read_item_ok:
  assumes "read_ok xs db"
  shows "read_ok (xs @ [it]) (read_item head it db)"
proof -
  let ?r = "fd_items_read db"
  have r: "\<And>k a. (k, a) \<in> set ?r \<Longrightarrow> a < length xs \<and> sfi_prev (xs ! a) = k" "fst ` set ?r = sfi_prev ` set xs" "std_map_wf ?r"
    "fd_heap db = items_of xs" "fd_index db = []"
    using assms by (auto simp: read_ok_def)
  have len: "length (items_of xs) = length xs" by (simp add: items_of_def)
  let ?db = "read_item head it db"
  have f: "fd_heap ?db = items_of (xs @ [it])" "fd_index ?db = []"
      "fd_items_read ?db = (if std_map_find ?r (sfi_prev it) = None then std_map_set (sfi_prev it) (length xs) ?r else ?r)"
    using r(4,5) by (simp_all add: read_item_def make_shared_def Let_def items_of_def)
  have key: "std_map_find ?r k = None \<longleftrightarrow> k \<notin> sfi_prev ` set xs" for k
    using r(2) by (simp add: std_map_find_def map_of_eq_None_iff)
  show ?thesis
  proof (cases "std_map_find ?r (sfi_prev it) = None")
    case True
    have set: "set (std_map_set (sfi_prev it) (length xs) ?r) = insert (sfi_prev it, length xs) (set ?r)"
      using std_map_set_fresh True by (metis std_map_find_def)
    have "a < Suc (length xs) \<and> sfi_prev ((xs @ [it]) ! a) = k" if "(k, a) \<in> insert (sfi_prev it, length xs) (set ?r)" for k a
      using that r(1) [of k a] by (auto simp: nth_append)
    then show ?thesis unfolding read_ok_def f using True r(2-5) set by (auto simp: std_map.wf_put)
  next
    case False
    then have "sfi_prev it \<in> sfi_prev ` set xs" using key by simp
    moreover have "a < Suc (length xs) \<and> sfi_prev ((xs @ [it]) ! a) = k" if "(k, a) \<in> set ?r" for k a
      using r(1) [OF that] by (simp add: nth_append)
    ultimately show ?thesis unfolding read_ok_def f using False r(2-5) by auto
  qed
qed

lemma read_items_ok: "read_ok xs db \<Longrightarrow> read_ok (xs @ ys) (fold (read_item head) ys db)"
proof (induction ys arbitrary: xs db)
  case (Cons y ys)
  then show ?case using read_item_ok [of xs db y head] Cons.IH [of "xs @ [y]"] by simp
qed simp

lemma read_items_head:
  "fd_head (fold (read_item head) ys db) = (case List.find (\<lambda>i. sfi_id (ys ! i) = head) (rev [0..<length ys]) of
     Some i \<Rightarrow> Some (length (fd_heap db) + i) | None \<Rightarrow> fd_head db) \<and>
   length (fd_heap (fold (read_item head) ys db)) = length (fd_heap db) + length ys"
proof (induction ys rule: rev_induct)
  case (snoc y ys)
  have "List.find (\<lambda>i. sfi_id ((ys @ [y]) ! i) = head) (rev [0..<length ys]) = List.find (\<lambda>i. sfi_id (ys ! i) = head) (rev [0..<length ys])"
    by (rule find_cong) (auto simp: nth_append)
  then show ?case using snoc by (auto simp: read_item_def make_shared_def Let_def)
qed simp

lemma new_read_ok: "read_ok [] new_fork_database"
  by (simp add: read_ok_def new_fork_database_def items_of_def std_map_wf_def)

section \<open>Linking the items\<close>

text \<open>The items without their links.\<close>

definition unlinked :: "('h, 't) fork_item \<Rightarrow> ('h, 't) fork_item" where
  "unlinked it = it\<lparr>fi_prev := None\<rparr>"

definition same_items :: "('h, 't) fork_database \<Rightarrow> ('h, 't) fork_database \<Rightarrow> bool" where
  "same_items db db' \<longleftrightarrow> map unlinked (fd_heap db') = map unlinked (fd_heap db) \<and> fd_index db' = fd_index db \<and>
     fd_items_read db' = fd_items_read db \<and> fd_head db' = fd_head db"

lemma same_items_item:
  assumes "same_items db db'" "a < length (fd_heap db)"
  shows "unlinked (item db' a) = unlinked (item db a)" "fi_id (item db' a) = fi_id (item db a)"
    "previous_id (item db' a) = previous_id (item db a)" "length (fd_heap db') = length (fd_heap db)"
proof -
  show len: "length (fd_heap db') = length (fd_heap db)" using assms(1) by (auto simp: same_items_def dest: map_eq_imp_length_eq)
  have "map unlinked (fd_heap db') ! a = map unlinked (fd_heap db) ! a" using assms(1) by (simp add: same_items_def)
  then show u: "unlinked (item db' a) = unlinked (item db a)" using assms(2) len by (simp add: item_def)
  show "fi_id (item db' a) = fi_id (item db a)" "previous_id (item db' a) = previous_id (item db a)"
    using arg_cong [OF u, of fi_id] arg_cong [OF u, of previous_id] by (simp_all add: unlinked_def previous_id_def)
qed

lemma same_items_trans: "same_items a b \<Longrightarrow> same_items b c \<Longrightarrow> same_items a c"
  by (simp add: same_items_def)

definition link_one :: "block_id_type \<times> addr \<Rightarrow> block_id_type \<times> addr \<Rightarrow> ('h, 't) fork_database \<Rightarrow> ('h, 't) fork_database" where
  "link_one w r db = (if fst w = fi_id (item db (snd r)) then set_item (snd w) ((item db (snd w))\<lparr>fi_prev := Some (snd r)\<rparr>) db else db)"

lemma link_one_same:
  assumes "snd w < length (fd_heap db)"
  shows "same_items db (link_one w r db)"
    "fi_prev (item (link_one w r db) a) = (if a = snd w \<and> fst w = fi_id (item db (snd r)) then Some (snd r) else fi_prev (item db a))"
proof -
  have "map unlinked ((fd_heap db)[snd w := (fd_heap db ! snd w)\<lparr>fi_prev := Some (snd r)\<rparr>]) = map unlinked (fd_heap db)"
    using assms by (intro nth_equalityI) (auto simp: nth_list_update unlinked_def)
  then show "same_items db (link_one w r db)" by (simp add: same_items_def link_one_def set_item_def item_def)
  show "fi_prev (item (link_one w r db) a) = (if a = snd w \<and> fst w = fi_id (item db (snd r)) then Some (snd r) else fi_prev (item db a))"
    using assms by (simp add: link_one_def set_item_def item_def nth_list_update)
qed

lemma link_all:
  assumes "snd w < length (fd_heap db)" "\<forall>r \<in> set rs. snd r < length (fd_heap db)"
    "inj_on (\<lambda>r. fi_id (item db (snd r))) (set rs)"
  shows "same_items db (fold (link_one w) rs db)"
    "a \<noteq> snd w \<Longrightarrow> fi_prev (item (fold (link_one w) rs db) a) = fi_prev (item db a)"
    "fi_prev (item db (snd w)) = None \<Longrightarrow>
      fi_prev (item (fold (link_one w) rs db) (snd w)) = Some p \<longleftrightarrow> (\<exists>r \<in> set rs. p = snd r \<and> fi_id (item db p) = fst w)"
proof -
  have "same_items db (fold (link_one w) rs db) \<and> (a \<noteq> snd w \<longrightarrow> fi_prev (item (fold (link_one w) rs db) a) = fi_prev (item db a)) \<and>
      (fi_prev (item db (snd w)) = None \<longrightarrow>
        fi_prev (item (fold (link_one w) rs db) (snd w)) = Some p \<longleftrightarrow> (\<exists>r \<in> set rs. p = snd r \<and> fi_id (item db p) = fst w))"
    using assms
  proof (induction rs rule: rev_induct)
    case (snoc r rs)
    let ?d = "fold (link_one w) rs db"
    have IH: "same_items db ?d" "a \<noteq> snd w \<longrightarrow> fi_prev (item ?d a) = fi_prev (item db a)"
        "fi_prev (item db (snd w)) = None \<longrightarrow> (fi_prev (item ?d (snd w)) = Some p) = (\<exists>r \<in> set rs. p = snd r \<and> fi_id (item db p) = fst w)"
      using snoc by (auto simp: inj_on_insert)
    have w: "snd w < length (fd_heap ?d)" using snoc.prems(1) same_items_item(4) [OF IH(1)] by simp
    have ids: "fi_id (item ?d (snd r)) = fi_id (item db (snd r))" using same_items_item(2) [OF IH(1)] snoc.prems(2) by simp
    note l = link_one_same [OF w, of r]
    have only: "snd q = snd r" if "q \<in> set rs" "fi_id (item db (snd q)) = fst w" "fi_id (item db (snd r)) = fst w" for q
      using snoc.prems(3) that by (auto simp: inj_on_def)
    show ?case
    proof (intro conjI impI)
      assume none: "fi_prev (item db (snd w)) = None"
      show "(fi_prev (item (fold (link_one w) (rs @ [r]) db) (snd w)) = Some p) = (\<exists>q \<in> set (rs @ [r]). p = snd q \<and> fi_id (item db p) = fst w)"
      proof (cases "fi_id (item db (snd r)) = fst w")
        case True
        then show ?thesis using l(2) [of "snd w"] ids only by auto
      next
        case False
        then show ?thesis using l(2) [of "snd w"] ids IH(3) none by auto
      qed
    qed (use same_items_trans [OF IH(1) l(1)] IH(2) l(2) [of a] in simp_all)
  qed (simp add: same_items_def)
  then show "same_items db (fold (link_one w) rs db)"
    "a \<noteq> snd w \<Longrightarrow> fi_prev (item (fold (link_one w) rs db) a) = fi_prev (item db a)"
    "fi_prev (item db (snd w)) = None \<Longrightarrow>
      fi_prev (item (fold (link_one w) rs db) (snd w)) = Some p \<longleftrightarrow> (\<exists>r \<in> set rs. p = snd r \<and> fi_id (item db p) = fst w)"
    by blast+
qed

lemma link_read_fold: "link_read w db = fold (link_one w) (fd_items_read db) db"
  by (simp add: link_read_def link_one_def [abs_def])

lemma links_all:
  assumes rs: "\<forall>r \<in> set (fd_items_read db). snd r < length (fd_heap db)"
      "inj_on (\<lambda>r. fi_id (item db (snd r))) (set (fd_items_read db))"
    and ws: "set ws \<subseteq> set (fd_items_read db)" "distinct (map snd ws)" and none: "\<forall>w \<in> set ws. fi_prev (item db (snd w)) = None"
  shows "same_items db (fold link_read ws db) \<and> (\<forall>a. a \<notin> snd ` set ws \<longrightarrow> fi_prev (item (fold link_read ws db) a) = fi_prev (item db a)) \<and>
    (\<forall>w \<in> set ws. \<forall>p. fi_prev (item (fold link_read ws db) (snd w)) = Some p \<longleftrightarrow>
       (\<exists>r \<in> set (fd_items_read db). p = snd r \<and> fi_id (item db p) = fst w))"
  using ws none
proof (induction ws rule: rev_induct)
  case (snoc w ws)
  let ?d = "fold link_read ws db" and ?rs = "fd_items_read db"
  have IH: "same_items db ?d" "\<forall>a. a \<notin> snd ` set ws \<longrightarrow> fi_prev (item ?d a) = fi_prev (item db a)"
      "\<forall>w \<in> set ws. \<forall>p. fi_prev (item ?d (snd w)) = Some p \<longleftrightarrow> (\<exists>r \<in> set ?rs. p = snd r \<and> fi_id (item db p) = fst w)"
    using snoc by auto
  have r: "fd_items_read ?d = ?rs" using IH(1) by (simp add: same_items_def)
  have len: "length (fd_heap ?d) = length (fd_heap db)" using IH(1) by (auto simp: same_items_def dest: map_eq_imp_length_eq)
  have ids: "fi_id (item ?d (snd q)) = fi_id (item db (snd q))" if "q \<in> set ?rs" for q
    using same_items_item(2) [OF IH(1)] rs(1) that by blast
  have w: "w \<in> set ?rs" "snd w \<notin> snd ` set ws" using snoc.prems(1,2) by auto
  have a: "snd w < length (fd_heap ?d)" "\<forall>r \<in> set ?rs. snd r < length (fd_heap ?d)" using rs(1) w(1) len by auto
  have inj: "inj_on (\<lambda>r. fi_id (item ?d (snd r))) (set ?rs)" using rs(2) ids by (simp add: inj_on_def)
  note l = link_all [OF a inj, folded r, folded link_read_fold]
  have "fi_prev (item ?d (snd w)) = None" using IH(2) w(2) snoc.prems(3) by simp
  then have l3: "fi_prev (item (link_read w ?d) (snd w)) = Some p \<longleftrightarrow> (\<exists>r \<in> set ?rs. p = snd r \<and> fi_id (item db p) = fst w)" for p
    using l(3) [of p] ids r by auto
  have "\<forall>w' \<in> set ws. snd w' \<noteq> snd w" using w(2) by (metis imageI)
  then show ?case
    using same_items_trans [OF IH(1) l(1)] IH(2,3) l(2) l3 by simp
qed (simp add: same_items_def)

section \<open>Filling the index\<close>

lemma insert_all:
  assumes "distinct (map (\<lambda>a. fi_id (item db a)) (fd_index db @ map snd rs))"
  shows "run_for insert_read rs db = (Inr (), db\<lparr>fd_index := fd_index db @ map snd rs\<rparr>)"
  using assms
proof (induction rs arbitrary: db)
  case (Cons r rs)
  have "index_find db (fd_index db) (fi_id (item db (snd r))) = None"
    using Cons.prems by (auto simp: index_find_None)
  then have "insert_read r db = (Inr (), db\<lparr>fd_index := fd_index db @ [snd r]\<rparr>)"
    by (simp add: insert_read_def Let_def)
  moreover have "run_for insert_read rs (db\<lparr>fd_index := fd_index db @ [snd r]\<rparr>)
      = (Inr (), db\<lparr>fd_index := (fd_index db @ [snd r]) @ map snd rs\<rparr>)"
    using Cons.IH [of "db\<lparr>fd_index := fd_index db @ [snd r]\<rparr>"] Cons.prems by simp
  ultimately show ?case by (simp add: run_bind_def)
qed (simp add: run_return_def)

section \<open>After a restart\<close>

lemma from_file_result:
  assumes ids: "distinct (map sfi_id (fdata_items data))"
  obtains db where "fork_from_file (Some (Inr data)) new_fork_database = (Inr (), db)" "read_ok (fdata_items data) (db\<lparr>fd_index := [], fd_heap := items_of (fdata_items data)\<rparr>)"
    "fd_index db = map snd (fd_items_read db)" "\<forall>a < length (fdata_items data). unlinked (item db a) = get_shared_item_without_prev_set (fdata_items data ! a)"
    "\<forall>a \<in> set (fd_index db). \<forall>p. fi_prev (item db a) = Some p \<longleftrightarrow> p \<in> set (fd_index db) \<and> fi_id (item db p) = sfi_prev (fdata_items data ! a)"
    "fd_head db = List.find (\<lambda>i. sfi_id (fdata_items data ! i) = fdata_head data) (rev [0..<length (fdata_items data)])"
proof -
  let ?xs = "fdata_items data"
  define db1 where "db1 = fold (read_item (fdata_head data)) ?xs new_fork_database"
  let ?rs = "fd_items_read db1"
  have ok: "read_ok ?xs db1" using read_items_ok [OF new_read_ok, of ?xs] by (simp add: db1_def)
  have heap: "fd_heap db1 = items_of ?xs" "fd_index db1 = []" "std_map_wf ?rs"
      "\<And>k a. (k, a) \<in> set ?rs \<Longrightarrow> a < length ?xs \<and> sfi_prev (?xs ! a) = k"
    using ok by (auto simp: read_ok_def)
  have it: "item db1 a = get_shared_item_without_prev_set (?xs ! a)" if "a < length ?xs" for a
    using that by (simp add: item_def heap(1) items_of_def)
  have rs: "snd r < length ?xs" "sfi_prev (?xs ! snd r) = fst r" if "r \<in> set ?rs" for r
    using heap(4) [of "fst r" "snd r"] that by auto
  have dist: "distinct (map fst ?rs)" using heap(3) by (simp add: std_map_wf_def strict_sorted_iff)
  have "inj_on snd (set ?rs)"
    using rs(2) dist by (metis (no_types, lifting) inj_onI prod.collapse prod_eqI)
  then have dsnd: "distinct (map snd ?rs)" using dist by (simp add: distinct_map)
  have inj: "inj_on (\<lambda>r. fi_id (item db1 (snd r))) (set ?rs)"
  proof (rule inj_onI)
    fix r q
    assume r: "r \<in> set ?rs" "q \<in> set ?rs" "fi_id (item db1 (snd r)) = fi_id (item db1 (snd q))"
    then have "map sfi_id ?xs ! snd r = map sfi_id ?xs ! snd q"
      using it rs(1) by (simp add: get_shared_item_without_prev_set_def)
    then have "snd r = snd q" using ids rs(1) r(1,2) by (metis length_map nth_eq_iff_index_eq)
    then show "r = q" using rs(2) r(1,2) by (metis prod_eqI)
  qed
  define db2 where "db2 = fold link_read ?rs db1"
  have len: "length (fd_heap db1) = length ?xs" by (simp add: heap(1) items_of_def)
  have "\<forall>r \<in> set ?rs. snd r < length (fd_heap db1)" "\<forall>w \<in> set ?rs. fi_prev (item db1 (snd w)) = None"
    using rs(1) it by (simp_all add: len get_shared_item_without_prev_set_def)
  note l = links_all [OF this(1) inj order_refl dsnd this(2), folded db2_def]
  have same: "same_items db1 db2" using l by blast
  have r2: "fd_items_read db2 = ?rs" "fd_index db2 = []" "fd_head db2 = fd_head db1" using same heap(2) by (simp_all add: same_items_def)
  have id2: "fi_id (item db2 a) = fi_id (item db1 a)" if "a < length ?xs" for a
    using same_items_item(2) [OF same] that len by simp
  have "distinct (map (\<lambda>a. fi_id (item db2 a)) (map snd ?rs))"
    using inj dist id2 rs(1) by (simp add: distinct_map comp_def inj_on_def)
  then have run: "run_for insert_read (fd_items_read db2) db2 = (Inr (), db2\<lparr>fd_index := map snd ?rs\<rparr>)"
    using insert_all [of db2 ?rs] r2 by simp
  show ?thesis
  proof (rule that [of "db2\<lparr>fd_index := map snd ?rs\<rparr>"])
    show "fork_from_file (Some (Inr data)) new_fork_database = (Inr (), db2\<lparr>fd_index := map snd ?rs\<rparr>)"
      using run by (simp add: fork_from_file_def Let_def db1_def [symmetric] db2_def [symmetric])
    show "\<forall>a < length ?xs. unlinked (item (db2\<lparr>fd_index := map snd ?rs\<rparr>) a) = get_shared_item_without_prev_set (?xs ! a)"
      using same_items_item(1) [OF same] it len by (simp add: item_def unlinked_def get_shared_item_without_prev_set_def)
    show "fd_head (db2\<lparr>fd_index := map snd ?rs\<rparr>) = List.find (\<lambda>i. sfi_id (?xs ! i) = fdata_head data) (rev [0..<length ?xs])"
    proof -
      have new: "fd_heap new_fork_database = []" "fd_head new_fork_database = None" by (simp_all add: new_fork_database_def)
      show ?thesis
        using read_items_head [of "fdata_head data" ?xs new_fork_database] r2(3) by (simp add: db1_def [symmetric] new split: option.splits)
    qed
    show "\<forall>a \<in> set (fd_index (db2\<lparr>fd_index := map snd ?rs\<rparr>)). \<forall>p. fi_prev (item (db2\<lparr>fd_index := map snd ?rs\<rparr>) a) = Some p \<longleftrightarrow>
        p \<in> set (fd_index (db2\<lparr>fd_index := map snd ?rs\<rparr>)) \<and> fi_id (item (db2\<lparr>fd_index := map snd ?rs\<rparr>) p) = sfi_prev (?xs ! a)"
      using l rs id2 by auto
  qed (use ok r2 in \<open>simp_all add: read_ok_def\<close>)
qed

lemma find_SomeD: "List.find P xs = Some x \<Longrightarrow> P x \<and> x \<in> set xs"
  by (induction xs) (auto split: if_splits)

lemma serialize_unlinked: "unlinked it = get_shared_item_without_prev_set s \<Longrightarrow> sfi_prev s = blk_previous (sfi_data s) \<Longrightarrow> serialize_fork_item it = s"
  by (cases it; cases s) (simp add: unlinked_def get_shared_item_without_prev_set_def serialize_fork_item_def previous_id_def)

lemma saved_items:
  assumes ok: "fork_ok en db" and head: "fd_head db = Some h" "fd_index db \<noteq> []" and perm: "mset (hash_order (fd_index db)) = mset (fd_index db)"
  obtains data where "fork_save_to_file hash_order db = Some data" "fdata_head data = fi_id (item db h)"
    "fdata_items data = map (\<lambda>a. serialize_fork_item (item db a)) (hash_order (fd_index db))"
    "set (fdata_items data) = (\<lambda>a. serialize_fork_item (item db a)) ` set (fd_index db)" "length (fdata_items data) = length (fd_index db)"
    "distinct (map sfi_id (fdata_items data))" "\<forall>s \<in> set (fdata_items data). sfi_prev s = blk_previous (sfi_data s)"
proof -
  let ?o = "hash_order (fd_index db)"
  let ?xs = "map (\<lambda>a. serialize_fork_item (item db a)) ?o"
  have o: "set ?o = set (fd_index db)" "length ?o = length (fd_index db)" using perm by (auto dest: mset_eq_setD mset_eq_length)
  have "mset (map (\<lambda>a. fi_id (item db a)) ?o) = mset (map (\<lambda>a. fi_id (item db a)) (fd_index db))" using perm by simp
  then have "distinct (map (\<lambda>a. fi_id (item db a)) ?o)" using ok mset_eq_imp_distinct_iff by (metis fork_ok_def)
  then have d: "distinct (map sfi_id ?xs)" by (simp add: comp_def serialize_fork_item_def)
  have "?o \<noteq> []" using o(2) head(2) by auto
  then have "fork_save_to_file hash_order db = Some \<lparr>fdata_items = ?xs, fdata_head = fi_id (item db h)\<rparr>"
    using head(1) by (simp add: fork_save_to_file_def Let_def)
  then show ?thesis
    using d o by (intro that [of "\<lparr>fdata_items = ?xs, fdata_head = fi_id (item db h)\<rparr>"]) (auto simp: serialize_fork_item_def previous_id_def)
qed

lemma restart_keeps_chain:
  assumes ok: "fork_ok en db" and head: "fd_head db = Some h" "h \<in> set (fd_index db)" and perm: "mset (hash_order (fd_index db)) = mset (fd_index db)"
    and chain: "distinct (map (\<lambda>a. previous_id (item db a)) (fd_index db))"
  shows "\<exists>data db' h'. fork_save_to_file hash_order db = Some data \<and> fork_from_file (Some (Inr data)) new_fork_database = (Inr (), db') \<and>
    (\<lambda>a. serialize_fork_item (item db' a)) ` set (fd_index db') = (\<lambda>a. serialize_fork_item (item db a)) ` set (fd_index db) \<and>
    fd_head db' = Some h' \<and> h' \<in> set (fd_index db') \<and> fi_id (item db' h') = fi_id (item db h) \<and>
    (\<forall>a \<in> set (fd_index db'). \<forall>p. fi_prev (item db' a) = Some p \<longleftrightarrow> p \<in> set (fd_index db') \<and> fi_id (item db' p) = previous_id (item db' a))"
proof -
  have ne: "fd_index db \<noteq> []" using head(2) by auto
  obtain data where d: "fork_save_to_file hash_order db = Some data" "fdata_head data = fi_id (item db h)"
      "fdata_items data = map (\<lambda>a. serialize_fork_item (item db a)) (hash_order (fd_index db))"
      "set (fdata_items data) = (\<lambda>a. serialize_fork_item (item db a)) ` set (fd_index db)"
      "distinct (map sfi_id (fdata_items data))" "\<forall>s \<in> set (fdata_items data). sfi_prev s = blk_previous (sfi_data s)"
    by (rule saved_items [of en db h hash_order, OF ok head(1) ne perm])
  let ?xs = "fdata_items data"
  obtain db' where f: "fork_from_file (Some (Inr data)) new_fork_database = (Inr (), db')"
      "read_ok ?xs (db'\<lparr>fd_index := [], fd_heap := items_of ?xs\<rparr>)" "fd_index db' = map snd (fd_items_read db')"
      "\<forall>a < length ?xs. unlinked (item db' a) = get_shared_item_without_prev_set (?xs ! a)"
      "\<forall>a \<in> set (fd_index db'). \<forall>p. fi_prev (item db' a) = Some p \<longleftrightarrow> p \<in> set (fd_index db') \<and> fi_id (item db' p) = sfi_prev (?xs ! a)"
      "fd_head db' = List.find (\<lambda>i. sfi_id (?xs ! i) = fdata_head data) (rev [0..<length ?xs])"
    by (rule from_file_result [OF d(5)])
  have m: "mset (map (\<lambda>a. previous_id (item db a)) (hash_order (fd_index db))) = mset (map (\<lambda>a. previous_id (item db a)) (fd_index db))"
    using perm by simp
  then have prevs: "distinct (map sfi_prev ?xs)"
    using chain mset_eq_imp_distinct_iff [OF m]
    by (simp only: d(3) map_map comp_def serialize_fork_item_def serializable_fork_item.select_convs)
  have read: "\<And>k a. (k, a) \<in> set (fd_items_read db') \<Longrightarrow> a < length ?xs \<and> sfi_prev (?xs ! a) = k"
      "fst ` set (fd_items_read db') = sfi_prev ` set ?xs"
    using f(2) by (auto simp: read_ok_def)
  have all: "set (fd_index db') = {..<length ?xs}"
  proof (intro equalityI subsetI)
    fix i
    assume i: "i \<in> {..<length ?xs}"
    then have "sfi_prev (?xs ! i) \<in> fst ` set (fd_items_read db')" using read(2) by simp
    then obtain a where a: "(sfi_prev (?xs ! i), a) \<in> set (fd_items_read db')" by force
    then have "map sfi_prev ?xs ! a = map sfi_prev ?xs ! i" "a < length ?xs" using read(1) [OF a] i by auto
    then have "a = i" using prevs i by (metis length_map lessThan_iff nth_eq_iff_index_eq)
    then show "i \<in> set (fd_index db')" using a f(3) by force
  qed (use read(1) f(3) in auto)
  have ser: "serialize_fork_item (item db' a) = ?xs ! a" if "a < length ?xs" for a
    using serialize_unlinked f(4) d(6) that by (metis nth_mem)
  then have img: "(\<lambda>a. serialize_fork_item (item db' a)) ` set (fd_index db') = set ?xs"
    unfolding all by (auto simp: in_set_conv_nth)
  have pid: "previous_id (item db' a) = sfi_prev (?xs ! a)" "fi_id (item db' a) = sfi_id (?xs ! a)" if "a < length ?xs" for a
    using ser [OF that] by (metis serialize_fork_item_def serializable_fork_item.select_convs)+
  have "serialize_fork_item (item db h) \<in> set ?xs" using d(4) head(2) by blast
  then obtain i where i: "i < length ?xs" "sfi_id (?xs ! i) = fi_id (item db h)"
    by (metis in_set_conv_nth serialize_fork_item_def serializable_fork_item.select_convs(4))
  then have "List.find (\<lambda>i. sfi_id (?xs ! i) = fdata_head data) (rev [0..<length ?xs]) \<noteq> None"
    using d(2) by (auto simp: find_None_iff)
  then obtain h' where h': "fd_head db' = Some h'" using f(6) by auto
  then have "h' < length ?xs" "sfi_id (?xs ! h') = fi_id (item db h)"
    using find_SomeD [of _ "rev [0..<length ?xs]" h'] f(6) d(2) by auto
  then show ?thesis
    using d(1,4) f(1,5) img all h' pid by (intro exI [of _ data] exI [of _ db'] exI [of _ h']) auto
qed

lemma restart_loses_siblings:
  assumes ok: "fork_ok en db" and head: "fd_head db = Some h" and perm: "mset (hash_order (fd_index db)) = mset (fd_index db)"
    and fork: "a \<in> set (fd_index db)" "b \<in> set (fd_index db)" "a \<noteq> b" "previous_id (item db a) = previous_id (item db b)"
  shows "\<exists>data db'. fork_save_to_file hash_order db = Some data \<and> fork_from_file (Some (Inr data)) new_fork_database = (Inr (), db') \<and>
    length (fd_index db') < length (fd_index db) \<and> distinct (map (\<lambda>a. previous_id (item db' a)) (fd_index db'))"
proof -
  have ne: "fd_index db \<noteq> []" using fork(1) by auto
  obtain data where d: "fork_save_to_file hash_order db = Some data"
      "fdata_items data = map (\<lambda>a. serialize_fork_item (item db a)) (hash_order (fd_index db))"
      "length (fdata_items data) = length (fd_index db)"
      "distinct (map sfi_id (fdata_items data))" "\<forall>s \<in> set (fdata_items data). sfi_prev s = blk_previous (sfi_data s)"
    by (rule saved_items [of en db h hash_order, OF ok head ne perm])
  let ?xs = "fdata_items data"
  obtain db' where f: "fork_from_file (Some (Inr data)) new_fork_database = (Inr (), db')"
      "read_ok ?xs (db'\<lparr>fd_index := [], fd_heap := items_of ?xs\<rparr>)" "fd_index db' = map snd (fd_items_read db')"
      "\<forall>a < length ?xs. unlinked (item db' a) = get_shared_item_without_prev_set (?xs ! a)"
    by (rule from_file_result [OF d(4)])
  have read: "\<And>k a. (k, a) \<in> set (fd_items_read db') \<Longrightarrow> a < length ?xs \<and> sfi_prev (?xs ! a) = k"
      "fst ` set (fd_items_read db') = sfi_prev ` set ?xs" "distinct (map fst (fd_items_read db'))"
    using f(2) by (auto simp: read_ok_def std_map_wf_def strict_sorted_iff)
  have "length (fd_index db') = card (sfi_prev ` set ?xs)"
    using f(3) read(2,3) by (metis distinct_card length_map set_map)
  moreover have "sfi_prev ` set ?xs = (\<lambda>a. previous_id (item db a)) ` set (fd_index db)"
    using mset_eq_setD [OF perm] by (simp add: d(2) image_image serialize_fork_item_def)
  moreover have "card ((\<lambda>a. previous_id (item db a)) ` set (fd_index db)) < card (set (fd_index db))"
  proof (intro le_neq_implies_less card_image_le notI)
    assume "card ((\<lambda>a. previous_id (item db a)) ` set (fd_index db)) = card (set (fd_index db))"
    then have "inj_on (\<lambda>a. previous_id (item db a)) (set (fd_index db))" by (intro eq_card_imp_inj_on) simp_all
    then show False using fork by (auto dest: inj_onD)
  qed simp
  ultimately have "length (fd_index db') < length (fd_index db)" using card_length [of "fd_index db"] by simp
  moreover have "previous_id (item db' a) = k" if "(k, a) \<in> set (fd_items_read db')" for k a
  proof -
    have a: "a < length ?xs" "sfi_prev (?xs ! a) = k" using read(1) [OF that] by simp_all
    then have "serialize_fork_item (item db' a) = ?xs ! a" using serialize_unlinked f(4) d(5) by (metis nth_mem)
    then show ?thesis using a(2) by (metis serialize_fork_item_def serializable_fork_item.select_convs(1))
  qed
  then have "map (\<lambda>a. previous_id (item db' a)) (fd_index db') = map fst (fd_items_read db')"
    unfolding f(3) by (induction "fd_items_read db'") (auto simp: comp_def)
  ultimately show ?thesis using d(1) f(1) read(3) by (intro exI [of _ data] exI [of _ db']) simp
qed

end
