(* ===== verification/Cbor_Codec.thy ===== *)
theory Cbor_Codec
  imports Cbor_Object Run_Monad
begin

text \<open>
  The CBOR encoder and decoder, \<^verbatim>\<open>encoder.cpp\<close>, \<^verbatim>\<open>input.cpp\<close> and \<^verbatim>\<open>decoder.cpp\<close>. The encoder is given by
  the bytes that it puts to its output. The decoder builds arrays and maps through pointers to objects that
  are already part of an enclosing one, so its objects live in a heap.
\<close>

unbundle bit_operations_syntax

section \<open>Encoder\<close>

definition byte_of_char :: "char \<Rightarrow> u8" where
  "byte_of_char c = word_of_nat (of_char c)"

definition char_of_byte :: "u8 \<Rightarrow> char" where
  "char_of_byte b = char_of (unat b)"

text \<open>The byte \<^verbatim>\<open>(unsigned char) (major_type | value)\<close> after \<^verbatim>\<open>major_type <<= 5\<close>.\<close>

definition type_byte :: "u8 \<Rightarrow> u8 \<Rightarrow> u8" where
  "type_byte major_type value = push_bit 5 major_type OR value"

definition write_type_value32 :: "u8 \<Rightarrow> u32 \<Rightarrow> u8 list" where
  "write_type_value32 major_type value =
    (if value < 24 then [type_byte major_type (ucast value)]
     else if value < 256 then [type_byte major_type 24, ucast value]
     else if value < 65536 then [type_byte major_type 25, ucast (drop_bit 8 value), ucast value]
     else [type_byte major_type 26, ucast (drop_bit 24 value), ucast (drop_bit 16 value), ucast (drop_bit 8 value), ucast value])"

definition write_type_value64 :: "u8 \<Rightarrow> u64 \<Rightarrow> u8 list" where
  "write_type_value64 major_type value =
    (if value < 24 then [type_byte major_type (ucast value)]
     else if value < 256 then [type_byte major_type 24, ucast value]
     else if value < 65536 then [type_byte major_type 25, ucast (drop_bit 8 value), ucast value]
     else if value < 4294967296
     then [type_byte major_type 26, ucast (drop_bit 24 value), ucast (drop_bit 16 value), ucast (drop_bit 8 value), ucast value]
     else [type_byte major_type 27, ucast (drop_bit 56 value), ucast (drop_bit 48 value), ucast (drop_bit 40 value),
       ucast (drop_bit 32 value), ucast (drop_bit 24 value), ucast (drop_bit 16 value), ucast (drop_bit 8 value), ucast value])"

definition CBOR_ENCODE_DOUBLE_STRING_SIZE :: nat where
  "CBOR_ENCODE_DOUBLE_STRING_SIZE = 40"

text \<open>The argument is the fixed-point text of the \<^verbatim>\<open>double\<close>.\<close>

definition write_type_double :: "u8 \<Rightarrow> string \<Rightarrow> u8 list" where
  "write_type_double major_type value_str =
    write_type_value32 major_type (word_of_nat (length value_str)) @ map byte_of_char value_str @
    (if length value_str < CBOR_ENCODE_DOUBLE_STRING_SIZE
     then replicate (CBOR_ENCODE_DOUBLE_STRING_SIZE - length value_str) 0 else [])"

definition write_int_u64 :: "u64 \<Rightarrow> u8 list" where
  "write_int_u64 value = write_type_value64 0 value"

definition write_neg_int :: "u64 \<Rightarrow> u8 list" where
  "write_neg_int value = write_type_value64 1 value"

definition write_int :: "int \<Rightarrow> u8 list" where
  "write_int value =
    (if value < 0 then write_type_value64 1 (word_of_int (- (value + 1))) else write_type_value64 0 (word_of_int value))"

definition write_bytes :: "string \<Rightarrow> u8 list" where
  "write_bytes data = write_type_value32 2 (word_of_nat (length data)) @ map byte_of_char data"

definition write_string :: "string \<Rightarrow> u8 list" where
  "write_string str = write_type_value32 3 (word_of_nat (length str)) @ map byte_of_char str"

definition write_array :: "nat \<Rightarrow> u8 list" where
  "write_array n = write_type_value32 4 (word_of_nat n)"

definition write_map :: "nat \<Rightarrow> u8 list" where
  "write_map n = write_type_value32 5 (word_of_nat n)"

definition write_tag :: "u32 \<Rightarrow> u8 list" where
  "write_tag tag = write_type_value32 6 tag"

definition write_float64 :: "string \<Rightarrow> u8 list" where
  "write_float64 value = write_type_double 7 value"

definition write_bool :: "bool \<Rightarrow> u8 list" where
  "write_bool value = (if value then [0xf5] else [0xf4])"

fun write_cbor_object :: "cbor \<Rightarrow> u8 list result"
  and write_items :: "cbor list \<Rightarrow> u8 list result"
  and write_members :: "(string \<times> cbor) list \<Rightarrow> u8 list result" where
  "write_cbor_object COT_NULL = Inr [0xf6]"
| "write_cbor_object COT_UNDEFINED = Inr [0xf7]"
| "write_cbor_object (COT_BOOL b) = Inr (write_bool b)"
| "write_cbor_object (COT_INT v) = Inr (write_int v)"
| "write_cbor_object (COT_EXTRA_INT u is_positive) = Inr (if is_positive then write_int_u64 u else write_neg_int u)"
| "write_cbor_object (COT_STRING s) = Inr (write_string s)"
| "write_cbor_object (COT_FLOAT t) = Inr (write_float64 t)"
| "write_cbor_object (COT_BYTES s) = Inr (write_bytes s)"
| "write_cbor_object (COT_TAG t) = Inr (write_tag t)"
| "write_cbor_object (COT_EXTRA_TAG t) = Inr (write_tag (ucast t))"
| "write_cbor_object (COT_ARRAY vs) = ebind (write_items vs) (\<lambda>bs. Inr (write_array (length vs) @ bs))"
| "write_cbor_object (COT_MAP m) = ebind (write_members m) (\<lambda>bs. Inr (write_map (length m) @ bs))"
| "write_cbor_object (COT_ERROR e) = Inl (Cbor_encode_exception ''invalid cbor object type'')"
| "write_items [] = Inr []"
| "write_items (v # vs) = ebind (write_cbor_object v) (\<lambda>b. ebind (write_items vs) (\<lambda>bs. Inr (b @ bs)))"
| "write_members [] = Inr []"
| "write_members ((k, v) # m) =
    ebind (write_cbor_object v) (\<lambda>b. ebind (write_members m) (\<lambda>bs. Inr (write_string k @ b @ bs)))"

section \<open>Decoder state\<close>

datatype decoder_state =
    STATE_TYPE
  | STATE_PINT
  | STATE_NINT
  | STATE_BYTES_SIZE
  | STATE_BYTES_DATA
  | STATE_STRING_SIZE
  | STATE_STRING_DATA
  | STATE_FLOAT_SIZE
  | STATE_FLOAT_DATA
  | STATE_ARRAY
  | STATE_MAP
  | STATE_TAG
  | STATE_SPECIAL
  | STATE_ERROR

text \<open>
  The objects of the decoder. Arrays and maps hold pointers, and know the size that was read for them;
  the children of an object are made after it.
\<close>

type_synonym cbor_addr = nat

datatype cbor_node =
    Node_value cbor
  | Node_array "cbor_addr list" u32
  | Node_map "(string \<times> cbor_addr) list" u32

function cbor_at :: "cbor_node list \<Rightarrow> cbor_addr \<Rightarrow> cbor" where
  "cbor_at heap a =
    (if a < length heap
     then case heap ! a of
            Node_value v \<Rightarrow> v
          | Node_array xs n \<Rightarrow> COT_ARRAY (map (\<lambda>c. if a < c then cbor_at heap c else COT_NULL) xs)
          | Node_map m n \<Rightarrow> COT_MAP (map (\<lambda>(k, c). (k, if a < c then cbor_at heap c else COT_NULL)) m)
     else COT_NULL)"
  by pat_completeness auto
termination
  by (relation "measure (\<lambda>(heap, a). length heap - a)") auto

declare cbor_at.simps [simp del]

text \<open>The input, the fields of the decoder, and the local variables of \<^verbatim>\<open>run\<close>.\<close>

record cbor_decoder =
  d_data :: "u8 list"
  d_offset :: nat
  d_state :: decoder_state
  d_currentLength :: int
  d_heap :: "cbor_node list"
  d_result :: "cbor_addr option"
  d_structures_stack :: "cbor_addr list"
  d_iter_in_map_key :: bool
  d_map_key_temp :: "cbor_addr option"

definition new_decoder :: "u8 list \<Rightarrow> cbor_decoder" where
  "new_decoder data = \<lparr>d_data = data, d_offset = 0, d_state = STATE_TYPE, d_currentLength = 0, d_heap = [], d_result = None,
     d_structures_stack = [], d_iter_in_map_key = True, d_map_key_temp = None\<rparr>"

section \<open>Input\<close>

definition has_bytes :: "cbor_decoder \<Rightarrow> int \<Rightarrow> bool" where
  "has_bytes d count \<longleftrightarrow> count \<le> int (length (d_data d)) - int (d_offset d)"

text \<open>The bytes at the offset, and the number they spell with the first one the most significant.\<close>

definition peek :: "cbor_decoder \<Rightarrow> nat \<Rightarrow> u8 list" where
  "peek d count = take count (drop (d_offset d) (d_data d))"

definition skip_bytes :: "nat \<Rightarrow> cbor_decoder \<Rightarrow> cbor_decoder" where
  "skip_bytes count d = d\<lparr>d_offset := d_offset d + count\<rparr>"

definition get_byte :: "(cbor_decoder, u8) run" where
  "get_byte d = (Inr (d_data d ! d_offset d), skip_bytes 1 d)"

definition get_short :: "(cbor_decoder, u16) run" where
  "get_short d =
    (Inr (push_bit 8 (ucast (d_data d ! d_offset d)) OR ucast (d_data d ! (d_offset d + 1))), skip_bytes 2 d)"

definition get_int :: "(cbor_decoder, u32) run" where
  "get_int d =
    (let b = (\<lambda>i. ucast (d_data d ! (d_offset d + i)))
     in (Inr (push_bit 24 (b 0) OR push_bit 16 (b 1) OR push_bit 8 (b 2) OR b 3), skip_bytes 4 d))"

definition get_long :: "(cbor_decoder, u64) run" where
  "get_long d =
    (let b = (\<lambda>i. ucast (d_data d ! (d_offset d + i)))
     in (Inr (push_bit 56 (b 0) OR push_bit 48 (b 1) OR push_bit 40 (b 2) OR push_bit 32 (b 3) OR
           push_bit 24 (b 4) OR push_bit 16 (b 5) OR push_bit 8 (b 6) OR b 7), skip_bytes 8 d))"

text \<open>
  Reading \<open>count\<close> bytes into a \<^verbatim>\<open>std::vector<char>\<close> of that size; a negative size is converted to a
  number that no vector can have.
\<close>

definition get_bytes :: "int \<Rightarrow> (cbor_decoder, string) run" where
  "get_bytes count d =
    (if count < 0 then (Inl Length_error, d)
     else (Inr (map char_of_byte (peek d (nat count))), skip_bytes (nat count) d))"

section \<open>Putting values into place\<close>

definition set_node :: "cbor_addr \<Rightarrow> cbor_node \<Rightarrow> cbor_decoder \<Rightarrow> cbor_decoder" where
  "set_node a n d = d\<lparr>d_heap := (d_heap d)[a := n]\<rparr>"

definition pop_structure :: "cbor_decoder \<Rightarrow> cbor_decoder" where
  "pop_structure d = d\<lparr>d_structures_stack := butlast (d_structures_stack d)\<rparr>"

definition push_structure :: "cbor_addr \<Rightarrow> cbor_decoder \<Rightarrow> cbor_decoder" where
  "push_structure a d =
    (case d_heap d ! a of
       Node_array xs n \<Rightarrow> if 0 < n then d\<lparr>d_structures_stack := d_structures_stack d @ [a]\<rparr> else d
     | Node_map m n \<Rightarrow> if 0 < n then d\<lparr>d_structures_stack := d_structures_stack d @ [a]\<rparr> else d
     | Node_value v \<Rightarrow> d)"

definition map_key :: "cbor_decoder \<Rightarrow> string result" where
  "map_key d =
    (case d_map_key_temp d of
       None \<Rightarrow> Inl (Undefined_behaviour ''null map key'')
     | Some k \<Rightarrow>
         (case d_heap d ! k of
            Node_value (COT_STRING s) \<Rightarrow> Inr s
          | _ \<Rightarrow> Inl (Cbor_decode_exception ''invalid map key type'')))"

text \<open>The first part of \<^verbatim>\<open>put_decoded_value\<close>: where the value goes, without opening it.\<close>

definition link_value :: "cbor_addr \<Rightarrow> (cbor_decoder, unit) run" where
  "link_value value d =
    (if d_structures_stack d = []
     then if d_result d \<noteq> None then (Inl (Cbor_decode_exception ''multiple cbor object when decoding''), d)
          else (Inr (), d\<lparr>d_result := Some value\<rparr>)
     else let last_addr = last (d_structures_stack d)
          in case d_heap d ! last_addr of
               Node_array xs n \<Rightarrow>
                 let d = set_node last_addr (Node_array (xs @ [value]) n) d
                 in (Inr (), if unat n \<le> length (xs @ [value]) then pop_structure d else d)
             | Node_map m n \<Rightarrow>
                 if d_iter_in_map_key d then (Inr (), d\<lparr>d_map_key_temp := Some value, d_iter_in_map_key := False\<rparr>)
                 else (case map_key d of
                         Inl e \<Rightarrow> (Inl e, d)
                       | Inr key \<Rightarrow>
                           let m = std_map_set key value m;
                               d = set_node last_addr (Node_map m n) d;
                               d = (if unat n \<le> length m then pop_structure d else d)
                           in (Inr (), d\<lparr>d_iter_in_map_key := True\<rparr>))
             | Node_value v \<Rightarrow> (Inl (Cbor_decode_exception ''invalid structure type''), d))"

definition put_decoded_value :: "cbor_addr \<Rightarrow> (cbor_decoder, unit) run" where
  "put_decoded_value value = run_bind (link_value value) (\<lambda>_. run_update (push_structure value))"

text \<open>A new object that is put into place at once.\<close>

definition make_node :: "cbor_node \<Rightarrow> (cbor_decoder, cbor_addr) run" where
  "make_node n d = (Inr (length (d_heap d)), d\<lparr>d_heap := d_heap d @ [n]\<rparr>)"

definition put_node :: "cbor_node \<Rightarrow> (cbor_decoder, unit) run" where
  "put_node n = run_bind (make_node n) put_decoded_value"

section \<open>The loop\<close>

definition enter :: "decoder_state \<Rightarrow> int \<Rightarrow> (cbor_decoder, unit) run" where
  "enter s len = run_update (\<lambda>d. d\<lparr>d_state := s, d_currentLength := len\<rparr>)"

definition fail_decode :: "string \<Rightarrow> (cbor_decoder, 'a) run" where
  "fail_decode msg = run_bind (run_update (\<lambda>d. d\<lparr>d_state := STATE_ERROR\<rparr>)) (\<lambda>_. run_throw (Cbor_decode_exception msg))"

text \<open>The minor types 24 to 27 announce a number of one, two, four or eight bytes.\<close>

definition enter_sized :: "decoder_state \<Rightarrow> u8 \<Rightarrow> string \<Rightarrow> (cbor_decoder, unit) run" where
  "enter_sized s minorType msg =
    (if minorType = 24 then enter s 1
     else if minorType = 25 then enter s 2
     else if minorType = 26 then enter s 4
     else if minorType = 27 then enter s 8
     else fail_decode msg)"

definition decode_type :: "u8 \<Rightarrow> (cbor_decoder, unit) run" where
  "decode_type type =
    (let majorType = drop_bit 5 type; minorType = type AND 31
     in if majorType = 0
        then if minorType < 24 then put_node (Node_value (COT_INT (uint minorType)))
             else enter_sized STATE_PINT minorType ''invalid integer type''
        else if majorType = 1
        then if minorType < 24 then put_node (Node_value (COT_INT (- 1 - uint minorType)))
             else enter_sized STATE_NINT minorType ''invalid integer type''
        else if majorType = 2
        then if minorType < 24 then enter STATE_BYTES_DATA (uint minorType)
             else enter_sized STATE_BYTES_SIZE minorType ''invalid bytes type''
        else if majorType = 3
        then if minorType < 24 then enter STATE_STRING_DATA (uint minorType)
             else enter_sized STATE_STRING_SIZE minorType ''invalid string type''
        else if majorType = 4
        then if minorType < 24 then put_node (Node_array [] (ucast minorType))
             else enter_sized STATE_ARRAY minorType ''invalid array type''
        else if majorType = 5
        then if minorType < 24 then put_node (Node_map [] (ucast minorType))
             else enter_sized STATE_MAP minorType ''invalid array type''
        else if majorType = 6
        then if minorType < 24 then put_node (Node_value (COT_TAG (ucast minorType)))
             else enter_sized STATE_TAG minorType ''invalid tag type''
        else if minorType = 20 then put_node (Node_value (COT_BOOL False))
        else if minorType = 21 then put_node (Node_value (COT_BOOL True))
        else if minorType = 22 then put_node (Node_value COT_NULL)
        else if minorType = 23 then put_node (Node_value COT_UNDEFINED)
        else if minorType < 24 then enter STATE_FLOAT_DATA (uint minorType)
        else enter_sized STATE_FLOAT_SIZE minorType ''invalid float type'')"

definition set_state :: "decoder_state \<Rightarrow> (cbor_decoder, unit) run" where
  "set_state s = run_update (\<lambda>d. d\<lparr>d_state := s\<rparr>)"

definition get_currentLength :: "(cbor_decoder, int) run" where
  "get_currentLength = run_get d_currentLength"

text \<open>A \<^verbatim>\<open>switch\<close> on the length, without effect for other lengths than the four.\<close>

definition switch_length ::
    "(cbor_decoder, unit) run \<Rightarrow> (cbor_decoder, unit) run \<Rightarrow> (cbor_decoder, unit) run \<Rightarrow> (cbor_decoder, unit) run \<Rightarrow> (cbor_decoder, unit) run" where
  "switch_length one two four eight d =
    (if d_currentLength d = 1 then one d
     else if d_currentLength d = 2 then two d
     else if d_currentLength d = 4 then four d
     else if d_currentLength d = 8 then eight d
     else (Inr (), d))"

definition decode_pint :: "(cbor_decoder, unit) run" where
  "decode_pint = switch_length
    (run_bind get_byte (\<lambda>b. run_bind (put_node (Node_value (COT_INT (uint b)))) (\<lambda>_. set_state STATE_TYPE)))
    (run_bind get_short (\<lambda>b. run_bind (put_node (Node_value (COT_INT (uint b)))) (\<lambda>_. set_state STATE_TYPE)))
    (run_bind get_int (\<lambda>temp.
       run_bind (put_node (Node_value (if uint temp \<le> int_max then COT_INT (uint temp) else COT_EXTRA_INT (ucast temp) True)))
         (\<lambda>_. set_state STATE_TYPE)))
    (run_bind get_long (\<lambda>b. run_bind (put_node (Node_value (COT_EXTRA_INT b True))) (\<lambda>_. set_state STATE_TYPE)))"

text \<open>A negative integer of eight bytes leaves the decoder in \<^verbatim>\<open>STATE_NINT\<close>.\<close>

definition decode_nint :: "(cbor_decoder, unit) run" where
  "decode_nint = switch_length
    (run_bind get_byte (\<lambda>b. run_bind (put_node (Node_value (COT_INT (- uint b - 1)))) (\<lambda>_. set_state STATE_TYPE)))
    (run_bind get_short (\<lambda>b. run_bind (put_node (Node_value (COT_INT (- uint b - 1)))) (\<lambda>_. set_state STATE_TYPE)))
    (run_bind get_int (\<lambda>temp.
       run_bind (put_node (Node_value (if uint temp \<le> int_max then COT_INT (- uint temp - 1) else COT_EXTRA_INT (ucast (temp + 1)) False)))
         (\<lambda>_. set_state STATE_TYPE)))
    (run_bind get_long (\<lambda>b. put_node (Node_value (COT_EXTRA_INT (b + 1) False))))"

definition decode_size :: "decoder_state \<Rightarrow> string \<Rightarrow> (cbor_decoder, unit) run" where
  "decode_size data_state msg = switch_length
    (run_bind get_byte (\<lambda>b. enter data_state (uint b)))
    (run_bind get_short (\<lambda>b. enter data_state (uint b)))
    (run_bind get_int (\<lambda>b. enter data_state (sint b)))
    (fail_decode msg)"

definition decode_bytes :: "(cbor_decoder, unit) run" where
  "decode_bytes = run_bind get_currentLength (\<lambda>len. run_bind (get_bytes len) (\<lambda>data.
    run_bind (set_state STATE_TYPE) (\<lambda>_. put_node (Node_value (COT_BYTES data)))))"

definition decode_string :: "(cbor_decoder, unit) run" where
  "decode_string = run_bind get_currentLength (\<lambda>len. run_bind (get_bytes len) (\<lambda>str.
    run_bind (set_state STATE_TYPE) (\<lambda>_. put_node (Node_value (COT_STRING str)))))"

text \<open>
  \<open>lexical_cast\<close> reads a \<^verbatim>\<open>double\<close> from a text, if it is one; the \<^verbatim>\<open>double\<close> is given by its fixed-point text.
\<close>

definition to_double :: "(string \<Rightarrow> string option) \<Rightarrow> string \<Rightarrow> string result" where
  "to_double lexical_cast i =
    (case lexical_cast (c_str i) of None \<Rightarrow> Inl (Fc_parse_error ''Couldn't parse double'') | Some t \<Rightarrow> Inr t)"

definition decode_float :: "(string \<Rightarrow> string option) \<Rightarrow> (cbor_decoder, unit) run" where
  "decode_float lexical_cast = run_bind get_currentLength (\<lambda>len. run_bind (get_bytes len) (\<lambda>str.
    run_bind (set_state STATE_TYPE) (\<lambda>_.
    run_bind (run_update (if length str < CBOR_ENCODE_DOUBLE_STRING_SIZE then skip_bytes (CBOR_ENCODE_DOUBLE_STRING_SIZE - length str) else (\<lambda>d. d)))
      (\<lambda>_. run_bind (run_result (to_double lexical_cast str)) (\<lambda>value. put_node (Node_value (COT_FLOAT value)))))))"

definition decode_array :: "(cbor_decoder, unit) run" where
  "decode_array = switch_length
    (run_bind get_byte (\<lambda>b. run_bind (put_node (Node_array [] (ucast b))) (\<lambda>_. set_state STATE_TYPE)))
    (run_bind get_short (\<lambda>b. run_bind (put_node (Node_array [] (ucast b))) (\<lambda>_. set_state STATE_TYPE)))
    (run_bind get_int (\<lambda>b. run_bind (put_node (Node_array [] b)) (\<lambda>_. set_state STATE_TYPE)))
    (fail_decode ''extra long array'')"

definition decode_map :: "(cbor_decoder, unit) run" where
  "decode_map = switch_length
    (run_bind get_byte (\<lambda>b. run_bind (put_node (Node_map [] (ucast b))) (\<lambda>_. set_state STATE_TYPE)))
    (run_bind get_short (\<lambda>b. run_bind (run_update (\<lambda>d. d\<lparr>d_currentLength := uint b\<rparr>)) (\<lambda>_.
       run_bind (put_node (Node_map [] (ucast b))) (\<lambda>_. set_state STATE_TYPE))))
    (run_bind get_int (\<lambda>b. run_bind (put_node (Node_map [] b)) (\<lambda>_. set_state STATE_TYPE)))
    (fail_decode ''extra long map'')"

definition decode_tag :: "(cbor_decoder, unit) run" where
  "decode_tag = switch_length
    (run_bind get_byte (\<lambda>b. run_bind (put_node (Node_value (COT_TAG (ucast b)))) (\<lambda>_. set_state STATE_TYPE)))
    (run_bind get_short (\<lambda>b. run_bind (put_node (Node_value (COT_TAG (ucast b)))) (\<lambda>_. set_state STATE_TYPE)))
    (run_bind get_int (\<lambda>b. run_bind (put_node (Node_value (COT_TAG b))) (\<lambda>_. set_state STATE_TYPE)))
    (run_bind get_long (\<lambda>b. run_bind (put_node (Node_value (COT_EXTRA_TAG b))) (\<lambda>_. set_state STATE_TYPE)))"

text \<open>What the states do once the bytes they need are there.\<close>

fun decode_in_state :: "(string \<Rightarrow> string option) \<Rightarrow> decoder_state \<Rightarrow> (cbor_decoder, unit) run" where
  "decode_in_state lexical_cast STATE_TYPE = run_bind get_byte decode_type"
| "decode_in_state lexical_cast STATE_PINT = decode_pint"
| "decode_in_state lexical_cast STATE_NINT = decode_nint"
| "decode_in_state lexical_cast STATE_BYTES_SIZE = decode_size STATE_BYTES_DATA ''extra long bytes''"
| "decode_in_state lexical_cast STATE_BYTES_DATA = decode_bytes"
| "decode_in_state lexical_cast STATE_STRING_SIZE = decode_size STATE_STRING_DATA ''extra long array''"
| "decode_in_state lexical_cast STATE_STRING_DATA = decode_string"
| "decode_in_state lexical_cast STATE_FLOAT_SIZE = decode_size STATE_FLOAT_DATA ''extra long array''"
| "decode_in_state lexical_cast STATE_FLOAT_DATA = decode_float lexical_cast"
| "decode_in_state lexical_cast STATE_ARRAY = decode_array"
| "decode_in_state lexical_cast STATE_MAP = decode_map"
| "decode_in_state lexical_cast STATE_TAG = decode_tag"
| "decode_in_state lexical_cast STATE_SPECIAL = run_throw (Cbor_decode_exception ''UNKNOWN STATE'')"
| "decode_in_state lexical_cast STATE_ERROR = run_return ()"

text \<open>One turn of the loop; the result says whether it goes on.\<close>

definition decode_turn :: "(string \<Rightarrow> string option) \<Rightarrow> (cbor_decoder, bool) run" where
  "decode_turn lexical_cast d =
    (if d_state d = STATE_ERROR then (Inr False, d)
     else if d_state d = STATE_SPECIAL \<or> has_bytes d (if d_state d = STATE_TYPE then 1 else d_currentLength d)
     then run_bind (decode_in_state lexical_cast (d_state d)) (\<lambda>_. run_return True) d
     else (Inr False, d))"

partial_function (option) decode_loop :: "(string \<Rightarrow> string option) \<Rightarrow> cbor_decoder \<Rightarrow> (unit result \<times> cbor_decoder) option" where
  "decode_loop lexical_cast d =
    (case decode_turn lexical_cast d of
       (Inl e, d') \<Rightarrow> Some (Inl e, d')
     | (Inr goes_on, d') \<Rightarrow> if goes_on then decode_loop lexical_cast d' else Some (Inr (), d'))"

definition finish_decode :: "unit result \<times> cbor_decoder \<Rightarrow> cbor result" where
  "finish_decode r =
    (case r of
       (Inl e, d) \<Rightarrow> Inl e
     | (Inr _, d) \<Rightarrow>
         (case d_result d of
            None \<Rightarrow> Inl (Cbor_decode_exception ''cbor decoded nothing'')
          | Some a \<Rightarrow>
              if d_structures_stack d \<noteq> [] then Inl (Cbor_decode_exception ''cbor decode fail with not finished structures'')
              else Inr (cbor_at (d_heap d) a)))"

definition decode_run :: "(string \<Rightarrow> string option) \<Rightarrow> u8 list \<Rightarrow> cbor result option" where
  "decode_run lexical_cast data = map_option finish_decode (decode_loop lexical_cast (new_decoder data))"

end
