(* ===== verification/Cbor_Termination.thy ===== *)
theory Cbor_Termination
  imports Cbor_Codec
begin

text \<open>
  The loop of the decoder always ends: every turn consumes bytes or leaves a state whose bytes are read.
\<close>

definition same_input :: "cbor_decoder \<Rightarrow> cbor_decoder \<Rightarrow> bool" where
  "same_input d d' \<longleftrightarrow> d_data d' = d_data d \<and> d_offset d' = d_offset d \<and> d_state d' = d_state d \<and> d_currentLength d' = d_currentLength d"

lemma put_node_input:
  assumes "put_node n d = (r, d')"
  shows "same_input d d'"
proof -
  have push: "same_input x (push_structure a x)" for a x
    by (auto simp: push_structure_def same_input_def split: cbor_node.splits)
  have link: "same_input x y" if "link_value a x = (q, y)" for a x q y
    using that by (auto simp: link_value_def same_input_def Let_def set_node_def pop_structure_def
        split: if_splits cbor_node.splits sum.splits)
  obtain q y where l: "link_value (length (d_heap d)) (d\<lparr>d_heap := d_heap d @ [n]\<rparr>) = (q, y)" by fastforce
  have "same_input d y" using link [OF l] by (simp add: same_input_def)
  then show ?thesis
    using assms l push [of y "length (d_heap d)"]
    by (cases q) (auto simp: put_node_def run_bind_def make_node_def put_decoded_value_def run_update_def same_input_def)
qed

text \<open>In a state that reads a number the length is one of the four.\<close>

definition sized_states :: "decoder_state set" where
  "sized_states = {STATE_PINT, STATE_NINT, STATE_BYTES_SIZE, STATE_STRING_SIZE, STATE_FLOAT_SIZE, STATE_ARRAY, STATE_MAP, STATE_TAG}"

definition length_ok :: "decoder_state \<Rightarrow> int \<Rightarrow> bool" where
  "length_ok s len \<longleftrightarrow> (s \<in> sized_states \<longrightarrow> len \<in> {1, 2, 4, 8})"

definition decoder_ok :: "cbor_decoder \<Rightarrow> bool" where
  "decoder_ok d \<longleftrightarrow> length_ok (d_state d) (d_currentLength d)"

definition to_read :: "cbor_decoder \<Rightarrow> nat" where
  "to_read d = 2 * (length (d_data d) - d_offset d) + (if d_state d = STATE_TYPE then 0 else 1)"

text \<open>
  \<open>advances n m d\<close>: unless \<open>m\<close> raises an exception in \<open>d\<close>, it leaves the input at least \<open>n\<close> bytes further on, in a good state.
\<close>

definition advances :: "nat \<Rightarrow> (cbor_decoder, 'a) run \<Rightarrow> cbor_decoder \<Rightarrow> bool" where
  "advances n m d \<longleftrightarrow> (\<forall>x d'. m d = (Inr x, d') \<longrightarrow> d_data d' = d_data d \<and> d_offset d + n \<le> d_offset d' \<and> decoder_ok d')"

lemma advances_cong: "advances n m d \<Longrightarrow> m' d = m d \<Longrightarrow> advances n m' d"
  unfolding advances_def by metis

lemma advances_shift: "advances 0 g (skip_bytes n d) \<Longrightarrow> m d = g (skip_bytes n d) \<Longrightarrow> advances n m d"
proof -
  assume a: "advances 0 g (skip_bytes n d)" "m d = g (skip_bytes n d)"
  have s: "d_data (skip_bytes n d) = d_data d" "d_offset (skip_bytes n d) = d_offset d + n" by (simp_all add: skip_bytes_def)
  show ?thesis using a(1) unfolding advances_def a(2) s add_0_right .
qed

lemma advances_update:
  assumes "advances 0 (g ()) (f d)" "d_data (f d) = d_data d" "d_offset d \<le> d_offset (f d)"
  shows "advances 0 (run_bind (run_update f) g) d"
proof -
  have "run_bind (run_update f) g d = g () (f d)" by (simp add: run_bind_def run_update_def)
  then show ?thesis using assms unfolding advances_def by (metis add_0_right order_trans)
qed

lemma advances_put: "decoder_ok d \<Longrightarrow> advances 0 (put_node v) d"
  by (auto simp: advances_def same_input_def decoder_ok_def dest!: put_node_input)

lemma advances_put_state:
  assumes "length_ok s (d_currentLength d)"
  shows "advances 0 (run_bind (put_node v) (\<lambda>_. set_state s)) d"
  using assms
  by (auto simp: advances_def run_bind_Inr set_state_def run_update_def same_input_def decoder_ok_def dest!: put_node_input)

lemma advances_enter: "length_ok s len \<Longrightarrow> advances 0 (enter s len) d"
  by (simp add: advances_def enter_def run_update_def decoder_ok_def)

lemma advances_fail: "advances n (fail_decode msg) d"
  by (simp add: advances_def fail_decode_def run_bind_def run_update_def run_throw_def)

lemma advances_enter_sized: "advances 0 (enter_sized s m msg) d"
  by (simp add: enter_sized_def advances_enter advances_fail length_ok_def)

lemma advances_get:
  assumes "f d = (Inr y, skip_bytes n d)" "advances 0 (g y) (skip_bytes n d)"
  shows "advances n (run_bind f g) d"
  by (rule advances_shift [OF assms(2)]) (simp add: run_bind_def assms(1))

lemma length_ok_TYPE [simp]: "length_ok STATE_TYPE len" "length_ok STATE_BYTES_DATA len" "length_ok STATE_STRING_DATA len"
    "length_ok STATE_FLOAT_DATA len"
  by (simp_all add: length_ok_def sized_states_def)

lemma advances_type:
  assumes "d_state d = STATE_TYPE"
  shows "advances 1 (run_bind get_byte decode_type) d"
proof (rule advances_get)
  show "get_byte d = (Inr (d_data d ! d_offset d), skip_bytes 1 d)" by (simp add: get_byte_def)
  have "decoder_ok (skip_bytes 1 d)" using assms by (simp add: decoder_ok_def skip_bytes_def)
  then show "advances 0 (decode_type (d_data d ! d_offset d)) (skip_bytes 1 d)"
    unfolding decode_type_def Let_def by (simp add: advances_put advances_enter advances_enter_sized)
qed

lemma advances_weaken: "advances n m d \<Longrightarrow> k \<le> n \<Longrightarrow> advances k m d"
  unfolding advances_def by (meson add_left_mono order_trans)

lemma advances_switch:
  assumes "d_currentLength d \<in> {1, 2, 4, 8}" "advances 1 one d" "advances 2 two d" "advances 4 four d"
    and "d_currentLength d = 8 \<Longrightarrow> advances 8 eight d"
  shows "advances 1 (switch_length one two four eight) d"
proof -
  have "advances 1 two d" "advances 1 four d" "d_currentLength d = 8 \<Longrightarrow> advances 1 eight d"
    using assms(3-5) by (auto elim: advances_weaken)
  note each = assms(2) this
  consider "d_currentLength d = 1" | "d_currentLength d = 2" | "d_currentLength d = 4" | "d_currentLength d = 8"
    using assms(1) by blast
  then show ?thesis
  proof cases
    case 1
    then show ?thesis by (intro advances_cong [OF each(1)]) (simp add: switch_length_def)
  next
    case 2
    then show ?thesis by (intro advances_cong [OF each(2)]) (simp add: switch_length_def)
  next
    case 3
    then show ?thesis by (intro advances_cong [OF each(3)]) (simp add: switch_length_def)
  next
    case 4
    then show ?thesis by (intro advances_cong [OF each(4)]) (simp_all add: switch_length_def)
  qed
qed

lemmas advances_reads =
  advances_get [of get_byte _ _ 1, OF get_byte_def] advances_get [of get_short _ _ 2, OF get_short_def]
  advances_get [of get_int _ _ 4, OF get_int_def [unfolded Let_def]] advances_get [of get_long _ _ 8, OF get_long_def [unfolded Let_def]]

lemma advances_number_states:
  assumes "d_state d \<in> sized_states" "d_currentLength d \<in> {1, 2, 4, 8}"
  shows "advances 1 (decode_in_state lexical_cast (d_state d)) d"
proof -
  have nint: "advances 8 (run_bind get_long (\<lambda>b. put_node (Node_value (COT_EXTRA_INT (b + 1) False)))) d" if "d_currentLength d = 8"
    by (rule advances_get [OF get_long_def [unfolded Let_def]])
      (rule advances_put, use that in \<open>simp add: decoder_ok_def length_ok_def skip_bytes_def\<close>)
  note reads = advances_switch [OF assms(2)] advances_fail nint advances_get [OF get_byte_def] advances_get [OF get_short_def]
    advances_get [OF get_int_def [unfolded Let_def]] advances_get [OF get_long_def [unfolded Let_def]] advances_put_state advances_enter
  have "advances 1 decode_pint d" unfolding decode_pint_def by (intro reads) simp_all
  moreover have "advances 1 decode_nint d" unfolding decode_nint_def by (intro reads) simp_all
  moreover have "advances 1 (decode_size s msg) d" if "s = STATE_BYTES_DATA \<or> s = STATE_STRING_DATA \<or> s = STATE_FLOAT_DATA" for s msg
    unfolding decode_size_def by (intro reads) (use that in auto)
  moreover have "advances 1 decode_array d" unfolding decode_array_def by (intro reads) simp_all
  moreover have "advances 1 decode_map d" unfolding decode_map_def by (intro reads advances_update) simp_all
  moreover have "advances 1 decode_tag d" unfolding decode_tag_def by (intro reads) simp_all
  ultimately show ?thesis using assms(1) unfolding sized_states_def by auto
qed


text \<open>A state that reads data is left for \<^verbatim>\<open>STATE_TYPE\<close>.\<close>

definition settles :: "(cbor_decoder, unit) run \<Rightarrow> cbor_decoder \<Rightarrow> bool" where
  "settles m d \<longleftrightarrow> (\<forall>d'. m d = (Inr (), d') \<longrightarrow> d_data d' = d_data d \<and> d_offset d \<le> d_offset d' \<and> d_state d' = STATE_TYPE)"

lemma settles_put: "d_state d = STATE_TYPE \<Longrightarrow> settles (put_node v) d"
  by (auto simp: settles_def same_input_def dest!: put_node_input)

lemma settles_step:
  assumes "settles m' e" "m d = m' e" "d_data e = d_data d" "d_offset d \<le> d_offset e"
  shows "settles m d"
  using assms unfolding settles_def by (metis order_trans)

lemma settles_data:
  assumes "\<And>str. settles (g str) ((skip_bytes (nat (d_currentLength d)) d)\<lparr>d_state := STATE_TYPE\<rparr>)"
  shows "settles (run_bind get_currentLength (\<lambda>len. run_bind (get_bytes len) (\<lambda>str. run_bind (set_state STATE_TYPE) (\<lambda>_. g str)))) d"
proof (cases "d_currentLength d < 0")
  case True
  then show ?thesis by (simp add: settles_def run_bind_def get_currentLength_def run_get_def get_bytes_def)
next
  case False
  then show ?thesis
    by (intro settles_step [OF assms [of "map char_of_byte (peek d (nat (d_currentLength d)))"]])
      (simp_all add: run_bind_def get_currentLength_def run_get_def get_bytes_def set_state_def run_update_def skip_bytes_def)
qed

lemma settles_data_states:
  assumes "d_state d \<in> {STATE_BYTES_DATA, STATE_STRING_DATA, STATE_FLOAT_DATA}"
  shows "settles (decode_in_state lexical_cast (d_state d)) d"
proof -
  have "settles decode_bytes d" unfolding decode_bytes_def by (intro settles_data settles_put) simp
  moreover have "settles decode_string d" unfolding decode_string_def by (intro settles_data settles_put) simp
  moreover have "settles (decode_float lexical_cast) d" unfolding decode_float_def
  proof (rule settles_data)
    fix str :: string
    let ?e = "(skip_bytes (nat (d_currentLength d)) d)\<lparr>d_state := STATE_TYPE\<rparr>"
    let ?f = "if length str < CBOR_ENCODE_DOUBLE_STRING_SIZE then skip_bytes (CBOR_ENCODE_DOUBLE_STRING_SIZE - length str) else (\<lambda>d. d)"
    have f: "d_data (?f ?e) = d_data ?e" "d_offset ?e \<le> d_offset (?f ?e)" "d_state (?f ?e) = STATE_TYPE" by (auto simp: skip_bytes_def)
    show "settles (run_bind (run_update ?f) (\<lambda>_. run_bind (run_result (to_double lexical_cast str))
        (\<lambda>value. put_node (Node_value (COT_FLOAT value))))) ?e"
    proof (cases "to_double lexical_cast str")
      case (Inl e)
      then show ?thesis by (simp add: settles_def run_bind_def run_update_def run_result_def)
    next
      case (Inr t)
      then show ?thesis
        by (intro settles_step [OF settles_put [OF f(3), of "Node_value (COT_FLOAT t)"]] f(1,2)) (simp add: run_bind_def run_update_def run_result_def)
    qed
  qed
  ultimately show ?thesis using assms by auto
qed

lemma decode_turn_progress:
  assumes "decoder_ok d" "decode_turn lexical_cast d = (Inr True, d')"
  shows "decoder_ok d' \<and> to_read d' < to_read d"
proof -
  have act: "decode_in_state lexical_cast (d_state d) d = (Inr (), d')" "d_state d \<noteq> STATE_ERROR" "d_state d \<noteq> STATE_SPECIAL"
      "has_bytes d (if d_state d = STATE_TYPE then 1 else d_currentLength d)"
    using assms(2) by (auto simp: decode_turn_def run_bind_def run_return_def run_throw_def split: if_splits prod.splits sum.splits)
  consider "d_state d = STATE_TYPE" | "d_state d \<in> sized_states" | "d_state d \<in> {STATE_BYTES_DATA, STATE_STRING_DATA, STATE_FLOAT_DATA}"
    using act(2,3) by (cases "d_state d") (auto simp: sized_states_def)
  then show ?thesis
  proof cases
    case 1
    then have "d_data d' = d_data d \<and> d_offset d + 1 \<le> d_offset d' \<and> decoder_ok d'"
      using advances_type [OF 1] act(1) unfolding advances_def 1 decode_in_state.simps by blast
    then show ?thesis using act(4) 1 by (auto simp: to_read_def has_bytes_def)
  next
    case 2
    then have len: "d_currentLength d \<in> {1, 2, 4, 8}" using assms(1) by (simp add: decoder_ok_def length_ok_def)
    then have "d_data d' = d_data d \<and> d_offset d + 1 \<le> d_offset d' \<and> decoder_ok d'"
      using advances_number_states [OF 2 len, of lexical_cast] act(1) unfolding advances_def by blast
    moreover have "d_state d \<noteq> STATE_TYPE" using 2 by (auto simp: sized_states_def)
    ultimately show ?thesis using act(4) len by (auto simp: to_read_def has_bytes_def)
  next
    case 3
    then have "d_data d' = d_data d \<and> d_offset d \<le> d_offset d' \<and> d_state d' = STATE_TYPE"
      using settles_data_states [OF 3, of lexical_cast] act(1) unfolding settles_def by blast
    then show ?thesis using 3 by (auto simp: to_read_def decoder_ok_def)
  qed
qed

lemma decode_loop_ends:
  "decoder_ok d \<Longrightarrow> \<exists>r. decode_loop lexical_cast d = Some r"
proof (induction "to_read d" arbitrary: d rule: less_induct)
  case less
  obtain r d' where t: "decode_turn lexical_cast d = (r, d')" by fastforce
  show ?case
  proof (cases "r = Inr True")
    case True
    then have "decoder_ok d'" "to_read d' < to_read d" using decode_turn_progress [OF less.prems] t by auto
    then have "\<exists>r. decode_loop lexical_cast d' = Some r" using less.hyps by blast
    then show ?thesis using t True by (subst decode_loop.simps) simp
  next
    case False
    then show ?thesis using t by (subst decode_loop.simps) (auto split: sum.splits)
  qed
qed

lemma decode_run_ends: "\<exists>r. decode_run lexical_cast data = Some r"
  using decode_loop_ends [of "new_decoder data" lexical_cast]
  by (auto simp: decode_run_def new_decoder_def decoder_ok_def)

end
