(* ===== verification/Cbor_Reading.thy ===== *)
theory Cbor_Reading
  imports Cbor_Termination
begin

text \<open>
  How the decoder reads the numbers, strings and headers that the encoder writes.
\<close>

section \<open>Bytes\<close>

lemma char_of_byte_of_char [simp]: "char_of_byte (byte_of_char c) = c"
proof -
  have "of_char c < (256 :: nat)" by (rule nat_of_char_less_256)
  then show ?thesis by (simp add: char_of_byte_def byte_of_char_def unat_of_nat)
qed

lemma take_bit_small:
  fixes v :: "'a :: len word"
  assumes "uint v < 2 ^ n"
  shows "take_bit n v = v"
  using assms by (intro word_uint_eqI) (simp add: unsigned_take_bit_eq take_bit_int_eq_self)

lemma type_byte_parts:
  assumes "m < 8" "v < 32"
  shows "drop_bit 5 (type_byte m v) = m" "type_byte m v AND 31 = v"
proof -
  have m: "take_bit 3 m = m" and v: "take_bit 5 v = v"
    using assms by (auto intro!: take_bit_small simp: word_less_def)
  have m3: "bit m i \<Longrightarrow> i < 3" and v5: "bit v i \<Longrightarrow> i < 5" for i
    using m v by (metis bit_take_bit_iff)+
  show "drop_bit 5 (type_byte m v) = m"
    by (rule bit_word_eqI) (auto simp: type_byte_def bit_simps dest: m3 v5)
  have "type_byte m v AND mask 5 = v"
    by (intro bit_word_eqI) (auto simp: type_byte_def bit_simps dest: m3 v5)
  then show "type_byte m v AND 31 = v" by (simp add: mask_eq_exp_minus_1)
qed

lemma byte_of_word:
  fixes v :: "'a :: len word"
  assumes "k + 8 \<le> LENGTH('b :: len)"
  shows "ucast (ucast (drop_bit k v) :: u8) = (take_bit 8 (drop_bit k (ucast v)) :: 'b word)"
  using assms by (intro bit_word_eqI) (auto simp: bit_simps)

lemma join_byte: "push_bit k (take_bit 8 (drop_bit k v)) OR take_bit k v = take_bit (k + 8) (v :: 'a :: len word)"
  by (rule bit_word_eqI) (auto simp: bit_simps not_less)

lemma byte_of_word_0:
  fixes v :: "'a :: len word"
  assumes "8 \<le> LENGTH('b :: len)"
  shows "ucast (ucast v :: u8) = (take_bit 8 (ucast v) :: 'b word)"
  using byte_of_word [of 0 v] assms by simp

lemma join_bytes:
  "push_bit 8 (ucast (ucast (drop_bit 8 v) :: u8)) OR ucast (ucast v :: u8) = (ucast v :: u16)" for v :: "'a :: len word"
proof -
  let ?w = "ucast v :: u16"
  have "ucast (ucast (drop_bit 8 v) :: u8) = take_bit 8 (drop_bit 8 ?w)" by (rule byte_of_word) simp
  moreover have "take_bit 16 ?w = ?w" by (simp add: take_bit_word_eq_self)
  ultimately show ?thesis using join_byte [of 8 ?w] by (simp add: byte_of_word_0 [of v])
qed

lemma join_bytes32:
  "push_bit 24 (ucast (ucast (drop_bit 24 v) :: u8)) OR push_bit 16 (ucast (ucast (drop_bit 16 v) :: u8)) OR
   push_bit 8 (ucast (ucast (drop_bit 8 v) :: u8)) OR ucast (ucast v :: u8) = (ucast v :: u32)" for v :: "'a :: len word"
proof -
  let ?w = "ucast v :: u32"
  have "ucast (ucast (drop_bit 8 v) :: u8) = take_bit 8 (drop_bit 8 ?w)" "ucast (ucast (drop_bit 16 v) :: u8) = take_bit 8 (drop_bit 16 ?w)"
      "ucast (ucast (drop_bit 24 v) :: u8) = take_bit 8 (drop_bit 24 ?w)"
    by (rule byte_of_word, simp)+
  moreover have "take_bit 32 ?w = ?w" by (simp add: take_bit_word_eq_self)
  ultimately show ?thesis
    using join_byte [of 8 ?w] join_byte [of 16 ?w] join_byte [of 24 ?w] by (simp add: byte_of_word_0 [of v] or.assoc)
qed

lemma join_bytes64:
  "push_bit 56 (ucast (ucast (drop_bit 56 v) :: u8)) OR push_bit 48 (ucast (ucast (drop_bit 48 v) :: u8)) OR
   push_bit 40 (ucast (ucast (drop_bit 40 v) :: u8)) OR push_bit 32 (ucast (ucast (drop_bit 32 v) :: u8)) OR
   push_bit 24 (ucast (ucast (drop_bit 24 v) :: u8)) OR push_bit 16 (ucast (ucast (drop_bit 16 v) :: u8)) OR
   push_bit 8 (ucast (ucast (drop_bit 8 v) :: u8)) OR ucast (ucast v :: u8) = (v :: u64)"
proof -
  have "take_bit 64 v = v" by (simp add: take_bit_word_eq_self)
  then show ?thesis
    using join_byte [of 8 v] join_byte [of 16 v] join_byte [of 24 v] join_byte [of 32 v] join_byte [of 40 v] join_byte [of 48 v]
      join_byte [of 56 v]
    by (simp add: byte_of_word byte_of_word_0 or.assoc)
qed

section \<open>Turns of the loop\<close>

text \<open>\<open>at_bytes d bs\<close>: the next bytes of the input are \<open>bs\<close>.\<close>

definition at_bytes :: "cbor_decoder \<Rightarrow> u8 list \<Rightarrow> bool" where
  "at_bytes d bs \<longleftrightarrow> (\<exists>rest. d_offset d \<le> length (d_data d) \<and> drop (d_offset d) (d_data d) = bs @ rest)"

lemma at_bytes_append: "at_bytes d (xs @ ys) \<longleftrightarrow> at_bytes d xs \<and> at_bytes (skip_bytes (length xs) d) ys"
proof
  assume "at_bytes d (xs @ ys)"
  then obtain rest where r: "d_offset d \<le> length (d_data d)" "drop (d_offset d) (d_data d) = xs @ ys @ rest" by (auto simp: at_bytes_def)
  have "length (d_data d) - d_offset d = length xs + length ys + length rest"
    using arg_cong [OF r(2), of length] by simp
  moreover have "drop (length xs + d_offset d) (d_data d) = ys @ rest" using arg_cong [OF r(2), of "drop (length xs)"] by simp
  ultimately show "at_bytes d xs \<and> at_bytes (skip_bytes (length xs) d) ys"
    using r by (auto simp: at_bytes_def skip_bytes_def add.commute)
next
  assume a: "at_bytes d xs \<and> at_bytes (skip_bytes (length xs) d) ys"
  then obtain r1 r2 where r: "d_offset d \<le> length (d_data d)" "drop (d_offset d) (d_data d) = xs @ r1"
      "drop (d_offset d + length xs) (d_data d) = ys @ r2"
    by (auto simp: at_bytes_def skip_bytes_def)
  have "r1 = ys @ r2" using r(3) arg_cong [OF r(2), of "drop (length xs)"] by (simp add: add.commute)
  then show "at_bytes d (xs @ ys)" using r by (auto simp: at_bytes_def)
qed

lemma at_bytes_has: "at_bytes d bs \<Longrightarrow> int (length bs) = n \<Longrightarrow> has_bytes d n"
  by (auto simp: at_bytes_def has_bytes_def dest!: arg_cong [of _ _ length])

lemma at_bytes_nth: "at_bytes d bs \<Longrightarrow> i < length bs \<Longrightarrow> d_data d ! (d_offset d + i) = bs ! i"
proof -
  assume a: "at_bytes d bs" "i < length bs"
  then obtain rest where "d_offset d \<le> length (d_data d)" "drop (d_offset d) (d_data d) = bs @ rest" by (auto simp: at_bytes_def)
  then show ?thesis using a(2) by (metis nth_append nth_drop)
qed

lemma at_bytes_peek: "at_bytes d bs \<Longrightarrow> peek d (length bs) = bs"
  by (auto simp: at_bytes_def peek_def)

lemma at_bytes_cong [simp]:
  "at_bytes (d\<lparr>d_state := s\<rparr>) bs = at_bytes d bs" "at_bytes (d\<lparr>d_currentLength := l\<rparr>) bs = at_bytes d bs"
  by (simp_all add: at_bytes_def)

lemma at_bytes_same: "d_data e = d_data d \<Longrightarrow> d_offset e = d_offset d \<Longrightarrow> at_bytes e bs = at_bytes d bs"
  by (simp add: at_bytes_def)

lemma loop_turn: "decode_turn lc d = (Inr True, e) \<Longrightarrow> decode_loop lc d = decode_loop lc e"
  by (subst decode_loop.simps) simp

lemma type_turn:
  assumes "d_state d = STATE_TYPE" "at_bytes d (b # bs)" "decode_type b (skip_bytes 1 d) = (Inr (), e)"
  shows "decode_loop lc d = decode_loop lc e"
proof (rule loop_turn)
  have "at_bytes d [b]" using assms(2) at_bytes_append [of d "[b]" bs] by simp
  then have "has_bytes d 1" "d_data d ! d_offset d = b"
    using at_bytes_has [of d "[b]" 1] at_bytes_nth [of d "[b]" 0] by simp_all
  then show "decode_turn lc d = (Inr True, e)"
    using assms(1,3) by (simp add: decode_turn_def run_bind_def get_byte_def run_return_def)
qed

lemma state_turn:
  assumes "d_state d \<notin> {STATE_TYPE, STATE_ERROR, STATE_SPECIAL}" "has_bytes d (d_currentLength d)"
    and "decode_in_state lc (d_state d) d = (Inr (), e)"
  shows "decode_loop lc d = decode_loop lc e"
  using assms by (intro loop_turn) (simp add: decode_turn_def run_bind_def run_return_def)


section \<open>Putting values into place\<close>

text \<open>The pointers of the decoder lead to objects that exist.\<close>

definition pointers_ok :: "cbor_decoder \<Rightarrow> bool" where
  "pointers_ok d \<longleftrightarrow> set (d_structures_stack d) \<subseteq> {..<length (d_heap d)} \<and> (\<forall>k. d_map_key_temp d = Some k \<longrightarrow> k < length (d_heap d))"

lemma link_value_frame:
  assumes "pointers_ok d" "link_value a d = (Inr (), d1)"
  shows "link_value a (d\<lparr>d_heap := d_heap d @ xs, d_offset := off, d_currentLength := l, d_state := s\<rparr>) =
      (Inr (), d1\<lparr>d_heap := d_heap d1 @ xs, d_offset := off, d_currentLength := l, d_state := s\<rparr>)"
    "length (d_heap d1) = length (d_heap d)" "set (d_structures_stack d1) \<subseteq> set (d_structures_stack d)"
    "d_map_key_temp d1 = d_map_key_temp d \<or> d_map_key_temp d1 = Some a"
    "d_data d1 = d_data d" "d_offset d1 = d_offset d" "d_state d1 = d_state d"
proof -
  have last: "last (d_structures_stack d) < length (d_heap d)" if "d_structures_stack d \<noteq> []"
    using assms(1) last_in_set [OF that] unfolding pointers_ok_def by blast
  have key: "map_key (d\<lparr>d_heap := d_heap d @ xs, d_offset := off, d_currentLength := l, d_state := s\<rparr>) = map_key d"
    using assms(1) by (auto simp: map_key_def pointers_ok_def nth_append split: option.splits)
  show "link_value a (d\<lparr>d_heap := d_heap d @ xs, d_offset := off, d_currentLength := l, d_state := s\<rparr>) =
      (Inr (), d1\<lparr>d_heap := d_heap d1 @ xs, d_offset := off, d_currentLength := l, d_state := s\<rparr>)"
    using assms(2) last unfolding link_value_def
    by (auto simp: Let_def key nth_append set_node_def pop_structure_def list_update_append split: if_splits cbor_node.splits sum.splits)
  show "length (d_heap d1) = length (d_heap d)" "set (d_structures_stack d1) \<subseteq> set (d_structures_stack d)"
    "d_map_key_temp d1 = d_map_key_temp d \<or> d_map_key_temp d1 = Some a"
    "d_data d1 = d_data d" "d_offset d1 = d_offset d" "d_state d1 = d_state d"
    using assms(2) unfolding link_value_def
    by (auto simp: Let_def set_node_def pop_structure_def dest!: in_set_butlastD split: if_splits cbor_node.splits sum.splits)
qed

lemma put_node_frame:
  assumes "pointers_ok d" "link_value (length (d_heap d)) d = (Inr (), d1)"
  shows "put_node n (d\<lparr>d_offset := off, d_currentLength := l, d_state := s\<rparr>) =
    (Inr (), push_structure (length (d_heap d)) (d1\<lparr>d_heap := d_heap d1 @ [n], d_offset := off, d_currentLength := l, d_state := s\<rparr>))"
proof -
  have eq: "d\<lparr>d_offset := off, d_currentLength := l, d_state := s, d_heap := d_heap d @ [n]\<rparr>
      = d\<lparr>d_heap := d_heap d @ [n], d_offset := off, d_currentLength := l, d_state := s\<rparr>" by simp
  have "link_value (length (d_heap d)) (d\<lparr>d_offset := off, d_currentLength := l, d_state := s, d_heap := d_heap d @ [n]\<rparr>)
      = (Inr (), d1\<lparr>d_heap := d_heap d1 @ [n], d_offset := off, d_currentLength := l, d_state := s\<rparr>)"
    by (subst eq) (rule link_value_frame(1) [OF assms])
  then show ?thesis by (simp add: put_node_def run_bind_def make_node_def put_decoded_value_def run_update_def)
qed

text \<open>\<open>e\<close> differs from \<open>d\<close> at most in the position and the state of the decoder.\<close>

definition moved :: "cbor_decoder \<Rightarrow> cbor_decoder \<Rightarrow> bool" where
  "moved d e \<longleftrightarrow> e = d\<lparr>d_offset := d_offset e, d_currentLength := d_currentLength e, d_state := d_state e\<rparr>"

lemma moved_iff: "moved d e \<longleftrightarrow> d_data e = d_data d \<and> d_heap e = d_heap d \<and> d_result e = d_result d \<and>
    d_structures_stack e = d_structures_stack d \<and> d_iter_in_map_key e = d_iter_in_map_key d \<and> d_map_key_temp e = d_map_key_temp d"
  by (cases d; cases e) (auto simp: moved_def)

definition move_to :: "cbor_decoder \<Rightarrow> cbor_decoder \<Rightarrow> cbor_decoder" where
  "move_to e d = d\<lparr>d_offset := d_offset e, d_currentLength := d_currentLength e, d_state := d_state e\<rparr>"

lemma put_moved:
  assumes "pointers_ok d" "link_value (length (d_heap d)) d = (Inr (), d1)" "moved d e"
  shows "put_node n e = (Inr (), push_structure (length (d_heap d)) (move_to e (d1\<lparr>d_heap := d_heap d1 @ [n]\<rparr>)))"
proof -
  have "e = d\<lparr>d_offset := d_offset e, d_currentLength := d_currentLength e, d_state := d_state e\<rparr>" using assms(3) by (simp only: moved_def)
  then show ?thesis
    using put_node_frame [OF assms(1,2), where n = n and off = "d_offset e" and s = "d_state e" and l = "d_currentLength e"]
    by (simp add: move_to_def)
qed

lemma put_value_moved:
  assumes "pointers_ok d" "link_value (length (d_heap d)) d = (Inr (), d1)" "moved d e"
  shows "put_node (Node_value w) e = (Inr (), move_to e (d1\<lparr>d_heap := d_heap d1 @ [Node_value w]\<rparr>))"
  using put_moved [OF assms, of "Node_value w"] link_value_frame(2) [OF assms(1,2)]
  by (simp add: push_structure_def nth_append move_to_def)

section \<open>Numbers\<close>

text \<open>
  \<open>reads_node lc d d1 k n\<close>: the decoder puts the object \<open>n\<close> of the next \<open>k\<close> bytes into place and goes on after them, where \<open>d1\<close> is
  \<open>d\<close> with the new object linked.
\<close>

definition after_node :: "cbor_decoder \<Rightarrow> cbor_node \<Rightarrow> nat \<Rightarrow> int \<Rightarrow> cbor_decoder" where
  "after_node d1 n off len =
    push_structure (length (d_heap d1)) (d1\<lparr>d_heap := d_heap d1 @ [n], d_offset := off, d_currentLength := len, d_state := STATE_TYPE\<rparr>)"

definition reads_node :: "(string \<Rightarrow> string option) \<Rightarrow> cbor_decoder \<Rightarrow> cbor_decoder \<Rightarrow> nat \<Rightarrow> cbor_node \<Rightarrow> bool" where
  "reads_node lc d d1 k n \<longleftrightarrow> (\<exists>len. decode_loop lc d = decode_loop lc (after_node d1 n (d_offset d + k) len))"

text \<open>Objects that the first byte holds.\<close>

lemma reads_in_type:
  assumes "pointers_ok d" "link_value (length (d_heap d)) d = (Inr (), d1)" "d_state d = STATE_TYPE" "at_bytes d [b]"
    and "decode_type b = put_node n"
  shows "reads_node lc d d1 1 n"
  unfolding reads_node_def
proof (intro exI type_turn [OF assms(3,4)])
  show "decode_type b (skip_bytes 1 d) = (Inr (), after_node d1 n (d_offset d + 1) (d_currentLength d))"
    unfolding assms(5) using put_moved [OF assms(1,2), of "skip_bytes 1 d" n] assms(3) link_value_frame(2) [OF assms(1,2)]
    by (simp add: moved_iff skip_bytes_def move_to_def after_node_def)
qed

lemma push_state: "(push_structure a d)\<lparr>d_state := s\<rparr> = push_structure a (d\<lparr>d_state := s\<rparr>)"
  by (simp add: push_structure_def split: cbor_node.split)

text \<open>Objects of the bytes after the first one, which are read in state \<open>s\<close>.\<close>

lemma reads_in_state:
  assumes ok: "pointers_ok d" "link_value (length (d_heap d)) d = (Inr (), d1)" "d_state d = STATE_TYPE" and at: "at_bytes d (b # bs)"
    and b: "decode_type b = enter s (int (length bs))" "s \<notin> {STATE_TYPE, STATE_ERROR, STATE_SPECIAL}"
    and act: "\<And>e. at_bytes e bs \<Longrightarrow> d_currentLength e = int (length bs) \<Longrightarrow> \<exists>e'. moved e e' \<and> d_offset e' = d_offset e + length bs \<and>
      decode_in_state lc s e = run_bind (put_node n) (\<lambda>_. set_state STATE_TYPE) e'"
  shows "reads_node lc d d1 (1 + length bs) n"
proof -
  let ?e = "d\<lparr>d_offset := d_offset d + 1, d_currentLength := int (length bs), d_state := s\<rparr>"
  have "decode_type b (skip_bytes 1 d) = (Inr (), ?e)"
    unfolding b(1) by (simp add: enter_def run_update_def skip_bytes_def)
  then have "decode_loop lc d = decode_loop lc ?e" using type_turn [OF ok(3)] at by blast
  moreover have at': "at_bytes ?e bs"
    using at at_bytes_append [of d "[b]" bs] by (simp add: skip_bytes_def at_bytes_def)
  moreover have "has_bytes ?e (d_currentLength ?e)" using at' at_bytes_has [of ?e bs "int (length bs)"] by simp
  moreover obtain e' where e': "moved ?e e'" "d_offset e' = d_offset d + (1 + length bs)"
      "decode_in_state lc s ?e = run_bind (put_node n) (\<lambda>_. set_state STATE_TYPE) e'"
    using act [OF at'] by auto
  moreover have "decode_in_state lc (d_state ?e) ?e = (Inr (), after_node d1 n (d_offset d + (1 + length bs)) (d_currentLength e'))"
  proof -
    have m: "moved d e'" using e'(1) by (simp add: moved_iff)
    show ?thesis
      using e'(2,3) put_moved [OF ok(1,2) m, of n] link_value_frame(2) [OF ok(1,2)]
      by (simp add: run_bind_def set_state_def run_update_def move_to_def after_node_def push_state)
  qed
  ultimately show ?thesis
    unfolding reads_node_def using state_turn [of ?e lc] b(2) by (intro exI [of _ "d_currentLength e'"]) auto
qed

lemma get_at:
  "at_bytes d (a # rest) \<Longrightarrow> get_byte d = (Inr a, skip_bytes 1 d)"
  "at_bytes d (a # b # rest) \<Longrightarrow> get_short d = (Inr (push_bit 8 (ucast a) OR ucast b), skip_bytes 2 d)"
  "at_bytes d (a # b # c # e # rest) \<Longrightarrow>
    get_int d = (Inr (push_bit 24 (ucast a) OR push_bit 16 (ucast b) OR push_bit 8 (ucast c) OR ucast e), skip_bytes 4 d)"
  using at_bytes_nth [of d "a # rest" 0] at_bytes_nth [of d "a # b # rest" 0] at_bytes_nth [of d "a # b # rest" 1]
    at_bytes_nth [of d "a # b # c # e # rest" 0] at_bytes_nth [of d "a # b # c # e # rest" 1]
    at_bytes_nth [of d "a # b # c # e # rest" 2] at_bytes_nth [of d "a # b # c # e # rest" 3]
  by (simp_all add: get_byte_def get_short_def get_int_def Let_def)

lemma get_long_at:
  assumes "at_bytes d ([a, b, c, e, f, g, h, i] @ rest)"
  shows "get_long d = (Inr (push_bit 56 (ucast a) OR push_bit 48 (ucast b) OR push_bit 40 (ucast c) OR push_bit 32 (ucast e) OR
    push_bit 24 (ucast f) OR push_bit 16 (ucast g) OR push_bit 8 (ucast h) OR ucast i), skip_bytes 8 d)"
  using at_bytes_nth [OF assms, of 0] at_bytes_nth [OF assms, of 1] at_bytes_nth [OF assms, of 2] at_bytes_nth [OF assms, of 3]
    at_bytes_nth [OF assms, of 4] at_bytes_nth [OF assms, of 5] at_bytes_nth [OF assms, of 6] at_bytes_nth [OF assms, of 7]
  by (simp add: get_long_def Let_def)


text \<open>The numbers of the encoder are read back.\<close>

lemma switch_at:
  fixes v :: "'a :: len word"
  shows "d_currentLength e = 1 \<Longrightarrow> at_bytes e [a] \<Longrightarrow> switch_length (run_bind get_byte f) m2 m4 m8 e = f a (skip_bytes 1 e)"
    "d_currentLength e = 2 \<Longrightarrow> at_bytes e [ucast (drop_bit 8 v), ucast v] \<Longrightarrow>
      switch_length m1 (run_bind get_short g) m4 m8 e = g (ucast v) (skip_bytes 2 e)"
    "d_currentLength e = 4 \<Longrightarrow> at_bytes e [ucast (drop_bit 24 v), ucast (drop_bit 16 v), ucast (drop_bit 8 v), ucast v] \<Longrightarrow>
      switch_length m1 m2 (run_bind get_int h) m8 e = h (ucast v) (skip_bytes 4 e)"
  by (simp_all add: switch_length_def run_bind_def get_at join_bytes join_bytes32)

lemma switch_at_8:
  "d_currentLength e = 8 \<Longrightarrow> at_bytes e [ucast (drop_bit 56 v), ucast (drop_bit 48 v), ucast (drop_bit 40 v), ucast (drop_bit 32 v),
      ucast (drop_bit 24 v), ucast (drop_bit 16 v), ucast (drop_bit 8 v), ucast v] \<Longrightarrow>
    switch_length m1 m2 m4 (run_bind get_long h) e = h v (skip_bytes 8 e)" for v :: u64
  using get_long_at [of e _ _ _ _ _ _ _ _ "[]"] by (simp add: switch_length_def run_bind_def join_bytes64)

lemma uint_ucast_small: "uint v < 2 ^ LENGTH('b) \<Longrightarrow> uint (ucast v :: 'b :: len word) = uint v" for v :: "'a :: len word"
  by (simp add: unsigned_ucast_eq take_bit_int_eq_self)

lemma ucast_ucast_small: "uint v < 2 ^ LENGTH('b) \<Longrightarrow> ucast (ucast v :: 'b :: len word) = v" for v :: "'a :: len word"
  by (rule word_uint_eqI) (simp add: unsigned_ucast_eq take_bit_int_eq_self take_bit_small)

lemma ucast_narrow:
  fixes v :: "'a :: len word"
  assumes "uint v < 2 ^ LENGTH('b :: len)" "LENGTH('b) \<le> LENGTH('c :: len)"
  shows "ucast (ucast (ucast v :: 'c word) :: 'b word) = v"
proof -
  have "uint v < 2 ^ LENGTH('c)" using assms by (meson less_le_trans one_le_numeral power_increasing)
  then have "uint (ucast v :: 'c word) = uint v" by (rule uint_ucast_small)
  then have "uint (ucast (ucast v :: 'c word) :: 'b word) = uint v" using assms(1) by (simp add: uint_ucast_small)
  then show ?thesis by (intro word_uint_eqI) (simp add: unsigned_ucast_eq take_bit_int_eq_self uint_lt2p)
qed

lemma moved_skip [simp]: "moved e (skip_bytes k e)" "d_offset (skip_bytes k e) = d_offset e + k"
  by (simp_all add: moved_iff skip_bytes_def)

text \<open>In state \<open>s\<close> the object \<open>n\<close> is put into place after \<open>k\<close> more bytes.\<close>

definition puts_after :: "(string \<Rightarrow> string option) \<Rightarrow> decoder_state \<Rightarrow> nat \<Rightarrow> cbor_node \<Rightarrow> cbor_decoder \<Rightarrow> bool" where
  "puts_after lc s k n e \<longleftrightarrow> (\<exists>e'. moved e e' \<and> d_offset e' = d_offset e + k \<and>
     decode_in_state lc s e = run_bind (put_node n) (\<lambda>_. set_state STATE_TYPE) e')"

lemma puts_afterI: "decode_in_state lc s e = run_bind (put_node n) (\<lambda>_. set_state STATE_TYPE) (skip_bytes k e) \<Longrightarrow> puts_after lc s k n e"
  unfolding puts_after_def by (intro exI [of _ "skip_bytes k e"]) simp

lemma write_type_value_widen: "write_type_value32 m v = write_type_value64 m (ucast v)"
proof -
  have less: "ucast v < (word_of_int k :: u64) \<longleftrightarrow> v < word_of_int k" if "0 \<le> k" "k < 2 ^ 32" for k
    using that uint_lt2p [of v] by (simp add: word_less_def unsigned_ucast_eq take_bit_int_eq_self unsigned_of_int)
  have "ucast v < (4294967296 :: u64)"
    using uint_lt2p [of v] by (simp add: word_less_def unsigned_ucast_eq take_bit_int_eq_self)
  moreover have "(ucast (drop_bit k (ucast v :: u64)) :: u8) = ucast (drop_bit k v)" for k
    by (rule bit_word_eqI) (auto simp: bit_simps dest: bit_imp_le_length)
  moreover have "(ucast (ucast v :: u64) :: u8) = ucast v" by (rule bit_word_eqI) (auto simp: bit_simps dest: bit_imp_le_length)
  ultimately show ?thesis
    using less [of 24] less [of 256] less [of 65536] by (simp add: write_type_value32_def write_type_value64_def)
qed

lemma reads_number:
  assumes ok: "pointers_ok d" "link_value (length (d_heap d)) d = (Inr (), d1)" "d_state d = STATE_TYPE"
    and at: "at_bytes d (write_type_value64 m u)"
    and s: "s \<notin> {STATE_TYPE, STATE_ERROR, STATE_SPECIAL}"
    and first: "uint u < 24 \<Longrightarrow> decode_type (type_byte m (ucast u)) = put_node n"
    and enters: "decode_type (type_byte m 24) = enter s 1" "decode_type (type_byte m 25) = enter s 2"
      "decode_type (type_byte m 26) = enter s 4" "decode_type (type_byte m 27) = enter s 8"
    and one: "\<And>e. d_currentLength e = 1 \<Longrightarrow> at_bytes e [ucast u] \<Longrightarrow> uint u < 256 \<Longrightarrow> puts_after lc s 1 n e"
    and two: "\<And>e. d_currentLength e = 2 \<Longrightarrow> at_bytes e [ucast (drop_bit 8 u), ucast u] \<Longrightarrow> uint u < 65536 \<Longrightarrow> puts_after lc s 2 n e"
    and four: "\<And>e. d_currentLength e = 4 \<Longrightarrow> at_bytes e [ucast (drop_bit 24 u), ucast (drop_bit 16 u), ucast (drop_bit 8 u), ucast u] \<Longrightarrow>
      65536 \<le> uint u \<Longrightarrow> uint u < 4294967296 \<Longrightarrow> puts_after lc s 4 n e"
    and eight: "\<And>e. d_currentLength e = 8 \<Longrightarrow> at_bytes e [ucast (drop_bit 56 u), ucast (drop_bit 48 u), ucast (drop_bit 40 u),
      ucast (drop_bit 32 u), ucast (drop_bit 24 u), ucast (drop_bit 16 u), ucast (drop_bit 8 u), ucast u] \<Longrightarrow>
      4294967296 \<le> uint u \<Longrightarrow> puts_after lc s 8 n e"
  shows "reads_node lc d d1 (length (write_type_value64 m u)) n"
proof -
  note st = reads_in_state [OF ok _ _ s, of "type_byte m _"]
  consider "uint u < 24" | "24 \<le> uint u" "uint u < 256" | "256 \<le> uint u" "uint u < 65536"
    | "65536 \<le> uint u" "uint u < 4294967296" | "4294967296 \<le> uint u" by linarith
  then show ?thesis
  proof cases
    case 1
    then show ?thesis using reads_in_type [OF ok, of "type_byte m (ucast u)" n lc] first at by (simp add: write_type_value64_def word_less_def)
  next
    case 2
    then have w: "write_type_value64 m u = type_byte m 24 # [ucast u]" by (simp add: write_type_value64_def word_less_def)
    show ?thesis
      using st [of 24 "[ucast u]" lc n] at one 2 enters(1) unfolding w puts_after_def by simp
  next
    case 3
    then have w: "write_type_value64 m u = type_byte m 25 # [ucast (drop_bit 8 u), ucast u]" by (simp add: write_type_value64_def word_less_def)
    show ?thesis
      using st [of 25 "[ucast (drop_bit 8 u), ucast u]" lc n] at two 3 enters(2) unfolding w puts_after_def by simp
  next
    case 4
    then have w: "write_type_value64 m u = type_byte m 26 # [ucast (drop_bit 24 u), ucast (drop_bit 16 u), ucast (drop_bit 8 u), ucast u]"
      by (simp add: write_type_value64_def word_less_def)
    show ?thesis
      using st [of 26 "[ucast (drop_bit 24 u), ucast (drop_bit 16 u), ucast (drop_bit 8 u), ucast u]" lc n] at four 4 enters(3)
      unfolding w puts_after_def by (simp add: numeral_eq_Suc)
  next
    case 5
    then have w: "write_type_value64 m u = type_byte m 27 # [ucast (drop_bit 56 u), ucast (drop_bit 48 u), ucast (drop_bit 40 u),
      ucast (drop_bit 32 u), ucast (drop_bit 24 u), ucast (drop_bit 16 u), ucast (drop_bit 8 u), ucast u]"
      by (simp add: write_type_value64_def word_less_def)
    show ?thesis
      using st [of 27 "[ucast (drop_bit 56 u), ucast (drop_bit 48 u), ucast (drop_bit 40 u),
      ucast (drop_bit 32 u), ucast (drop_bit 24 u), ucast (drop_bit 16 u), ucast (drop_bit 8 u), ucast u]" lc n] at eight 5 enters(4)
      unfolding w puts_after_def by (simp add: numeral_eq_Suc)
  qed
qed

lemma decode_type_enter:
  assumes "v = 24 \<and> l = 1 \<or> v = 25 \<and> l = 2 \<or> v = 26 \<and> l = 4 \<or> v = 27 \<and> l = 8"
  shows "decode_type (type_byte 0 v) = enter STATE_PINT l" "decode_type (type_byte 1 v) = enter STATE_NINT l"
    "decode_type (type_byte 2 v) = enter STATE_BYTES_SIZE l" "decode_type (type_byte 3 v) = enter STATE_STRING_SIZE l"
    "decode_type (type_byte 4 v) = enter STATE_ARRAY l" "decode_type (type_byte 5 v) = enter STATE_MAP l"
    "decode_type (type_byte 6 v) = enter STATE_TAG l" "decode_type (type_byte 7 v) = enter STATE_FLOAT_SIZE l"
proof -
  have v: "v < 32" "\<not> v < 24" "v \<noteq> 20" "v \<noteq> 21" "v \<noteq> 22" "v \<noteq> 23" using assms by auto
  have e: "enter_sized s v msg = enter s l" for s msg using assms by (auto simp: enter_sized_def)
  show "decode_type (type_byte 0 v) = enter STATE_PINT l" "decode_type (type_byte 1 v) = enter STATE_NINT l"
    "decode_type (type_byte 2 v) = enter STATE_BYTES_SIZE l" "decode_type (type_byte 3 v) = enter STATE_STRING_SIZE l"
    "decode_type (type_byte 4 v) = enter STATE_ARRAY l" "decode_type (type_byte 5 v) = enter STATE_MAP l"
    "decode_type (type_byte 6 v) = enter STATE_TAG l" "decode_type (type_byte 7 v) = enter STATE_FLOAT_SIZE l"
    by (simp_all add: decode_type_def Let_def type_byte_parts v e)
qed

lemma decode_type_small:
  assumes "v < 24"
  shows "decode_type (type_byte 0 v) = put_node (Node_value (COT_INT (uint v)))"
    "decode_type (type_byte 1 v) = put_node (Node_value (COT_INT (- 1 - uint v)))"
    "decode_type (type_byte 2 v) = enter STATE_BYTES_DATA (uint v)" "decode_type (type_byte 3 v) = enter STATE_STRING_DATA (uint v)"
    "decode_type (type_byte 4 v) = put_node (Node_array [] (ucast v))" "decode_type (type_byte 5 v) = put_node (Node_map [] (ucast v))"
    "decode_type (type_byte 6 v) = put_node (Node_value (COT_TAG (ucast v)))"
    "v < 20 \<Longrightarrow> decode_type (type_byte 7 v) = enter STATE_FLOAT_DATA (uint v)"
proof -
  have "v < 32" using assms by (simp add: word_less_def)
  then show "decode_type (type_byte 0 v) = put_node (Node_value (COT_INT (uint v)))"
    "decode_type (type_byte 1 v) = put_node (Node_value (COT_INT (- 1 - uint v)))"
    "decode_type (type_byte 2 v) = enter STATE_BYTES_DATA (uint v)" "decode_type (type_byte 3 v) = enter STATE_STRING_DATA (uint v)"
    "decode_type (type_byte 4 v) = put_node (Node_array [] (ucast v))" "decode_type (type_byte 5 v) = put_node (Node_map [] (ucast v))"
    "decode_type (type_byte 6 v) = put_node (Node_value (COT_TAG (ucast v)))"
    "v < 20 \<Longrightarrow> decode_type (type_byte 7 v) = enter STATE_FLOAT_DATA (uint v)"
    using assms by (auto simp: decode_type_def Let_def type_byte_parts)
qed

lemma reads_pint:
  assumes ok: "pointers_ok d" "link_value (length (d_heap d)) d = (Inr (), d1)" "d_state d = STATE_TYPE"
    and at: "at_bytes d (write_type_value64 0 u)"
  shows "reads_node lc d d1 (length (write_type_value64 0 u)) (Node_value (reload_nat (uint u)))"
proof (rule reads_number [OF ok at, of STATE_PINT])
  have small: "reload_nat (uint u) = COT_INT (uint u)" if "uint u < 65536"
    using that by (simp add: reload_nat_def int_max_def)
  show "decode_type (type_byte 0 (ucast u)) = put_node (Node_value (reload_nat (uint u)))" if "uint u < 24"
    using that by (simp add: decode_type_small word_less_def uint_ucast_small small)
  fix e
  show "puts_after lc STATE_PINT 1 (Node_value (reload_nat (uint u))) e" if "d_currentLength e = 1" "at_bytes e [ucast u]" "uint u < 256"
    using that by (intro puts_afterI) (simp add: decode_pint_def switch_at uint_ucast_small small)
  show "puts_after lc STATE_PINT 2 (Node_value (reload_nat (uint u))) e" if "d_currentLength e = 2"
      "at_bytes e [ucast (drop_bit 8 u), ucast u]" "uint u < 65536"
    using that by (intro puts_afterI) (simp add: decode_pint_def switch_at uint_ucast_small small)
  show "puts_after lc STATE_PINT 4 (Node_value (reload_nat (uint u))) e" if "d_currentLength e = 4"
      "at_bytes e [ucast (drop_bit 24 u), ucast (drop_bit 16 u), ucast (drop_bit 8 u), ucast u]" "uint u < 4294967296"
    using that by (intro puts_afterI) (simp add: decode_pint_def switch_at uint_ucast_small ucast_ucast_small reload_nat_def)
  show "puts_after lc STATE_PINT 8 (Node_value (reload_nat (uint u))) e" if "d_currentLength e = 8"
      "at_bytes e [ucast (drop_bit 56 u), ucast (drop_bit 48 u), ucast (drop_bit 40 u),
      ucast (drop_bit 32 u), ucast (drop_bit 24 u), ucast (drop_bit 16 u), ucast (drop_bit 8 u), ucast u]" "4294967296 \<le> uint u"
    using that by (intro puts_afterI) (simp add: decode_pint_def switch_at_8 reload_nat_def int_max_def)
qed (simp_all add: decode_type_enter)


text \<open>Negative numbers of eight bytes are left out: after one of them the decoder is in the wrong state.\<close>

lemma reads_nint:
  assumes ok: "pointers_ok d" "link_value (length (d_heap d)) d = (Inr (), d1)" "d_state d = STATE_TYPE"
    and at: "at_bytes d (write_type_value64 1 u)" and u: "uint u < 4294967296"
  shows "reads_node lc d d1 (length (write_type_value64 1 u)) (Node_value (reload_neg (uint u)))"
proof (rule reads_number [OF ok at, of STATE_NINT])
  have small: "reload_neg (uint u) = COT_INT (- uint u - 1)" if "uint u < 65536"
    using that by (simp add: reload_neg_def int_max_def)
  show "decode_type (type_byte 1 (ucast u)) = put_node (Node_value (reload_neg (uint u)))" if "uint u < 24"
    using that
    by (simp add: decode_type_small word_less_def uint_ucast_small reload_neg_def int_max_def minus_diff_commute [of "uint u" 1])
  fix e
  show "puts_after lc STATE_NINT 1 (Node_value (reload_neg (uint u))) e" if "d_currentLength e = 1" "at_bytes e [ucast u]" "uint u < 256"
    using that by (intro puts_afterI) (simp add: decode_nint_def switch_at uint_ucast_small small)
  show "puts_after lc STATE_NINT 2 (Node_value (reload_neg (uint u))) e" if "d_currentLength e = 2"
      "at_bytes e [ucast (drop_bit 8 u), ucast u]" "uint u < 65536"
    using that by (intro puts_afterI) (simp add: decode_nint_def switch_at uint_ucast_small small)
  show "puts_after lc STATE_NINT 4 (Node_value (reload_neg (uint u))) e" if "d_currentLength e = 4"
      "at_bytes e [ucast (drop_bit 24 u), ucast (drop_bit 16 u), ucast (drop_bit 8 u), ucast u]" "65536 \<le> uint u"
  proof (intro puts_afterI)
    have "(ucast (ucast u + 1 :: u32) :: u64) = word_of_int ((uint u + 1) mod 2 ^ 32)"
      using u by (intro word_uint_eqI)
        (simp add: unsigned_ucast_eq take_bit_int_eq_self uint_ucast_small uint_word_ariths unsigned_of_int take_bit_eq_mod)
    then show "decode_in_state lc STATE_NINT e = run_bind (put_node (Node_value (reload_neg (uint u)))) (\<lambda>_. set_state STATE_TYPE) (skip_bytes 4 e)"
      using that u by (simp add: decode_nint_def switch_at uint_ucast_small reload_neg_def)
  qed
qed (use u in \<open>simp_all add: decode_type_enter\<close>)

lemma reads_tag:
  assumes ok: "pointers_ok d" "link_value (length (d_heap d)) d = (Inr (), d1)" "d_state d = STATE_TYPE"
    and at: "at_bytes d (write_tag t)"
  shows "reads_node lc d d1 (length (write_tag t)) (Node_value (COT_TAG t))"
  unfolding write_tag_def write_type_value_widen
proof (rule reads_number [OF ok at [unfolded write_tag_def write_type_value_widen], of STATE_TAG])
  have t: "uint (ucast t :: u64) = uint t" using uint_lt2p [of t] by (intro uint_ucast_small) simp
  note narrow = ucast_narrow [of t]
  show "decode_type (type_byte 6 (ucast (ucast t :: u64))) = put_node (Node_value (COT_TAG t))" if "uint (ucast t :: u64) < 24"
    using that narrow [where 'c = 64 and 'b = 8] t by (simp add: decode_type_small word_less_def uint_ucast_small)
  fix e
  show "puts_after lc STATE_TAG 1 (Node_value (COT_TAG t)) e" if "d_currentLength e = 1" "at_bytes e [ucast (ucast t :: u64)]" "uint (ucast t :: u64) < 256"
    using that narrow [where 'c = 64 and 'b = 8] t by (intro puts_afterI) (simp add: decode_tag_def switch_at)
  show "puts_after lc STATE_TAG 2 (Node_value (COT_TAG t)) e" if "d_currentLength e = 2"
      "at_bytes e [ucast (drop_bit 8 (ucast t :: u64)), ucast (ucast t :: u64)]" "uint (ucast t :: u64) < 65536"
    using that narrow [where 'c = 64 and 'b = 16] t by (intro puts_afterI) (simp add: decode_tag_def switch_at)
  show "puts_after lc STATE_TAG 4 (Node_value (COT_TAG t)) e" if "d_currentLength e = 4"
      "at_bytes e [ucast (drop_bit 24 (ucast t :: u64)), ucast (drop_bit 16 (ucast t :: u64)), ucast (drop_bit 8 (ucast t :: u64)), ucast (ucast t :: u64)]"
    using that narrow [where 'c = 64 and 'b = 32] uint_lt2p [of t] by (intro puts_afterI) (simp add: decode_tag_def switch_at)
qed (use uint_lt2p [of t] in \<open>simp_all add: decode_type_enter uint_ucast_small\<close>)


text \<open>The headers of arrays and maps.\<close>

lemma reads_array:
  assumes ok: "pointers_ok d" "link_value (length (d_heap d)) d = (Inr (), d1)" "d_state d = STATE_TYPE"
    and at: "at_bytes d (write_type_value32 4 t)"
  shows "reads_node lc d d1 (length (write_type_value32 4 t)) (Node_array [] t)"
  unfolding write_type_value_widen
proof (rule reads_number [OF ok at [unfolded write_type_value_widen], of STATE_ARRAY])
  have t: "uint (ucast t :: u64) = uint t" using uint_lt2p [of t] by (intro uint_ucast_small) simp
  note narrow = ucast_narrow [of t]
  show "decode_type (type_byte 4 (ucast (ucast t :: u64))) = put_node (Node_array [] t)" if "uint (ucast t :: u64) < 24"
    using that narrow [where 'c = 64 and 'b = 8] t by (simp add: decode_type_small word_less_def uint_ucast_small)
  fix e
  show "puts_after lc STATE_ARRAY 1 (Node_array [] t) e" if "d_currentLength e = 1" "at_bytes e [ucast (ucast t :: u64)]" "uint (ucast t :: u64) < 256"
    using that narrow [where 'c = 64 and 'b = 8] t by (intro puts_afterI) (simp add: decode_array_def switch_at)
  show "puts_after lc STATE_ARRAY 2 (Node_array [] t) e" if "d_currentLength e = 2"
      "at_bytes e [ucast (drop_bit 8 (ucast t :: u64)), ucast (ucast t :: u64)]" "uint (ucast t :: u64) < 65536"
    using that narrow [where 'c = 64 and 'b = 16] t by (intro puts_afterI) (simp add: decode_array_def switch_at)
  show "puts_after lc STATE_ARRAY 4 (Node_array [] t) e" if "d_currentLength e = 4"
      "at_bytes e [ucast (drop_bit 24 (ucast t :: u64)), ucast (drop_bit 16 (ucast t :: u64)), ucast (drop_bit 8 (ucast t :: u64)), ucast (ucast t :: u64)]"
    using that narrow [where 'c = 64 and 'b = 32] uint_lt2p [of t] by (intro puts_afterI) (simp add: decode_array_def switch_at)
qed (use uint_lt2p [of t] in \<open>simp_all add: decode_type_enter uint_ucast_small\<close>)

lemma reads_map:
  assumes ok: "pointers_ok d" "link_value (length (d_heap d)) d = (Inr (), d1)" "d_state d = STATE_TYPE"
    and at: "at_bytes d (write_type_value32 5 t)"
  shows "reads_node lc d d1 (length (write_type_value32 5 t)) (Node_map [] t)"
  unfolding write_type_value_widen
proof (rule reads_number [OF ok at [unfolded write_type_value_widen], of STATE_MAP])
  have t: "uint (ucast t :: u64) = uint t" using uint_lt2p [of t] by (intro uint_ucast_small) simp
  note narrow = ucast_narrow [of t]
  show "decode_type (type_byte 5 (ucast (ucast t :: u64))) = put_node (Node_map [] t)" if "uint (ucast t :: u64) < 24"
    using that narrow [where 'c = 64 and 'b = 8] t by (simp add: decode_type_small word_less_def uint_ucast_small)
  fix e
  show "puts_after lc STATE_MAP 1 (Node_map [] t) e" if "d_currentLength e = 1" "at_bytes e [ucast (ucast t :: u64)]" "uint (ucast t :: u64) < 256"
    using that narrow [where 'c = 64 and 'b = 8] t by (intro puts_afterI) (simp add: decode_map_def switch_at)
  show "puts_after lc STATE_MAP 2 (Node_map [] t) e" if "d_currentLength e = 2"
      "at_bytes e [ucast (drop_bit 8 (ucast t :: u64)), ucast (ucast t :: u64)]" "uint (ucast t :: u64) < 65536"
    unfolding puts_after_def
    by (intro exI [of _ "(skip_bytes 2 e)\<lparr>d_currentLength := uint (ucast (ucast t :: u64) :: u16)\<rparr>"])
      (use that narrow [where 'c = 64 and 'b = 16] t in
        \<open>simp add: decode_map_def switch_at moved_iff skip_bytes_def run_bind_def [of "run_update _"] run_update_def [of "\<lambda>d. d\<lparr>d_currentLength := _\<rparr>"]\<close>)
  show "puts_after lc STATE_MAP 4 (Node_map [] t) e" if "d_currentLength e = 4"
      "at_bytes e [ucast (drop_bit 24 (ucast t :: u64)), ucast (drop_bit 16 (ucast t :: u64)), ucast (drop_bit 8 (ucast t :: u64)), ucast (ucast t :: u64)]"
    using that narrow [where 'c = 64 and 'b = 32] uint_lt2p [of t] by (intro puts_afterI) (simp add: decode_map_def switch_at)
qed (use uint_lt2p [of t] in \<open>simp_all add: decode_type_enter uint_ucast_small\<close>)

section \<open>Strings\<close>

text \<open>The size of a string, of bytes or of the text of a number brings the decoder into the state that reads the data.\<close>

lemma reads_size:
  assumes d: "d_state d = STATE_TYPE" "at_bytes d (write_type_value32 m t)" "uint t < 2 ^ 31"
    and small: "uint t < 24 \<Longrightarrow> decode_type (type_byte m (ucast t)) = enter s' (uint t)"
    and enters: "decode_type (type_byte m 24) = enter s 1" "decode_type (type_byte m 25) = enter s 2" "decode_type (type_byte m 26) = enter s 4"
    and s: "\<And>e. decode_in_state lc s e = decode_size s' msg e" "s \<notin> {STATE_TYPE, STATE_ERROR, STATE_SPECIAL}"
  shows "decode_loop lc d =
    decode_loop lc (d\<lparr>d_offset := d_offset d + length (write_type_value32 m t), d_state := s', d_currentLength := uint t\<rparr>)"
proof -
  have two: "decode_loop lc d = decode_loop lc (d\<lparr>d_offset := d_offset d + (1 + length bs), d_state := s', d_currentLength := uint t\<rparr>)"
    if w: "write_type_value32 m t = b # bs" "decode_type b = enter s (int (length bs))"
      and r: "\<And>e. at_bytes e bs \<Longrightarrow> d_currentLength e = int (length bs) \<Longrightarrow> decode_size s' msg e = enter s' (uint t) (skip_bytes (length bs) e)" for b bs
  proof -
    let ?e = "d\<lparr>d_offset := d_offset d + 1, d_state := s, d_currentLength := int (length bs)\<rparr>"
    have "decode_type b (skip_bytes 1 d) = (Inr (), ?e)" unfolding w(2) by (simp add: enter_def run_update_def skip_bytes_def)
    then have l: "decode_loop lc d = decode_loop lc ?e" using type_turn [OF d(1)] d(2) unfolding w(1) by blast
    have at': "at_bytes ?e bs"
      using d(2) at_bytes_append [of d "[b]" bs] unfolding w(1) by (simp add: skip_bytes_def at_bytes_def)
    have "has_bytes ?e (d_currentLength ?e)" using at' at_bytes_has [of ?e bs "int (length bs)"] by simp
    moreover have "decode_in_state lc (d_state ?e) ?e = (Inr (), d\<lparr>d_offset := d_offset d + (1 + length bs), d_state := s', d_currentLength := uint t\<rparr>)"
      using r [OF at'] by (simp add: s(1) enter_def run_update_def skip_bytes_def)
    ultimately show ?thesis using l state_turn [of ?e lc] s(2) by simp
  qed
  consider "uint t < 24" | "24 \<le> uint t" "uint t < 256" | "256 \<le> uint t" "uint t < 65536" | "65536 \<le> uint t" by linarith
  then show ?thesis
  proof cases
    case 1
    then have w: "write_type_value32 m t = [type_byte m (ucast t)]" by (simp add: write_type_value32_def word_less_def)
    show ?thesis
      using type_turn [OF d(1), of "type_byte m (ucast t)" "[]"] d(2) small [OF 1] unfolding w
      by (simp add: enter_def run_update_def skip_bytes_def)
  next
    case 2
    then have w: "write_type_value32 m t = type_byte m 24 # [ucast t]" by (simp add: write_type_value32_def word_less_def)
    show ?thesis using two [OF w] enters(1) 2 by (simp add: w decode_size_def switch_at uint_ucast_small)
  next
    case 3
    then have w: "write_type_value32 m t = type_byte m 25 # [ucast (drop_bit 8 t), ucast t]" by (simp add: write_type_value32_def word_less_def)
    show ?thesis using two [OF w] enters(2) 3 by (simp add: w decode_size_def switch_at uint_ucast_small numeral_2_eq_2)
  next
    case 4
    then have w: "write_type_value32 m t = type_byte m 26 # [ucast (drop_bit 24 t), ucast (drop_bit 16 t), ucast (drop_bit 8 t), ucast t]"
      by (simp add: write_type_value32_def word_less_def)
    have "signed_take_bit 31 (uint t) = uint t"
      by (rule signed_take_bit_int_eq_self) (use d(3) uint_ge_0 [of t] in linarith)+
    then have "sint (ucast t :: u32) = uint t" by (simp add: sint_uint)
    then show ?thesis using two [OF w] enters(3) 4 by (simp add: w decode_size_def switch_at numeral_eq_Suc)
  qed
qed


lemma reads_data:
  assumes ok: "pointers_ok d" "link_value (length (d_heap d)) d = (Inr (), d1)"
    and e: "moved d e" "d_state e \<notin> {STATE_TYPE, STATE_ERROR, STATE_SPECIAL}" "has_bytes e (d_currentLength e)"
    and act: "decode_in_state lc (d_state e) e = put_node n e'" "moved e e'" "d_state e' = STATE_TYPE"
  shows "\<exists>len. decode_loop lc e = decode_loop lc (after_node d1 n (d_offset e') len)"
proof -
  have "moved d e'" using e(1) act(2) by (simp add: moved_iff)
  then have "decode_in_state lc (d_state e) e = (Inr (), after_node d1 n (d_offset e') (d_currentLength e'))"
    using put_moved [OF ok, of e' n] act(1,3) link_value_frame(2) [OF ok] by (simp add: after_node_def move_to_def)
  then show ?thesis using state_turn [OF e(2,3)] by blast
qed

lemma get_bytes_at:
  "at_bytes e (map byte_of_char str @ rest) \<Longrightarrow> d_currentLength e = int (length str) \<Longrightarrow>
    get_bytes (d_currentLength e) e = (Inr str, skip_bytes (length str) e)"
  using at_bytes_peek [of e "map byte_of_char str"] at_bytes_append [of e "map byte_of_char str" rest]
  by (simp add: get_bytes_def comp_def)

lemma uint_length: "length str < 2 ^ 31 \<Longrightarrow> uint (word_of_nat (length str) :: u32) = int (length str)"
  by (simp add: unsigned_of_nat take_bit_nat_eq_self)

lemma reads_text:
  assumes ok: "pointers_ok d" "link_value (length (d_heap d)) d = (Inr (), d1)" "d_state d = STATE_TYPE"
    and len: "length str < 2 ^ 31"
  shows "at_bytes d (write_string str) \<Longrightarrow> reads_node lc d d1 (length (write_string str)) (Node_value (COT_STRING str))"
    "at_bytes d (write_bytes str) \<Longrightarrow> reads_node lc d d1 (length (write_bytes str)) (Node_value (COT_BYTES str))"
proof -
  let ?t = "word_of_nat (length str) :: u32"
  have t: "uint ?t = int (length str)" by (rule uint_length [OF len])
  then have b: "uint ?t < 24 \<Longrightarrow> uint (ucast ?t :: u8) = int (length str)" by (simp add: uint_ucast_small)
  have go: "reads_node lc d d1 (length (write_type_value32 m ?t @ map byte_of_char str)) (Node_value (f str))"
    if at: "at_bytes d (write_type_value32 m ?t @ map byte_of_char str)"
      and small: "uint ?t < 24 \<Longrightarrow> decode_type (type_byte m (ucast ?t)) = enter s' (uint ?t)"
      and enters: "decode_type (type_byte m 24) = enter s 1" "decode_type (type_byte m 25) = enter s 2" "decode_type (type_byte m 26) = enter s 4"
      and s: "\<And>e. decode_in_state lc s e = decode_size s' msg e" "s \<notin> {STATE_TYPE, STATE_ERROR, STATE_SPECIAL}"
      and s': "s' \<notin> {STATE_TYPE, STATE_ERROR, STATE_SPECIAL}"
      and act: "\<And>e. decode_in_state lc s' e = run_bind get_currentLength (\<lambda>len. run_bind (get_bytes len) (\<lambda>data.
        run_bind (set_state STATE_TYPE) (\<lambda>_. put_node (Node_value (f data))))) e"
    for m s s' f msg
  proof -
    let ?w = "write_type_value32 m ?t"
    let ?e = "d\<lparr>d_offset := d_offset d + length ?w, d_state := s', d_currentLength := uint ?t\<rparr>"
    have a: "at_bytes d ?w" "at_bytes ?e (map byte_of_char str)"
      using at at_bytes_same [of ?e "skip_bytes (length ?w) d"] by (simp_all add: at_bytes_append skip_bytes_def)
    have l: "decode_loop lc d = decode_loop lc ?e"
      by (rule reads_size [OF ok(3) a(1) _ small enters s]) (use len in \<open>simp_all add: t\<close>)
    have "get_bytes (d_currentLength ?e) ?e = (Inr str, skip_bytes (length str) ?e)"
      using get_bytes_at [of ?e str "[]"] a(2) t by simp
    then have "decode_in_state lc (d_state ?e) ?e = put_node (Node_value (f str)) ((skip_bytes (length str) ?e)\<lparr>d_state := STATE_TYPE\<rparr>)"
      by (simp add: act run_bind_def get_currentLength_def run_get_def set_state_def run_update_def)
    moreover have "has_bytes ?e (d_currentLength ?e)" using at_bytes_has [OF a(2)] t by simp
    ultimately have "\<exists>len. decode_loop lc ?e = decode_loop lc
        (after_node d1 (Node_value (f str)) (d_offset ((skip_bytes (length str) ?e)\<lparr>d_state := STATE_TYPE\<rparr>)) len)"
      using s' by (intro reads_data [OF ok(1,2)]) (auto simp: moved_iff skip_bytes_def)
    then show ?thesis using l by (simp add: reads_node_def skip_bytes_def add.assoc)
  qed
  show "at_bytes d (write_string str) \<Longrightarrow> reads_node lc d d1 (length (write_string str)) (Node_value (COT_STRING str))"
    unfolding write_string_def
    by (rule go [of 3 STATE_STRING_DATA STATE_STRING_SIZE])
      (use b t in \<open>simp_all add: decode_type_enter decode_type_small word_less_def decode_string_def\<close>)
  show "at_bytes d (write_bytes str) \<Longrightarrow> reads_node lc d d1 (length (write_bytes str)) (Node_value (COT_BYTES str))"
    unfolding write_bytes_def
    by (rule go [of 2 STATE_BYTES_DATA STATE_BYTES_SIZE])
      (use b t in \<open>simp_all add: decode_type_enter decode_type_small word_less_def decode_bytes_def\<close>)
qed


text \<open>
  The text of a number is padded to 40 bytes. Its size must not be 20 to 23: the first byte then means a truth value,
  null or undefined.
\<close>

lemma skip_bytes_0 [simp]: "skip_bytes 0 d = d"
  by (simp add: skip_bytes_def)

lemma reads_float:
  assumes ok: "pointers_ok d" "link_value (length (d_heap d)) d = (Inr (), d1)" "d_state d = STATE_TYPE"
    and t: "length t < 2 ^ 31" "length t \<notin> {20..23}" "lc (c_str t) = Some t" and at: "at_bytes d (write_float64 t)"
  shows "reads_node lc d d1 (length (write_float64 t)) (Node_value (COT_FLOAT t))"
proof -
  let ?t = "word_of_nat (length t) :: u32" and ?pad = "replicate (CBOR_ENCODE_DOUBLE_STRING_SIZE - length t) (0 :: u8)"
  let ?w = "write_type_value32 7 ?t"
  let ?e = "d\<lparr>d_offset := d_offset d + length ?w, d_state := STATE_FLOAT_DATA, d_currentLength := uint ?t\<rparr>"
  let ?e' = "skip_bytes (CBOR_ENCODE_DOUBLE_STRING_SIZE - length t) ((skip_bytes (length t) ?e)\<lparr>d_state := STATE_TYPE\<rparr>)"
  have len: "uint ?t = int (length t)" by (rule uint_length [OF t(1)])
  then have b: "uint ?t < 24 \<Longrightarrow> uint (ucast ?t :: u8) = int (length t)" by (simp add: uint_ucast_small)
  have w: "write_float64 t = ?w @ map byte_of_char t @ ?pad" by (simp add: write_float64_def write_type_double_def)
  have a: "at_bytes d ?w" "at_bytes ?e (map byte_of_char t @ ?pad)"
    using at at_bytes_same [of ?e "skip_bytes (length ?w) d"] at_bytes_append [of d ?w "map byte_of_char t @ ?pad"]
    unfolding w by (simp_all add: skip_bytes_def)
  have l: "decode_loop lc d = decode_loop lc ?e"
    by (rule reads_size [OF ok(3) a(1), of STATE_FLOAT_DATA STATE_FLOAT_SIZE])
      (use b len t(1,2) in \<open>simp_all add: decode_type_enter decode_type_small word_less_def\<close>)
  have "get_bytes (d_currentLength ?e) ?e = (Inr t, skip_bytes (length t) ?e)"
    using get_bytes_at [OF a(2)] len by simp
  then have "decode_in_state lc (d_state ?e) ?e = put_node (Node_value (COT_FLOAT t)) ?e'"
    using t(3) by (simp add: decode_float_def run_bind_def get_currentLength_def run_get_def set_state_def run_update_def run_result_def
        to_double_def skip_bytes_0)
  moreover have "has_bytes ?e (d_currentLength ?e)"
    using at_bytes_has [of ?e "map byte_of_char t"] a(2) len at_bytes_append [of ?e "map byte_of_char t" ?pad] by simp
  ultimately have "\<exists>l. decode_loop lc ?e = decode_loop lc (after_node d1 (Node_value (COT_FLOAT t)) (d_offset ?e') l)"
    by (intro reads_data [OF ok(1,2)]) (auto simp: moved_iff skip_bytes_def)
  then show ?thesis using l by (simp add: reads_node_def skip_bytes_def w add.assoc)
qed

end
