(* ===== verification/Cbor_Roundtrip.thy ===== *)
theory Cbor_Roundtrip
  imports Cbor_Reading
begin

text \<open>
  What the decoder makes of the bytes of the encoder: the value itself up to \<open>cbor_reload\<close>. Floating point numbers
  whose text has 20 to 23 characters and negative integers of eight bytes do not survive.
\<close>

section \<open>Structures\<close>

text \<open>The values that survive: what the codec can represent, without negative integers of eight bytes.\<close>

fun codable :: "(string \<Rightarrow> string option) \<Rightarrow> cbor \<Rightarrow> bool"
  and codable_items :: "(string \<Rightarrow> string option) \<Rightarrow> cbor list \<Rightarrow> bool"
  and codable_members :: "(string \<Rightarrow> string option) \<Rightarrow> (string \<times> cbor) list \<Rightarrow> bool" where
  "codable lc (COT_INT v) \<longleftrightarrow> - (2 ^ 32) \<le> v \<and> v < 2 ^ 63"
| "codable lc (COT_EXTRA_INT u is_positive) \<longleftrightarrow> is_positive \<or> uint u < 2 ^ 32"
| "codable lc (COT_STRING str) \<longleftrightarrow> length str < 2 ^ 31"
| "codable lc (COT_BYTES str) \<longleftrightarrow> length str < 2 ^ 31"
| "codable lc (COT_FLOAT t) \<longleftrightarrow> length t < 2 ^ 31 \<and> length t \<notin> {20..23} \<and> lc (c_str t) = Some t"
| "codable lc (COT_ARRAY vs) \<longleftrightarrow> length vs < 2 ^ 31 \<and> codable_items lc vs"
| "codable lc (COT_MAP m) \<longleftrightarrow> length m < 2 ^ 31 \<and> std_map_wf m \<and> codable_members lc m"
| "codable lc (COT_ERROR e) \<longleftrightarrow> False"
| "codable lc v \<longleftrightarrow> True"
| "codable_items lc [] \<longleftrightarrow> True"
| "codable_items lc (v # vs) \<longleftrightarrow> codable lc v \<and> codable_items lc vs"
| "codable_members lc [] \<longleftrightarrow> True"
| "codable_members lc ((k, v) # m) \<longleftrightarrow> length k < 2 ^ 31 \<and> codable lc v \<and> codable_members lc m"

definition resumed :: "cbor_decoder \<Rightarrow> cbor_node list \<Rightarrow> nat \<Rightarrow> int \<Rightarrow> cbor_addr option \<Rightarrow> cbor_decoder" where
  "resumed d1 xs off len key =
    d1\<lparr>d_heap := d_heap d1 @ xs, d_offset := off, d_currentLength := len, d_state := STATE_TYPE, d_map_key_temp := key\<rparr>"

definition resumes :: "(string \<Rightarrow> string option) \<Rightarrow> cbor_decoder \<Rightarrow> cbor_decoder \<Rightarrow> nat \<Rightarrow> cbor_node list \<Rightarrow> bool" where
  "resumes lc d d1 k xs \<longleftrightarrow> (\<exists>len key. decode_loop lc d = decode_loop lc (resumed d1 xs (d_offset d + k) len key) \<and>
     (\<forall>c. key = Some c \<longrightarrow> c < length (d_heap d1 @ xs)))"

text \<open>The objects \<open>xs\<close>, made from address \<open>a\<close> on, hold the value \<open>v\<close>.\<close>

definition holds :: "cbor_addr \<Rightarrow> cbor_node list \<Rightarrow> cbor \<Rightarrow> bool" where
  "holds a xs v \<longleftrightarrow> (\<forall>H ys. length H = a \<longrightarrow> cbor_at (H @ xs @ ys) a = v)"

definition decodes :: "(string \<Rightarrow> string option) \<Rightarrow> cbor \<Rightarrow> bool" where
  "decodes lc v \<longleftrightarrow> (\<forall>d d1 bs. write_cbor_object v = Inr bs \<longrightarrow> pointers_ok d \<longrightarrow> d_state d = STATE_TYPE \<longrightarrow> at_bytes d bs \<longrightarrow>
     link_value (length (d_heap d)) d = (Inr (), d1) \<longrightarrow> d_iter_in_map_key d1 \<longrightarrow>
     (\<exists>xs. resumes lc d d1 (length bs) xs \<and> holds (length (d_heap d)) xs (cbor_reload v)))"

lemma decodesD:
  "decodes lc v \<Longrightarrow> write_cbor_object v = Inr bs \<Longrightarrow> pointers_ok d \<Longrightarrow> d_state d = STATE_TYPE \<Longrightarrow> at_bytes d bs \<Longrightarrow>
    link_value (length (d_heap d)) d = (Inr (), d1) \<Longrightarrow> d_iter_in_map_key d1 \<Longrightarrow>
    \<exists>xs. resumes lc d d1 (length bs) xs \<and> holds (length (d_heap d)) xs (cbor_reload v)"
  unfolding decodes_def by blast

lemma holds_value: "holds a [Node_value w] w"
  by (auto simp: holds_def cbor_at.simps nth_append)

lemma reads_value_resumes:
  assumes "pointers_ok d" "link_value (length (d_heap d)) d = (Inr (), d1)" "reads_node lc d d1 k (Node_value w)"
  shows "resumes lc d d1 k [Node_value w]"
proof -
  note f = link_value_frame(2,4) [OF assms(1,2)]
  obtain len where l: "decode_loop lc d = decode_loop lc (after_node d1 (Node_value w) (d_offset d + k) len)"
    using assms(3) by (auto simp: reads_node_def)
  have "after_node d1 (Node_value w) (d_offset d + k) len = resumed d1 [Node_value w] (d_offset d + k) len (d_map_key_temp d1)"
    by (simp add: after_node_def resumed_def push_structure_def)
  moreover have "c < length (d_heap d1 @ [Node_value w])" if "d_map_key_temp d1 = Some c" for c
    using f assms(1) that by (auto simp: pointers_ok_def intro: less_SucI dest: sym)
  ultimately show ?thesis unfolding resumes_def using l by metis
qed

lemma decodes_value:
  assumes "\<And>d d1 bs. write_cbor_object v = Inr bs \<Longrightarrow> pointers_ok d \<Longrightarrow> link_value (length (d_heap d)) d = (Inr (), d1) \<Longrightarrow>
    d_state d = STATE_TYPE \<Longrightarrow> at_bytes d bs \<Longrightarrow> reads_node lc d d1 (length bs) (Node_value (cbor_reload v))"
  shows "decodes lc v"
  unfolding decodes_def using reads_value_resumes [of _ _ lc _ "cbor_reload v"] assms holds_value by blast


lemma after_key:
  "pointers_ok d \<Longrightarrow> link_value (length (d_heap d)) d = (Inr (), d1) \<Longrightarrow> (\<And>c. key = Some c \<Longrightarrow> c < length (d_heap d1 @ xs)) \<Longrightarrow>
    pointers_ok (resumed d1 xs off len key)"
  using link_value_frame(2,3) [of d "length (d_heap d)" d1] unfolding pointers_ok_def resumed_def by fastforce

text \<open>The items of an open array.\<close>

lemma decode_items:
  assumes "\<forall>v \<in> set vs. decodes lc v" "vs \<noteq> []" "write_items vs = Inr bs" "pointers_ok d" "d_state d = STATE_TYPE" "at_bytes d bs"
    and "d_iter_in_map_key d" "d_structures_stack d = st @ [p]" "d_heap d ! p = Node_array ps n" "unat n = length ps + length vs"
  shows "\<exists>xs cs len key. decode_loop lc d = decode_loop lc (d\<lparr>d_heap := (d_heap d)[p := Node_array (ps @ cs) n] @ xs,
      d_offset := d_offset d + length bs, d_structures_stack := st, d_currentLength := len, d_map_key_temp := key\<rparr>) \<and>
    (\<forall>c. key = Some c \<longrightarrow> c < length (d_heap d @ xs)) \<and> (\<forall>c \<in> set cs. length (d_heap d) \<le> c) \<and>
    (\<forall>H ys. length H = length (d_heap d) \<longrightarrow> map (cbor_at (H @ xs @ ys)) cs = map cbor_reload vs)"
  using assms
proof (induction vs arbitrary: ps bs d)
  case (Cons v vs)
  let ?a = "length (d_heap d)"
  obtain b1 b2 where b: "write_cbor_object v = Inr b1" "write_items vs = Inr b2" "bs = b1 @ b2"
    using Cons.prems(3) by (auto simp: ebind_eq_Inr)
  have p: "p < length (d_heap d)" using Cons.prems(4,8) by (simp add: pointers_ok_def)
  let ?d1 = "d\<lparr>d_heap := (d_heap d)[p := Node_array (ps @ [?a]) n], d_structures_stack := if vs = [] then st else st @ [p]\<rparr>"
  have link: "link_value ?a d = (Inr (), ?d1)"
    using Cons.prems(8-10) by (auto simp: link_value_def Let_def set_node_def pop_structure_def)
  obtain x1 where x1: "resumes lc d ?d1 (length b1) x1" "holds ?a x1 (cbor_reload v)"
    using decodesD [of lc v b1 d ?d1] Cons.prems(1,4,5,6,7) b link by (auto simp: at_bytes_append)
  then obtain len key where e: "decode_loop lc d = decode_loop lc (resumed ?d1 x1 (d_offset d + length b1) len key)"
      "\<forall>c. key = Some c \<longrightarrow> c < length (d_heap ?d1 @ x1)"
    by (auto simp: resumes_def)
  show ?case
  proof (cases "vs = []")
    case True
    then have "b2 = []" using b(2) by simp
    then have "resumed ?d1 x1 (d_offset d + length b1) len key = d\<lparr>d_heap := (d_heap d)[p := Node_array (ps @ [?a]) n] @ x1,
        d_offset := d_offset d + length bs, d_structures_stack := st, d_currentLength := len, d_map_key_temp := key\<rparr>"
      using True b(3) Cons.prems(5) by (intro cbor_decoder.equality) (simp_all add: resumed_def)
    then show ?thesis
      using e x1(2) True unfolding holds_def
      by (intro exI [of _ x1] exI [of _ "[?a]"] exI [of _ len] exI [of _ key]) simp
  next
    case False
    let ?e = "resumed ?d1 x1 (d_offset d + length b1) len key"
    have ok: "pointers_ok ?e" by (rule after_key [OF Cons.prems(4) link]) (use e(2) in blast)
    have at: "at_bytes ?e b2"
      using Cons.prems(6) b(3) at_bytes_same [of ?e "skip_bytes (length b1) d"] by (simp add: at_bytes_append resumed_def skip_bytes_def)
    have h: "d_heap ?e ! p = Node_array (ps @ [?a]) n" "length (d_heap ?e) = ?a + length x1"
      using p by (simp_all add: resumed_def nth_append)
    obtain x2 cs len' key' where r: "decode_loop lc ?e = decode_loop lc (?e\<lparr>d_heap := (d_heap ?e)[p := Node_array ((ps @ [?a]) @ cs) n] @ x2,
        d_offset := d_offset ?e + length b2, d_structures_stack := st, d_currentLength := len', d_map_key_temp := key'\<rparr>)"
        "\<forall>c. key' = Some c \<longrightarrow> c < length (d_heap ?e @ x2)" "\<forall>c \<in> set cs. length (d_heap ?e) \<le> c"
        "\<And>H ys. length H = length (d_heap ?e) \<Longrightarrow> map (cbor_at (H @ x2 @ ys)) cs = map cbor_reload vs"
      using Cons.IH [OF _ False b(2) ok _ at, of "ps @ [?a]"] Cons.prems(1,7,10) h(1) False by (auto simp: resumed_def)
    have "map (cbor_at (H @ (x1 @ x2) @ ys)) (?a # cs) = map cbor_reload (v # vs)" if "length H = ?a" for H ys
      using r(4) [of "H @ x1" ys] x1(2) that h(2) by (simp add: holds_def)
    moreover have "?e\<lparr>d_heap := (d_heap ?e)[p := Node_array ((ps @ [?a]) @ cs) n] @ x2, d_offset := d_offset ?e + length b2,
        d_structures_stack := st, d_currentLength := len', d_map_key_temp := key'\<rparr> =
      d\<lparr>d_heap := (d_heap d)[p := Node_array (ps @ (?a # cs)) n] @ (x1 @ x2),
        d_offset := d_offset d + length bs, d_structures_stack := st, d_currentLength := len', d_map_key_temp := key'\<rparr>"
      using p b(3) Cons.prems(5) by (intro cbor_decoder.equality) (simp_all add: resumed_def list_update_append)
    ultimately show ?thesis
      using e(1) r(1-3) h(2) by (intro exI [of _ "x1 @ x2"] exI [of _ "?a # cs"] exI [of _ len'] exI [of _ key']) auto
  qed
qed simp


lemma cbor_reload_list_map: "cbor_reload_list vs = map cbor_reload vs"
  by (induction vs) simp_all

text \<open>A structure is opened, and closed after its last item.\<close>

definition opens :: "cbor_node \<Rightarrow> bool" where
  "opens n \<longleftrightarrow> (case n of Node_value v \<Rightarrow> False | Node_array xs k \<Rightarrow> 0 < k | Node_map m k \<Rightarrow> 0 < k)"

lemma after_opened:
  assumes "opens n"
  shows "after_node d1 n off len = d1\<lparr>d_heap := d_heap d1 @ [n], d_structures_stack := d_structures_stack d1 @ [length (d_heap d1)],
    d_offset := off, d_currentLength := len, d_state := STATE_TYPE\<rparr>"
  using assms by (cases n) (auto simp: after_node_def push_structure_def opens_def intro!: cbor_decoder.equality)

lemma after_not_opened:
  assumes "\<not> opens n"
  shows "after_node d1 n off len = resumed d1 [n] off len (d_map_key_temp d1)"
  using assms by (simp add: after_node_def push_structure_def resumed_def opens_def split: cbor_node.splits)

lemma key_bound:
  "pointers_ok d \<Longrightarrow> link_value (length (d_heap d)) d = (Inr (), d1) \<Longrightarrow> d_map_key_temp d1 = Some c \<Longrightarrow> c < Suc (length (d_heap d1))"
  using link_value_frame(2,4) [of d "length (d_heap d)" d1] by (auto simp: pointers_ok_def intro: less_SucI dest: sym)

lemma opened_state:
  assumes ok: "pointers_ok d" "link_value (length (d_heap d)) d = (Inr (), d1)" and n: "opens n"
    and e: "e = after_node d1 n (d_offset d + k) len"
  shows "pointers_ok e" "d_state e = STATE_TYPE" "at_bytes e bs = at_bytes (skip_bytes k d) bs" "d_iter_in_map_key e = d_iter_in_map_key d1"
    "d_structures_stack e = d_structures_stack d1 @ [length (d_heap d)]" "d_heap e ! length (d_heap d) = n"
    "length (d_heap e) = Suc (length (d_heap d))"
proof -
  note fr = link_value_frame(2,3,5) [OF ok]
  show "pointers_ok e"
    using fr(1,2) ok(1) key_bound [OF ok] unfolding e after_opened [OF n] by (fastforce simp: pointers_ok_def)
  show "at_bytes e bs = at_bytes (skip_bytes k d) bs"
    using fr(3) by (intro at_bytes_same) (simp_all add: e after_opened [OF n] skip_bytes_def)
  have "d_heap e ! length (d_heap d1) = n" by (simp add: e after_opened [OF n])
  then show "d_heap e ! length (d_heap d) = n" by (simp add: fr(1))
qed (use link_value_frame(2) [OF ok] in \<open>simp_all add: e after_opened [OF n]\<close>)

lemma resumes_closed:
  assumes ok: "pointers_ok d" "link_value (length (d_heap d)) d = (Inr (), d1)" and n: "opens n"
    and e: "e = after_node d1 n (d_offset d + k) len"
    and l: "decode_loop lc d = decode_loop lc e" "decode_loop lc e = decode_loop lc (e\<lparr>d_heap := (d_heap e)[length (d_heap d) := n'] @ xs,
      d_offset := d_offset e + k', d_structures_stack := d_structures_stack d1, d_currentLength := len', d_map_key_temp := key\<rparr>)"
    and key: "\<forall>c. key = Some c \<longrightarrow> c < length (d_heap e @ xs)"
  shows "resumes lc d d1 (k + k') (n' # xs)"
proof -
  note a = link_value_frame(2) [OF ok]
  have "(d_heap d1 @ [n])[length (d_heap d1) := n'] = d_heap d1 @ [n']" by (simp add: list_update_append)
  then have "e\<lparr>d_heap := (d_heap e)[length (d_heap d) := n'] @ xs, d_offset := d_offset e + k', d_structures_stack := d_structures_stack d1,
      d_currentLength := len', d_map_key_temp := key\<rparr> = resumed d1 (n' # xs) (d_offset d + (k + k')) len' key"
    by (intro cbor_decoder.equality) (simp_all add: e after_opened [OF n] resumed_def flip: a)
  then show ?thesis unfolding resumes_def using l key by (auto simp: e after_opened [OF n])
qed

lemma decodes_array:
  assumes "length vs < 2 ^ 31" "\<forall>v \<in> set vs. decodes lc v"
  shows "decodes lc (COT_ARRAY vs)"
  unfolding decodes_def
proof (intro allI impI)
  fix d d1 bs
  assume w: "write_cbor_object (COT_ARRAY vs) = Inr bs" and ok: "pointers_ok d" "d_state d = STATE_TYPE" "at_bytes d bs"
    "link_value (length (d_heap d)) d = (Inr (), d1)" "d_iter_in_map_key d1"
  let ?a = "length (d_heap d)" and ?n = "word_of_nat (length vs) :: u32" and ?k = "length (write_array (length vs))"
  obtain b2 where b: "write_items vs = Inr b2" "bs = write_array (length vs) @ b2" using w by (auto simp: ebind_eq_Inr)
  have n: "unat ?n = length vs" using assms(1) by (simp add: unat_of_nat)
  then have n0: "opens (Node_array [] ?n) \<longleftrightarrow> vs \<noteq> []" by (simp add: opens_def word_less_nat_alt)
  have at: "at_bytes d (write_array (length vs))" "at_bytes (skip_bytes ?k d) b2"
    using ok(3) b(2) by (simp_all add: at_bytes_append)
  obtain len where l: "decode_loop lc d = decode_loop lc (after_node d1 (Node_array [] ?n) (d_offset d + ?k) len)"
    using reads_array [OF ok(1,4,2) at(1) [unfolded write_array_def]] by (auto simp: reads_node_def write_array_def)
  show "\<exists>xs. resumes lc d d1 (length bs) xs \<and> holds ?a xs (cbor_reload (COT_ARRAY vs))"
  proof (cases "vs = []")
    case True
    then have "resumes lc d d1 (length bs) [Node_array [] ?n]"
      unfolding resumes_def using l key_bound [OF ok(1,4)] after_not_opened n0 b by auto
    moreover have "holds ?a [Node_array [] ?n] (cbor_reload (COT_ARRAY vs))"
      using True by (auto simp: holds_def cbor_at.simps nth_append)
    ultimately show ?thesis by blast
  next
    case False
    define e where "e = after_node d1 (Node_array [] ?n) (d_offset d + ?k) len"
    note os = opened_state [OF ok(1,4) n0 [THEN iffD2, OF False] e_def]
    obtain xs cs len' key' where r: "decode_loop lc e = decode_loop lc (e\<lparr>d_heap := (d_heap e)[?a := Node_array cs ?n] @ xs,
        d_offset := d_offset e + length b2, d_structures_stack := d_structures_stack d1, d_currentLength := len', d_map_key_temp := key'\<rparr>)"
        "\<forall>c. key' = Some c \<longrightarrow> c < length (d_heap e @ xs)" "\<forall>c \<in> set cs. length (d_heap e) \<le> c"
        "\<And>H ys. length H = length (d_heap e) \<Longrightarrow> map (cbor_at (H @ xs @ ys)) cs = map cbor_reload vs"
      using decode_items [OF assms(2) False b(1) os(1,2) _ _ os(5,6)] at(2) os(3,4) ok(5) n by auto
    have "resumes lc d d1 (length bs) (Node_array cs ?n # xs)"
      using resumes_closed [OF ok(1,4) n0 [THEN iffD2, OF False] e_def _ r(1,2)] l b(2) by (simp add: e_def)
    moreover have "holds ?a (Node_array cs ?n # xs) (cbor_reload (COT_ARRAY vs))"
      unfolding holds_def
    proof (intro allI impI)
      fix H ys :: "cbor_node list"
      assume h: "length H = ?a"
      have "cbor_at (H @ (Node_array cs ?n # xs) @ ys) ?a
          = COT_ARRAY (map (\<lambda>c. if ?a < c then cbor_at (H @ (Node_array cs ?n # xs) @ ys) c else COT_NULL) cs)"
        using h by (subst cbor_at.simps) (simp add: nth_append)
      also have "map (\<lambda>c. if ?a < c then cbor_at (H @ (Node_array cs ?n # xs) @ ys) c else COT_NULL) cs
          = map (cbor_at ((H @ [Node_array cs ?n]) @ xs @ ys)) cs"
        using r(3) os(7) by auto
      also have "\<dots> = map cbor_reload vs" using h os(7) by (intro r(4)) simp
      finally show "cbor_at (H @ (Node_array cs ?n # xs) @ ys) ?a = cbor_reload (COT_ARRAY vs)"
        by (simp add: cbor_reload_list_map)
    qed
    ultimately show ?thesis by blast
  qed
qed


text \<open>The members of an open map: first the key, then the value.\<close>

lemma link_key:
  assumes "d_iter_in_map_key d" "d_structures_stack d = st @ [p]" "d_heap d ! p = Node_map q n"
  shows "link_value a d = (Inr (), d\<lparr>d_map_key_temp := Some a, d_iter_in_map_key := False\<rparr>)"
  using assms by (simp add: link_value_def Let_def)

lemma link_member:
  assumes "\<not> d_iter_in_map_key d" "d_structures_stack d = st @ [p]" "d_heap d ! p = Node_map q n" "map_key d = Inr k"
    "std_map_wf (q @ [(k, a)])" "unat n = length q + Suc r"
  shows "link_value a d = (Inr (), d\<lparr>d_heap := (d_heap d)[p := Node_map (q @ [(k, a)]) n],
    d_structures_stack := if r = 0 then st else st @ [p], d_iter_in_map_key := True\<rparr>)"
  using assms(1-4,6) std_map_set_append [OF assms(5)] by (auto simp: link_value_def Let_def set_node_def pop_structure_def)

lemma decode_key:
  assumes ok: "pointers_ok d" "d_state d = STATE_TYPE" "at_bytes d (write_string k)" "d_iter_in_map_key d"
    "d_structures_stack d = st @ [p]" "d_heap d ! p = Node_map q n" and k: "length k < 2 ^ 31"
  obtains e where "decode_loop lc d = decode_loop lc e" "pointers_ok e" "d_state e = STATE_TYPE" "map_key e = Inr k"
    "d_heap e = d_heap d @ [Node_value (COT_STRING k)]" "d_offset e = d_offset d + length (write_string k)"
    "d_data e = d_data d" "d_structures_stack e = st @ [p]" "\<not> d_iter_in_map_key e" "d_result e = d_result d"
proof -
  let ?d1 = "d\<lparr>d_map_key_temp := Some (length (d_heap d)), d_iter_in_map_key := False\<rparr>"
  have "link_value (length (d_heap d)) d = (Inr (), ?d1)" by (rule link_key [OF ok(4-6)])
  then obtain len where l: "decode_loop lc d = decode_loop lc (after_node ?d1 (Node_value (COT_STRING k)) (d_offset d + length (write_string k)) len)"
    using reads_text(1) [OF ok(1) _ ok(2) k ok(3), of ?d1 lc] by (auto simp: reads_node_def)
  have "after_node ?d1 (Node_value (COT_STRING k)) (d_offset d + length (write_string k)) len
      = resumed ?d1 [Node_value (COT_STRING k)] (d_offset d + length (write_string k)) len (Some (length (d_heap d)))"
    by (simp add: after_not_opened opens_def)
  then show ?thesis
    using l ok(1,5) by (intro that [of "resumed ?d1 [Node_value (COT_STRING k)] (d_offset d + length (write_string k)) len (Some (length (d_heap d)))"])
      (auto simp: resumed_def pointers_ok_def map_key_def less_SucI)
qed

lemma decode_members:
  assumes "\<forall>x \<in> set m. decodes lc (snd x)" "\<forall>x \<in> set m. length (fst x) < 2 ^ 31" "m \<noteq> []" "write_members m = Inr bs"
    and "pointers_ok d" "d_state d = STATE_TYPE" "at_bytes d bs" "d_iter_in_map_key d" "d_structures_stack d = st @ [p]"
    and "d_heap d ! p = Node_map q n" "unat n = length q + length m" "sorted_wrt (<) (map fst q @ map fst m)"
  shows "\<exists>xs cs len key. decode_loop lc d = decode_loop lc (d\<lparr>d_heap := (d_heap d)[p := Node_map (q @ zip (map fst m) cs) n] @ xs,
      d_offset := d_offset d + length bs, d_structures_stack := st, d_currentLength := len, d_map_key_temp := key\<rparr>) \<and>
    (\<forall>c. key = Some c \<longrightarrow> c < length (d_heap d @ xs)) \<and> (\<forall>c \<in> set cs. length (d_heap d) \<le> c) \<and> length cs = length m \<and>
    (\<forall>H ys. length H = length (d_heap d) \<longrightarrow> map (cbor_at (H @ xs @ ys)) cs = map (\<lambda>x. cbor_reload (snd x)) m)"
  using assms
proof (induction m arbitrary: q bs d)
  case (Cons x m)
  obtain k v where x: "x = (k, v)" by fastforce
  obtain b1 b2 where b: "write_cbor_object v = Inr b1" "write_members m = Inr b2" "bs = write_string k @ b1 @ b2"
    using Cons.prems(4) by (auto simp: ebind_eq_Inr x)
  have p: "p < length (d_heap d)" using Cons.prems(5,9) by (simp add: pointers_ok_def)
  have at: "at_bytes d (write_string k)" "at_bytes (skip_bytes (length (write_string k)) d) (b1 @ b2)"
    using Cons.prems(7) at_bytes_append [of d "write_string k" "b1 @ b2"] b(3) by simp_all
  obtain e where e: "decode_loop lc d = decode_loop lc e" "pointers_ok e" "d_state e = STATE_TYPE" "map_key e = Inr k"
      "d_heap e = d_heap d @ [Node_value (COT_STRING k)]" "d_offset e = d_offset d + length (write_string k)"
      "d_data e = d_data d" "d_structures_stack e = st @ [p]" "\<not> d_iter_in_map_key e" "d_result e = d_result d"
    using decode_key [OF Cons.prems(5,6) at(1) Cons.prems(8-10)] Cons.prems(2) x by auto
  let ?a = "length (d_heap e)"
  have heap: "d_heap e ! p = Node_map q n" using p Cons.prems(10) e(5) by (simp add: nth_append)
  have wf: "std_map_wf (q @ [(k, ?a)])" using Cons.prems(12) x by (simp add: std_map_wf_def sorted_wrt_append)
  let ?d1 = "e\<lparr>d_heap := (d_heap e)[p := Node_map (q @ [(k, ?a)]) n], d_structures_stack := if length m = 0 then st else st @ [p], d_iter_in_map_key := True\<rparr>"
  have link: "link_value ?a e = (Inr (), ?d1)"
    by (rule link_member [OF e(9,8) heap e(4) wf]) (use Cons.prems(11) in simp)
  have "at_bytes e (b1 @ b2)"
    using at(2) at_bytes_same [of e "skip_bytes (length (write_string k)) d"] e(6,7) by (simp add: skip_bytes_def)
  then have at': "at_bytes e b1" "at_bytes (skip_bytes (length b1) e) b2" by (simp_all add: at_bytes_append)
  obtain x1 where x1: "resumes lc e ?d1 (length b1) x1" "holds ?a x1 (cbor_reload v)"
    using decodesD [OF _ b(1) e(2,3) at'(1) link] Cons.prems(1) x by auto
  then obtain len key where f: "decode_loop lc e = decode_loop lc (resumed ?d1 x1 (d_offset e + length b1) len key)"
      "\<forall>c. key = Some c \<longrightarrow> c < length (d_heap ?d1 @ x1)"
    by (auto simp: resumes_def)
  let ?f = "resumed ?d1 x1 (d_offset e + length b1) len key" and ?x = "Node_value (COT_STRING k) # x1"
  have first: "cbor_at (H @ (?x @ x2) @ ys) ?a = cbor_reload v" if "length H = length (d_heap d)" for H ys x2
    using x1(2) [unfolded holds_def, rule_format, of "H @ [Node_value (COT_STRING k)]" "x2 @ ys"] that e(5) by simp
  show ?case
  proof (cases "m = []")
    case True
    then have "b2 = []" using b(2) by simp
    then have "?f = d\<lparr>d_heap := (d_heap d)[p := Node_map (q @ zip (map fst (x # m)) [?a]) n] @ ?x,
        d_offset := d_offset d + length bs, d_structures_stack := st, d_currentLength := len, d_map_key_temp := key\<rparr>"
      using True b(3) Cons.prems(6,8) e(5-10) p x by (intro cbor_decoder.equality) (simp_all add: resumed_def list_update_append)
    then show ?thesis
      using e(1,5) f True first [of _ "[]"] x by (intro exI [of _ ?x] exI [of _ "[?a]"] exI [of _ len] exI [of _ key]) auto
  next
    case False
    have ok: "pointers_ok ?f" by (rule after_key [OF e(2) link]) (use f(2) in blast)
    have at2: "at_bytes ?f b2" using at'(2) at_bytes_same [of ?f "skip_bytes (length b1) e"] by (simp add: resumed_def skip_bytes_def)
    have h: "d_heap ?f ! p = Node_map (q @ [(k, ?a)]) n" "length (d_heap ?f) = length (d_heap d) + length ?x"
      using p e(5) by (simp_all add: resumed_def nth_append)
    obtain x2 cs len' key' where r: "decode_loop lc ?f = decode_loop lc (?f\<lparr>d_heap := (d_heap ?f)[p := Node_map ((q @ [(k, ?a)]) @ zip (map fst m) cs) n] @ x2,
        d_offset := d_offset ?f + length b2, d_structures_stack := st, d_currentLength := len', d_map_key_temp := key'\<rparr>)"
        "\<forall>c. key' = Some c \<longrightarrow> c < length (d_heap ?f @ x2)" "\<forall>c \<in> set cs. length (d_heap ?f) \<le> c" "length cs = length m"
        "\<And>H ys. length H = length (d_heap ?f) \<Longrightarrow> map (cbor_at (H @ x2 @ ys)) cs = map (\<lambda>x. cbor_reload (snd x)) m"
      using Cons.IH [OF _ _ False b(2) ok _ at2, of "q @ [(k, ?a)]"] Cons.prems(1,2,11,12) h(1) False x by (auto simp: resumed_def)
    have "map (cbor_at (H @ (?x @ x2) @ ys)) (?a # cs) = map (\<lambda>x. cbor_reload (snd x)) (x # m)" if "length H = length (d_heap d)" for H ys
      using r(5) [of "H @ ?x" ys] first [OF that] that h(2) x by simp
    moreover have "?f\<lparr>d_heap := (d_heap ?f)[p := Node_map ((q @ [(k, ?a)]) @ zip (map fst m) cs) n] @ x2, d_offset := d_offset ?f + length b2,
        d_structures_stack := st, d_currentLength := len', d_map_key_temp := key'\<rparr> =
      d\<lparr>d_heap := (d_heap d)[p := Node_map (q @ zip (map fst (x # m)) (?a # cs)) n] @ (?x @ x2),
        d_offset := d_offset d + length bs, d_structures_stack := st, d_currentLength := len', d_map_key_temp := key'\<rparr>"
      using p b(3) Cons.prems(6,8) e(5-10) x by (intro cbor_decoder.equality) (simp_all add: resumed_def list_update_append)
    ultimately show ?thesis
      using e(1,5) f(1) r(1-4) h(2) by (intro exI [of _ "?x @ x2"] exI [of _ "?a # cs"] exI [of _ len'] exI [of _ key']) auto
  qed
qed simp


lemma cbor_reload_members_map: "cbor_reload_members m = map (\<lambda>x. (fst x, cbor_reload (snd x))) m"
  by (induction m) auto

lemma decodes_map:
  assumes "length m < 2 ^ 31" "std_map_wf m" "\<forall>x \<in> set m. length (fst x) < 2 ^ 31" "\<forall>x \<in> set m. decodes lc (snd x)"
  shows "decodes lc (COT_MAP m)"
  unfolding decodes_def
proof (intro allI impI)
  fix d d1 bs
  assume w: "write_cbor_object (COT_MAP m) = Inr bs" and ok: "pointers_ok d" "d_state d = STATE_TYPE" "at_bytes d bs"
    "link_value (length (d_heap d)) d = (Inr (), d1)" "d_iter_in_map_key d1"
  let ?a = "length (d_heap d)" and ?n = "word_of_nat (length m) :: u32" and ?k = "length (write_map (length m))"
  obtain b2 where b: "write_members m = Inr b2" "bs = write_map (length m) @ b2" using w by (auto simp: ebind_eq_Inr)
  have n: "unat ?n = length m" using assms(1) by (simp add: unat_of_nat)
  then have n0: "opens (Node_map [] ?n) \<longleftrightarrow> m \<noteq> []" by (simp add: opens_def word_less_nat_alt)
  have at: "at_bytes d (write_map (length m))" "at_bytes (skip_bytes ?k d) b2"
    using ok(3) b(2) by (simp_all add: at_bytes_append)
  obtain len where l: "decode_loop lc d = decode_loop lc (after_node d1 (Node_map [] ?n) (d_offset d + ?k) len)"
    using reads_map [OF ok(1,4,2) at(1) [unfolded write_map_def]] by (auto simp: reads_node_def write_map_def)
  show "\<exists>xs. resumes lc d d1 (length bs) xs \<and> holds ?a xs (cbor_reload (COT_MAP m))"
  proof (cases "m = []")
    case True
    then have "resumes lc d d1 (length bs) [Node_map [] ?n]"
      unfolding resumes_def using l key_bound [OF ok(1,4)] after_not_opened n0 b by auto
    moreover have "holds ?a [Node_map [] ?n] (cbor_reload (COT_MAP m))"
      using True by (auto simp: holds_def cbor_at.simps nth_append)
    ultimately show ?thesis by blast
  next
    case False
    define e where "e = after_node d1 (Node_map [] ?n) (d_offset d + ?k) len"
    note os = opened_state [OF ok(1,4) n0 [THEN iffD2, OF False] e_def]
    obtain xs cs len' key' where r: "decode_loop lc e = decode_loop lc (e\<lparr>d_heap := (d_heap e)[?a := Node_map (zip (map fst m) cs) ?n] @ xs,
        d_offset := d_offset e + length b2, d_structures_stack := d_structures_stack d1, d_currentLength := len', d_map_key_temp := key'\<rparr>)"
        "\<forall>c. key' = Some c \<longrightarrow> c < length (d_heap e @ xs)" "\<forall>c \<in> set cs. length (d_heap e) \<le> c" "length cs = length m"
        "\<And>H ys. length H = length (d_heap e) \<Longrightarrow> map (cbor_at (H @ xs @ ys)) cs = map (\<lambda>x. cbor_reload (snd x)) m"
      using decode_members [OF assms(4,3) False b(1) os(1,2) _ _ os(5,6)] at(2) os(3,4) ok(5) n assms(2) by (auto simp: std_map_wf_def)
    let ?N = "Node_map (zip (map fst m) cs) ?n"
    have "resumes lc d d1 (length bs) (?N # xs)"
      using resumes_closed [OF ok(1,4) n0 [THEN iffD2, OF False] e_def _ r(1,2)] l b(2) by (simp add: e_def)
    moreover have "holds ?a (?N # xs) (cbor_reload (COT_MAP m))"
      unfolding holds_def
    proof (intro allI impI)
      fix H ys :: "cbor_node list"
      assume h: "length H = ?a"
      let ?at = "cbor_at (H @ (?N # xs) @ ys)"
      have "?at ?a = COT_MAP (map (\<lambda>(k, c). (k, if ?a < c then ?at c else COT_NULL)) (zip (map fst m) cs))"
        using h by (subst cbor_at.simps) (simp add: nth_append)
      also have "map (\<lambda>(k, c). (k, if ?a < c then ?at c else COT_NULL)) (zip (map fst m) cs)
          = zip (map fst m) (map (cbor_at ((H @ [?N]) @ xs @ ys)) cs)"
        using r(3) os(7) by (auto simp: zip_map2 dest!: set_zip_rightD)
      also have "map (cbor_at ((H @ [?N]) @ xs @ ys)) cs = map (\<lambda>x. cbor_reload (snd x)) m" using h os(7) by (intro r(5)) simp
      also have "zip (map fst m) (map (\<lambda>x. cbor_reload (snd x)) m) = map (\<lambda>x. (fst x, cbor_reload (snd x))) m"
        by (induction m) auto
      finally show "?at ?a = cbor_reload (COT_MAP m)" by (simp add: cbor_reload_members_map)
    qed
    ultimately show ?thesis by blast
  qed
qed

section \<open>Round trip\<close>

lemma codable_items_all: "codable_items lc vs \<longleftrightarrow> (\<forall>v \<in> set vs. codable lc v)"
  by (induction vs) auto

lemma codable_members_all: "codable_members lc m \<longleftrightarrow> (\<forall>x \<in> set m. length (fst x) < 2 ^ 31 \<and> codable lc (snd x))"
  by (induction m) auto

lemma decode_type_special:
  "decode_type 0xf4 = put_node (Node_value (COT_BOOL False))" "decode_type 0xf5 = put_node (Node_value (COT_BOOL True))"
  "decode_type 0xf6 = put_node (Node_value COT_NULL)" "decode_type 0xf7 = put_node (Node_value COT_UNDEFINED)"
  by (simp_all add: decode_type_def Let_def drop_bit_eq_div)

lemma write_int_cases:
  assumes "- (2 ^ 32) \<le> v" "v < 2 ^ 63"
  shows "v < 0 \<Longrightarrow> uint (word_of_int (- (v + 1)) :: u64) = - (v + 1)" "\<not> v < 0 \<Longrightarrow> uint (word_of_int v :: u64) = v"
proof -
  have w: "uint (word_of_int n :: u64) = n" if "0 \<le> n" "n < 2 ^ 63" for n
    using that by (simp add: unsigned_of_int take_bit_int_eq_self)
  show "v < 0 \<Longrightarrow> uint (word_of_int (- (v + 1)) :: u64) = - (v + 1)" by (rule w) (use assms in auto)
  show "\<not> v < 0 \<Longrightarrow> uint (word_of_int v :: u64) = v" by (rule w) (use assms in auto)
qed

lemma codable_decodes: "codable lc v \<Longrightarrow> decodes lc v"
proof (induction v)
  case COT_NULL
  show ?case by (rule decodes_value) (use reads_in_type decode_type_special in auto)
next
  case COT_UNDEFINED
  show ?case by (rule decodes_value) (use reads_in_type decode_type_special in auto)
next
  case (COT_BOOL b)
  show ?case by (rule decodes_value) (use reads_in_type decode_type_special in \<open>auto simp: write_bool_def\<close>)
next
  case (COT_INT v)
  show ?case
  proof (rule decodes_value)
    fix d d1 bs
    assume a: "write_cbor_object (COT_INT v) = Inr bs" "pointers_ok d" "link_value (length (d_heap d)) d = (Inr (), d1)"
      "d_state d = STATE_TYPE" "at_bytes d bs"
    show "reads_node lc d d1 (length bs) (Node_value (cbor_reload (COT_INT v)))"
    proof (cases "v < 0")
      case True
      then show ?thesis
        using a COT_INT write_int_cases(1) [of v] reads_nint [OF a(2-4), of "word_of_int (- (v + 1))" lc] by (auto simp: write_int_def)
    next
      case False
      then show ?thesis
        using a COT_INT write_int_cases(2) [of v] reads_pint [OF a(2-4), of "word_of_int v" lc] by (auto simp: write_int_def)
    qed
  qed
next
  case (COT_EXTRA_INT u is_positive)
  show ?case
    by (rule decodes_value) (use COT_EXTRA_INT reads_pint reads_nint in \<open>auto simp: write_int_u64_def write_neg_int_def\<close>)
next
  case (COT_FLOAT t)
  show ?case by (rule decodes_value) (use COT_FLOAT in \<open>auto intro!: reads_float\<close>)
next
  case (COT_TAG t)
  show ?case by (rule decodes_value) (auto intro!: reads_tag)
next
  case (COT_EXTRA_TAG t)
  show ?case by (rule decodes_value) (auto intro!: reads_tag)
next
  case (COT_STRING str)
  show ?case by (rule decodes_value) (use COT_STRING in \<open>auto intro!: reads_text\<close>)
next
  case (COT_BYTES str)
  show ?case by (rule decodes_value) (use COT_BYTES in \<open>auto intro!: reads_text\<close>)
next
  case (COT_ARRAY vs)
  then show ?case by (intro decodes_array) (simp_all add: codable_items_all)
next
  case (COT_MAP m)
  then show ?case by (intro decodes_map) (force simp: codable_members_all snds.simps)+
qed simp

lemma new_decoder_facts:
  "pointers_ok (new_decoder data)" "d_state (new_decoder data) = STATE_TYPE" "at_bytes (new_decoder data) data"
  "link_value 0 (new_decoder data) = (Inr (), (new_decoder data)\<lparr>d_result := Some 0\<rparr>)" "d_heap (new_decoder data) = []"
  "d_iter_in_map_key (new_decoder data)" "d_offset (new_decoder data) = 0" "d_data (new_decoder data) = data"
  by (simp_all add: new_decoder_def pointers_ok_def at_bytes_def link_value_def)

lemma loop_done:
  assumes "d_state d = STATE_TYPE" "length (d_data d) \<le> d_offset d"
  shows "decode_loop lc d = Some (Inr (), d)"
  using assms by (subst decode_loop.simps) (simp add: decode_turn_def has_bytes_def)

lemma decode_encoded:
  assumes "codable lc v" "write_cbor_object v = Inr bs"
  shows "decode_run lc bs = Some (Inr (cbor_reload v))"
proof -
  let ?d = "new_decoder bs" and ?d1 = "(new_decoder bs)\<lparr>d_result := Some 0\<rparr>"
  note nd = new_decoder_facts [of bs]
  obtain xs where xs: "resumes lc ?d ?d1 (length bs) xs" "holds 0 xs (cbor_reload v)"
    using decodesD [OF codable_decodes [OF assms(1)] assms(2) nd(1-3), of ?d1] nd by auto
  then obtain len key where l: "decode_loop lc ?d = decode_loop lc (resumed ?d1 xs (length bs) len key)"
    by (auto simp: resumes_def nd)
  let ?e = "resumed ?d1 xs (length bs) len key"
  have "decode_loop lc ?e = Some (Inr (), ?e)" by (rule loop_done) (simp_all add: resumed_def nd)
  moreover have "finish_decode (Inr (), ?e) = Inr (cbor_at xs 0)"
    by (simp add: finish_decode_def resumed_def new_decoder_def)
  moreover have "cbor_at xs 0 = cbor_reload v" using xs(2) unfolding holds_def by (metis append_Nil append_Nil2 list.size(3))
  ultimately show ?thesis using l by (simp add: decode_run_def)
qed

lemma codable_encodes: "codable lc v \<Longrightarrow> \<exists>bs. write_cbor_object v = Inr bs"
  "codable_items lc vs \<Longrightarrow> \<exists>bs. write_items vs = Inr bs" "codable_members lc m \<Longrightarrow> \<exists>bs. write_members m = Inr bs"
  by (induction lc v and lc vs and lc m rule: codable_codable_items_codable_members.induct) auto


section \<open>Values that do not survive\<close>

lemma loop_raises: "decode_turn lc d = (Inl e, d') \<Longrightarrow> decode_loop lc d = Some (Inl e, d')"
  by (subst decode_loop.simps) simp

lemma put_second:
  assumes "d_result d \<noteq> None" "d_structures_stack d = []"
  shows "\<exists>d'. put_node n d = (Inl (Cbor_decode_exception ''multiple cbor object when decoding''), d')"
  using assms by (simp add: put_node_def run_bind_def make_node_def put_decoded_value_def link_value_def)

text \<open>A byte of a digit or a minus sign is read as a negative number.\<close>

lemma digit_after_result:
  assumes d: "d_state d = STATE_TYPE" "d_result d \<noteq> None" "d_structures_stack d = []" and at: "at_bytes d (b # c # e # rest)"
    and b: "drop_bit 5 b = 1" "b AND 31 < 26"
  shows "\<exists>d'. decode_loop lc d = Some (Inl (Cbor_decode_exception ''multiple cbor object when decoding''), d')"
proof -
  have at1: "at_bytes d [b]" "at_bytes (skip_bytes 1 d) [c]" "at_bytes (skip_bytes 1 d) [c, e]"
    using at at_bytes_append [of d "[b]" "c # e # rest"] at_bytes_append [of "skip_bytes 1 d" "[c]" "e # rest"]
      at_bytes_append [of "skip_bytes 1 d" "[c, e]" rest] by simp_all
  have byte: "has_bytes d 1" "d_data d ! d_offset d = b"
    using at_bytes_has [OF at1(1)] at_bytes_nth [OF at1(1), of 0] by simp_all
  have number: "\<exists>d'. decode_loop lc d = Some (Inl (Cbor_decode_exception ''multiple cbor object when decoding''), d')"
    if e: "decode_type b = enter STATE_NINT (int (length bs))" "at_bytes (skip_bytes 1 d) bs"
      and act: "\<And>f. d_currentLength f = int (length bs) \<Longrightarrow> \<exists>n. decode_nint f = run_bind (put_node n) (\<lambda>_. set_state STATE_TYPE) (skip_bytes (length bs) f)" for bs
  proof -
    let ?f = "(skip_bytes 1 d)\<lparr>d_state := STATE_NINT, d_currentLength := int (length bs)\<rparr>"
    have "decode_type b (skip_bytes 1 d) = (Inr (), ?f)" unfolding e(1) by (simp add: enter_def run_update_def)
    then have l: "decode_loop lc d = decode_loop lc ?f" using type_turn [OF d(1) at1(1)] by blast
    obtain n where n: "decode_nint ?f = run_bind (put_node n) (\<lambda>_. set_state STATE_TYPE) (skip_bytes (length bs) ?f)" using act [of ?f] by auto
    obtain d' where "put_node n (skip_bytes (length bs) ?f) = (Inl (Cbor_decode_exception ''multiple cbor object when decoding''), d')"
      using put_second [of "skip_bytes (length bs) ?f" n] d by (auto simp: skip_bytes_def)
    moreover have "has_bytes ?f (int (length bs))" using at_bytes_has [of ?f bs] e(2) by simp
    ultimately have "decode_turn lc ?f = (Inl (Cbor_decode_exception ''multiple cbor object when decoding''), d')"
      using n by (simp add: decode_turn_def run_bind_def)
    then show ?thesis using l loop_raises by metis
  qed
  have "uint (b AND 31) < 26" using b(2) by (simp add: word_less_def)
  then consider "b AND 31 < 24" | "b AND 31 = 24" | "b AND 31 = 25"
    unfolding word_less_def word_uint_eq_iff by fastforce
  then show ?thesis
  proof cases
    case 1
    obtain d' where "put_node (Node_value (COT_INT (- 1 - uint (b AND 31)))) (skip_bytes 1 d)
        = (Inl (Cbor_decode_exception ''multiple cbor object when decoding''), d')"
      using put_second [of "skip_bytes 1 d"] d by (auto simp: skip_bytes_def)
    then have "decode_turn lc d = (Inl (Cbor_decode_exception ''multiple cbor object when decoding''), d')"
      using d(1) byte b(1) 1 by (simp add: decode_turn_def run_bind_def get_byte_def decode_type_def Let_def)
    then show ?thesis using loop_raises by blast
  next
    case 2
    then have "decode_type b = enter STATE_NINT 1" using b(1) by (simp add: decode_type_def Let_def enter_sized_def)
    then show ?thesis
      using at1(2) by (intro number [of "[c]"]) (auto simp: decode_nint_def switch_length_def get_byte_def run_bind_def [of get_byte])
  next
    case 3
    then have "decode_type b = enter STATE_NINT 2" using b(1) by (simp add: decode_type_def Let_def enter_sized_def)
    then show ?thesis
      using at1(3) by (intro number [of "[c, e]"]) (auto simp: decode_nint_def switch_length_def get_short_def run_bind_def [of get_short] numeral_2_eq_2)
  qed
qed


lemma float_size_byte:
  assumes "length t \<in> {20..23}"
  obtains w where "write_type_value32 7 (word_of_nat (length t)) = [type_byte 7 (word_of_nat (length t))]"
    "decode_type (type_byte 7 (word_of_nat (length t))) = put_node (Node_value w)"
proof -
  consider "length t = 20" | "length t = 21" | "length t = 22" | "length t = 23" using assms by fastforce
  then show ?thesis
    by cases (auto intro!: that simp: write_type_value32_def decode_type_def Let_def type_byte_parts)
qed

lemma digit_byte:
  assumes "c \<in> set ''-0123456789''"
  shows "drop_bit 5 (byte_of_char c) = 1" "byte_of_char c AND 31 < 26"
  using assms by (auto simp: byte_of_char_def drop_bit_eq_div)

lemma float_not_decoded:
  assumes t: "length t \<in> {20..23}" "hd t \<in> set ''-0123456789''"
  shows "decode_run lc (write_float64 t) = Some (Inl (Cbor_decode_exception ''multiple cbor object when decoding''))"
proof -
  let ?bs = "write_float64 t" and ?b = "type_byte 7 (word_of_nat (length t))"
  let ?d = "new_decoder ?bs" and ?d1 = "(new_decoder ?bs)\<lparr>d_result := Some 0\<rparr>"
  note nd = new_decoder_facts [of ?bs]
  obtain w where w: "write_type_value32 7 (word_of_nat (length t)) = [?b]" "decode_type ?b = put_node (Node_value w)"
    by (rule float_size_byte [OF t(1)])
  have "3 \<le> length t" using t(1) by simp
  then obtain c1 c2 c3 cs where c: "t = c1 # c2 # c3 # cs" by (auto simp: numeral_3_eq_3 Suc_le_length_iff)
  obtain rest where bs: "?bs = [?b] @ byte_of_char c1 # byte_of_char c2 # byte_of_char c3 # rest"
    using w(1) by (simp add: write_float64_def write_type_double_def c)
  have "at_bytes ?d ([?b] @ byte_of_char c1 # byte_of_char c2 # byte_of_char c3 # rest)" by (subst bs [symmetric]) (rule nd(3))
  then have at: "at_bytes ?d [?b]" "at_bytes (skip_bytes 1 ?d) (byte_of_char c1 # byte_of_char c2 # byte_of_char c3 # rest)"
    unfolding at_bytes_append by simp_all
  obtain len where l: "decode_loop lc ?d = decode_loop lc (after_node ?d1 (Node_value w) 1 len)"
    using reads_in_type [OF nd(1) _ nd(2) at(1) w(2), of ?d1 lc] nd(4,5,7) by (auto simp: reads_node_def)
  define e where "e = after_node ?d1 (Node_value w) 1 len"
  have e: "d_data e = ?bs" "d_offset e = 1" "d_state e = STATE_TYPE" "d_result e \<noteq> None" "d_structures_stack e = []"
    by (simp_all add: e_def after_not_opened opens_def resumed_def new_decoder_def)
  have "at_bytes e (byte_of_char c1 # byte_of_char c2 # byte_of_char c3 # rest)"
    using at(2) at_bytes_same [of e "skip_bytes 1 ?d"] e(1,2) by (simp add: skip_bytes_def nd(7,8))
  then obtain d' where "decode_loop lc e = Some (Inl (Cbor_decode_exception ''multiple cbor object when decoding''), d')"
    using digit_after_result [OF e(3-5), of "byte_of_char c1" "byte_of_char c2" "byte_of_char c3" rest lc] digit_byte [of c1] t(2) c
    by auto
  then show ?thesis using l by (simp add: decode_run_def finish_decode_def e_def)
qed

text \<open>
  After a negative integer of eight bytes the decoder is still in \<^verbatim>\<open>STATE_NINT\<close>. When fewer than eight bytes are left, the loop ends.
\<close>

lemma big_negative_not_decoded:
  assumes n: "- (2 ^ 63) \<le> n" "n < - (2 ^ 32)" and v: "write_cbor_object v = Inr b" "length b < 8"
    and bs: "write_cbor_object (COT_ARRAY [COT_INT n, v]) = Inr bs"
  shows "decode_run lc bs = Some (Inl (Cbor_decode_exception ''cbor decode fail with not finished structures''))"
proof -
  let ?u = "word_of_int (- (n + 1)) :: u64"
  have u: "uint ?u = - (n + 1)" using n unfolding uint_word_of_int by (intro mod_pos_pos_trivial) auto
  let ?ub = "[ucast (drop_bit 56 ?u), ucast (drop_bit 48 ?u), ucast (drop_bit 40 ?u), ucast (drop_bit 32 ?u), ucast (drop_bit 24 ?u),
    ucast (drop_bit 16 ?u), ucast (drop_bit 8 ?u), ucast ?u] :: u8 list"
  have big: "\<not> ?u < 4294967296" "\<not> ?u < 65536" "\<not> ?u < 256" "\<not> ?u < 24" using n unfolding word_less_def u by simp_all
  have "n < 0" using n(2) by simp
  then have "write_int n = type_byte 1 27 # ?ub" unfolding write_int_def write_type_value64_def using big by (simp only: if_True if_False)
  then have bytes: "bs = write_type_value32 4 2 @ type_byte 1 27 # ?ub @ b" using bs v(1) by (simp add: write_array_def)
  let ?d = "new_decoder bs" and ?d1 = "(new_decoder bs)\<lparr>d_result := Some 0\<rparr>"
  note nd = new_decoder_facts [of bs]
  let ?k = "length (write_type_value32 4 2)"
  have at: "at_bytes ?d (write_type_value32 4 2)" "at_bytes (skip_bytes ?k ?d) (type_byte 1 27 # ?ub)"
    using nd(3) at_bytes_append [of ?d "write_type_value32 4 2" "(type_byte 1 27 # ?ub) @ b"]
      at_bytes_append [of "skip_bytes ?k ?d" "type_byte 1 27 # ?ub" b] unfolding bytes by simp_all
  obtain len where l: "decode_loop lc ?d = decode_loop lc (after_node ?d1 (Node_array [] 2) (d_offset ?d + ?k) len)"
    using reads_array [OF nd(1) _ nd(2) at(1), of ?d1 lc] nd(4,5) by (auto simp: reads_node_def)
  define e where "e = after_node ?d1 (Node_array [] 2) (d_offset ?d + ?k) len"
  have o: "opens (Node_array [] 2)" by (simp add: opens_def)
  have e: "e = ?d1\<lparr>d_heap := [Node_array [] 2], d_structures_stack := [0], d_offset := ?k, d_currentLength := len, d_state := STATE_TYPE\<rparr>"
    unfolding e_def after_opened [OF o] by (simp add: new_decoder_def)
  have ok: "pointers_ok e" by (simp add: e pointers_ok_def new_decoder_def)
  have at_e: "at_bytes e (type_byte 1 27 # ?ub)" using at(2) at_bytes_same [of e "skip_bytes ?k ?d"] by (simp add: e skip_bytes_def nd(7,8))
  let ?f = "(skip_bytes 1 e)\<lparr>d_state := STATE_NINT, d_currentLength := 8\<rparr>"
  have "decode_loop lc e = decode_loop lc ?f"
    by (rule type_turn [OF _ at_e]) (simp_all add: decode_type_enter e enter_def run_update_def)
  moreover have at_f: "at_bytes ?f ?ub" using at_e at_bytes_append [of e "[type_byte 1 27]" ?ub] by simp
  moreover define g where "g = move_to (skip_bytes 8 ?f) (e\<lparr>d_heap := [Node_array [1] 2, Node_value (COT_EXTRA_INT (?u + 1) False)]\<rparr>)"
  moreover have "decode_loop lc ?f = decode_loop lc g"
  proof (rule state_turn)
    show "has_bytes ?f (d_currentLength ?f)" using at_bytes_has [OF at_f] by simp
    have "link_value (length (d_heap e)) e = (Inr (), e\<lparr>d_heap := [Node_array [1] 2]\<rparr>)"
      by (simp add: link_value_def Let_def e set_node_def)
    then have "put_node (Node_value (COT_EXTRA_INT (?u + 1) False)) (skip_bytes 8 ?f) = (Inr (), g)"
      using put_value_moved [OF ok, of _ "skip_bytes 8 ?f" "COT_EXTRA_INT (?u + 1) False"] by (simp add: moved_iff skip_bytes_def g_def)
    then show "decode_in_state lc (d_state ?f) ?f = (Inr (), g)"
      using switch_at_8 [OF _ at_f] by (simp add: decode_nint_def)
  qed simp
  moreover have "decode_loop lc g = Some (Inr (), g)"
  proof -
    have "d_data g = bs" "d_offset g = ?k + 9" by (simp_all add: g_def move_to_def e skip_bytes_def nd(8))
    moreover have "length bs = ?k + 9 + length b" by (simp add: bytes)
    ultimately have "\<not> has_bytes g 8" using v(2) unfolding has_bytes_def by simp
    then show ?thesis by (subst decode_loop.simps) (simp add: decode_turn_def g_def move_to_def skip_bytes_def)
  qed
  moreover have "finish_decode (Inr (), g) = Inl (Cbor_decode_exception ''cbor decode fail with not finished structures'')"
    by (simp add: finish_decode_def g_def move_to_def e new_decoder_def)
  ultimately show ?thesis using l by (simp add: decode_run_def e_def)
qed

end
