(* ===== verification/Block_Database.thy ===== *)
theory Block_Database
  imports Block
begin

text \<open>
  The block database, \<^verbatim>\<open>chain/block_database.cpp\<close>: a file of packed blocks, and an index file with one entry of
  fixed size for every block number. What the files hold is compared with a map from numbers to blocks.
\<close>

section \<open>The two files\<close>

record index_entry =
  ie_block_pos :: u64
  ie_block_size :: u32
  ie_block_id :: block_id_type

text \<open>The entry whose bytes are all zero, which is what a hole in the index file holds.\<close>

definition empty_entry :: index_entry where
  "empty_entry = \<lparr>ie_block_pos = 0, ie_block_size = 0, ie_block_id = 0\<rparr>"

text \<open>
  A stream with the file behind it, counted in bytes for the blocks and in entries for the index; the file is
  \<open>None\<close> when it does not exist. Both streams throw when an operation on them fails. After a read
  beyond the end a stream would stay in its failed state, which is not modelled; no read of a well-formed database
  fails (\<open>read_stored\<close>).
\<close>

record 'a fstream =
  fs_file :: "'a list option"
  fs_open :: bool

record block_database =
  bd_block_num_to_pos :: "index_entry fstream"
  bd_blocks :: "u8 fstream"

definition contents :: "'a fstream \<Rightarrow> 'a list" where
  "contents f = (case fs_file f of Some xs \<Rightarrow> xs | None \<Rightarrow> [])"

definition fstream_open :: "bool \<Rightarrow> ('a fstream, unit) run" where
  "fstream_open trunc f =
    (if fs_open f then (Inl Ios_base_failure, f)
     else if trunc then (Inr (), \<lparr>fs_file = Some [], fs_open = True\<rparr>)
     else case fs_file f of
            None \<Rightarrow> (Inl Ios_base_failure, f)
          | Some _ \<Rightarrow> (Inr (), f\<lparr>fs_open := True\<rparr>))"

definition seek_end :: "'a fstream \<Rightarrow> nat result" where
  "seek_end f = (if fs_open f then Inr (length (contents f)) else Inl Ios_base_failure)"

definition fstream_read :: "'a fstream \<Rightarrow> nat \<Rightarrow> nat \<Rightarrow> 'a list result" where
  "fstream_read f pos n =
    (if fs_open f \<and> (n = 0 \<or> pos + n \<le> length (contents f)) then Inr (take n (drop pos (contents f)))
     else Inl Ios_base_failure)"

definition read_entry :: "index_entry fstream \<Rightarrow> nat \<Rightarrow> index_entry result" where
  "read_entry f n = ebind (fstream_read f n 1) (\<lambda>es. Inr (hd es))"

definition write_entry :: "nat \<Rightarrow> index_entry \<Rightarrow> index_entry list \<Rightarrow> index_entry list" where
  "write_entry n e es =
    (if n < length es then es[n := e] else es @ replicate (n - length es) empty_entry @ [e])"

text \<open>The serialization of a block, \<^verbatim>\<open>fc::raw::pack\<close> and \<^verbatim>\<open>fc::raw::unpack\<close>.\<close>

record ('h, 't) block_codec =
  bc_pack :: "('h, 't) signed_block \<Rightarrow> u8 list"
  bc_unpack :: "u8 list \<Rightarrow> ('h, 't) signed_block result"

section \<open>Operations\<close>

definition bd_open :: "(block_database, unit) run" where
  "bd_open db =
    (let trunc = (fs_file (bd_block_num_to_pos db) = None)
     in case fstream_open trunc (bd_block_num_to_pos db) of
          (Inl e, f) \<Rightarrow> (Inl e, db\<lparr>bd_block_num_to_pos := f\<rparr>)
        | (Inr _, f) \<Rightarrow>
            case fstream_open trunc (bd_blocks db) of
              (r, g) \<Rightarrow> (r, \<lparr>bd_block_num_to_pos = f, bd_blocks = g\<rparr>))"

definition bd_is_open :: "block_database \<Rightarrow> bool" where
  "bd_is_open db = fs_open (bd_blocks db)"

definition bd_close :: "block_database \<Rightarrow> block_database" where
  "bd_close db = \<lparr>bd_block_num_to_pos = (bd_block_num_to_pos db)\<lparr>fs_open := False\<rparr>,
     bd_blocks = (bd_blocks db)\<lparr>fs_open := False\<rparr>\<rparr>"

definition bd_store ::
  "('h, 't) block_env \<Rightarrow> ('h, 't) block_codec \<Rightarrow> block_id_type \<Rightarrow> ('h, 't) signed_block \<Rightarrow> (block_database, unit) run" where
  "bd_store en cd bid b db =
    (let bid = (if bid = 0 then block_id en b else bid);
         num = unat (num_from_id bid)
     in if \<not> fs_open (bd_block_num_to_pos db) then (Inl Ios_base_failure, db)
        else case seek_end (bd_blocks db) of
          Inl e \<Rightarrow> (Inl e, db)
        | Inr p \<Rightarrow>
            let vec = bc_pack cd b;
                e = \<lparr>ie_block_pos = word_of_nat p, ie_block_size = word_of_nat (length vec), ie_block_id = bid\<rparr>
            in (Inr (), \<lparr>bd_block_num_to_pos = (bd_block_num_to_pos db)
                    \<lparr>fs_file := Some (write_entry num e (contents (bd_block_num_to_pos db)))\<rparr>,
                  bd_blocks = (bd_blocks db)\<lparr>fs_file := Some (contents (bd_blocks db) @ vec)\<rparr>\<rparr>))"

definition bd_remove :: "block_id_type \<Rightarrow> (block_database, unit) run" where
  "bd_remove bid db =
    (let num = unat (num_from_id bid);
         f = bd_block_num_to_pos db
     in case seek_end f of
          Inl e \<Rightarrow> (Inl e, db)
        | Inr n \<Rightarrow>
            if n \<le> num then (Inl (Key_not_found_exception ''Block ${id} not contained in block database''), db)
            else case read_entry f num of
              Inl e \<Rightarrow> (Inl e, db)
            | Inr e \<Rightarrow>
                if ie_block_id e = bid
                then (Inr (), db\<lparr>bd_block_num_to_pos := f\<lparr>fs_file := Some (write_entry num (e\<lparr>ie_block_size := 0\<rparr>) (contents f))\<rparr>\<rparr>)
                else (Inr (), db))"

definition bd_contains :: "block_database \<Rightarrow> block_id_type \<Rightarrow> bool result" where
  "bd_contains db bid =
    (if bid = 0 then Inr False
     else ebind (seek_end (bd_block_num_to_pos db)) (\<lambda>n.
       if n \<le> unat (num_from_id bid) then Inr False
       else ebind (read_entry (bd_block_num_to_pos db) (unat (num_from_id bid))) (\<lambda>e.
         Inr (ie_block_id e = bid \<and> 0 < ie_block_size e))))"

definition bd_fetch_block_id :: "block_database \<Rightarrow> u32 \<Rightarrow> block_id_type result" where
  "bd_fetch_block_id db num =
    ebind (seek_end (bd_block_num_to_pos db)) (\<lambda>n.
      if n \<le> unat num then Inl (Key_not_found_exception ''Block number ${block_num} not contained in block database'')
      else ebind (read_entry (bd_block_num_to_pos db) (unat num)) (\<lambda>e.
        if ie_block_id e = 0 then Inl (Fc_assert ''Empty block_id in block_database (maybe corrupt on disk?)'')
        else Inr (ie_block_id e)))"

definition load_block :: "('h, 't) block_codec \<Rightarrow> block_database \<Rightarrow> index_entry \<Rightarrow> ('h, 't) signed_block result" where
  "load_block cd db e =
    ebind (fstream_read (bd_blocks db) (unat (ie_block_pos e)) (unat (ie_block_size e))) (bc_unpack cd)"

definition check_block_id ::
  "('h, 't) block_env \<Rightarrow> index_entry \<Rightarrow> ('h, 't) signed_block \<Rightarrow> ('h, 't) signed_block option result" where
  "check_block_id en e b = (if block_id en b = ie_block_id e then Inr (Some b) else Inl (Fc_assert ''result.id() == e.block_id''))"

text \<open>The lookups of blocks catch every exception.\<close>

definition catch_all :: "'a option result \<Rightarrow> 'a option" where
  "catch_all r = (case r of Inl _ \<Rightarrow> None | Inr x \<Rightarrow> x)"

definition bd_fetch_optional ::
  "('h, 't) block_env \<Rightarrow> ('h, 't) block_codec \<Rightarrow> block_database \<Rightarrow> block_id_type \<Rightarrow> ('h, 't) signed_block option" where
  "bd_fetch_optional en cd db bid = catch_all
    (ebind (seek_end (bd_block_num_to_pos db)) (\<lambda>n.
      if n \<le> unat (num_from_id bid) then Inr None
      else ebind (read_entry (bd_block_num_to_pos db) (unat (num_from_id bid))) (\<lambda>e.
        if ie_block_id e \<noteq> bid then Inr None
        else ebind (load_block cd db e) (check_block_id en e))))"

definition bd_fetch_by_number ::
  "('h, 't) block_env \<Rightarrow> ('h, 't) block_codec \<Rightarrow> block_database \<Rightarrow> u32 \<Rightarrow> ('h, 't) signed_block option" where
  "bd_fetch_by_number en cd db num = catch_all
    (ebind (seek_end (bd_block_num_to_pos db)) (\<lambda>n.
      if n \<le> unat num then Inr None
      else ebind (read_entry (bd_block_num_to_pos db) (unat num)) (\<lambda>e.
        ebind (load_block cd db e) (check_block_id en e))))"

text \<open>The loop over the index, from the end: it ends at an entry of a stored block or at the first one.\<close>

primrec last_entry :: "index_entry fstream \<Rightarrow> index_entry \<Rightarrow> nat \<Rightarrow> index_entry result" where
  "last_entry f e 0 = Inr e"
| "last_entry f e (Suc pos) =
    (if ie_block_size e = 0 then ebind (read_entry f pos) (\<lambda>e'. last_entry f e' pos) else Inr e)"

definition find_last :: "block_database \<Rightarrow> index_entry option result" where
  "find_last db =
    (let f = bd_block_num_to_pos db
     in ebind (seek_end f) (\<lambda>n.
          if n < 1 then Inr None
          else ebind (read_entry f (n - 1)) (\<lambda>e.
            ebind (last_entry f e n) (\<lambda>e. Inr (if ie_block_size e = 0 then None else Some e)))))"

definition bd_last :: "('h, 't) block_codec \<Rightarrow> block_database \<Rightarrow> ('h, 't) signed_block option" where
  "bd_last cd db = catch_all (ebind (find_last db) (\<lambda>r.
     case r of None \<Rightarrow> Inr None | Some e \<Rightarrow> ebind (load_block cd db e) (\<lambda>b. Inr (Some b))))"

definition bd_last_id :: "block_database \<Rightarrow> block_id_type option" where
  "bd_last_id db = catch_all (ebind (find_last db) (\<lambda>r. Inr (map_option ie_block_id r)))"

section \<open>The blocks by number\<close>

definition entry_bytes :: "block_database \<Rightarrow> index_entry \<Rightarrow> u8 list" where
  "entry_bytes db e = take (unat (ie_block_size e)) (drop (unat (ie_block_pos e)) (contents (bd_blocks db)))"

definition live :: "('h, 't) block_codec \<Rightarrow> block_database \<Rightarrow> u32 \<Rightarrow> ('h, 't) signed_block option" where
  "live cd db num =
    (let es = contents (bd_block_num_to_pos db); e = es ! unat num
     in if unat num < length es \<and> ie_block_size e \<noteq> 0
        then case bc_unpack cd (entry_bytes db e) of Inr b \<Rightarrow> Some b | Inl _ \<Rightarrow> None else None)"

definition entry_wf :: "('h, 't) block_env \<Rightarrow> ('h, 't) block_codec \<Rightarrow> block_database \<Rightarrow> nat \<Rightarrow> index_entry \<Rightarrow> bool" where
  "entry_wf en cd db n e \<longleftrightarrow> ie_block_size e = 0 \<or>
     unat (ie_block_pos e) + unat (ie_block_size e) \<le> length (contents (bd_blocks db)) \<and>
     n = unat (num_from_id (ie_block_id e)) \<and> ie_block_id e \<noteq> 0 \<and>
     (case bc_unpack cd (entry_bytes db e) of Inr b \<Rightarrow> block_id en b = ie_block_id e | Inl _ \<Rightarrow> False)"

definition bd_wf :: "('h, 't) block_env \<Rightarrow> ('h, 't) block_codec \<Rightarrow> block_database \<Rightarrow> bool" where
  "bd_wf en cd db \<longleftrightarrow> fs_open (bd_block_num_to_pos db) \<and> fs_open (bd_blocks db) \<and>
     fs_file (bd_block_num_to_pos db) \<noteq> None \<and> fs_file (bd_blocks db) \<noteq> None \<and>
     bc_unpack cd [] \<in> range Inl \<and> length (contents (bd_block_num_to_pos db)) \<le> 2 ^ 32 \<and>
     (\<forall>n < length (contents (bd_block_num_to_pos db)). entry_wf en cd db n (contents (bd_block_num_to_pos db) ! n))"

text \<open>A block that can be stored: it is read back as it was packed, and it fits.\<close>

definition block_storable :: "('h, 't) block_env \<Rightarrow> ('h, 't) block_codec \<Rightarrow> ('h, 't) signed_block \<Rightarrow> block_database \<Rightarrow> bool" where
  "block_storable en cd b db \<longleftrightarrow> bc_unpack cd (bc_pack cd b) = Inr b \<and> bc_pack cd b \<noteq> [] \<and> length (bc_pack cd b) < 2 ^ 32 \<and>
     length (contents (bd_blocks db)) < 2 ^ 64 \<and> block_id en b \<noteq> 0"

end
