(* ===== verification/Chain_Database.thy ===== *)
theory Chain_Database
  imports Block_Database Fork_Database Undo_Restart
begin

text \<open>
  The chain database, \<^verbatim>\<open>chain/db_block.cpp\<close> with \<^verbatim>\<open>db_with.hpp\<close>: how blocks and transactions are pushed and popped. It
  puts together the fork database, the block database and the object database with its undo history.
\<close>

section \<open>State\<close>

type_synonym transaction_id_type = "160 word"

text \<open>
  \<open>ch_clock\<close> counts the readings of the system clock, and \<open>ch_discard_count\<close> is the static counter of
  \<^verbatim>\<open>_push_block\<close>. The signals to observers, which the program sends at the end of most operations, are left out.
\<close>

record ('h, 't, 'v) chain_database =
  ch_fork_db :: "('h, 't) fork_database"
  ch_block_id_to_block :: block_database
  ch_objects :: "'v object_database"
  ch_checkpoints :: "(u32 \<times> block_id_type) list"
  ch_skip_flags :: u32
  ch_pending_tx :: "'t list"
  ch_pending_tx_session :: "session option"
  ch_popped_tx :: "'t list"
  ch_push_transaction_tx_ids :: "transaction_id_type list"
  ch_discard_count :: int
  ch_clock :: nat

text \<open>The operations that the restoration of popped transactions asks for.\<close>

datatype operation_tag =
    crosschain_withdraw_operation
  | crosschain_withdraw_without_sign_operation
  | crosschain_withdraw_combine_sign_operation
  | coldhot_transfer_without_sign_operation
  | coldhot_transfer_combine_sign_operation
  | other_operation

text \<open>
  What the rest of the program provides: \<open>ce_apply_block\<close> is \<^verbatim>\<open>_apply_block\<close>, which gives the objects that it leaves and the
  ids of the transactions it applied; \<open>ce_apply_transaction\<close> is \<^verbatim>\<open>_apply_transaction\<close>. Both read the whole state.
\<close>

record ('h, 't, 'v) chain_env =
  ce_block :: "('h, 't) block_env"
  ce_codec :: "('h, 't) block_codec"
  ce_undo :: "'v undo_env"
  ce_head_block_id :: "'v object \<Rightarrow> block_id_type"
  ce_head_block_number :: "'v object \<Rightarrow> u32"
  ce_now :: "nat \<Rightarrow> int"
  ce_apply_block :: "('h, 't, 'v) chain_database \<Rightarrow> ('h, 't) signed_block \<Rightarrow> unit result \<times> 'v object_database \<times> transaction_id_type list"
  ce_apply_transaction :: "('h, 't, 'v) chain_database \<Rightarrow> 't \<Rightarrow> bool \<Rightarrow> 't result \<times> 'v object_database"
  ce_trx_id :: "'t \<Rightarrow> transaction_id_type"
  ce_known_transaction :: "'v object_database \<Rightarrow> transaction_id_type \<Rightarrow> bool"
  ce_operations :: "'t \<Rightarrow> operation_tag list"

definition skip_fork_db :: u32 where
  "skip_fork_db = push_bit 3 1"

definition skip_contract_exec :: u32 where
  "skip_contract_exec = push_bit 14 1"

definition on_objects :: "('v object_database, 'a) run \<Rightarrow> (('h, 't, 'v) chain_database, 'a) run" where
  "on_objects f ch = (case f (ch_objects ch) of (r, x) \<Rightarrow> (r, ch\<lparr>ch_objects := x\<rparr>))"

definition on_fork_db :: "(('h, 't) fork_database, 'a) run \<Rightarrow> (('h, 't, 'v) chain_database, 'a) run" where
  "on_fork_db f ch = (case f (ch_fork_db ch) of (r, x) \<Rightarrow> (r, ch\<lparr>ch_fork_db := x\<rparr>))"

definition on_block_db :: "(block_database, 'a) run \<Rightarrow> (('h, 't, 'v) chain_database, 'a) run" where
  "on_block_db f ch = (case f (ch_block_id_to_block ch) of (r, x) \<Rightarrow> (r, ch\<lparr>ch_block_id_to_block := x\<rparr>))"

text \<open>
  Exceptions of the standard library are not caught by \<^verbatim>\<open>catch (const fc::exception&)\<close>. Where a function rethrows
  every exception as one of \<^verbatim>\<open>fc\<close>, only the end of the process escapes; the state after it has no meaning.
\<close>

definition ends_process :: "cpp_error \<Rightarrow> bool" where
  "ends_process e = (case e of Process_exit \<Rightarrow> True | Terminate_called \<Rightarrow> True | Undefined_behaviour _ \<Rightarrow> True | _ \<Rightarrow> False)"

definition fc_exception :: "cpp_error \<Rightarrow> bool" where
  "fc_exception e \<longleftrightarrow> \<not> ends_process e \<and>
     e \<notin> {Ios_base_failure, Domain_error, Invalid_argument, Out_of_range, Length_error}"

section \<open>Queries\<close>

definition dynamic_global_property_id :: object_id_type where
  "dynamic_global_property_id = 0x0201000000000000"

definition head_block_id :: "('h, 't, 'v) chain_env \<Rightarrow> ('h, 't, 'v) chain_database \<Rightarrow> block_id_type result" where
  "head_block_id en ch =
    ebind (db_get_object (ch_objects ch) dynamic_global_property_id) (\<lambda>p. Inr (ce_head_block_id en p))"

definition head_block_num :: "('h, 't, 'v) chain_env \<Rightarrow> ('h, 't, 'v) chain_database \<Rightarrow> u32 result" where
  "head_block_num en ch =
    ebind (db_get_object (ch_objects ch) dynamic_global_property_id) (\<lambda>p.
      let ret = ce_head_block_number en p in Inr (if ret = - 1 then 0 else ret))"

definition is_known_block :: "('h, 't, 'v) chain_database \<Rightarrow> block_id_type \<Rightarrow> bool result" where
  "is_known_block ch i =
    (if fork_is_known_block (ch_fork_db ch) i then Inr True else bd_contains (ch_block_id_to_block ch) i)"

definition get_block_id_for_num :: "('h, 't, 'v) chain_database \<Rightarrow> u32 \<Rightarrow> block_id_type result" where
  "get_block_id_for_num ch n = bd_fetch_block_id (ch_block_id_to_block ch) n"

definition fetch_block_by_id ::
  "('h, 't, 'v) chain_env \<Rightarrow> ('h, 't, 'v) chain_database \<Rightarrow> block_id_type \<Rightarrow> ('h, 't) signed_block option" where
  "fetch_block_by_id en ch i =
    (case fork_fetch_block (ch_fork_db ch) i of
       None \<Rightarrow> bd_fetch_optional (ce_block en) (ce_codec en) (ch_block_id_to_block ch) i
     | Some a \<Rightarrow> Some (fi_data (item (ch_fork_db ch) a)))"

definition fetch_block_by_number ::
  "('h, 't, 'v) chain_env \<Rightarrow> ('h, 't, 'v) chain_database \<Rightarrow> u32 \<Rightarrow> ('h, 't) signed_block option" where
  "fetch_block_by_number en ch n =
    (case fork_fetch_block_by_number (ch_fork_db ch) n of
       [a] \<Rightarrow> Some (fi_data (item (ch_fork_db ch) a))
     | _ \<Rightarrow> bd_fetch_by_number (ce_block en) (ce_codec en) (ch_block_id_to_block ch) n)"

definition get_block_ids_on_fork ::
  "('h, 't, 'v) chain_env \<Rightarrow> ('h, 't, 'v) chain_database \<Rightarrow> block_id_type \<Rightarrow> block_id_type list result option" where
  "get_block_ids_on_fork en ch head_of_fork =
    (case head_block_id en ch of
       Inl e \<Rightarrow> Some (Inl e)
     | Inr h \<Rightarrow> map_option (\<lambda>r. ebind r (\<lambda>(fs, ss).
         Inr (map (\<lambda>a. fi_id (item (ch_fork_db ch) a)) ss @ [previous_id (item (ch_fork_db ch) (last fs))])))
         (fetch_branch_from (ch_fork_db ch) h head_of_fork))"

definition add_checkpoints :: "(u32 \<times> block_id_type) list \<Rightarrow> ('h, 't, 'v) chain_database \<Rightarrow> ('h, 't, 'v) chain_database" where
  "add_checkpoints checkpts ch = ch\<lparr>ch_checkpoints := fold (\<lambda>(n, i). std_map_set n i) checkpts (ch_checkpoints ch)\<rparr>"

definition before_last_checkpoint :: "('h, 't, 'v) chain_env \<Rightarrow> ('h, 't, 'v) chain_database \<Rightarrow> bool result" where
  "before_last_checkpoint en ch =
    (if ch_checkpoints ch = [] then Inr False
     else ebind (head_block_num en ch) (\<lambda>n. Inr (n \<le> fst (last (ch_checkpoints ch)))))"

section \<open>Blocks\<close>

definition with_skip_flags :: "u32 \<Rightarrow> (('h, 't, 'v) chain_database, 'a) run \<Rightarrow> (('h, 't, 'v) chain_database, 'a) run" where
  "with_skip_flags skip f ch =
    (case f (ch\<lparr>ch_skip_flags := skip\<rparr>) of (r, ch') \<Rightarrow> (r, ch'\<lparr>ch_skip_flags := ch_skip_flags ch\<rparr>))"

definition run_apply_block :: "('h, 't, 'v) chain_env \<Rightarrow> ('h, 't) signed_block \<Rightarrow> (('h, 't, 'v) chain_database, unit) run" where
  "run_apply_block en b ch =
    (case ce_apply_block en ch b of
       (r, x, ids) \<Rightarrow> (r, ch\<lparr>ch_objects := x,
          ch_push_transaction_tx_ids := fold std_set_insert ids (ch_push_transaction_tx_ids ch)\<rparr>))"

definition apply_block :: "('h, 't, 'v) chain_env \<Rightarrow> ('h, 't) signed_block \<Rightarrow> u32 \<Rightarrow> (('h, 't, 'v) chain_database, unit) run" where
  "apply_block en b skip ch =
    (let cps = ch_checkpoints ch
     in if cps \<noteq> [] \<and> snd (last cps) \<noteq> 0
        then case std_map_find cps (block_num b) of
               Some i \<Rightarrow>
                 if block_id (ce_block en) b \<noteq> i then (Inl (Fc_assert ''Block did not match checkpoint''), ch)
                 else with_skip_flags (if block_num b \<le> fst (last cps) then - 1 else skip) (run_apply_block en b) ch
             | None \<Rightarrow> with_skip_flags (if block_num b \<le> fst (last cps) then - 1 else skip) (run_apply_block en b) ch
        else with_skip_flags skip (run_apply_block en b) ch)"

definition reset_pending_session :: "('h, 't, 'v) chain_env \<Rightarrow> (('h, 't, 'v) chain_database, unit) run" where
  "reset_pending_session en ch =
    (case ch_pending_tx_session ch of
       None \<Rightarrow> (Inr (), ch)
     | Some ses \<Rightarrow> on_objects (session_destroy (ce_undo en) ses) (ch\<lparr>ch_pending_tx_session := None\<rparr>))"

definition clear_pending :: "('h, 't, 'v) chain_env \<Rightarrow> (('h, 't, 'v) chain_database, unit) run" where
  "clear_pending en ch = reset_pending_session en (ch\<lparr>ch_pending_tx := []\<rparr>)"

definition pop_head ::
  "('h, 't, 'v) chain_env \<Rightarrow> block_id_type \<Rightarrow> ('h, 't) signed_block \<Rightarrow> (('h, 't, 'v) chain_database, unit) run" where
  "pop_head en i b =
    run_bind (on_fork_db fork_pop_block) (\<lambda>_.
    run_bind (on_block_db (bd_remove i)) (\<lambda>_.
    run_bind (on_objects (pop_commit (ce_undo en))) (\<lambda>_.
    run_update (\<lambda>ch. ch\<lparr>ch_popped_tx := blk_transactions b @ ch_popped_tx ch\<rparr>))))"

definition pop_block :: "('h, 't, 'v) chain_env \<Rightarrow> (('h, 't, 'v) chain_database, unit) run" where
  "pop_block en =
    run_bind (reset_pending_session en) (\<lambda>_ ch.
      case head_block_id en ch of
        Inl e \<Rightarrow> (Inl e, ch)
      | Inr i \<Rightarrow>
          (case fetch_block_by_id en ch i of
             None \<Rightarrow> (Inl (Pop_empty_chain ''there are no blocks to pop''), ch)
           | Some b \<Rightarrow> pop_head en i b ch))"

text \<open>Every block that is popped takes one state off the undo history.\<close>

lemma load_loop_size: "load_loop en u = (Inr x, u') \<Longrightarrow> undo_size u' = undo_size u \<and> undo_rest u' = undo_rest u"
proof (induction en u rule: load_loop.induct)
  case (1 en u)
  show ?case
  proof (cases "ud_stack u \<noteq> [] \<and> length (ud_back u) < GRAPHENE_UNDO_BUFF_MAX_SIZE")
    case True
    then obtain y u1 where l: "load_one en u = (Inr y, u1)" "load_loop en u1 = (Inr x, u')"
      using "1.prems" by (subst (asm) load_loop.simps) (auto split: prod.splits sum.splits)
    have "undo_size u1 = undo_size u \<and> undo_rest u1 = undo_rest u"
      by (rule load_one_Inr [OF l(1)]) (use True in \<open>simp add: undo_size_def undo_rest_def\<close>)
    then show ?thesis using "1.IH" [OF True l(1) [symmetric] refl l(2)] by simp
  next
    case False
    then show ?thesis using "1.prems" by (subst (asm) load_loop.simps) auto
  qed
qed

lemma refill_size: "refill_back en u = (Inr x, u') \<Longrightarrow> undo_size u' = undo_size u \<and> undo_rest u' = undo_rest u"
  by (auto simp: refill_back_def simp del: load_loop.simps dest: load_loop_size split: if_splits)

lemma with_undo_Inr:
  "with_undo f db = (Inr x, db') \<longleftrightarrow> (\<exists>u. f (db_undo db) = (Inr x, u) \<and> db' = db\<lparr>db_undo := u\<rparr>)"
  by (auto simp: with_undo_def split: prod.splits)

lemma restore_then_pop_size:
  assumes "run_bind (with_undo (run_update undo_disable)) (\<lambda>_.
      run_bind (restore_state s) (\<lambda>_. run_bind (with_undo (run_update pop_back)) (\<lambda>_. with_undo (refill_back en)))) db = (Inr x, db')"
    and "ud_back (db_undo db) \<noteq> []"
  shows "undo_size (db_undo db') < undo_size (db_undo db)" "undo_rest (db_undo db') = undo_rest (undo_disable (db_undo db))"
proof -
  let ?d = "db\<lparr>db_undo := undo_disable (db_undo db)\<rparr>"
  obtain db1 where r: "restore_state s ?d = (Inr (), db1)" "refill_back en (pop_back (db_undo db1)) = (Inr x, db_undo db')"
    using assms(1) by (auto simp: run_bind_Inr with_undo_Inr run_update_def)
  have "ud_disabled (db_undo ?d)" by (simp add: undo_disable_def)
  then have "db_undo db1 = undo_disable (db_undo db)"
    using keeps_undo_restore [of s] r(1) unfolding keeps_undo_def
    by (metis object_database.select_convs(2) object_database.surjective object_database.update_convs(2) snd_conv)
  then show "undo_size (db_undo db') < undo_size (db_undo db)" "undo_rest (db_undo db') = undo_rest (undo_disable (db_undo db))"
    using refill_size [OF r(2)] assms(2) by (simp_all add: undo_size_def pop_back_def undo_disable_def undo_rest_def)
qed

lemma pop_commit_size:
  assumes "pop_commit en db = (Inr x, db')"
  shows "undo_size (db_undo db') < undo_size (db_undo db)" "undo_rest (db_undo db') = undo_rest (undo_enable (db_undo db))"
proof -
  have b: "ud_back (db_undo db) \<noteq> []" using assms by (auto simp: pop_commit_def split: if_splits)
  obtain r db1 where r: "run_bind (with_undo (run_update undo_disable)) (\<lambda>_.
      run_bind (restore_state (last (ud_back (db_undo db)))) (\<lambda>_.
      run_bind (with_undo (run_update pop_back)) (\<lambda>_. with_undo (refill_back en)))) db = (r, db1)"
    by fastforce
  then have "r = Inr x" "db' = db1\<lparr>db_undo := undo_enable (db_undo db1)\<rparr>"
    using assms b by (auto simp: pop_commit_def Let_def split: if_splits)
  then show "undo_size (db_undo db') < undo_size (db_undo db)" "undo_rest (db_undo db') = undo_rest (undo_enable (db_undo db))"
    using restore_then_pop_size [of _ en db x db1] r b by (simp_all add: undo_size_def undo_enable_def undo_disable_def undo_rest_eq)
qed

lemma undo_shrinks:
  assumes "undo en db = (Inr x, db')"
  shows "undo_size (db_undo db') < undo_size (db_undo db)"
proof -
  let ?m = "run_bind (with_undo (run_update undo_disable)) (\<lambda>_.
      run_bind (restore_state (last (ud_back (db_undo db)))) (\<lambda>_.
      run_bind (with_undo (run_update pop_back)) (\<lambda>_. with_undo (refill_back en)))) db"
  have b: "ud_back (db_undo db) \<noteq> []" using assms by (auto simp: undo_def split: if_splits)
  obtain y db1 where m: "?m = (Inr y, db1)" "db_undo db' = (undo_enable (db_undo db1))\<lparr>ud_active_sessions := ud_active_sessions (undo_enable (db_undo db1)) - 1\<rparr>"
    using assms by (fastforce simp: undo_def Let_def run_bind_Inr with_undo_Inr run_update_def split: if_splits)
  then show ?thesis using restore_then_pop_size(1) [OF m(1) b] by (simp add: undo_size_def undo_enable_def)
qed

lemma reset_pending_size:
  assumes "reset_pending_session en ch = (Inr x, ch')"
  shows "undo_size (db_undo (ch_objects ch')) \<le> undo_size (db_undo (ch_objects ch))"
proof (cases "ch_pending_tx_session ch")
  case (Some ses)
  then obtain db where d: "session_destroy (ce_undo en) ses (ch_objects ch) = (Inr x, db)" "ch_objects ch' = db"
    using assms by (auto simp: reset_pending_session_def on_objects_def split: prod.splits)
  obtain r db1 where r: "(if ses_apply_undo ses then undo (ce_undo en) else run_return ()) (ch_objects ch) = (r, db1)" by fastforce
  then obtain y where y: "r = Inr y" using d(1) by (cases r) (auto simp: session_destroy_def)
  have "undo_size (db_undo db1) \<le> undo_size (db_undo (ch_objects ch))"
    using r y undo_shrinks [of "ce_undo en" "ch_objects ch" y db1] by (auto simp: run_return_def split: if_splits)
  moreover have "undo_size (db_undo db) = undo_size (db_undo db1)"
    using d(1) r y by (auto simp: session_destroy_def run_return_def run_update_def with_undo_def undo_disable_def undo_size_def split: if_splits)
  ultimately show ?thesis using d(2) by simp
qed (use assms in \<open>auto simp: reset_pending_session_def\<close>)

lemma pop_block_Inr:
  assumes "pop_block en ch = (Inr x, ch')"
  obtains ch1 i b where "reset_pending_session en ch = (Inr (), ch1)" "pop_head en i b ch1 = (Inr x, ch')"
    "head_block_id en ch1 = Inr i" "fetch_block_by_id en ch1 i = Some b"
proof -
  obtain ch1 where r: "reset_pending_session en ch = (Inr (), ch1)"
      "(case head_block_id en ch1 of Inl e \<Rightarrow> (Inl e, ch1)
        | Inr i \<Rightarrow> (case fetch_block_by_id en ch1 i of
            None \<Rightarrow> (Inl (Pop_empty_chain ''there are no blocks to pop''), ch1) | Some b \<Rightarrow> pop_head en i b ch1)) = (Inr x, ch')"
    using assms by (simp add: pop_block_def run_bind_Inr) blast
  then show ?thesis using that [OF r(1)] by (auto split: sum.split_asm option.split_asm)
qed

lemma pop_block_size:
  assumes "pop_block en ch = (Inr x, ch')"
  shows "undo_size (db_undo (ch_objects ch')) < undo_size (db_undo (ch_objects ch))"
proof -
  obtain ch1 i b where p: "reset_pending_session en ch = (Inr (), ch1)" "pop_head en i b ch1 = (Inr x, ch')"
    by (rule pop_block_Inr [OF assms])
  obtain ch2 ch3 ch4 where q: "on_fork_db fork_pop_block ch1 = (Inr (), ch2)" "on_block_db (bd_remove i) ch2 = (Inr (), ch3)"
      "on_objects (pop_commit (ce_undo en)) ch3 = (Inr (), ch4)" "ch_objects ch' = ch_objects ch4"
    using p(2) by (auto simp: pop_head_def run_bind_Inr run_update_def)
  have "ch_objects ch3 = ch_objects ch1" using q(1,2) by (auto simp: on_fork_db_def on_block_db_def split: prod.splits)
  moreover have "undo_size (db_undo (ch_objects ch4)) < undo_size (db_undo (ch_objects ch3))"
    using q(3) by (auto simp: on_objects_def split: prod.splits dest: pop_commit_size(1))
  ultimately show ?thesis using reset_pending_size [OF p(1)] q(4) by simp
qed

text \<open>The loop that pops blocks until the head is a given one.\<close>

function pop_until :: "('h, 't, 'v) chain_env \<Rightarrow> block_id_type \<Rightarrow> (('h, 't, 'v) chain_database, unit) run" where
  "pop_until en i ch =
    (case head_block_id en ch of
       Inl e \<Rightarrow> (Inl e, ch)
     | Inr h \<Rightarrow>
         if h = i then (Inr (), ch)
         else case pop_block en ch of (Inl e, ch') \<Rightarrow> (Inl e, ch') | (Inr _, ch') \<Rightarrow> pop_until en i ch')"
  by pat_completeness auto
termination
  by (relation "measure (\<lambda>(en, i, ch). undo_size (db_undo (ch_objects ch)))") (auto dest!: pop_block_size [OF sym])

declare pop_until.simps [simp del]

section \<open>Pushing a block\<close>

text \<open>
  A block that is more than two hours old counts as discarded. From the tenth one in a row on, the undo history is kept short.
\<close>

definition note_age :: "('h, 't, 'v) chain_env \<Rightarrow> ('h, 't) signed_block \<Rightarrow> ('h, 't, 'v) chain_database \<Rightarrow> ('h, 't, 'v) chain_database" where
  "note_age en b ch =
    (let now = ce_now en (ch_clock ch);
         ch = ch\<lparr>ch_clock := ch_clock ch + 1\<rparr>;
         max_size = (\<lambda>n ch. ch\<lparr>ch_objects := (ch_objects ch)\<lparr>db_undo := set_max_size n (db_undo (ch_objects ch))\<rparr>\<rparr>)
     in if uint (blk_timestamp b) * 1000000 < now - 7200 * 1000000
        then let ch = ch\<lparr>ch_discard_count := ch_discard_count ch + 1\<rparr>
             in if 10 \<le> ch_discard_count ch then max_size GRAPHENE_UNDO_BUFF_MAX_SIZE ch else ch
        else max_size 1440 (ch\<lparr>ch_discard_count := 0\<rparr>))"

text \<open>
  A session around a computation: its destructor runs at the end, and undoes the changes unless the computation
  committed or merged the session.
\<close>

definition in_session ::
  "('h, 't, 'v) chain_env \<Rightarrow> (('h, 't, 'v) chain_database, 'a) run \<Rightarrow>
   (session \<Rightarrow> 'a \<Rightarrow> ('h, 't, 'v) chain_database \<Rightarrow> 'a result \<times> session \<times> ('h, 't, 'v) chain_database) \<Rightarrow>
   (('h, 't, 'v) chain_database, 'a) run" where
  "in_session en body finish =
    run_bind (on_objects (with_undo (start_undo_session (ce_undo en) False))) (\<lambda>ses ch.
      case (case body ch of (Inl e, ch) \<Rightarrow> (Inl e, ses, ch) | (Inr x, ch) \<Rightarrow> finish ses x ch) of
        (r, ses, ch) \<Rightarrow>
          (case on_objects (session_destroy (ce_undo en) ses) ch of
             (Inl e, ch) \<Rightarrow> (Inl e, ch)
           | (Inr _, ch) \<Rightarrow> (r, ch)))"

definition commit_session :: "session \<Rightarrow> 'a \<Rightarrow> ('h, 't, 'v) chain_database \<Rightarrow> 'a result \<times> session \<times> ('h, 't, 'v) chain_database" where
  "commit_session ses x ch =
    (case session_commit ses (ch_objects ch) of (r, ses, y) \<Rightarrow> (ebind r (\<lambda>_. Inr x), ses, ch\<lparr>ch_objects := y\<rparr>))"

definition apply_and_store ::
  "('h, 't, 'v) chain_env \<Rightarrow> u32 \<Rightarrow> block_id_type \<Rightarrow> ('h, 't) signed_block \<Rightarrow> (('h, 't, 'v) chain_database, unit) run" where
  "apply_and_store en skip i b =
    run_bind (run_update (note_age en b)) (\<lambda>_.
    in_session en
      (run_bind (apply_block en b skip) (\<lambda>_. on_block_db (bd_store (ce_block en) (ce_codec en) i b)))
      commit_session)"

text \<open>Applying the items of a branch, from the oldest on; a failure tells which items are left.\<close>

fun apply_items ::
  "('h, 't, 'v) chain_env \<Rightarrow> u32 \<Rightarrow> addr list \<Rightarrow> ('h, 't, 'v) chain_database \<Rightarrow>
   ((cpp_error \<times> addr list) + unit) \<times> ('h, 't, 'v) chain_database" where
  "apply_items en skip [] ch = (Inr (), ch)"
| "apply_items en skip (a # as) ch =
    (case apply_and_store en skip (fi_id (item (ch_fork_db ch) a)) (fi_data (item (ch_fork_db ch) a)) ch of
       (Inl e, ch') \<Rightarrow> (Inl (e, a # as), ch')
     | (Inr _, ch') \<Rightarrow> apply_items en skip as ch')"

text \<open>
  Switching forks: the blocks of the present branch \<open>ss\<close> are popped and those of the new branch \<open>fs\<close> applied. When
  one of them fails, it and the ones that build on it are removed from the fork database, and the old branch is restored.
\<close>

definition drop_branch ::
  "('h, 't, 'v) chain_env \<Rightarrow> addr list \<Rightarrow> addr list \<Rightarrow> ('h, 't, 'v) chain_database \<Rightarrow> ('h, 't, 'v) chain_database" where
  "drop_branch en rest ss ch =
    (let fd = fold (\<lambda>a fd. fork_remove (block_id (ce_block en) (fi_data (item fd a))) fd) rest (ch_fork_db ch)
     in ch\<lparr>ch_fork_db := fork_set_head (Some (hd ss)) fd\<rparr>)"

definition restore_fork ::
  "('h, 't, 'v) chain_env \<Rightarrow> u32 \<Rightarrow> addr list \<Rightarrow> block_id_type \<Rightarrow> cpp_error \<times> addr list \<Rightarrow> (('h, 't, 'v) chain_database, bool) run" where
  "restore_fork en skip ss target = (\<lambda>(e, rest) ch.
    run_bind (pop_until en target) (\<lambda>_ ch.
      case apply_items en skip (rev ss) ch of
        (Inl (e', _), ch) \<Rightarrow> (Inl e', ch)
      | (Inr _, ch) \<Rightarrow> (Inl e, ch)) (drop_branch en rest ss ch))"

definition switch_fork ::
  "('h, 't, 'v) chain_env \<Rightarrow> u32 \<Rightarrow> addr list \<Rightarrow> addr list \<Rightarrow> (('h, 't, 'v) chain_database, bool) run" where
  "switch_fork en skip fs ss ch =
    (let target = blk_previous (fi_data (item (ch_fork_db ch) (last ss)))
     in run_bind (pop_until en target) (\<lambda>_ ch.
          case apply_items en skip (rev fs) ch of
            (Inr _, ch) \<Rightarrow> (Inr True, ch)
          | (Inl (e, rest), ch) \<Rightarrow>
              if fc_exception e then restore_fork en skip ss target (e, rest) ch else (Inl e, ch)) ch)"

text \<open>The items of both branches are held by pointers while the forks are switched.\<close>

definition holding :: "addr list \<Rightarrow> (('h, 't, 'v) chain_database, 'a) run \<Rightarrow> (('h, 't, 'v) chain_database, 'a) run" where
  "holding as f ch =
    (let held = fd_held (ch_fork_db ch)
     in case f (ch\<lparr>ch_fork_db := (ch_fork_db ch)\<lparr>fd_held := as @ held\<rparr>\<rparr>) of
          (r, ch) \<Rightarrow> (r, ch\<lparr>ch_fork_db := (ch_fork_db ch)\<lparr>fd_held := held\<rparr>\<rparr>))"

definition push_head :: "('h, 't, 'v) chain_env \<Rightarrow> u32 \<Rightarrow> ('h, 't) signed_block \<Rightarrow> (('h, 't, 'v) chain_database, bool) run" where
  "push_head en skip b ch =
    (case apply_and_store en skip (block_id (ce_block en) b) b ch of
       (Inl e, ch) \<Rightarrow>
         (Inl e, if fc_exception e then ch\<lparr>ch_fork_db := fork_remove (block_id (ce_block en) b) (ch_fork_db ch)\<rparr> else ch)
     | (Inr _, ch) \<Rightarrow> (Inr False, ch))"

text \<open>The result is \<open>None\<close> when the search for the branches does not end.\<close>

definition push_block_impl ::
  "('h, 't, 'v) chain_env \<Rightarrow> ('h, 't) signed_block \<Rightarrow> ('h, 't, 'v) chain_database \<Rightarrow> (bool result \<times> ('h, 't, 'v) chain_database) option" where
  "push_block_impl en b ch =
    (let skip = ch_skip_flags ch
     in if skip AND skip_fork_db = 0
        then case on_fork_db (fork_push_block (ce_block en) b) ch of
               (Inl e, ch) \<Rightarrow> Some (Inl e, ch)
             | (Inr None, ch) \<Rightarrow> Some (Inl (Undefined_behaviour ''null pointer''), ch)
             | (Inr (Some h), ch) \<Rightarrow>
                 let new_head = fi_data (item (ch_fork_db ch) h)
                 in case head_block_id en ch of
                      Inl e \<Rightarrow> Some (Inl e, ch)
                    | Inr i \<Rightarrow>
                        if blk_previous new_head \<noteq> i
                        then case head_block_num en ch of
                               Inl e \<Rightarrow> Some (Inl e, ch)
                             | Inr n \<Rightarrow>
                                 if n < block_num new_head
                                 then case fetch_branch_from (ch_fork_db ch) (block_id (ce_block en) new_head) i of
                                        None \<Rightarrow> None
                                      | Some (Inl e) \<Rightarrow> Some (Inl e, ch)
                                      | Some (Inr (fs, ss)) \<Rightarrow> Some (holding (fs @ ss) (switch_fork en skip fs ss) ch)
                                 else Some (Inr False, ch)
                        else Some (push_head en skip b ch)
        else Some (push_head en skip b ch))"

section \<open>Pending transactions\<close>

definition run_apply_transaction :: "('h, 't, 'v) chain_env \<Rightarrow> 't \<Rightarrow> bool \<Rightarrow> (('h, 't, 'v) chain_database, 't) run" where
  "run_apply_transaction en trx testing ch =
    (case ce_apply_transaction en ch trx testing of (r, x) \<Rightarrow> (r, ch\<lparr>ch_objects := x\<rparr>))"

definition start_pending_session :: "('h, 't, 'v) chain_env \<Rightarrow> (('h, 't, 'v) chain_database, unit) run" where
  "start_pending_session en ch =
    (if ch_pending_tx_session ch = None
     then run_bind (on_objects (with_undo (start_undo_session (ce_undo en) False)))
            (\<lambda>ses. run_update (\<lambda>ch. ch\<lparr>ch_pending_tx_session := Some (fst (session_move ses))\<rparr>)) ch
     else (Inr (), ch))"

definition keep_pending ::
  "('h, 't, 'v) chain_env \<Rightarrow> session \<Rightarrow> 't \<Rightarrow> ('h, 't, 'v) chain_database \<Rightarrow> 't result \<times> session \<times> ('h, 't, 'v) chain_database" where
  "keep_pending en ses trx ch =
    (let ch = ch\<lparr>ch_pending_tx := ch_pending_tx ch @ [trx]\<rparr>
     in case session_merge (ce_undo en) ses (ch_objects ch) of
          (r, ses, x) \<Rightarrow> (ebind r (\<lambda>_. Inr trx), ses, ch\<lparr>ch_objects := x\<rparr>))"

definition push_transaction_impl :: "('h, 't, 'v) chain_env \<Rightarrow> 't \<Rightarrow> (('h, 't, 'v) chain_database, 't) run" where
  "push_transaction_impl en trx =
    run_bind (start_pending_session en) (\<lambda>_.
    in_session en (\<lambda>ch. with_skip_flags (ch_skip_flags ch) (run_apply_transaction en trx False) ch) (keep_pending en))"

definition push_transaction :: "('h, 't, 'v) chain_env \<Rightarrow> 't \<Rightarrow> u32 \<Rightarrow> (('h, 't, 'v) chain_database, 't) run" where
  "push_transaction en trx skip = with_skip_flags skip (push_transaction_impl en trx)"

definition validate_transaction :: "('h, 't, 'v) chain_env \<Rightarrow> 't \<Rightarrow> bool \<Rightarrow> (('h, 't, 'v) chain_database, 't) run" where
  "validate_transaction en trx testing = in_session en (run_apply_transaction en trx testing) (\<lambda>ses x ch. (Inr x, ses, ch))"

definition not_restored :: "operation_tag \<Rightarrow> bool" where
  "not_restored op = (op \<noteq> other_operation)"

text \<open>
  The destructor of \<^verbatim>\<open>pending_transactions_restorer\<close>: popped transactions come back first, unless a new block has them or they
  move funds across chains, then the pending ones. What they throw is ignored.
\<close>

definition push_again :: "('h, 't, 'v) chain_env \<Rightarrow> 't \<Rightarrow> (('h, 't, 'v) chain_database, unit) run" where
  "push_again en trx ch =
    (case push_transaction en trx (ch_skip_flags ch OR skip_contract_exec) ch of
       (Inl e, ch) \<Rightarrow> (if ends_process e then Inl e else Inr (), ch)
     | (Inr _, ch) \<Rightarrow> (Inr (), ch))"

definition restore_popped :: "('h, 't, 'v) chain_env \<Rightarrow> 't \<Rightarrow> (('h, 't, 'v) chain_database, unit) run" where
  "restore_popped en trx ch =
    (if ce_trx_id en trx \<in> set (ch_push_transaction_tx_ids ch) \<or> list_ex not_restored (ce_operations en trx) then (Inr (), ch)
     else push_again en trx ch)"

definition restore_pending :: "('h, 't, 'v) chain_env \<Rightarrow> 't \<Rightarrow> (('h, 't, 'v) chain_database, unit) run" where
  "restore_pending en trx ch =
    (if ce_known_transaction en (ch_objects ch) (ce_trx_id en trx) then (Inr (), ch) else push_again en trx ch)"

definition restore_transactions :: "('h, 't, 'v) chain_env \<Rightarrow> 't list \<Rightarrow> (('h, 't, 'v) chain_database, unit) run" where
  "restore_transactions en pending ch =
    run_bind (run_for (restore_popped en) (ch_popped_tx ch)) (\<lambda>_.
    run_bind (run_update (\<lambda>ch. ch\<lparr>ch_popped_tx := []\<rparr>)) (\<lambda>_.
    run_for (restore_pending en) pending)) ch"

definition without_pending_transactions ::
  "('h, 't, 'v) chain_env \<Rightarrow> (('h, 't, 'v) chain_database \<Rightarrow> ('a result \<times> ('h, 't, 'v) chain_database) option) \<Rightarrow>
   ('h, 't, 'v) chain_database \<Rightarrow> ('a result \<times> ('h, 't, 'v) chain_database) option" where
  "without_pending_transactions en f ch =
    (let pending = ch_pending_tx ch
     in case clear_pending en ch of
          (Inl e, ch) \<Rightarrow> Some (Inl e, ch)
        | (Inr _, ch) \<Rightarrow>
            map_option (\<lambda>(r, ch). case restore_transactions en pending ch of (Inl e, ch) \<Rightarrow> (Inl e, ch) | (Inr _, ch) \<Rightarrow> (r, ch))
              (f (ch\<lparr>ch_push_transaction_tx_ids := []\<rparr>)))"

definition push_block ::
  "('h, 't, 'v) chain_env \<Rightarrow> ('h, 't) signed_block \<Rightarrow> u32 \<Rightarrow> ('h, 't, 'v) chain_database \<Rightarrow>
   (bool result \<times> ('h, 't, 'v) chain_database) option" where
  "push_block en b skip ch =
    map_option (\<lambda>(r, ch'). (r, ch'\<lparr>ch_skip_flags := ch_skip_flags ch\<rparr>))
      (without_pending_transactions en (push_block_impl en b) (ch\<lparr>ch_skip_flags := skip\<rparr>))"

end
