(* ===== verification/Block_Store.thy ===== *)
theory Block_Store
  imports Block_Database
begin

text \<open>
  The block database implements a map from block numbers to blocks.
\<close>

section \<open>Reading and writing entries\<close>

lemma length_write_entry: "length (write_entry n e es) = max (length es) (Suc n)"
  by (simp add: write_entry_def)

lemma nth_write_entry:
  "k < length (write_entry n e es) \<Longrightarrow>
    write_entry n e es ! k = (if k = n then e else if k < length es then es ! k else empty_entry)"
  by (auto simp: write_entry_def nth_append nth_Cons')

lemma bd_wfD:
  assumes "bd_wf en cd db"
  shows "fs_open (bd_block_num_to_pos db)" "fs_open (bd_blocks db)"
    "seek_end (bd_block_num_to_pos db) = Inr (length (contents (bd_block_num_to_pos db)))"
    "seek_end (bd_blocks db) = Inr (length (contents (bd_blocks db)))"
    "n < length (contents (bd_block_num_to_pos db)) \<Longrightarrow> entry_wf en cd db n (contents (bd_block_num_to_pos db) ! n)"
  using assms by (auto simp: bd_wf_def seek_end_def)

lemma read_entry_wf:
  "bd_wf en cd db \<Longrightarrow> n < length (contents (bd_block_num_to_pos db)) \<Longrightarrow>
    read_entry (bd_block_num_to_pos db) n = Inr (contents (bd_block_num_to_pos db) ! n)"
  by (simp add: read_entry_def fstream_read_def bd_wfD hd_drop_conv_nth take_Suc_conv_app_nth)

lemma read_stored:
  "bd_wf en cd db \<Longrightarrow> n < length (contents (bd_block_num_to_pos db)) \<Longrightarrow> e = contents (bd_block_num_to_pos db) ! n \<Longrightarrow>
    fstream_read (bd_blocks db) (unat (ie_block_pos e)) (unat (ie_block_size e)) = Inr (entry_bytes db e)"
  using bd_wfD(2) [of en cd db] bd_wfD(5) [of en cd db n]
  by (auto simp: fstream_read_def entry_bytes_def entry_wf_def unat_eq_0)

lemma load_block_wf:
  assumes "bd_wf en cd db" "unat num < length (contents (bd_block_num_to_pos db))"
    "e = contents (bd_block_num_to_pos db) ! unat num"
  shows "live cd db num = None \<Longrightarrow> load_block cd db e \<in> range Inl \<and> ie_block_size e = 0"
    "live cd db num = Some b \<Longrightarrow> load_block cd db e = Inr b \<and> block_id en b = ie_block_id e \<and> ie_block_id e \<noteq> 0 \<and>
       num_from_id (block_id en b) = num \<and> ie_block_size e \<noteq> 0"
proof -
  have w: "entry_wf en cd db (unat num) e" "bc_unpack cd [] \<in> range Inl"
    using assms bd_wfD(5) by (auto simp: bd_wf_def)
  have l: "load_block cd db e = bc_unpack cd (entry_bytes db e)"
    using read_stored [OF assms] by (simp add: load_block_def)
  show "load_block cd db e \<in> range Inl \<and> ie_block_size e = 0" if "live cd db num = None"
  proof (cases "ie_block_size e = 0")
    case True
    then show ?thesis using l w(2) by (simp add: entry_bytes_def)
  next
    case False
    then show ?thesis using w(1) that assms(2,3) by (auto simp: entry_wf_def live_def Let_def split: sum.splits)
  qed
  show "load_block cd db e = Inr b \<and> block_id en b = ie_block_id e \<and> ie_block_id e \<noteq> 0 \<and>
      num_from_id (block_id en b) = num \<and> ie_block_size e \<noteq> 0" if "live cd db num = Some b"
    using w(1) that assms(2,3) l
    by (auto simp: entry_wf_def live_def Let_def split: sum.splits if_splits intro: word_unat_eq_iff [THEN iffD2])
qed

lemma live_in_index: "live cd db num = Some b \<Longrightarrow> unat num < length (contents (bd_block_num_to_pos db))"
  by (auto simp: live_def Let_def split: if_splits)

section \<open>Lookups\<close>

lemma catch_all_simps [simp]: "catch_all (Inl e) = None" "catch_all (Inr x) = x"
  by (simp_all add: catch_all_def)

lemma catch_all_Inl: "m \<in> range Inl \<Longrightarrow> catch_all (ebind m f) = None"
  by auto

lemma fetch_by_number_live:
  assumes "bd_wf en cd db"
  shows "bd_fetch_by_number en cd db num = live cd db num"
proof (cases "unat num < length (contents (bd_block_num_to_pos db))")
  case True
  note l = load_block_wf [OF assms True refl]
  show ?thesis
    using True l bd_wfD(3) [OF assms] read_entry_wf [OF assms True]
    by (cases "live cd db num") (auto simp: bd_fetch_by_number_def check_block_id_def)
next
  case False
  then show ?thesis
    using bd_wfD(3) [OF assms] live_in_index [of cd db num] by (cases "live cd db num") (auto simp: bd_fetch_by_number_def)
qed

lemma fetch_optional_live:
  assumes "bd_wf en cd db"
  shows "bd_fetch_optional en cd db bid =
    (case live cd db (num_from_id bid) of Some b \<Rightarrow> if block_id en b = bid then Some b else None | None \<Rightarrow> None)"
proof (cases "unat (num_from_id bid) < length (contents (bd_block_num_to_pos db))")
  case True
  note l = load_block_wf [OF assms True refl]
  show ?thesis
    using True l bd_wfD(3) [OF assms] read_entry_wf [OF assms True]
    by (cases "live cd db (num_from_id bid)") (auto simp: bd_fetch_optional_def check_block_id_def)
next
  case False
  then show ?thesis
    using bd_wfD(3) [OF assms] live_in_index [of cd db "num_from_id bid"]
    by (cases "live cd db (num_from_id bid)") (auto simp: bd_fetch_optional_def)
qed

lemma contains_live:
  assumes "bd_wf en cd db"
  shows "bd_contains db bid = Inr (\<exists>b. live cd db (num_from_id bid) = Some b \<and> block_id en b = bid)"
proof (cases "unat (num_from_id bid) < length (contents (bd_block_num_to_pos db))")
  case True
  note l = load_block_wf [OF assms True refl]
  show ?thesis
    using True l bd_wfD(3) [OF assms] read_entry_wf [OF assms True]
    by (cases "live cd db (num_from_id bid)") (auto simp: bd_contains_def word_neq_0_conv)
next
  case False
  then show ?thesis
    using bd_wfD(3) [OF assms] live_in_index [of cd db "num_from_id bid"] by (auto simp: bd_contains_def)
qed

text \<open>The number of the last stored block.\<close>

definition last_num :: "('h, 't) block_codec \<Rightarrow> block_database \<Rightarrow> u32 option" where
  "last_num cd db = (let ns = {n. live cd db n \<noteq> None} in if ns = {} then None else Some (Max ns))"

lemma last_entry_scan:
  assumes wf: "bd_wf en cd db" and "n \<le> length (contents (bd_block_num_to_pos db))"
    and "ie_block_size e = 0 \<or> (\<exists>k < n. e = contents (bd_block_num_to_pos db) ! k \<and> (\<forall>j. k < j \<and> j < n \<longrightarrow>
      ie_block_size (contents (bd_block_num_to_pos db) ! j) = 0))"
  shows "\<exists>e'. last_entry (bd_block_num_to_pos db) e n = Inr e' \<and>
    (if ie_block_size e' = 0 then \<forall>j < n. ie_block_size (contents (bd_block_num_to_pos db) ! j) = 0
     else \<exists>k < n. e' = contents (bd_block_num_to_pos db) ! k \<and>
       (\<forall>j. k < j \<and> j < n \<longrightarrow> ie_block_size (contents (bd_block_num_to_pos db) ! j) = 0))"
  using assms(2,3)
proof (induction n arbitrary: e)
  case (Suc n)
  let ?es = "contents (bd_block_num_to_pos db)"
  show ?case
  proof (cases "ie_block_size e = 0")
    case True
    have r: "read_entry (bd_block_num_to_pos db) n = Inr (?es ! n)" using read_entry_wf [OF wf, of n] Suc.prems(1) by simp
    show ?thesis
    proof (cases "ie_block_size (?es ! n) = 0")
      case z: True
      then obtain e' where e': "last_entry (bd_block_num_to_pos db) (?es ! n) n = Inr e'"
          "if ie_block_size e' = 0 then \<forall>j < n. ie_block_size (?es ! j) = 0
           else \<exists>k < n. e' = ?es ! k \<and> (\<forall>j. k < j \<and> j < n \<longrightarrow> ie_block_size (?es ! j) = 0)"
        using Suc.IH [of "?es ! n"] Suc.prems(1) by auto
      then show ?thesis using True r z by (auto simp: less_Suc_eq split: if_splits)
    next
      case False
      then have "last_entry (bd_block_num_to_pos db) (?es ! n) n = Inr (?es ! n)" by (cases n) simp_all
      then show ?thesis using True r False by auto
    qed
  next
    case False
    then show ?thesis using Suc.prems(2) by auto
  qed
qed (auto)

lemma find_last_wf:
  assumes wf: "bd_wf en cd db"
  shows "\<exists>r. find_last db = Inr r \<and>
    (case r of None \<Rightarrow> last_num cd db = None
     | Some e \<Rightarrow> \<exists>num b. last_num cd db = Some num \<and> live cd db num = Some b \<and>
         unat num < length (contents (bd_block_num_to_pos db)) \<and> e = contents (bd_block_num_to_pos db) ! unat num)"
proof -
  let ?f = "bd_block_num_to_pos db" and ?es = "contents (bd_block_num_to_pos db)"
  have live: "live cd db num \<noteq> None \<longleftrightarrow> unat num < length ?es \<and> ie_block_size (?es ! unat num) \<noteq> 0" for num
    using load_block_wf [OF wf _ refl, of num] live_in_index [of cd db num] by (cases "live cd db num") auto
  show ?thesis
  proof (cases "?es = []")
    case True
    then show ?thesis using live bd_wfD(3) [OF wf] by (simp add: find_last_def Let_def last_num_def)
  next
    case False
    let ?n = "length ?es"
    have n: "?n - 1 < ?n" using False by simp
    obtain e where e: "last_entry ?f (?es ! (?n - 1)) ?n = Inr e"
        "if ie_block_size e = 0 then \<forall>j < ?n. ie_block_size (?es ! j) = 0
         else \<exists>k < ?n. e = ?es ! k \<and> (\<forall>j. k < j \<and> j < ?n \<longrightarrow> ie_block_size (?es ! j) = 0)"
      using last_entry_scan [OF wf, of ?n "?es ! (?n - 1)"] n by force
    have f: "find_last db = Inr (if ie_block_size e = 0 then None else Some e)"
      using e(1) False n read_entry_wf [OF wf n] bd_wfD(3) [OF wf] by (simp add: find_last_def Let_def)
    show ?thesis
    proof (cases "ie_block_size e = 0")
      case True
      then show ?thesis using e(2) f live by (simp add: last_num_def)
    next
      case nz: False
      then obtain k where k: "k < ?n" "e = ?es ! k" "\<And>j. k < j \<Longrightarrow> j < ?n \<Longrightarrow> ie_block_size (?es ! j) = 0"
        using e(2) by auto
      define num :: u32 where "num = word_of_nat k"
      have "k < 2 ^ 32" using k(1) wf by (simp add: bd_wf_def)
      then have u: "unat num = k" by (simp add: num_def unsigned_of_nat take_bit_nat_eq_self)
      then obtain b where b: "live cd db num = Some b" using live [of num] k(1,2) nz by auto
      moreover have "m \<le> num" if "live cd db m \<noteq> None" for m
        using that live [of m] k(3) [of "unat m"] u by (simp add: word_le_nat_alt) (metis not_le_imp_less)
      then have "last_num cd db = Some num"
        using b by (auto simp: last_num_def intro!: Max_eqI)
      ultimately show ?thesis using f nz k(1,2) u by auto
    qed
  qed
qed

lemma last_live:
  assumes wf: "bd_wf en cd db"
  shows "bd_last cd db = (case last_num cd db of Some num \<Rightarrow> live cd db num | None \<Rightarrow> None)"
    "bd_last_id db = map_option (block_id en) (bd_last cd db)"
proof -
  obtain r where r: "find_last db = Inr r"
      "case r of None \<Rightarrow> last_num cd db = None
       | Some e \<Rightarrow> \<exists>num b. last_num cd db = Some num \<and> live cd db num = Some b \<and>
         unat num < length (contents (bd_block_num_to_pos db)) \<and> e = contents (bd_block_num_to_pos db) ! unat num"
    using find_last_wf [OF wf] by blast
  show l: "bd_last cd db = (case last_num cd db of Some num \<Rightarrow> live cd db num | None \<Rightarrow> None)"
    using r load_block_wf(2) [OF wf _ refl] by (cases r) (auto simp: bd_last_def)
  show "bd_last_id db = map_option (block_id en) (bd_last cd db)"
    using r load_block_wf(2) [OF wf _ refl] by (cases r) (auto simp: bd_last_id_def l)
qed

section \<open>Changes\<close>

lemma contents_file [simp]: "contents (f\<lparr>fs_file := Some xs\<rparr>) = xs"
  by (simp add: contents_def)

lemma entry_bytes_append:
  "unat (ie_block_pos e) + unat (ie_block_size e) \<le> length (contents (bd_blocks db)) \<Longrightarrow>
    contents (bd_blocks db') = contents (bd_blocks db) @ vec \<Longrightarrow> entry_bytes db' e = entry_bytes db e"
  by (simp add: entry_bytes_def)

lemma bd_store_live:
  assumes wf: "bd_wf en cd db" and st: "block_storable en cd b db" and bid: "bid = 0 \<or> bid = block_id en b"
  shows "\<exists>db'. bd_store en cd bid b db = (Inr (), db') \<and> bd_wf en cd db' \<and>
    live cd db' = (live cd db)(block_num b \<mapsto> b) \<and>
    length (contents (bd_blocks db')) = length (contents (bd_blocks db)) + length (bc_pack cd b)"
proof -
  let ?f = "bd_block_num_to_pos db" and ?es = "contents (bd_block_num_to_pos db)" and ?bs = "contents (bd_blocks db)"
  define vec num e where "vec = bc_pack cd b" and "num = unat (block_num b)"
    and "e = \<lparr>ie_block_pos = word_of_nat (length ?bs), ie_block_size = word_of_nat (length vec), ie_block_id = block_id en b\<rparr>"
  define db' where "db' = \<lparr>bd_block_num_to_pos = ?f\<lparr>fs_file := Some (write_entry num e ?es)\<rparr>,
    bd_blocks = (bd_blocks db)\<lparr>fs_file := Some (?bs @ vec)\<rparr>\<rparr>"
  have run: "bd_store en cd bid b db = (Inr (), db')"
    using bid bd_wfD(1-4) [OF wf]
    by (auto simp: bd_store_def Let_def db'_def e_def vec_def num_def num_from_block_id)
  have c: "contents (bd_block_num_to_pos db') = write_entry num e ?es" "contents (bd_blocks db') = ?bs @ vec"
    by (simp_all add: db'_def)
  have s: "unat (ie_block_size e) = length vec" "unat (ie_block_pos e) = length ?bs" "ie_block_size e \<noteq> 0" "ie_block_id e = block_id en b"
    using st by (auto simp: e_def vec_def block_storable_def unsigned_of_nat take_bit_nat_eq_self unat_eq_0 [symmetric])
  have bytes: "entry_bytes db' e = vec" using c(2) s(1,2) by (simp add: entry_bytes_def)
  have e: "entry_wf en cd db' num e"
    using st bytes s c(2) by (simp add: entry_wf_def block_storable_def num_from_block_id num_def vec_def)
  have old: "entry_wf en cd db' n (?es ! n)" "ie_block_size (?es ! n) \<noteq> 0 \<Longrightarrow> entry_bytes db' (?es ! n) = entry_bytes db (?es ! n)"
    if "n < length ?es" for n
    using bd_wfD(5) [OF wf that] entry_bytes_append [OF _ c(2)] c(2) by (auto simp: entry_wf_def)
  have "entry_wf en cd db' n (write_entry num e ?es ! n)" if "n < length (write_entry num e ?es)" for n
    using nth_write_entry [OF that] e old(1) [of n] by (auto simp: entry_wf_def empty_entry_def)
  moreover have "Suc num \<le> 2 ^ 32" using unsigned_less [of "block_num b"] by (simp add: num_def Suc_le_eq)
  ultimately have "bd_wf en cd db'"
    using wf c by (simp add: bd_wf_def length_write_entry) (simp add: db'_def)
  moreover have "live cd db' m = ((live cd db)(block_num b \<mapsto> b)) m" for m
  proof (cases "m = block_num b")
    case True
    then show ?thesis using c(1) bytes s(3) st nth_write_entry [of num num e ?es]
      by (simp add: live_def Let_def length_write_entry num_def [symmetric] vec_def block_storable_def)
  next
    case False
    then have "unat m \<noteq> num" by (simp add: num_def word_unat_eq_iff)
    then show ?thesis
      using False c(1) old(2) [of "unat m"] nth_write_entry [of "unat m" num e ?es]
      by (auto simp: live_def Let_def length_write_entry empty_entry_def)
  qed
  ultimately show ?thesis using run c(2) by (auto simp: vec_def)
qed

lemma bd_remove_live:
  assumes wf: "bd_wf en cd db" and num: "unat (num_from_id bid) < length (contents (bd_block_num_to_pos db))"
  shows "\<exists>db'. bd_remove bid db = (Inr (), db') \<and> bd_wf en cd db' \<and> bd_blocks db' = bd_blocks db \<and>
    live cd db' = (if (\<exists>b. live cd db (num_from_id bid) = Some b \<and> block_id en b = bid) then (live cd db)(num_from_id bid := None)
      else live cd db)"
proof -
  let ?f = "bd_block_num_to_pos db" and ?es = "contents (bd_block_num_to_pos db)" and ?num = "unat (num_from_id bid)"
  let ?e = "?es ! ?num"
  note r = read_entry_wf [OF wf num] bd_wfD(3) [OF wf]
  show ?thesis
  proof (cases "ie_block_id ?e = bid")
    case True
    define db' where "db' = db\<lparr>bd_block_num_to_pos := ?f\<lparr>fs_file := Some (write_entry ?num (?e\<lparr>ie_block_size := 0\<rparr>) ?es)\<rparr>\<rparr>"
    have run: "bd_remove bid db = (Inr (), db')" using True r num by (simp add: bd_remove_def Let_def db'_def)
    have c: "contents (bd_block_num_to_pos db') = ?es[?num := ?e\<lparr>ie_block_size := 0\<rparr>]" "bd_blocks db' = bd_blocks db"
      using num by (simp_all add: db'_def write_entry_def)
    have bytes: "entry_bytes db' = entry_bytes db" by (simp add: entry_bytes_def c(2) fun_eq_iff)
    have "entry_wf en cd db' n e \<longleftrightarrow> entry_wf en cd db n e" for n e by (simp add: entry_wf_def bytes c(2))
    then have "bd_wf en cd db'"
      using wf c num bd_wfD(5) [OF wf] by (auto simp: bd_wf_def nth_list_update) (auto simp: db'_def entry_wf_def)
    moreover have "live cd db' m = ((live cd db)(num_from_id bid := None)) m" for m
      using num by (auto simp: live_def Let_def bytes c(1) nth_list_update word_unat_eq_iff [symmetric])
    moreover have "live cd db (num_from_id bid) = None \<or> (\<exists>b. live cd db (num_from_id bid) = Some b \<and> block_id en b = bid)"
      using load_block_wf(2) [OF wf num refl] True by (cases "live cd db (num_from_id bid)") auto
    ultimately show ?thesis using run c(2) by (auto simp: fun_eq_iff)
  next
    case False
    then have "bd_remove bid db = (Inr (), db)" using r num by (simp add: bd_remove_def Let_def)
    moreover have "\<not> (\<exists>b. live cd db (num_from_id bid) = Some b \<and> block_id en b = bid)"
      using load_block_wf(2) [OF wf num refl] False by auto
    ultimately show ?thesis using wf by auto
  qed
qed

lemma bd_remove_missing:
  assumes "bd_wf en cd db" "length (contents (bd_block_num_to_pos db)) \<le> unat (num_from_id bid)"
  shows "bd_remove bid db = (Inl (Key_not_found_exception ''Block ${id} not contained in block database''), db)"
  using assms(2) bd_wfD(3) [OF assms(1)] by (simp add: bd_remove_def Let_def)

text \<open>A removed block keeps its id in the index.\<close>

lemma removed_id_fetched:
  assumes wf: "bd_wf en cd db" and b: "live cd db num = Some b"
  shows "\<exists>db'. bd_remove (block_id en b) db = (Inr (), db') \<and> bd_contains db' (block_id en b) = Inr False \<and>
    bd_fetch_optional en cd db' (block_id en b) = None \<and> bd_fetch_block_id db' num = Inr (block_id en b)"
proof -
  let ?es = "contents (bd_block_num_to_pos db)"
  have num: "unat num < length ?es" using live_in_index [OF b] .
  note l = load_block_wf(2) [OF wf num refl b]
  then have n: "num_from_id (block_id en b) = num" by blast
  obtain db' where db': "bd_remove (block_id en b) db = (Inr (), db')" "bd_wf en cd db'" "live cd db' num = None"
    using bd_remove_live [OF wf, of "block_id en b"] num n b by auto
  have e: "contents (bd_block_num_to_pos db') = ?es[unat num := (?es ! unat num)\<lparr>ie_block_size := 0\<rparr>]"
    using db'(1) l num n read_entry_wf [OF wf num] bd_wfD(3) [OF wf]
    by (auto simp: bd_remove_def Let_def write_entry_def)
  have num': "unat num < length (contents (bd_block_num_to_pos db'))" using e num by simp
  have "bd_fetch_block_id db' num = Inr (block_id en b)"
    using bd_wfD(3) [OF db'(2)] read_entry_wf [OF db'(2) num'] num l e by (simp add: bd_fetch_block_id_def)
  then show ?thesis
    using db' contains_live [OF db'(2), of "block_id en b"] fetch_optional_live [OF db'(2), of "block_id en b"] n by simp
qed

section \<open>Closing and opening\<close>

lemma bd_open_new:
  "fs_file (bd_block_num_to_pos db) = None \<Longrightarrow> \<not> fs_open (bd_block_num_to_pos db) \<Longrightarrow> \<not> fs_open (bd_blocks db) \<Longrightarrow>
    bc_unpack cd [] \<in> range Inl \<Longrightarrow> \<exists>db'. bd_open db = (Inr (), db') \<and> bd_wf en cd db' \<and> live cd db' = (\<lambda>_. None)"
  by (auto simp: bd_open_def Let_def fstream_open_def bd_wf_def contents_def live_def)

lemma bd_reopen: "bd_wf en cd db \<Longrightarrow> bd_open (bd_close db) = (Inr (), db)"
  by (cases db) (auto simp: bd_open_def bd_close_def Let_def fstream_open_def bd_wf_def)

section \<open>The interface\<close>

text \<open>What a user of the block database relies on: blocks are found under their numbers until they are removed or replaced.\<close>

locale block_store =
  fixes inv :: "'s \<Rightarrow> bool" and look :: "'s \<Rightarrow> u32 \<Rightarrow> 'b option" and number :: "'b \<Rightarrow> u32"
    and accepts :: "'b \<Rightarrow> 's \<Rightarrow> bool" and put :: "'b \<Rightarrow> ('s, unit) run" and del :: "'b \<Rightarrow> ('s, unit) run"
  assumes put_look: "inv s \<Longrightarrow> accepts b s \<Longrightarrow> \<exists>s'. put b s = (Inr (), s') \<and> inv s' \<and> look s' = (look s)(number b \<mapsto> b)"
    and del_look: "inv s \<Longrightarrow> look s (number b) = Some b \<Longrightarrow> \<exists>s'. del b s = (Inr (), s') \<and> inv s' \<and> look s' = (look s)(number b := None)"
begin

lemma put_then_del:
  assumes "inv s" "accepts b s"
  shows "\<exists>s' s''. put b s = (Inr (), s') \<and> look s' (number b) = Some b \<and> del b s' = (Inr (), s'') \<and> inv s'' \<and>
    look s'' = (look s)(number b := None)"
proof -
  obtain s' where s': "put b s = (Inr (), s')" "inv s'" "look s' = (look s)(number b \<mapsto> b)" using put_look [OF assms] by blast
  then have "look s' (number b) = Some b" by simp
  then show ?thesis using del_look [OF s'(2)] s' by fastforce
qed

lemma put_replaces:
  assumes "inv s" "accepts b s" "\<And>s'. put b s = (Inr (), s') \<Longrightarrow> accepts c s'" "number c = number b"
  shows "\<exists>s''. run_bind (put b) (\<lambda>_. put c) s = (Inr (), s'') \<and> inv s'' \<and> look s'' = (look s)(number c \<mapsto> c)"
proof -
  obtain s' where s': "put b s = (Inr (), s')" "inv s'" "look s' = (look s)(number b \<mapsto> b)" using put_look [OF assms(1,2)] by blast
  then show ?thesis using put_look [OF s'(2) assms(3) [OF s'(1)]] assms(4) by (auto simp: run_bind_def)
qed

end

interpretation bd: block_store "bd_wf en cd" "live cd" block_num "block_storable en cd"
    "\<lambda>b. bd_store en cd (block_id en b) b" "\<lambda>b. bd_remove (block_id en b)" for en cd
proof
  fix db b
  assume "bd_wf en cd db" "block_storable en cd b db"
  then show "\<exists>s'. bd_store en cd (block_id en b) b db = (Inr (), s') \<and> bd_wf en cd s' \<and> live cd s' = (live cd db)(block_num b \<mapsto> b)"
    using bd_store_live [of en cd db b "block_id en b"] by blast
next
  fix db b
  assume a: "bd_wf en cd db" "live cd db (block_num b) = Some b"
  then show "\<exists>s'. bd_remove (block_id en b) db = (Inr (), s') \<and> bd_wf en cd s' \<and> live cd s' = (live cd db)(block_num b := None)"
    using bd_remove_live [OF a(1), of "block_id en b"] live_in_index [OF a(2)] by (auto simp: num_from_block_id)
qed

end
