(* ===== verification/Chain_Sessions.thy ===== *)
theory Chain_Sessions
  imports Chain_Database Block_Store
begin

text \<open>
  Undo sessions around the computations of the chain database: what a session keeps when it is committed or merged, and
  what its destructor takes back.
\<close>

section \<open>Sessions of the object database\<close>

lemma undo_ok_max:
  "undo_states en (db\<lparr>db_undo := set_max_size n (db_undo db)\<rparr>) = undo_states en db"
  "undo_ok en (db\<lparr>db_undo := set_max_size n (db_undo db)\<rparr>) = undo_ok en db"
proof -
  have f: "fetch_optional en (set_max_size n (db_undo db)) = fetch_optional en (db_undo db)"
    by (simp add: fun_eq_iff fetch_optional_def set_max_size_def)
  show s: "undo_states en (db\<lparr>db_undo := set_max_size n (db_undo db)\<rparr>) = undo_states en db"
    by (simp add: undo_states_def all_states_def f) (simp add: set_max_size_def)
  have "db_wf (db\<lparr>db_undo := u\<rparr>) = db_wf db" "removable (db\<lparr>db_undo := u\<rparr>) = removable db" for u
    by (simp_all add: db_wf_def removable_def fun_eq_iff)
  then show "undo_ok en (db\<lparr>db_undo := set_max_size n (db_undo db)\<rparr>) = undo_ok en db"
    unfolding undo_ok_def undo_inv_def s
    by (simp add: set_max_size_def history_def history_split_def memory_ok_def)
qed

lemma start_session:
  assumes en: "faithful_variants en" and ok: "undo_ok en db" and can: "can_start en db"
  obtains db' where "with_undo (start_undo_session en False) db = (Inr \<lparr>ses_apply_undo = True, ses_disable_on_exit = False\<rparr>, db')"
    "undo_ok en db'" "snapshot db' = snapshot db"
    "undo_states en db' = empty_undo_state # take (ud_max_size (db_undo db) - 1) (undo_states en db)"
    "undo_rest (db_undo db') = undo_rest ((db_undo db)\<lparr>ud_active_sessions := ud_active_sessions (db_undo db) + 1\<rparr>)"
proof -
  obtain db' where db': "with_undo (start_undo_session en False) db = (Inr \<lparr>ses_apply_undo = True, ses_disable_on_exit = False\<rparr>, db')"
      "undo_ok en db'" "snapshot db' = snapshot db"
      "undo_states en db' = empty_undo_state # take (ud_max_size (db_undo db) - 1) (undo_states en db)"
    using start_refines [OF assms] by blast
  have h: "history en (db_undo db) (all_states en (db_undo db))" "\<not> ud_disabled (db_undo db)" "memory_ok (db_undo db)"
    using ok by (simp_all add: undo_ok_def undo_inv_def undo_states_def)
  then have "keeps_history en (db_undo db) (all_states en (db_undo db))"
    using can by (simp add: keeps_history_def can_start_def memory_ok_def)
  then have "undo_rest (db_undo db') = undo_rest ((db_undo db)\<lparr>ud_active_sessions := ud_active_sessions (db_undo db) + 1\<rparr>)"
    using start_undo_session_history [OF h(1), of False] h(2) db'(1) can
    by (auto simp: with_undo_Inr undo_rest_def can_start_def)
  then show ?thesis using db' that by blast
qed

text \<open>Changes rewrite the youngest state only, which leads back to the same snapshot.\<close>

lemma changes_youngest:
  assumes "change\<^sup>*\<^sup>* db db'" "faithful_variants en" "undo_ok en db" "undo_states en db = s # ss"
  shows "\<exists>t. undo_ok en db' \<and> undo_states en db' = t # ss \<and> revert t (snapshot db') = revert s (snapshot db) \<and>
    undo_rest (db_undo db') = undo_rest (db_undo db)"
  using assms
proof (induction rule: rtranclp_induct)
  case (step db1 db2)
  obtain t where t: "undo_ok en db1" "undo_states en db1 = t # ss" "revert t (snapshot db1) = revert s (snapshot db)"
      "undo_rest (db_undo db1) = undo_rest (db_undo db)"
    using step by blast
  have inv: "undo_inv en (t # ss) db1" "ud_back (db_undo db1) \<noteq> []" using t undo_ok_back(1) [OF t(1)] by (simp_all add: undo_ok_def)
  obtain t' where t': "undo_inv en (t' # ss) db2" "revert t' (snapshot db2) = revert t (snapshot db1)"
    using change_keeps [OF step.hyps(2) inv] by blast
  have c: "undo_ok en db2" "undo_rest (db_undo db2) = undo_rest (db_undo db1)"
    using change_refines [OF step.prems(1) t(1) step.hyps(2)] t(2) by simp_all
  then have "undo_states en db2 = t' # ss" using undo_okI(2) [OF step.prems(1) t'(1)] by (simp add: undo_ok_def)
  then show ?case using c t t'(2) by auto
qed auto

text \<open>The state of a session after its changes.\<close>

lemma session_changed:
  assumes en: "faithful_variants en" and ok: "undo_ok en db" and can: "can_start en db"
    and start: "with_undo (start_undo_session en False) db = (Inr ses, db1)" and changes: "change\<^sup>*\<^sup>* db1 db2"
  obtains s where "ses = \<lparr>ses_apply_undo = True, ses_disable_on_exit = False\<rparr>" "undo_ok en db2"
    "undo_states en db2 = s # take (ud_max_size (db_undo db) - 1) (undo_states en db)" "revert s (snapshot db2) = snapshot db"
    "undo_rest (db_undo db2) = undo_rest ((db_undo db)\<lparr>ud_active_sessions := ud_active_sessions (db_undo db) + 1\<rparr>)"
proof -
  obtain dbx where x: "with_undo (start_undo_session en False) db = (Inr \<lparr>ses_apply_undo = True, ses_disable_on_exit = False\<rparr>, dbx)"
      "undo_ok en dbx" "snapshot dbx = snapshot db"
      "undo_states en dbx = empty_undo_state # take (ud_max_size (db_undo db) - 1) (undo_states en db)"
      "undo_rest (db_undo dbx) = undo_rest ((db_undo db)\<lparr>ud_active_sessions := ud_active_sessions (db_undo db) + 1\<rparr>)"
    by (rule start_session [OF en ok can])
  then have "ses = \<lparr>ses_apply_undo = True, ses_disable_on_exit = False\<rparr>" "dbx = db1" using start by auto
  then show ?thesis
    using changes_youngest [OF changes en] x(2-5) that by (auto simp: revert_def revert_empty)
qed

text \<open>A session that is destroyed with its changes, and one that is committed.\<close>

lemma session_undone:
  assumes en: "faithful_variants en" and ok: "undo_ok en db" and can: "can_start en db"
    and active: "ud_active_sessions (db_undo db) + 1 \<noteq> 0"
    and start: "with_undo (start_undo_session en False) db = (Inr ses, db1)" and changes: "change\<^sup>*\<^sup>* db1 db2"
  obtains db3 where "session_destroy en ses db2 = (Inr (), db3)" "undo_ok en db3" "snapshot db3 = snapshot db"
    "undo_states en db3 = take (ud_max_size (db_undo db) - 1) (undo_states en db)"
    "undo_rest (db_undo db3) = undo_rest (db_undo db)"
proof -
  obtain s where s: "ses = \<lparr>ses_apply_undo = True, ses_disable_on_exit = False\<rparr>" "undo_ok en db2"
      "undo_states en db2 = s # take (ud_max_size (db_undo db) - 1) (undo_states en db)" "revert s (snapshot db2) = snapshot db"
      "undo_rest (db_undo db2) = undo_rest ((db_undo db)\<lparr>ud_active_sessions := ud_active_sessions (db_undo db) + 1\<rparr>)"
    by (rule session_changed [OF en ok can start changes])
  have "ud_active_sessions (db_undo db2) \<noteq> 0" using s(5) active by (simp add: undo_rest_eq)
  then obtain db3 where "undo en db2 = (Inr (), db3)" "undo_ok en db3" "snapshot db3 = revert s (snapshot db2)"
      "undo_states en db3 = take (ud_max_size (db_undo db) - 1) (undo_states en db)"
      "undo_rest (db_undo db3) = undo_rest ((db_undo db2)\<lparr>ud_active_sessions := ud_active_sessions (db_undo db2) - 1\<rparr>)"
    using undo_refines [OF en s(2,3)] by blast
  then show ?thesis using that [of db3] s by (simp add: session_destroy_def run_return_def undo_rest_eq)
qed

lemma session_committed:
  assumes en: "faithful_variants en" and ok: "undo_ok en db" and can: "can_start en db"
    and active: "ud_active_sessions (db_undo db) + 1 \<noteq> 0"
    and start: "with_undo (start_undo_session en False) db = (Inr ses, db1)" and changes: "change\<^sup>*\<^sup>* db1 db2"
  obtains s ses' db3 where "session_commit ses db2 = (Inr (), ses', db3)" "session_destroy en ses' db3 = (Inr (), db3)"
    "undo_ok en db3" "undo_states en db3 = s # take (ud_max_size (db_undo db) - 1) (undo_states en db)"
    "revert s (snapshot db2) = snapshot db" "snapshot db3 = snapshot db2" "undo_rest (db_undo db3) = undo_rest (db_undo db)"
    "db3 = db2\<lparr>db_undo := (db_undo db2)\<lparr>ud_active_sessions := ud_active_sessions (db_undo db)\<rparr>\<rparr>"
proof -
  obtain s where s: "ses = \<lparr>ses_apply_undo = True, ses_disable_on_exit = False\<rparr>" "undo_ok en db2"
      "undo_states en db2 = s # take (ud_max_size (db_undo db) - 1) (undo_states en db)" "revert s (snapshot db2) = snapshot db"
      "undo_rest (db_undo db2) = undo_rest ((db_undo db)\<lparr>ud_active_sessions := ud_active_sessions (db_undo db) + 1\<rparr>)"
    by (rule session_changed [OF en ok can start changes])
  let ?a = "ud_active_sessions (db_undo db2)"
  let ?db3 = "db2\<lparr>db_undo := (db_undo db2)\<lparr>ud_active_sessions := ?a - 1\<rparr>\<rparr>"
  have a: "?a = ud_active_sessions (db_undo db) + 1" "\<not> ud_disabled (db_undo db2)"
    using s(2,5) by (simp_all add: undo_rest_eq undo_ok_def undo_inv_def)
  have "undo_states en ?db3 = undo_states en db2"
    by (simp add: undo_states_def all_states_def fetch_optional_def cong: option.case_cong)
  then show ?thesis
    using that [of "ses\<lparr>ses_apply_undo := False\<rparr>" ?db3 s] undo_ok_sessions(1) [OF s(2)] s a active
    by (simp add: session_commit_def with_undo_def undo_commit_def session_destroy_def run_return_def undo_rest_eq)
qed

section \<open>Sessions of the chain database\<close>

lemma in_session_start:
  "with_undo (start_undo_session (ce_undo en) False) (ch_objects ch) = (Inr ses, db1) \<Longrightarrow>
    in_session en body finish ch =
      (case (case body (ch\<lparr>ch_objects := db1\<rparr>) of (Inl e, ch) \<Rightarrow> (Inl e, ses, ch) | (Inr x, ch) \<Rightarrow> finish ses x ch) of
        (r, ses, ch) \<Rightarrow>
          (case on_objects (session_destroy (ce_undo en) ses) ch of (Inl e, ch) \<Rightarrow> (Inl e, ch) | (Inr _, ch) \<Rightarrow> (r, ch)))"
  by (simp add: in_session_def run_bind_def on_objects_def)

lemma in_session_failed:
  assumes en: "faithful_variants (ce_undo en)" and ok: "undo_ok (ce_undo en) (ch_objects ch)" and can: "can_start (ce_undo en) (ch_objects ch)"
    and active: "ud_active_sessions (db_undo (ch_objects ch)) + 1 \<noteq> 0"
    and start: "with_undo (start_undo_session (ce_undo en) False) (ch_objects ch) = (Inr ses, db1)"
    and body: "body (ch\<lparr>ch_objects := db1\<rparr>) = (Inl e, ch2)" and changes: "change\<^sup>*\<^sup>* db1 (ch_objects ch2)"
  obtains db3 where "in_session en body finish ch = (Inl e, ch2\<lparr>ch_objects := db3\<rparr>)" "undo_ok (ce_undo en) db3"
    "snapshot db3 = snapshot (ch_objects ch)" "undo_rest (db_undo db3) = undo_rest (db_undo (ch_objects ch))"
    "undo_states (ce_undo en) db3 = take (ud_max_size (db_undo (ch_objects ch)) - 1) (undo_states (ce_undo en) (ch_objects ch))"
proof -
  obtain db3 where db3: "session_destroy (ce_undo en) ses (ch_objects ch2) = (Inr (), db3)" "undo_ok (ce_undo en) db3"
      "snapshot db3 = snapshot (ch_objects ch)"
      "undo_states (ce_undo en) db3 = take (ud_max_size (db_undo (ch_objects ch)) - 1) (undo_states (ce_undo en) (ch_objects ch))"
      "undo_rest (db_undo db3) = undo_rest (db_undo (ch_objects ch))"
    by (rule session_undone [OF en ok can active start changes])
  then have "in_session en body finish ch = (Inl e, ch2\<lparr>ch_objects := db3\<rparr>)"
    by (simp add: in_session_start [OF start] body on_objects_def)
  then show ?thesis using db3 that by blast
qed

lemma in_session_committed:
  assumes en: "faithful_variants (ce_undo en)" and ok: "undo_ok (ce_undo en) (ch_objects ch)" and can: "can_start (ce_undo en) (ch_objects ch)"
    and active: "ud_active_sessions (db_undo (ch_objects ch)) + 1 \<noteq> 0"
    and start: "with_undo (start_undo_session (ce_undo en) False) (ch_objects ch) = (Inr ses, db1)"
    and body: "body (ch\<lparr>ch_objects := db1\<rparr>) = (Inr x, ch2)" and changes: "change\<^sup>*\<^sup>* db1 (ch_objects ch2)"
  obtains s db3 where "in_session en body commit_session ch = (Inr x, ch2\<lparr>ch_objects := db3\<rparr>)" "undo_ok (ce_undo en) db3"
    "snapshot db3 = snapshot (ch_objects ch2)" "undo_rest (db_undo db3) = undo_rest (db_undo (ch_objects ch))"
    "undo_states (ce_undo en) db3 = s # take (ud_max_size (db_undo (ch_objects ch)) - 1) (undo_states (ce_undo en) (ch_objects ch))"
    "revert s (snapshot (ch_objects ch2)) = snapshot (ch_objects ch)"
proof -
  obtain s ses' db3 where db3: "session_commit ses (ch_objects ch2) = (Inr (), ses', db3)" "session_destroy (ce_undo en) ses' db3 = (Inr (), db3)"
      "undo_ok (ce_undo en) db3"
      "undo_states (ce_undo en) db3 = s # take (ud_max_size (db_undo (ch_objects ch)) - 1) (undo_states (ce_undo en) (ch_objects ch))"
      "revert s (snapshot (ch_objects ch2)) = snapshot (ch_objects ch)" "snapshot db3 = snapshot (ch_objects ch2)"
      "undo_rest (db_undo db3) = undo_rest (db_undo (ch_objects ch))"
    by (rule session_committed [OF en ok can active start changes])
  then have "in_session en body commit_session ch = (Inr x, ch2\<lparr>ch_objects := db3\<rparr>)"
    by (simp add: in_session_start [OF start] body on_objects_def commit_session_def)
  then show ?thesis using db3 that by blast
qed

end
