(* ===== verification/Chain_Pushing.thy ===== *)
theory Chain_Pushing
  imports Chain_Sessions Fork_Branches
begin

text \<open>
  Pushing a block on the head and popping it again.
\<close>

section \<open>What is assumed of the application of blocks\<close>

text \<open>
  Applying a block creates, changes and removes objects only through the object database. When it succeeds, the dynamic
  global properties have the number and the id of the block.
\<close>

definition applies_by_changes :: "('h, 't, 'v) chain_env \<Rightarrow> bool" where
  "applies_by_changes en \<longleftrightarrow> (\<forall>ch b r x ids. ce_apply_block en ch b = (r, x, ids) \<longrightarrow> change\<^sup>*\<^sup>* (ch_objects ch) x)"

definition applies_head :: "('h, 't, 'v) chain_env \<Rightarrow> bool" where
  "applies_head en \<longleftrightarrow> (\<forall>ch b x ids. ce_apply_block en ch b = (Inr (), x, ids) \<longrightarrow>
     (\<exists>p. view x dynamic_global_property_id = Some p \<and> ce_head_block_id en p = block_id (ce_block en) b \<and>
        ce_head_block_number en p = block_num b))"

text \<open>A block that is at most two hours old, and a state in which no session is open and the history can be written to disk.\<close>

definition recent :: "('h, 't, 'v) chain_env \<Rightarrow> ('h, 't) signed_block \<Rightarrow> ('h, 't, 'v) chain_database \<Rightarrow> bool" where
  "recent en b ch \<longleftrightarrow> ce_now en (ch_clock ch) - 7200 * 1000000 \<le> uint (blk_timestamp b) * 1000000"

definition idle :: "('h, 't, 'v) chain_env \<Rightarrow> ('h, 't, 'v) chain_database \<Rightarrow> bool" where
  "idle en ch \<longleftrightarrow> undo_ok (ce_undo en) (ch_objects ch) \<and> spillable (ce_undo en) (undo_states (ce_undo en) (ch_objects ch)) \<and>
     ud_open (db_undo (ch_objects ch)) \<and> ud_active_sessions (db_undo (ch_objects ch)) = 0"

lemma spillable_rev: "spillable en (rev ss) = spillable en ss"
  by (simp add: spillable_def rev_map [symmetric])

lemma can_start_states:
  "can_start en db \<longleftrightarrow> spillable en (undo_states en db) \<and> ud_open (db_undo db) \<and> GRAPHENE_UNDO_BUFF_MAX_SIZE + 10 < ud_max_size (db_undo db)"
  by (simp add: can_start_def undo_states_def spillable_rev)

lemma spillable_take: "spillable en ss \<Longrightarrow> spillable en (take n ss)"
  by (auto simp: spillable_def take_map [symmetric] dest: in_set_takeD)

lemma note_age_recent:
  "recent en b ch \<Longrightarrow> note_age en b ch = ch\<lparr>ch_clock := ch_clock ch + 1, ch_discard_count := 0,
     ch_objects := (ch_objects ch)\<lparr>db_undo := set_max_size 1440 (db_undo (ch_objects ch))\<rparr>\<rparr>"
  by (simp add: note_age_def recent_def Let_def)

lemma idle_recent:
  assumes "idle en ch" "recent en b ch"
  shows "undo_ok (ce_undo en) (ch_objects (note_age en b ch))" "can_start (ce_undo en) (ch_objects (note_age en b ch))"
    "ud_active_sessions (db_undo (ch_objects (note_age en b ch))) = 0" "ud_max_size (db_undo (ch_objects (note_age en b ch))) = 1440"
    "undo_states (ce_undo en) (ch_objects (note_age en b ch)) = undo_states (ce_undo en) (ch_objects ch)"
    "snapshot (ch_objects (note_age en b ch)) = snapshot (ch_objects ch)" "ud_open (db_undo (ch_objects (note_age en b ch)))"
proof -
  show "can_start (ce_undo en) (ch_objects (note_age en b ch))"
    using assms by (simp add: can_start_states note_age_recent idle_def undo_ok_max)
      (simp add: set_max_size_def GRAPHENE_UNDO_BUFF_MAX_SIZE_def)
qed (use assms in \<open>simp_all add: note_age_recent idle_def undo_ok_max\<close>, simp_all add: set_max_size_def)

section \<open>One block\<close>

lemma apply_block_changes:
  assumes "applies_by_changes en" "apply_block en b skip ch = (r, ch')"
  shows "change\<^sup>*\<^sup>* (ch_objects ch) (ch_objects ch') \<and>
    ch' = ch\<lparr>ch_objects := ch_objects ch', ch_push_transaction_tx_ids := ch_push_transaction_tx_ids ch'\<rparr> \<and>
    (r = Inr () \<longrightarrow> (\<exists>ch0 ids. ce_apply_block en ch0 b = (Inr (), ch_objects ch', ids)))"
proof -
  have run: "change\<^sup>*\<^sup>* (ch_objects ch) (ch_objects ch2) \<and>
      ch2 = ch\<lparr>ch_objects := ch_objects ch2, ch_push_transaction_tx_ids := ch_push_transaction_tx_ids ch2\<rparr> \<and>
      (r2 = Inr () \<longrightarrow> (\<exists>ch0 ids. ce_apply_block en ch0 b = (Inr (), ch_objects ch2, ids)))"
    if "with_skip_flags s (run_apply_block en b) ch = (r2, ch2)" for s r2 ch2
    using that assms(1) unfolding applies_by_changes_def
    by (fastforce simp: with_skip_flags_def run_apply_block_def split: prod.splits)
  have "change\<^sup>*\<^sup>* (ch_objects ch) (ch_objects ch) \<and> ch = ch\<lparr>ch_objects := ch_objects ch, ch_push_transaction_tx_ids := ch_push_transaction_tx_ids ch\<rparr>"
    by simp
  then show ?thesis
    using assms(2) run [of _ r ch'] by (auto simp: apply_block_def Let_def split: if_splits option.splits)
qed

lemma bd_store_failed: "bd_store en cd i b db = (Inl e, db') \<Longrightarrow> db' = db"
  by (auto simp: bd_store_def Let_def split: if_splits sum.splits)

text \<open>What \<^verbatim>\<open>apply_block\<close> and the block database leave, before the session ends.\<close>

lemma apply_then_store:
  assumes changes: "applies_by_changes en"
    and run: "run_bind (apply_block en b skip) (\<lambda>_. on_block_db (bd_store (ce_block en) (ce_codec en) i b)) ch = (r, ch')"
  shows "change\<^sup>*\<^sup>* (ch_objects ch) (ch_objects ch')" "ch_fork_db ch' = ch_fork_db ch" "ch_pending_tx_session ch' = ch_pending_tx_session ch"
    "ch_popped_tx ch' = ch_popped_tx ch" "r = Inl e \<Longrightarrow> ch_block_id_to_block ch' = ch_block_id_to_block ch"
    "r = Inr () \<Longrightarrow> bd_store (ce_block en) (ce_codec en) i b (ch_block_id_to_block ch) = (Inr (), ch_block_id_to_block ch')"
    "r = Inr () \<Longrightarrow> \<exists>ch0 ids. ce_apply_block en ch0 b = (Inr (), ch_objects ch', ids)"
proof -
  obtain r1 ch1 where ap: "apply_block en b skip ch = (r1, ch1)" by fastforce
  note c = apply_block_changes [OF changes ap]
  have f: "ch_block_id_to_block ch1 = ch_block_id_to_block ch" "ch_fork_db ch1 = ch_fork_db ch"
      "ch_pending_tx_session ch1 = ch_pending_tx_session ch" "ch_popped_tx ch1 = ch_popped_tx ch"
    by (subst c [THEN conjunct2, THEN conjunct1], simp)+
  show "change\<^sup>*\<^sup>* (ch_objects ch) (ch_objects ch')" "ch_fork_db ch' = ch_fork_db ch" "ch_pending_tx_session ch' = ch_pending_tx_session ch"
    "ch_popped_tx ch' = ch_popped_tx ch"
    using run ap c [THEN conjunct1] f by (cases r1; auto simp: run_bind_def on_block_db_def split: prod.splits)+
  show "ch_block_id_to_block ch' = ch_block_id_to_block ch" if "r = Inl e"
    using run ap f that by (cases r1) (auto simp: run_bind_def on_block_db_def split: prod.splits dest: bd_store_failed)
  show "bd_store (ce_block en) (ce_codec en) i b (ch_block_id_to_block ch) = (Inr (), ch_block_id_to_block ch')" if "r = Inr ()"
    using run ap f that by (cases r1) (auto simp: run_bind_def on_block_db_def split: prod.splits)
  show "\<exists>ch0 ids. ce_apply_block en ch0 b = (Inr (), ch_objects ch', ids)" if "r = Inr ()"
  proof -
    have "r1 = Inr ()" "ch_objects ch' = ch_objects ch1"
      using run ap that by (cases r1; auto simp: run_bind_def on_block_db_def split: prod.splits)+
    then show ?thesis using c by simp
  qed
qed

lemma apply_and_store_run:
  assumes en: "faithful_variants (ce_undo en)" "applies_by_changes en" and ch: "idle en ch" "recent en b ch"
    and run: "apply_and_store en skip i b ch = (r, ch')"
  obtains (failed) e ch1 ch2 db3 where "r = Inl e" "ch' = ch2\<lparr>ch_objects := db3\<rparr>" "ch1 = (note_age en b ch)\<lparr>ch_objects := ch_objects ch1\<rparr>"
    "snapshot (ch_objects ch1) = snapshot (ch_objects ch)" "undo_ok (ce_undo en) (ch_objects ch1)" "undo_states (ce_undo en) (ch_objects ch1) \<noteq> []"
    "run_bind (apply_block en b skip) (\<lambda>_. on_block_db (bd_store (ce_block en) (ce_codec en) i b)) ch1 = (Inl e, ch2)"
    "undo_ok (ce_undo en) db3" "snapshot db3 = snapshot (ch_objects ch)" "ud_open (db_undo db3)" "ud_active_sessions (db_undo db3) = 0"
    "undo_states (ce_undo en) db3 = take 1439 (undo_states (ce_undo en) (ch_objects ch))"
  | (stored) s ch1 ch2 db3 where "r = Inr ()" "ch' = ch2\<lparr>ch_objects := db3\<rparr>" "ch1 = (note_age en b ch)\<lparr>ch_objects := ch_objects ch1\<rparr>"
    "snapshot (ch_objects ch1) = snapshot (ch_objects ch)" "undo_ok (ce_undo en) (ch_objects ch1)" "undo_states (ce_undo en) (ch_objects ch1) \<noteq> []"
    "run_bind (apply_block en b skip) (\<lambda>_. on_block_db (bd_store (ce_block en) (ce_codec en) i b)) ch1 = (Inr (), ch2)"
    "undo_ok (ce_undo en) db3" "snapshot db3 = snapshot (ch_objects ch2)" "ud_open (db_undo db3)" "ud_active_sessions (db_undo db3) = 0"
    "undo_states (ce_undo en) db3 = s # take 1439 (undo_states (ce_undo en) (ch_objects ch))"
    "revert s (snapshot (ch_objects ch2)) = snapshot (ch_objects ch)"
proof -
  let ?ch = "note_age en b ch" and ?ue = "ce_undo en"
  let ?body = "run_bind (apply_block en b skip) (\<lambda>_. on_block_db (bd_store (ce_block en) (ce_codec en) i b))"
  note n = idle_recent [OF ch]
  have active: "ud_active_sessions (db_undo (ch_objects ?ch)) + 1 \<noteq> 0" using n(3) by simp
  have run': "in_session en ?body commit_session ?ch = (r, ch')"
    using run by (simp add: apply_and_store_def run_bind_def run_update_def)
  obtain ses db1 where start: "with_undo (start_undo_session ?ue False) (ch_objects ?ch) = (Inr ses, db1)"
      "snapshot db1 = snapshot (ch_objects ?ch)" "undo_ok ?ue db1" "undo_states ?ue db1 \<noteq> []"
    using start_session [OF en(1) n(1,2)] by (metis list.distinct(1))
  obtain r2 ch2 where body: "?body (?ch\<lparr>ch_objects := db1\<rparr>) = (r2, ch2)" by fastforce
  have changes: "change\<^sup>*\<^sup>* db1 (ch_objects ch2)" using apply_then_store(1) [OF en(2) body] by simp
  show ?thesis
  proof (cases r2)
    case (Inl e)
    obtain db3 where "in_session en ?body commit_session ?ch = (Inl e, ch2\<lparr>ch_objects := db3\<rparr>)" "undo_ok ?ue db3"
        "snapshot db3 = snapshot (ch_objects ?ch)" "undo_rest (db_undo db3) = undo_rest (db_undo (ch_objects ?ch))"
        "undo_states ?ue db3 = take (ud_max_size (db_undo (ch_objects ?ch)) - 1) (undo_states ?ue (ch_objects ?ch))"
      by (rule in_session_failed [of en ?ch ses db1 ?body e ch2 commit_session,
            OF en(1) n(1,2) active start(1) body [unfolded Inl] changes])
    then show ?thesis using failed [of e db3 ch2 "?ch\<lparr>ch_objects := db1\<rparr>"] run' body Inl n start(2-4) by (simp add: undo_rest_eq)
  next
    case (Inr x)
    obtain s db3 where "in_session en ?body commit_session ?ch = (Inr x, ch2\<lparr>ch_objects := db3\<rparr>)" "undo_ok ?ue db3"
        "snapshot db3 = snapshot (ch_objects ch2)" "undo_rest (db_undo db3) = undo_rest (db_undo (ch_objects ?ch))"
        "undo_states ?ue db3 = s # take (ud_max_size (db_undo (ch_objects ?ch)) - 1) (undo_states ?ue (ch_objects ?ch))"
        "revert s (snapshot (ch_objects ch2)) = snapshot (ch_objects ?ch)"
      by (rule in_session_committed [of en ?ch ses db1 ?body x ch2,
            OF en(1) n(1,2) active start(1) body [unfolded Inr] changes])
    then show ?thesis using stored [of db3 ch2 "?ch\<lparr>ch_objects := db1\<rparr>" s] run' body Inr n start(2-4) by (simp add: undo_rest_eq)
  qed
qed

text \<open>A block that fails leaves everything as it was, but for the clock, the counter and the ids of its transactions.\<close>

lemma note_age_frame:
  assumes "recent en b ch"
  shows "ch_block_id_to_block (note_age en b ch) = ch_block_id_to_block ch" "ch_fork_db (note_age en b ch) = ch_fork_db ch"
    "ch_pending_tx_session (note_age en b ch) = ch_pending_tx_session ch" "ch_popped_tx (note_age en b ch) = ch_popped_tx ch"
  using assms by (simp_all add: note_age_recent)

lemma apply_and_store_failed:
  assumes en: "faithful_variants (ce_undo en)" "applies_by_changes en" and ch: "idle en ch" "recent en b ch"
    and run: "apply_and_store en skip i b ch = (Inl e, ch')"
  shows "idle en ch' \<and> snapshot (ch_objects ch') = snapshot (ch_objects ch) \<and> ch_block_id_to_block ch' = ch_block_id_to_block ch \<and>
    ch_fork_db ch' = ch_fork_db ch \<and> ch_pending_tx_session ch' = ch_pending_tx_session ch \<and> ch_popped_tx ch' = ch_popped_tx ch \<and>
      undo_states (ce_undo en) (ch_objects ch') = take 1439 (undo_states (ce_undo en) (ch_objects ch))"
proof (rule apply_and_store_run [OF en ch run])
  fix e' ch1 ch2 db3
  assume a: "ch' = ch2\<lparr>ch_objects := db3\<rparr>" "ch1 = (note_age en b ch)\<lparr>ch_objects := ch_objects ch1\<rparr>"
    "run_bind (apply_block en b skip) (\<lambda>_. on_block_db (bd_store (ce_block en) (ce_codec en) i b)) ch1 = (Inl e', ch2)"
    "undo_ok (ce_undo en) db3" "snapshot db3 = snapshot (ch_objects ch)" "ud_open (db_undo db3)" "ud_active_sessions (db_undo db3) = 0"
    "undo_states (ce_undo en) db3 = take 1439 (undo_states (ce_undo en) (ch_objects ch))"
  have f: "ch_block_id_to_block ch1 = ch_block_id_to_block ch" "ch_fork_db ch1 = ch_fork_db ch"
      "ch_pending_tx_session ch1 = ch_pending_tx_session ch" "ch_popped_tx ch1 = ch_popped_tx ch"
    by (subst a(2), simp add: note_age_frame [OF ch(2)])+
  show "idle en ch' \<and> snapshot (ch_objects ch') = snapshot (ch_objects ch) \<and> ch_block_id_to_block ch' = ch_block_id_to_block ch \<and>
      ch_fork_db ch' = ch_fork_db ch \<and> ch_pending_tx_session ch' = ch_pending_tx_session ch \<and> ch_popped_tx ch' = ch_popped_tx ch \<and>
      undo_states (ce_undo en) (ch_objects ch') = take 1439 (undo_states (ce_undo en) (ch_objects ch))"
    using a(1,4-8) f apply_then_store(2-5) [OF en(2) a(3)] ch(1) by (simp add: idle_def spillable_take)
qed simp

lemma head_block_id_view:
  "head_block_id en ch = Inr i \<longleftrightarrow> (\<exists>p. view (ch_objects ch) dynamic_global_property_id = Some p \<and> ce_head_block_id en p = i)"
  by (auto simp: head_block_id_def ebind_eq_Inr view_get_object)

text \<open>A block that is applied: one more state in the history, one more block in the block database.\<close>

lemma apply_and_store_stored:
  assumes en: "faithful_variants (ce_undo en)" "applies_by_changes en" and ch: "idle en ch" "recent en b ch"
    and bd: "bd_wf (ce_block en) (ce_codec en) (ch_block_id_to_block ch)" "block_storable (ce_block en) (ce_codec en) b (ch_block_id_to_block ch)"
      "i = block_id (ce_block en) b"
    and run: "apply_and_store en skip i b ch = (Inr (), ch')"
  obtains s where "undo_ok (ce_undo en) (ch_objects ch')" "ud_open (db_undo (ch_objects ch'))" "ud_active_sessions (db_undo (ch_objects ch')) = 0"
    "undo_states (ce_undo en) (ch_objects ch') = s # take 1439 (undo_states (ce_undo en) (ch_objects ch))"
    "revert s (snapshot (ch_objects ch')) = snapshot (ch_objects ch)" "bd_wf (ce_block en) (ce_codec en) (ch_block_id_to_block ch')"
    "live (ce_codec en) (ch_block_id_to_block ch') = (live (ce_codec en) (ch_block_id_to_block ch))(block_num b \<mapsto> b)"
    "ch_fork_db ch' = ch_fork_db ch" "ch_pending_tx_session ch' = ch_pending_tx_session ch" "ch_popped_tx ch' = ch_popped_tx ch"
    "applies_head en \<Longrightarrow> head_block_id en ch' = Inr i"
proof (rule apply_and_store_run [OF en ch run])
  fix s ch1 ch2 db3
  assume a: "ch' = ch2\<lparr>ch_objects := db3\<rparr>" "ch1 = (note_age en b ch)\<lparr>ch_objects := ch_objects ch1\<rparr>"
    "run_bind (apply_block en b skip) (\<lambda>_. on_block_db (bd_store (ce_block en) (ce_codec en) i b)) ch1 = (Inr (), ch2)"
    "undo_ok (ce_undo en) db3" "snapshot db3 = snapshot (ch_objects ch2)" "ud_open (db_undo db3)" "ud_active_sessions (db_undo db3) = 0"
    "undo_states (ce_undo en) db3 = s # take 1439 (undo_states (ce_undo en) (ch_objects ch))"
    "revert s (snapshot (ch_objects ch2)) = snapshot (ch_objects ch)"
  have f: "ch_block_id_to_block ch1 = ch_block_id_to_block ch" "ch_fork_db ch1 = ch_fork_db ch"
      "ch_pending_tx_session ch1 = ch_pending_tx_session ch" "ch_popped_tx ch1 = ch_popped_tx ch"
    by (subst a(2), simp add: note_age_frame [OF ch(2)])+
  note c = apply_then_store(2-4,6,7) [OF en(2) a(3)]
  have st: "bd_wf (ce_block en) (ce_codec en) (ch_block_id_to_block ch2)"
      "live (ce_codec en) (ch_block_id_to_block ch2) = (live (ce_codec en) (ch_block_id_to_block ch))(block_num b \<mapsto> b)"
    using bd_store_live [OF bd(1,2), of i] c(4) bd(3) f(1) by auto
  have "head_block_id en ch' = Inr i" if h: "applies_head en"
  proof -
    obtain p where "view (ch_objects ch2) dynamic_global_property_id = Some p" "ce_head_block_id en p = i"
      using c(5) h bd(3) unfolding applies_head_def by blast
    then show ?thesis using a(1,5) by (simp add: head_block_id_view snapshot_def)
  qed
  then show ?thesis using that [of s] a f c(1-3) st by simp
qed simp

section \<open>Popping the head\<close>

lemma fetch_live_block:
  assumes "bd_wf (ce_block en) (ce_codec en) (ch_block_id_to_block ch)"
    "live (ce_codec en) (ch_block_id_to_block ch) (num_from_id i) = Some b" "block_id (ce_block en) b = i"
  shows "\<exists>b'. fetch_block_by_id en ch i = Some b'"
  using assms by (auto simp: fetch_block_by_id_def fetch_optional_live split: option.splits)

lemma pop_block_ok:
  assumes en: "faithful_variants (ce_undo en)" and ok: "undo_ok (ce_undo en) (ch_objects ch)" "undo_states (ce_undo en) (ch_objects ch) = s # ss"
      "ud_active_sessions (db_undo (ch_objects ch)) = 0" "ch_pending_tx_session ch = None"
    and head: "head_block_id en ch = Inr i" "live (ce_codec en) (ch_block_id_to_block ch) (num_from_id i) = Some b" "block_id (ce_block en) b = i"
      "bd_wf (ce_block en) (ce_codec en) (ch_block_id_to_block ch)"
    and fork: "fd_head (ch_fork_db ch) = Some h" "weak_lock (ch_fork_db ch) (fi_prev (item (ch_fork_db ch) h)) = Some p"
  obtains ch' where "pop_block en ch = (Inr (), ch')" "undo_ok (ce_undo en) (ch_objects ch')" "undo_states (ce_undo en) (ch_objects ch') = ss"
    "undo_rest (db_undo (ch_objects ch')) = undo_rest (db_undo (ch_objects ch))" "snapshot (ch_objects ch') = revert s (snapshot (ch_objects ch))"
    "bd_wf (ce_block en) (ce_codec en) (ch_block_id_to_block ch')"
    "live (ce_codec en) (ch_block_id_to_block ch') = (live (ce_codec en) (ch_block_id_to_block ch))(num_from_id i := None)"
    "ch_fork_db ch' = (ch_fork_db ch)\<lparr>fd_head := Some p\<rparr>" "ch_pending_tx_session ch' = None"
proof -
  obtain b' where b': "fetch_block_by_id en ch i = Some b'" using fetch_live_block [OF head(4,2,3)] by blast
  obtain bd where bd: "bd_remove i (ch_block_id_to_block ch) = (Inr (), bd)" "bd_wf (ce_block en) (ce_codec en) bd"
      "live (ce_codec en) bd = (live (ce_codec en) (ch_block_id_to_block ch))(num_from_id i := None)"
    using bd_remove_live [OF head(4) live_in_index [OF head(2)]] head(2,3) by auto
  obtain db where db: "pop_commit (ce_undo en) (ch_objects ch) = (Inr (), db)" "undo_ok (ce_undo en) db" "undo_states (ce_undo en) db = ss"
      "snapshot db = revert s (snapshot (ch_objects ch))"
    using pop_refines [OF en ok(1-3)] by blast
  have "\<not> ud_disabled (db_undo (ch_objects ch))" using ok(1) by (simp add: undo_ok_def undo_inv_def)
  then have rest: "undo_rest (db_undo db) = undo_rest (db_undo (ch_objects ch))"
    using pop_commit_size(2) [OF db(1)] by (simp add: undo_rest_eq undo_enable_def)
  let ?ch = "ch\<lparr>ch_fork_db := (ch_fork_db ch)\<lparr>fd_head := Some p\<rparr>, ch_block_id_to_block := bd, ch_objects := db,
    ch_popped_tx := blk_transactions b' @ ch_popped_tx ch\<rparr>"
  have "pop_block en ch = (Inr (), ?ch)"
    using ok(4) head(1) b' fork bd(1) db(1)
    by (simp add: pop_block_def pop_head_def reset_pending_session_def run_bind_def on_fork_db_def on_block_db_def on_objects_def
        fork_pop_block_def run_update_def)
  then show ?thesis using that [of ?ch] bd db rest ok(4) by simp
qed

section \<open>Pushing on the head\<close>

text \<open>The new block builds on the head of the chain, and the fork database takes it as its head.\<close>

definition extends_head :: "('h, 't, 'v) chain_env \<Rightarrow> ('h, 't) signed_block \<Rightarrow> ('h, 't, 'v) chain_database \<Rightarrow> bool" where
  "extends_head en b ch \<longleftrightarrow> ch_skip_flags ch AND skip_fork_db = 0 \<and> head_block_id en ch = Inr (blk_previous b) \<and>
     (\<exists>h fd. fork_push_block (ce_block en) b (ch_fork_db ch) = (Inr (Some h), fd) \<and> fi_data (item fd h) = b)"

lemma push_block_impl_extends:
  assumes "extends_head en b ch" "fork_push_block (ce_block en) b (ch_fork_db ch) = (r, fd)"
  shows "push_block_impl en b ch = Some (push_head en (ch_skip_flags ch) b (ch\<lparr>ch_fork_db := fd\<rparr>))"
  using assms by (auto simp: extends_head_def push_block_impl_def Let_def on_fork_db_def head_block_id_def)

lemma push_failed:
  assumes en: "faithful_variants (ce_undo en)" "applies_by_changes en" and ch: "idle en ch" "recent en b ch" "extends_head en b ch"
    and run: "push_block_impl en b ch = Some (Inl e, ch')" "fc_exception e"
  shows "idle en ch'" "snapshot (ch_objects ch') = snapshot (ch_objects ch)" "ch_block_id_to_block ch' = ch_block_id_to_block ch"
    "ch_pending_tx_session ch' = ch_pending_tx_session ch"
    "ch_fork_db ch' = fork_remove (block_id (ce_block en) b) (snd (fork_push_block (ce_block en) b (ch_fork_db ch)))"
proof -
  obtain h fd where fd: "fork_push_block (ce_block en) b (ch_fork_db ch) = (Inr (Some h), fd)" using ch(3) by (auto simp: extends_head_def)
  let ?ch = "ch\<lparr>ch_fork_db := fd\<rparr>"
  obtain r ch1 where ap: "apply_and_store en (ch_skip_flags ch) (block_id (ce_block en) b) b ?ch = (r, ch1)" by fastforce
  have "r = Inl e" and ch': "ch' = ch1\<lparr>ch_fork_db := fork_remove (block_id (ce_block en) b) (ch_fork_db ch1)\<rparr>"
    using run ap push_block_impl_extends [OF ch(3) fd] by (auto simp: push_head_def split: sum.splits)
  then have ap: "apply_and_store en (ch_skip_flags ch) (block_id (ce_block en) b) b ?ch = (Inl e, ch1)" using ap by simp
  have i: "idle en ?ch" "recent en b ?ch" using ch(1,2) by (simp_all add: idle_def recent_def)
  note f = apply_and_store_failed [OF en i ap]
  then show "idle en ch'" "snapshot (ch_objects ch') = snapshot (ch_objects ch)" "ch_block_id_to_block ch' = ch_block_id_to_block ch"
    "ch_pending_tx_session ch' = ch_pending_tx_session ch"
    "ch_fork_db ch' = fork_remove (block_id (ce_block en) b) (snd (fork_push_block (ce_block en) b (ch_fork_db ch)))"
    using ch(1) unfolding ch' fd by (simp_all add: idle_def spillable_take)
qed

text \<open>Pushing a block and popping it again.\<close>

lemma push_then_pop:
  assumes en: "faithful_variants (ce_undo en)" "applies_by_changes en" "applies_head en"
    and ch: "idle en ch" "recent en b ch" "extends_head en b ch" "ch_pending_tx_session ch = None"
    and bd: "bd_wf (ce_block en) (ce_codec en) (ch_block_id_to_block ch)" "block_storable (ce_block en) (ce_codec en) b (ch_block_id_to_block ch)"
    and fork: "fork_push_block (ce_block en) b (ch_fork_db ch) = (Inr (Some h), fd)"
      "weak_lock fd (fi_prev (item fd h)) = Some p"
    and run: "push_block_impl en b ch = Some (Inr r, ch')"
  shows "\<not> r \<and> head_block_id en ch' = Inr (block_id (ce_block en) b) \<and>
    live (ce_codec en) (ch_block_id_to_block ch') = (live (ce_codec en) (ch_block_id_to_block ch))(block_num b \<mapsto> b) \<and>
    (\<exists>ch''. pop_block en ch' = (Inr (), ch'') \<and> snapshot (ch_objects ch'') = snapshot (ch_objects ch) \<and> idle en ch'' \<and>
       live (ce_codec en) (ch_block_id_to_block ch'') = (live (ce_codec en) (ch_block_id_to_block ch))(block_num b := None) \<and>
       fd_head (ch_fork_db ch'') = Some p)"
proof -
  let ?ch = "ch\<lparr>ch_fork_db := fd\<rparr>" and ?i = "block_id (ce_block en) b"
  obtain q ch1 where ap: "apply_and_store en (ch_skip_flags ch) ?i b ?ch = (q, ch1)" by fastforce
  have q: "q = Inr ()" "ch' = ch1" "\<not> r"
    using run ap push_block_impl_extends [OF ch(3) fork(1)] by (auto simp: push_head_def split: sum.splits)
  have i: "idle en ?ch" "recent en b ?ch" "bd_wf (ce_block en) (ce_codec en) (ch_block_id_to_block ?ch)"
      "block_storable (ce_block en) (ce_codec en) b (ch_block_id_to_block ?ch)"
    using ch(1,2) bd by (simp_all add: idle_def recent_def)
  have d: "ud_open (db_undo (ch_objects ch))" "spillable (ce_undo en) (undo_states (ce_undo en) (ch_objects ch))"
    using ch(1) by (simp_all add: idle_def)
  show ?thesis
  proof (rule apply_and_store_stored [OF en(1,2) i refl ap [unfolded q(1)]])
    fix s
    assume a: "undo_ok (ce_undo en) (ch_objects ch1)" "ud_open (db_undo (ch_objects ch1))" "ud_active_sessions (db_undo (ch_objects ch1)) = 0"
      "undo_states (ce_undo en) (ch_objects ch1) = s # take 1439 (undo_states (ce_undo en) (ch_objects ?ch))"
      "revert s (snapshot (ch_objects ch1)) = snapshot (ch_objects ?ch)" "bd_wf (ce_block en) (ce_codec en) (ch_block_id_to_block ch1)"
      "live (ce_codec en) (ch_block_id_to_block ch1) = (live (ce_codec en) (ch_block_id_to_block ?ch))(block_num b \<mapsto> b)"
      "ch_fork_db ch1 = ch_fork_db ?ch" "ch_pending_tx_session ch1 = ch_pending_tx_session ?ch"
      "applies_head en \<Longrightarrow> head_block_id en ch1 = Inr ?i"
    have l: "live (ce_codec en) (ch_block_id_to_block ch1) (num_from_id ?i) = Some b" using a(7) by (simp add: num_from_block_id)
    have f: "fd_head (ch_fork_db ch1) = Some h" "weak_lock (ch_fork_db ch1) (fi_prev (item (ch_fork_db ch1) h)) = Some p"
      using fork a(8) by (auto simp: fork_push_block_def run_bind_def run_get_def split: prod.splits sum.splits)
    obtain ch2 where "pop_block en ch1 = (Inr (), ch2)" "undo_ok (ce_undo en) (ch_objects ch2)"
        "undo_states (ce_undo en) (ch_objects ch2) = take 1439 (undo_states (ce_undo en) (ch_objects ?ch))"
        "undo_rest (db_undo (ch_objects ch2)) = undo_rest (db_undo (ch_objects ch1))"
        "snapshot (ch_objects ch2) = revert s (snapshot (ch_objects ch1))"
        "live (ce_codec en) (ch_block_id_to_block ch2) = (live (ce_codec en) (ch_block_id_to_block ch1))(num_from_id ?i := None)"
        "ch_fork_db ch2 = (ch_fork_db ch1)\<lparr>fd_head := Some p\<rparr>"
      by (rule pop_block_ok [OF en(1) a(1,4,3) _ a(10) [OF en(3)] l refl a(6) f]) (use a(9) ch(4) in simp_all)
    then show ?thesis using q a(2,3,5,7) a(10) [OF en(3)] d
      by (auto simp: idle_def undo_rest_eq spillable_take num_from_block_id)
  qed
qed

section \<open>The head of the fork database after a failure\<close>

text \<open>A block whose predecessor is not the head is refused, with an exception that is caught.\<close>

definition applies_checked :: "('h, 't, 'v) chain_env \<Rightarrow> bool" where
  "applies_checked en \<longleftrightarrow> (\<forall>ch b r x ids. ce_apply_block en ch b = (r, x, ids) \<longrightarrow>
     head_block_id en ch \<noteq> Inr (blk_previous b) \<longrightarrow> (\<exists>e. r = Inl e \<and> fc_exception e))"

lemma apply_block_checked:
  assumes "applies_checked en" "head_block_id en ch \<noteq> Inr (blk_previous b)"
  shows "\<exists>e ch'. apply_block en b skip ch = (Inl e, ch') \<and> fc_exception e"
proof -
  have "\<exists>e ch'. with_skip_flags s (run_apply_block en b) ch = (Inl e, ch') \<and> fc_exception e" for s
  proof -
    obtain r x ids where ap: "ce_apply_block en (ch\<lparr>ch_skip_flags := s\<rparr>) b = (r, x, ids)" using prod_cases3 by blast
    then obtain e where "r = Inl e" "fc_exception e"
      using assms unfolding applies_checked_def by (metis (no_types, lifting) chain_database.select_convs(3) chain_database.surjective
          chain_database.update_convs(5) head_block_id_def)
    then show ?thesis using ap by (simp add: with_skip_flags_def run_apply_block_def)
  qed
  moreover have "fc_exception (Fc_assert m)" for m by (simp add: fc_exception_def ends_process_def)
  ultimately show ?thesis by (auto simp: apply_block_def Let_def split: option.splits)
qed

text \<open>As long as no block has a higher number, the fork database answers with its old head.\<close>

lemma fork_push_keeps_head:
  assumes "fd_head fd = Some h" "h < length (fd_heap fd)" "block_num b \<le> fi_num (item fd h)"
    and "fork_push_block en b fd = (Inr r, fd')"
  shows "r = Some h \<and> fi_data (item fd' h) = fi_data (item fd h)"
proof -
  let ?a = "length (fd_heap fd)" and ?fd = "fd\<lparr>fd_heap := fd_heap fd @ [make_fork_item en b]\<rparr>"
  have it: "item ?fd ?a = make_fork_item en b" "item ?fd h = item fd h" using assms(2) by (simp_all add: item_def nth_append)
  obtain fd1 where l: "link_item ?a ?fd = (Inr (), fd1)" "fd' = advance_head ?a (fd1\<lparr>fd_index := index_insert fd1 ?a (fd_index fd1)\<rparr>)" "r = fd_head fd'"
    using assms(4) by (auto simp: fork_push_block_def make_shared_def run_bind_Inr run_get_def push_item_def run_update_def split: if_splits)
  have "fd_head fd1 = Some h" "item fd1 h = item fd h" "fi_num (item fd1 ?a) = block_num b"
    using l(1) assms(1,2) it by (auto simp: link_item_def set_item_def item_def make_fork_item_def nth_append split: if_splits option.splits)
  then have "fd' = fd1\<lparr>fd_index := index_insert fd1 ?a (fd_index fd1)\<rparr>"
    using l(2) assms(3) by (simp add: advance_head_def item_def)
  then show ?thesis using l(3) \<open>fd_head fd1 = Some h\<close> \<open>item fd1 h = item fd h\<close> by (simp add: item_def)
qed

text \<open>
  After a failure the head of the fork database is a block that it no longer knows. It makes a block of another fork look as if it
  were to be applied on the head, where it fails and is forgotten.
\<close>

lemma stale_head:
  assumes en: "faithful_variants (ce_undo en)" "applies_by_changes en" "applies_checked en"
    and ch: "idle en ch" "recent en g ch" "ch_skip_flags ch AND skip_fork_db = 0"
    and head: "fd_head (ch_fork_db ch) = Some h" "h < length (fd_heap (ch_fork_db ch))" "head_block_id en ch = Inr (blk_previous (fi_data (item (ch_fork_db ch) h)))"
    and g: "block_num g \<le> fi_num (item (ch_fork_db ch) h)" "blk_previous g \<noteq> blk_previous (fi_data (item (ch_fork_db ch) h))"
      "fork_push_block (ce_block en) g (ch_fork_db ch) = (Inr r, fd)"
  shows "\<exists>e ch'. push_block_impl en g ch = Some (Inl e, ch') \<and> fc_exception e \<and>
    index_find (ch_fork_db ch') (fd_index (ch_fork_db ch')) (block_id (ce_block en) g) = None"
proof -
  let ?ch = "ch\<lparr>ch_fork_db := fd\<rparr>" and ?i = "block_id (ce_block en) g"
  have r: "r = Some h" "fi_data (item fd h) = fi_data (item (ch_fork_db ch) h)"
    using fork_push_keeps_head [OF head(1,2) g(1,3)] by simp_all
  have push: "push_block_impl en g ch = Some (push_head en (ch_skip_flags ch) g ?ch)"
    using ch(3) g(3) r head(3) by (simp add: push_block_impl_def Let_def on_fork_db_def head_block_id_def)
  have i: "idle en ?ch" "recent en g ?ch" using ch(1,2) by (simp_all add: idle_def recent_def)
  obtain q ch2 where ap: "apply_and_store en (ch_skip_flags ch) ?i g ?ch = (q, ch2)" by fastforce
  have "\<exists>e. q = Inl e \<and> fc_exception e"
  proof -
    have body: "\<exists>e ch3. run_bind (apply_block en g (ch_skip_flags ch)) (\<lambda>_. on_block_db (bd_store (ce_block en) (ce_codec en) ?i g)) ch1 = (Inl e, ch3) \<and> fc_exception e"
      if s: "snapshot (ch_objects ch1) = snapshot (ch_objects ?ch)" for ch1
    proof -
      have "view (ch_objects ch1) = view (ch_objects ch)" using s by (simp add: snapshot_def)
      then have "head_block_id en ch1 = Inr (blk_previous (fi_data (item (ch_fork_db ch) h)))" using head(3) by (simp add: head_block_id_view)
      then show ?thesis using apply_block_checked [OF en(3), of ch1 g "ch_skip_flags ch"] g(2) by (auto simp: run_bind_def)
    qed
    show ?thesis
      by (rule apply_and_store_run [OF en(1,2) i ap]) (use body in fastforce)+
  qed
  then obtain e where e: "q = Inl e" "fc_exception e" by blast
  let ?ch3 = "ch2\<lparr>ch_fork_db := fork_remove ?i (ch_fork_db ch2)\<rparr>"
  have "push_block_impl en g ch = Some (Inl e, ?ch3)" using push ap e by (simp add: push_head_def)
  moreover have "index_find (ch_fork_db ?ch3) (fd_index (ch_fork_db ?ch3)) ?i = None"
    by (auto simp: index_find_None fork_remove_def index_erase_def item_def)
  ultimately show ?thesis using e(2) by blast
qed

text \<open>So it is after a block on the head has failed.\<close>

lemma stale_after_failure:
  assumes en: "faithful_variants (ce_undo en)" "applies_by_changes en" "applies_checked en"
    and ch: "idle en ch" "recent en b ch" "extends_head en b ch" "fork_ok (ce_block en) (ch_fork_db ch)"
    and run: "push_block_impl en b ch = Some (Inl e, ch1)" "fc_exception e"
    and g: "recent en g ch1" "ch_skip_flags ch1 AND skip_fork_db = 0" "block_num g \<le> block_num b" "blk_previous g \<noteq> blk_previous b"
      "fork_push_block (ce_block en) g (ch_fork_db ch1) = (Inr r, fd)"
  shows "\<exists>e' ch2. push_block_impl en g ch1 = Some (Inl e', ch2) \<and> fc_exception e' \<and>
    index_find (ch_fork_db ch2) (fd_index (ch_fork_db ch2)) (block_id (ce_block en) g) = None"
proof -
  note f = push_failed [OF en(1,2) ch(1-3) run]
  obtain h fd0 where h: "fork_push_block (ce_block en) b (ch_fork_db ch) = (Inr (Some h), fd0)" "fi_data (item fd0 h) = b"
      "head_block_id en ch = Inr (blk_previous b)"
    using ch(3) by (auto simp: extends_head_def)
  have "fork_step (ce_block en) (ch_fork_db ch) fd0" using step_push [OF h(1)] .
  then have ok: "fork_ok (ce_block en) fd0" using fork_step_ok ch(4) by blast
  have hd: "fd_head fd0 = Some h" using h(1) by (auto simp: fork_push_block_def run_bind_def run_get_def split: prod.splits sum.splits)
  have fd: "ch_fork_db ch1 = fork_remove (block_id (ce_block en) b) fd0" using f(5) h(1) by simp
  have it: "fd_head (ch_fork_db ch1) = Some h" "h < length (fd_heap (ch_fork_db ch1))" "item (ch_fork_db ch1) h = item fd0 h"
    using hd fork_okD(2) [OF ok hd] by (simp_all add: fd fork_remove_def item_def)
  have "fi_num (item fd0 h) = block_num b"
    using ok fork_okD(2) [OF ok hd] h(2) by (simp add: fork_ok_def heap_ok_def item_ok_def item_def)
  moreover have "head_block_id en ch1 = Inr (blk_previous b)"
    using h(3) f(2) by (simp add: head_block_id_view snapshot_def)
  ultimately show ?thesis
    using stale_head [OF en f(1) g(1,2) it(1,2) _ _ _ g(5)] g(3,4) h(2) it(3) by simp
qed

end
