(* ===== verification/Chain_Switch.thy ===== *)
theory Chain_Switch
  imports Chain_Pushing
begin

text \<open>
  Switching to a longer fork: popping the blocks of the old branch, applying those of the new one, and going back to the old
  branch when one of them fails.
\<close>

section \<open>Blocks on the top of the history\<close>

definition snap_head :: "('h, 't, 'v) chain_env \<Rightarrow> 'v snapshot \<Rightarrow> block_id_type option" where
  "snap_head en c = map_option (ce_head_block_id en) (fst c dynamic_global_property_id)"

lemma head_block_id_snap: "head_block_id en ch = Inr i \<longleftrightarrow> snap_head en (snapshot (ch_objects ch)) = Some i"
  by (auto simp: head_block_id_view snap_head_def snapshot_def)

text \<open>
  The blocks \<open>bs\<close>, the youngest first, are the last ones applied, on a state whose head is \<open>t\<close>: undoing leads from one to the next.
\<close>

fun stacked :: "('h, 't, 'v) chain_env \<Rightarrow> ('h, 't) signed_block list \<Rightarrow> block_id_type \<Rightarrow> 'v undo_state list \<Rightarrow> 'v snapshot \<Rightarrow> bool" where
  "stacked en [] t ss c \<longleftrightarrow> snap_head en c = Some t"
| "stacked en (b # bs) t [] c \<longleftrightarrow> False"
| "stacked en (b # bs) t (s # ss) c \<longleftrightarrow>
    snap_head en c = Some (block_id (ce_block en) b) \<and> block_id (ce_block en) b \<noteq> t \<and> stacked en bs t ss (revert s c)"

lemma stacked_length: "stacked en bs t ss c \<Longrightarrow> length bs \<le> length ss"
  by (induction en bs t ss c rule: stacked.induct) auto

lemma stacked_head: "stacked en (b # bs) t ss c \<Longrightarrow> snap_head en c = Some (block_id (ce_block en) b)"
  by (cases ss) simp_all

definition stored :: "('h, 't, 'v) chain_env \<Rightarrow> ('h, 't) signed_block list \<Rightarrow> ('h, 't, 'v) chain_database \<Rightarrow> bool" where
  "stored en bs ch \<longleftrightarrow> bd_wf (ce_block en) (ce_codec en) (ch_block_id_to_block ch) \<and> distinct (map block_num bs) \<and>
     (\<forall>b \<in> set bs. live (ce_codec en) (ch_block_id_to_block ch) (block_num b) = Some b)"

text \<open>
  The items \<open>as\<close> are linked from the youngest to the oldest and stay alive, and the head of the fork database is one of them.
\<close>

definition linked :: "('h, 't) fork_database \<Rightarrow> addr list \<Rightarrow> bool" where
  "linked fd as \<longleftrightarrow> (\<forall>k. Suc k < length as \<longrightarrow> fi_prev (item fd (as ! k)) = Some (as ! Suc k)) \<and>
     set as \<subseteq> set (fd_held fd) \<union> set (fd_index fd) \<union> set (fd_unlinked fd)"

lemma linked_step:
  assumes "linked fd as" "fd_head fd = Some (as ! k)" "Suc k < length as"
  shows "weak_lock fd (fi_prev (item fd (as ! k))) = Some (as ! Suc k)" "linked (fd\<lparr>fd_head := h\<rparr>) as"
proof -
  have "as ! Suc k \<in> set as" using assms(3) by simp
  then have "alive fd (as ! Suc k)" using assms(1) by (auto simp: linked_def alive_def)
  then show "weak_lock fd (fi_prev (item fd (as ! k))) = Some (as ! Suc k)" using assms(1,3) by (simp add: linked_def weak_lock_def)
  show "linked (fd\<lparr>fd_head := h\<rparr>) as" using assms(1) by (simp add: linked_def item_def)
qed

text \<open>The snapshot after \<open>n\<close> blocks are undone.\<close>

definition past :: "'v undo_env \<Rightarrow> 'v object_database \<Rightarrow> nat \<Rightarrow> 'v snapshot" where
  "past en db n = (snapshot db # snapshots (undo_states en db) (snapshot db)) ! n"

lemma pop_until_ok:
  assumes en: "faithful_variants (ce_undo en)"
  shows "undo_ok (ce_undo en) (ch_objects ch) \<Longrightarrow> ud_active_sessions (db_undo (ch_objects ch)) = 0 \<Longrightarrow> ch_pending_tx_session ch = None \<Longrightarrow>
    stacked en bs t (undo_states (ce_undo en) (ch_objects ch)) (snapshot (ch_objects ch)) \<Longrightarrow> stored en bs ch \<Longrightarrow>
    linked (ch_fork_db ch) as \<Longrightarrow> fd_head (ch_fork_db ch) = Some (as ! k) \<Longrightarrow> k + length bs < length as \<Longrightarrow>
    \<exists>ch'. pop_until en t ch = (Inr (), ch') \<and> undo_ok (ce_undo en) (ch_objects ch') \<and>
      undo_states (ce_undo en) (ch_objects ch') = drop (length bs) (undo_states (ce_undo en) (ch_objects ch)) \<and>
      undo_rest (db_undo (ch_objects ch')) = undo_rest (db_undo (ch_objects ch)) \<and>
      snapshot (ch_objects ch') = past (ce_undo en) (ch_objects ch) (length bs) \<and> snap_head en (snapshot (ch_objects ch')) = Some t \<and>
      bd_wf (ce_block en) (ce_codec en) (ch_block_id_to_block ch') \<and>
      live (ce_codec en) (ch_block_id_to_block ch') =
        (\<lambda>n. if n \<in> block_num ` set bs then None else live (ce_codec en) (ch_block_id_to_block ch) n) \<and>
      ch_fork_db ch' = (ch_fork_db ch)\<lparr>fd_head := Some (as ! (k + length bs))\<rparr> \<and> ch_pending_tx_session ch' = None"
proof (induction bs arbitrary: ch k)
  case Nil
  then have "head_block_id en ch = Inr t" by (simp add: head_block_id_snap)
  then have "pop_until en t ch = (Inr (), ch)" by (subst pop_until.simps) simp
  then show ?case using Nil by (simp add: past_def stored_def)
next
  case (Cons b bs)
  let ?ue = "ce_undo en" and ?i = "block_id (ce_block en) b"
  obtain s ss where ss: "undo_states ?ue (ch_objects ch) = s # ss"
    using stacked_length [OF Cons.prems(4)] by (cases "undo_states ?ue (ch_objects ch)") auto
  have st: "snap_head en (snapshot (ch_objects ch)) = Some ?i" "?i \<noteq> t" "stacked en bs t ss (revert s (snapshot (ch_objects ch)))"
    using Cons.prems(4) ss by simp_all
  have h: "head_block_id en ch = Inr ?i" using st(1) by (simp add: head_block_id_snap)
  have l: "live (ce_codec en) (ch_block_id_to_block ch) (num_from_id ?i) = Some b" "bd_wf (ce_block en) (ce_codec en) (ch_block_id_to_block ch)"
      "block_num b \<notin> block_num ` set bs" "distinct (map block_num bs)"
      "\<forall>b \<in> set bs. live (ce_codec en) (ch_block_id_to_block ch) (block_num b) = Some b"
    using Cons.prems(5) by (auto simp: stored_def num_from_block_id)
  have k: "Suc k < length as" using Cons.prems(8) by simp
  note f = linked_step [OF Cons.prems(6,7) k]
  obtain ch1 where ch1: "pop_block en ch = (Inr (), ch1)" "undo_ok ?ue (ch_objects ch1)" "undo_states ?ue (ch_objects ch1) = ss"
      "undo_rest (db_undo (ch_objects ch1)) = undo_rest (db_undo (ch_objects ch))" "snapshot (ch_objects ch1) = revert s (snapshot (ch_objects ch))"
      "bd_wf (ce_block en) (ce_codec en) (ch_block_id_to_block ch1)"
      "live (ce_codec en) (ch_block_id_to_block ch1) = (live (ce_codec en) (ch_block_id_to_block ch))(num_from_id ?i := None)"
      "ch_fork_db ch1 = (ch_fork_db ch)\<lparr>fd_head := Some (as ! Suc k)\<rparr>" "ch_pending_tx_session ch1 = None"
    by (rule pop_block_ok [OF en Cons.prems(1) ss Cons.prems(2,3) h l(1) refl l(2) Cons.prems(7) f(1)])
  have "stored en bs ch1"
    using l(3-5) ch1(6,7) unfolding stored_def num_from_block_id by (auto simp: image_iff)
  then obtain ch' where ch': "pop_until en t ch1 = (Inr (), ch')" "undo_ok ?ue (ch_objects ch')"
      "undo_states ?ue (ch_objects ch') = drop (length bs) ss" "undo_rest (db_undo (ch_objects ch')) = undo_rest (db_undo (ch_objects ch1))"
      "snapshot (ch_objects ch') = past ?ue (ch_objects ch1) (length bs)" "snap_head en (snapshot (ch_objects ch')) = Some t"
      "bd_wf (ce_block en) (ce_codec en) (ch_block_id_to_block ch')"
      "live (ce_codec en) (ch_block_id_to_block ch') = (\<lambda>n. if n \<in> block_num ` set bs then None else live (ce_codec en) (ch_block_id_to_block ch1) n)"
      "ch_fork_db ch' = (ch_fork_db ch1)\<lparr>fd_head := Some (as ! (Suc k + length bs))\<rparr>" "ch_pending_tx_session ch' = None"
    using Cons.IH [of ch1 "Suc k"] ch1 st(3) f(2) Cons.prems(2,8) by (auto simp: undo_rest_eq)
  have "pop_until en t ch = (Inr (), ch')" using h st(2) ch1(1) ch'(1) by (subst pop_until.simps) simp
  moreover have "past ?ue (ch_objects ch1) (length bs) = past ?ue (ch_objects ch) (length (b # bs))"
    using ch1(3,5) ss by (simp add: past_def)
  ultimately show ?case using ch' ch1(4,7,8) ss by (auto simp: fun_eq_iff num_from_block_id)
qed

section \<open>Applying a branch\<close>

definition put_blocks :: "('h, 't) signed_block list \<Rightarrow> (u32 \<rightharpoonup> ('h, 't) signed_block) \<Rightarrow> u32 \<rightharpoonup> ('h, 't) signed_block" where
  "put_blocks bs m = fold (\<lambda>b m. m(block_num b \<mapsto> b)) bs m"

definition take_blocks :: "('h, 't) signed_block list \<Rightarrow> (u32 \<rightharpoonup> ('h, 't) signed_block) \<Rightarrow> u32 \<rightharpoonup> ('h, 't) signed_block" where
  "take_blocks bs m = (\<lambda>n. if n \<in> block_num ` set bs then None else m n)"

lemma put_blocks_simps [simp]: "put_blocks [] m = m" "put_blocks (b # bs) m = put_blocks bs (m(block_num b \<mapsto> b))"
  by (simp_all add: put_blocks_def)

lemma stacked_take: "stacked en bs t ss c \<Longrightarrow> length bs \<le> n \<Longrightarrow> stacked en bs t (take n ss) c"
proof (induction en bs t ss c arbitrary: n rule: stacked.induct)
  case (3 en b bs t s ss c)
  then show ?case by (cases n) auto
qed auto

lemma past_take:
  assumes "undo_states en db' = take n (undo_states en db)" "snapshot db' = snapshot db" "m \<le> n" "m \<le> length (undo_states en db)"
  shows "past en db' m = past en db m"
  using assms by (cases m) (simp_all add: past_def snapshots_take)

lemma past_Suc:
  assumes "undo_states en db' = s # take n (undo_states en db)" "revert s (snapshot db') = snapshot db" "m \<le> n" "m \<le> length (undo_states en db)"
  shows "past en db' (Suc m) = past en db m"
  using assms by (cases m) (simp_all add: past_def snapshots_take)

text \<open>
  The state can take every block that is reached: no session is open and the history can be written, the block is recent, and it
  can be stored.
\<close>

fun can_apply :: "('h, 't, 'v) chain_env \<Rightarrow> u32 \<Rightarrow> addr list \<Rightarrow> ('h, 't, 'v) chain_database \<Rightarrow> bool" where
  "can_apply en skip [] ch \<longleftrightarrow> True"
| "can_apply en skip (a # as) ch \<longleftrightarrow> idle en ch \<and> recent en (fi_data (item (ch_fork_db ch) a)) ch \<and>
     block_storable (ce_block en) (ce_codec en) (fi_data (item (ch_fork_db ch) a)) (ch_block_id_to_block ch) \<and>
     (case apply_and_store en skip (fi_id (item (ch_fork_db ch) a)) (fi_data (item (ch_fork_db ch) a)) ch of
        (Inl e, ch') \<Rightarrow> True | (Inr _, ch') \<Rightarrow> can_apply en skip as ch')"

text \<open>The state of a chain whose last blocks are \<open>bs\<close>, on a state with the head \<open>t\<close> and the snapshot \<open>c\<close>.\<close>

definition on_top ::
  "('h, 't, 'v) chain_env \<Rightarrow> ('h, 't) signed_block list \<Rightarrow> block_id_type \<Rightarrow> 'v snapshot \<Rightarrow> ('h, 't, 'v) chain_database \<Rightarrow> bool" where
  "on_top en bs t c ch \<longleftrightarrow> undo_ok (ce_undo en) (ch_objects ch) \<and> ud_active_sessions (db_undo (ch_objects ch)) = 0 \<and>
     ch_pending_tx_session ch = None \<and>
     stacked en bs t (undo_states (ce_undo en) (ch_objects ch)) (snapshot (ch_objects ch)) \<and> stored en bs ch \<and>
     past (ce_undo en) (ch_objects ch) (length bs) = c"

lemma on_top_failed:
  assumes en: "faithful_variants (ce_undo en)" "applies_by_changes en" and ch: "idle en ch" "recent en b ch"
    and top: "on_top en bs t c ch" "length bs \<le> 1439" and run: "apply_and_store en skip i b ch = (Inl e, ch')"
  shows "on_top en bs t c ch'"
proof -
  have f: "idle en ch'" "snapshot (ch_objects ch') = snapshot (ch_objects ch)" "ch_block_id_to_block ch' = ch_block_id_to_block ch"
      "ch_pending_tx_session ch' = ch_pending_tx_session ch"
      "undo_states (ce_undo en) (ch_objects ch') = take 1439 (undo_states (ce_undo en) (ch_objects ch))"
    using apply_and_store_failed [OF en ch run] by blast+
  have st: "stacked en bs t (undo_states (ce_undo en) (ch_objects ch)) (snapshot (ch_objects ch))" using top(1) by (simp add: on_top_def)
  have "past (ce_undo en) (ch_objects ch') (length bs) = past (ce_undo en) (ch_objects ch) (length bs)"
    using past_take [OF f(5,2) top(2) stacked_length [OF st]] .
  then show ?thesis using f top stacked_take [OF st top(2)] by (simp add: on_top_def idle_def stored_def)
qed

lemma on_top_stored:
  assumes en: "faithful_variants (ce_undo en)" "applies_by_changes en" "applies_head en" and ch: "idle en ch" "recent en b ch"
    and top: "on_top en bs t c ch" "length bs \<le> 1439" and b: "block_storable (ce_block en) (ce_codec en) b (ch_block_id_to_block ch)"
      "i = block_id (ce_block en) b" "i \<noteq> t" "block_num b \<notin> block_num ` set bs"
    and run: "apply_and_store en skip i b ch = (Inr (), ch')"
  shows "on_top en (b # bs) t c ch' \<and> ch_fork_db ch' = ch_fork_db ch \<and>
    live (ce_codec en) (ch_block_id_to_block ch') = (live (ce_codec en) (ch_block_id_to_block ch))(block_num b \<mapsto> b)"
proof -
  have bd: "bd_wf (ce_block en) (ce_codec en) (ch_block_id_to_block ch)" using top(1) by (simp add: on_top_def stored_def)
  have st: "stacked en bs t (undo_states (ce_undo en) (ch_objects ch)) (snapshot (ch_objects ch))" using top(1) by (simp add: on_top_def)
  show ?thesis
  proof (rule apply_and_store_stored [OF en(1,2) ch bd b(1,2) run])
    fix s
    assume a: "undo_ok (ce_undo en) (ch_objects ch')" "ud_active_sessions (db_undo (ch_objects ch')) = 0"
      "undo_states (ce_undo en) (ch_objects ch') = s # take 1439 (undo_states (ce_undo en) (ch_objects ch))"
      "revert s (snapshot (ch_objects ch')) = snapshot (ch_objects ch)" "bd_wf (ce_block en) (ce_codec en) (ch_block_id_to_block ch')"
      "live (ce_codec en) (ch_block_id_to_block ch') = (live (ce_codec en) (ch_block_id_to_block ch))(block_num b \<mapsto> b)"
      "ch_fork_db ch' = ch_fork_db ch" "ch_pending_tx_session ch' = ch_pending_tx_session ch" "applies_head en \<Longrightarrow> head_block_id en ch' = Inr i"
    have h: "snap_head en (snapshot (ch_objects ch')) = Some i" using a(9) [OF en(3)] by (simp add: head_block_id_snap)
    have "stored en (b # bs) ch'" using top(1) a(5,6) b(4) by (auto simp: on_top_def stored_def image_iff)
    moreover have "past (ce_undo en) (ch_objects ch') (Suc (length bs)) = c"
      using past_Suc [OF a(3,4) top(2) stacked_length [OF st]] top(1) by (simp add: on_top_def)
    ultimately show ?thesis using a h b(2,3) stacked_take [OF st top(2)] top(1) by (simp add: on_top_def)
  qed
qed

lemma apply_items_on_top:
  assumes en: "faithful_variants (ce_undo en)" "applies_by_changes en" "applies_head en"
  shows "can_apply en skip as ch \<Longrightarrow> apply_items en skip as ch = (r, ch') \<Longrightarrow> on_top en bs t c ch \<Longrightarrow> length bs + length as \<le> 1440 \<Longrightarrow>
    (\<And>a. a \<in> set as \<Longrightarrow> fi_id (item (ch_fork_db ch) a) = block_id (ce_block en) (fi_data (item (ch_fork_db ch) a)) \<and>
      fi_id (item (ch_fork_db ch) a) \<noteq> t) \<Longrightarrow>
    distinct (map block_num (map (\<lambda>a. fi_data (item (ch_fork_db ch) a)) as @ bs)) \<Longrightarrow>
    \<exists>done. (case r of Inr _ \<Rightarrow> done = as | Inl (e, rest) \<Rightarrow> rest \<noteq> [] \<and> as = done @ rest) \<and> ch_fork_db ch' = ch_fork_db ch \<and>
      on_top en (rev (map (\<lambda>a. fi_data (item (ch_fork_db ch) a)) done) @ bs) t c ch' \<and>
      live (ce_codec en) (ch_block_id_to_block ch') =
        put_blocks (map (\<lambda>a. fi_data (item (ch_fork_db ch) a)) done)
          (live (ce_codec en) (ch_block_id_to_block ch))"
proof (induction as arbitrary: ch bs)
  case Nil
  then show ?case by (auto intro: exI [of _ "[]"])
next
  case (Cons a as)
  let ?b = "fi_data (item (ch_fork_db ch) a)" and ?i = "fi_id (item (ch_fork_db ch) a)"
  have c: "idle en ch" "recent en ?b ch" "block_storable (ce_block en) (ce_codec en) ?b (ch_block_id_to_block ch)" "?i = block_id (ce_block en) ?b" "?i \<noteq> t"
      "length bs \<le> 1439" "block_num ?b \<notin> block_num ` set bs"
    using Cons.prems by auto
  obtain r1 ch1 where ap: "apply_and_store en skip ?i ?b ch = (r1, ch1)" by fastforce
  show ?case
  proof (cases r1)
    case (Inl e)
    then have "r = Inl (e, a # as)" "ch' = ch1" using Cons.prems(2) ap by simp_all
    moreover have "ch_fork_db ch1 = ch_fork_db ch" "ch_block_id_to_block ch1 = ch_block_id_to_block ch"
      using apply_and_store_failed [OF en(1,2) c(1,2)] ap Inl by blast+
    ultimately show ?thesis
      using on_top_failed [OF en(1,2) c(1,2) Cons.prems(3) c(6)] ap Inl by (intro exI [of _ "[]"]) auto
  next
    case (Inr u)
    then have run: "apply_and_store en skip ?i ?b ch = (Inr (), ch1)" using ap by simp
    have s: "on_top en (?b # bs) t c ch1" "ch_fork_db ch1 = ch_fork_db ch"
        "live (ce_codec en) (ch_block_id_to_block ch1) = (live (ce_codec en) (ch_block_id_to_block ch))(block_num ?b \<mapsto> ?b)"
      using on_top_stored [OF en c(1,2) Cons.prems(3) c(6,3,4,5,7) run] by blast+
    have ap1: "can_apply en skip as ch1" "apply_items en skip as ch1 = (r, ch')" using Cons.prems(1,2) run by simp_all
    have len: "length (?b # bs) + length as \<le> 1440" using Cons.prems(4) by simp
    have ids: "fi_id (item (ch_fork_db ch1) x) = block_id (ce_block en) (fi_data (item (ch_fork_db ch1) x)) \<and> fi_id (item (ch_fork_db ch1) x) \<noteq> t"
      if "x \<in> set as" for x
      unfolding s(2) by (rule Cons.prems(5)) (use that in simp)
    have nums: "distinct (map block_num (map (\<lambda>a. fi_data (item (ch_fork_db ch1) a)) as @ ?b # bs))" using Cons.prems(6) s(2) by auto
    obtain as1 where "case r of Inr _ \<Rightarrow> as1 = as | Inl (e, rest) \<Rightarrow> rest \<noteq> [] \<and> as = as1 @ rest" "ch_fork_db ch' = ch_fork_db ch"
        "on_top en (rev (map (\<lambda>a. fi_data (item (ch_fork_db ch) a)) as1) @ ?b # bs) t c ch'"
        "live (ce_codec en) (ch_block_id_to_block ch') =
          put_blocks (map (\<lambda>a. fi_data (item (ch_fork_db ch) a)) as1)
            (live (ce_codec en) (ch_block_id_to_block ch1))"
      using Cons.IH [OF ap1 s(1) len ids nums] unfolding s(2) by blast
    then show ?thesis using s(3) by (intro exI [of _ "a # as1"]) (auto simp del: fun_upd_apply split: sum.splits)
  qed
qed

section \<open>Switching\<close>

text \<open>
  The old branch \<open>ss\<close> and the new branch \<open>fs\<close>, the youngest items first, meet at the block \<open>t\<close>: the chain has the blocks of \<open>ss\<close>
  on its top, and the head of the fork database is the first item of \<open>fs\<close>.
\<close>

definition forked ::
  "('h, 't, 'v) chain_env \<Rightarrow> addr list \<Rightarrow> addr list \<Rightarrow> block_id_type \<Rightarrow> 'v snapshot \<Rightarrow> ('h, 't, 'v) chain_database \<Rightarrow> bool" where
  "forked en fs ss t c ch \<longleftrightarrow>
     on_top en (map (\<lambda>a. fi_data (item (ch_fork_db ch) a)) ss) t c ch \<and> ss \<noteq> [] \<and>
     blk_previous (fi_data (item (ch_fork_db ch) (last ss))) = t \<and>
     linked (ch_fork_db ch) fs \<and> fd_head (ch_fork_db ch) = Some (hd fs) \<and> length ss < length fs \<and> length fs \<le> 1440 \<and>
     distinct (map (\<lambda>a. block_num (fi_data (item (ch_fork_db ch) a))) fs) \<and>
     (\<forall>a \<in> set fs. fi_id (item (ch_fork_db ch) a) = block_id (ce_block en) (fi_data (item (ch_fork_db ch) a)) \<and>
        fi_id (item (ch_fork_db ch) a) \<noteq> t)"

lemma forked_pop:
  assumes en: "faithful_variants (ce_undo en)" and f: "forked en fs ss t c ch"
  obtains ch1 where "pop_until en t ch = (Inr (), ch1)" "on_top en [] t c ch1"
    "ch_fork_db ch1 = (ch_fork_db ch)\<lparr>fd_head := Some (fs ! length ss)\<rparr>"
    "live (ce_codec en) (ch_block_id_to_block ch1) =
      (take_blocks (map (\<lambda>a. fi_data (item (ch_fork_db ch) a)) ss) (live (ce_codec en) (ch_block_id_to_block ch)))"
    "undo_rest (db_undo (ch_objects ch1)) = undo_rest (db_undo (ch_objects ch))"
    "undo_states (ce_undo en) (ch_objects ch1) = drop (length ss) (undo_states (ce_undo en) (ch_objects ch))"
proof -
  let ?bs = "map (\<lambda>a. fi_data (item (ch_fork_db ch) a)) ss"
  have t: "undo_ok (ce_undo en) (ch_objects ch)" "ud_active_sessions (db_undo (ch_objects ch)) = 0" "ch_pending_tx_session ch = None"
      "stacked en ?bs t (undo_states (ce_undo en) (ch_objects ch)) (snapshot (ch_objects ch))" "stored en ?bs ch"
      "past (ce_undo en) (ch_objects ch) (length ss) = c"
    using f by (simp_all add: forked_def on_top_def)
  have l: "linked (ch_fork_db ch) fs" "fd_head (ch_fork_db ch) = Some (fs ! 0)" "0 + length ?bs < length fs"
    using f by (cases fs; simp add: forked_def)+
  obtain ch1 where "pop_until en t ch = (Inr (), ch1)" "undo_ok (ce_undo en) (ch_objects ch1)"
      "undo_states (ce_undo en) (ch_objects ch1) = drop (length ?bs) (undo_states (ce_undo en) (ch_objects ch))"
      "undo_rest (db_undo (ch_objects ch1)) = undo_rest (db_undo (ch_objects ch))"
      "snapshot (ch_objects ch1) = past (ce_undo en) (ch_objects ch) (length ?bs)" "snap_head en (snapshot (ch_objects ch1)) = Some t"
      "bd_wf (ce_block en) (ce_codec en) (ch_block_id_to_block ch1)"
      "live (ce_codec en) (ch_block_id_to_block ch1) =
        (\<lambda>n. if n \<in> block_num ` set ?bs then None else live (ce_codec en) (ch_block_id_to_block ch) n)"
      "ch_fork_db ch1 = (ch_fork_db ch)\<lparr>fd_head := Some (fs ! (0 + length ?bs))\<rparr>" "ch_pending_tx_session ch1 = None"
    using pop_until_ok [OF en t(1-5) l] by blast
  then show ?thesis
    using that [of ch1] t(2,6) by (simp add: on_top_def stored_def undo_rest_eq take_blocks_def) (simp add: past_def)
qed

lemma item_head [simp]: "item (fd\<lparr>fd_head := h\<rparr>) a = item fd a"
  by (simp add: item_def)

text \<open>
  The blocks of the new branch take the place of those of the old one, on the state where the branches meet. The head of the
  fork database stays behind: it is as many blocks before the new head as were popped.
\<close>

lemma switch_ok:
  assumes en: "faithful_variants (ce_undo en)" "applies_by_changes en" "applies_head en" and f: "forked en fs ss t c ch"
    and can: "\<And>ch1. pop_until en t ch = (Inr (), ch1) \<Longrightarrow> can_apply en skip (rev fs) ch1"
    and run: "switch_fork en skip fs ss ch = (Inr r, ch')"
  shows "r \<and> on_top en (map (\<lambda>a. fi_data (item (ch_fork_db ch) a)) fs) t c ch' \<and>
    ch_fork_db ch' = (ch_fork_db ch)\<lparr>fd_head := Some (fs ! length ss)\<rparr> \<and>
    live (ce_codec en) (ch_block_id_to_block ch') =
      put_blocks (map (\<lambda>a. fi_data (item (ch_fork_db ch) a)) (rev fs))
        (take_blocks (map (\<lambda>a. fi_data (item (ch_fork_db ch) a)) ss) (live (ce_codec en) (ch_block_id_to_block ch)))"
proof -
  obtain ch1 where ch1: "pop_until en t ch = (Inr (), ch1)" "on_top en [] t c ch1"
      "ch_fork_db ch1 = (ch_fork_db ch)\<lparr>fd_head := Some (fs ! length ss)\<rparr>"
      "live (ce_codec en) (ch_block_id_to_block ch1) =
        (take_blocks (map (\<lambda>a. fi_data (item (ch_fork_db ch) a)) ss) (live (ce_codec en) (ch_block_id_to_block ch)))"
    by (rule forked_pop [OF en(1) f])
  obtain r1 ch2 where ap: "apply_items en skip (rev fs) ch1 = (r1, ch2)" by fastforce
  have t: "blk_previous (fi_data (item (ch_fork_db ch) (last ss))) = t" using f by (simp add: forked_def)
  have it: "item (ch_fork_db ch1) a = item (ch_fork_db ch) a" for a using ch1(3) by simp
  have ids: "fi_id (item (ch_fork_db ch1) a) = block_id (ce_block en) (fi_data (item (ch_fork_db ch1) a)) \<and> fi_id (item (ch_fork_db ch1) a) \<noteq> t"
    if "a \<in> set (rev fs)" for a
    using f that unfolding forked_def it by auto
  have nums: "distinct (map block_num (map (\<lambda>a. fi_data (item (ch_fork_db ch1) a)) (rev fs) @ []))" and len: "length [] + length (rev fs) \<le> 1440"
    using f by (simp_all add: forked_def it rev_map [symmetric] comp_def)
  obtain as where as: "case r1 of Inr _ \<Rightarrow> as = rev fs | Inl (e, rest) \<Rightarrow> rest \<noteq> [] \<and> rev fs = as @ rest" "ch_fork_db ch2 = ch_fork_db ch1"
      "on_top en (rev (map (\<lambda>a. fi_data (item (ch_fork_db ch1) a)) as) @ []) t c ch2"
      "live (ce_codec en) (ch_block_id_to_block ch2) =
        put_blocks (map (\<lambda>a. fi_data (item (ch_fork_db ch1) a)) as)
          (live (ce_codec en) (ch_block_id_to_block ch1))"
    using apply_items_on_top [OF en can [OF ch1(1)] ap ch1(2) len ids nums] by blast
  have "r1 = Inr () \<and> ch' = ch2 \<and> r"
    using run ch1(1) ap t
    by (auto simp: switch_fork_def Let_def run_bind_def restore_fork_def split: sum.splits prod.splits if_splits)
  then show ?thesis using as ch1(3,4) by (simp add: it rev_map [symmetric])
qed

end
