(* ===== verification/Chain_Recovery.thy ===== *)
theory Chain_Recovery
  imports Chain_Switch
begin

text \<open>
  A fork that fails: the chain returns to the branch that it had left.
\<close>

section \<open>What no operation changes\<close>

definition keeps :: "('s \<Rightarrow> 'b) \<Rightarrow> ('s, 'a) run \<Rightarrow> bool" where
  "keeps p m \<longleftrightarrow> (\<forall>s. p (snd (m s)) = p s)"

lemma keeps_bind: "keeps p f \<Longrightarrow> (\<And>x. keeps p (g x)) \<Longrightarrow> keeps p (run_bind f g)"
  by (auto simp: keeps_def run_bind_def split: prod.splits sum.splits) (metis snd_conv)+

lemma keeps_parts:
  "keeps ch_checkpoints (on_objects f)" "keeps ch_checkpoints (on_fork_db g)" "keeps ch_checkpoints (on_block_db k)"
  by (auto simp: keeps_def on_objects_def on_fork_db_def on_block_db_def split: prod.splits)

lemma keeps_pop_block: "keeps ch_checkpoints (pop_block en)"
proof -
  have reset: "keeps ch_checkpoints (reset_pending_session en)"
    by (auto simp: keeps_def reset_pending_session_def on_objects_def split: option.splits prod.splits)
  have "keeps ch_checkpoints (pop_head en i b)" for i b
    unfolding pop_head_def by (intro keeps_bind keeps_parts) (simp add: keeps_def run_update_def)
  then have "keeps ch_checkpoints (\<lambda>ch. case head_block_id en ch of Inl e \<Rightarrow> (Inl e, ch)
      | Inr i \<Rightarrow> (case fetch_block_by_id en ch i of None \<Rightarrow> (Inl (Pop_empty_chain ''there are no blocks to pop''), ch)
          | Some b \<Rightarrow> pop_head en i b ch))"
    by (auto simp: keeps_def split: sum.splits option.splits)
  then show ?thesis unfolding pop_block_def by (intro keeps_bind reset)
qed

lemma pop_until_checkpoints: "pop_until en t ch = (r, ch') \<Longrightarrow> ch_checkpoints ch' = ch_checkpoints ch"
proof (induction en t ch rule: pop_until.induct)
  case (1 en t ch)
  show ?case
  proof (cases "head_block_id en ch")
    case (Inl e)
    then show ?thesis using "1.prems" by (subst (asm) pop_until.simps) simp
  next
    case (Inr h)
    obtain r1 ch1 where p: "pop_block en ch = (r1, ch1)" by fastforce
    then have c: "ch_checkpoints ch1 = ch_checkpoints ch" using keeps_pop_block [of en] by (simp add: keeps_def) (metis snd_conv)
    show ?thesis
    proof (cases "h = t")
      case True
      then show ?thesis using "1.prems" Inr by (subst (asm) pop_until.simps) simp
    next
      case False
      show ?thesis
      proof (cases r1)
        case (Inl e)
        then show ?thesis using "1.prems" Inr False p c by (subst (asm) pop_until.simps) simp
      next
        case r1: (Inr u)
        have "pop_until en t ch1 = (r, ch')" using "1.prems" Inr False p r1 by (subst (asm) pop_until.simps) simp
        then show ?thesis using "1.IH" [OF Inr False p [symmetric] r1] c by simp
      qed
    qed
  qed
qed

lemma keeps_in_session:
  assumes "keeps ch_checkpoints body" "\<And>ses x ch. ch_checkpoints (snd (snd (finish ses x ch))) = ch_checkpoints ch"
  shows "keeps ch_checkpoints (in_session en body finish)"
  unfolding in_session_def
proof (intro keeps_bind keeps_parts, unfold keeps_def, intro allI)
  fix ses and ch :: "('a, 'b, 'c) chain_database"
  obtain r ch1 where b: "body ch = (r, ch1)" by fastforce
  then have c: "ch_checkpoints ch1 = ch_checkpoints ch" using assms(1) by (auto simp: keeps_def dest: spec [of _ ch])
  obtain r2 ses2 ch2 where e: "(case body ch of (Inl e, ch) \<Rightarrow> (Inl e, ses, ch) | (Inr x, ch) \<Rightarrow> finish ses x ch) = (r2, ses2, ch2)"
    using prod_cases3 by blast
  then have "ch_checkpoints ch2 = ch_checkpoints ch" using b c assms(2) [of ses _ ch1] by (cases r) (auto, metis snd_conv)
  then show "ch_checkpoints (snd (case case body ch of (Inl e, ch) \<Rightarrow> (Inl e, ses, ch) | (Inr x, ch) \<Rightarrow> finish ses x ch of
      (r, ses, ch) \<Rightarrow> case on_objects (session_destroy (ce_undo en) ses) ch of (Inl e, ch) \<Rightarrow> (Inl e, ch) | (Inr _, ch) \<Rightarrow> (r, ch)))
    = ch_checkpoints ch"
    unfolding e by (auto simp: on_objects_def split: prod.splits sum.splits)
qed

lemma keeps_apply_and_store: "keeps ch_checkpoints (apply_and_store en skip i b)"
proof -
  have "keeps ch_checkpoints (apply_block en b skip)"
    by (auto simp: keeps_def apply_block_def with_skip_flags_def run_apply_block_def Let_def split: prod.splits option.splits)
  then show ?thesis
    unfolding apply_and_store_def
    by (intro keeps_bind keeps_in_session keeps_parts)
      (auto simp: keeps_def run_update_def note_age_def Let_def commit_session_def split: prod.splits)
qed

lemma apply_items_checkpoints: "apply_items en skip as ch = (r, ch') \<Longrightarrow> ch_checkpoints ch' = ch_checkpoints ch"
proof (induction as arbitrary: ch)
  case (Cons a as)
  obtain r1 ch1 where ap: "apply_and_store en skip (fi_id (item (ch_fork_db ch) a)) (fi_data (item (ch_fork_db ch) a)) ch = (r1, ch1)"
    by fastforce
  then have "ch_checkpoints ch1 = ch_checkpoints ch" using keeps_apply_and_store by (metis keeps_def snd_conv)
  then show ?case using Cons ap by (cases r1) auto
qed simp

section \<open>Applying blocks again\<close>

text \<open>In a session, what applying a block does depends on the objects, on the stored blocks and on the flags only.\<close>

definition in_progress :: "('h, 't, 'v) chain_env \<Rightarrow> ('h, 't, 'v) chain_database \<Rightarrow> bool" where
  "in_progress en ch \<longleftrightarrow> undo_ok (ce_undo en) (ch_objects ch) \<and> undo_states (ce_undo en) (ch_objects ch) \<noteq> []"

lemma in_progress_flags [simp]: "in_progress en (ch\<lparr>ch_skip_flags := s\<rparr>) = in_progress en ch"
  by (simp add: in_progress_def)

definition applies_functionally :: "('h, 't, 'v) chain_env \<Rightarrow> bool" where
  "applies_functionally en \<longleftrightarrow> (\<forall>ch1 ch2 b r1 x1 is1 r2 x2 is2. in_progress en ch1 \<longrightarrow> in_progress en ch2 \<longrightarrow>
     ch_skip_flags ch1 = ch_skip_flags ch2 \<longrightarrow>
     snapshot (ch_objects ch1) = snapshot (ch_objects ch2) \<longrightarrow>
     live (ce_codec en) (ch_block_id_to_block ch1) = live (ce_codec en) (ch_block_id_to_block ch2) \<longrightarrow>
     ce_apply_block en ch1 b = (r1, x1, is1) \<longrightarrow> ce_apply_block en ch2 b = (r2, x2, is2) \<longrightarrow> r1 = r2 \<and> snapshot x1 = snapshot x2)"

lemma apply_block_functional:
  assumes en: "applies_functionally en" and ses: "in_progress en ch1" "in_progress en ch2"
    and same: "ch_checkpoints ch1 = ch_checkpoints ch2" "snapshot (ch_objects ch1) = snapshot (ch_objects ch2)"
      "live (ce_codec en) (ch_block_id_to_block ch1) = live (ce_codec en) (ch_block_id_to_block ch2)"
    and run: "apply_block en b skip ch1 = (r1, ch1')" "apply_block en b skip ch2 = (r2, ch2')"
  shows "r1 = r2 \<and> snapshot (ch_objects ch1') = snapshot (ch_objects ch2')"
proof -
  have f: "r = r' \<and> snapshot (ch_objects x) = snapshot (ch_objects x')"
    if "with_skip_flags k (run_apply_block en b) ch1 = (r, x)" "with_skip_flags k (run_apply_block en b) ch2 = (r', x')" for k r r' x x'
  proof -
    obtain a1 y1 i1 where 1: "ce_apply_block en (ch1\<lparr>ch_skip_flags := k\<rparr>) b = (a1, y1, i1)" using prod_cases3 by blast
    obtain a2 y2 i2 where 2: "ce_apply_block en (ch2\<lparr>ch_skip_flags := k\<rparr>) b = (a2, y2, i2)" using prod_cases3 by blast
    have "a1 = a2 \<and> snapshot y1 = snapshot y2"
      using en [unfolded applies_functionally_def, rule_format, OF _ _ _ _ _ 1 2] same ses by simp
    then show ?thesis using that 1 2 by (auto simp: with_skip_flags_def run_apply_block_def)
  qed
  show ?thesis
    using run same(1,2) f by (auto simp: apply_block_def Let_def split: if_splits option.splits)
qed

text \<open>
  The blocks \<open>bs\<close>, applied one after the other in states with the snapshot \<open>c\<close> and the stored blocks \<open>m\<close>, lead to the snapshot \<open>c'\<close>.
\<close>

fun replays ::
  "('h, 't, 'v) chain_env \<Rightarrow> u32 \<Rightarrow> (u32 \<times> block_id_type) list \<Rightarrow> (u32 \<rightharpoonup> ('h, 't) signed_block) \<Rightarrow> 'v snapshot \<Rightarrow>
   ('h, 't) signed_block list \<Rightarrow> 'v snapshot \<Rightarrow> bool" where
  "replays en skip cps m c [] c' \<longleftrightarrow> c = c'"
| "replays en skip cps m c (b # bs) c' \<longleftrightarrow>
    (\<exists>ch0 ch1. in_progress en ch0 \<and> ch_checkpoints ch0 = cps \<and> snapshot (ch_objects ch0) = c \<and> live (ce_codec en) (ch_block_id_to_block ch0) = m \<and>
       apply_block en b skip ch0 = (Inr (), ch1) \<and> replays en skip cps (m(block_num b \<mapsto> b)) (snapshot (ch_objects ch1)) bs c')"

lemma apply_and_store_replays:
  assumes en: "faithful_variants (ce_undo en)" "applies_by_changes en" "applies_functionally en"
    and ch: "idle en ch" "recent en b ch" "bd_wf (ce_block en) (ce_codec en) (ch_block_id_to_block ch)"
      "block_storable (ce_block en) (ce_codec en) b (ch_block_id_to_block ch)" "i = block_id (ce_block en) b"
    and ses: "in_progress en ch0"
    and same: "ch_checkpoints ch0 = ch_checkpoints ch" "snapshot (ch_objects ch0) = snapshot (ch_objects ch)"
      "live (ce_codec en) (ch_block_id_to_block ch0) = live (ce_codec en) (ch_block_id_to_block ch)"
    and run0: "apply_block en b skip ch0 = (Inr (), ch0')"
  shows "\<exists>ch'. apply_and_store en skip i b ch = (Inr (), ch') \<and> snapshot (ch_objects ch') = snapshot (ch_objects ch0')"
proof -
  let ?body = "run_bind (apply_block en b skip) (\<lambda>_. on_block_db (bd_store (ce_block en) (ce_codec en) i b))"
  obtain r ch' where run: "apply_and_store en skip i b ch = (r, ch')" by fastforce
  have body: "\<exists>ch2. ?body ch1 = (Inr (), ch2) \<and> snapshot (ch_objects ch2) = snapshot (ch_objects ch0')"
    if c1: "ch1 = (note_age en b ch)\<lparr>ch_objects := ch_objects ch1\<rparr>" "snapshot (ch_objects ch1) = snapshot (ch_objects ch)"
      "undo_ok (ce_undo en) (ch_objects ch1)" "undo_states (ce_undo en) (ch_objects ch1) \<noteq> []" for ch1
  proof -
    have f: "ch_checkpoints ch1 = ch_checkpoints ch" "ch_block_id_to_block ch1 = ch_block_id_to_block ch"
      by (subst c1(1), simp add: note_age_recent [OF ch(2)])+
    obtain r1 ch2 where ap: "apply_block en b skip ch1 = (r1, ch2)" by fastforce
    have "r1 = Inr ()" and sn: "snapshot (ch_objects ch2) = snapshot (ch_objects ch0')"
      using apply_block_functional [OF en(3) _ ses _ _ _ ap run0] f c1(2-4) same by (simp_all add: in_progress_def)
    moreover have "ch_block_id_to_block ch2 = ch_block_id_to_block ch1"
      by (subst apply_block_changes [OF en(2) ap, THEN conjunct2, THEN conjunct1]) simp
    moreover obtain bd where "bd_store (ce_block en) (ce_codec en) i b (ch_block_id_to_block ch) = (Inr (), bd)"
      using bd_store_live [OF ch(3,4), of i] ch(5) by blast
    ultimately show ?thesis using ap f(2) by (simp add: run_bind_def on_block_db_def)
  qed
  show ?thesis
  proof (rule apply_and_store_run [OF en(1,2) ch(1,2) run])
    fix e ch1 ch2 db3
    assume a: "ch1 = (note_age en b ch)\<lparr>ch_objects := ch_objects ch1\<rparr>" "snapshot (ch_objects ch1) = snapshot (ch_objects ch)"
      "undo_ok (ce_undo en) (ch_objects ch1)" "undo_states (ce_undo en) (ch_objects ch1) \<noteq> []" "?body ch1 = (Inl e, ch2)"
    then show ?thesis using body [OF a(1-4)] by simp
  next
    fix s ch1 ch2 db3
    assume a: "r = Inr ()" "ch' = ch2\<lparr>ch_objects := db3\<rparr>" "ch1 = (note_age en b ch)\<lparr>ch_objects := ch_objects ch1\<rparr>"
      "snapshot (ch_objects ch1) = snapshot (ch_objects ch)" "undo_ok (ce_undo en) (ch_objects ch1)" "undo_states (ce_undo en) (ch_objects ch1) \<noteq> []"
      "?body ch1 = (Inr (), ch2)" "snapshot db3 = snapshot (ch_objects ch2)"
    then show ?thesis using body [OF a(3-6)] run by auto
  qed
qed

lemma apply_items_replays:
  assumes en: "faithful_variants (ce_undo en)" "applies_by_changes en" "applies_head en" "applies_functionally en"
  shows "can_apply en skip as ch \<Longrightarrow> on_top en bs t c ch \<Longrightarrow> length bs + length as \<le> 1440 \<Longrightarrow>
    (\<And>a. a \<in> set as \<Longrightarrow> fi_id (item (ch_fork_db ch) a) = block_id (ce_block en) (fi_data (item (ch_fork_db ch) a)) \<and>
      fi_id (item (ch_fork_db ch) a) \<noteq> t) \<Longrightarrow>
    distinct (map block_num (map (\<lambda>a. fi_data (item (ch_fork_db ch) a)) as @ bs)) \<Longrightarrow>
    replays en skip (ch_checkpoints ch) (live (ce_codec en) (ch_block_id_to_block ch)) (snapshot (ch_objects ch))
      (map (\<lambda>a. fi_data (item (ch_fork_db ch) a)) as) c' \<Longrightarrow>
    \<exists>ch'. apply_items en skip as ch = (Inr (), ch') \<and> snapshot (ch_objects ch') = c'"
proof (induction as arbitrary: ch bs)
  case (Cons a as)
  let ?b = "fi_data (item (ch_fork_db ch) a)" and ?i = "fi_id (item (ch_fork_db ch) a)"
  have c: "idle en ch" "recent en ?b ch" "bd_wf (ce_block en) (ce_codec en) (ch_block_id_to_block ch)"
      "block_storable (ce_block en) (ce_codec en) ?b (ch_block_id_to_block ch)" "?i = block_id (ce_block en) ?b" "?i \<noteq> t"
      "length bs \<le> 1439" "block_num ?b \<notin> block_num ` set bs"
    using Cons.prems by (auto simp: on_top_def stored_def)
  obtain ch0 ch0' where r0: "in_progress en ch0" and r: "ch_checkpoints ch0 = ch_checkpoints ch" "snapshot (ch_objects ch0) = snapshot (ch_objects ch)"
      "live (ce_codec en) (ch_block_id_to_block ch0) = live (ce_codec en) (ch_block_id_to_block ch)"
      "apply_block en ?b skip ch0 = (Inr (), ch0')"
      "replays en skip (ch_checkpoints ch) ((live (ce_codec en) (ch_block_id_to_block ch))(block_num ?b \<mapsto> ?b)) (snapshot (ch_objects ch0'))
        (map (\<lambda>a. fi_data (item (ch_fork_db ch) a)) as) c'"
    using Cons.prems(6) by auto
  obtain ch1 where run: "apply_and_store en skip ?i ?b ch = (Inr (), ch1)" "snapshot (ch_objects ch1) = snapshot (ch_objects ch0')"
    using apply_and_store_replays [OF en(1,2,4) c(1-5) r0 r(1-4)] by blast
  have s: "on_top en (?b # bs) t c ch1" "ch_fork_db ch1 = ch_fork_db ch"
      "live (ce_codec en) (ch_block_id_to_block ch1) = (live (ce_codec en) (ch_block_id_to_block ch))(block_num ?b \<mapsto> ?b)"
    using on_top_stored [OF en(1-3) c(1,2) Cons.prems(2) c(7,4,5,6,8) run(1)] by blast+
  have cps: "ch_checkpoints ch1 = ch_checkpoints ch" using keeps_apply_and_store run(1) by (metis keeps_def snd_conv)
  have ca: "can_apply en skip as ch1" using Cons.prems(1) run(1) by simp
  have len: "length (?b # bs) + length as \<le> 1440" using Cons.prems(3) by simp
  have ids: "fi_id (item (ch_fork_db ch1) x) = block_id (ce_block en) (fi_data (item (ch_fork_db ch1) x)) \<and> fi_id (item (ch_fork_db ch1) x) \<noteq> t"
    if "x \<in> set as" for x
    unfolding s(2) by (rule Cons.prems(4)) (use that in simp)
  have nums: "distinct (map block_num (map (\<lambda>a. fi_data (item (ch_fork_db ch1) a)) as @ ?b # bs))" using Cons.prems(5) s(2) by auto
  have "\<exists>ch'. apply_items en skip as ch1 = (Inr (), ch') \<and> snapshot (ch_objects ch') = c'"
    by (rule Cons.IH [OF ca s(1) len ids nums], unfold s(2,3) cps run(2)) (use r(5) in blast)+
  then show ?case using run(1) by simp
qed simp

section \<open>The way back\<close>

lemma drop_branch_fork:
  assumes "\<And>a. a \<in> set rest \<Longrightarrow> fi_id (item (ch_fork_db ch) a) = block_id (ce_block en) (fi_data (item (ch_fork_db ch) a))"
  shows "ch_fork_db (drop_branch en rest ss ch) = (ch_fork_db ch)\<lparr>fd_head := Some (hd ss),
      fd_index := filter (\<lambda>x. fi_id (item (ch_fork_db ch) x) \<notin> (\<lambda>a. fi_id (item (ch_fork_db ch) a)) ` set rest) (fd_index (ch_fork_db ch))\<rparr>"
proof -
  have "fold (\<lambda>a fd. fork_remove (block_id (ce_block en) (fi_data (item fd a))) fd) rest fd =
      fd\<lparr>fd_index := filter (\<lambda>x. fi_id (item fd x) \<notin> (\<lambda>a. block_id (ce_block en) (fi_data (item fd a))) ` set rest) (fd_index fd)\<rparr>"
    for fd :: "('a, 'b) fork_database"
  proof (induction rest arbitrary: fd)
    case (Cons a rest)
    then show ?case by (simp add: fork_remove_def index_erase_def item_def conj_commute)
  qed simp
  moreover have "(\<lambda>a. block_id (ce_block en) (fi_data (item (ch_fork_db ch) a))) ` set rest = (\<lambda>a. fi_id (item (ch_fork_db ch) a)) ` set rest"
    using assms by (intro image_cong) simp_all
  ultimately show ?thesis by (simp add: drop_branch_def fork_set_head_def)
qed

lemma drop_branch_frame:
  "ch_objects (drop_branch en rest ss ch) = ch_objects ch" "ch_block_id_to_block (drop_branch en rest ss ch) = ch_block_id_to_block ch"
  "ch_pending_tx_session (drop_branch en rest ss ch) = ch_pending_tx_session ch" "ch_checkpoints (drop_branch en rest ss ch) = ch_checkpoints ch"
  by (simp_all add: drop_branch_def)

lemma put_blocks_other: "n \<notin> block_num ` set bs \<Longrightarrow> put_blocks bs m n = m n"
  by (induction bs arbitrary: m) auto

lemma put_take_blocks:
  assumes "\<forall>b \<in> set bs. m (block_num b) = None"
  shows "take_blocks bs (put_blocks bs m) = m"
  using assms by (auto simp: take_blocks_def fun_eq_iff put_blocks_other)

lemma take_put_blocks:
  assumes "\<forall>b \<in> set bs. m (block_num b) = Some b" "distinct (map block_num bs)"
  shows "put_blocks bs (take_blocks bs m) = m"
proof -
  have put: "b \<in> set bs \<Longrightarrow> distinct (map block_num bs) \<Longrightarrow> put_blocks bs m (block_num b) = Some b"
    for b and m :: "u32 \<rightharpoonup> ('a, 'b) signed_block" and bs
  proof (induction bs arbitrary: m)
    case (Cons x bs)
    then show ?case using put_blocks_other [of "block_num x" bs "m(block_num x \<mapsto> x)"] by auto
  qed simp
  show ?thesis
  proof
    fix n
    show "put_blocks bs (take_blocks bs m) n = m n"
    proof (cases "n \<in> block_num ` set bs")
      case True
      then obtain b where b: "n = block_num b" "b \<in> set bs" by blast
      then show ?thesis using put [OF b(2) assms(2)] assms(1) by simp
    next
      case False
      then show ?thesis using put_blocks_other [OF False] by (simp add: take_blocks_def)
    qed
  qed
qed

text \<open>Both ways can be gone: the new branch can be tried, and after its failure the old one can be applied again.\<close>

definition can_switch ::
  "('h, 't, 'v) chain_env \<Rightarrow> u32 \<Rightarrow> addr list \<Rightarrow> addr list \<Rightarrow> block_id_type \<Rightarrow> ('h, 't, 'v) chain_database \<Rightarrow> bool" where
  "can_switch en skip fs ss t ch \<longleftrightarrow> (\<forall>ch1. pop_until en t ch = (Inr (), ch1) \<longrightarrow> can_apply en skip (rev fs) ch1 \<and>
     (\<forall>e rest ch2 ch3. apply_items en skip (rev fs) ch1 = (Inl (e, rest), ch2) \<longrightarrow>
        pop_until en t (drop_branch en rest ss ch2) = (Inr (), ch3) \<longrightarrow> can_apply en skip (rev ss) ch3))"

text \<open>
  The fork database knows the old branch \<open>ss\<close> and the blocks \<open>olds\<close> before it, so that as many blocks can be popped as the new
  branch has; no number of the new branch that the old one does not have is stored.
\<close>

definition way_back ::
  "('h, 't, 'v) chain_env \<Rightarrow> addr list \<Rightarrow> addr list \<Rightarrow> addr list \<Rightarrow> block_id_type \<Rightarrow> ('h, 't, 'v) chain_database \<Rightarrow> bool" where
  "way_back en fs ss olds t ch \<longleftrightarrow> linked (ch_fork_db ch) (ss @ olds) \<and> length fs \<le> length (ss @ olds) \<and>
     (\<forall>a \<in> set (ss @ olds). fi_id (item (ch_fork_db ch) a) \<notin> (\<lambda>a. fi_id (item (ch_fork_db ch) a)) ` set fs) \<and>
     (\<forall>a \<in> set ss. fi_id (item (ch_fork_db ch) a) = block_id (ce_block en) (fi_data (item (ch_fork_db ch) a)) \<and>
        fi_id (item (ch_fork_db ch) a) \<noteq> t) \<and>
     (\<forall>a \<in> set fs. block_num (fi_data (item (ch_fork_db ch) a)) \<in> (\<lambda>a. block_num (fi_data (item (ch_fork_db ch) a))) ` set ss \<or>
        live (ce_codec en) (ch_block_id_to_block ch) (block_num (fi_data (item (ch_fork_db ch) a))) = None)"

lemma linked_drop:
  assumes "linked fd as" "\<forall>a \<in> set as. fi_id (item fd a) \<notin> ids"
  shows "linked (fd\<lparr>fd_head := h, fd_index := filter (\<lambda>x. fi_id (item fd x) \<notin> ids) (fd_index fd)\<rparr>) as"
  using assms by (auto simp: linked_def item_def)

lemma abandon_branch:
  assumes en: "faithful_variants (ce_undo en)" and top: "on_top en (rev (map (\<lambda>a. fi_data (item (ch_fork_db ch) a)) as)) t c ch"
    and wb: "linked (ch_fork_db ch) (ss @ olds)" "length as < length (ss @ olds)" "ss \<noteq> []"
      "\<forall>a \<in> set (ss @ olds). fi_id (item (ch_fork_db ch) a) \<notin> (\<lambda>a. fi_id (item (ch_fork_db ch) a)) ` set rest"
    and rest: "\<And>a. a \<in> set rest \<Longrightarrow> fi_id (item (ch_fork_db ch) a) = block_id (ce_block en) (fi_data (item (ch_fork_db ch) a))"
  obtains ch' where "pop_until en t (drop_branch en rest ss ch) = (Inr (), ch')" "on_top en [] t c ch'" "snapshot (ch_objects ch') = c"
    "live (ce_codec en) (ch_block_id_to_block ch') =
      take_blocks (map (\<lambda>a. fi_data (item (ch_fork_db ch) a)) as) (live (ce_codec en) (ch_block_id_to_block ch))"
    "fd_head (ch_fork_db ch') = Some ((ss @ olds) ! length as)" "\<And>a. item (ch_fork_db ch') a = item (ch_fork_db ch) a"
    "ch_checkpoints ch' = ch_checkpoints ch"
proof -
  let ?ch = "drop_branch en rest ss ch" and ?bs = "rev (map (\<lambda>a. fi_data (item (ch_fork_db ch) a)) as)"
  have f: "ch_fork_db ?ch = (ch_fork_db ch)\<lparr>fd_head := Some (hd ss),
      fd_index := filter (\<lambda>x. fi_id (item (ch_fork_db ch) x) \<notin> (\<lambda>a. fi_id (item (ch_fork_db ch) a)) ` set rest) (fd_index (ch_fork_db ch))\<rparr>"
    by (rule drop_branch_fork) (rule rest)
  have l: "linked (ch_fork_db ?ch) (ss @ olds)" unfolding f by (rule linked_drop [OF wb(1,4)])
  have h: "fd_head (ch_fork_db ?ch) = Some ((ss @ olds) ! 0)" "0 + length ?bs < length (ss @ olds)"
    using f wb(2,3) by (cases ss; simp)+
  have it: "item (ch_fork_db ?ch) a = item (ch_fork_db ch) a" for a unfolding f by (simp add: item_def)
  have t: "undo_ok (ce_undo en) (ch_objects ?ch)" "ud_active_sessions (db_undo (ch_objects ?ch)) = 0" "ch_pending_tx_session ?ch = None"
      "stacked en ?bs t (undo_states (ce_undo en) (ch_objects ?ch)) (snapshot (ch_objects ?ch))" "stored en ?bs ?ch"
      "past (ce_undo en) (ch_objects ?ch) (length ?bs) = c"
    using top by (simp_all add: on_top_def stored_def drop_branch_frame)
  obtain ch' where ch': "pop_until en t ?ch = (Inr (), ch')" "undo_ok (ce_undo en) (ch_objects ch')"
      "undo_rest (db_undo (ch_objects ch')) = undo_rest (db_undo (ch_objects ?ch))"
      "snapshot (ch_objects ch') = past (ce_undo en) (ch_objects ?ch) (length ?bs)" "snap_head en (snapshot (ch_objects ch')) = Some t"
      "bd_wf (ce_block en) (ce_codec en) (ch_block_id_to_block ch')"
      "live (ce_codec en) (ch_block_id_to_block ch') =
        (\<lambda>n. if n \<in> block_num ` set ?bs then None else live (ce_codec en) (ch_block_id_to_block ?ch) n)"
      "ch_fork_db ch' = (ch_fork_db ?ch)\<lparr>fd_head := Some ((ss @ olds) ! (0 + length ?bs))\<rparr>" "ch_pending_tx_session ch' = None"
    using pop_until_ok [OF en t(1-5) l h] by blast
  have "on_top en [] t c ch'" using ch' t(2,6) by (simp add: on_top_def stored_def undo_rest_eq past_def)
  moreover have "live (ce_codec en) (ch_block_id_to_block ch') =
      take_blocks (map (\<lambda>a. fi_data (item (ch_fork_db ch) a)) as) (live (ce_codec en) (ch_block_id_to_block ch))"
    using ch'(7) unfolding drop_branch_frame by (simp add: take_blocks_def)
  moreover have "ch_checkpoints ch' = ch_checkpoints ch" using pop_until_checkpoints [OF ch'(1)] by (simp add: drop_branch_frame)
  ultimately show ?thesis using that [of ch'] ch'(1,4,8) t(6) it by simp
qed

lemma switch_failed:
  assumes en: "faithful_variants (ce_undo en)" "applies_by_changes en" "applies_head en" "applies_functionally en"
    and f: "forked en fs ss t c ch" and can: "can_switch en skip fs ss t ch" and wb: "way_back en fs ss olds t ch"
    and rep: "replays en skip (ch_checkpoints ch)
      (take_blocks (map (\<lambda>a. fi_data (item (ch_fork_db ch) a)) ss) (live (ce_codec en) (ch_block_id_to_block ch))) c
      (map (\<lambda>a. fi_data (item (ch_fork_db ch) a)) (rev ss)) (snapshot (ch_objects ch))"
    and run: "switch_fork en skip fs ss ch = (Inl e, ch')" "fc_exception e"
  shows "snapshot (ch_objects ch') = snapshot (ch_objects ch)"
    "live (ce_codec en) (ch_block_id_to_block ch') = live (ce_codec en) (ch_block_id_to_block ch)"
    "on_top en (map (\<lambda>a. fi_data (item (ch_fork_db ch) a)) ss) t c ch'"
    "\<exists>k < length fs. fd_head (ch_fork_db ch') = Some ((ss @ olds) ! k)"
proof -
  let ?d = "\<lambda>a. fi_data (item (ch_fork_db ch) a)" and ?L = "live (ce_codec en) (ch_block_id_to_block ch)"
  have ss: "ss \<noteq> []" "length ss < length fs" "length fs \<le> 1440" "distinct (map (\<lambda>a. block_num (?d a)) fs)"
      "blk_previous (?d (last ss)) = t" "stored en (map ?d ss) ch"
    using f by (simp_all add: forked_def on_top_def)
  obtain ch1 where ch1: "pop_until en t ch = (Inr (), ch1)" "on_top en [] t c ch1"
      "ch_fork_db ch1 = (ch_fork_db ch)\<lparr>fd_head := Some (fs ! length ss)\<rparr>"
      "live (ce_codec en) (ch_block_id_to_block ch1) = take_blocks (map ?d ss) ?L"
    by (rule forked_pop [OF en(1) f])
  have can1: "can_apply en skip (rev fs) ch1" using can ch1(1) by (simp add: can_switch_def)
  obtain r1 ch2 where ap: "apply_items en skip (rev fs) ch1 = (r1, ch2)" by fastforce
  have it1: "item (ch_fork_db ch1) a = item (ch_fork_db ch) a" for a using ch1(3) by simp
  have ids: "fi_id (item (ch_fork_db ch) a) = block_id (ce_block en) (?d a) \<and> fi_id (item (ch_fork_db ch) a) \<noteq> t"
    if "a \<in> set fs \<union> set ss" for a
    using f wb that unfolding forked_def way_back_def by blast
  have ids1: "fi_id (item (ch_fork_db ch1) a) = block_id (ce_block en) (fi_data (item (ch_fork_db ch1) a)) \<and> fi_id (item (ch_fork_db ch1) a) \<noteq> t"
    if "a \<in> set (rev fs)" for a
    using that unfolding it1 by (intro ids) simp
  have nums: "distinct (map block_num (map (\<lambda>a. fi_data (item (ch_fork_db ch1) a)) (rev fs) @ []))" and len: "length [] + length (rev fs) \<le> 1440"
    using ss(3,4) by (simp_all add: it1 rev_map [symmetric] comp_def)
  obtain as where as: "case r1 of Inr _ \<Rightarrow> as = rev fs | Inl (e, rest) \<Rightarrow> rest \<noteq> [] \<and> rev fs = as @ rest" "ch_fork_db ch2 = ch_fork_db ch1"
      "on_top en (rev (map (\<lambda>a. fi_data (item (ch_fork_db ch1) a)) as) @ []) t c ch2"
      "live (ce_codec en) (ch_block_id_to_block ch2) = put_blocks (map (\<lambda>a. fi_data (item (ch_fork_db ch1) a)) as)
          (live (ce_codec en) (ch_block_id_to_block ch1))"
    using apply_items_on_top [OF en(1-3) can1 ap ch1(2) len ids1 nums] by blast
  obtain e0 rest where r1: "r1 = Inl (e0, rest)"
    using run(1) ch1(1) ap ss(5) by (cases r1) (auto simp: switch_fork_def Let_def run_bind_def)
  have fs: "rev fs = as @ rest" "rest \<noteq> []" using as(1) r1 by simp_all
  then have "fs = rev rest @ rev as" by (metis rev_append rev_rev_ident)
  then have sub: "set as \<subseteq> set fs" "set rest \<subseteq> set fs" "length as < length fs" using fs(2) by auto
  have it2: "item (ch_fork_db ch2) a = item (ch_fork_db ch) a" for a using as(2) it1 by simp
  have sw: "(if fc_exception e0 then restore_fork en skip ss t (e0, rest) ch2 else (Inl e0, ch2)) = (Inl e, ch')"
    using run(1) ch1(1) ap r1 ss(5) by (simp add: switch_fork_def Let_def run_bind_def)
  then have fc: "restore_fork en skip ss t (e0, rest) ch2 = (Inl e, ch')" using run(2) by (auto split: if_splits)
  have l2: "linked (ch_fork_db ch2) (ss @ olds)"
    using wb as(2) ch1(3) by (simp add: way_back_def linked_def item_def)
  have top2: "on_top en (rev (map (\<lambda>a. fi_data (item (ch_fork_db ch2) a)) as)) t c ch2" using as(3) by (simp add: it1 it2)
  have len2: "length as < length (ss @ olds)" using sub(3) wb by (simp add: way_back_def)
  have ids2: "\<forall>a \<in> set (ss @ olds). fi_id (item (ch_fork_db ch2) a) \<notin> (\<lambda>a. fi_id (item (ch_fork_db ch2) a)) ` set rest"
    using wb sub(2) unfolding way_back_def it2 by blast
  have rest2: "fi_id (item (ch_fork_db ch2) a) = block_id (ce_block en) (fi_data (item (ch_fork_db ch2) a))" if "a \<in> set rest" for a
    using ids [of a] that sub(2) unfolding it2 by blast
  obtain ch4 where ch4: "pop_until en t (drop_branch en rest ss ch2) = (Inr (), ch4)" "on_top en [] t c ch4" "snapshot (ch_objects ch4) = c"
      "live (ce_codec en) (ch_block_id_to_block ch4) =
        take_blocks (map (\<lambda>a. fi_data (item (ch_fork_db ch2) a)) as) (live (ce_codec en) (ch_block_id_to_block ch2))"
      "fd_head (ch_fork_db ch4) = Some ((ss @ olds) ! length as)" "\<And>a. item (ch_fork_db ch4) a = item (ch_fork_db ch2) a"
      "ch_checkpoints ch4 = ch_checkpoints ch2"
    using abandon_branch [OF en(1) top2 l2 len2 ss(1) ids2 rest2] by blast
  have "\<forall>b \<in> set (map ?d as). take_blocks (map ?d ss) ?L (block_num b) = None"
    using wb sub(1) unfolding way_back_def take_blocks_def by (auto simp: image_image)
  then have live4: "live (ce_codec en) (ch_block_id_to_block ch4) = take_blocks (map ?d ss) ?L"
    using ch4(4) as(4) ch1(4) put_take_blocks [of "map ?d as"] unfolding it1 it2 by simp
  have it4: "item (ch_fork_db ch4) a = item (ch_fork_db ch) a" for a using ch4(6) it2 by simp
  have cps: "ch_checkpoints ch4 = ch_checkpoints ch"
    using ch4(7) apply_items_checkpoints [OF ap] pop_until_checkpoints [OF ch1(1)] by simp
  have can4: "can_apply en skip (rev ss) ch4"
    using can ch1(1) ap ch4(1) unfolding can_switch_def r1 by blast
  have nums4: "distinct (map block_num (map (\<lambda>a. fi_data (item (ch_fork_db ch4) a)) (rev ss) @ []))" and len4: "length [] + length (rev ss) \<le> 1440"
    using ss(2,3,6) by (simp_all add: it4 rev_map [symmetric] comp_def stored_def)
  have ids4: "fi_id (item (ch_fork_db ch4) a) = block_id (ce_block en) (fi_data (item (ch_fork_db ch4) a)) \<and> fi_id (item (ch_fork_db ch4) a) \<noteq> t"
    if "a \<in> set (rev ss)" for a
    using that unfolding it4 by (intro ids) simp
  obtain ch5 where ch5: "apply_items en skip (rev ss) ch4 = (Inr (), ch5)" "snapshot (ch_objects ch5) = snapshot (ch_objects ch)"
    using apply_items_replays [OF en can4 ch4(2) len4 ids4 nums4] rep unfolding cps live4 ch4(3) it4 by blast
  have top5: "ch_fork_db ch5 = ch_fork_db ch4" "on_top en (rev (map (\<lambda>a. fi_data (item (ch_fork_db ch4) a)) (rev ss)) @ []) t c ch5"
      "live (ce_codec en) (ch_block_id_to_block ch5) = put_blocks (map (\<lambda>a. fi_data (item (ch_fork_db ch4) a)) (rev ss))
        (live (ce_codec en) (ch_block_id_to_block ch4))"
    using apply_items_on_top [OF en(1-3) can4 ch5(1) ch4(2) len4 ids4 nums4] by auto
  have ch': "ch' = ch5" using fc ch4(1) ch5(1) by (simp add: restore_fork_def run_bind_def)
  show "snapshot (ch_objects ch') = snapshot (ch_objects ch)" using ch' ch5(2) by simp
  have "take_blocks (map ?d ss) ?L = take_blocks (map ?d (rev ss)) ?L" by (simp add: take_blocks_def)
  then show "live (ce_codec en) (ch_block_id_to_block ch') = ?L"
    using ch' top5(3) live4 take_put_blocks [of "map ?d (rev ss)" ?L] ss(6) by (simp add: it4 stored_def rev_map [symmetric])
  show "on_top en (map ?d ss) t c ch'" using top5(2) ch' by (simp add: it4 rev_map [symmetric])
  show "\<exists>k < length fs. fd_head (ch_fork_db ch') = Some ((ss @ olds) ! k)" using sub(3) ch' top5(1) ch4(5) by auto
qed

end
