(* ===== verification/Chain_Pending.thy ===== *)
theory Chain_Pending
  imports Chain_Pushing
begin

text \<open>
  Pending transactions: they are applied in a session of their own on top of the head, and clearing them leads back to the
  state of the head block.
\<close>

section \<open>The pending session\<close>

text \<open>
  The state without the pending transactions has the snapshot \<open>c\<close>.
\<close>

definition pending_ok :: "('h, 't, 'v) chain_env \<Rightarrow> 'v snapshot \<Rightarrow> ('h, 't, 'v) chain_database \<Rightarrow> bool" where
  "pending_ok en c ch \<longleftrightarrow> undo_ok (ce_undo en) (ch_objects ch) \<and>
     (case ch_pending_tx_session ch of
        None \<Rightarrow> ud_active_sessions (db_undo (ch_objects ch)) = 0 \<and> snapshot (ch_objects ch) = c
      | Some ses \<Rightarrow> ses = \<lparr>ses_apply_undo = True, ses_disable_on_exit = False\<rparr> \<and>
          ud_active_sessions (db_undo (ch_objects ch)) = 1 \<and>
          (\<exists>s ss. undo_states (ce_undo en) (ch_objects ch) = s # ss \<and> revert s (snapshot (ch_objects ch)) = c))"

definition transactions_by_changes :: "('h, 't, 'v) chain_env \<Rightarrow> bool" where
  "transactions_by_changes en \<longleftrightarrow>
    (\<forall>ch trx testing r x. ce_apply_transaction en ch trx testing = (r, x) \<longrightarrow> change\<^sup>*\<^sup>* (ch_objects ch) x)"

lemma clear_pending_restores:
  assumes en: "faithful_variants (ce_undo en)" and ok: "pending_ok en c ch"
  shows "\<exists>ch'. clear_pending en ch = (Inr (), ch') \<and> snapshot (ch_objects ch') = c \<and> undo_ok (ce_undo en) (ch_objects ch') \<and>
    ch_pending_tx ch' = [] \<and> ch_pending_tx_session ch' = None \<and> ud_active_sessions (db_undo (ch_objects ch')) = 0 \<and>
    ch_block_id_to_block ch' = ch_block_id_to_block ch \<and> ch_fork_db ch' = ch_fork_db ch"
proof (cases "ch_pending_tx_session ch")
  case None
  then show ?thesis using ok by (simp add: clear_pending_def reset_pending_session_def pending_ok_def)
next
  case (Some ses)
  then obtain s ss where a: "undo_ok (ce_undo en) (ch_objects ch)" "ses = \<lparr>ses_apply_undo = True, ses_disable_on_exit = False\<rparr>"
      "ud_active_sessions (db_undo (ch_objects ch)) = 1" "undo_states (ce_undo en) (ch_objects ch) = s # ss"
      "revert s (snapshot (ch_objects ch)) = c"
    using ok by (auto simp: pending_ok_def)
  obtain db where "undo (ce_undo en) (ch_objects ch) = (Inr (), db)" "undo_ok (ce_undo en) db" "snapshot db = c"
      "ud_active_sessions (db_undo db) = 0"
    using undo_refines [OF en a(1,4)] a(3,5) by (auto simp: undo_rest_eq)
  then show ?thesis
    using Some a(2) by (simp add: clear_pending_def reset_pending_session_def on_objects_def session_destroy_def run_return_def)
qed

section \<open>Pushing a transaction\<close>

lemma session_merged:
  assumes en: "faithful_variants en" and ok: "undo_ok en db" and can: "can_start en db"
    and p: "undo_states en db = p # ss" and active: "ud_active_sessions (db_undo db) + 1 \<noteq> 0"
    and start: "with_undo (start_undo_session en False) db = (Inr ses, db1)" and changes: "change\<^sup>*\<^sup>* db1 db2"
  obtains q qs ses' db3 where "session_merge en ses db2 = (Inr (), ses', db3)" "session_destroy en ses' db3 = (Inr (), db3)"
    "undo_ok en db3" "undo_states en db3 = q # qs" "revert q (snapshot db3) = revert p (snapshot db)"
    "ud_active_sessions (db_undo db3) = ud_active_sessions (db_undo db)"
proof -
  obtain s where s: "ses = \<lparr>ses_apply_undo = True, ses_disable_on_exit = False\<rparr>" "undo_ok en db2"
      "undo_states en db2 = s # take (ud_max_size (db_undo db) - 1) (undo_states en db)" "revert s (snapshot db2) = snapshot db"
      "undo_rest (db_undo db2) = undo_rest ((db_undo db)\<lparr>ud_active_sessions := ud_active_sessions (db_undo db) + 1\<rparr>)"
    by (rule session_changed [OF en ok can start changes])
  obtain n where "ud_max_size (db_undo db) - 1 = Suc n" using can by (cases "ud_max_size (db_undo db) - 1") (auto simp: can_start_def)
  then have ss2: "undo_states en db2 = s # p # take n ss" using s(3) p by simp
  have a: "ud_active_sessions (db_undo db2) \<noteq> 0" using s(5) active by (simp add: undo_rest_eq)
  obtain db3 where "with_undo (undo_merge en) db2 = (Inr (), db3)" "undo_ok en db3" "snapshot db3 = snapshot db2"
      "undo_states en db3 = merge_states p s # take n ss" "revert (merge_states p s) (snapshot db2) = revert p (revert s (snapshot db2))"
      "ud_active_sessions (db_undo db3) = ud_active_sessions (db_undo db2) - 1"
    using merge_refines [OF en s(2) ss2 a] by blast
  then show ?thesis
    using that [of "ses\<lparr>ses_apply_undo := False\<rparr>" db3 "merge_states p s" "take n ss"] s
    by (simp add: session_merge_def clear_after_def session_destroy_def run_return_def undo_rest_eq)
qed

text \<open>The history can take the pending session and the temporary one.\<close>

definition can_push :: "('h, 't, 'v) chain_env \<Rightarrow> ('h, 't, 'v) chain_database \<Rightarrow> bool" where
  "can_push en ch \<longleftrightarrow> can_start (ce_undo en) (ch_objects ch) \<and> (ch_pending_tx_session ch = None \<longrightarrow>
     (case with_undo (start_undo_session (ce_undo en) False) (ch_objects ch) of
        (Inr ses, x) \<Rightarrow> can_start (ce_undo en) x | (Inl e, x) \<Rightarrow> True))"

lemma start_pending_ok:
  assumes en: "faithful_variants (ce_undo en)" and ok: "pending_ok en c ch" and can: "can_push en ch"
  obtains ch1 ses where "start_pending_session en ch = (Inr (), ch1)" "pending_ok en c ch1" "can_start (ce_undo en) (ch_objects ch1)"
    "ch_pending_tx_session ch1 = Some ses" "snapshot (ch_objects ch1) = snapshot (ch_objects ch)"
    "ch1 = ch\<lparr>ch_objects := ch_objects ch1, ch_pending_tx_session := ch_pending_tx_session ch1\<rparr>"
proof (cases "ch_pending_tx_session ch")
  case (Some ses)
  then show ?thesis using that [of ch ses] assms by (simp add: start_pending_session_def can_push_def)
next
  case None
  have u: "undo_ok (ce_undo en) (ch_objects ch)" "can_start (ce_undo en) (ch_objects ch)" "snapshot (ch_objects ch) = c"
      "ud_active_sessions (db_undo (ch_objects ch)) = 0"
    using ok can None by (simp_all add: pending_ok_def can_push_def)
  obtain db where db: "with_undo (start_undo_session (ce_undo en) False) (ch_objects ch) = (Inr \<lparr>ses_apply_undo = True, ses_disable_on_exit = False\<rparr>, db)"
      "undo_ok (ce_undo en) db" "snapshot db = snapshot (ch_objects ch)"
      "undo_states (ce_undo en) db = empty_undo_state # take (ud_max_size (db_undo (ch_objects ch)) - 1) (undo_states (ce_undo en) (ch_objects ch))"
      "undo_rest (db_undo db) = undo_rest ((db_undo (ch_objects ch))\<lparr>ud_active_sessions := ud_active_sessions (db_undo (ch_objects ch)) + 1\<rparr>)"
    by (rule start_session [OF en u(1,2)])
  let ?ch = "ch\<lparr>ch_objects := db, ch_pending_tx_session := Some \<lparr>ses_apply_undo = True, ses_disable_on_exit = False\<rparr>\<rparr>"
  have "start_pending_session en ch = (Inr (), ?ch)"
    using None db(1) by (simp add: start_pending_session_def run_bind_def on_objects_def run_update_def session_move_def)
  moreover have "pending_ok en c ?ch"
    using db u(3,4) by (simp add: pending_ok_def undo_rest_eq revert_def revert_empty)
  moreover have "can_start (ce_undo en) db" using can None db(1) by (simp add: can_push_def)
  ultimately show ?thesis using that [of ?ch] db(3) by simp
qed

lemma push_transaction_pending:
  assumes en: "faithful_variants (ce_undo en)" "transactions_by_changes en" and ok: "pending_ok en c ch" and can: "can_push en ch"
    and run: "push_transaction_impl en trx ch = (r, ch')"
  shows "pending_ok en c ch' \<and> ch_fork_db ch' = ch_fork_db ch \<and> ch_block_id_to_block ch' = ch_block_id_to_block ch \<and>
    (case r of Inl e \<Rightarrow> snapshot (ch_objects ch') = snapshot (ch_objects ch) \<and> ch_pending_tx ch' = ch_pending_tx ch
     | Inr ptrx \<Rightarrow> ch_pending_tx ch' = ch_pending_tx ch @ [ptrx])"
proof -
  let ?body = "\<lambda>ch. with_skip_flags (ch_skip_flags ch) (run_apply_transaction en trx False) ch"
  obtain ch1 ses where ch1: "start_pending_session en ch = (Inr (), ch1)" "pending_ok en c ch1" "can_start (ce_undo en) (ch_objects ch1)"
      "ch_pending_tx_session ch1 = Some ses" "snapshot (ch_objects ch1) = snapshot (ch_objects ch)"
      "ch1 = ch\<lparr>ch_objects := ch_objects ch1, ch_pending_tx_session := ch_pending_tx_session ch1\<rparr>"
    by (rule start_pending_ok [OF en(1) ok can])
  have frame: "ch_fork_db ch1 = ch_fork_db ch" "ch_block_id_to_block ch1 = ch_block_id_to_block ch" "ch_pending_tx ch1 = ch_pending_tx ch"
    by (subst ch1(6), simp)+
  obtain p ss where p: "undo_ok (ce_undo en) (ch_objects ch1)" "ses = \<lparr>ses_apply_undo = True, ses_disable_on_exit = False\<rparr>"
      "ud_active_sessions (db_undo (ch_objects ch1)) = 1" "undo_states (ce_undo en) (ch_objects ch1) = p # ss"
      "revert p (snapshot (ch_objects ch1)) = c"
    using ch1(2,4) by (auto simp: pending_ok_def)
  have active: "ud_active_sessions (db_undo (ch_objects ch1)) + 1 \<noteq> 0" using p(3) by simp
  obtain tses db1 where start: "with_undo (start_undo_session (ce_undo en) False) (ch_objects ch1) = (Inr tses, db1)"
    by (rule start_session [OF en(1) p(1) ch1(3)])
  have run': "in_session en ?body (keep_pending en) ch1 = (r, ch')" using run ch1(1) by (simp add: push_transaction_impl_def run_bind_def)
  obtain r2 db2 where ap: "ce_apply_transaction en (ch1\<lparr>ch_objects := db1\<rparr>) trx False = (r2, db2)" by fastforce
  have changes: "change\<^sup>*\<^sup>* db1 db2" using en(2) ap by (auto simp: transactions_by_changes_def dest: spec [of _ "ch1\<lparr>ch_objects := db1\<rparr>"])
  let ?ch2 = "ch1\<lparr>ch_objects := db2\<rparr>"
  have body: "?body (ch1\<lparr>ch_objects := db1\<rparr>) = (r2, ?ch2)" using ap by (simp add: with_skip_flags_def run_apply_transaction_def)
  show ?thesis
  proof (cases r2)
    case (Inl e)
    obtain db3 where db3: "in_session en ?body (keep_pending en) ch1 = (Inl e, ?ch2\<lparr>ch_objects := db3\<rparr>)" "undo_ok (ce_undo en) db3"
        "snapshot db3 = snapshot (ch_objects ch1)" "undo_rest (db_undo db3) = undo_rest (db_undo (ch_objects ch1))"
        "undo_states (ce_undo en) db3 = take (ud_max_size (db_undo (ch_objects ch1)) - 1) (undo_states (ce_undo en) (ch_objects ch1))"
      by (rule in_session_failed [of en ch1 tses db1 ?body e ?ch2 "keep_pending en", OF en(1) p(1) ch1(3) active start body [unfolded Inl]])
        (use changes in simp_all)
    obtain n where "ud_max_size (db_undo (ch_objects ch1)) - 1 = Suc n"
      using ch1(3) by (cases "ud_max_size (db_undo (ch_objects ch1)) - 1") (auto simp: can_start_def)
    then have "pending_ok en c (?ch2\<lparr>ch_objects := db3\<rparr>)"
      using db3 p ch1(4) by (simp add: pending_ok_def undo_rest_eq)
    then show ?thesis using db3 run' frame ch1(5) by auto
  next
    case (Inr ptrx)
    obtain q qs ses' db3 where m: "session_merge (ce_undo en) tses db2 = (Inr (), ses', db3)" "session_destroy (ce_undo en) ses' db3 = (Inr (), db3)"
        "undo_ok (ce_undo en) db3" "undo_states (ce_undo en) db3 = q # qs" "revert q (snapshot db3) = revert p (snapshot (ch_objects ch1))"
        "ud_active_sessions (db_undo db3) = ud_active_sessions (db_undo (ch_objects ch1))"
      by (rule session_merged [OF en(1) p(1) ch1(3) p(4) active start changes])
    have "in_session en ?body (keep_pending en) ch1 = (Inr ptrx, ch1\<lparr>ch_pending_tx := ch_pending_tx ch1 @ [ptrx], ch_objects := db3\<rparr>)"
      by (simp add: in_session_start [OF start] body [simplified] Inr keep_pending_def Let_def m(1,2) on_objects_def)
    then have "r = Inr ptrx" "ch' = ch1\<lparr>ch_pending_tx := ch_pending_tx ch1 @ [ptrx], ch_objects := db3\<rparr>" using run' by simp_all
    then show ?thesis using m(3-6) p ch1(4) frame by (simp add: pending_ok_def)
  qed
qed

section \<open>Trying a transaction\<close>

lemma validate_transaction_restores:
  assumes en: "faithful_variants (ce_undo en)" "transactions_by_changes en" and ok: "undo_ok (ce_undo en) (ch_objects ch)"
      "can_start (ce_undo en) (ch_objects ch)" "ud_active_sessions (db_undo (ch_objects ch)) + 1 \<noteq> 0"
  shows "\<exists>r db. validate_transaction en trx testing ch = (r, ch\<lparr>ch_objects := db\<rparr>) \<and> snapshot db = snapshot (ch_objects ch)"
proof -
  obtain ses db1 where start: "with_undo (start_undo_session (ce_undo en) False) (ch_objects ch) = (Inr ses, db1)"
    by (rule start_session [OF en(1) ok(1,2)])
  obtain r2 db2 where ap: "ce_apply_transaction en (ch\<lparr>ch_objects := db1\<rparr>) trx testing = (r2, db2)" by fastforce
  have changes: "change\<^sup>*\<^sup>* db1 db2" using en(2) ap by (auto simp: transactions_by_changes_def dest: spec [of _ "ch\<lparr>ch_objects := db1\<rparr>"])
  obtain db3 where "session_destroy (ce_undo en) ses db2 = (Inr (), db3)" "snapshot db3 = snapshot (ch_objects ch)"
    by (rule session_undone [OF en(1) ok start changes])
  then have "validate_transaction en trx testing ch = (r2, ch\<lparr>ch_objects := db3\<rparr>) \<and> snapshot db3 = snapshot (ch_objects ch)"
    using ap by (cases r2) (simp_all add: validate_transaction_def in_session_start [OF start] run_apply_transaction_def on_objects_def)
  then show ?thesis by blast
qed

end
