(* ===== verification/Chain_Samples.thy ===== *)
theory Chain_Samples
  imports Chain_Recovery Chain_Pending
begin

text \<open>
  A small chain database on which the assumptions of the theorems on pushing and popping blocks hold: blocks with numbers for hashes, an
  object database with one object, and a way of applying blocks that writes their ids into it.
\<close>

section \<open>Blocks\<close>

text \<open>
  Blocks whose hash is the number in the header, packed into a byte for every part.
\<close>

definition sample_block_env :: "(nat, nat) block_env" where
  "sample_block_env = \<lparr>be_sha224 = \<lambda>p t h. push_bit 64 (word_of_nat h), be_merkle_digest = word_of_nat,
     be_hash_pair = \<lambda>(a, b). a + push_bit 8 b, be_checksum = ucast\<rparr>"

definition sample_block :: "block_id_type \<Rightarrow> nat \<Rightarrow> nat list \<Rightarrow> (nat, nat) signed_block" where
  "sample_block p h ts = \<lparr>blk_previous = p, blk_timestamp = 0, blk_header = h, blk_transactions = ts\<rparr>"

definition sample_genesis :: "(nat, nat) signed_block" where
  "sample_genesis = sample_block 0 1 []"

definition sample_child :: "nat \<Rightarrow> (nat, nat) signed_block" where
  "sample_child h = sample_block (block_id sample_block_env sample_genesis) h []"

definition sample_codec :: "(nat, nat) block_codec" where
  "sample_codec = \<lparr>bc_pack = \<lambda>b. [ucast (drop_bit 128 (blk_previous b)), ucast (blk_previous b), word_of_nat (blk_header b)]
       @ map word_of_nat (blk_transactions b),
     bc_unpack = \<lambda>bs. case bs of n # p # h # ts \<Rightarrow> Inr (sample_block (push_bit 128 (ucast n) + ucast p) (unat h) (map unat ts))
       | _ \<Rightarrow> Inl (Fc_assert ''stream ended'')\<rparr>"

section \<open>Applying blocks\<close>

text \<open>
  One object, the dynamic global properties, whose data is the id of the head block. A block is applied by writing its id; it fails when
  its predecessor is not the head, or, after the change, when one of its transactions is number 13. A transaction adds its number to the data.
\<close>

definition sample_chain_undo :: "(serializable_undo_state \<Rightarrow> undo_state_id_type) \<Rightarrow> block_id_type undo_env" where
  "sample_chain_undo hash = \<lparr>ue_to_variant = \<lambda>obj. Json_array [Json_int (uint (obj_id obj)), Json_int (uint (obj_data obj))],
     ue_from_variant = \<lambda>_ _ var. (case var of Json_array [Json_int a, Json_int b] \<Rightarrow> Inr \<lparr>obj_id = word_of_int a, obj_data = word_of_int b\<rparr>
       | _ \<Rightarrow> Inl (Fc_assert ''bad cast'')),
     ue_json_reload = Inr, ue_hash = hash\<rparr>"

definition sample_state_hash :: "serializable_undo_state \<Rightarrow> undo_state_id_type" where
  "sample_state_hash s =
    (case ser_old_values s of
       [] \<Rightarrow> if ser_new_ids s = [] then 1 else 2
     | (k, so) # _ \<Rightarrow> (case ser_obj so of Json_array [a, Json_int d] \<Rightarrow> word_of_int d + 3 | _ \<Rightarrow> 3))"

definition sample_apply_block ::
  "(nat, nat, block_id_type) chain_database \<Rightarrow> (nat, nat) signed_block \<Rightarrow> unit result \<times> block_id_type object_database \<times> transaction_id_type list" where
  "sample_apply_block ch b =
    (let i = block_id sample_block_env b; oid = dynamic_global_property_id
     in case db_get_object (ch_objects ch) oid of
          Inl e \<Rightarrow> (Inl (Fc_assert ''properties''), ch_objects ch, [])
        | Inr p \<Rightarrow>
            if obj_id p \<noteq> oid \<or> obj_data p \<noteq> blk_previous b
            then (Inl (Fc_assert ''previous''), ch_objects ch, [])
            else case db_modify p (\<lambda>p. p\<lparr>obj_data := i\<rparr>) (ch_objects ch) of
                (Inl e, x) \<Rightarrow> (Inl e, x, [])
              | (Inr _, x) \<Rightarrow>
                  if 13 \<in> set (blk_transactions b) \<or> db_get_object x oid \<noteq> Inr (p\<lparr>obj_data := i\<rparr>)
                  then (Inl (Fc_assert ''transaction''), x, [])
                  else (Inr (), x, map word_of_nat (blk_transactions b)))"

definition sample_apply_transaction ::
  "(nat, nat, block_id_type) chain_database \<Rightarrow> nat \<Rightarrow> bool \<Rightarrow> nat result \<times> block_id_type object_database" where
  "sample_apply_transaction ch trx testing =
    (case db_get_object (ch_objects ch) dynamic_global_property_id of
       Inl e \<Rightarrow> (Inl e, ch_objects ch)
     | Inr p \<Rightarrow>
         if obj_id p \<noteq> dynamic_global_property_id then (Inl (Fc_assert ''properties''), ch_objects ch)
         else case db_modify p (\<lambda>p. p\<lparr>obj_data := obj_data p + word_of_nat trx\<rparr>) (ch_objects ch) of
             (Inl e, x) \<Rightarrow> (Inl e, x)
           | (Inr _, x) \<Rightarrow> (if trx = 13 then Inl (Fc_assert ''transaction'') else Inr trx, x))"

definition sample_chain_env :: "(nat, nat, block_id_type) chain_env" where
  "sample_chain_env = \<lparr>ce_block = sample_block_env, ce_codec = sample_codec,
     ce_undo = sample_chain_undo sample_state_hash,
     ce_head_block_id = \<lambda>p. obj_data p, ce_head_block_number = \<lambda>p. num_from_id (obj_data p),
     ce_now = \<lambda>_. 0, ce_apply_block = sample_apply_block, ce_apply_transaction = sample_apply_transaction,
     ce_trx_id = word_of_nat, ce_known_transaction = \<lambda>_ _. False, ce_operations = \<lambda>_. [other_operation]\<rparr>"

section \<open>Object databases\<close>

text \<open>
  Every database of the sample has the form \<open>sample_objects\<close>, so that the operations can be followed on it one by one.
\<close>

definition sample_properties :: "block_id_type \<Rightarrow> block_id_type object" where
  "sample_properties i = \<lparr>obj_id = dynamic_global_property_id, obj_data = i\<rparr>"

definition sample_undo :: "u32 \<Rightarrow> block_id_type undo_state list \<Rightarrow> block_id_type undo_database" where
  "sample_undo n ss = new_undo_database\<lparr>ud_active_sessions := n, ud_disabled := False, ud_open := True, ud_back := ss\<rparr>"

definition sample_objects :: "block_id_type \<Rightarrow> block_id_type undo_database \<Rightarrow> block_id_type object_database" where
  "sample_objects i u = \<lparr>db_index = (replicate 255 [])[2 := [None, Some \<lparr>pi_derived = Simple \<lparr>si_objects = [Some (sample_properties i)],
       si_default = 0\<rparr>, pi_next_id = dynamic_global_property_id + 1\<rparr>]], db_undo = u\<rparr>"

definition sample_state :: "block_id_type \<Rightarrow> block_id_type undo_state" where
  "sample_state i = empty_undo_state\<lparr>old_values := [(dynamic_global_property_id, sample_properties i)]\<rparr>"

lemma sample_dgp:
  "id_space dynamic_global_property_id = 2" "id_type dynamic_global_property_id = 1" "slot dynamic_global_property_id = 0"
  "index_id dynamic_global_property_id = dynamic_global_property_id" "index_id (dynamic_global_property_id + 1) = dynamic_global_property_id"
  "dynamic_global_property_id < dynamic_global_property_id + 1"
  by (simp_all add: dynamic_global_property_id_def id_space_def id_type_def slot_def id_instance_def GRAPHENE_DB_MAX_INSTANCE_ID_def index_id_def pack_id_def drop_bit_eq_div)

definition sample_index :: "block_id_type \<Rightarrow> block_id_type primary_index" where
  "sample_index i = \<lparr>pi_derived = Simple \<lparr>si_objects = [Some (sample_properties i)], si_default = 0\<rparr>,
     pi_next_id = dynamic_global_property_id + 1\<rparr>"

lemma sample_get_index: "get_index (sample_objects i u) 2 1 = Inr (sample_index i)"
  by (simp add: get_index_def sample_objects_def sample_index_def)

lemma sample_get_other_index:
  assumes "get_index (sample_objects i u) s t = Inr x"
  shows "s = 2 \<and> t = 1 \<and> x = sample_index i"
proof -
  have s: "unat s < 255" "unat s = 2"
    using assms by (auto simp: get_index_def sample_objects_def nth_list_update split: if_splits)
  then have "unat t = 1" "x = sample_index i"
    using assms by (auto simp: get_index_def sample_objects_def sample_index_def nth_Cons split: if_splits option.splits nat.splits)
  then show ?thesis using s by (simp add: word_unat_eq_iff)
qed

lemma sample_view: "view (sample_objects i u) = [dynamic_global_property_id \<mapsto> sample_properties i]"
proof
  fix k
  show "view (sample_objects i u) k = [dynamic_global_property_id \<mapsto> sample_properties i] k"
  proof (cases "get_index (sample_objects i u) (id_space k) (id_type k)")
    case (Inl e)
    then have "k \<noteq> dynamic_global_property_id" using sample_get_index [of i u] sample_dgp by auto
    then show ?thesis using Inl by (simp add: view_def)
  next
    case (Inr x)
    note x = sample_get_other_index [OF Inr]
    then have "index_id k = index_id dynamic_global_property_id" using sample_dgp(1,2) by (simp add: index_id_def)
    then have "slot k = 0 \<longleftrightarrow> k = dynamic_global_property_id" using slot_inj [of k dynamic_global_property_id] sample_dgp(3) by auto
    then show ?thesis using Inr x by (cases "k = dynamic_global_property_id") (simp_all add: view_def sample_index_def simple_find_def sample_dgp)
  qed
qed

lemma sample_next: "next_ids (sample_objects i u) = next_ids (sample_objects j v)"
proof
  fix k
  show "next_ids (sample_objects i u) k = next_ids (sample_objects j v) k"
    using sample_get_index [of i u] sample_get_index [of j v] sample_get_other_index [of i u "id_space k" "id_type k"]
      sample_get_other_index [of j v "id_space k" "id_type k"]
    by (auto simp: next_ids_def sample_index_def split: sum.splits)
qed

lemma sample_db_wf: "db_wf (sample_objects i u)"
  unfolding db_wf_def
proof (intro allI impI)
  fix k x
  assume "get_index (sample_objects i u) (id_space k) (id_type k) = Inr x"
  note x = sample_get_other_index [OF this]
  then have "index_id k = dynamic_global_property_id" using sample_dgp(1,2,4) by (simp add: index_id_def)
  then show "di_wf (index_id k) (pi_derived x) \<and> index_id (pi_next_id x) = index_id k"
    using x sample_dgp by (simp add: sample_index_def simple_wf_def sample_properties_def)
qed

lemma sample_snapshot: "snapshot (sample_objects i u) = ([dynamic_global_property_id \<mapsto> sample_properties i], next_ids (sample_objects 0 (sample_undo 0 [])))"
  using sample_next [of i u] by (simp add: snapshot_def sample_view)

lemma sample_revert: "revert (sample_state i) (snapshot (sample_objects j u)) = snapshot (sample_objects i v)"
  by (simp add: revert_def sample_snapshot sample_state_def empty_undo_state_def revert_objects_def revert_next_def std_map_find_def fun_eq_iff)

lemma sample_bounded: "bounded (removable (sample_objects k w)) (fst (snapshot (sample_objects i u))) (snd (snapshot (sample_objects i u)))"
  using sample_get_index [of 0 "sample_undo 0 []"] sample_dgp by (simp add: bounded_def sample_snapshot next_ids_def sample_index_def)

lemma sample_chain_ok: "chain_ok (removable (sample_objects k w)) (map sample_state js) (snapshot (sample_objects i u))"
proof (induction js arbitrary: i)
  case (Cons j js)
  have "state_ok (removable (sample_objects k w)) (sample_state j) (fst (snapshot (sample_objects i u))) (snd (snapshot (sample_objects i u)))"
    by (simp add: state_ok_def state_lists_ok_def sample_state_def empty_undo_state_def sample_snapshot sample_properties_def std_map_wf_def std_map_find_def)
  then show ?case using Cons.IH [of j] sample_bounded by (simp add: sample_revert [of j i u u])
qed (use sample_bounded in simp)

lemma sample_chain_undo_env: "ce_undo sample_chain_env = sample_chain_undo sample_state_hash"
  by (simp add: sample_chain_env_def)

lemma sample_faithful: "faithful_variants (ce_undo sample_chain_env)"
  by (simp add: sample_chain_undo_env faithful_variants_def sample_chain_undo_def)

lemma sample_undo_ok:
  assumes "length js < 30"
  shows "undo_ok (ce_undo sample_chain_env) (sample_objects i (sample_undo n (map sample_state js)))"
    "undo_states (ce_undo sample_chain_env) (sample_objects i (sample_undo n (map sample_state js))) = rev (map sample_state js)"
proof -
  let ?db = "sample_objects i (sample_undo n (map sample_state js))"
  have u: "db_undo ?db = sample_undo n (map sample_state js)" by (simp add: sample_objects_def)
  have "history (ce_undo sample_chain_env) (db_undo ?db) (rev (rev (map sample_state js)))"
    unfolding u history_def by (rule exI [of _ "[]"]) (simp add: history_split_def sample_undo_def new_undo_database_def)
  moreover have "memory_ok (db_undo ?db)" "\<not> ud_disabled (db_undo ?db)"
    using assms unfolding u by (simp_all add: memory_ok_def sample_undo_def new_undo_database_def GRAPHENE_UNDO_BUFF_MAX_SIZE_def)
  moreover have "chain_ok (removable ?db) (rev (map sample_state js)) (snapshot ?db)"
    using sample_chain_ok [of _ _ "rev js"] by (simp add: rev_map)
  ultimately show "undo_ok (ce_undo sample_chain_env) ?db" "undo_states (ce_undo sample_chain_env) ?db = rev (map sample_state js)"
    using undo_okI(1,2) [OF sample_faithful, of "rev (map sample_state js)" ?db] sample_db_wf by (simp_all add: undo_inv_def)
qed

lemma sample_spillable:
  assumes "distinct js" "-3 \<notin> set js"
  shows "spillable (ce_undo sample_chain_env) (map sample_state js)"
proof -
  have "storable_kind dynamic_global_property_id"
    by (simp add: storable_kind_def sample_dgp protocol_ids_def implementation_ids_def nth_enum_def impl_object_types_def has_implementation_case_def)
  then have "state_storable (sample_state i)" for i
    by (simp add: state_storable_def state_lists_ok_def sample_state_def empty_undo_state_def std_map_wf_def all_storable_def sample_properties_def)
  moreover have h: "state_hash (ce_undo sample_chain_env) (sample_state i) = i + 3" for i
    by (simp add: state_hash_def undo_id_def sample_chain_undo_env sample_chain_undo_def get_serializable_undo_state_def sample_state_def
        empty_undo_state_def sample_state_hash_def make_serializable_obj_def sample_properties_def)
  moreover have "i + 3 = 0 \<longleftrightarrow> i = - 3" for i :: block_id_type by (simp add: eq_neg_iff_add_eq_0)
  ultimately show ?thesis using assms by (auto simp: spillable_def distinct_map inj_on_def image_iff)
qed

lemma sample_modify:
  assumes "m (sample_properties i) = sample_properties j"
  shows "db_modify (sample_properties i) m (sample_objects i (sample_undo n (ss @ [s]))) =
    (Inr (), sample_objects j (sample_undo n (ss @ [note_modify (sample_properties i) s])))"
proof -
  have o: "obj_id (sample_properties i) = dynamic_global_property_id" by (simp add: sample_properties_def)
  have "db_index (sample_objects i u) ! 2 = [None, Some (sample_index i)]" for u by (simp add: sample_objects_def sample_index_def)
  moreover have "with_undo (on_modify (sample_properties i)) (sample_objects i (sample_undo n (ss @ [s]))) =
      (Inr (), sample_objects i (sample_undo n (ss @ [note_modify (sample_properties i) s])))"
    by (simp add: with_undo_def on_modify_def update_back_def sample_objects_def sample_undo_def new_undo_database_def)
  moreover have "di_modify dynamic_global_property_id m (pi_derived (sample_index i)) = (Inr (), pi_derived (sample_index j))"
    using assms by (simp add: sample_index_def simple_modify_def sample_dgp)
  ultimately show ?thesis
    by (simp add: db_modify_def run_bind_def run_get_def run_result_def sample_dgp o sample_get_index)
      (simp add: set_index_def sample_objects_def sample_index_def)
qed

lemma sample_parts [simp]:
  "obj_id (sample_properties i) = dynamic_global_property_id" "obj_data (sample_properties i) = i"
  "db_undo (sample_objects i u) = u" "(sample_objects i u)\<lparr>db_undo := v\<rparr> = sample_objects i v"
  "ud_active_sessions (sample_undo n ss) = n" "\<not> ud_disabled (sample_undo n ss)" "ud_stack (sample_undo n ss) = []"
  "ud_open (sample_undo n ss)" "ud_max_size (sample_undo n ss) = 1440" "ud_back (sample_undo n ss) = ss"
  "(sample_undo n ss)\<lparr>ud_max_size := 1440\<rparr> = sample_undo n ss" "(sample_undo n ss)\<lparr>ud_active_sessions := m\<rparr> = sample_undo m ss"
  "(sample_undo n ss)\<lparr>ud_back := ss'\<rparr> = sample_undo n ss'"
  "undo_enable (undo_disable (sample_undo n ss)) = sample_undo n ss" "ud_stack (undo_disable (sample_undo n ss)) = []"
  by (simp_all add: sample_properties_def sample_objects_def sample_undo_def new_undo_database_def undo_enable_def undo_disable_def)

lemma sample_get_object: "db_get_object (sample_objects i u) dynamic_global_property_id = Inr (sample_properties i)"
  using sample_view [of i u] view_get_object [of "sample_objects i u" dynamic_global_property_id "sample_properties i"] by simp

lemma sample_start:
  "length ss < 29 \<Longrightarrow> with_undo (start_undo_session en False) (sample_objects i (sample_undo n ss)) =
    (Inr \<lparr>ses_apply_undo = True, ses_disable_on_exit = False\<rparr>, sample_objects i (sample_undo (n + 1) (ss @ [empty_undo_state])))"
  by (simp add: with_undo_def start_undo_session_def Let_def run_bind_def run_defs GRAPHENE_UNDO_BUFF_MAX_SIZE_def undo_size_def)

lemma sample_commit:
  "session_commit ses (sample_objects i (sample_undo 1 ss)) = (Inr (), ses\<lparr>ses_apply_undo := False\<rparr>, sample_objects i (sample_undo 0 ss))"
  by (simp add: session_commit_def with_undo_def undo_commit_def)

lemma sample_restore:
  "restore_state (sample_state i) ((sample_objects j u)\<lparr>db_undo := undo_disable (sample_undo n ss)\<rparr>) =
    (Inr (), (sample_objects i u)\<lparr>db_undo := undo_disable (sample_undo n ss)\<rparr>)"
proof -
  have g: "db_index (sample_objects j v) ! 2 = [None, Some (sample_index j)]" for v by (simp add: sample_objects_def sample_index_def)
  have d: "di_modify dynamic_global_property_id m (pi_derived (sample_index j)) = (Inr (), pi_derived (sample_index i))"
    if "m (sample_properties j) = sample_properties i" for m
    using that by (simp add: sample_index_def simple_modify_def sample_dgp)
  have "db_modify (sample_properties j) (\<lambda>_. sample_properties i) (sample_objects j (undo_disable (sample_undo n ss))) =
      (Inr (), sample_objects i (undo_disable (sample_undo n ss)))"
    by (simp add: db_modify_def run_bind_def run_get_def run_result_def sample_dgp sample_get_index with_undo_def on_modify_def d undo_disable_def)
      (simp add: set_index_def sample_objects_def sample_index_def)
  then show ?thesis
    by (simp add: restore_state_def sample_state_def empty_undo_state_def run_bind_def run_result_def sample_get_object run_return_def)
qed

lemma sample_pop_back: "pop_back (undo_disable (sample_undo n (ss @ [s]))) = undo_disable (sample_undo n ss)"
  by (simp add: pop_back_def undo_disable_def sample_undo_def)

lemma sample_pop:
  "pop_commit en (sample_objects j (sample_undo 0 (ss @ [sample_state i]))) = (Inr (), sample_objects i (sample_undo 0 ss))"
  using sample_restore [of i 0 "ss @ [sample_state i]" j]
  by (simp add: pop_commit_def run_bind_def with_undo_def run_update_def sample_pop_back refill_back_def Let_def)

lemma sample_undo_session:
  "session_destroy en \<lparr>ses_apply_undo = True, ses_disable_on_exit = False\<rparr> (sample_objects j (sample_undo 1 (ss @ [sample_state i]))) =
    (Inr (), sample_objects i (sample_undo 0 ss))"
  using sample_restore [of i 1 "ss @ [sample_state i]" j]
  by (simp add: session_destroy_def undo_def run_bind_def with_undo_def run_update_def sample_pop_back refill_back_def Let_def run_return_def)

section \<open>One block on a sample database\<close>

lemma sample_block_applied:
  assumes "blk_previous b = i" "ch_objects ch = sample_objects i (sample_undo n (ss @ [s]))"
  shows "run_apply_block sample_chain_env b ch =
    (if 13 \<in> set (blk_transactions b)
     then (Inl (Fc_assert ''transaction''), ch\<lparr>ch_objects := sample_objects (block_id sample_block_env b) (sample_undo n (ss @ [note_modify (sample_properties i) s]))\<rparr>)
     else (Inr (), ch\<lparr>ch_objects := sample_objects (block_id sample_block_env b) (sample_undo n (ss @ [note_modify (sample_properties i) s])),
        ch_push_transaction_tx_ids := fold std_set_insert (map word_of_nat (blk_transactions b)) (ch_push_transaction_tx_ids ch)\<rparr>))"
proof -
  let ?i = "block_id sample_block_env b"
  have "(sample_properties i)\<lparr>obj_data := ?i\<rparr> = sample_properties ?i" by (simp add: sample_properties_def)
  then show ?thesis using assms
    by (simp add: run_apply_block_def sample_chain_env_def sample_apply_block_def Let_def sample_get_object
        sample_modify [of "\<lambda>p. p\<lparr>obj_data := ?i\<rparr>" i ?i])
qed

lemma sample_env [simp]:
  "ce_block sample_chain_env = sample_block_env" "ce_codec sample_chain_env = sample_codec"
  "ce_head_block_id sample_chain_env p = obj_data p" "ce_head_block_number sample_chain_env p = num_from_id (obj_data p)"
  "ce_apply_block sample_chain_env = sample_apply_block" "ce_apply_transaction sample_chain_env = sample_apply_transaction"
  by (simp_all add: sample_chain_env_def)

lemma sample_recent: "recent sample_chain_env b ch"
  by (simp add: recent_def sample_chain_env_def) (rule order_trans [OF _ uint_ge_0], simp)

lemma sample_note: "note_modify (sample_properties i) empty_undo_state = sample_state i"
  by (simp add: note_modify_def empty_undo_state_def sample_state_def std_map_find_def)

lemma sample_age:
  "ch_objects ch = sample_objects i (sample_undo n ss) \<Longrightarrow>
    note_age sample_chain_env b ch = ch\<lparr>ch_clock := ch_clock ch + 1, ch_discard_count := 0\<rparr>"
  by (cases ch) (simp add: note_age_recent [OF sample_recent] set_max_size_def)

lemma sample_push:
  assumes "blk_previous b = i" "ch_objects ch = sample_objects i (sample_undo 0 ss)" "length ss < 29" "ch_checkpoints ch = []"
    and "bd_store sample_block_env sample_codec k b (ch_block_id_to_block ch) = (Inr (), bd)"
  shows "apply_and_store sample_chain_env skip k b ch =
    (let ch = ch\<lparr>ch_clock := ch_clock ch + 1, ch_discard_count := 0\<rparr>
     in if 13 \<in> set (blk_transactions b) then (Inl (Fc_assert ''transaction''), ch)
        else (Inr (), ch\<lparr>ch_objects := sample_objects (block_id sample_block_env b) (sample_undo 0 (ss @ [sample_state i])),
          ch_push_transaction_tx_ids := fold std_set_insert (map word_of_nat (blk_transactions b)) (ch_push_transaction_tx_ids ch),
          ch_block_id_to_block := bd\<rparr>))"
proof (cases ch)
  case (fields fd db x cps skip0 ptx ses pop ids n clock)
  note a = assms [unfolded fields, simplified]
  note ap = sample_block_applied [OF assms(1), of "\<lparr>ch_fork_db = fd, ch_block_id_to_block = db,
    ch_objects = sample_objects i (sample_undo 1 (ss @ [empty_undo_state])), ch_checkpoints = [], ch_skip_flags = skip, ch_pending_tx = ptx,
    ch_pending_tx_session = ses, ch_popped_tx = pop, ch_push_transaction_tx_ids = ids, ch_discard_count = 0, ch_clock = Suc clock\<rparr>",
    simplified, OF refl, unfolded sample_note]
  show ?thesis
    unfolding fields
    by (simp add: apply_and_store_def run_bind_def run_update_def sample_age in_session_def on_objects_def a sample_start apply_block_def
        with_skip_flags_def ap on_block_db_def commit_session_def sample_commit Let_def
        session_destroy_def [of _ "\<lparr>ses_apply_undo = False, ses_disable_on_exit = False\<rparr>"] run_return_def sample_undo_session)
qed

section \<open>The sample environment is as assumed of the program\<close>

lemma sample_modified:
  assumes "db_get_object db oid = Inr p" "obj_id p = oid" "db_modify p (\<lambda>p. p\<lparr>obj_data := f p\<rparr>) db = (r, x)"
  shows "change\<^sup>*\<^sup>* db x"
proof -
  have "view db oid = Some p" using assms(1) view_get_object by blast
  then have "change db x" by (rule modified) (use assms in auto)
  then show ?thesis by simp
qed

lemma sample_by_changes: "applies_by_changes sample_chain_env" "transactions_by_changes sample_chain_env"
  by (auto simp: applies_by_changes_def transactions_by_changes_def sample_apply_block_def sample_apply_transaction_def Let_def
      split: sum.splits if_splits prod.splits elim!: sample_modified)

lemma sample_head: "applies_head sample_chain_env"
  unfolding applies_head_def
proof (intro allI impI)
  fix ch b x ids
  assume "ce_apply_block sample_chain_env ch b = (Inr (), x, ids)"
  then obtain p where "db_get_object x dynamic_global_property_id = Inr (p\<lparr>obj_data := block_id sample_block_env b\<rparr>)"
    by (auto simp: sample_apply_block_def Let_def split: sum.splits if_splits prod.splits)
  then show "\<exists>p. view x dynamic_global_property_id = Some p \<and> ce_head_block_id sample_chain_env p = block_id (ce_block sample_chain_env) b \<and>
      ce_head_block_number sample_chain_env p = block_num b"
    using view_get_object [of x] by (intro exI [of _ "p\<lparr>obj_data := block_id sample_block_env b\<rparr>"]) (simp add: num_from_block_id)
qed

lemma sample_checked: "applies_checked sample_chain_env"
  by (auto simp: applies_checked_def sample_apply_block_def head_block_id_def Let_def fc_exception_def ends_process_def
      split: sum.splits if_splits prod.splits)

lemma sample_functional: "applies_functionally sample_chain_env"
proof -
  have run: "\<exists>x. sample_apply_block ch b =
      (let p = view (ch_objects ch) dynamic_global_property_id; i = block_id sample_block_env b
       in case p of
            None \<Rightarrow> (Inl (Fc_assert ''properties''), ch_objects ch, [])
          | Some p \<Rightarrow> if obj_data p \<noteq> blk_previous b then (Inl (Fc_assert ''previous''), ch_objects ch, [])
              else (if 13 \<in> set (blk_transactions b) then Inl (Fc_assert ''transaction'') else Inr (), x,
                if 13 \<in> set (blk_transactions b) then [] else map word_of_nat (blk_transactions b))) \<and>
      (\<forall>p. view (ch_objects ch) dynamic_global_property_id = Some p \<longrightarrow> obj_data p = blk_previous b \<longrightarrow>
         snapshot x = ((view (ch_objects ch))(dynamic_global_property_id \<mapsto> p\<lparr>obj_data := block_id sample_block_env b\<rparr>), next_ids (ch_objects ch)))"
    if "in_progress sample_chain_env ch" for ch b
  proof (cases "view (ch_objects ch) dynamic_global_property_id")
    case None
    then obtain e where "db_get_object (ch_objects ch) dynamic_global_property_id = Inl e"
      using view_get_object [of "ch_objects ch" dynamic_global_property_id] by (cases "db_get_object (ch_objects ch) dynamic_global_property_id") auto
    then show ?thesis using None by (simp add: sample_apply_block_def)
  next
    case (Some p)
    let ?m = "\<lambda>p. p\<lparr>obj_data := block_id sample_block_env b\<rparr>"
    have w: "db_wf (ch_objects ch)" "ud_back (db_undo (ch_objects ch)) \<noteq> []"
      using that undo_ok_back(1) [of "ce_undo sample_chain_env" "ch_objects ch"] by (auto simp: in_progress_def undo_ok_def undo_inv_def)
    have g: "db_get_object (ch_objects ch) dynamic_global_property_id = Inr p" using Some view_get_object by blast
    have o: "obj_id p = dynamic_global_property_id" using view_id [OF w(1) Some] .
    obtain u where u: "on_modify p (db_undo (ch_objects ch)) = (Inr (), u)" using w(2)
      by (cases "ud_disabled (db_undo (ch_objects ch))") (simp_all add: on_modify_def update_back_def)
    obtain x where "db_modify p ?m (ch_objects ch) = (Inr (), x)"
        "view x = (view (ch_objects ch))(dynamic_global_property_id \<mapsto> ?m p)" "next_ids x = next_ids (ch_objects ch)"
      using db_modify_ok [OF w(1), of p ?m, OF _ _ u] Some o by auto
    then show ?thesis using Some g o view_get_object [of x dynamic_global_property_id "?m p"]
      by (intro exI [of _ x]) (simp add: sample_apply_block_def Let_def snapshot_def)
  qed
  show ?thesis
    unfolding applies_functionally_def
  proof (intro allI impI)
    fix ch1 ch2 b r1 x1 is1 r2 x2 is2
    assume a: "in_progress sample_chain_env ch1" "in_progress sample_chain_env ch2" "snapshot (ch_objects ch1) = snapshot (ch_objects ch2)"
      "ce_apply_block sample_chain_env ch1 b = (r1, x1, is1)" "ce_apply_block sample_chain_env ch2 b = (r2, x2, is2)"
    have v: "view (ch_objects ch1) = view (ch_objects ch2)" "next_ids (ch_objects ch1) = next_ids (ch_objects ch2)"
      using a(3) by (simp_all add: snapshot_def)
    show "r1 = r2 \<and> snapshot x1 = snapshot x2"
      using run [OF a(1), of b] run [OF a(2), of b] a(3-5) v
      by (auto simp: Let_def split: option.splits if_splits)
  qed
qed

lemma sample_block_ids:
  "block_id sample_block_env sample_genesis = 2 ^ 128 + 1" "block_num sample_genesis = 1"
  "block_id sample_block_env (sample_child 2) = 2 ^ 129 + 2" "block_id sample_block_env (sample_child 3) = 2 ^ 129 + 3"
  "block_num (sample_child h) = 2" "blk_previous (sample_child h) = 2 ^ 128 + 1" "blk_previous sample_genesis = 0"
  by (simp_all add: block_id_def block_num_def sample_block_env_def sample_genesis_def sample_child_def sample_block_def Let_def num_from_id_def push_bit_eq_mult drop_bit_eq_div)

section \<open>Block databases\<close>

definition sample_grandchild :: "nat list \<Rightarrow> (nat, nat) signed_block" where
  "sample_grandchild ts = sample_block (2 ^ 129 + 3) 4 ts"

definition sample_bad_child :: "(nat, nat) signed_block" where
  "sample_bad_child = sample_block (2 ^ 128 + 1) 5 [13]"

lemma sample_more_ids:
  "block_id sample_block_env (sample_grandchild ts) = 3 * 2 ^ 128 + 4" "block_num (sample_grandchild ts) = 3"
  "block_id sample_block_env sample_bad_child = 2 ^ 129 + 5" "block_num sample_bad_child = 2"
  "blk_previous (sample_grandchild ts) = 2 ^ 129 + 3" "blk_previous sample_bad_child = 2 ^ 128 + 1"
  by (simp_all add: block_id_def block_num_def sample_block_env_def sample_grandchild_def sample_bad_child_def sample_block_def Let_def num_from_id_def push_bit_eq_mult drop_bit_eq_div)

definition packs :: "(nat, nat) signed_block \<Rightarrow> bool" where
  "packs b \<longleftrightarrow> bc_unpack sample_codec (bc_pack sample_codec b) = Inr b \<and> bc_pack sample_codec b \<noteq> [] \<and>
     length (bc_pack sample_codec b) \<le> 4 \<and> block_id sample_block_env b \<noteq> 0"

lemma sample_child_block: "sample_child h = sample_block (2 ^ 128 + 1) h []"
  by (simp add: sample_child_def sample_block_ids)

lemma sample_packs:
  "packs sample_genesis" "packs (sample_child 2)" "packs (sample_child 3)" "packs (sample_grandchild [])" "packs (sample_grandchild [13])" "packs sample_bad_child"
proof -
  have "bc_unpack sample_codec (bc_pack sample_codec b) = Inr b \<and> bc_pack sample_codec b \<noteq> [] \<and> length (bc_pack sample_codec b) \<le> 4"
    if "b \<in> {sample_block 0 1 [], sample_block (2 ^ 128 + 1) 2 [], sample_block (2 ^ 128 + 1) 3 [], sample_block (2 ^ 129 + 3) 4 [],
       sample_block (2 ^ 129 + 3) 4 [13], sample_block (2 ^ 128 + 1) 5 [13]}" for b
    using that by (elim insertE emptyE; simp add: sample_codec_def sample_block_def drop_bit_eq_div push_bit_eq_mult)
  then show "packs sample_genesis" "packs (sample_child 2)" "packs (sample_child 3)" "packs (sample_grandchild [])"
      "packs (sample_grandchild [13])" "packs sample_bad_child"
    unfolding packs_def sample_block_ids sample_more_ids
    by (simp_all add: sample_genesis_def sample_child_block sample_grandchild_def sample_bad_child_def)
qed

definition sample_blocks :: "(nat, nat) signed_block list \<Rightarrow> block_database" where
  "sample_blocks bs = fold (\<lambda>b db. snd (bd_store sample_block_env sample_codec (block_id sample_block_env b) b db)) bs
     \<lparr>bd_block_num_to_pos = \<lparr>fs_file = Some [], fs_open = True\<rparr>, bd_blocks = \<lparr>fs_file = Some [], fs_open = True\<rparr>\<rparr>"

lemma sample_blocks_wf:
  assumes "\<forall>b \<in> set bs. packs b" "length bs < 100"
  shows "bd_wf sample_block_env sample_codec (sample_blocks bs) \<and> live sample_codec (sample_blocks bs) = put_blocks bs (\<lambda>_. None) \<and>
    length (contents (bd_blocks (sample_blocks bs))) \<le> 4 * length bs"
  using assms
proof (induction bs rule: rev_induct)
  case Nil
  then show ?case by (auto simp: sample_blocks_def bd_wf_def contents_def live_def sample_codec_def)
next
  case (snoc b bs)
  let ?db = "sample_blocks bs"
  have ih: "bd_wf sample_block_env sample_codec ?db" "live sample_codec ?db = put_blocks bs (\<lambda>_. None)" "length (contents (bd_blocks ?db)) \<le> 4 * length bs"
    using snoc by simp_all
  have st: "block_storable sample_block_env sample_codec b ?db" using snoc.prems ih(3) by (auto simp: block_storable_def packs_def)
  obtain db' where "bd_store sample_block_env sample_codec (block_id sample_block_env b) b ?db = (Inr (), db')"
      "bd_wf sample_block_env sample_codec db'" "live sample_codec db' = (live sample_codec ?db)(block_num b \<mapsto> b)"
      "length (contents (bd_blocks db')) = length (contents (bd_blocks ?db)) + length (bc_pack sample_codec b)"
    using bd_store_live [OF ih(1) st] by blast
  then show ?case using ih snoc.prems by (auto simp: sample_blocks_def packs_def put_blocks_def)
qed

lemma sample_store:
  assumes "\<forall>b \<in> set bs. packs b" "packs b" "length bs < 99"
  shows "bd_store sample_block_env sample_codec (block_id sample_block_env b) b (sample_blocks bs) = (Inr (), sample_blocks (bs @ [b]))"
    "block_storable sample_block_env sample_codec b (sample_blocks bs)"
proof -
  have w: "bd_wf sample_block_env sample_codec (sample_blocks bs)" "length (contents (bd_blocks (sample_blocks bs))) \<le> 4 * length bs"
    using sample_blocks_wf [OF assms(1)] assms(3) by simp_all
  show st: "block_storable sample_block_env sample_codec b (sample_blocks bs)" using w(2) assms(2,3) by (auto simp: block_storable_def packs_def)
  show "bd_store sample_block_env sample_codec (block_id sample_block_env b) b (sample_blocks bs) = (Inr (), sample_blocks (bs @ [b]))"
    using bd_store_live [OF w(1) st disjI2 [OF refl]] by (auto simp: sample_blocks_def)
qed

definition sample_fork_item :: "(nat, nat) signed_block \<Rightarrow> addr option \<Rightarrow> (nat, nat) fork_item" where
  "sample_fork_item b p = (make_fork_item sample_block_env b)\<lparr>fi_prev := p\<rparr>"

section \<open>Chain databases on the head\<close>

definition sample_forks :: "(nat, nat) fork_item list \<Rightarrow> addr list \<Rightarrow> addr \<Rightarrow> (nat, nat) fork_database" where
  "sample_forks its known h = new_fork_database\<lparr>fd_heap := its, fd_index := known, fd_head := Some h\<rparr>"

definition sample_chain ::
  "(nat, nat) fork_database \<Rightarrow> (nat, nat) signed_block list \<Rightarrow> block_id_type \<Rightarrow> block_id_type list \<Rightarrow> (nat, nat, block_id_type) chain_database" where
  "sample_chain fd bs i js = \<lparr>ch_fork_db = fd, ch_block_id_to_block = sample_blocks bs,
     ch_objects = sample_objects i (sample_undo 0 (map sample_state js)), ch_checkpoints = [], ch_skip_flags = 0, ch_pending_tx = [],
     ch_pending_tx_session = None, ch_popped_tx = [], ch_push_transaction_tx_ids = [], ch_discard_count = 0, ch_clock = 0\<rparr>"

lemma sample_idle:
  assumes "ch_objects ch = sample_objects i (sample_undo 0 (map sample_state js))" "length js < 30" "distinct js" "- 3 \<notin> set js"
  shows "idle sample_chain_env ch"
  using sample_undo_ok [OF assms(2)] sample_spillable [OF assms(3,4)] assms(1) by (simp add: idle_def spillable_rev)

lemma sample_head_id: "ch_objects ch = sample_objects i u \<Longrightarrow> head_block_id sample_chain_env ch = Inr i"
  by (simp add: head_block_id_def sample_get_object)

definition sample_root_forks :: "(nat, nat) fork_database" where
  "sample_root_forks = sample_forks [sample_fork_item sample_genesis None] [0] 0"

lemma sample_fork_push:
  assumes "blk_previous b = 2 ^ 128 + 1" "block_num b = 2"
  shows "fork_push_block sample_block_env b sample_root_forks =
    (Inr (Some 1), sample_forks [sample_fork_item sample_genesis None, sample_fork_item b (Some 0)] [0, 1] 1)"
proof -
  have "block_id sample_block_env b \<noteq> 2 ^ 128 + 1"
    using num_from_block_id [of sample_block_env b] assms(2) by (auto simp: num_from_id_def drop_bit_eq_div)
  then show ?thesis using assms
  by (simp add: fork_push_block_def make_shared_def push_item_def too_old_def link_item_def run_bind_def run_update_def run_get_def
      sample_root_forks_def sample_forks_def new_fork_database_def item_def sample_fork_item_def make_fork_item_def sample_block_ids
      index_find_def previous_id_def index_insert_def advance_head_def set_item_def erase_older.simps [of _ 0] by_num_def)
qed

lemma sample_extends:
  assumes "fork_push_block sample_block_env b fd = (Inr (Some h), fd')" "fi_data (item fd' h) = b"
  shows "extends_head sample_chain_env b (sample_chain fd bs (blk_previous b) js)"
  using assms by (simp add: extends_head_def sample_chain_def sample_head_id)

lemma sample_push_impl:
  assumes "fork_push_block sample_block_env b fd = (Inr (Some h), fd')" "fi_data (item fd' h) = b"
    and "packs b" "\<forall>b \<in> set bs. packs b" "length bs < 99" "length js < 29"
  shows "push_block_impl sample_chain_env b (sample_chain fd bs (blk_previous b) js) =
    Some (if 13 \<in> set (blk_transactions b)
       then (Inl (Fc_assert ''transaction''), (sample_chain (fork_remove (block_id sample_block_env b) fd') bs (blk_previous b) js)\<lparr>ch_clock := 1\<rparr>)
       else (Inr False, (sample_chain fd' (bs @ [b]) (block_id sample_block_env b) (js @ [blk_previous b]))
         \<lparr>ch_clock := 1, ch_push_transaction_tx_ids := fold std_set_insert (map word_of_nat (blk_transactions b)) []\<rparr>))"
proof -
  let ?ch = "sample_chain fd' bs (blk_previous b) js"
  have st: "bd_store sample_block_env sample_codec (block_id sample_block_env b) b (sample_blocks bs) = (Inr (), sample_blocks (bs @ [b]))"
    using sample_store [of bs b] assms(3-5) by simp
  have "push_block_impl sample_chain_env b (sample_chain fd bs (blk_previous b) js) = Some (push_head sample_chain_env 0 b ?ch)"
    using push_block_impl_extends [OF sample_extends [OF assms(1,2)], of bs js "Inr (Some h)" fd'] assms(1) by (simp add: sample_chain_def)
  then show ?thesis
    using assms(6) sample_push [of b "blk_previous b" ?ch "map sample_state js" "block_id sample_block_env b" _ 0] st
    by (simp add: push_head_def sample_chain_def Let_def fc_exception_def ends_process_def)
qed

lemma sample_child_push:
  assumes "blk_previous b = 2 ^ 128 + 1" "block_num b = 2"
  shows "fork_push_block sample_block_env b sample_root_forks =
      (Inr (Some 1), sample_forks [sample_fork_item sample_genesis None, sample_fork_item b (Some 0)] [0, 1] 1)"
    "fi_data (item (sample_forks [sample_fork_item sample_genesis None, sample_fork_item b (Some 0)] [0, 1] 1) 1) = b"
  using sample_fork_push [OF assms] by (simp_all add: item_def sample_forks_def sample_fork_item_def make_fork_item_def)

text \<open>
  Two unconnected first blocks.
\<close>

definition sample_two_roots :: "(nat, nat) fork_database" where
  "sample_two_roots = sample_forks [sample_fork_item sample_genesis None, sample_fork_item (sample_block 0 9 []) None] [0, 1] 0"

definition sample_stranger :: "(nat, nat) signed_block" where
  "sample_stranger = sample_block (2 ^ 128 + 9) 6 []"

lemma sample_root_ids:
  "block_id sample_block_env (sample_block 0 9 []) = 2 ^ 128 + 9" "block_num (sample_block 0 9 []) = 1" "blk_previous (sample_block 0 9 []) = 0"
  "block_id sample_block_env sample_stranger = 2 ^ 129 + 6" "block_num sample_stranger = 2"
  "blk_previous sample_stranger = 2 ^ 128 + 9"
  by (simp_all add: block_id_def block_num_def sample_block_env_def sample_stranger_def sample_block_def Let_def num_from_id_def push_bit_eq_mult drop_bit_eq_div)

lemmas sample_push_simps = fork_push_block_def make_shared_def push_item_def too_old_def link_item_def run_bind_def run_update_def run_get_def
  sample_forks_def new_fork_database_def item_def sample_fork_item_def make_fork_item_def sample_block_ids sample_more_ids sample_root_ids
  index_find_def previous_id_def index_insert_def advance_head_def set_item_def erase_older.simps [of _ 0] by_num_def

lemma sample_two_push:
  "fork_push_block sample_block_env sample_bad_child sample_two_roots = (Inr (Some 2), sample_forks [sample_fork_item sample_genesis None,
     sample_fork_item (sample_block 0 9 []) None, sample_fork_item sample_bad_child (Some 0)] [0, 1, 2] 2)"
  "fi_data (item (sample_forks [sample_fork_item sample_genesis None, sample_fork_item (sample_block 0 9 []) None,
     sample_fork_item sample_bad_child (Some 0)] [0, 1, 2] 2) 2) = sample_bad_child"
  by (simp_all add: sample_two_roots_def sample_push_simps)

lemma sample_stale_push:
  "\<exists>r fd. fork_push_block sample_block_env sample_stranger (fork_remove (2 ^ 129 + 5) (sample_forks [sample_fork_item sample_genesis None,
     sample_fork_item (sample_block 0 9 []) None, sample_fork_item sample_bad_child (Some 0)] [0, 1, 2] 2)) = (Inr r, fd)"
  by (simp add: sample_push_simps fork_remove_def index_erase_def)

lemma sample_two_roots_ok: "fork_ok sample_block_env sample_two_roots"
  by (auto simp: fork_ok_def item_def heap_ok_def item_ok_def alive_def sample_two_roots_def sample_push_simps)

section \<open>Two branches\<close>

text \<open>
  A chain whose head is one of two children of the first block; the fork database also knows a child of the other one.
\<close>

definition sample_at ::
  "nat \<Rightarrow> (nat, nat) fork_database \<Rightarrow> (u32 \<rightharpoonup> (nat, nat) signed_block) \<Rightarrow> block_id_type \<Rightarrow> block_id_type list \<Rightarrow>
   (nat, nat, block_id_type) chain_database \<Rightarrow> bool" where
  "sample_at n fd m i js ch \<longleftrightarrow> ch_objects ch = sample_objects i (sample_undo 0 (map sample_state js)) \<and> ch_fork_db ch = fd \<and>
     bd_wf sample_block_env sample_codec (ch_block_id_to_block ch) \<and> live sample_codec (ch_block_id_to_block ch) = m \<and>
     length (contents (bd_blocks (ch_block_id_to_block ch))) \<le> n \<and> ch_checkpoints ch = [] \<and> ch_pending_tx_session ch = None \<and>
     n \<le> 100 \<and> length js < 20 \<and> distinct js \<and> - 3 \<notin> set js"

lemma sample_at_idle: "sample_at n fd m i js ch \<Longrightarrow> idle sample_chain_env ch"
  using sample_idle [of ch i js] by (simp add: sample_at_def)

lemma sample_at_storable: "sample_at n fd m i js ch \<Longrightarrow> packs b \<Longrightarrow> block_storable sample_block_env sample_codec b (ch_block_id_to_block ch)"
  by (auto simp: sample_at_def block_storable_def packs_def)

lemma sample_at_push:
  assumes "sample_at n fd m i js ch" "packs b" "blk_previous b = i" "n + 4 \<le> 100" "length js < 19" "i \<notin> set js" "i \<noteq> - 3"
  obtains (bad) ch' where "13 \<in> set (blk_transactions b)" "apply_and_store sample_chain_env skip (block_id sample_block_env b) b ch = (Inl (Fc_assert ''transaction''), ch')"
      "sample_at n fd m i js ch'"
  | (good) ch' where "13 \<notin> set (blk_transactions b)" "apply_and_store sample_chain_env skip (block_id sample_block_env b) b ch = (Inr (), ch')"
      "sample_at (n + 4) fd (m(block_num b \<mapsto> b)) (block_id sample_block_env b) (js @ [i]) ch'"
proof -
  have a: "ch_objects ch = sample_objects i (sample_undo 0 (map sample_state js))" "ch_checkpoints ch = []" "bd_wf sample_block_env sample_codec (ch_block_id_to_block ch)"
    using assms(1) by (simp_all add: sample_at_def)
  obtain bd where bd: "bd_store sample_block_env sample_codec (block_id sample_block_env b) b (ch_block_id_to_block ch) = (Inr (), bd)"
      "bd_wf sample_block_env sample_codec bd" "live sample_codec bd = (live sample_codec (ch_block_id_to_block ch))(block_num b \<mapsto> b)"
      "length (contents (bd_blocks bd)) = length (contents (bd_blocks (ch_block_id_to_block ch))) + length (bc_pack sample_codec b)"
    using bd_store_live [OF a(3) sample_at_storable [OF assms(1,2)] disjI2 [OF refl]] by blast
  note p = sample_push [OF assms(3) a(1) _ a(2) bd(1), of skip, unfolded Let_def]
  show ?thesis
  proof (cases "13 \<in> set (blk_transactions b)")
    case True
    then have r: "apply_and_store sample_chain_env skip (block_id sample_block_env b) b ch = (Inl (Fc_assert ''transaction''),
        ch\<lparr>ch_clock := ch_clock ch + 1, ch_discard_count := 0\<rparr>)" using p assms(5) by simp
    show ?thesis by (rule bad [OF True r]) (use assms(1) in \<open>simp add: sample_at_def\<close>)
  next
    case False
    then obtain ch' where r: "apply_and_store sample_chain_env skip (block_id sample_block_env b) b ch = (Inr (), ch')"
        "ch_objects ch' = sample_objects (block_id sample_block_env b) (sample_undo 0 (map sample_state (js @ [i])))" "ch_block_id_to_block ch' = bd"
        "ch_fork_db ch' = ch_fork_db ch" "ch_checkpoints ch' = ch_checkpoints ch" "ch_pending_tx_session ch' = ch_pending_tx_session ch"
      using p assms(5) by simp
    show ?thesis by (rule good [OF False r(1)]) (use assms bd r in \<open>auto simp: sample_at_def packs_def\<close>)
  qed
qed

lemma sample_at_pop:
  assumes at: "sample_at n fd m j (js @ [i]) ch" and m: "m (num_from_id j) = Some b" "block_id sample_block_env b = j"
    and fd: "fd_head fd = Some h" "weak_lock fd (fi_prev (item fd h)) = Some p"
  obtains ch' where "pop_block sample_chain_env ch = (Inr (), ch')" "sample_at n (fd\<lparr>fd_head := Some p\<rparr>) (m(num_from_id j := None)) i js ch'"
proof -
  have a: "ch_objects ch = sample_objects j (sample_undo 0 (map sample_state js @ [sample_state i]))" "ch_fork_db ch = fd" "ch_pending_tx_session ch = None"
      "bd_wf sample_block_env sample_codec (ch_block_id_to_block ch)" "live sample_codec (ch_block_id_to_block ch) = m"
    using at by (simp_all add: sample_at_def)
  have l: "live sample_codec (ch_block_id_to_block ch) (num_from_id j) = Some b" using a(5) m(1) by simp
  obtain b' where b': "fetch_block_by_id sample_chain_env ch j = Some b'" using fetch_live_block [of sample_chain_env ch j b] a(4) l m(2) by auto
  obtain bd where bd: "bd_remove j (ch_block_id_to_block ch) = (Inr (), bd)" "bd_wf sample_block_env sample_codec bd"
      "bd_blocks bd = bd_blocks (ch_block_id_to_block ch)" "live sample_codec bd = m(num_from_id j := None)"
    using bd_remove_live [OF a(4) live_in_index [OF l]] l m(2) a(5) by auto
  define ch' where "ch' = ch\<lparr>ch_fork_db := fd\<lparr>fd_head := Some p\<rparr>, ch_block_id_to_block := bd,
    ch_objects := sample_objects i (sample_undo 0 (map sample_state js)), ch_popped_tx := blk_transactions b' @ ch_popped_tx ch\<rparr>"
  have "fork_pop_block fd = (Inr (), fd\<lparr>fd_head := Some p\<rparr>)" using fd by (simp add: fork_pop_block_def)
  then have "pop_block sample_chain_env ch = (Inr (), ch')"
    using a b' bd(1) by (simp add: pop_block_def run_bind_def reset_pending_session_def sample_head_id pop_head_def on_fork_db_def on_block_db_def
        on_objects_def sample_pop run_update_def ch'_def)
  moreover have "sample_at n (fd\<lparr>fd_head := Some p\<rparr>) (m(num_from_id j := None)) i js ch'"
    using at bd by (simp add: sample_at_def ch'_def)
  ultimately show ?thesis using that by blast
qed

definition sample_switch_forks :: "nat list \<Rightarrow> (nat, nat) fork_database" where
  "sample_switch_forks ts = (sample_forks [sample_fork_item sample_genesis None, sample_fork_item (sample_child 2) (Some 0),
     sample_fork_item (sample_child 3) (Some 0), sample_fork_item (sample_grandchild ts) (Some 2)] [0, 1, 2, 3] 3)\<lparr>fd_held := [3, 2, 1]\<rparr>"

definition sample_switch_chain :: "nat list \<Rightarrow> (nat, nat, block_id_type) chain_database" where
  "sample_switch_chain ts = sample_chain (sample_switch_forks ts) [sample_genesis, sample_child 2] (2 ^ 129 + 2) [2 ^ 128 + 1]"

abbreviation "sample_trunk \<equiv> snapshot (sample_objects (2 ^ 128 + 1) (sample_undo 0 []))"

lemma sample_switch_at:
  "sample_at 8 (sample_switch_forks ts) [1 \<mapsto> sample_genesis, 2 \<mapsto> sample_child 2] (2 ^ 129 + 2) [2 ^ 128 + 1] (sample_switch_chain ts)"
  using sample_blocks_wf [of "[sample_genesis, sample_child 2]"] sample_packs
  by (simp add: sample_at_def sample_switch_chain_def sample_chain_def sample_block_ids)

lemma sample_switch_items:
  "fi_data (item (sample_switch_forks ts) 0) = sample_genesis" "fi_data (item (sample_switch_forks ts) 1) = sample_child 2"
  "fi_data (item (sample_switch_forks ts) 2) = sample_child 3" "fi_data (item (sample_switch_forks ts) 3) = sample_grandchild ts"
  "fi_id (item (sample_switch_forks ts) 0) = 2 ^ 128 + 1" "fi_id (item (sample_switch_forks ts) 1) = 2 ^ 129 + 2"
  "fi_id (item (sample_switch_forks ts) 2) = 2 ^ 129 + 3" "fi_id (item (sample_switch_forks ts) 3) = 3 * 2 ^ 128 + 4"
  "fi_prev (item (sample_switch_forks ts) 0) = None" "fi_prev (item (sample_switch_forks ts) 1) = Some 0"
  "fi_prev (item (sample_switch_forks ts) 2) = Some 0" "fi_prev (item (sample_switch_forks ts) 3) = Some 2"
  by (simp_all add: sample_switch_forks_def sample_forks_def item_def sample_fork_item_def make_fork_item_def sample_block_ids sample_more_ids)

lemma sample_forked: "forked sample_chain_env [3, 2] [1] (2 ^ 128 + 1) sample_trunk (sample_switch_chain ts)"
proof -
  let ?ch = "sample_switch_chain ts"
  have o: "ch_objects ?ch = sample_objects (2 ^ 129 + 2) (sample_undo 0 (map sample_state [2 ^ 128 + 1]))" "ch_pending_tx_session ?ch = None"
      "ch_fork_db ?ch = sample_switch_forks ts" "ch_block_id_to_block ?ch = sample_blocks [sample_genesis, sample_child 2]"
    by (simp_all add: sample_switch_chain_def sample_chain_def)
  note u = sample_undo_ok [of "[2 ^ 128 + 1]" "2 ^ 129 + 2" 0]
  have "stacked sample_chain_env [sample_child 2] (2 ^ 128 + 1) [sample_state (2 ^ 128 + 1)] (snapshot (ch_objects ?ch))"
    by (simp only: o(1) stacked.simps sample_revert [of _ _ _ "sample_undo 0 []"]) (simp add: snap_head_def sample_snapshot sample_block_ids)
  moreover have "stored sample_chain_env [sample_child 2] ?ch"
    using sample_switch_at [of ts] by (simp add: stored_def sample_at_def sample_block_ids)
  moreover have "past (ce_undo sample_chain_env) (ch_objects ?ch) 1 = sample_trunk"
    using u(2) by (simp add: past_def o(1) sample_revert [of _ _ _ "sample_undo 0 []"])
  ultimately have "on_top sample_chain_env [sample_child 2] (2 ^ 128 + 1) sample_trunk ?ch"
    using u by (simp add: on_top_def o)
  moreover have "linked (sample_switch_forks ts) [3, 2]"
    by (simp add: linked_def sample_switch_items) (simp add: sample_switch_forks_def)
  moreover have "fd_head (sample_switch_forks ts) = Some 3" by (simp add: sample_switch_forks_def sample_forks_def)
  ultimately show ?thesis
    by (simp add: forked_def o(3) sample_switch_items sample_switch_items [unfolded One_nat_def] sample_block_ids sample_more_ids)
qed

lemma sample_num: "num_from_id (2 ^ 129 + 2) = 2" "num_from_id (2 ^ 129 + 3) = 2"
  by (simp_all add: num_from_id_def drop_bit_eq_div)

lemma sample_pop_until:
  assumes "sample_at n fd m j [2 ^ 128 + 1] ch" "m (num_from_id j) = Some b" "block_id sample_block_env b = j" "j \<noteq> 2 ^ 128 + 1"
    "fd_head fd = Some h" "weak_lock fd (fi_prev (item fd h)) = Some p"
  obtains ch' where "pop_until sample_chain_env (2 ^ 128 + 1) ch = (Inr (), ch')"
    "sample_at n (fd\<lparr>fd_head := Some p\<rparr>) (m(num_from_id j := None)) (2 ^ 128 + 1) [] ch'"
proof -
  obtain ch' where p: "pop_block sample_chain_env ch = (Inr (), ch')" "sample_at n (fd\<lparr>fd_head := Some p\<rparr>) (m(num_from_id j := None)) (2 ^ 128 + 1) [] ch'"
    by (rule sample_at_pop [of n fd m j "[]" "2 ^ 128 + 1" ch b h p]) (use assms in simp_all)
  have "head_block_id sample_chain_env ch = Inr j" "head_block_id sample_chain_env ch' = Inr (2 ^ 128 + 1)"
    using assms(1) p(2) sample_head_id by (auto simp: sample_at_def)
  then have "pop_until sample_chain_env (2 ^ 128 + 1) ch = (Inr (), ch')"
    using assms(4) p(1) by (subst pop_until.simps) (simp, subst pop_until.simps, simp)
  then show ?thesis using p(2) that by blast
qed

lemma sample_switch_popped:
  obtains ch1 ch2 where "pop_until sample_chain_env (2 ^ 128 + 1) (sample_switch_chain ts) = (Inr (), ch1)"
    "sample_at 8 ((sample_switch_forks ts)\<lparr>fd_head := Some 2\<rparr>) [1 \<mapsto> sample_genesis] (2 ^ 128 + 1) [] ch1"
    "apply_and_store sample_chain_env 0 (2 ^ 129 + 3) (sample_child 3) ch1 = (Inr (), ch2)"
    "sample_at 12 ((sample_switch_forks ts)\<lparr>fd_head := Some 2\<rparr>) [1 \<mapsto> sample_genesis, 2 \<mapsto> sample_child 3] (2 ^ 129 + 3) [2 ^ 128 + 1] ch2"
proof -
  let ?fd = "sample_switch_forks ts"
  have w: "fd_head ?fd = Some 3" "weak_lock ?fd (fi_prev (item ?fd 3)) = Some 2"
    by (simp_all add: sample_switch_items) (simp_all add: sample_switch_forks_def sample_forks_def weak_lock_def alive_def)
  obtain ch1 where ch1: "pop_until sample_chain_env (2 ^ 128 + 1) (sample_switch_chain ts) = (Inr (), ch1)"
      "sample_at 8 (?fd\<lparr>fd_head := Some 2\<rparr>) ([1 \<mapsto> sample_genesis, 2 \<mapsto> sample_child 2](2 := None)) (2 ^ 128 + 1) [] ch1"
    by (rule sample_pop_until [OF sample_switch_at [of ts] _ sample_block_ids(3) _ w, unfolded sample_num]) simp_all
  have "[1 \<mapsto> sample_genesis, 2 \<mapsto> sample_child 2](2 := None) = [1 :: u32 \<mapsto> sample_genesis]" by (auto simp: fun_eq_iff)
  note at = ch1(2) [unfolded this]
  show ?thesis
    by (rule sample_at_push [OF at sample_packs(3) sample_block_ids(6), of 0])
      (use that [OF ch1(1) at] in \<open>simp_all add: sample_block_ids\<close>, simp add: sample_child_def sample_block_def)
qed

lemma sample_can_apply:
  assumes "sample_at 8 ((sample_switch_forks ts)\<lparr>fd_head := Some 2\<rparr>) [1 \<mapsto> sample_genesis] (2 ^ 128 + 1) [] ch1"
    "apply_and_store sample_chain_env 0 (2 ^ 129 + 3) (sample_child 3) ch1 = (Inr (), ch2)"
    "sample_at 12 ((sample_switch_forks ts)\<lparr>fd_head := Some 2\<rparr>) [1 \<mapsto> sample_genesis, 2 \<mapsto> sample_child 3] (2 ^ 129 + 3) [2 ^ 128 + 1] ch2"
    and "packs (sample_grandchild ts)"
  shows "can_apply sample_chain_env 0 [2, 3] ch1"
proof -
  have "item (ch_fork_db ch1) a = item (sample_switch_forks ts) a" "item (ch_fork_db ch2) a = item (sample_switch_forks ts) a" for a
    using assms(1,3) by (simp_all add: sample_at_def item_def)
  then show ?thesis
    using sample_at_idle [OF assms(1)] sample_at_idle [OF assms(3)] sample_at_storable [OF assms(1) sample_packs(3)]
      sample_at_storable [OF assms(3,4)] assms(2) sample_recent
    by (simp add: sample_switch_items split: sum.split)
qed

lemma sample_replays:
  assumes "bd_wf sample_block_env sample_codec bd" "live sample_codec bd = m"
  shows "replays sample_chain_env 0 [] m sample_trunk [sample_child 2] (snapshot (sample_objects (2 ^ 129 + 2) u))"
proof -
  let ?ch = "(sample_chain (sample_switch_forks []) [] (2 ^ 128 + 1) [0])\<lparr>ch_block_id_to_block := bd\<rparr>"
  have o: "ch_objects ?ch = sample_objects (2 ^ 128 + 1) (sample_undo 0 ([] @ [sample_state 0]))" "ch_checkpoints ?ch = []"
    by (simp_all add: sample_chain_def)
  have "in_progress sample_chain_env ?ch" using sample_undo_ok [of "[0]" "2 ^ 128 + 1" 0] by (simp add: in_progress_def sample_chain_def)
  moreover have "13 \<notin> set (blk_transactions (sample_child 2))" by (simp add: sample_child_def sample_block_def)
  then obtain ch1 v where "apply_block sample_chain_env (sample_child 2) 0 ?ch = (Inr (), ch1)" "ch_objects ch1 = sample_objects (2 ^ 129 + 2) v"
    using sample_block_applied [of "sample_child 2" "2 ^ 128 + 1" "?ch\<lparr>ch_skip_flags := 0\<rparr>" 0 "[]" "sample_state 0"] sample_block_ids o
    by (simp add: apply_block_def with_skip_flags_def)
  moreover have "snapshot (sample_objects (2 ^ 129 + 2) v) = snapshot (sample_objects (2 ^ 129 + 2) u)" by (simp only: sample_snapshot)
  moreover have "snapshot (ch_objects ?ch) = sample_trunk" "live sample_codec (ch_block_id_to_block ?ch) = m"
    using assms(2) by (simp_all add: sample_chain_def sample_snapshot)
  ultimately show ?thesis unfolding replays.simps sample_env
    by (rule_tac exI [of _ ?ch], rule_tac exI [of _ ch1]) (use o(2) in simp)
qed

abbreviation "sample_back_forks \<equiv> (sample_switch_forks [13])\<lparr>fd_index := [0, 1, 2], fd_head := Some 0\<rparr>"

lemma sample_switch_back:
  assumes "sample_at 12 ((sample_switch_forks [13])\<lparr>fd_head := Some 2\<rparr>) m (2 ^ 129 + 3) [2 ^ 128 + 1] ch2"
    and "m = [1 \<mapsto> sample_genesis, 2 \<mapsto> sample_child 3]"
  obtains ch3 ch4 where "pop_until sample_chain_env (2 ^ 128 + 1) (drop_branch sample_chain_env [3] [1] ch2) = (Inr (), ch3)"
    "sample_at 12 sample_back_forks (m(2 := None)) (2 ^ 128 + 1) [] ch3"
    "apply_and_store sample_chain_env 0 (2 ^ 129 + 2) (sample_child 2) ch3 = (Inr (), ch4)"
proof -
  let ?fd = "(sample_switch_forks [13])\<lparr>fd_index := [0, 1, 2], fd_head := Some 1\<rparr>"
  have it: "item (x\<lparr>fd_head := h\<rparr>) a = item x a" "item (x\<lparr>fd_index := k\<rparr>) a = item x a" for x :: "(nat, nat) fork_database" and h k a
    by (simp_all add: item_def)
  have w: "fd_head ?fd = Some 1" "weak_lock ?fd (fi_prev (item ?fd 1)) = Some 0"
    by (simp_all only: it sample_switch_items) (simp_all add: weak_lock_def alive_def)
  have ix: "fd_index (sample_switch_forks [13]) = [0, 1, 2, 3]" by (simp add: sample_switch_forks_def sample_forks_def)
  have "fork_set_head (Some 1) (fork_remove (3 * 2 ^ 128 + 4) ((sample_switch_forks [13])\<lparr>fd_head := Some 2\<rparr>)) = ?fd"
    by (simp add: fork_remove_def fork_set_head_def index_erase_def it ix sample_switch_items sample_switch_items [unfolded One_nat_def])
  moreover have "item (ch_fork_db ch2) 3 = item (sample_switch_forks [13]) 3" "ch_fork_db ch2 = (sample_switch_forks [13])\<lparr>fd_head := Some 2\<rparr>"
    using assms(1) by (simp_all add: sample_at_def item_def)
  ultimately have dr: "drop_branch sample_chain_env [3] [1] ch2 = ch2\<lparr>ch_fork_db := ?fd\<rparr>"
    by (simp add: drop_branch_def it sample_switch_items sample_more_ids)
  have d: "sample_at 12 ?fd m (2 ^ 129 + 3) [2 ^ 128 + 1] (ch2\<lparr>ch_fork_db := ?fd\<rparr>)" using assms(1) by (simp add: sample_at_def)
  have c: "m (num_from_id (2 ^ 129 + 3)) = Some (sample_child 3)" using assms(2) unfolding sample_num by simp
  obtain ch3 where c3: "pop_until sample_chain_env (2 ^ 128 + 1) (drop_branch sample_chain_env [3] [1] ch2) = (Inr (), ch3)"
      "sample_at 12 (?fd\<lparr>fd_head := Some 0\<rparr>) (m(num_from_id (2 ^ 129 + 3) := None)) (2 ^ 128 + 1) [] ch3"
    unfolding dr by (rule sample_pop_until [OF d c sample_block_ids(4) _ w]) simp_all
  have at: "sample_at 12 sample_back_forks (m(2 := None)) (2 ^ 128 + 1) [] ch3" using c3(2) unfolding sample_num by simp
  obtain ch4 where "apply_and_store sample_chain_env 0 (2 ^ 129 + 2) (sample_child 2) ch3 = (Inr (), ch4)"
    by (rule sample_at_push [OF at sample_packs(2) sample_block_ids(6), of 0, unfolded sample_block_ids])
      (simp_all, simp add: sample_child_def sample_block_def)
  then show ?thesis using that c3(1) at by blast
qed

end
