(* ===== verification/Spec2Isabelle.thy ===== *)
theory Spec2Isabelle
  imports Uniswap_Pool Exchange_Orders Undo_Restart Fork_Restart Cbor_Roundtrip Chain_Samples
begin

text \<open>
  A verification library for the Whitecoin core, a node of a delegated proof-of-stake block chain with
  contracts. All paths below are relative to \<^verbatim>\<open>src/libraries\<close>.

  \<^bold>\<open>The program.\<close> A node receives blocks from the network (\<^verbatim>\<open>net\<close>) and pushes them into the chain database
  (\<^verbatim>\<open>chain/db_block.cpp\<close>). The fork database keeps the recent blocks of all branches and says which branch is
  the longest. Blocks are applied to an object database, whose undo history takes a block back when the node
  switches to another branch. Transactions may call contracts: those written in C++ (native contracts) are a
  token, a constant product liquidity pool and an order matching exchange. They keep their state in contract
  storage as CBOR values, and compute prices with decimal numbers (safe numbers) on top of 128 and 256 bit integers.

  \<^bold>\<open>The parts that are modelled\<close>, each with the theories that hold it.

  \<^item> \<open>Prelude\<close>, \<open>Digits\<close>, \<open>Cpp_Std\<close>, \<open>Run_Monad\<close>: error values, decimal texts, the parts of the C++ library that the
    sources use (\<^verbatim>\<open>std::map\<close> as an ordered association list behind the locale \<open>finite_map_ops\<close>, \<^verbatim>\<open>stoll\<close>, \<^verbatim>\<open>strtod\<close>
    syntax, \<^verbatim>\<open>boost::split\<close>), and state passing computations that may raise an exception.
  \<^item> \<open>Limbs\<close>, \<open>Uint128\<close>, \<open>Uint256\<close>, \<open>Safe_Number\<close>, \<open>Safe_Integer\<close>: \<^verbatim>\<open>uvm/src/safenumber/safenumber.cpp\<close>, one definition per
    function on pairs of 64 bit words. Shown: addition, multiplication, shifts, comparison and division against the
    numbers they stand for, truncation of decimal numbers to 16 significant digits, exactness of sums, the quotient, the order,
    and that printed numbers read back.
  \<^item> \<open>Safe_Int\<close>: \<^verbatim>\<open>fc/include/fc/safe.hpp\<close>, checked 64 bit arithmetic.
  \<^item> \<open>Cbor_Object\<close>, \<open>Cbor_Codec\<close>, \<open>Cbor_Termination\<close>, \<open>Cbor_Reading\<close>, \<open>Cbor_Roundtrip\<close>: \<^verbatim>\<open>uvm/src/cborcpp\<close>. The encoder as the
    bytes it writes, the decoder as its state machine with objects on a heap. Shown: the decoder ends, and encoded
    values decode to what \<open>cbor_reload\<close> says, with the two kinds of values for which this fails.
  \<^item> \<open>Native_Store\<close>: \<^verbatim>\<open>chain/native_contract.cpp\<close> and the commit of \<^verbatim>\<open>chain/contract_evaluate.cpp\<close>: storage, fast maps, events,
    transfers. The locale of a store with its laws is interpreted on it. A value that a later invocation reads is the \<open>cbor_reload\<close> of
    the value that was written.
  \<^item> \<open>Token_Contract\<close>: \<^verbatim>\<open>chain/native_token_contract.cpp\<close>. Shown: the balances always add up to the supply, what transfers
    and allowances do.
  \<^item> \<open>Uniswap_Contract\<close>, \<open>Uniswap_Pool\<close>: \<^verbatim>\<open>chain/native_uniswap_contract.cpp\<close>. Shown: the price formula, the product of the pool does
    not shrink in an exchange, deposits and withdrawals are proportional.
  \<^item> \<open>Exchange_Contract\<close>, \<open>Exchange_Orders\<close>: \<^verbatim>\<open>chain/native_exchange_contract.cpp\<close>. Shown: a fill stays within the signed
    order and its price, and what a cancelled order still allows.
  \<^item> \<open>Object_Id\<close>, \<open>Object_Index\<close>, \<open>Object_Types\<close>, \<open>Undo_Database\<close>: \<^verbatim>\<open>db\<close>. Object ids, the three kinds of index behind the locales
    \<open>keyed_index\<close> and \<open>object_index\<close>, and every operation of the undo history, with the states that are moved to a store on disk.
    \<open>Undo_States\<close> to \<open>Undo_Restart\<close> show: the database with its history refines a stack of snapshots, sessions
    restore the state, merging equals undoing both, unwinding never gets stuck, and the history survives a restart.
  \<^item> \<open>Block\<close>, \<open>Fork_Database\<close>, \<open>Fork_Invariant\<close>, \<open>Fork_Branches\<close>, \<open>Fork_Restart\<close>: \<^verbatim>\<open>chain/protocol/block.cpp\<close> and \<^verbatim>\<open>chain/fork_database.cpp\<close>.
    Items live in a heap, a weak pointer can be locked while its item is alive. Shown: links, numbers and ids stay right, the
    head is the highest block, \<^verbatim>\<open>fetch_branch_from\<close> ends and finds the most recent common ancestor, what a restart keeps, and
    that Merkle roots bind the transactions.
  \<^item> \<open>Block_Database\<close>, \<open>Block_Store\<close>: \<^verbatim>\<open>chain/block_database.cpp\<close>, a file of packed blocks and an index file with one entry for every
    number. Shown: it is a map from numbers to blocks, behind the locale \<open>block_store\<close>.
  \<^item> \<open>Chain_Database\<close>: \<^verbatim>\<open>chain/db_block.cpp\<close> with \<^verbatim>\<open>chain/include/graphene/chain/db_with.hpp\<close>. It puts the three databases above together:
    pushing and popping blocks, switching forks, and pending transactions, with the sessions whose destructors undo what was
    not committed. \<^verbatim>\<open>_apply_block\<close> and \<^verbatim>\<open>_apply_transaction\<close> are parameters. What is assumed of them is named where it is used:
    \<open>applies_by_changes\<close> and \<open>transactions_by_changes\<close> (objects are only changed through the object database), \<open>applies_head\<close>
    (an applied block is the head), \<open>applies_checked\<close> (a block that does not build on the head is refused) and
    \<open>applies_functionally\<close> (the result depends on the objects and the stored blocks). \<open>Chain_Sessions\<close> to \<open>Chain_Recovery\<close> show: a block that
    fails leaves no trace in the objects, pushing and popping are inverse, pending transactions stay apart, a switch of forks
    applies the new branch or restores the old one, and where the head of the fork database is left behind. \<open>Chain_Samples\<close>
    has a chain on which all of this can be followed.

  \<^bold>\<open>Conventions.\<close> Exceptions are values of \<open>cpp_error\<close>; a computation is a \<open>result\<close> or a \<open>run\<close>, which keeps the changes made
  before an exception. 64 bit signed integers of contracts are integers with \<open>wrap_int64\<close> where the code can overflow; unsigned
  machine words are words. Code that is not in the repository, such as hash functions, \<^verbatim>\<open>boost::lexical_cast\<close> or
  the conversion of object classes to JSON, is a field of an environment record or an argument. Loops
  are functions with a measure; the loops of \<^verbatim>\<open>fetch_branch_from\<close> and of the CBOR decoder, which do not end in every
  imaginable state, are partial functions, and it is shown that they return on every state that occurs. No fuel is used.

  \<^bold>\<open>Not modelled.\<close> Network, wallet, remote interface and plugins (threads, sockets, files); the Lua virtual machine; cross chain
  code; signatures and the other cryptographic primitives; vendored libraries. Of the chain database \<^verbatim>\<open>_apply_block\<close> with
  the evaluators of operations, the market, assets and votes, the generation of blocks, the signals to observers and the search for
  transactions in leveldb are not modelled: they range over object classes with hundreds of fields.
\<close>

section \<open>Decimal numbers\<close>

text \<open>Two numbers the witnesses use: one half and minus three.\<close>

definition sn_half :: SafeNumber where
  "sn_half = \<lparr>sn_valid = True, sn_sign = True, sn_x = simple_uint128_create 0 5, sn_e = 1\<rparr>"

definition sn_minus_3 :: SafeNumber where
  "sn_minus_3 = \<lparr>sn_valid = True, sn_sign = False, sn_x = simple_uint128_create 0 3, sn_e = 0\<rparr>"

lemma sample_numbers:
  "sn_normal sn_half" "magnitude sn_half = 5000000000000000" "nat128 (sn_x sn_half) = 5"
  "scaled sn_half = 5000000000000000"
  "sn_normal sn_minus_3" "magnitude sn_minus_3 = 30000000000000000" "nat128 (sn_x sn_minus_3) = 3"
  "scaled sn_minus_3 = - 30000000000000000"
  by (simp_all add: sn_half_def sn_minus_3_def sn_normal_def normal_def magnitude_def scaled_def
      val128_create)

text \<open>
  C23. The product of two valid numbers in normal form whose exact
  product is at most \<open>10 ^ 16\<close> in absolute value always returns, in normal form, and is the exact
  product truncated after sixteen decimals, with the product of the signs.
\<close>

theorem safe_number_multiply_truncates:
  assumes "sn_normal a" "sn_normal b" "magnitude a * magnitude b \<le> 10 ^ 48"
  shows "\<exists>r. safe_number_multiply a b = Inr r \<and> sn_normal r
    \<and> scaled r = with_sign (sn_sign a = sn_sign b) (int (magnitude a * magnitude b div 10 ^ 16))"
  using safe_number_multiply_exact [OF assms] by blast

theorem safe_number_multiply_truncates_witness:
  "\<exists>r. safe_number_multiply sn_half sn_minus_3 = Inr r \<and> sn_normal r \<and> scaled r = - 15000000000000000"
  using safe_number_multiply_truncates [of sn_half sn_minus_3]
  by (simp add: sample_numbers) (simp add: sn_half_def sn_minus_3_def with_sign_def)

text \<open>
  C24. Sums and differences of numbers in normal form whose absolute
  values add up to at most \<open>10 ^ 16\<close> are exact.
\<close>

theorem safe_number_add_minus_exact:
  assumes "sn_normal a" "sn_normal b" "magnitude a + magnitude b \<le> 10 ^ 32"
  shows "(\<exists>r. safe_number_add a b = Inr r \<and> sn_normal r \<and> scaled r = scaled a + scaled b)
    \<and> (\<exists>r. safe_number_minus a b = Inr r \<and> sn_normal r \<and> scaled r = scaled a - scaled b)"
  using safe_number_add_exact [OF assms] safe_number_minus_exact [OF assms] by blast

theorem safe_number_add_minus_exact_witness:
  "(\<exists>r. safe_number_add sn_half sn_minus_3 = Inr r \<and> sn_normal r \<and> scaled r = - 25000000000000000)
    \<and> (\<exists>r. safe_number_minus sn_half sn_minus_3 = Inr r \<and> sn_normal r \<and> scaled r = 35000000000000000)"
  using safe_number_add_minus_exact [of sn_half sn_minus_3] by (simp add: sample_numbers)





text \<open>
  C27. Parsing the printed text of a nonzero number in normal form gives the
  same number, field by field.
\<close>

theorem safe_number_print_parse:
  assumes "sn_normal a" "magnitude a \<noteq> 0"
  shows "\<exists>s. safe_number_to_string a = Inr s \<and> safe_number_create_str s = Inr a"
  using safe_number_roundtrip [OF assms] by (simp add: ebind_eq_Inr)

theorem safe_number_print_parse_witness:
  "\<exists>s. safe_number_to_string sn_minus_3 = Inr s \<and> safe_number_create_str s = Inr sn_minus_3"
  using safe_number_print_parse [of sn_minus_3] by (simp add: sample_numbers)

text \<open>
  C28. Every way of building a number from its parts returns a valid number
  in normal form: at most sixteen decimals, no trailing zero after the point, and at most
  \<open>10 ^ 32\<close> as coefficient of a number with decimals.
\<close>

theorem safe_number_create_normal:
  "(\<exists>r. safe_number_create s x e = Inr r \<and> sn_normal r)
    \<and> (\<exists>r. safe_number_create_int64 v = Inr r \<and> sn_normal r)"
proof -
  have "safe_number_create_int64 v = safe_number_create (v \<ge> 0)
      (simple_uint128_create 0 (word_of_int (if v \<ge> 0 then v else - v))) 0"
    by (simp add: safe_number_create_int64_def safe_number_create_def)
  then show ?thesis
    using safe_number_create_eq by metis
qed

text \<open>
  The conversion to a 64 bit integer rounds to the floor of the value, for
  every number in normal form below \<open>2 ^ 62\<close> in absolute value.
\<close>

lemma safe_number_floor:
  assumes "sn_normal a" "magnitude a div 10 ^ 16 < 2 ^ 62"
  shows "safe_number_to_int64_floor a = Inr (scaled a div 10 ^ 16)"
  unfolding scaled_div_floor by (rule to_int64_aux(2) [OF assms])

lemma safe_number_floor_witness: "safe_number_to_int64_floor sn_half = Inr 0"
  using safe_number_floor [of sn_half] by (simp add: sample_numbers)

section \<open>Wide integers\<close>

text \<open>
  C33. The 128 bit operations on two 64 bit halves are addition, subtraction,
  negation, multiplication and shifts modulo \<open>2 ^ 128\<close>.
\<close>

theorem uint128_arithmetic:
  "val128 (simple_uint128_add a b) = (val128 a + val128 b) mod 2 ^ 128
    \<and> val128 (simple_uint128_minus a b) = (val128 a - val128 b) mod 2 ^ 128
    \<and> val128 (simple_uint128_neg a) = (- val128 a) mod 2 ^ 128
    \<and> val128 (simple_uint128_multi a b) = (val128 a * val128 b) mod 2 ^ 128
    \<and> val128 (simple_uint128_shift_left a n) = (val128 a * 2 ^ n) mod 2 ^ 128
    \<and> val128 (simple_uint128_shift_right a n) = val128 a div 2 ^ n"
  by (intro conjI val128_add val128_minus val128_neg val128_multi val128_shift_left val128_shift_right)

text \<open>
  The shift-and-subtract division is total but for a zero divisor, which
  raises, and returns quotient and remainder.
\<close>

lemma uint128_division:
  "if val128 b = 0 then simple_uint128_divmod a b = Inl Domain_error
   else \<exists>r. simple_uint128_divmod a b = Inr r \<and> val128 (div_result r) = val128 a div val128 b
     \<and> val128 (mod_result r) = val128 a mod val128 b"
  using divmod128 [of b a] divmod128_zero [of b a] by simp

text \<open>
  C34. The 256 bit division is exact for dividends below \<open>2 ^ 255\<close> and divisors up to
  \<open>2 ^ 127\<close>.
\<close>

theorem uint256_division:
  assumes "0 < val256 b" "val256 b \<le> 2 ^ 127" "val256 a < 2 ^ 255"
  shows "\<exists>r. simple_uint256_divmod a b = Inr r \<and> val256 (div_result256 r) = val256 a div val256 b
    \<and> val256 (mod_result256 r) = val256 a mod val256 b"
  by (rule divmod256 [OF assms])

theorem uint256_division_witness:
  "\<exists>r. simple_uint256_divmod (simple_uint256_create uint128_1 uint128_0) uint256_10 = Inr r
    \<and> val256 (div_result256 r) = 34028236692093846346337460743176821145
    \<and> val256 (mod_result256 r) = 6"
  using uint256_division [of uint256_10 "simple_uint256_create uint128_1 uint128_0"]
  by (simp add: limb_simps)

text \<open>
  Every dividend from \<open>2 ^ 255\<close> on divided by a smaller divisor above 1
  yields quotient 0 and remainder 0: the bit count of the dividend is 256, which the 8 bit
  counter of \<^verbatim>\<open>simple_uint256_bits\<close> turns into 0.
\<close>

lemma uint256_division_wraps:
  assumes "2 ^ 255 \<le> val256 a" "1 < val256 b" "val256 b < val256 a"
  shows "\<exists>r. simple_uint256_divmod a b = Inr r
    \<and> val256 (div_result256 r) = 0 \<and> val256 (mod_result256 r) = 0"
  using divmod256_wrapped [OF assms] by (simp add: make_uint256_div_result_def limb_simps)

lemma uint256_division_wraps_witness:
  "\<exists>r. simple_uint256_divmod (simple_uint256_bit_reverse uint256_0) uint256_10 = Inr r
    \<and> val256 (div_result256 r) = 0 \<and> val256 (mod_result256 r) = 0"
  using uint256_division_wraps [of "simple_uint256_bit_reverse uint256_0" uint256_10]
  by (simp add: limb_simps)

text \<open>
  The 256 bit subtraction is exact when the low halves need no borrow; when
  they do, the high half comes out \<open>2 ^ 64\<close> too large.
\<close>

lemma uint256_minus_borrow:
  "val256 (simple_uint256_minus a b) =
     (val256 a - val256 b + (if val128 (lo256 a) < val128 (lo256 b) then 2 ^ 192 else 0)) mod 2 ^ 256"
  by (rule val256_minus)

section \<open>Token contract\<close>

text \<open>
  C5. In every storage that a token contract reaches by registration, by
  invocations and by changes of other contracts, either nothing has been issued and every balance
  is zero, or the balances are non-negative and add up to the supply that is stored.
\<close>

theorem token_supply_conserved:
  assumes "token_history c db" "env_contract en = c" "env_storage en = db"
  shows "get_storage_state en empty_invoke_result = Inr ''NOT_INITED'' \<and>
      (\<forall>a. token_balance en empty_invoke_result a = 0) \<or>
    get_storage_state en empty_invoke_result = Inr ''COMMON'' \<and>
      (\<forall>a. 0 \<le> token_balance en empty_invoke_result a) \<and>
      (\<exists>A. finite A \<and> (\<forall>a. a \<notin> A \<longrightarrow> token_balance en empty_invoke_result a = 0) \<and>
        get_storage_supply en empty_invoke_result = Inr (\<Sum>a \<in> A. token_balance en empty_invoke_result a))"
  using token_history_inv [OF assms]
  by (auto simp: token_inv_def token_funded_def users.supported_def not_inited_state_of_token_contract_def
      common_state_of_token_contract_def)

definition sample_env :: "string \<Rightarrow> storage_map \<Rightarrow> contract_env" where
  "sample_env caller db = \<lparr>env_contract = ''con'', env_caller = caller, env_head_block_num = 7, env_op_num = 0,
     env_chain_now = 0, env_storage = db, env_balance = (\<lambda>_. 0), env_is_valid_address = (\<lambda>_. True),
     env_asset_exists = (\<lambda>_. True), env_json_from_string = (\<lambda>_. Inl Invalid_argument),
     env_double_to_int64 = (\<lambda>_. 0), env_double_to_uint64 = (\<lambda>_. 0), env_double_to_string = (\<lambda>t. t),
     env_sha256 = (\<lambda>t. CHR ''h'' # t), env_recover_public_key = (\<lambda>_ _. Inr (Some ''k'')),
     env_parse_public_key = (\<lambda>_. Inr None), env_pubkey_to_address_string = Some (\<lambda>_. ''al'')\<rparr>"

lemma sample_env_simps [simp]:
  "env_caller (sample_env u db) = u" "env_contract (sample_env u db) = ''con''" "env_storage (sample_env u db) = db"
  by (simp_all add: sample_env_def)

lemma sample_amounts:
  "stoll ''40'' = Inr 40" "is_integral ''40''" "stoll ''20'' = Inr 20" "is_integral ''20''"
proof -
  have "stoll (int_to_string 40) = Inr 40" "is_integral (int_to_string 40)"
    "stoll (int_to_string 20) = Inr 20" "is_integral (int_to_string 20)"
    by (simp_all add: stoll_int_to_string is_integral_int_to_string)
  then show "stoll ''40'' = Inr 40" "is_integral ''40''" "stoll ''20'' = Inr 20" "is_integral ''20''"
    by (simp_all add: int_to_string_def digit_char_def nat_to_string.simps)
qed

definition sample_registered :: contract_invoke_result where
  "sample_registered = projr (token_invoke (sample_env ''al'' (\<lambda>_. None)) ''init'' '''' empty_invoke_result)"

lemma sample_registered_history:
  "token_history ''con'' (apply_storage_change sample_registered (\<lambda>_. None))"
proof -
  let ?en = "sample_env ''al'' (\<lambda>_. None)"
  have "\<exists>st. token_invoke ?en ''init'' '''' empty_invoke_result = Inr st"
    by (simp add: token_invoke_def token_api_table_def token_init_api_def caller_address_string_def
        Let_def)
  then have "token_invoke ?en ''init'' '''' empty_invoke_result = Inr sample_registered"
    by (auto simp: sample_registered_def)
  from token_history.registered [of ?en "''con''", OF _ _ this] show ?thesis
    by simp
qed

theorem token_supply_conserved_witness:
  "get_storage_state (sample_env ''bo'' (apply_storage_change sample_registered (\<lambda>_. None))) empty_invoke_result
     = Inr ''NOT_INITED'' \<or>
   get_storage_state (sample_env ''bo'' (apply_storage_change sample_registered (\<lambda>_. None))) empty_invoke_result
     = Inr ''COMMON''"
  using token_supply_conserved [OF sample_registered_history,
      of "sample_env ''bo'' (apply_storage_change sample_registered (\<lambda>_. None))"]
  by auto

text \<open>
  A token contract with a supply of 100 owned by \<open>al\<close>, who lets \<open>bo\<close> spend 30.
\<close>

definition sample_token_storage :: storage_map where
  "sample_token_storage = (\<lambda>_. None)(
     (''con'', ''state'') \<mapsto> COT_STRING ''COMMON'', (''con'', ''supply'') \<mapsto> COT_INT 100,
     (''con'', ''users.al'') \<mapsto> COT_INT 100,
     (''con'', ''allowed.al'') \<mapsto> COT_MAP [(''bo'', COT_INT 30)])"

lemma sample_token_reads:
  "current_fast_map_get (sample_env u sample_token_storage) empty_invoke_result ''users'' a
     = (if a = ''al'' then COT_INT 100 else COT_NULL)"
  "current_fast_map_get (sample_env u sample_token_storage) empty_invoke_result ''allowed'' a
     = (if a = ''al'' then COT_MAP [(''bo'', COT_INT 30)] else COT_NULL)"
  "get_current_contract_storage_cbor (sample_env u sample_token_storage) empty_invoke_result ''state'' = COT_STRING ''COMMON''"
  "get_current_contract_storage_cbor (sample_env u sample_token_storage) empty_invoke_result ''supply'' = COT_INT 100"
  by (simp_all add: current_fast_map_get_def fast_map_get_def get_current_contract_storage_cbor_def
      get_contract_storage_empty db_get_contract_storage_def sample_token_storage_def)

lemma sample_token_balance:
  "token_balance (sample_env u sample_token_storage) empty_invoke_result a = (if a = ''al'' then 100 else 0)"
  by (simp add: token_balance_def sample_token_reads is_integer_def)

lemma sample_token_state:
  "get_storage_state (sample_env u sample_token_storage) empty_invoke_result = Inr ''COMMON''"
  "get_storage_supply (sample_env u sample_token_storage) empty_invoke_result = Inr 100"
  by (simp_all add: token_getters sample_token_reads is_integer_def)

lemma sample_token_inv: "token_inv (sample_env u sample_token_storage) empty_invoke_result"
proof -
  have "users.supported (sample_env u sample_token_storage) empty_invoke_result {''al''} 100"
    by (simp add: users.supported_def sample_token_balance)
  then show ?thesis
    by (auto simp: token_inv_def token_funded_def sample_token_balance sample_token_state
        common_state_of_token_contract_def)
qed

text \<open>
  C17. A successful \<open>transfer\<close> of a contract in a consistent state takes the
  amount its second argument stands for, which is positive and covered, from the caller, adds it
  to the receiver (also when both are the same), changes no other balance and leaves the contract
  in a consistent state.
\<close>

theorem token_transfer_moves:
  assumes "token_inv en st" "transfer_api en arg st = Inr st'"
  shows "\<exists>to_addr amount. to_addr = trim (split_comma arg ! 0) \<and>
    stoll (trim (split_comma arg ! 1)) = Inr amount \<and> 0 < amount \<and>
    amount \<le> token_balance en st (env_caller en) \<and> token_inv en st' \<and>
    (\<forall>b. token_balance en st' b = token_balance en st b
       - (if b = env_caller en then amount else 0) + (if b = to_addr then amount else 0))"
  using transfer_api_effect [OF assms(2,1)] by metis

lemma sample_transfer:
  "\<exists>st'. transfer_api (sample_env ''al'' sample_token_storage) ''bo,40'' empty_invoke_result = Inr st'"
  by (simp add: transfer_api_def sample_token_state sample_token_balance get_balance_of_user_eq sample_amounts
      common_state_of_token_contract_def get_from_address_def caller_address_string_def trim_def is_space_def
      emit_event_def Let_def)

theorem token_transfer_moves_witness:
  "\<exists>st'. transfer_api (sample_env ''al'' sample_token_storage) ''bo,40'' empty_invoke_result = Inr st' \<and>
     token_balance (sample_env ''al'' sample_token_storage) st' ''al'' = 60 \<and>
     token_balance (sample_env ''al'' sample_token_storage) st' ''bo'' = 40"
proof -
  obtain st' where "transfer_api (sample_env ''al'' sample_token_storage) ''bo,40'' empty_invoke_result = Inr st'"
    using sample_transfer by blast
  from token_transfer_moves [OF sample_token_inv this] this show ?thesis
    by (auto simp: sample_token_balance trim_def is_space_def sample_amounts)
qed

text \<open>
  C18. A successful \<open>transferFrom\<close> spends at most what the authorizer
  allowed the caller, moves exactly the amount, leaves the allowance smaller by the amount (and
  removes it at zero), and keeps every other allowance of the authorizer.
\<close>

theorem token_transfer_from_allowance:
  assumes "token_inv en st" "transfer_from_api en arg st = Inr st'"
  shows "\<exists>from_addr to_addr amount allowed approved.
    from_addr = trim (split_comma arg ! 0) \<and> to_addr = trim (split_comma arg ! 1) \<and>
    stoll (trim (split_comma arg ! 2)) = Inr amount \<and> 0 < amount \<and>
    std_map_find (get_allowed_of_user en st from_addr) (env_caller en) = Some allowed \<and>
    force_as_int allowed = Inr approved \<and> amount \<le> approved \<and>
    (\<forall>b. token_balance en st' b = token_balance en st b
       - (if b = from_addr then amount else 0) + (if b = to_addr then amount else 0)) \<and>
    (\<forall>spender. std_map_find (get_allowed_of_user en st' from_addr) spender =
       (if spender = env_caller en
        then (if approved = amount then None else Some (cbor_reload (COT_INT (approved - amount))))
        else map_option cbor_reload (std_map_find (get_allowed_of_user en st from_addr) spender)))"
proof (rule transfer_from_api_effect [OF assms(2,1)])
  fix from_addr to_addr amount approved allowed
  assume h: "from_addr = trim (split_comma arg ! 0)" "to_addr = trim (split_comma arg ! 1)"
    "stoll (trim (split_comma arg ! 2)) = Inr amount" "0 < amount"
    "std_map_find (get_allowed_of_user en st from_addr) (env_caller en) = Some allowed"
    "force_as_int allowed = Inr approved" "amount \<le> approved"
    "\<forall>b. token_balance en st' b = token_balance en st b
       - (if b = from_addr then amount else 0) + (if b = to_addr then amount else 0)"
    and al: "get_allowed_of_user en st' from_addr = cbor_reload_members (if approved = amount
          then std_map_erase (env_caller en)
                 (std_map_set (env_caller en) (COT_INT (approved - amount)) (get_allowed_of_user en st from_addr))
          else std_map_set (env_caller en) (COT_INT (approved - amount)) (get_allowed_of_user en st from_addr))"
  have "std_map_find (get_allowed_of_user en st' from_addr) spender =
       (if spender = env_caller en
        then (if approved = amount then None else Some (cbor_reload (COT_INT (approved - amount))))
        else map_option cbor_reload (std_map_find (get_allowed_of_user en st from_addr) spender))" for spender
    unfolding al std_map_find_members by (simp add: std_map.find_put std_map.find_erase)
  with h show ?thesis by blast
qed

lemma sample_transfer_from:
  "\<exists>st'. transfer_from_api (sample_env ''bo'' sample_token_storage) ''al,cy,20'' empty_invoke_result = Inr st'"
  by (simp add: transfer_from_api_def sample_token_state sample_token_balance get_balance_of_user_eq sample_amounts
      common_state_of_token_contract_def get_allowed_of_user_def sample_token_reads std_map_find_def
      get_from_address_def caller_address_string_def trim_def is_space_def emit_event_def Let_def)

theorem token_transfer_from_allowance_witness:
  "\<exists>st'. transfer_from_api (sample_env ''bo'' sample_token_storage) ''al,cy,20'' empty_invoke_result = Inr st' \<and>
     token_balance (sample_env ''bo'' sample_token_storage) st' ''cy'' = 20 \<and>
     std_map_find (get_allowed_of_user (sample_env ''bo'' sample_token_storage) st' ''al'') ''bo'' = Some (COT_INT 10)"
proof -
  obtain st' where "transfer_from_api (sample_env ''bo'' sample_token_storage) ''al,cy,20'' empty_invoke_result = Inr st'"
    using sample_transfer_from by blast
  from token_transfer_from_allowance [OF sample_token_inv this] this show ?thesis
    by (simp add: sample_token_balance trim_def is_space_def sample_amounts)
      (auto simp: get_allowed_of_user_def sample_token_reads std_map_find_def reload_nat_def int_max_def)
qed

text \<open>
  While the contract is in its common state, a transfer of a printed
  positive amount is accepted exactly when the caller owns that much.
\<close>

lemma token_transfer_accepts:
  assumes "get_storage_state en st = Inr ''COMMON''" "CHR '','' \<notin> set to_addr" "0 < amount" "amount < 2 ^ 63"
  shows "(\<exists>st'. transfer_api en (to_addr @ '','' @ int_to_string amount) st = Inr st') \<longleftrightarrow>
    amount \<le> token_balance en st (env_caller en)"
  using transfer_api_printed [OF _ assms(2-4)] assms(1) by (simp add: common_state_of_token_contract_def)

lemma token_transfer_accepts_witness:
  "\<exists>st'. transfer_api (sample_env ''al'' sample_token_storage) (''bo'' @ '','' @ int_to_string 40) empty_invoke_result
     = Inr st'"
  using token_transfer_accepts [of "sample_env ''al'' sample_token_storage" empty_invoke_result "''bo''" 40]
  by (simp add: sample_token_state sample_token_balance)

text \<open>
  After a successful \<open>approve\<close> of an amount, \<open>approvedBalanceFrom\<close>, called by
  anybody for the same spender and authorizer, returns that amount.
\<close>

lemma token_approve_query:
  assumes "approve_api en (spender @ '','' @ int_to_string amount) st = Inr st'"
    "CHR '','' \<notin> set spender" "CHR '','' \<notin> set (env_caller en)" "\<forall>c \<in> set (env_caller en). \<not> is_space c"
    "0 < amount" "amount < 2 ^ 63"
  shows "approved_balance_from_api (en\<lparr>env_caller := x\<rparr>) (spender @ '','' @ env_caller en) st' =
    Inr (set_api_result (Plain (int_to_string amount)) st')"
  using assms by (rule approve_then_query)

lemma sample_approve:
  "\<exists>st'. approve_api (sample_env ''al'' sample_token_storage) (''cy'' @ '','' @ int_to_string 5) empty_invoke_result = Inr st'"
  using printed_args [of "''cy''" 5]
  by (simp add: approve_api_def sample_token_state common_state_of_token_contract_def trim_int_to_string
      is_integral_int_to_string stoll_int_to_string get_allowed_of_user_def sample_token_reads
      get_from_address_def caller_address_string_def emit_event_def Let_def)

lemma token_approve_query_witness:
  "\<exists>st'. approved_balance_from_api ((sample_env ''al'' sample_token_storage)\<lparr>env_caller := ''bo''\<rparr>)
     (''cy'' @ '','' @ env_caller (sample_env ''al'' sample_token_storage)) st'
       = Inr (set_api_result (Plain (int_to_string 5)) st')"
proof -
  obtain st' where
    "approve_api (sample_env ''al'' sample_token_storage) (''cy'' @ '','' @ int_to_string 5) empty_invoke_result = Inr st'"
    using sample_approve by blast
  from token_approve_query [OF this, of "''bo''"] show ?thesis
    by (auto simp: is_space_def)
qed

section \<open>Liquidity pool contract\<close>

text \<open>
  A pool of 1000 and 1000 with 1000 share tokens, all owned by \<open>al\<close>, who has deposits left; the
  contract holds enough of both assets.
\<close>

definition sample_pool_storage :: storage_map where
  "sample_pool_storage = (\<lambda>_. None)(
     (''con'', ''state'') \<mapsto> COT_STRING ''COMMON'', (''con'', ''fee_rate'') \<mapsto> COT_STRING ''0'',
     (''con'', ''asset_1_symbol'') \<mapsto> COT_STRING ''A'', (''con'', ''asset_2_symbol'') \<mapsto> COT_STRING ''B'',
     (''con'', ''asset_1_pool_amount'') \<mapsto> COT_INT 1000, (''con'', ''asset_2_pool_amount'') \<mapsto> COT_INT 1000,
     (''con'', ''min_asset1_amount'') \<mapsto> COT_INT 1, (''con'', ''min_asset2_amount'') \<mapsto> COT_INT 1,
     (''con'', ''supply'') \<mapsto> COT_INT 1000, (''con'', ''users.al'') \<mapsto> COT_INT 1000,
     (''con'', ''al.A'') \<mapsto> COT_INT 70, (''con'', ''al.B'') \<mapsto> COT_INT 40)"

definition sample_pool_env :: contract_env where
  "sample_pool_env = (sample_env ''al'' sample_pool_storage)\<lparr>env_balance := \<lambda>_. 5000\<rparr>"

lemma sample_pool_env_simps [simp]:
  "env_caller sample_pool_env = ''al''" "env_contract sample_pool_env = ''con''"
  "env_head_block_num sample_pool_env = 7" "env_storage sample_pool_env = sample_pool_storage"
  "env_balance sample_pool_env i = 5000" "env_is_valid_address sample_pool_env u" "env_asset_exists sample_pool_env u"
  by (simp_all add: sample_pool_env_def sample_env_def)





text \<open>
  C21. The price the pool computes with decimal numbers is exactly the floor of
  \<open>x * b / (a + x)\<close>, for all positive 64 bit reserves and inputs with an output reserve up to \<open>2 ^ 62\<close>.
\<close>

theorem uniswap_input_price:
  assumes "0 < x" "0 < a" "0 \<le> b" "x < 2 ^ 63" "a < 2 ^ 63" "b \<le> 2 ^ 62"
  shows "getInputPrice x a b = Inr (x * b div (a + x))"
  using assms by (rule getInputPrice_eq)

theorem uniswap_input_price_witness: "getInputPrice 99 1000 1000 = Inr 90"
  using uniswap_input_price [of 99 1000 1000] by simp












section \<open>Order matching contract\<close>

text \<open>
  The order of \<open>al\<close> sells 50 of \<open>A\<close> for 100 of \<open>B\<close>. In the sample state \<open>al\<close> has 90 of \<open>A\<close>, the
  smallest fee for \<open>A\<close> is 5, and the fee receiver \<open>fr\<close> already holds 1000 of \<open>A\<close>.
\<close>

definition sample_order_json :: json where
  "sample_order_json = Json_object
    [(''purchaseAsset'', Json_string ''B''), (''purchaseNum'', Json_int 100), (''payAsset'', Json_string ''A''),
     (''payNum'', Json_int 50), (''nonce'', Json_string ''n''), (''relayer'', Json_string ''fr''),
     (''fee'', Json_string ''0''), (''type'', Json_string ''sell''), (''expiredAt'', Json_int 9),
     (''version'', Json_int 1)]"

definition sample_order :: Order where
  "sample_order = \<lparr>orderInfo = ''i'', order_sig = '''', order_id = ''hi''\<rparr>"

definition sample_fill :: FillOrder where
  "sample_fill = \<lparr>fill_order = sample_order, getNum = 100, spentNum = 50\<rparr>"

definition sample_order_storage :: storage_map where
  "sample_order_storage = (\<lambda>_. None)((''con'', ''al.A'') \<mapsto> COT_INT 90, (''con'', ''A.minFee'') \<mapsto> COT_INT 5,
     (''con'', ''fr.A'') \<mapsto> COT_INT 1000)"

definition sample_order_env :: contract_env where
  "sample_order_env = (sample_env ''al'' sample_order_storage)\<lparr>env_json_from_string := \<lambda>_. Inr sample_order_json\<rparr>"

definition sample_order_info :: OrderInfo where
  "sample_order_info = \<lparr>purchaseAsset = ''B'', purchaseNum = 100, payAsset = ''A'', payNum = 50, order_nonce = ''n'',
     relayer = ''fr'', order_fee_rate = ''0'', order_type = ''sell'', expiredAt = 9, order_version = 1\<rparr>"

lemma sample_order_env_simps [simp]:
  "env_contract sample_order_env = ''con''" "env_storage sample_order_env = sample_order_storage"
  "env_caller sample_order_env = ''al''" "env_chain_now sample_order_env = 0"
  "env_json_from_string sample_order_env t = Inr sample_order_json" "env_is_valid_address sample_order_env u"
  by (simp_all add: sample_order_env_def sample_env_def)

lemma sample_order_owner: "getOrderOwnerAddressAndId sample_order_env sample_order = Inr (''OK'', ''al'', ''hi'')"
  by (simp add: getOrderOwnerAddressAndId_def sample_order_env_def sample_env_def sample_order_def Let_def)

lemma sample_order_read: "OrderInfo_from_variant sample_order_env sample_order_json = Inr sample_order_info"
  by (simp add: OrderInfo_from_variant_def sample_order_json_def sample_order_info_def json_at_def wrap_int64_id)

lemma sample_order_reads:
  "current_fast_map_get sample_order_env empty_invoke_result ''al'' ''A'' = COT_INT 90"
  "current_fast_map_get sample_order_env empty_invoke_result ''A'' ''minFee'' = COT_INT 5"
  "current_fast_map_get sample_order_env empty_invoke_result ''fr'' ''A'' = COT_INT 1000"
  "current_fast_map_get sample_order_env empty_invoke_result ''al'' ''B'' = COT_NULL"
  "current_fast_map_get sample_order_env empty_invoke_result ''hi'' ''info'' = COT_NULL"
  by (simp_all add: current_fast_map_get_def fast_map_get_def get_current_contract_storage_cbor_def
      get_contract_storage_empty db_get_contract_storage_def sample_order_storage_def)

lemma sample_order_fees:
  "order_spent_fee sample_order_env empty_invoke_result sample_order_info 50 = Inr 5"
  "order_fee_receiver sample_order_env empty_invoke_result sample_order_info = Inr ''fr''"
  by (rule zero_rate_fee) (simp_all add: sample_order_info_def sample_order_reads order_fee_receiver_def)

lemma sample_fill_checked:
  "\<exists>co st'. checkOrder sample_order_env sample_fill empty_invoke_result = Inr (co, st') \<and>
     co_info co = sample_order_info \<and> co_id co = ''hi''"
proof -
  have price: "order_price_ok sample_order_info 100 50 = Inr ()"
    by (subst order_price_ok_iff) (simp_all add: sample_order_info_def)
  obtain n m where "safe_number_create_int64 100 = Inr n" "safe_number_create_int64 50 = Inr m"
    using create_int64_nat [of 100] create_int64_nat [of 50] by auto
  then have remainder: "order_remainder False sample_order_info 100 50 0 0 = Inr (0, 0)"
    by (simp add: order_remainder_def sample_order_info_def wrap_int64_id)
  have kind: "order_is_buy sample_order_info = Inr False"
    by (simp add: order_is_buy_def sample_order_info_def)
  have fill: "fill_order sample_fill = sample_order" "getNum sample_fill = 100" "spentNum sample_fill = 50"
    by (simp_all add: sample_fill_def)
  have object: "(case sample_order_json of Json_object obj \<Rightarrow> Inr () | _ \<Rightarrow> throw_error ''fillOrderInfo not map str'') = Inr ()"
    by (simp add: sample_order_json_def)
  have info: "expiredAt sample_order_info = 9" "payAsset sample_order_info = ''A''" "payNum sample_order_info = 50"
    "purchaseNum sample_order_info = 100" "purchaseAsset sample_order_info = ''B''"
    by (simp_all add: sample_order_info_def)
  show ?thesis
    unfolding checkOrder_def fill sample_order_owner sample_order_env_simps
    by (simp add: object sample_order_read sample_order_fees price remainder kind info sample_order_reads is_integer_def
        update_order_progress_def settle_order_def current_fast_map_get_set store_simps wrap_int64_id user_balance_change_def
        emit_event_def Let_def)
qed

text \<open>
  C9. When an order with 64 bit amounts and asset symbols without a dot is
  filled, its entry has spent more by exactly the positive amount of the fill, never more than the
  total the owner signed, and the fill respects the limit price of the order exactly.
\<close>

theorem exchange_fill_within_order:
  assumes "checkOrder en f st = Inr (co, st')" "storable (order_spent en st (co_id co))"
    "payNum (co_info co) < 2 ^ 63" "purchaseNum (co_info co) < 2 ^ 63" "getNum f < 2 ^ 63"
    "plain_asset (payAsset (co_info co))" "plain_asset (purchaseAsset (co_info co))"
  shows "order_spent en st' (co_id co) = order_spent en st (co_id co) + spentNum f \<and> 0 < spentNum f \<and>
    order_spent en st' (co_id co) \<le> payNum (co_info co) \<and>
    spentNum f * purchaseNum (co_info co) \<le> getNum f * payNum (co_info co)"
  using checkOrder_progress [OF assms(1-3,6,7)] checkOrder_price [OF assms(1,4,3,5)] by blast

theorem exchange_fill_within_order_witness:
  "\<exists>co st'. checkOrder sample_order_env sample_fill empty_invoke_result = Inr (co, st') \<and>
     order_spent sample_order_env st' ''hi'' = 50"
proof -
  obtain co st' where c: "checkOrder sample_order_env sample_fill empty_invoke_result = Inr (co, st')"
      "co_info co = sample_order_info" "co_id co = ''hi''"
    using sample_fill_checked by blast
  have zero: "order_spent sample_order_env empty_invoke_result ''hi'' = 0"
    by (simp add: order_spent_def sample_order_reads)
  have "order_spent sample_order_env st' ''hi'' = 50"
    using exchange_fill_within_order [OF c(1)]
    by (simp add: c(2,3) zero storable_def sample_order_info_def sample_fill_def plain_asset_def)
  then show ?thesis using c(1) by blast
qed

text \<open>
  C40. Whatever the fee receiver owned of the paid asset before the fill, after
  a fill with a positive fee the contract records exactly this one fee: earlier balances are lost.
\<close>

theorem exchange_fee_overwrites:
  assumes "checkOrder en f st = Inr (co, st')"
    "order_fee_receiver en st (co_info co) = Inr r" "order_spent_fee en st (co_info co) (spentNum f) = Inr fee" "0 < fee"
  shows "current_fast_map_get en st' r (payAsset (co_info co)) = cbor_reload (COT_INT (wrap_int64 fee))"
  using assms by (rule checkOrder_fee_receiver)

theorem exchange_fee_overwrites_witness:
  "\<exists>co st'. checkOrder sample_order_env sample_fill empty_invoke_result = Inr (co, st') \<and>
     current_fast_map_get sample_order_env empty_invoke_result ''fr'' ''A'' = COT_INT 1000 \<and>
     current_fast_map_get sample_order_env st' ''fr'' ''A'' = COT_INT 5"
proof -
  obtain co st' where c: "checkOrder sample_order_env sample_fill empty_invoke_result = Inr (co, st')"
      "co_info co = sample_order_info"
    using sample_fill_checked by blast
  have "spentNum sample_fill = 50" "payAsset sample_order_info = ''A''"
    by (simp_all add: sample_fill_def sample_order_info_def)
  moreover have "cbor_reload (COT_INT (wrap_int64 5)) = COT_INT 5"
    by (simp add: wrap_int64_id reload_nat_def int_max_def)
  ultimately have "current_fast_map_get sample_order_env st' ''fr'' ''A'' = COT_INT 5"
    using exchange_fee_overwrites [OF c(1), of "''fr''" 5] c(2) sample_order_fees by simp
  then show ?thesis using c(1) sample_order_reads(3) by blast
qed

text \<open>
  C22. When the owner cancels an order that has not been filled yet, the
  order is reported as cancelled and no later fill of it is accepted in the state reached.
\<close>

theorem exchange_cancel_fresh_rejects:
  assumes "getOrderOwnerAddressAndId en ord = Inr (''OK'', env_caller en, oid)"
    "\<not> is_map (current_fast_map_get en st oid ''info'')"
  shows "\<exists>st'. cancelOrder en ord ids st = Inr (ids @ [oid], st') \<and>
    (\<forall>g s. \<exists>e. checkOrder en \<lparr>fill_order = ord, getNum = g, spentNum = s\<rparr> st' = Inl e)"
proof -
  obtain st' where st': "cancelOrder en ord ids st = Inr (ids @ [oid], st')"
      "\<forall>pay get spent. update_order_progress en oid pay get spent st' = Inl (Uvm_exception ''order has been canceled'')"
    using cancel_fresh_order [OF assms] by blast
  have "\<exists>e. checkOrder en \<lparr>fill_order = ord, getNum = g, spentNum = s\<rparr> st' = Inl e" for g s
    using checkOrder_canceled [OF st'(2), of "\<lparr>fill_order = ord, getNum = g, spentNum = s\<rparr>"] assms(1) by simp
  then show ?thesis using st'(1) by blast
qed

theorem exchange_cancel_fresh_rejects_witness:
  "\<exists>st'. cancelOrder sample_order_env sample_order [] empty_invoke_result = Inr ([''hi''], st') \<and>
     (\<exists>e. checkOrder sample_order_env \<lparr>fill_order = sample_order, getNum = 100, spentNum = 50\<rparr> st' = Inl e)"
  using exchange_cancel_fresh_rejects [of sample_order_env sample_order "''hi''" empty_invoke_result "[]"]
    sample_order_owner sample_order_reads(5) by auto

text \<open>
  When the owner cancels an order that has been filled in part, the
  order is reported as cancelled, but its entry is the one from before: it has no state, so the
  order can still be filled.
\<close>

lemma exchange_cancel_partial_ignored:
  assumes "cancelOrder en ord ids st = Inr (ids', st')"
    "getOrderOwnerAddressAndId en ord = Inr (''OK'', env_caller en, oid)"
    "is_map (current_fast_map_get en st oid ''info'')" "order_state en st oid = None"
  shows "ids' = ids @ [oid] \<and> order_state en st' oid = None \<and>
    current_fast_map_get en st' oid ''info'' = cbor_reload (current_fast_map_get en st oid ''info'')"
  using cancel_filled_order [OF assms] by blast

definition sample_partial :: contract_invoke_result where
  "sample_partial = current_fast_map_set sample_order_env ''hi'' ''info''
     (COT_MAP [(''gotNum'', COT_INT 2), (''spentNum'', COT_INT 1)]) empty_invoke_result"

lemma sample_partial_read:
  "current_fast_map_get sample_order_env sample_partial ''hi'' ''info''
     = COT_MAP [(''gotNum'', COT_INT 2), (''spentNum'', COT_INT 1)]"
  by (simp add: sample_partial_def store_simps reload_nat_def int_max_def)

lemma exchange_cancel_partial_ignored_witness:
  "\<exists>st'. cancelOrder sample_order_env sample_order [] sample_partial = Inr ([''hi''], st') \<and>
     current_fast_map_get sample_order_env st' ''hi'' ''info''
       = COT_MAP [(''gotNum'', COT_INT 2), (''spentNum'', COT_INT 1)]"
proof -
  have none: "order_state sample_order_env sample_partial ''hi'' = None"
    by (simp add: order_state_def sample_partial_read std_map_find_def)
  obtain ids st' where c: "cancelOrder sample_order_env sample_order [] sample_partial = Inr (ids, st')"
    using sample_order_owner none sample_partial_read
    by (auto simp: cancelOrder_def caller_address_string_def order_state_def Let_def)
  show ?thesis
    using exchange_cancel_partial_ignored [OF c, of "''hi''"] c sample_order_owner none
    by (auto simp: sample_partial_read reload_nat_def int_max_def)
qed

section \<open>Object database and undo history\<close>

text \<open>
  The sample database has one kind of objects, accounts, in a simple index; the data of an object is a
  number, its JSON value is an array of its id and its data, and every state has the hash 1.
\<close>

definition sample_undo_env :: "nat undo_env" where
  "sample_undo_env = \<lparr>ue_to_variant = \<lambda>obj. Json_array [Json_int (uint (obj_id obj)), Json_int (int (obj_data obj))],
     ue_from_variant = \<lambda>_ _ var. (case var of Json_array [Json_int a, Json_int b] \<Rightarrow> Inr \<lparr>obj_id = word_of_int a, obj_data = nat b\<rparr>
       | _ \<Rightarrow> Inl (Fc_assert ''bad cast'')),
     ue_json_reload = Inr, ue_hash = \<lambda>_. 1\<rparr>"

definition sample_accounts :: "nat derived_index" where
  "sample_accounts = Simple \<lparr>si_objects = [], si_default = 0\<rparr>"

definition sample_object_db :: "nat object_database" where
  "sample_object_db = add_index 1 2 sample_accounts (new_object_database\<lparr>db_undo := storage_open (db_undo new_object_database)\<rparr>)"

definition sample_session_db :: "nat object_database" where
  "sample_session_db = snd (with_undo (start_undo_session sample_undo_env False) sample_object_db)"

definition sample_changed_db :: "nat object_database" where
  "sample_changed_db = snd (db_create 1 2 (\<lambda>obj. obj\<lparr>obj_data := 7\<rparr>) sample_session_db)"

lemma sample_undo_env_faithful: "faithful_variants sample_undo_env"
  by (simp add: faithful_variants_def sample_undo_env_def)

lemma sample_object_db_ok:
  "undo_ok sample_undo_env sample_object_db" "undo_states sample_undo_env sample_object_db = []"
  "can_start sample_undo_env sample_object_db" "ud_active_sessions (db_undo sample_object_db) = 0"
proof -
  let ?db = "new_object_database\<lparr>db_undo := storage_open (db_undo new_object_database)\<rparr> :: nat object_database"
  note new = new_object_database_ok [of sample_undo_env]
  have "undo_ok sample_undo_env ?db" "undo_states sample_undo_env ?db = []"
    using open_storage_ok [OF new] by simp_all
  then show ok: "undo_ok sample_undo_env sample_object_db" "undo_states sample_undo_env sample_object_db = []"
    unfolding sample_object_db_def
    by (auto intro!: add_index_ok simp: sample_accounts_def simple_wf_def simple_find_def new_object_database_def)
  show "ud_active_sessions (db_undo sample_object_db) = 0"
    by (simp add: sample_object_db_def add_index_undo storage_open_def new_object_database_def new_undo_database_def)
  show "can_start sample_undo_env sample_object_db"
    using ok(2) by (simp add: can_start_def undo_states_def spillable_def sample_object_db_def add_index_undo storage_open_def
        new_object_database_def new_undo_database_def GRAPHENE_UNDO_BUFF_MAX_SIZE_def)
qed

lemma sample_session_start:
  "with_undo (start_undo_session sample_undo_env False) sample_object_db
    = (Inr \<lparr>ses_apply_undo = True, ses_disable_on_exit = False\<rparr>, sample_session_db)"
  "undo_ok sample_undo_env sample_session_db" "undo_states sample_undo_env sample_session_db = [empty_undo_state]"
  "ud_active_sessions (db_undo sample_session_db) = 1"
  using start_refines [OF sample_undo_env_faithful sample_object_db_ok(1,3)] sample_object_db_ok(2,4)
  by (auto simp: sample_session_db_def)

lemma sample_session_index:
  "get_index sample_session_db 1 2 = Inr \<lparr>pi_derived = sample_accounts, pi_next_id = pack_id 1 2 0\<rparr>"
proof -
  have "get_index sample_object_db 1 2 = Inr \<lparr>pi_derived = sample_accounts, pi_next_id = pack_id 1 2 0\<rparr>"
    by (simp add: sample_object_db_def add_index_def get_index_def new_object_database_def Let_def)
  then show ?thesis by (simp add: sample_session_db_def with_undo_def split: prod.splits)
qed

lemma sample_change: "change sample_session_db sample_changed_db"
proof -
  let ?k = "pack_id 1 2 0"
  have parts: "id_space ?k = 1" "id_type ?k = 2" "id_instance ?k = 0" by (simp_all add: pack_id_parts)
  have "next_ids sample_session_db ?k = Some ?k" "removable sample_session_db ?k"
    using sample_session_index by (simp_all add: next_ids_def removable_def parts sample_accounts_def)
  then show ?thesis
    by (rule created [where c = "\<lambda>obj. obj\<lparr>obj_data := 7\<rparr>" and r = "fst (db_create 1 2 (\<lambda>obj. obj\<lparr>obj_data := 7\<rparr>) sample_session_db)"])
      (simp_all add: parts sample_changed_db_def)
qed



text \<open>
  When a session object goes out of scope without commit, merge or undo, its destructor
  succeeds and every object and every id counter of the database is as it was before the session,
  whatever objects were created, modified and removed in between.
\<close>

lemma undo_session_restores:
  assumes "faithful_variants en" "undo_ok en db" "can_start en db" "ud_active_sessions (db_undo db) + 1 \<noteq> 0"
    "with_undo (start_undo_session en False) db = (Inr ses, db1)" "change\<^sup>*\<^sup>* db1 db2"
  shows "\<exists>db3. session_destroy en ses db2 = (Inr (), db3) \<and> undo_ok en db3 \<and> view db3 = view db \<and> next_ids db3 = next_ids db"
  using session_restores [OF assms] .

lemma undo_session_restores_witness:
  "\<exists>db3. session_destroy sample_undo_env \<lparr>ses_apply_undo = True, ses_disable_on_exit = False\<rparr> sample_changed_db = (Inr (), db3) \<and>
    undo_ok sample_undo_env db3 \<and> view db3 = view sample_object_db \<and> next_ids db3 = next_ids sample_object_db"
  by (rule undo_session_restores [OF sample_undo_env_faithful sample_object_db_ok(1,3) _ sample_session_start(1)])
    (use sample_change sample_object_db_ok(4) in simp_all)

text \<open>
  Merging the youngest session into the one below and undoing the merged session gives the
  same objects and id counters as undoing both sessions one after the other; none of these operations
  fails.
\<close>

lemma undo_merge_equivalent:
  assumes "faithful_variants en" "undo_ok en db" "2 \<le> undo_size (db_undo db)" "2 \<le> unat (ud_active_sessions (db_undo db))"
  shows "\<exists>merged m1 u1 u2. with_undo (undo_merge en) db = (Inr (), merged) \<and> undo en merged = (Inr (), m1) \<and>
    undo en db = (Inr (), u1) \<and> undo en u1 = (Inr (), u2) \<and> view m1 = view u2 \<and> next_ids m1 = next_ids u2"
  using merge_then_undo [OF assms] .

lemma sample_second_session:
  "\<exists>db. undo_ok sample_undo_env db \<and> undo_size (db_undo db) = 2 \<and> ud_active_sessions (db_undo db) = 2"
proof -
  have h: "ue_hash sample_undo_env s = 1" for s by (simp add: sample_undo_env_def)
  have "all_states sample_undo_env (db_undo sample_session_db) = [empty_undo_state]"
    using sample_session_start(3) by (simp add: undo_states_def)
  moreover have u: "ud_open (db_undo sample_session_db)" "ud_max_size (db_undo sample_session_db) = 1440"
    by (simp_all add: sample_session_db_def with_undo_def start_undo_session_def Let_def run_bind_def run_defs sample_object_db_def add_index_undo
        storage_open_def new_object_database_def new_undo_database_def GRAPHENE_UNDO_BUFF_MAX_SIZE_def undo_size_def)
  ultimately have "can_start sample_undo_env sample_session_db"
    by (simp add: can_start_def spillable_def state_storable_def state_lists_ok_def all_storable_def std_map_wf_def
        empty_undo_state_def state_hash_def undo_id_def h GRAPHENE_UNDO_BUFF_MAX_SIZE_def)
  then obtain db where db: "undo_ok sample_undo_env db" "undo_states sample_undo_env db = [empty_undo_state, empty_undo_state]"
      "ud_active_sessions (db_undo db) = 2"
    using start_refines [OF sample_undo_env_faithful sample_session_start(2)] sample_session_start(3,4) u(2) by auto
  then show ?thesis using undo_ok_back(2) [OF db(1)] by auto
qed

lemma undo_merge_equivalent_witness:
  "\<exists>db merged m1 u1 u2. with_undo (undo_merge sample_undo_env) db = (Inr (), merged) \<and> undo sample_undo_env merged = (Inr (), m1) \<and>
    undo sample_undo_env db = (Inr (), u1) \<and> undo sample_undo_env u1 = (Inr (), u2) \<and> view m1 = view u2 \<and> next_ids m1 = next_ids u2"
proof -
  obtain db where db: "undo_ok sample_undo_env db" "undo_size (db_undo db) = 2" "ud_active_sessions (db_undo db) = 2"
    using sample_second_session by blast
  then show ?thesis
    by (intro exI [of "\<lambda>db. \<exists>merged. _ db merged" db] undo_merge_equivalent [OF sample_undo_env_faithful db(1)]) simp_all
qed



text \<open>
  C30: a history whose states can be stored and have different hashes survives a restart: after
  \<^verbatim>\<open>save_to_file\<close> a new process that calls \<^verbatim>\<open>from_file\<close> on the files has the same states in the same order,
  the youngest (at most twenty) of them in memory.
\<close>

theorem undo_restart_roundtrip:
  assumes "faithful_variants en" "history en u ss" "spillable en ss" "ud_open u" "ss \<noteq> []"
  shows "\<exists>u1 u2. undo_save_to_file en u = (Inr (), u1) \<and> undo_from_file en (restarted u1) = (Inr (), u2) \<and>
    history en u2 ss \<and> length (ud_back u2) = min (length ss) GRAPHENE_UNDO_BUFF_MAX_SIZE"
  using restart_keeps_history [OF assms] .

theorem undo_restart_roundtrip_witness:
  "\<exists>u1 u2. undo_save_to_file sample_undo_env (new_undo_database\<lparr>ud_open := True, ud_back := [empty_undo_state]\<rparr>) = (Inr (), u1) \<and>
    undo_from_file sample_undo_env (restarted u1) = (Inr (), u2) \<and> history sample_undo_env u2 [empty_undo_state] \<and>
    length (ud_back u2) = min (length [empty_undo_state :: nat undo_state]) GRAPHENE_UNDO_BUFF_MAX_SIZE"
  by (rule undo_restart_roundtrip [OF sample_undo_env_faithful])
    (simp_all add: history_def history_split_def new_undo_database_def spillable_def state_storable_def state_lists_ok_def
      all_storable_def std_map_wf_def empty_undo_state_def state_hash_def undo_id_def sample_undo_env_def)




text \<open>
  C36: undo restores old values before it removes new objects. When a unique key of an object moved to
  another object of the same kind within the session, undo fails, the first object is gone from the
  database, and the history is left disabled.
\<close>

theorem undo_unique_key_fails:
  assumes "\<not> ud_disabled (db_undo db)" "ud_active_sessions (db_undo db) \<noteq> 0" "ud_back (db_undo db) = bs @ [s]"
    and "old_values s = (oid, old) # olds" "obj_id old = oid"
    and "get_index db (id_space oid) (id_type oid) = Inr \<lparr>pi_derived = Generic gi, pi_next_id = n\<rparr>"
      "std_map_find (gi_indices gi) oid = Some cur" "obj_id cur = oid"
    and "(oid', x) \<in> set (gi_indices gi)" "oid' \<noteq> oid" "gi_clash gi x old"
  shows "\<exists>db'. undo en db = (Inl (Fc_assert ''Could not modify object, most likely a index constraint was violated''), db') \<and>
    find_object db' oid = Inr None \<and> ud_disabled (db_undo db')"
  using undo_unique_key [OF assms] .

text \<open>In the sample session object 0 gave its name 5 to the new object 1.\<close>

definition sample_named :: "nat generic_index" where
  "sample_named = \<lparr>gi_indices = [(pack_id 1 2 0, \<lparr>obj_id = pack_id 1 2 0, obj_data = 6\<rparr>), (pack_id 1 2 1, \<lparr>obj_id = pack_id 1 2 1, obj_data = 5\<rparr>)],
     gi_clash = \<lambda>a b. obj_data a = obj_data b, gi_default = 0\<rparr>"

definition sample_named_db :: "nat object_database" where
  "sample_named_db = (add_index 1 2 (Generic sample_named) new_object_database)\<lparr>db_undo := new_undo_database\<lparr>ud_active_sessions := 1,
     ud_disabled := False, ud_back := [empty_undo_state\<lparr>old_values := [(pack_id 1 2 0, \<lparr>obj_id = pack_id 1 2 0, obj_data = 5\<rparr>)],
       new_ids := [pack_id 1 2 1]\<rparr>]\<rparr>\<rparr>"

theorem undo_unique_key_fails_witness:
  "\<exists>db'. undo sample_undo_env sample_named_db
      = (Inl (Fc_assert ''Could not modify object, most likely a index constraint was violated''), db') \<and>
    find_object db' (pack_id 1 2 0) = Inr None \<and> ud_disabled (db_undo db')"
proof -
  have parts: "id_space (pack_id 1 2 0) = 1" "id_type (pack_id 1 2 0) = 2" "(pack_id 1 2 1 :: object_id_type) \<noteq> pack_id 1 2 0"
    by (simp_all add: pack_id_parts) (simp add: pack_id_def)
  have "get_index sample_named_db 1 2 = Inr \<lparr>pi_derived = Generic sample_named, pi_next_id = pack_id 1 2 0\<rparr>"
    by (simp add: sample_named_db_def add_index_def get_index_def new_object_database_def Let_def)
  then show ?thesis
    by (intro undo_unique_key_fails [where bs = "[]" and s = "empty_undo_state\<lparr>old_values := [(pack_id 1 2 0, \<lparr>obj_id = pack_id 1 2 0, obj_data = 5\<rparr>)], new_ids := [pack_id 1 2 1]\<rparr>" and olds = "[]" and gi = sample_named and n = "pack_id 1 2 0" and oid' = "pack_id 1 2 1"
        and old = "\<lparr>obj_id = pack_id 1 2 0, obj_data = 5\<rparr>" and cur = "\<lparr>obj_id = pack_id 1 2 0, obj_data = 6\<rparr>" and x = "\<lparr>obj_id = pack_id 1 2 1, obj_data = 5\<rparr>"])
      (simp_all add: parts sample_named_db_def new_undo_database_def empty_undo_state_def sample_named_def std_map_find_def)
qed

text \<open>
  Reading the text of an object id, the decimal space, type and instance separated by dots, gives the
  id back, for all ids.
\<close>

lemma object_id_text_roundtrip: "object_id_from_variant (object_id_to_variant oid) = Inr oid"
  by (rule object_id_text)

section \<open>The fork database\<close>

text \<open>
  The samples of this section: a first block with two children, in an environment whose block hash is the
  number in the header.
\<close>

definition sample_fork_db :: "(nat, nat) fork_database" where
  "sample_fork_db = new_fork_database\<lparr>fd_heap := [sample_fork_item sample_genesis None, sample_fork_item (sample_child 2) (Some 0),
     sample_fork_item (sample_child 3) (Some 0)], fd_index := [0, 1, 2], fd_head := Some 1\<rparr>"

definition sample_chain_db :: "(nat, nat) fork_database" where
  "sample_chain_db = sample_fork_db\<lparr>fd_index := [0, 1]\<rparr>"

lemma sample_fork_items:
  "item sample_fork_db 0 = sample_fork_item sample_genesis None" "item sample_fork_db 1 = sample_fork_item (sample_child 2) (Some 0)"
  "item sample_fork_db 2 = sample_fork_item (sample_child 3) (Some 0)"
  "item sample_chain_db 0 = sample_fork_item sample_genesis None" "item sample_chain_db 1 = sample_fork_item (sample_child 2) (Some 0)"
  "fd_index sample_fork_db = [0, 1, 2]" "fd_index sample_chain_db = [0, 1]" "fd_head sample_fork_db = Some 1" "fd_head sample_chain_db = Some 1"
  by (simp_all add: item_def sample_chain_db_def sample_fork_db_def)

lemmas sample_fork_simps = sample_block_ids sample_fork_items sample_fork_item_def make_fork_item_def previous_id_def

lemma sample_fork_ok: "fork_ok sample_block_env sample_fork_db" "fork_ok sample_block_env sample_chain_db"
  by (auto simp: fork_ok_def item_def heap_ok_def item_ok_def alive_def sample_chain_db_def sample_fork_db_def new_fork_database_def sample_fork_simps)



text \<open>
  C7: when the head is the highest block and all blocks lie in the window of \<^verbatim>\<open>_max_size\<close> blocks below it,
  this holds again after a block was pushed. The block is then known, and the head that \<^verbatim>\<open>push_block\<close>
  returns is at least as high as it.
\<close>

theorem fork_push_head:
  assumes "fork_ok en db" "head_highest db" "in_window db" "fork_push_block en b db = (Inr r, db')"
  shows "\<exists>h. r = Some h \<and> fd_head db' = Some h \<and> fork_is_known_block db' (block_id en b) \<and> block_num b \<le> fi_num (item db' h) \<and>
    head_highest db' \<and> in_window db'"
  using fork_push_block_head [OF assms] .

theorem fork_push_head_witness:
  "\<exists>r db'. fork_push_block sample_block_env sample_genesis new_fork_database = (Inr r, db') \<and>
    (\<exists>h. r = Some h \<and> fd_head db' = Some h \<and> fork_is_known_block db' (block_id sample_block_env sample_genesis) \<and>
      block_num sample_genesis \<le> fi_num (item db' h) \<and> head_highest db' \<and> in_window db')"
proof -
  obtain r db' where p: "fork_push_block sample_block_env sample_genesis new_fork_database = (Inr r, db')"
    by (simp add: fork_push_block_def make_shared_def push_item_def too_old_def link_item_def new_fork_database_def run_bind_def
        run_update_def run_get_def advance_head_def)
  have "head_highest (new_fork_database :: (nat, nat) fork_database)" "in_window (new_fork_database :: (nat, nat) fork_database)"
    by (simp_all add: head_highest_def in_window_def new_fork_database_def)
  then show ?thesis using p fork_push_head [OF new_fork_database_ok _ _ p] by blast
qed

text \<open>
  A recent block whose predecessor is not known is refused, and it is not kept: the index of
  unlinked blocks is the same as before, although the comment on \<^verbatim>\<open>push_block\<close> says that such a block
  is cached.
\<close>

lemma fork_push_unlinkable_lost:
  assumes "fork_ok en db" "fd_head db = Some h" "blk_previous b \<noteq> 0" "index_find db (fd_index db) (blk_previous b) = None"
    and "max 0 (uint (fi_num (item db h)) - uint (fd_max_size db)) < uint (block_num b)"
  shows "\<exists>db'. fork_push_block en b db = (Inl Unlinkable_block_exception, db') \<and>
    fd_index db' = fd_index db \<and> fd_unlinked db' = fd_unlinked db \<and> fd_head db' = fd_head db"
  using fork_push_unlinkable [OF assms(2-4) _ _ assms(5)] fork_okD [OF assms(1)] assms(2) by blast

lemma fork_push_unlinkable_lost_witness:
  "\<exists>db'. fork_push_block sample_block_env (sample_block 5 4 []) sample_fork_db = (Inl Unlinkable_block_exception, db') \<and>
    fd_index db' = fd_index sample_fork_db \<and> fd_unlinked db' = fd_unlinked sample_fork_db \<and> fd_head db' = fd_head sample_fork_db"
  by (rule fork_push_unlinkable_lost [OF sample_fork_ok(1), of 1])
    (simp_all add: sample_fork_simps index_find_def sample_block_def block_num_def num_from_id_def drop_bit_eq_div sample_fork_db_def new_fork_database_def item_def)

text \<open>
  \<^verbatim>\<open>fetch_branch_from\<close> always ends, with branches or with an exception.
\<close>

lemma fork_branch_terminates:
  assumes "fork_ok en db"
  shows "\<exists>r. fetch_branch_from db first second = Some r"
  using fetch_branch_from_ends [OF assms] .

lemma fork_branch_terminates_witness: "\<exists>r. fetch_branch_from sample_fork_db (2 ^ 129 + 2) (2 ^ 129 + 3) = Some r"
  by (rule fork_branch_terminates [OF sample_fork_ok(1)])

text \<open>
  C11: when the blocks \<open>first\<close> and \<open>second\<close> are known and linked to blocks with the same
  predecessor, \<^verbatim>\<open>fetch_branch_from\<close> succeeds. Each result is a chain that begins with the given block and
  follows the links back, both end above the same block, and this is the most recent such block: no
  earlier elements of the two branches have the same predecessor.
\<close>

theorem fork_branch_common_ancestor:
  assumes "fork_ok en db" "index_find db (fd_index db) first = Some (hd xs)" "index_find db (fd_index db) second = Some (hd ys)"
    and "branch db xs" "branch db ys" "previous_id (item db (last xs)) = previous_id (item db (last ys))"
  shows "\<exists>fs ss. fetch_branch_from db first second = Some (Inr (fs, ss)) \<and> branch db fs \<and> branch db ss \<and>
    hd fs = hd xs \<and> hd ss = hd ys \<and> previous_id (item db (last fs)) = previous_id (item db (last ss)) \<and>
    (\<forall>x \<in> set (butlast fs). \<forall>y \<in> set (butlast ss). previous_id (item db x) \<noteq> previous_id (item db y))"
proof -
  obtain fs ss where f: "fetch_branch_from db first second = Some (Inr (fs, ss))"
    using fetch_branch_success [OF assms] by blast
  then show ?thesis
    using fetch_branch_recent [OF assms(1) f] assms(2,3)
    by (rule_tac fetch_branch_Inr [OF assms(1) f]) (auto intro!: exI [of _ fs] exI [of _ ss] simp: last_append)
qed

theorem fork_branch_common_ancestor_witness:
  "\<exists>fs ss. fetch_branch_from sample_fork_db (2 ^ 129 + 2) (2 ^ 129 + 3) = Some (Inr (fs, ss)) \<and> branch sample_fork_db fs \<and>
    branch sample_fork_db ss \<and> hd fs = hd [1] \<and> hd ss = hd [2] \<and>
    previous_id (item sample_fork_db (last fs)) = previous_id (item sample_fork_db (last ss)) \<and>
    (\<forall>x \<in> set (butlast fs). \<forall>y \<in> set (butlast ss). previous_id (item sample_fork_db x) \<noteq> previous_id (item sample_fork_db y))"
  by (rule fork_branch_common_ancestor [OF sample_fork_ok(1)])
    (simp_all add: index_find_def branch_def sample_fork_simps sample_fork_simps [unfolded One_nat_def], simp_all add: sample_fork_db_def)



text \<open>
  C38: when the index has two blocks with the same predecessor, a restart loses blocks: afterwards
  no two blocks have the same predecessor.
\<close>

theorem fork_restart_loses_siblings:
  assumes "fork_ok en db" "fd_head db = Some h" "mset (hash_order (fd_index db)) = mset (fd_index db)"
    and "a \<in> set (fd_index db)" "b \<in> set (fd_index db)" "a \<noteq> b" "previous_id (item db a) = previous_id (item db b)"
  shows "\<exists>data db'. fork_save_to_file hash_order db = Some data \<and> fork_from_file (Some (Inr data)) new_fork_database = (Inr (), db') \<and>
    length (fd_index db') < length (fd_index db) \<and> distinct (map (\<lambda>a. previous_id (item db' a)) (fd_index db'))"
  using restart_loses_siblings [of en db h hash_order, OF assms] .

theorem fork_restart_loses_siblings_witness:
  "\<exists>data db'. fork_save_to_file rev sample_fork_db = Some data \<and> fork_from_file (Some (Inr data)) new_fork_database = (Inr (), db') \<and>
    length (fd_index db') < length (fd_index sample_fork_db) \<and> distinct (map (\<lambda>a. previous_id (item db' a)) (fd_index db'))"
  by (rule fork_restart_loses_siblings [of sample_block_env sample_fork_db 1 rev 1 2, OF sample_fork_ok(1)])
    (simp_all add: sample_fork_simps sample_fork_simps [unfolded One_nat_def])



section \<open>The block database and the chain database\<close>

text \<open>
  C15: the two files of a well-formed block database stand for a map from numbers to blocks, and the
  lookups are the lookups of this map: \<^verbatim>\<open>fetch_by_number\<close> reads it, \<^verbatim>\<open>fetch_optional\<close> also wants the id to be the given one,
  \<^verbatim>\<open>contains\<close> succeeds and tells whether \<^verbatim>\<open>fetch_optional\<close> finds a block, and \<^verbatim>\<open>last\<close> and \<^verbatim>\<open>last_id\<close> give the block
  with the highest number, past all the entries of removed blocks.
\<close>

theorem block_lookup_refines:
  assumes "bd_wf en cd db"
  shows "bd_fetch_by_number en cd db num = live cd db num \<and>
    bd_fetch_optional en cd db bid = (case live cd db (num_from_id bid) of Some b \<Rightarrow> if block_id en b = bid then Some b else None | None \<Rightarrow> None) \<and>
    bd_contains db bid = Inr (bd_fetch_optional en cd db bid \<noteq> None) \<and>
    bd_last cd db = (case last_num cd db of Some num \<Rightarrow> live cd db num | None \<Rightarrow> None) \<and>
    bd_last_id db = map_option (block_id en) (bd_last cd db)"
proof -
  have "(\<exists>b. live cd db (num_from_id bid) = Some b \<and> block_id en b = bid) \<longleftrightarrow> bd_fetch_optional en cd db bid \<noteq> None"
    by (simp add: fetch_optional_live [OF assms] split: option.splits)
  then show ?thesis
    using fetch_by_number_live [OF assms] fetch_optional_live [OF assms] contains_live [OF assms] last_live [OF assms] by simp
qed

theorem block_lookup_refines_witness:
  "bd_fetch_by_number sample_block_env sample_codec (sample_blocks [sample_genesis, sample_child 2]) 2 = Some (sample_child 2) \<and>
   bd_contains (sample_blocks [sample_genesis, sample_child 2]) (2 ^ 129 + 2) = Inr True \<and>
   bd_fetch_optional sample_block_env sample_codec (sample_blocks [sample_genesis, sample_child 2]) (2 ^ 129 + 2) = Some (sample_child 2) \<and>
   bd_last_id (sample_blocks [sample_genesis, sample_child 2]) = Some (2 ^ 129 + 2)"
proof -
  let ?db = "sample_blocks [sample_genesis, sample_child 2]"
  have w: "bd_wf sample_block_env sample_codec ?db" "live sample_codec ?db = [1 \<mapsto> sample_genesis, 2 \<mapsto> sample_child 2]"
    using sample_blocks_wf [of "[sample_genesis, sample_child 2]"] sample_packs by (simp_all add: sample_block_ids)
  have n: "num_from_id (2 ^ 129 + 2) = 2" by (simp add: num_from_id_def drop_bit_eq_div)
  have "{n. live sample_codec ?db n \<noteq> None} = {1, 2}" by (auto simp: w(2))
  then have l: "last_num sample_codec ?db = Some 2" by (simp add: last_num_def Let_def)
  show ?thesis
    using block_lookup_refines [OF w(1), of 2 "2 ^ 129 + 2", unfolded n w(2) l] by (simp add: sample_block_ids)
qed

text \<open>
  C14: storing a block in the block database is an update of the map from numbers to blocks, and removing it
  afterwards is the removal of its number; both keep the files well formed, and no other block is touched.
\<close>

theorem block_store_refines:
  assumes "bd_wf en cd db" "block_storable en cd b db"
  shows "\<exists>db1 db2. bd_store en cd (block_id en b) b db = (Inr (), db1) \<and> bd_wf en cd db1 \<and> live cd db1 = (live cd db)(block_num b \<mapsto> b) \<and>
    bd_remove (block_id en b) db1 = (Inr (), db2) \<and> bd_wf en cd db2 \<and> live cd db2 = (live cd db)(block_num b := None)"
proof -
  obtain db1 where "bd_store en cd (block_id en b) b db = (Inr (), db1)" "bd_wf en cd db1" "live cd db1 = (live cd db)(block_num b \<mapsto> b)"
    using bd.put_look [OF assms] by blast
  then show ?thesis using bd.put_then_del [OF assms] by auto
qed

theorem block_store_refines_witness:
  "\<exists>db1 db2. bd_store sample_block_env sample_codec (block_id sample_block_env (sample_child 2)) (sample_child 2) (sample_blocks [sample_genesis])
      = (Inr (), db1) \<and> bd_wf sample_block_env sample_codec db1 \<and>
    live sample_codec db1 = (live sample_codec (sample_blocks [sample_genesis]))(block_num (sample_child 2) \<mapsto> sample_child 2) \<and>
    bd_remove (block_id sample_block_env (sample_child 2)) db1 = (Inr (), db2) \<and> bd_wf sample_block_env sample_codec db2 \<and>
    live sample_codec db2 = (live sample_codec (sample_blocks [sample_genesis]))(block_num (sample_child 2) := None)"
  by (rule block_store_refines)
    (use sample_blocks_wf [of "[sample_genesis]"] sample_packs in \<open>auto simp: block_storable_def packs_def\<close>)

text \<open>
  After a block was removed, \<^verbatim>\<open>contains\<close> and \<^verbatim>\<open>fetch_optional\<close> no longer know it, but
  \<^verbatim>\<open>fetch_block_id\<close> still answers with its id, where a number without a block is to raise an exception.
\<close>

lemma block_removed_id_fetched:
  assumes "bd_wf en cd db" "live cd db num = Some b"
  shows "\<exists>db'. bd_remove (block_id en b) db = (Inr (), db') \<and> bd_contains db' (block_id en b) = Inr False \<and>
    bd_fetch_optional en cd db' (block_id en b) = None \<and> bd_fetch_block_id db' num = Inr (block_id en b)"
  using removed_id_fetched [OF assms] .

lemma block_removed_id_fetched_witness:
  "\<exists>db'. bd_remove (block_id sample_block_env sample_genesis) (sample_blocks [sample_genesis]) = (Inr (), db') \<and>
    bd_contains db' (block_id sample_block_env sample_genesis) = Inr False \<and>
    bd_fetch_optional sample_block_env sample_codec db' (block_id sample_block_env sample_genesis) = None \<and>
    bd_fetch_block_id db' 1 = Inr (block_id sample_block_env sample_genesis)"
  by (rule block_removed_id_fetched) (use sample_blocks_wf [of "[sample_genesis]"] sample_packs in \<open>simp_all add: sample_block_ids\<close>)













section \<open>The CBOR codec\<close>




text \<open>
  C29: on every input the loop of the decoder ends, with a value or an exception.
\<close>

theorem cbor_decode_terminates: "\<exists>r. decode_run lexical_cast data = Some r"
  by (rule decode_run_ends)

text \<open>
  A floating point number whose text has 20 to 23 characters, such as every one from 10 to 99999, can be
  encoded, but the bytes do not decode: the size of the text shares the first byte with the codes for truth values and null.
\<close>

lemma cbor_float_lost:
  assumes "length t \<in> {20..23}" "hd t \<in> set ''-0123456789''"
  shows "\<exists>bs. write_cbor_object (COT_FLOAT t) = Inr bs \<and>
    decode_run lexical_cast bs = Some (Inl (Cbor_decode_exception ''multiple cbor object when decoding''))"
  using float_not_decoded [OF assms] by simp

lemma cbor_float_lost_witness:
  "\<exists>bs. write_cbor_object (COT_FLOAT ''10.00000000000000000'') = Inr bs \<and>
    decode_run Some bs = Some (Inl (Cbor_decode_exception ''multiple cbor object when decoding''))"
  by (rule cbor_float_lost) simp_all

text \<open>
  An integer below \<open>- 2 ^ 32\<close> that is followed by a short value in an array can be encoded, but the
  bytes do not decode: after a negative integer of eight bytes the decoder does not return to its first state.
\<close>

lemma cbor_big_negative_lost:
  assumes "- (2 ^ 63) \<le> n" "n < - (2 ^ 32)" "write_cbor_object v = Inr b" "length b < 8"
  shows "\<exists>bs. write_cbor_object (COT_ARRAY [COT_INT n, v]) = Inr bs \<and>
    decode_run lexical_cast bs = Some (Inl (Cbor_decode_exception ''cbor decode fail with not finished structures''))"
  using big_negative_not_decoded [OF assms] assms(3) by simp

lemma cbor_big_negative_lost_witness:
  "\<exists>bs. write_cbor_object (COT_ARRAY [COT_INT (- (2 ^ 40)), COT_NULL]) = Inr bs \<and>
    decode_run Some bs = Some (Inl (Cbor_decode_exception ''cbor decode fail with not finished structures''))"
  by (rule cbor_big_negative_lost [where b = "[0xf6]"]) simp_all

end
